(* ===== verification/Prelude.thy ===== *)
theory Prelude
  imports Main "HOL-Library.Word" "HOL-Library.Multiset" "HOL-Library.Product_Lexorder"
begin

text \<open>
  Shared vocabulary of the development: machine integer names, the result type in which a
  failed check, an out-of-range access or a null dereference of the C++ code is a value, the
  ordered containers of the C++ library (\<open>std::set\<close> and \<open>std::map\<close> as sorted lists), and the
  generic lemmas that the component theories use.
\<close>

section \<open>Machine integers\<close>

type_synonym u8 = "8 word"
type_synonym u16 = "16 word"
type_synonym u32 = "32 word"
type_synonym u64 = "64 word"

text \<open>
  \<open>size_t\<close> as an integer below \<open>2^64\<close>, where an operation needs it as a list position too.
\<close>

type_synonym size_t = int

definition size_add :: "size_t \<Rightarrow> size_t \<Rightarrow> size_t" where
  "size_add a b = (a + b) mod 2 ^ 64"

definition size_sub :: "size_t \<Rightarrow> size_t \<Rightarrow> size_t" where
  "size_sub a b = (a - b) mod 2 ^ 64"

lemma size_add_small [simp]: "0 \<le> a \<Longrightarrow> 0 \<le> b \<Longrightarrow> a + b < 2 ^ 64 \<Longrightarrow> size_add a b = a + b"
  by (simp add: size_add_def)

lemma size_sub_small [simp]: "b \<le> a \<Longrightarrow> 0 \<le> b \<Longrightarrow> a < 2 ^ 64 \<Longrightarrow> size_sub a b = a - b"
  by (simp add: size_sub_def)

text \<open>
  \<open>fml::TimePoint\<close> counts nanoseconds in an \<open>int64_t\<close>.  The modelled code only compares time
  points, so the model uses \<open>int\<close>, with the largest time point written out.
\<close>

type_synonym time_point = int

definition TimePoint_Max :: time_point where
  "TimePoint_Max = 2 ^ 63 - 1"

section \<open>Faults and results\<close>

text \<open>
  \<open>FML_CHECK\<close> and \<open>FML_DCHECK\<close> end the process when their condition is false (the latter in
  debug builds), \<open>map.at\<close> throws \<open>std::out_of_range\<close>, a failed character conversion throws
  \<open>std::range_error\<close>, \<open>std::get\<close> of the wrong alternative throws \<open>std::bad_variant_access\<close>, and some accesses are undefined
  behaviour.  Each is a value of type \<open>fault\<close>; an operation that can fail returns
  \<open>'a result\<close>, with \<open>Inl\<close> the fault.
\<close>

datatype fault = CheckFailed | DcheckFailed | OutOfRange | RangeError | BadVariant | NullDeref | Undefined

type_synonym 'a result = "fault + 'a"

definition rbind :: "'a result \<Rightarrow> ('a \<Rightarrow> 'b result) \<Rightarrow> 'b result" where
  "rbind m f = (case m of Inl e \<Rightarrow> Inl e | Inr x \<Rightarrow> f x)"

definition require :: "fault \<Rightarrow> bool \<Rightarrow> 'a result \<Rightarrow> 'a result" where
  "require e b k = (if b then k else Inl e)"

lemma rbind_Inr [simp]: "rbind (Inr x) f = f x"
  by (simp add: rbind_def)

lemma rbind_Inl [simp]: "rbind (Inl e) f = Inl e"
  by (simp add: rbind_def)

lemma rbind_eq_Inr_iff: "rbind m f = Inr y \<longleftrightarrow> (\<exists>x. m = Inr x \<and> f x = Inr y)"
  by (cases m) simp_all

lemma rbind_InrE [elim!]:
  assumes "rbind m f = Inr y"
  obtains x where "m = Inr x" and "f x = Inr y"
  using assms by (auto simp: rbind_eq_Inr_iff)

lemma require_True [simp]: "require e True k = k"
  by (simp add: require_def)

lemma require_False [simp]: "require e False k = Inl e"
  by (simp add: require_def)

lemma require_eq_Inr_iff: "require e b k = Inr y \<longleftrightarrow> b \<and> k = Inr y"
  by (simp add: require_def)

lemma require_InrE [elim!]:
  assumes "require e b k = Inr y"
  obtains "b" and "k = Inr y"
  using assms by (auto simp: require_eq_Inr_iff)

lemma result_eqI: "\<not> isl r \<Longrightarrow> r = Inr (projr r)"
  by (cases r) simp_all

text \<open>\<open>std::map::at\<close> throws when the key is absent.\<close>

definition map_at :: "('k \<rightharpoonup> 'v) \<Rightarrow> 'k \<Rightarrow> 'v result" where
  "map_at m k = (case m k of None \<Rightarrow> Inl OutOfRange | Some v \<Rightarrow> Inr v)"

lemma map_at_Inr_iff [simp]: "map_at m k = Inr v \<longleftrightarrow> m k = Some v"
  by (simp add: map_at_def split: option.splits)

lemma map_at_Some [simp]: "m k = Some v \<Longrightarrow> map_at m k = Inr v"
  by (simp add: map_at_def)

section \<open>Ordered containers\<close>

text \<open>
  \<open>std::set\<close> iterates in increasing order, so the model keeps its elements in a strictly
  increasing list.
\<close>

fun oset_insert :: "'a::linorder \<Rightarrow> 'a list \<Rightarrow> 'a list" where
  "oset_insert x [] = [x]"
| "oset_insert x (y # ys) =
     (if x < y then x # y # ys else if x = y then y # ys else y # oset_insert x ys)"

definition oset_erase :: "'a::linorder \<Rightarrow> 'a list \<Rightarrow> 'a list" where
  "oset_erase x ys = filter (\<lambda>y. y \<noteq> x) ys"

definition oset_wf :: "'a::linorder list \<Rightarrow> bool" where
  "oset_wf ys = sorted_wrt (<) ys"

lemma oset_wf_Nil [simp]: "oset_wf []"
  by (simp add: oset_wf_def)

lemma set_oset_insert [simp]: "set (oset_insert x ys) = insert x (set ys)"
  by (induction ys) auto

lemma set_oset_erase [simp]: "set (oset_erase x ys) = set ys - {x}"
  by (auto simp: oset_erase_def)

lemma oset_wf_insert [simp]: "oset_wf ys \<Longrightarrow> oset_wf (oset_insert x ys)"
  by (induction ys) (auto simp: oset_wf_def)

lemma oset_wf_erase [simp]: "oset_wf ys \<Longrightarrow> oset_wf (oset_erase x ys)"
  by (simp add: oset_wf_def oset_erase_def sorted_wrt_filter)

lemma oset_wf_distinct: "oset_wf ys \<Longrightarrow> distinct ys"
  by (induction ys) (auto simp: oset_wf_def)

lemma oset_erase_insert:
  "oset_wf ys \<Longrightarrow> x \<notin> set ys \<Longrightarrow> oset_erase x (oset_insert x ys) = ys"
  by (induction ys) (auto simp: oset_wf_def oset_erase_def filter_id_conv)

text \<open>
  \<open>std::map\<close> is an association list with strictly increasing keys; lookups go through
  \<open>map_of\<close>.
\<close>

fun omap_put :: "'k::linorder \<Rightarrow> 'v \<Rightarrow> ('k \<times> 'v) list \<Rightarrow> ('k \<times> 'v) list" where
  "omap_put k v [] = [(k, v)]"
| "omap_put k v ((k', v') # m) =
     (if k < k' then (k, v) # (k', v') # m
      else if k = k' then (k, v) # m
      else (k', v') # omap_put k v m)"

definition omap_erase :: "'k::linorder \<Rightarrow> ('k \<times> 'v) list \<Rightarrow> ('k \<times> 'v) list" where
  "omap_erase k m = filter (\<lambda>p. fst p \<noteq> k) m"

definition omap_wf :: "('k::linorder \<times> 'v) list \<Rightarrow> bool" where
  "omap_wf m = sorted_wrt (<) (map fst m)"

lemma map_of_omap_put [simp]: "map_of (omap_put k v m) = (map_of m)(k \<mapsto> v)"
  by (induction m) (auto simp: fun_eq_iff)

lemma map_of_omap_erase [simp]: "map_of (omap_erase k m) = (map_of m)(k := None)"
  by (induction m) (auto simp: omap_erase_def fun_eq_iff)

lemma keys_omap_put [simp]: "fst ` set (omap_put k v m) = insert k (fst ` set m)"
  by (induction k v m rule: omap_put.induct) (simp_all add: insert_commute)

lemma omap_wf_Nil [simp]: "omap_wf []"
  by (simp add: omap_wf_def)

lemma omap_wf_put [simp]: "omap_wf m \<Longrightarrow> omap_wf (omap_put k v m)"
proof (induction m)
  case Nil
  then show ?case by (simp add: omap_wf_def)
next
  case (Cons p m)
  have "fst ` set (omap_put k v m) = insert k (fst ` set m)" by simp
  with Cons show ?case by (cases p) (auto simp: omap_wf_def)
qed

lemma omap_wf_erase [simp]: "omap_wf m \<Longrightarrow> omap_wf (omap_erase k m)"
  by (induction m) (auto simp: omap_wf_def omap_erase_def)

lemma set_omap_put: "set (omap_put k v m) \<subseteq> insert (k, v) (set m)"
  by (induction k v m rule: omap_put.induct) (auto split: if_splits)

lemma mset_omap_put: "k \<notin> fst ` set m \<Longrightarrow> mset (omap_put k v m) = add_mset (k, v) (mset m)"
  by (induction k v m rule: omap_put.induct) auto

lemma mset_omap_erase:
  "omap_wf m \<Longrightarrow> map_of m k = Some v \<Longrightarrow> mset m = add_mset (k, v) (mset (omap_erase k m))"
proof (induction m)
  case (Cons p m)
  have "filter (\<lambda>q. fst q \<noteq> fst p) m = m"
    using Cons.prems(1) by (intro filter_True) (auto simp: omap_wf_def)
  then have "mset m = {#q \<in># mset m. fst q \<noteq> fst p#}" by (metis mset_filter)
  with Cons show ?case by (auto simp: omap_erase_def omap_wf_def split: if_splits)
qed simp

section \<open>Sign extension of a 32-bit word\<close>

lemma mod_above: "m \<le> k \<Longrightarrow> k < 2 * m \<Longrightarrow> k mod m = k - (m::int)"
  by (metis add_diff_cancel_left' diff_ge_0_iff_ge minus_mod_self2 mod_pos_pos_trivial mult_2
      less_diff_eq diff_add_cancel)

lemma sint_u32: "sint (w::u32) = (if uint w < 2147483648 then uint w else uint w - 4294967296)"
proof (cases "uint w < 2147483648")
  case True
  then show ?thesis
    by (simp add: sint_uint signed_take_bit_eq_take_bit_shift take_bit_eq_mod)
next
  case False
  then have "(uint w + 2147483648) mod 4294967296 = uint w - 2147483648"
    using uint_lt2p [of w] mod_above [of 4294967296 "uint w + 2147483648"] by simp
  with False show ?thesis
    by (simp add: sint_uint signed_take_bit_eq_take_bit_shift take_bit_eq_mod)
qed

lemma uint_scast_u32:
  "uint (scast (w::u32) :: u64) = uint w + (if uint w < 2147483648 then 0 else 18446744069414584320)"
proof -
  have "uint (scast w :: u64) = sint w mod 18446744073709551616"
    by (simp only: scast_eq uint_word_of_int) simp
  moreover have "(uint w - 4294967296) mod 18446744073709551616 =
      (uint w - 4294967296 + 18446744073709551616) mod 18446744073709551616"
    by (rule mod_add_self2 [symmetric])
  ultimately show ?thesis
    using uint_lt2p [of w] by (auto simp: sint_u32)
qed

lemma scast_u32_less_iff: "(scast (v::u32) :: u64) < scast (w::u32) \<longleftrightarrow> v < w"
  using uint_lt2p [of v] uint_lt2p [of w] by (auto simp: word_less_alt uint_scast_u32)

section \<open>Lists\<close>

lemma foldl_add_nat: "foldl (+) (a::nat) xs = a + sum_list xs"
  by (induction xs arbitrary: a) simp_all

lemma mset_oset_insert: "x \<notin> set ys \<Longrightarrow> mset (oset_insert x ys) = add_mset x (mset ys)"
  by (induction ys) auto

end
