(* ===== verification/Task_Source.thy ===== *)
theory Task_Source
  imports Prelude
begin

text \<open>
  \<open>fml/delayed_task\<close>, \<open>fml/task_source_grade.h\<close> and \<open>fml/task_source\<close>: delayed tasks, the
  priority queue that holds them, and the task source, which keeps a primary and a secondary
  heap and can pause the secondary one.  The locale \<open>prio_queue\<close> states what the task source
  relies on in \<open>std::priority_queue\<close>; the model's queue is an interpretation of it.
\<close>

section \<open>Delayed tasks\<close>

datatype TaskSourceGrade = kUserInteraction | kDartEventLoop | kUnspecified

text \<open>\<open>fml::closure\<close> is the type parameter \<open>'c\<close>; a null closure never enters a task.\<close>

record 'c DelayedTask =
  dt_order :: u64
  dt_task :: 'c
  dt_target_time :: time_point
  dt_grade :: TaskSourceGrade

definition DelayedTask_gt :: "'c DelayedTask \<Rightarrow> 'c DelayedTask \<Rightarrow> bool" where
  "DelayedTask_gt a b =
     (if dt_target_time a = dt_target_time b then dt_order a > dt_order b
      else dt_target_time a > dt_target_time b)"

definition task_key :: "'c DelayedTask \<Rightarrow> time_point \<times> u64" where
  "task_key t = (dt_target_time t, dt_order t)"

lemma DelayedTask_gt_key: "DelayedTask_gt a b \<longleftrightarrow> task_key b < task_key a"
  by (auto simp: DelayedTask_gt_def task_key_def)

section \<open>The priority queue of delayed tasks\<close>

text \<open>
  What a client may assume of \<open>std::priority_queue\<close> with \<open>std::greater\<close>: \<open>top\<close> is an element
  with a least key, \<open>push\<close> adds one element, \<open>pop\<close> removes the top, and \<open>pop\<close> of an empty queue
  is undefined.
\<close>

locale prio_queue =
  fixes push :: "'a \<Rightarrow> 'q \<Rightarrow> 'q"
    and pop :: "'q \<Rightarrow> 'q result"
    and top :: "'q \<Rightarrow> 'a option"
    and elems :: "'q \<Rightarrow> 'a multiset"
    and wf :: "'q \<Rightarrow> bool"
    and key :: "'a \<Rightarrow> 'k::linorder"
  assumes wf_push: "wf q \<Longrightarrow> wf (push x q)"
    and elems_push: "elems (push x q) = add_mset x (elems q)"
    and top_None_iff: "top q = None \<longleftrightarrow> elems q = {#}"
    and top_in: "top q = Some x \<Longrightarrow> x \<in># elems q"
    and top_least: "wf q \<Longrightarrow> top q = Some x \<Longrightarrow> y \<in># elems q \<Longrightarrow> key x \<le> key y"
    and pop_top: "top q = Some x \<Longrightarrow> \<exists>q'. pop q = Inr q' \<and> elems q' = elems q - {#x#}"
    and wf_pop: "wf q \<Longrightarrow> pop q = Inr q' \<Longrightarrow> wf q'"
    and pop_empty: "top q = None \<Longrightarrow> pop q = Inl Undefined"
begin

text \<open>The lesser of two tops is least in the union of the two queues.\<close>

lemma lesser_top_least:
  assumes wf: "wf p" "wf q" and p: "top p = Some x" and q: "top q = Some y"
    and z: "z \<in># elems p + elems q"
  shows "key (if key y < key x then y else x) \<le> key z"
proof -
  have "key x \<le> key z \<or> key y \<le> key z"
    using z top_least [OF wf(1) p] top_least [OF wf(2) q] by auto
  then show ?thesis by auto
qed

text \<open>Pushing and popping on a queue whose top is the pushed element restores the content.\<close>

lemma pop_push_elems:
  assumes "top (push x q) = Some x"
  shows "\<exists>q'. pop (push x q) = Inr q' \<and> elems q' = elems q"
  using pop_top [OF assms] by (auto simp: elems_push)

lemma pop_size:
  assumes "pop q = Inr q'"
  shows "size (elems q) = Suc (size (elems q'))"
proof -
  obtain x where x: "top q = Some x"
    using assms pop_empty by (cases "top q") auto
  then obtain q'' where "pop q = Inr q''" "elems q'' = elems q - {#x#}"
    using pop_top by blast
  with assms top_in [OF x] show ?thesis
    by (metis Inr_inject insert_DiffM size_add_mset)
qed

end

type_synonym 'c DelayedTaskQueue = "'c DelayedTask list"

text \<open>
  The model of \<open>DelayedTaskQueue\<close> keeps the tasks in increasing \<open>(target time, order)\<close>; the
  task queues hand out distinct orders, so the order is total on the tasks they store.
\<close>

fun pq_push :: "'c DelayedTask \<Rightarrow> 'c DelayedTaskQueue \<Rightarrow> 'c DelayedTaskQueue" where
  "pq_push t [] = [t]"
| "pq_push t (x # q) = (if DelayedTask_gt x t then t # x # q else x # pq_push t q)"

fun pq_top :: "'c DelayedTaskQueue \<Rightarrow> 'c DelayedTask option" where
  "pq_top [] = None"
| "pq_top (x # q) = Some x"

fun pq_pop :: "'c DelayedTaskQueue \<Rightarrow> 'c DelayedTaskQueue result" where
  "pq_pop [] = Inl Undefined"
| "pq_pop (x # q) = Inr q"

definition pq_wf :: "'c DelayedTaskQueue \<Rightarrow> bool" where
  "pq_wf q = sorted (map task_key q)"

lemma mset_pq_push [simp]: "mset (pq_push t q) = add_mset t (mset q)"
  by (induction q) auto

lemma set_pq_push [simp]: "set (pq_push t q) = insert t (set q)"
  by (induction q) auto

lemma pq_wf_Nil [simp]: "pq_wf []"
  by (simp add: pq_wf_def)

lemma pq_wf_push [simp]: "pq_wf q \<Longrightarrow> pq_wf (pq_push t q)"
  by (induction q) (auto simp: pq_wf_def DelayedTask_gt_key dest: less_imp_le)

interpretation dtq: prio_queue pq_push pq_pop pq_top mset pq_wf task_key
proof (unfold_locales, goal_cases)
  case (3 q) show ?case by (cases q) simp_all
next
  case (4 q x) then show ?case by (cases q) simp_all
next
  case (5 q x y) then show ?case by (cases q) (auto simp: pq_wf_def)
next
  case (6 q x) then show ?case by (cases q) simp_all
next
  case (7 q q') then show ?case by (cases q) (auto simp: pq_wf_def)
next
  case (8 q) then show ?case by (cases q) simp_all
qed simp_all

lemma pq_top_None [simp]: "pq_top q = None \<longleftrightarrow> q = []"
  by (cases q) simp_all

section \<open>Task sources\<close>

record 'c TaskSource =
  ts_queue_id :: u64
  ts_primary :: "'c DelayedTaskQueue"
  ts_secondary :: "'c DelayedTaskQueue"
  ts_pause_requests :: int

record 'c TopTask =
  top_queue_id :: u64
  top_task :: "'c DelayedTask"

definition TaskSource_new :: "u64 \<Rightarrow> 'c TaskSource" where
  "TaskSource_new q =
     \<lparr>ts_queue_id = q, ts_primary = [], ts_secondary = [], ts_pause_requests = 0\<rparr>"

definition TaskSource_ShutDown :: "'c TaskSource \<Rightarrow> 'c TaskSource" where
  "TaskSource_ShutDown ts = ts\<lparr>ts_primary := [], ts_secondary := []\<rparr>"

definition TaskSource_RegisterTask :: "'c DelayedTask \<Rightarrow> 'c TaskSource \<Rightarrow> 'c TaskSource" where
  "TaskSource_RegisterTask t ts =
     (case dt_grade t of
        kUserInteraction \<Rightarrow> ts\<lparr>ts_primary := pq_push t (ts_primary ts)\<rparr>
      | kUnspecified \<Rightarrow> ts\<lparr>ts_primary := pq_push t (ts_primary ts)\<rparr>
      | kDartEventLoop \<Rightarrow> ts\<lparr>ts_secondary := pq_push t (ts_secondary ts)\<rparr>)"

definition TaskSource_PopTask :: "TaskSourceGrade \<Rightarrow> 'c TaskSource \<Rightarrow> 'c TaskSource result" where
  "TaskSource_PopTask g ts =
     (case g of
        kUserInteraction \<Rightarrow> rbind (pq_pop (ts_primary ts)) (\<lambda>q. Inr (ts\<lparr>ts_primary := q\<rparr>))
      | kUnspecified \<Rightarrow> rbind (pq_pop (ts_primary ts)) (\<lambda>q. Inr (ts\<lparr>ts_primary := q\<rparr>))
      | kDartEventLoop \<Rightarrow> rbind (pq_pop (ts_secondary ts)) (\<lambda>q. Inr (ts\<lparr>ts_secondary := q\<rparr>)))"

definition TaskSource_GetNumPendingTasks :: "'c TaskSource \<Rightarrow> nat" where
  "TaskSource_GetNumPendingTasks ts =
     length (ts_primary ts) + (if ts_pause_requests ts = 0 then length (ts_secondary ts) else 0)"

definition TaskSource_IsEmpty :: "'c TaskSource \<Rightarrow> bool" where
  "TaskSource_IsEmpty ts = (TaskSource_GetNumPendingTasks ts = 0)"

definition heap_top :: "u64 \<Rightarrow> 'c DelayedTaskQueue \<Rightarrow> 'c TopTask result" where
  "heap_top i q =
     (case pq_top q of None \<Rightarrow> Inl Undefined | Some t \<Rightarrow> Inr \<lparr>top_queue_id = i, top_task = t\<rparr>)"

definition TaskSource_Top :: "'c TaskSource \<Rightarrow> 'c TopTask result" where
  "TaskSource_Top ts =
     require CheckFailed (\<not> TaskSource_IsEmpty ts)
       (if ts_pause_requests ts > 0 \<or> ts_secondary ts = [] then heap_top (ts_queue_id ts) (ts_primary ts)
        else if ts_primary ts = [] then heap_top (ts_queue_id ts) (ts_secondary ts)
        else rbind (heap_top (ts_queue_id ts) (ts_primary ts)) (\<lambda>p.
             rbind (heap_top (ts_queue_id ts) (ts_secondary ts)) (\<lambda>s.
               if DelayedTask_gt (top_task p) (top_task s) then Inr s else Inr p)))"

definition TaskSource_PauseSecondary :: "'c TaskSource \<Rightarrow> 'c TaskSource" where
  "TaskSource_PauseSecondary ts = ts\<lparr>ts_pause_requests := ts_pause_requests ts + 1\<rparr>"

definition TaskSource_ResumeSecondary :: "'c TaskSource \<Rightarrow> 'c TaskSource result" where
  "TaskSource_ResumeSecondary ts =
     (let ts' = ts\<lparr>ts_pause_requests := ts_pause_requests ts - 1\<rparr>
      in require DcheckFailed (ts_pause_requests ts' \<ge> 0) (Inr ts'))"

section \<open>Invariant and lemmas of the task source\<close>

text \<open>
  Both heaps are well formed, each task sits in the heap of its grade, and the pause counter is
  not negative.
\<close>

definition ts_wf :: "'c TaskSource \<Rightarrow> bool" where
  "ts_wf ts \<longleftrightarrow> pq_wf (ts_primary ts) \<and> pq_wf (ts_secondary ts) \<and> 0 \<le> ts_pause_requests ts \<and>
     (\<forall>t \<in> set (ts_primary ts). dt_grade t \<noteq> kDartEventLoop) \<and>
     (\<forall>t \<in> set (ts_secondary ts). dt_grade t = kDartEventLoop)"

text \<open>All stored tasks, and those that a pause does not hide.\<close>

definition ts_all :: "'c TaskSource \<Rightarrow> 'c DelayedTask multiset" where
  "ts_all ts = mset (ts_primary ts) + mset (ts_secondary ts)"

definition ts_visible :: "'c TaskSource \<Rightarrow> 'c DelayedTask multiset" where
  "ts_visible ts =
     mset (ts_primary ts) + (if ts_pause_requests ts = 0 then mset (ts_secondary ts) else {#})"

lemma ts_visible_subset: "ts_visible ts \<subseteq># ts_all ts"
  by (simp add: ts_visible_def ts_all_def)

lemma num_pending_visible: "TaskSource_GetNumPendingTasks ts = size (ts_visible ts)"
  by (simp add: TaskSource_GetNumPendingTasks_def ts_visible_def)

lemma is_empty_visible: "TaskSource_IsEmpty ts \<longleftrightarrow> ts_visible ts = {#}"
  by (simp add: TaskSource_IsEmpty_def num_pending_visible)

lemma ts_wf_new [simp]: "ts_wf (TaskSource_new q)"
  by (simp add: ts_wf_def TaskSource_new_def)

lemma ts_wf_shutdown [simp]: "ts_wf ts \<Longrightarrow> ts_wf (TaskSource_ShutDown ts)"
  by (simp add: ts_wf_def TaskSource_ShutDown_def)

lemma ts_wf_register [simp]: "ts_wf ts \<Longrightarrow> ts_wf (TaskSource_RegisterTask t ts)"
  by (auto simp: ts_wf_def TaskSource_RegisterTask_def split: TaskSourceGrade.split)

lemma ts_wf_pop: "ts_wf ts \<Longrightarrow> TaskSource_PopTask g ts = Inr ts' \<Longrightarrow> ts_wf ts'"
  by (cases "ts_primary ts"; cases "ts_secondary ts"; cases g)
    (auto simp: ts_wf_def TaskSource_PopTask_def pq_wf_def)

lemma ts_wf_pause [simp]: "ts_wf ts \<Longrightarrow> ts_wf (TaskSource_PauseSecondary ts)"
  by (simp add: ts_wf_def TaskSource_PauseSecondary_def)

lemma ts_wf_resume: "ts_wf ts \<Longrightarrow> TaskSource_ResumeSecondary ts = Inr ts' \<Longrightarrow> ts_wf ts'"
  by (auto simp: ts_wf_def TaskSource_ResumeSecondary_def Let_def)

lemma ts_all_register [simp]:
  "ts_all (TaskSource_RegisterTask t ts) = add_mset t (ts_all ts)"
  by (simp add: ts_all_def TaskSource_RegisterTask_def split: TaskSourceGrade.split)

lemma ts_visible_register:
  "ts_visible (TaskSource_RegisterTask t ts) =
     (if dt_grade t = kDartEventLoop \<and> ts_pause_requests ts \<noteq> 0 then ts_visible ts
      else add_mset t (ts_visible ts))"
  by (simp add: ts_visible_def TaskSource_RegisterTask_def split: TaskSourceGrade.split)

lemma ts_queue_id_simps [simp]:
  "ts_queue_id (TaskSource_RegisterTask t ts) = ts_queue_id ts"
  "ts_queue_id (TaskSource_ShutDown ts) = ts_queue_id ts"
  "ts_queue_id (TaskSource_PauseSecondary ts) = ts_queue_id ts"
  "ts_queue_id (TaskSource_new q) = q"
  by (simp_all add: TaskSource_RegisterTask_def TaskSource_ShutDown_def
      TaskSource_PauseSecondary_def TaskSource_new_def split: TaskSourceGrade.split)

lemma ts_queue_id_pop: "TaskSource_PopTask g ts = Inr ts' \<Longrightarrow> ts_queue_id ts' = ts_queue_id ts"
  by (auto simp: TaskSource_PopTask_def split: TaskSourceGrade.splits)

text \<open>
  On a well-formed source that is not empty, \<open>Top\<close> returns a visible task with a least key, and
  popping its grade removes exactly that task.
\<close>

lemma Top_visible_least:
  assumes wf: "ts_wf ts" and ne: "\<not> TaskSource_IsEmpty ts"
  shows "\<exists>t. TaskSource_Top ts = Inr \<lparr>top_queue_id = ts_queue_id ts, top_task = t\<rparr> \<and>
           t \<in># ts_visible ts \<and> (\<forall>u \<in># ts_visible ts. task_key t \<le> task_key u)"
proof (cases "ts_pause_requests ts = 0 \<and> ts_secondary ts \<noteq> []")
  case sec: True
  then obtain s where s: "pq_top (ts_secondary ts) = Some s" by fastforce
  have wfs: "pq_wf (ts_primary ts)" "pq_wf (ts_secondary ts)" using wf by (auto simp: ts_wf_def)
  show ?thesis
  proof (cases "pq_top (ts_primary ts)")
    case None
    with sec s ne dtq.top_in [OF s] dtq.top_least [OF wfs(2) s] show ?thesis
      by (auto simp: TaskSource_Top_def heap_top_def ts_visible_def)
  next
    case (Some p)
    then have "ts_primary ts \<noteq> []" by (metis pq_top_None option.distinct(1))
    then have "TaskSource_Top ts = Inr \<lparr>top_queue_id = ts_queue_id ts,
        top_task = (if task_key s < task_key p then s else p)\<rparr>"
      using sec s ne Some by (simp add: TaskSource_Top_def heap_top_def DelayedTask_gt_key)
    moreover have "(if task_key s < task_key p then s else p) \<in># ts_visible ts"
      using sec dtq.top_in [OF s] dtq.top_in [OF Some] by (simp add: ts_visible_def)
    ultimately show ?thesis
      using sec dtq.lesser_top_least [OF wfs Some s] by (auto simp: ts_visible_def)
  qed
next
  case pri: False
  then have vis: "ts_visible ts = mset (ts_primary ts)" by (auto simp: ts_visible_def)
  with ne obtain p where p: "pq_top (ts_primary ts) = Some p"
    by (cases "pq_top (ts_primary ts)") (auto simp: is_empty_visible)
  have "pq_wf (ts_primary ts)" "ts_pause_requests ts > 0 \<or> ts_secondary ts = []"
    using wf pri by (auto simp: ts_wf_def)
  with p ne vis dtq.top_in [OF p] dtq.top_least [OF _ p] show ?thesis
    by (auto simp: TaskSource_Top_def heap_top_def)
qed

lemma Top_grade_heap:
  assumes "ts_wf ts" and "TaskSource_Top ts = Inr tt"
  shows "pq_top (if dt_grade (top_task tt) = kDartEventLoop then ts_secondary ts else ts_primary ts)
           = Some (top_task tt)"
  using assms
  by (cases "ts_primary ts"; cases "ts_secondary ts")
    (auto simp: TaskSource_Top_def heap_top_def ts_wf_def split: if_splits)

lemma pop_top_removes:
  assumes wf: "ts_wf ts" and top: "TaskSource_Top ts = Inr tt"
  shows "\<exists>ts'. TaskSource_PopTask (dt_grade (top_task tt)) ts = Inr ts' \<and>
           ts_all ts' = ts_all ts - {#top_task tt#} \<and>
           ts_visible ts' = ts_visible ts - {#top_task tt#}"
proof -
  have "ts_pause_requests ts = 0 \<or> dt_grade (top_task tt) \<noteq> kDartEventLoop"
    using wf top by (cases "ts_primary ts"; cases "ts_secondary ts")
      (auto simp: TaskSource_Top_def heap_top_def ts_wf_def is_empty_visible ts_visible_def
        split: if_splits)
  with Top_grade_heap [OF wf top] show ?thesis
    by (cases "ts_primary ts"; cases "ts_secondary ts"; cases "dt_grade (top_task tt)")
      (auto simp: TaskSource_PopTask_def ts_all_def ts_visible_def)
qed

end
