(* ===== verification/Task_Queues.thy ===== *)
theory Task_Queues
  imports Task_Source
begin

text \<open>
  \<open>fml/message_loop_task_queues\<close>: the process-wide container of task queues, with merging and
  unmerging of queues.  Every public method runs under \<open>queue_mutex_\<close>, so each is one atomic
  step; the interleavings of several threads are the sequences of steps of \<open>tq_step\<close>.
  A call of \<open>Wakeable::WakeUp\<close> is recorded in \<open>tq_wakeups\<close>, oldest first.
\<close>

section \<open>State\<close>

text \<open>\<open>TaskQueueId::kUnmerged\<close> is \<open>ULONG_MAX\<close>.\<close>

definition kUnmerged :: u64 where
  "kUnmerged = - 1"

record 'c TaskQueueEntry =
  tqe_wakeable :: "nat option"
  tqe_observers :: "(int \<times> 'c) list"
  tqe_source :: "'c TaskSource"
  tqe_owner_of :: "u64 list"
  tqe_subsumed_by :: u64
  tqe_created_for :: u64

text \<open>
  \<open>order_\<close> is a \<open>std::atomic_int\<close>, kept here as its 32 bits; \<open>tls_task_source_grade\<close> is thread
  local and null until a thread runs its first task (or constructs the instance).
\<close>

record 'c TaskQueues =
  tq_entries :: "u64 \<rightharpoonup> 'c TaskQueueEntry"
  tq_id_counter :: u64
  tq_order :: u32
  tq_tls_grade :: "nat \<rightharpoonup> TaskSourceGrade"
  tq_wakeups :: "(nat \<times> time_point) list"

definition TaskQueueEntry_new :: "u64 \<Rightarrow> 'c TaskQueueEntry" where
  "TaskQueueEntry_new q =
     \<lparr>tqe_wakeable = None, tqe_observers = [], tqe_source = TaskSource_new q,
      tqe_owner_of = [], tqe_subsumed_by = kUnmerged, tqe_created_for = q\<rparr>"

definition TaskQueues_new :: "nat \<Rightarrow> 'c TaskQueues" where
  "TaskQueues_new thread =
     \<lparr>tq_entries = Map.empty, tq_id_counter = 0, tq_order = 0,
      tq_tls_grade = [thread \<mapsto> kUnspecified], tq_wakeups = []\<rparr>"

section \<open>Operations without the lock\<close>

fun any_subsumed_pending :: "(u64 \<rightharpoonup> 'c TaskQueueEntry) \<Rightarrow> u64 list \<Rightarrow> bool result" where
  "any_subsumed_pending m [] = Inr False"
| "any_subsumed_pending m (x # xs) =
     rbind (map_at m x) (\<lambda>e.
       if \<not> TaskSource_IsEmpty (tqe_source e) then Inr True else any_subsumed_pending m xs)"

definition HasPendingTasksUnlocked :: "'c TaskQueues \<Rightarrow> u64 \<Rightarrow> bool result" where
  "HasPendingTasksUnlocked s q =
     rbind (map_at (tq_entries s) q) (\<lambda>e.
       if tqe_subsumed_by e \<noteq> kUnmerged then Inr False
       else if \<not> TaskSource_IsEmpty (tqe_source e) then Inr True
       else any_subsumed_pending (tq_entries s) (tqe_owner_of e))"

definition top_task_updater ::
  "'c TopTask option \<Rightarrow> 'c TaskSource \<Rightarrow> 'c TopTask option result" where
  "top_task_updater cur src =
     (if TaskSource_IsEmpty src then Inr cur
      else rbind (TaskSource_Top src) (\<lambda>other.
             case cur of
               None \<Rightarrow> Inr (Some other)
             | Some t \<Rightarrow>
                 Inr (Some (if DelayedTask_gt (top_task t) (top_task other) then other else t))))"

fun peek_subsumed ::
  "(u64 \<rightharpoonup> 'c TaskQueueEntry) \<Rightarrow> 'c TopTask option \<Rightarrow> u64 list \<Rightarrow> 'c TopTask option result" where
  "peek_subsumed m cur [] = Inr cur"
| "peek_subsumed m cur (x # xs) =
     rbind (map_at m x) (\<lambda>e.
     rbind (top_task_updater cur (tqe_source e)) (\<lambda>cur'. peek_subsumed m cur' xs))"

definition PeekNextTaskUnlocked :: "'c TaskQueues \<Rightarrow> u64 \<Rightarrow> 'c TopTask result" where
  "PeekNextTaskUnlocked s owner =
     rbind (HasPendingTasksUnlocked s owner) (\<lambda>pending.
     require DcheckFailed pending
     (rbind (map_at (tq_entries s) owner) (\<lambda>e.
       if tqe_owner_of e = [] then
         require CheckFailed (\<not> TaskSource_IsEmpty (tqe_source e)) (TaskSource_Top (tqe_source e))
       else
         rbind (top_task_updater None (tqe_source e)) (\<lambda>cur.
         rbind (peek_subsumed (tq_entries s) cur (tqe_owner_of e)) (\<lambda>cur'.
           case cur' of None \<Rightarrow> Inl CheckFailed | Some t \<Rightarrow> Inr t)))))"

definition GetNextWakeTimeUnlocked :: "'c TaskQueues \<Rightarrow> u64 \<Rightarrow> time_point result" where
  "GetNextWakeTimeUnlocked s q =
     rbind (PeekNextTaskUnlocked s q) (\<lambda>t. Inr (dt_target_time (top_task t)))"

definition WakeUpUnlocked :: "u64 \<Rightarrow> time_point \<Rightarrow> 'c TaskQueues \<Rightarrow> 'c TaskQueues result" where
  "WakeUpUnlocked q time s =
     rbind (map_at (tq_entries s) q) (\<lambda>e.
       case tqe_wakeable e of
         None \<Rightarrow> Inr s
       | Some w \<Rightarrow> Inr (s\<lparr>tq_wakeups := tq_wakeups s @ [(w, time)]\<rparr>))"

text \<open>
  The statement \<open>if (HasPendingTasksUnlocked(q)) WakeUpUnlocked(q, GetNextWakeTimeUnlocked(q))\<close>,
  which the code repeats.
\<close>

definition wake_if_pending :: "u64 \<Rightarrow> 'c TaskQueues \<Rightarrow> 'c TaskQueues result" where
  "wake_if_pending q s =
     rbind (HasPendingTasksUnlocked s q) (\<lambda>pending.
       if pending then rbind (GetNextWakeTimeUnlocked s q) (\<lambda>t. WakeUpUnlocked q t s)
       else Inr s)"

section \<open>Public operations\<close>

definition CreateTaskQueue :: "'c TaskQueues \<Rightarrow> u64 \<times> 'c TaskQueues" where
  "CreateTaskQueue s =
     (let q = tq_id_counter s
      in (q, s\<lparr>tq_id_counter := q + 1,
              tq_entries := (tq_entries s)(q \<mapsto> TaskQueueEntry_new q)\<rparr>))"

definition Dispose :: "u64 \<Rightarrow> 'c TaskQueues \<Rightarrow> 'c TaskQueues result" where
  "Dispose q s =
     rbind (map_at (tq_entries s) q) (\<lambda>e.
     require DcheckFailed (tqe_subsumed_by e = kUnmerged)
       (Inr (s\<lparr>tq_entries :=
          (fold (\<lambda>x m. m(x := None)) (tqe_owner_of e) (tq_entries s))(q := None)\<rparr>)))"

definition update_source ::
  "u64 \<Rightarrow> ('c TaskSource \<Rightarrow> 'c TaskSource result) \<Rightarrow> 'c TaskQueues \<Rightarrow> 'c TaskQueues result" where
  "update_source q f s =
     rbind (map_at (tq_entries s) q) (\<lambda>e.
     rbind (f (tqe_source e)) (\<lambda>ts.
       Inr (s\<lparr>tq_entries := (tq_entries s)(q \<mapsto> e\<lparr>tqe_source := ts\<rparr>)\<rparr>)))"

fun shutdown_all :: "u64 list \<Rightarrow> 'c TaskQueues \<Rightarrow> 'c TaskQueues result" where
  "shutdown_all [] s = Inr s"
| "shutdown_all (x # xs) s =
     rbind (update_source x (\<lambda>ts. Inr (TaskSource_ShutDown ts)) s) (shutdown_all xs)"

definition DisposeTasks :: "u64 \<Rightarrow> 'c TaskQueues \<Rightarrow> 'c TaskQueues result" where
  "DisposeTasks q s =
     rbind (map_at (tq_entries s) q) (\<lambda>e.
     require DcheckFailed (tqe_subsumed_by e = kUnmerged)
       (shutdown_all (q # tqe_owner_of e) s))"

definition GetCurrentTaskSourceGrade :: "nat \<Rightarrow> 'c TaskQueues \<Rightarrow> TaskSourceGrade result" where
  "GetCurrentTaskSourceGrade thread s =
     (case tq_tls_grade s thread of None \<Rightarrow> Inl NullDeref | Some g \<Rightarrow> Inr g)"

text \<open>\<open>size_t order = order_++\<close>: the \<open>int\<close> is sign extended to 64 bits.\<close>

definition order_of :: "u32 \<Rightarrow> u64" where
  "order_of w = scast w"

definition RegisterTask ::
  "u64 \<Rightarrow> 'c \<Rightarrow> time_point \<Rightarrow> TaskSourceGrade \<Rightarrow> 'c TaskQueues \<Rightarrow> 'c TaskQueues result" where
  "RegisterTask q task target grade s =
     (let order = order_of (tq_order s);
          s1 = s\<lparr>tq_order := tq_order s + 1\<rparr>;
          dt = \<lparr>dt_order = order, dt_task = task, dt_target_time = target, dt_grade = grade\<rparr>
      in rbind (map_at (tq_entries s1) q) (\<lambda>e.
         rbind (update_source q (\<lambda>ts. Inr (TaskSource_RegisterTask dt ts)) s1) (\<lambda>s2.
           wake_if_pending (if tqe_subsumed_by e \<noteq> kUnmerged then tqe_subsumed_by e else q) s2)))"

text \<open>
  \<open>TopTask::task\<close> is a reference into the heap's front slot.  \<open>GetNextTaskToRun\<close> reads the target
  time and the closure through it before \<open>PopTask\<close>, but the grade after it, when \<open>pop_heap\<close> has
  put the next least task of that heap into the slot, or, if there was none, \<open>pop_back\<close> has
  destroyed the object; \<open>freed\<close> stands for what a read of the destroyed object gives.
\<close>

definition front_slot_grade ::
  "TaskSourceGrade \<Rightarrow> TaskSourceGrade \<Rightarrow> 'c TaskSource \<Rightarrow> TaskSourceGrade" where
  "front_slot_grade freed popped ts =
     (case pq_top (if popped = kDartEventLoop then ts_secondary ts else ts_primary ts) of
        None \<Rightarrow> freed
      | Some t \<Rightarrow> dt_grade t)"

definition GetNextTaskToRun ::
  "TaskSourceGrade \<Rightarrow> nat \<Rightarrow> u64 \<Rightarrow> time_point \<Rightarrow> 'c TaskQueues \<Rightarrow>
     ('c option \<times> 'c TaskQueues) result" where
  "GetNextTaskToRun freed thread q from_time s =
     rbind (HasPendingTasksUnlocked s q) (\<lambda>pending.
       if \<not> pending then Inr (None, s)
       else rbind (PeekNextTaskUnlocked s q) (\<lambda>top.
            rbind (HasPendingTasksUnlocked s q) (\<lambda>pending'.
            rbind (if \<not> pending' then WakeUpUnlocked q TimePoint_Max s
                   else rbind (GetNextWakeTimeUnlocked s q) (\<lambda>t. WakeUpUnlocked q t s)) (\<lambda>s1.
              if dt_target_time (top_task top) > from_time then Inr (None, s1)
              else let invocation = dt_task (top_task top); popped = dt_grade (top_task top)
                   in rbind (update_source (top_queue_id top) (TaskSource_PopTask popped) s1) (\<lambda>s2.
                      rbind (map_at (tq_entries s2) (top_queue_id top)) (\<lambda>e.
                      let grade = front_slot_grade freed popped (tqe_source e)
                      in Inr (Some invocation,
                              s2\<lparr>tq_tls_grade := (tq_tls_grade s2)(thread \<mapsto> grade)\<rparr>)))))))"

fun sum_pending :: "(u64 \<rightharpoonup> 'c TaskQueueEntry) \<Rightarrow> u64 list \<Rightarrow> nat \<Rightarrow> nat result" where
  "sum_pending m [] acc = Inr acc"
| "sum_pending m (x # xs) acc =
     rbind (map_at m x) (\<lambda>e.
       sum_pending m xs (acc + TaskSource_GetNumPendingTasks (tqe_source e)))"

definition GetNumPendingTasks :: "'c TaskQueues \<Rightarrow> u64 \<Rightarrow> nat result" where
  "GetNumPendingTasks s q =
     rbind (map_at (tq_entries s) q) (\<lambda>e.
       if tqe_subsumed_by e \<noteq> kUnmerged then Inr 0
       else sum_pending (tq_entries s) (tqe_owner_of e)
              (TaskSource_GetNumPendingTasks (tqe_source e)))"

definition AddTaskObserver ::
  "u64 \<Rightarrow> int \<Rightarrow> 'c option \<Rightarrow> 'c TaskQueues \<Rightarrow> 'c TaskQueues result" where
  "AddTaskObserver q key callback s =
     (case callback of
        None \<Rightarrow> Inl DcheckFailed
      | Some cb \<Rightarrow> rbind (map_at (tq_entries s) q) (\<lambda>e.
          Inr (s\<lparr>tq_entries := (tq_entries s)
                   (q \<mapsto> e\<lparr>tqe_observers := omap_put key cb (tqe_observers e)\<rparr>)\<rparr>)))"

definition RemoveTaskObserver :: "u64 \<Rightarrow> int \<Rightarrow> 'c TaskQueues \<Rightarrow> 'c TaskQueues result" where
  "RemoveTaskObserver q key s =
     rbind (map_at (tq_entries s) q) (\<lambda>e.
       Inr (s\<lparr>tq_entries := (tq_entries s)
                (q \<mapsto> e\<lparr>tqe_observers := omap_erase key (tqe_observers e)\<rparr>)\<rparr>))"

fun collect_observers :: "(u64 \<rightharpoonup> 'c TaskQueueEntry) \<Rightarrow> u64 list \<Rightarrow> 'c list \<Rightarrow> 'c list result" where
  "collect_observers m [] acc = Inr acc"
| "collect_observers m (x # xs) acc =
     rbind (map_at m x) (\<lambda>e. collect_observers m xs (acc @ map snd (tqe_observers e)))"

definition GetObserversToNotify :: "'c TaskQueues \<Rightarrow> u64 \<Rightarrow> 'c list result" where
  "GetObserversToNotify s q =
     rbind (map_at (tq_entries s) q) (\<lambda>e.
       if tqe_subsumed_by e \<noteq> kUnmerged then Inr []
       else collect_observers (tq_entries s) (tqe_owner_of e) (map snd (tqe_observers e)))"

definition SetWakeable :: "u64 \<Rightarrow> nat option \<Rightarrow> 'c TaskQueues \<Rightarrow> 'c TaskQueues result" where
  "SetWakeable q w s =
     rbind (map_at (tq_entries s) q) (\<lambda>e.
     require CheckFailed (tqe_wakeable e = None)
       (Inr (s\<lparr>tq_entries := (tq_entries s)(q \<mapsto> e\<lparr>tqe_wakeable := w\<rparr>)\<rparr>)))"

definition Merge :: "u64 \<Rightarrow> u64 \<Rightarrow> 'c TaskQueues \<Rightarrow> (bool \<times> 'c TaskQueues) result" where
  "Merge owner subsumed s =
     (if owner = subsumed then Inr (True, s)
      else rbind (map_at (tq_entries s) owner) (\<lambda>oe.
           rbind (map_at (tq_entries s) subsumed) (\<lambda>se.
             if subsumed \<in> set (tqe_owner_of oe) then Inr (True, s)
             else if tqe_subsumed_by oe \<noteq> kUnmerged then Inr (False, s)
             else if tqe_owner_of se \<noteq> [] then Inr (False, s)
             else if tqe_subsumed_by se \<noteq> kUnmerged then Inr (False, s)
             else rbind (wake_if_pending owner
                    (s\<lparr>tq_entries := (tq_entries s)
                        (owner \<mapsto> oe\<lparr>tqe_owner_of := oset_insert subsumed (tqe_owner_of oe)\<rparr>,
                         subsumed \<mapsto> se\<lparr>tqe_subsumed_by := owner\<rparr>)\<rparr>))
                  (\<lambda>s'. Inr (True, s')))))"

definition Unmerge :: "u64 \<Rightarrow> u64 \<Rightarrow> 'c TaskQueues \<Rightarrow> (bool \<times> 'c TaskQueues) result" where
  "Unmerge owner subsumed s =
     rbind (map_at (tq_entries s) owner) (\<lambda>oe.
       if tqe_owner_of oe = [] then Inr (False, s)
       else if tqe_subsumed_by oe \<noteq> kUnmerged then Inr (False, s)
       else rbind (map_at (tq_entries s) subsumed) (\<lambda>se.
         if tqe_subsumed_by se = kUnmerged then Inr (False, s)
         else if subsumed \<notin> set (tqe_owner_of oe) then Inr (False, s)
         else
           let m1 = (tq_entries s)(subsumed \<mapsto> se\<lparr>tqe_subsumed_by := kUnmerged\<rparr>)
           in rbind (map_at m1 owner) (\<lambda>oe1.
              rbind (wake_if_pending owner
                (s\<lparr>tq_entries := m1(owner \<mapsto>
                     oe1\<lparr>tqe_owner_of := oset_erase subsumed (tqe_owner_of oe1)\<rparr>)\<rparr>)) (\<lambda>s2.
              rbind (wake_if_pending subsumed s2) (\<lambda>s3. Inr (True, s3))))))"

definition Owns :: "'c TaskQueues \<Rightarrow> u64 \<Rightarrow> u64 \<Rightarrow> bool result" where
  "Owns s owner subsumed =
     (if owner = kUnmerged \<or> subsumed = kUnmerged then Inr False
      else rbind (map_at (tq_entries s) owner) (\<lambda>e. Inr (subsumed \<in> set (tqe_owner_of e))))"

definition GetSubsumedTaskQueueId :: "'c TaskQueues \<Rightarrow> u64 \<Rightarrow> u64 list result" where
  "GetSubsumedTaskQueueId s owner =
     rbind (map_at (tq_entries s) owner) (\<lambda>e. Inr (tqe_owner_of e))"

definition PauseSecondarySource :: "u64 \<Rightarrow> 'c TaskQueues \<Rightarrow> 'c TaskQueues result" where
  "PauseSecondarySource q s = update_source q (\<lambda>ts. Inr (TaskSource_PauseSecondary ts)) s"

definition ResumeSecondarySource :: "u64 \<Rightarrow> 'c TaskQueues \<Rightarrow> 'c TaskQueues result" where
  "ResumeSecondarySource q s =
     rbind (update_source q TaskSource_ResumeSecondary s) (wake_if_pending q)"

end
