(* ===== verification/Task_Queues_Inv.thy ===== *)
theory Task_Queues_Inv
  imports Task_Queues
begin

text \<open>
  Invariant of the task queues, the pending tasks that a queue sees, and the lemmas that every
  operation keeps the invariant and that peeking returns a least pending task.
\<close>

section \<open>The invariant\<close>

text \<open>What holds of one entry by itself.\<close>

definition entry_wf :: "u64 \<Rightarrow> 'c TaskQueueEntry \<Rightarrow> bool" where
  "entry_wf q e \<longleftrightarrow> ts_wf (tqe_source e) \<and> ts_queue_id (tqe_source e) = q \<and>
     tqe_created_for e = q \<and> q \<noteq> kUnmerged \<and> oset_wf (tqe_owner_of e) \<and> omap_wf (tqe_observers e)"

text \<open>
  How entries refer to each other: a queue owns exactly the queues that name it in
  \<open>subsumed_by\<close>, and a subsumed queue owns nothing.
\<close>

definition links_wf :: "(u64 \<rightharpoonup> 'c TaskQueueEntry) \<Rightarrow> bool" where
  "links_wf m \<longleftrightarrow> (\<forall>q e. m q = Some e \<longrightarrow>
     (\<forall>x \<in> set (tqe_owner_of e). \<exists>f. m x = Some f \<and> tqe_subsumed_by f = q) \<and>
     (tqe_subsumed_by e \<noteq> kUnmerged \<longrightarrow>
        tqe_owner_of e = [] \<and> (\<exists>f. m (tqe_subsumed_by e) = Some f \<and> q \<in> set (tqe_owner_of f))))"

definition tq_wf :: "'c TaskQueues \<Rightarrow> bool" where
  "tq_wf s \<longleftrightarrow> links_wf (tq_entries s) \<and>
     (\<forall>q e. tq_entries s q = Some e \<longrightarrow> entry_wf q e \<and> q < tq_id_counter s)"

lemma tq_wfD:
  assumes "tq_wf s" and "tq_entries s q = Some e"
  shows "entry_wf q e" and "q < tq_id_counter s"
  using assms by (auto simp: tq_wf_def)

lemma links_owned:
  "links_wf m \<Longrightarrow> m q = Some e \<Longrightarrow> x \<in> set (tqe_owner_of e) \<Longrightarrow>
     \<exists>f. m x = Some f \<and> tqe_subsumed_by f = q"
  by (auto simp: links_wf_def)

lemma links_subsumed:
  "links_wf m \<Longrightarrow> m q = Some e \<Longrightarrow> tqe_subsumed_by e \<noteq> kUnmerged \<Longrightarrow>
     tqe_owner_of e = [] \<and> (\<exists>f. m (tqe_subsumed_by e) = Some f \<and> q \<in> set (tqe_owner_of f))"
  by (auto simp: links_wf_def)

text \<open>Changing an entry without touching its links keeps the links.\<close>

lemma links_wf_upd:
  assumes "links_wf m" and "m q = Some e"
    and "tqe_owner_of e' = tqe_owner_of e" and "tqe_subsumed_by e' = tqe_subsumed_by e"
  shows "links_wf (m(q \<mapsto> e'))"
proof -
  have keep: "\<exists>g'. (m(q \<mapsto> e')) x = Some g' \<and> tqe_owner_of g' = tqe_owner_of g \<and>
      tqe_subsumed_by g' = tqe_subsumed_by g" if "m x = Some g" for x g
    using that assms(2-4) by (cases "x = q") auto
  have orig: "\<exists>g. m x = Some g \<and> tqe_owner_of g = tqe_owner_of f \<and>
      tqe_subsumed_by g = tqe_subsumed_by f" if "(m(q \<mapsto> e')) x = Some f" for x f
    using that assms(2-4) by (cases "x = q") auto
  show ?thesis
    unfolding links_wf_def
  proof (intro allI impI conjI ballI)
    fix p f x assume "(m(q \<mapsto> e')) p = Some f" "x \<in> set (tqe_owner_of f)"
    then show "\<exists>g. (m(q \<mapsto> e')) x = Some g \<and> tqe_subsumed_by g = p"
      by (metis orig keep links_owned [OF assms(1)])
  next
    fix p f assume pf: "(m(q \<mapsto> e')) p = Some f" and sub: "tqe_subsumed_by f \<noteq> kUnmerged"
    then show "tqe_owner_of f = []" by (metis orig links_subsumed [OF assms(1)])
    from pf sub show "\<exists>g. (m(q \<mapsto> e')) (tqe_subsumed_by f) = Some g \<and> p \<in> set (tqe_owner_of g)"
      by (metis orig keep links_subsumed [OF assms(1)])
  qed
qed

lemma tq_wf_upd:
  assumes "tq_wf s" and "tq_entries s q = Some e"
    and "tqe_owner_of e' = tqe_owner_of e" and "tqe_subsumed_by e' = tqe_subsumed_by e"
    and "entry_wf q e'"
  shows "tq_wf (s\<lparr>tq_entries := (tq_entries s)(q \<mapsto> e')\<rparr>)"
  using assms links_wf_upd [of "tq_entries s" q e e'] by (auto simp: tq_wf_def)

lemma tq_wf_frame [simp]:
  "tq_wf (s\<lparr>tq_wakeups := w\<rparr>) = tq_wf s"
  "tq_wf (s\<lparr>tq_tls_grade := g\<rparr>) = tq_wf s"
  "tq_wf (s\<lparr>tq_order := n\<rparr>) = tq_wf s"
  by (simp_all add: tq_wf_def)

lemma update_source_eq:
  "update_source q f s = Inr s' \<longleftrightarrow>
     (\<exists>e ts. tq_entries s q = Some e \<and> f (tqe_source e) = Inr ts \<and>
        s' = s\<lparr>tq_entries := (tq_entries s)(q \<mapsto> e\<lparr>tqe_source := ts\<rparr>)\<rparr>)"
  by (auto simp: update_source_def rbind_eq_Inr_iff)

lemma tq_wf_update_source:
  assumes "tq_wf s" and "update_source q f s = Inr s'"
    and "\<And>ts ts'. f ts = Inr ts' \<Longrightarrow> ts_wf ts \<Longrightarrow> ts_wf ts' \<and> ts_queue_id ts' = ts_queue_id ts"
  shows "tq_wf s'"
proof -
  obtain e ts where e: "tq_entries s q = Some e" and f: "f (tqe_source e) = Inr ts"
    and s': "s' = s\<lparr>tq_entries := (tq_entries s)(q \<mapsto> e\<lparr>tqe_source := ts\<rparr>)\<rparr>"
    using assms(2) by (auto simp: update_source_eq)
  have "entry_wf q (e\<lparr>tqe_source := ts\<rparr>)"
    using tq_wfD(1) [OF assms(1) e] assms(3) [OF f] by (simp add: entry_wf_def)
  with s' show ?thesis using tq_wf_upd [OF assms(1) e] by simp
qed

section \<open>Waking up\<close>

lemma TaskQueues_wakeups_refl: "\<exists>w. s = s\<lparr>tq_wakeups := w\<rparr>"
  by (rule exI [of _ "tq_wakeups s"]) simp

lemma wake_up_frame: "WakeUpUnlocked q t s = Inr s' \<Longrightarrow> \<exists>w. s' = s\<lparr>tq_wakeups := w\<rparr>"
  by (cases "tq_entries s q")
    (auto simp: WakeUpUnlocked_def map_at_def TaskQueues_wakeups_refl split: option.splits)

lemma wake_frame: "wake_if_pending q s = Inr s' \<Longrightarrow> \<exists>w. s' = s\<lparr>tq_wakeups := w\<rparr>"
  by (cases "HasPendingTasksUnlocked s q"; cases "GetNextWakeTimeUnlocked s q")
    (auto simp: wake_if_pending_def TaskQueues_wakeups_refl split: if_splits dest: wake_up_frame)

lemma wake_entries [simp]:
  "wake_if_pending q s = Inr s' \<Longrightarrow> tq_entries s' = tq_entries s"
  by (drule wake_frame) auto

lemma tq_wf_wake: "tq_wf s \<Longrightarrow> wake_if_pending q s = Inr s' \<Longrightarrow> tq_wf s'"
  by (drule wake_frame) auto

section \<open>Pending tasks\<close>

text \<open>
  The tasks a queue sees: none when it is subsumed, otherwise the visible tasks of its own
  source and of the sources it owns.
\<close>

definition queue_sources :: "'c TaskQueues \<Rightarrow> u64 \<Rightarrow> 'c TaskSource list" where
  "queue_sources s q =
     (case tq_entries s q of
        None \<Rightarrow> []
      | Some e \<Rightarrow>
          if tqe_subsumed_by e \<noteq> kUnmerged then []
          else map (\<lambda>x. tqe_source (the (tq_entries s x))) (q # tqe_owner_of e))"

definition pending :: "'c TaskQueues \<Rightarrow> u64 \<Rightarrow> 'c DelayedTask multiset" where
  "pending s q = sum_list (map ts_visible (queue_sources s q))"

lemma queue_sources_owner:
  "tq_entries s q = Some e \<Longrightarrow> tqe_subsumed_by e = kUnmerged \<Longrightarrow>
     queue_sources s q = tqe_source e # map (\<lambda>x. tqe_source (the (tq_entries s x))) (tqe_owner_of e)"
  by (simp add: queue_sources_def)

lemma pending_subsumed:
  "tq_entries s q = Some e \<Longrightarrow> tqe_subsumed_by e \<noteq> kUnmerged \<Longrightarrow> pending s q = {#}"
  by (simp add: pending_def queue_sources_def)

lemma sum_list_empty_mset: "sum_list xs = {#} \<longleftrightarrow> (\<forall>x \<in> set xs. x = {#})"
  by (induction xs) auto

lemma any_subsumed_pending_eq:
  assumes "\<forall>x \<in> set xs. m x \<noteq> None"
  shows "any_subsumed_pending m xs =
           Inr (\<exists>x \<in> set xs. \<not> TaskSource_IsEmpty (tqe_source (the (m x))))"
  using assms by (induction xs) auto

lemma owned_exist:
  assumes "tq_wf s" and "tq_entries s q = Some e"
  shows "\<forall>x \<in> set (tqe_owner_of e). tq_entries s x \<noteq> None"
  using assms links_owned by (fastforce simp: tq_wf_def)

lemma HasPending_eq:
  assumes wf: "tq_wf s" and q: "tq_entries s q = Some e"
  shows "HasPendingTasksUnlocked s q = Inr (pending s q \<noteq> {#})"
proof (cases "tqe_subsumed_by e = kUnmerged")
  case True
  then show ?thesis
    using q any_subsumed_pending_eq [OF owned_exist [OF wf q]]
    by (auto simp: HasPendingTasksUnlocked_def pending_def queue_sources_owner is_empty_visible
        sum_list_empty_mset)
next
  case False
  then show ?thesis
    using q by (simp add: HasPendingTasksUnlocked_def pending_subsumed)
qed

section \<open>Peeking returns a least pending task\<close>

definition candidate ::
  "(u64 \<rightharpoonup> 'c TaskQueueEntry) \<Rightarrow> u64 set \<Rightarrow> 'c DelayedTask multiset \<Rightarrow> 'c TopTask option \<Rightarrow> bool" where
  "candidate m ids M cur \<longleftrightarrow>
     (case cur of
        None \<Rightarrow> M = {#}
      | Some t \<Rightarrow> top_task t \<in># M \<and> (\<forall>u \<in># M. task_key (top_task t) \<le> task_key u) \<and>
          top_queue_id t \<in> ids \<and>
          (\<exists>e. m (top_queue_id t) = Some e \<and> TaskSource_Top (tqe_source e) = Inr t))"

lemma updater_candidate:
  assumes c: "candidate m ids M cur" and x: "m x = Some e" "entry_wf x e"
  shows "\<exists>cur'. top_task_updater cur (tqe_source e) = Inr cur' \<and>
           candidate m (insert x ids) (M + ts_visible (tqe_source e)) cur'"
proof (cases "TaskSource_IsEmpty (tqe_source e)")
  case True
  then show ?thesis
    using c by (auto simp: top_task_updater_def is_empty_visible candidate_def split: option.splits)
next
  case False
  obtain t where t: "TaskSource_Top (tqe_source e) = Inr \<lparr>top_queue_id = x, top_task = t\<rparr>"
    "t \<in># ts_visible (tqe_source e)" "\<forall>u \<in># ts_visible (tqe_source e). task_key t \<le> task_key u"
    using Top_visible_least [OF _ False] x(2) unfolding entry_wf_def by blast
  show ?thesis
    using False c x(1) t
    by (cases cur) (auto simp: top_task_updater_def candidate_def DelayedTask_gt_key
        intro: order_trans less_imp_le)
qed

lemma peek_subsumed_candidate:
  assumes "candidate m ids M cur" and "\<forall>x \<in> set xs. \<exists>e. m x = Some e \<and> entry_wf x e"
  shows "\<exists>cur'. peek_subsumed m cur xs = Inr cur' \<and>
           candidate m (ids \<union> set xs) (M + sum_list (map (\<lambda>x. ts_visible (tqe_source (the (m x)))) xs)) cur'"
  using assms
proof (induction xs arbitrary: ids M cur)
  case Nil
  then show ?case by simp
next
  case (Cons x xs)
  then obtain e where x: "m x = Some e" "entry_wf x e" by auto
  obtain c1 where c1: "top_task_updater cur (tqe_source e) = Inr c1"
    "candidate m (insert x ids) (M + ts_visible (tqe_source e)) c1"
    using updater_candidate [OF Cons.prems(1) x] by blast
  obtain c2 where "peek_subsumed m c1 xs = Inr c2"
    "candidate m (insert x ids \<union> set xs)
       (M + ts_visible (tqe_source e) + sum_list (map (\<lambda>x. ts_visible (tqe_source (the (m x)))) xs)) c2"
    using Cons.IH [OF c1(2)] Cons.prems(2) by auto
  then show ?case using x(1) c1(1) by (simp add: add.assoc)
qed

lemma candidate_single:
  assumes "m x = Some e" and "entry_wf x e"
  shows "\<exists>c. top_task_updater None (tqe_source e) = Inr c \<and> candidate m {x} (ts_visible (tqe_source e)) c"
  using updater_candidate [where cur = None and M = "{#}" and ids = "{}" and m = m, OF _ assms]
  by (simp add: candidate_def)

lemma Peek_least:
  assumes wf: "tq_wf s" and q: "tq_entries s q = Some e" and ne: "pending s q \<noteq> {#}"
  shows "\<exists>t. PeekNextTaskUnlocked s q = Inr t \<and>
           candidate (tq_entries s) (insert q (set (tqe_owner_of e))) (pending s q) (Some t)"
proof -
  have own: "tqe_subsumed_by e = kUnmerged" using ne q pending_subsumed by fastforce
  have ew: "entry_wf q e" using tq_wfD [OF wf q] by simp
  have subs: "\<forall>x \<in> set (tqe_owner_of e). \<exists>f. tq_entries s x = Some f \<and> entry_wf x f"
    using owned_exist [OF wf q] tq_wfD(1) [OF wf] by blast
  have hp: "HasPendingTasksUnlocked s q = Inr True" using HasPending_eq [OF wf q] ne by simp
  obtain c where c: "top_task_updater None (tqe_source e) = Inr c"
    "candidate (tq_entries s) {q} (ts_visible (tqe_source e)) c"
    using candidate_single [of "tq_entries s", OF q ew] by blast
  obtain c' where c': "peek_subsumed (tq_entries s) c (tqe_owner_of e) = Inr c'"
    "candidate (tq_entries s) (insert q (set (tqe_owner_of e))) (pending s q) c'"
    using peek_subsumed_candidate [OF c(2) subs] own q
    by (auto simp: pending_def queue_sources_owner comp_def)
  then obtain t where t: "c' = Some t" using ne by (cases c') (auto simp: candidate_def)
  show ?thesis
  proof (cases "tqe_owner_of e = []")
    case True
    then have "c = Some t" using c' t by simp
    with c have "\<not> TaskSource_IsEmpty (tqe_source e)" "TaskSource_Top (tqe_source e) = Inr t"
      by (auto simp: top_task_updater_def split: if_splits)
    with True hp q c' t show ?thesis by (auto simp: PeekNextTaskUnlocked_def)
  next
    case False
    with hp q c c' t show ?thesis by (auto simp: PeekNextTaskUnlocked_def)
  qed
qed

text \<open>On a well-formed state no wake-up of a live queue fails.\<close>

lemma wake_total:
  assumes "tq_wf s" and "tq_entries s q = Some e"
  shows "\<exists>s'. wake_if_pending q s = Inr s'"
proof (cases "pending s q = {#}")
  case True
  then show ?thesis using HasPending_eq [OF assms] by (simp add: wake_if_pending_def)
next
  case False
  then obtain t where "PeekNextTaskUnlocked s q = Inr t" using Peek_least [OF assms] by blast
  with False assms(2) HasPending_eq [OF assms] show ?thesis
    by (auto simp: wake_if_pending_def GetNextWakeTimeUnlocked_def WakeUpUnlocked_def
        split: option.splits)
qed

end
