(* ===== verification/Task_Queues_Ops.thy ===== *)
theory Task_Queues_Ops
  imports Task_Queues_Inv
begin

text \<open>
  Every operation of the task queues keeps the invariant; the step relation \<open>tq_step\<close> has one
  rule per operation, and the invariant holds in every reachable state.
\<close>

section \<open>Each operation keeps the invariant\<close>

lemma tq_wf_new: "tq_wf (TaskQueues_new t)"
  by (simp add: tq_wf_def links_wf_def TaskQueues_new_def)

lemma entry_wf_new: "q \<noteq> kUnmerged \<Longrightarrow> entry_wf q (TaskQueueEntry_new q)"
  by (simp add: entry_wf_def TaskQueueEntry_new_def)

lemma links_wf_new_entry:
  assumes "links_wf m" and "m q = None"
  shows "links_wf (m(q \<mapsto> TaskQueueEntry_new q))"
  unfolding links_wf_def
proof (intro allI impI conjI ballI)
  fix p f x assume pf: "(m(q \<mapsto> TaskQueueEntry_new q)) p = Some f" and x: "x \<in> set (tqe_owner_of f)"
  then have "m p = Some f" by (auto simp: TaskQueueEntry_new_def split: if_splits)
  then obtain g where "m x = Some g" "tqe_subsumed_by g = p" using links_owned [OF assms(1)] x by blast
  then show "\<exists>g. (m(q \<mapsto> TaskQueueEntry_new q)) x = Some g \<and> tqe_subsumed_by g = p"
    using assms(2) by (intro exI [of _ g]) auto
next
  fix p f
  assume pf: "(m(q \<mapsto> TaskQueueEntry_new q)) p = Some f" and sub: "tqe_subsumed_by f \<noteq> kUnmerged"
  then have p: "m p = Some f" by (auto simp: TaskQueueEntry_new_def split: if_splits)
  then show "tqe_owner_of f = []" using links_subsumed [OF assms(1)] sub by blast
  obtain g where "m (tqe_subsumed_by f) = Some g" "p \<in> set (tqe_owner_of g)"
    using links_subsumed [OF assms(1) p sub] by blast
  then show "\<exists>g. (m(q \<mapsto> TaskQueueEntry_new q)) (tqe_subsumed_by f) = Some g \<and> p \<in> set (tqe_owner_of g)"
    using assms(2) by (intro exI [of _ g]) auto
qed

lemma word_less_succ:
  fixes w :: u64
  assumes "w \<noteq> - 1" and "x < w \<or> x = w"
  shows "x < w + 1"
proof -
  have "1 + w \<noteq> 0" using assms(1) by (metis add_eq_0_iff)
  then have "unat (1 + w) = Suc (unat w)" by (rule unatSuc)
  with assms(2) show ?thesis by (auto simp: word_less_nat_alt add.commute)
qed

lemma tq_wf_Create:
  assumes wf: "tq_wf s" and room: "tq_id_counter s \<noteq> kUnmerged"
  shows "tq_wf (snd (CreateTaskQueue s))"
proof -
  let ?q = "tq_id_counter s"
  have none: "tq_entries s ?q = None"
    using wf by (cases "tq_entries s ?q") (auto simp: tq_wf_def)
  have "links_wf ((tq_entries s)(?q \<mapsto> TaskQueueEntry_new ?q))"
    using links_wf_new_entry [of "tq_entries s" ?q] none wf by (simp add: tq_wf_def)
  moreover have "x < ?q + 1" if "x < ?q \<or> x = ?q" for x
    using word_less_succ [of ?q x] room that by (simp add: kUnmerged_def)
  ultimately show ?thesis
    using wf entry_wf_new [OF room] by (auto simp: CreateTaskQueue_def Let_def tq_wf_def)
qed

lemma fold_erase: "fold (\<lambda>x m. m(x := None)) xs m = (\<lambda>y. if y \<in> set xs then None else m y)"
  by (induction xs arbitrary: m) (auto simp: fun_eq_iff)

lemma tq_wf_Dispose:
  assumes wf: "tq_wf s" and d: "Dispose q s = Inr s'"
  shows "tq_wf s'"
proof -
  obtain e where e: "tq_entries s q = Some e" "tqe_subsumed_by e = kUnmerged"
    and s': "s' = s\<lparr>tq_entries :=
          (fold (\<lambda>x m. m(x := None)) (tqe_owner_of e) (tq_entries s))(q := None)\<rparr>"
    using d by (auto simp: Dispose_def)
  let ?m = "tq_entries s" and ?D = "insert q (set (tqe_owner_of e))"
  have lw: "links_wf ?m" using wf by (simp add: tq_wf_def)
  have owned_keep: "x \<notin> ?D"
    if pf: "?m p = Some f" and pD: "p \<notin> ?D" and x: "x \<in> set (tqe_owner_of f)" for p f x
  proof -
    obtain g where g: "?m x = Some g" "tqe_subsumed_by g = p" using links_owned [OF lw pf x] by blast
    have "p \<noteq> kUnmerged" using tq_wfD(1) [OF wf pf] by (simp add: entry_wf_def)
    with g e pD show ?thesis using links_owned [OF lw e(1), of x] by auto
  qed
  have subs_keep: "tqe_subsumed_by f \<notin> ?D"
    if pf: "?m p = Some f" and pD: "p \<notin> ?D" and sub: "tqe_subsumed_by f \<noteq> kUnmerged" for p f
  proof
    obtain g where g: "?m (tqe_subsumed_by f) = Some g" "p \<in> set (tqe_owner_of g)"
      using links_subsumed [OF lw pf sub] by blast
    assume "tqe_subsumed_by f \<in> ?D"
    then consider "tqe_subsumed_by f = q" | "tqe_subsumed_by f \<in> set (tqe_owner_of e)" by auto
    then show False
    proof cases
      case 1 with g e pD show False by auto
    next
      case 2
      then obtain h where "?m (tqe_subsumed_by f) = Some h" "tqe_subsumed_by h = q"
        using links_owned [OF lw e(1)] by blast
      then show False
        using links_subsumed [OF lw, of "tqe_subsumed_by f" h] g tq_wfD(1) [OF wf e(1)]
        by (auto simp: entry_wf_def)
    qed
  qed
  have m': "tq_entries s' y = (if y \<in> ?D then None else ?m y)" for y
    using s' by (simp add: fold_erase)
  have "links_wf (tq_entries s')"
    unfolding links_wf_def
  proof (intro allI impI conjI ballI)
    fix p f x assume "tq_entries s' p = Some f" and x: "x \<in> set (tqe_owner_of f)"
    then have p: "?m p = Some f" "p \<notin> ?D" by (simp_all add: m' split: if_splits)
    then show "\<exists>g. tq_entries s' x = Some g \<and> tqe_subsumed_by g = p"
      using links_owned [OF lw p(1) x] owned_keep [OF p x] by (simp only: m' if_False)
  next
    fix p f assume "tq_entries s' p = Some f" and sub: "tqe_subsumed_by f \<noteq> kUnmerged"
    then have p: "?m p = Some f" "p \<notin> ?D" by (simp_all add: m' split: if_splits)
    then show "tqe_owner_of f = []" using links_subsumed [OF lw p(1) sub] by simp
    show "\<exists>g. tq_entries s' (tqe_subsumed_by f) = Some g \<and> p \<in> set (tqe_owner_of g)"
      using links_subsumed [OF lw p(1) sub] subs_keep [OF p sub] by (simp only: m' if_False)
  qed
  moreover have "tq_id_counter s' = tq_id_counter s" using s' by simp
  ultimately show ?thesis using wf by (auto simp: tq_wf_def m' split: if_splits)
qed

lemma tq_wf_shutdown_all: "tq_wf s \<Longrightarrow> shutdown_all xs s = Inr s' \<Longrightarrow> tq_wf s'"
proof (induction xs arbitrary: s)
  case (Cons x xs)
  from Cons.prems(2) obtain s1 where
    "update_source x (\<lambda>ts. Inr (TaskSource_ShutDown ts)) s = Inr s1" "shutdown_all xs s1 = Inr s'"
    by auto
  with Cons.IH Cons.prems(1) tq_wf_update_source show ?case by fastforce
qed simp

lemma tq_wf_DisposeTasks: "tq_wf s \<Longrightarrow> DisposeTasks q s = Inr s' \<Longrightarrow> tq_wf s'"
  unfolding DisposeTasks_def using tq_wf_shutdown_all by blast

lemma tq_wf_Register:
  assumes "tq_wf s" and "RegisterTask q c t g s = Inr s'"
  shows "tq_wf s'"
proof -
  obtain dt s2 l where u: "update_source q (\<lambda>ts. Inr (TaskSource_RegisterTask dt ts))
      (s\<lparr>tq_order := tq_order s + 1\<rparr>) = Inr s2" and w: "wake_if_pending l s2 = Inr s'"
    using assms(2) by (auto simp: RegisterTask_def Let_def)
  have "tq_wf s2" by (rule tq_wf_update_source [OF _ u]) (use assms(1) in auto)
  then show ?thesis using w by (rule tq_wf_wake)
qed

lemma tq_wf_GetNext:
  assumes wf: "tq_wf s" and "GetNextTaskToRun fr th q from s = Inr (r, s')"
  shows "tq_wf s'"
proof -
  from assms(2) consider "s' = s" | w where "s' = s\<lparr>tq_wakeups := w\<rparr>"
    | w g h i s2 where "update_source i (TaskSource_PopTask g) (s\<lparr>tq_wakeups := w\<rparr>) = Inr s2"
        "s' = s2\<lparr>tq_tls_grade := (tq_tls_grade s2)(th \<mapsto> h)\<rparr>"
    unfolding GetNextTaskToRun_def
    by (auto simp: Let_def split: if_splits dest!: wake_up_frame)
  then show ?thesis
  proof cases
    case 3
    have "tq_wf s2"
      using tq_wf_update_source [OF _ 3(1)] wf ts_wf_pop ts_queue_id_pop by fastforce
    with 3(2) show ?thesis by simp
  qed (use wf in simp_all)
qed

lemma tq_wf_AddTaskObserver: "tq_wf s \<Longrightarrow> AddTaskObserver q k c s = Inr s' \<Longrightarrow> tq_wf s'"
  by (auto simp: AddTaskObserver_def entry_wf_def split: option.splits
      intro!: tq_wf_upd dest: tq_wfD)

lemma tq_wf_RemoveTaskObserver: "tq_wf s \<Longrightarrow> RemoveTaskObserver q k s = Inr s' \<Longrightarrow> tq_wf s'"
  by (auto simp: RemoveTaskObserver_def entry_wf_def intro!: tq_wf_upd dest: tq_wfD)

lemma tq_wf_SetWakeable: "tq_wf s \<Longrightarrow> SetWakeable q w s = Inr s' \<Longrightarrow> tq_wf s'"
  by (auto simp: SetWakeable_def entry_wf_def intro!: tq_wf_upd dest: tq_wfD)

lemma tq_wf_Pause: "tq_wf s \<Longrightarrow> PauseSecondarySource q s = Inr s' \<Longrightarrow> tq_wf s'"
  unfolding PauseSecondarySource_def using tq_wf_update_source by fastforce

lemma ts_queue_id_resume:
  "TaskSource_ResumeSecondary ts = Inr ts' \<Longrightarrow> ts_queue_id ts' = ts_queue_id ts"
  by (auto simp: TaskSource_ResumeSecondary_def Let_def)

lemma tq_wf_Resume: "tq_wf s \<Longrightarrow> ResumeSecondarySource q s = Inr s' \<Longrightarrow> tq_wf s'"
  unfolding ResumeSecondarySource_def
  using tq_wf_update_source [where f = TaskSource_ResumeSecondary] ts_wf_resume ts_queue_id_resume
    tq_wf_wake by blast

section \<open>Merging and unmerging\<close>

lemma links_wf_merge:
  assumes lw: "links_wf m" and keys: "\<And>q e. m q = Some e \<Longrightarrow> q \<noteq> kUnmerged"
    and o: "m ow = Some oe" "tqe_subsumed_by oe = kUnmerged"
    and s: "m sub = Some se" "tqe_subsumed_by se = kUnmerged" "tqe_owner_of se = []"
    and ne: "ow \<noteq> sub"
  shows "links_wf (m(ow \<mapsto> oe\<lparr>tqe_owner_of := oset_insert sub (tqe_owner_of oe)\<rparr>,
                     sub \<mapsto> se\<lparr>tqe_subsumed_by := ow\<rparr>))" (is "links_wf ?m'")
  unfolding links_wf_def
proof (intro allI impI conjI ballI)
  fix p f x assume p: "?m' p = Some f" and x: "x \<in> set (tqe_owner_of f)"
  show "\<exists>g. ?m' x = Some g \<and> tqe_subsumed_by g = p"
  proof (cases "p = ow \<and> x = sub")
    case False
    obtain f0 where f0: "m p = Some f0" "x \<in> set (tqe_owner_of f0)"
      using p x o s ne False by (auto split: if_splits)
    obtain g where g: "m x = Some g" "tqe_subsumed_by g = p" using links_owned [OF lw f0] by blast
    have "p \<noteq> kUnmerged" using keys [OF f0(1)] .
    then have "x \<noteq> ow" "x \<noteq> sub" using g o s by auto
    with g show ?thesis by (intro exI [of _ g]) simp
  qed (use ne in simp)
next
  fix p f assume p: "?m' p = Some f" and sub: "tqe_subsumed_by f \<noteq> kUnmerged"
  show "tqe_owner_of f = []"
    using p sub o s ne links_subsumed [OF lw] by (auto split: if_splits)
  show "\<exists>g. ?m' (tqe_subsumed_by f) = Some g \<and> p \<in> set (tqe_owner_of g)"
  proof (cases "p = sub")
    case True
    then show ?thesis using p ne by auto
  next
    case False
    then have mp: "m p = Some f" using p sub o by (auto split: if_splits)
    obtain g where g: "m (tqe_subsumed_by f) = Some g" "p \<in> set (tqe_owner_of g)"
      using links_subsumed [OF lw mp sub] by blast
    then have "tqe_subsumed_by f \<noteq> sub" using s by auto
    with g o show ?thesis by (cases "tqe_subsumed_by f = ow") auto
  qed
qed

lemma links_wf_unmerge:
  assumes lw: "links_wf m" and keys: "\<And>q e. m q = Some e \<Longrightarrow> q \<noteq> kUnmerged"
    and o: "m ow = Some oe" "tqe_subsumed_by oe = kUnmerged" "sub \<in> set (tqe_owner_of oe)"
    and s: "m sub = Some se"
  shows "links_wf (m(sub \<mapsto> se\<lparr>tqe_subsumed_by := kUnmerged\<rparr>,
                     ow \<mapsto> oe\<lparr>tqe_owner_of := oset_erase sub (tqe_owner_of oe)\<rparr>))" (is "links_wf ?m'")
proof -
  have sb: "tqe_subsumed_by se = ow" using links_owned [OF lw o(1,3)] s by auto
  have owk: "ow \<noteq> kUnmerged" using keys [OF o(1)] .
  then have ne: "ow \<noteq> sub" and so: "tqe_owner_of se = []"
    using sb o s links_subsumed [OF lw s] by auto
  show ?thesis
    unfolding links_wf_def
  proof (intro allI impI conjI ballI)
    fix p f x assume p: "?m' p = Some f" and x: "x \<in> set (tqe_owner_of f)"
    obtain f0 where f0: "m p = Some f0" "x \<in> set (tqe_owner_of f0)" "p = ow \<longrightarrow> x \<noteq> sub"
      using p x o s so ne by (auto split: if_splits)
    obtain g where g: "m x = Some g" "tqe_subsumed_by g = p" using links_owned [OF lw f0(1,2)] by blast
    have "p \<noteq> kUnmerged" using keys [OF f0(1)] .
    then have "x \<noteq> ow" "x \<noteq> sub" using g o s sb f0(3) by auto
    with g show "\<exists>g. ?m' x = Some g \<and> tqe_subsumed_by g = p" by (intro exI [of _ g]) simp
  next
    fix p f assume p: "?m' p = Some f" and sub: "tqe_subsumed_by f \<noteq> kUnmerged"
    then have mp: "m p = Some f" and np: "p \<noteq> ow" "p \<noteq> sub" using o by (auto split: if_splits)
    then show "tqe_owner_of f = []" using links_subsumed [OF lw mp sub] by simp
    obtain g where g: "m (tqe_subsumed_by f) = Some g" "p \<in> set (tqe_owner_of g)"
      using links_subsumed [OF lw mp sub] by blast
    then have "tqe_subsumed_by f \<noteq> sub" using s so by auto
    with g o np show "\<exists>g. ?m' (tqe_subsumed_by f) = Some g \<and> p \<in> set (tqe_owner_of g)"
      by (cases "tqe_subsumed_by f = ow") auto
  qed
qed

lemma tq_wf_keys: "tq_wf s \<Longrightarrow> tq_entries s q = Some e \<Longrightarrow> q \<noteq> kUnmerged"
  by (auto simp: tq_wf_def entry_wf_def)

text \<open>The state just after the links are set by \<open>Merge\<close>, and cleared by \<open>Unmerge\<close>.\<close>

definition merged_state :: "u64 \<Rightarrow> u64 \<Rightarrow> 'c TaskQueueEntry \<Rightarrow> 'c TaskQueueEntry \<Rightarrow> 'c TaskQueues \<Rightarrow> 'c TaskQueues" where
  "merged_state ow sub oe se s =
     s\<lparr>tq_entries := (tq_entries s)
         (ow \<mapsto> oe\<lparr>tqe_owner_of := oset_insert sub (tqe_owner_of oe)\<rparr>,
          sub \<mapsto> se\<lparr>tqe_subsumed_by := ow\<rparr>)\<rparr>"

definition unmerged_state :: "u64 \<Rightarrow> u64 \<Rightarrow> 'c TaskQueueEntry \<Rightarrow> 'c TaskQueueEntry \<Rightarrow> 'c TaskQueues \<Rightarrow> 'c TaskQueues" where
  "unmerged_state ow sub oe se s =
     s\<lparr>tq_entries := (tq_entries s)
         (sub \<mapsto> se\<lparr>tqe_subsumed_by := kUnmerged\<rparr>,
          ow \<mapsto> oe\<lparr>tqe_owner_of := oset_erase sub (tqe_owner_of oe)\<rparr>)\<rparr>"

lemma tq_wf_merged_state:
  assumes wf: "tq_wf s" and o: "tq_entries s ow = Some oe" "tqe_subsumed_by oe = kUnmerged"
    and sb: "tq_entries s sub = Some se" "tqe_subsumed_by se = kUnmerged" "tqe_owner_of se = []"
    and ne: "ow \<noteq> sub"
  shows "tq_wf (merged_state ow sub oe se s)"
proof -
  have "links_wf (tq_entries (merged_state ow sub oe se s))"
    using links_wf_merge [OF _ tq_wf_keys [OF wf] o sb ne] wf by (simp add: merged_state_def tq_wf_def)
  then show ?thesis
    using wf tq_wfD [OF wf o(1)] tq_wfD [OF wf sb(1)] by (simp add: merged_state_def tq_wf_def entry_wf_def)
qed

lemma tq_wf_unmerged_state:
  assumes wf: "tq_wf s" and o: "tq_entries s ow = Some oe" "tqe_subsumed_by oe = kUnmerged"
      "sub \<in> set (tqe_owner_of oe)" and sb: "tq_entries s sub = Some se"
  shows "tq_wf (unmerged_state ow sub oe se s)"
proof -
  have "links_wf (tq_entries (unmerged_state ow sub oe se s))"
    using links_wf_unmerge [OF _ tq_wf_keys [OF wf] o sb] wf by (simp add: unmerged_state_def tq_wf_def)
  then show ?thesis
    using wf tq_wfD [OF wf o(1)] tq_wfD [OF wf sb(1)] by (simp add: unmerged_state_def tq_wf_def entry_wf_def)
qed

lemma Merge_cases:
  assumes "Merge ow sub s = Inr (b, s')"
  obtains "s' = s" | oe se where "b" "ow \<noteq> sub" "tq_entries s ow = Some oe" "tqe_subsumed_by oe = kUnmerged"
    "tq_entries s sub = Some se" "tqe_subsumed_by se = kUnmerged" "tqe_owner_of se = []"
    "sub \<notin> set (tqe_owner_of oe)" "wake_if_pending ow (merged_state ow sub oe se s) = Inr s'"
  using assms by (auto simp: Merge_def merged_state_def split: if_splits)

lemma tq_wf_Merge:
  assumes "tq_wf s" and "Merge ow sub s = Inr (b, s')"
  shows "tq_wf s'"
  using assms(2)
  by (rule Merge_cases) (use assms(1) tq_wf_merged_state tq_wf_wake in blast)+

lemma wf_owner_not_owned:
  assumes "tq_wf s" and "tq_entries s ow = Some oe" and "tqe_subsumed_by oe = kUnmerged"
    and "sub \<in> set (tqe_owner_of oe)"
  shows "ow \<noteq> sub"
  using assms links_owned [of "tq_entries s" ow oe sub] tq_wf_keys [of s ow oe] by (auto simp: tq_wf_def)

lemma Unmerge_cases:
  assumes wf: "tq_wf s" and "Unmerge ow sub s = Inr (b, s')"
  obtains "\<not> b" "s' = s" | oe se s2 where "b" "tq_entries s ow = Some oe" "tqe_subsumed_by oe = kUnmerged"
    "sub \<in> set (tqe_owner_of oe)" "tq_entries s sub = Some se" "tqe_subsumed_by se = ow" "ow \<noteq> sub"
    "wake_if_pending ow (unmerged_state ow sub oe se s) = Inr s2" "wake_if_pending sub s2 = Inr s'"
proof -
  obtain oe where oe: "tq_entries s ow = Some oe"
    using assms(2) by (cases "tq_entries s ow") (auto simp: Unmerge_def map_at_def)
  show thesis
  proof (cases "tqe_owner_of oe = [] \<or> tqe_subsumed_by oe \<noteq> kUnmerged")
    case True
    then show thesis using assms(2) oe that(1) by (cases "tqe_owner_of oe = []") (auto simp: Unmerge_def)
  next
    case own: False
    obtain se where se: "tq_entries s sub = Some se"
      using assms(2) oe own by (cases "tq_entries s sub") (auto simp: Unmerge_def map_at_def)
    show thesis
    proof (cases "tqe_subsumed_by se = kUnmerged \<or> sub \<notin> set (tqe_owner_of oe)")
      case True
      then show thesis using assms(2) oe se own that(1)
        by (cases "tqe_subsumed_by se = kUnmerged") (auto simp: Unmerge_def)
    next
      case False
      then have sub: "sub \<in> set (tqe_owner_of oe)" by simp
      have ne: "ow \<noteq> sub" using wf_owner_not_owned [OF wf oe _ sub] own by simp
      have "tqe_subsumed_by se = ow"
        using links_owned [of "tq_entries s" ow oe sub] oe sub wf se by (auto simp: tq_wf_def)
      moreover obtain s2 where "wake_if_pending ow (unmerged_state ow sub oe se s) = Inr s2"
        "wake_if_pending sub s2 = Inr s'" "b"
        using assms(2) oe se own False ne by (auto simp: Unmerge_def Let_def unmerged_state_def)
      ultimately show thesis using that(2) oe se own sub ne by blast
    qed
  qed
qed

lemma tq_wf_Unmerge:
  assumes wf: "tq_wf s" and "Unmerge ow sub s = Inr (b, s')"
  shows "tq_wf s'"
  using assms
proof (rule Unmerge_cases)
  fix oe se s2
  assume "tq_entries s ow = Some oe" "tqe_subsumed_by oe = kUnmerged" "sub \<in> set (tqe_owner_of oe)"
    "tq_entries s sub = Some se" "wake_if_pending ow (unmerged_state ow sub oe se s) = Inr s2"
    "wake_if_pending sub s2 = Inr s'"
  then show "tq_wf s'" using tq_wf_unmerged_state [OF wf] tq_wf_wake by blast
qed (use wf in simp)

end
