(* ===== verification/Task_Queues_Spec.thy ===== *)
theory Task_Queues_Spec
  imports Task_Queues_Ops
begin

text \<open>
  What the task queues promise: the ownership structure in every reachable state, that the next
  task to run is the least pending one and is removed exactly once, what merging and unmerging
  do to the pending tasks, and the order in which tasks of the same target time run.
\<close>

section \<open>Steps and reachable states\<close>

text \<open>
  One rule per public operation that changes state; \<open>RegisterTask\<close>, the only one that reads
  \<open>order_\<close>, is kept apart.  Queue ids come from a 64-bit counter; the rule for \<open>CreateTaskQueue\<close>
  applies while the counter has not reached \<open>kUnmerged\<close>, that is for the first \<open>2^64 - 1\<close> queues
  of a process.
\<close>

inductive tq_other_step :: "'c TaskQueues \<Rightarrow> 'c TaskQueues \<Rightarrow> bool" where
  step_create: "tq_id_counter s \<noteq> kUnmerged \<Longrightarrow> tq_other_step s (snd (CreateTaskQueue s))"
| step_dispose: "Dispose q s = Inr s' \<Longrightarrow> tq_other_step s s'"
| step_dispose_tasks: "DisposeTasks q s = Inr s' \<Longrightarrow> tq_other_step s s'"
| step_get_next: "GetNextTaskToRun fr th q t s = Inr (r, s') \<Longrightarrow> tq_other_step s s'"
| step_add_observer: "AddTaskObserver q k cb s = Inr s' \<Longrightarrow> tq_other_step s s'"
| step_remove_observer: "RemoveTaskObserver q k s = Inr s' \<Longrightarrow> tq_other_step s s'"
| step_set_wakeable: "SetWakeable q w s = Inr s' \<Longrightarrow> tq_other_step s s'"
| step_merge: "Merge ow sub s = Inr (b, s') \<Longrightarrow> tq_other_step s s'"
| step_unmerge: "Unmerge ow sub s = Inr (b, s') \<Longrightarrow> tq_other_step s s'"
| step_pause: "PauseSecondarySource q s = Inr s' \<Longrightarrow> tq_other_step s s'"
| step_resume: "ResumeSecondarySource q s = Inr s' \<Longrightarrow> tq_other_step s s'"

inductive tq_step :: "'c TaskQueues \<Rightarrow> 'c TaskQueues \<Rightarrow> bool" where
  step_other: "tq_other_step s s' \<Longrightarrow> tq_step s s'"
| step_register: "RegisterTask q c t g s = Inr s' \<Longrightarrow> tq_step s s'"

text \<open>A run with the number of its registrations.\<close>

inductive tq_run :: "nat \<Rightarrow> 'c TaskQueues \<Rightarrow> 'c TaskQueues \<Rightarrow> bool" where
  run_nil: "tq_run 0 s s"
| run_other: "tq_run n s s' \<Longrightarrow> tq_other_step s' s'' \<Longrightarrow> tq_run n s s''"
| run_register: "tq_run n s s' \<Longrightarrow> RegisterTask q c t g s' = Inr s'' \<Longrightarrow> tq_run (Suc n) s s''"

inductive tq_reachable :: "'c TaskQueues \<Rightarrow> bool" where
  tq_init: "tq_reachable (TaskQueues_new th)"
| tq_next: "tq_reachable s \<Longrightarrow> tq_step s s' \<Longrightarrow> tq_reachable s'"

lemmas tq_wf_steps =
  tq_wf_Create tq_wf_Dispose tq_wf_DisposeTasks tq_wf_GetNext
  tq_wf_AddTaskObserver tq_wf_RemoveTaskObserver tq_wf_SetWakeable tq_wf_Merge tq_wf_Unmerge
  tq_wf_Pause tq_wf_Resume

lemma tq_other_step_wf: "tq_other_step s s' \<Longrightarrow> tq_wf s \<Longrightarrow> tq_wf s'"
  by (induction rule: tq_other_step.induct) (blast intro: tq_wf_steps)+

lemma tq_step_wf: "tq_step s s' \<Longrightarrow> tq_wf s \<Longrightarrow> tq_wf s'"
  by (induction rule: tq_step.induct) (blast intro: tq_other_step_wf tq_wf_Register)+

lemma tq_run_wf: "tq_run n s s' \<Longrightarrow> tq_wf s \<Longrightarrow> tq_wf s'"
  by (induction rule: tq_run.induct) (blast intro: tq_other_step_wf tq_wf_Register)+

lemma tq_reachable_wf: "tq_reachable s \<Longrightarrow> tq_wf s"
  by (induction rule: tq_reachable.induct) (auto intro: tq_wf_new tq_step_wf)

section \<open>The next task to run\<close>

lemma Top_in_visible:
  assumes "ts_wf ts" and "TaskSource_Top ts = Inr tt"
  shows "top_task tt \<in># ts_visible ts"
proof -
  have "\<not> TaskSource_IsEmpty ts" using assms(2) by (auto simp: TaskSource_Top_def)
  from Top_visible_least [OF assms(1) this] assms(2) show ?thesis by auto
qed

lemma sum_list_map_upd:
  fixes g :: "'a \<Rightarrow> 'b::comm_monoid_add"
  assumes "distinct xs" and "i \<in> set xs"
  shows "sum_list (map (g(i := v)) xs) + g i = sum_list (map g xs) + v"
  using assms
proof (induction xs)
  case (Cons x xs)
  show ?case
  proof (cases "x = i")
    case True
    then have "map (g(i := v)) xs = map g xs" using Cons.prems by auto
    with True show ?thesis by (simp only: list.map sum_list.Cons fun_upd_same) (simp add: ac_simps)
  next
    case False
    with Cons show ?thesis by (simp add: add.assoc)
  qed
qed simp

text \<open>The visible tasks of the source of queue \<open>x\<close>; a queue sees those of the queues in its group.\<close>

definition visible_at :: "'c TaskQueues \<Rightarrow> u64 \<Rightarrow> 'c DelayedTask multiset" where
  "visible_at s x = ts_visible (tqe_source (the (tq_entries s x)))"

lemma pending_group:
  "tq_entries s q = Some e \<Longrightarrow> tqe_subsumed_by e = kUnmerged \<Longrightarrow>
     pending s q = sum_list (map (visible_at s) (q # tqe_owner_of e))"
  by (simp add: pending_def queue_sources_owner visible_at_def [abs_def] comp_def)

lemma group_distinct:
  assumes wf: "tq_wf s" and q: "tq_entries s q = Some e" "tqe_subsumed_by e = kUnmerged"
  shows "distinct (q # tqe_owner_of e)"
  using tq_wfD(1) [OF wf q(1)] wf_owner_not_owned [OF wf q] oset_wf_distinct
  by (auto simp: entry_wf_def)

lemma pending_pop:
  assumes wf: "tq_wf s" and q: "tq_entries s q = Some e" "tqe_subsumed_by e = kUnmerged"
    and i: "i \<in> insert q (set (tqe_owner_of e))" "tq_entries s i = Some ei"
    and t: "t \<in># ts_visible (tqe_source ei)" "ts_visible ts = ts_visible (tqe_source ei) - {#t#}"
  shows "pending (s\<lparr>tq_entries := (tq_entries s)(i \<mapsto> ei\<lparr>tqe_source := ts\<rparr>)\<rparr>) q = pending s q - {#t#}"
proof -
  let ?s' = "s\<lparr>tq_entries := (tq_entries s)(i \<mapsto> ei\<lparr>tqe_source := ts\<rparr>)\<rparr>"
  let ?L = "q # tqe_owner_of e"
  obtain e' where e': "tq_entries ?s' q = Some e'" "tqe_subsumed_by e' = kUnmerged"
      "tqe_owner_of e' = tqe_owner_of e"
    using q i by (cases "i = q") auto
  have va: "visible_at ?s' = (visible_at s)(i := ts_visible ts)"
    by (auto simp: visible_at_def fun_eq_iff)
  have "pending ?s' q + visible_at s i = pending s q + ts_visible ts"
    using sum_list_map_upd [OF group_distinct [OF wf q], of i "visible_at s" "ts_visible ts"] i(1)
    by (simp only: pending_group [OF e'(1,2)] pending_group [OF q] e'(3) va) simp
  moreover have "visible_at s i = add_mset t (ts_visible ts)"
    using t i(2) by (simp add: visible_at_def)
  ultimately have "add_mset t (pending ?s' q) + ts_visible ts = pending s q + ts_visible ts" by simp
  then have "add_mset t (pending ?s' q) = pending s q" by (simp only: add_right_cancel)
  then show ?thesis by (metis add_mset_remove_trivial)
qed

definition wake_record :: "'c TaskQueueEntry \<Rightarrow> time_point \<Rightarrow> (nat \<times> time_point) list" where
  "wake_record e t = (case tqe_wakeable e of None \<Rightarrow> [] | Some w \<Rightarrow> [(w, t)])"

lemma WakeUp_record:
  "tq_entries s q = Some e \<Longrightarrow>
     WakeUpUnlocked q t s = Inr (s\<lparr>tq_wakeups := tq_wakeups s @ wake_record e t\<rparr>)"
  by (simp add: WakeUpUnlocked_def wake_record_def split: option.split)

lemma pending_wakeups [simp]: "pending (s\<lparr>tq_wakeups := w\<rparr>) q = pending s q"
  by (simp add: pending_def queue_sources_def split: option.split)

lemma pending_tls [simp]: "pending (s\<lparr>tq_tls_grade := g\<rparr>) q = pending s q"
  by (simp add: pending_def queue_sources_def split: option.split)

text \<open>
  The grade \<open>GetNextTaskToRun\<close> records after it has taken the task \<open>t\<close> out of a source: that of
  a least task of those left in the heap of \<open>t\<close>.
\<close>

definition heap_of :: "'c DelayedTask \<Rightarrow> 'c TaskSource \<Rightarrow> 'c DelayedTask multiset" where
  "heap_of t ts = filter_mset (\<lambda>u. (dt_grade u = kDartEventLoop) = (dt_grade t = kDartEventLoop)) (ts_all ts)"

definition grade_after ::
  "TaskSourceGrade \<Rightarrow> 'c DelayedTask \<Rightarrow> 'c DelayedTask multiset \<Rightarrow> TaskSourceGrade \<Rightarrow> bool" where
  "grade_after fr t H g \<longleftrightarrow>
     (if H = {#t#} then g = fr
      else \<exists>u \<in># H - {#t#}. (\<forall>v \<in># H - {#t#}. task_key u \<le> task_key v) \<and> g = dt_grade u)"

lemma heap_of_queue:
  assumes "ts_wf ts"
  shows "heap_of t ts = mset (if dt_grade t = kDartEventLoop then ts_secondary ts else ts_primary ts)"
proof -
  let ?P = "\<lambda>u. (dt_grade u = kDartEventLoop) = (dt_grade t = kDartEventLoop)"
  have "filter ?P (ts_primary ts) = (if dt_grade t = kDartEventLoop then [] else ts_primary ts)"
    "filter ?P (ts_secondary ts) = (if dt_grade t = kDartEventLoop then ts_secondary ts else [])"
    using assms by (auto simp: ts_wf_def filter_empty_conv filter_id_conv)
  then show ?thesis by (simp add: heap_of_def ts_all_def flip: mset_filter)
qed

lemma front_slot_after_pop:
  assumes wf: "ts_wf ts" and top: "TaskSource_Top ts = Inr tt"
    and pop: "TaskSource_PopTask (dt_grade (top_task tt)) ts = Inr ts'"
  shows "top_task tt \<in># heap_of (top_task tt) ts \<and>
    grade_after fr (top_task tt) (heap_of (top_task tt) ts) (front_slot_grade fr (dt_grade (top_task tt)) ts')"
proof -
  let ?t = "top_task tt"
  let ?h = "\<lambda>ts. if dt_grade ?t = kDartEventLoop then ts_secondary ts else ts_primary ts"
  obtain q where q: "?h ts = ?t # q" using Top_grade_heap [OF wf top] by (cases "?h ts") auto
  have q': "?h ts' = q"
    using pop q by (cases "dt_grade ?t") (auto simp: TaskSource_PopTask_def)
  have s: "pq_wf q" using wf q by (auto simp: ts_wf_def pq_wf_def split: if_splits)
  have H: "heap_of ?t ts = add_mset ?t (mset q)" using heap_of_queue [OF wf] q by simp
  have f: "front_slot_grade fr (dt_grade ?t) ts' = (case pq_top q of None \<Rightarrow> fr | Some u \<Rightarrow> dt_grade u)"
    using q' by (simp add: front_slot_grade_def)
  show ?thesis
  proof (cases q)
    case Nil
    then show ?thesis using H f by (simp add: grade_after_def)
  next
    case (Cons u r)
    then have "pq_top q = Some u" by simp
    with dtq.top_in [OF this] dtq.top_least [OF s this] H f Cons show ?thesis
      by (auto simp: grade_after_def)
  qed
qed

lemma GetNext_empty:
  assumes "tq_wf s" and "tq_entries s q = Some e" and "pending s q = {#}"
  shows "GetNextTaskToRun fr th q from s = Inr (None, s)"
  using HasPending_eq [OF assms(1,2)] assms(3) by (simp add: GetNextTaskToRun_def)

lemma GetNext_pending:
  assumes wf: "tq_wf s" and q: "tq_entries s q = Some e" and ne: "pending s q \<noteq> {#}"
  shows "\<exists>t \<in># pending s q. (\<forall>u \<in># pending s q. task_key t \<le> task_key u) \<and>
      (if dt_target_time t > from then GetNextTaskToRun fr th q from s =
         Inr (None, s\<lparr>tq_wakeups := tq_wakeups s @ wake_record e (dt_target_time t)\<rparr>)
       else \<exists>s'. GetNextTaskToRun fr th q from s = Inr (Some (dt_task t), s') \<and>
         pending s' q = pending s q - {#t#} \<and>
         tq_wakeups s' = tq_wakeups s @ wake_record e (dt_target_time t) \<and>
         (\<exists>i ei g. i \<in> insert q (set (tqe_owner_of e)) \<and> tq_entries s i = Some ei \<and>
            t \<in># heap_of t (tqe_source ei) \<and> grade_after fr t (heap_of t (tqe_source ei)) g \<and>
            tq_tls_grade s' th = Some g))"
proof -
  obtain tt where pk: "PeekNextTaskUnlocked s q = Inr tt"
    and cd: "candidate (tq_entries s) (insert q (set (tqe_owner_of e))) (pending s q) (Some tt)"
    using Peek_least [OF assms] by blast
  let ?t = "top_task tt" and ?i = "top_queue_id tt"
  let ?s1 = "s\<lparr>tq_wakeups := tq_wakeups s @ wake_record e (dt_target_time (top_task tt))\<rparr>"
  have own: "tqe_subsumed_by e = kUnmerged" using ne q pending_subsumed by fastforce
  obtain ei where ei: "tq_entries s ?i = Some ei" "TaskSource_Top (tqe_source ei) = Inr tt"
    "?i \<in> insert q (set (tqe_owner_of e))" using cd by (auto simp: candidate_def)
  have hp: "HasPendingTasksUnlocked s q = Inr True" using HasPending_eq [OF wf q] ne by simp
  have wake: "GetNextWakeTimeUnlocked s q = Inr (dt_target_time ?t)"
    using pk by (simp add: GetNextWakeTimeUnlocked_def)
  have tw: "ts_wf (tqe_source ei)" using tq_wfD(1) [OF wf ei(1)] by (simp add: entry_wf_def)
  obtain ts where ts: "TaskSource_PopTask (dt_grade ?t) (tqe_source ei) = Inr ts"
    "ts_visible ts = ts_visible (tqe_source ei) - {#?t#}"
    using pop_top_removes [OF tw ei(2)] by blast
  have pend: "pending (?s1\<lparr>tq_entries := (tq_entries s)(?i \<mapsto> ei\<lparr>tqe_source := ts\<rparr>)\<rparr>) q = pending s q - {#?t#}"
    using pending_pop [of ?s1 q e ?i ei ?t ts] wf q own ei Top_in_visible [OF tw ei(2)] ts(2) by simp
  let ?g = "front_slot_grade fr (dt_grade ?t) ts"
  have slot: "?t \<in># heap_of ?t (tqe_source ei)" "grade_after fr ?t (heap_of ?t (tqe_source ei)) ?g"
    using front_slot_after_pop [OF tw ei(2) ts(1)] by simp_all
  have upd: "update_source ?i (TaskSource_PopTask (dt_grade ?t)) ?s1 =
      Inr (?s1\<lparr>tq_entries := (tq_entries s)(?i \<mapsto> ei\<lparr>tqe_source := ts\<rparr>)\<rparr>)"
    using ei(1) ts(1) by (simp add: update_source_def)
  have late: "GetNextTaskToRun fr th q from s = Inr (None, ?s1)" if "dt_target_time ?t > from"
    using that hp pk wake WakeUp_record [OF q] by (simp add: GetNextTaskToRun_def)
  have due: "\<exists>s'. GetNextTaskToRun fr th q from s = Inr (Some (dt_task ?t), s') \<and>
         pending s' q = pending s q - {#?t#} \<and>
         tq_wakeups s' = tq_wakeups s @ wake_record e (dt_target_time ?t) \<and> tq_tls_grade s' th = Some ?g"
    if "\<not> dt_target_time ?t > from"
    using that hp pk wake WakeUp_record [OF q] upd pend by (simp add: GetNextTaskToRun_def Let_def)
  have "?t \<in># pending s q" "\<forall>u \<in># pending s q. task_key ?t \<le> task_key u"
    using cd by (auto simp: candidate_def)
  with late due slot ei show ?thesis by (intro bexI [of _ ?t]) (simp, blast, simp)
qed

section \<open>Merging, unmerging and registering\<close>

lemma visible_at_merged:
  "tq_entries s ow = Some oe \<Longrightarrow> tq_entries s sub = Some se \<Longrightarrow>
     visible_at (merged_state ow sub oe se s) = visible_at s"
  by (auto simp: visible_at_def merged_state_def fun_eq_iff)

lemma sum_list_oset_insert:
  fixes g :: "'a::linorder \<Rightarrow> 'b::comm_monoid_add"
  assumes "x \<notin> set ys"
  shows "sum_list (map g (oset_insert x ys)) = g x + sum_list (map g ys)"
  using assms by (induction ys) (auto simp: ac_simps)

lemma pending_merged:
  assumes o: "tq_entries s ow = Some oe" "tqe_subsumed_by oe = kUnmerged"
    and sb: "tq_entries s sub = Some se" "tqe_subsumed_by se = kUnmerged" "tqe_owner_of se = []"
    and ne: "ow \<noteq> sub" "sub \<notin> set (tqe_owner_of oe)" and okey: "ow \<noteq> kUnmerged"
  shows "pending (merged_state ow sub oe se s) ow = pending s ow + pending s sub"
    and "pending (merged_state ow sub oe se s) sub = {#}"
    and "q \<noteq> ow \<Longrightarrow> q \<noteq> sub \<Longrightarrow> pending (merged_state ow sub oe se s) q = pending s q"
proof -
  let ?s' = "merged_state ow sub oe se s"
  have o': "tq_entries ?s' ow = Some (oe\<lparr>tqe_owner_of := oset_insert sub (tqe_owner_of oe)\<rparr>)"
    and s': "tq_entries ?s' sub = Some (se\<lparr>tqe_subsumed_by := ow\<rparr>)"
    using ne by (simp_all add: merged_state_def)
  show "pending ?s' ow = pending s ow + pending s sub"
    using o(2) sb(3) sum_list_oset_insert [OF ne(2), of "visible_at s"]
    by (simp add: pending_group [OF o'] pending_group [OF o] pending_group [OF sb(1,2)]
        visible_at_merged [OF o(1) sb(1)] ac_simps)
  show "pending ?s' sub = {#}" using pending_subsumed [OF s'] okey by simp
  assume q: "q \<noteq> ow" "q \<noteq> sub"
  then have eq: "tq_entries ?s' q = tq_entries s q" by (simp add: merged_state_def)
  show "pending ?s' q = pending s q"
  proof (cases "\<exists>e. tq_entries s q = Some e \<and> tqe_subsumed_by e = kUnmerged")
    case True
    then obtain e where e: "tq_entries s q = Some e" "tqe_subsumed_by e = kUnmerged" by blast
    show ?thesis
      by (simp add: pending_group [OF e] pending_group [OF eq [THEN trans, OF e(1)] e(2)]
          visible_at_merged [OF o(1) sb(1)])
  next
    case False
    then show ?thesis
      using eq by (cases "tq_entries s q") (auto simp: pending_def queue_sources_def)
  qed
qed

lemma pending_entries_eq: "tq_entries s' = tq_entries s \<Longrightarrow> pending s' q = pending s q"
  by (simp add: pending_def queue_sources_def split: option.split)

lemma Merge_total:
  assumes wf: "tq_wf s" and o: "tq_entries s ow = Some oe" and sb: "tq_entries s sub = Some se"
  shows "\<exists>b s'. Merge ow sub s = Inr (b, s') \<and>
           (b \<longleftrightarrow> ow = sub \<or> sub \<in> set (tqe_owner_of oe) \<or>
              tqe_subsumed_by oe = kUnmerged \<and> tqe_subsumed_by se = kUnmerged \<and> tqe_owner_of se = [])
           \<and> (\<not> b \<longrightarrow> s' = s)"
proof (cases "ow \<noteq> sub \<and> sub \<notin> set (tqe_owner_of oe) \<and> tqe_subsumed_by oe = kUnmerged \<and>
    tqe_owner_of se = [] \<and> tqe_subsumed_by se = kUnmerged")
  case True
  then have "tq_wf (merged_state ow sub oe se s)" using tq_wf_merged_state [OF wf o _ sb] by simp
  moreover have "\<exists>e. tq_entries (merged_state ow sub oe se s) ow = Some e"
    using True by (simp add: merged_state_def)
  ultimately obtain s' where "wake_if_pending ow (merged_state ow sub oe se s) = Inr s'"
    using wake_total by blast
  with True o sb show ?thesis by (auto simp: Merge_def merged_state_def)
next
  case False
  then show ?thesis using o sb by (auto simp: Merge_def)
qed

lemma unmerged_merged_state:
  assumes wf: "tq_wf s" and o: "tq_entries s ow = Some oe"
    and sb: "tq_entries s sub = Some se" "tqe_subsumed_by se = kUnmerged"
    and ne: "ow \<noteq> sub" "sub \<notin> set (tqe_owner_of oe)"
  shows "tq_entries (unmerged_state ow sub (oe\<lparr>tqe_owner_of := oset_insert sub (tqe_owner_of oe)\<rparr>)
           (se\<lparr>tqe_subsumed_by := ow\<rparr>) (merged_state ow sub oe se s)) = tq_entries s"
proof -
  have "oset_erase sub (oset_insert sub (tqe_owner_of oe)) = tqe_owner_of oe"
    using oset_erase_insert [OF _ ne(2)] tq_wfD(1) [OF wf o] by (simp add: entry_wf_def)
  then have "oe\<lparr>tqe_owner_of := oset_erase sub (oset_insert sub (tqe_owner_of oe))\<rparr> = oe"
    and "se\<lparr>tqe_subsumed_by := kUnmerged\<rparr> = se" using sb(2) by simp_all
  with o sb(1) ne show ?thesis by (auto simp: unmerged_state_def merged_state_def fun_eq_iff)
qed

lemma unmerged_entries_cong:
  "tq_entries s1 = tq_entries s2 \<Longrightarrow>
     tq_entries (unmerged_state ow sub oe se s1) = tq_entries (unmerged_state ow sub oe se s2)"
  by (simp add: unmerged_state_def)

lemma Unmerge_owned:
  assumes wf: "tq_wf s" and o: "tq_entries s ow = Some oe" "tqe_subsumed_by oe = kUnmerged"
      "sub \<in> set (tqe_owner_of oe)" and sb: "tq_entries s sub = Some se"
  shows "\<exists>s'. Unmerge ow sub s = Inr (True, s') \<and>
           tq_entries s' = tq_entries (unmerged_state ow sub oe se s)"
proof -
  let ?u = "unmerged_state ow sub oe se s"
  have ne: "ow \<noteq> sub" using wf_owner_not_owned [OF wf o] .
  have sb2: "tqe_subsumed_by se \<noteq> kUnmerged"
    using links_owned [of "tq_entries s" ow oe sub] o sb tq_wf_keys [OF wf o(1)] wf by (auto simp: tq_wf_def)
  have wu: "tq_wf ?u" using tq_wf_unmerged_state [OF wf o sb] .
  moreover have "\<exists>e. tq_entries ?u ow = Some e" by (simp add: unmerged_state_def)
  ultimately obtain s2 where s2: "wake_if_pending ow ?u = Inr s2" using wake_total by blast
  then have "tq_wf s2" "\<exists>e. tq_entries s2 sub = Some e"
    using tq_wf_wake [OF wu] ne by (auto simp: unmerged_state_def)
  then obtain s3 where s3: "wake_if_pending sub s2 = Inr s3" using wake_total by blast
  have "Unmerge ow sub s = Inr (True, s3)"
    using o sb sb2 ne s2 s3 by (auto simp: Unmerge_def Let_def unmerged_state_def)
  with s2 s3 show ?thesis by auto
qed

section \<open>Registration order\<close>

lemma wake_up_order [simp]: "WakeUpUnlocked q t s = Inr s' \<Longrightarrow> tq_order s' = tq_order s"
  by (drule wake_up_frame) auto

lemma wake_order [simp]: "wake_if_pending q s = Inr s' \<Longrightarrow> tq_order s' = tq_order s"
  by (drule wake_frame) auto

lemma update_source_order [simp]: "update_source q f s = Inr s' \<Longrightarrow> tq_order s' = tq_order s"
  by (auto simp: update_source_eq)

lemma shutdown_all_order [simp]: "shutdown_all xs s = Inr s' \<Longrightarrow> tq_order s' = tq_order s"
  by (induction xs arbitrary: s) auto

lemma GetNext_order: "GetNextTaskToRun fr th q t s = Inr (r, s') \<Longrightarrow> tq_order s' = tq_order s"
  by (auto simp: GetNextTaskToRun_def Let_def split: if_splits)

lemma merge_order: "Merge ow sub s = Inr (b, s') \<Longrightarrow> tq_order s' = tq_order s"
  by (auto simp: Merge_def split: if_splits dest: wake_order)

lemma unmerge_order: "Unmerge ow sub s = Inr (b, s') \<Longrightarrow> tq_order s' = tq_order s"
  by (auto simp: Unmerge_def Let_def split: if_splits dest!: wake_order)

lemma tq_other_step_order: "tq_other_step s s' \<Longrightarrow> tq_order s' = tq_order s"
proof (induction rule: tq_other_step.induct)
  case (step_create s)
  show ?case by (simp add: CreateTaskQueue_def Let_def)
next
  case (step_dispose q s s')
  then show ?case by (auto simp: Dispose_def)
next
  case (step_add_observer q k cb s s')
  then show ?case by (auto simp: AddTaskObserver_def split: option.splits)
qed (auto simp: DisposeTasks_def RemoveTaskObserver_def SetWakeable_def PauseSecondarySource_def
    ResumeSecondarySource_def dest: GetNext_order merge_order unmerge_order wake_order)

text \<open>The tasks stored in the source of a queue, visible or not.\<close>

definition stored_at :: "'c TaskQueues \<Rightarrow> u64 \<Rightarrow> 'c DelayedTask multiset" where
  "stored_at s q = ts_all (tqe_source (the (tq_entries s q)))"

lemma Register_effect:
  assumes "RegisterTask q c t g s = Inr s'"
  shows "tq_order s' = tq_order s + 1"
    and "stored_at s' q = add_mset \<lparr>dt_order = order_of (tq_order s), dt_task = c, dt_target_time = t,
           dt_grade = g\<rparr> (stored_at s q)"
proof -
  obtain s2 l where u: "update_source q (\<lambda>ts. Inr (TaskSource_RegisterTask
        \<lparr>dt_order = order_of (tq_order s), dt_task = c, dt_target_time = t, dt_grade = g\<rparr> ts))
      (s\<lparr>tq_order := tq_order s + 1\<rparr>) = Inr s2" and w: "wake_if_pending l s2 = Inr s'"
    using assms by (auto simp: RegisterTask_def Let_def)
  show "tq_order s' = tq_order s + 1" using u w by simp
  show "stored_at s' q = add_mset \<lparr>dt_order = order_of (tq_order s), dt_task = c, dt_target_time = t,
           dt_grade = g\<rparr> (stored_at s q)"
    using u wake_entries [OF w] by (auto simp: update_source_eq stored_at_def)
qed

lemma tq_run_order: "tq_run n s s' \<Longrightarrow> tq_order s' = tq_order s + of_nat n"
  by (induction rule: tq_run.induct)
    (auto simp: tq_other_step_order Register_effect(1) add.assoc)

lemma order_of_later:
  assumes "unat w + k + 1 < 2 ^ 32"
  shows "order_of w < order_of (w + 1 + of_nat k)"
proof -
  have "unat (w + 1 + of_nat k) = unat w + 1 + k"
    using assms by (simp add: unat_word_ariths unat_of_nat)
  then have "w < w + 1 + of_nat k" by (simp add: word_less_nat_alt)
  then show ?thesis by (simp only: order_of_def scast_u32_less_iff)
qed

text \<open>A task with a smaller key that is pending is taken before.\<close>

lemma GetNext_keeps_later:
  assumes wf: "tq_wf s" and a: "a \<in># pending s q" and b: "b \<in># pending s q"
    and key: "task_key a < task_key b" and get: "GetNextTaskToRun fr th q from s = Inr (r, s')"
  shows "b \<in># pending s' q"
proof -
  obtain e where e: "tq_entries s q = Some e"
    using a by (cases "tq_entries s q") (auto simp: pending_def queue_sources_def)
  have ne: "pending s q \<noteq> {#}" using a by auto
  obtain t where t: "\<forall>u \<in># pending s q. task_key t \<le> task_key u"
    and s': "pending s' q = pending s q \<or> pending s' q = pending s q - {#t#}"
    using GetNext_pending [OF wf e ne, of "from" fr th] get by (auto split: if_splits)
  have "b \<noteq> t" using t a key by auto
  with s' b show ?thesis by (auto simp: in_diff_count)
qed

section \<open>Properties\<close>

text \<open>
  Two queues, 0 and 1, with a task on queue 1, merged with owner 0: the state the witnesses use.
\<close>

definition demo_two :: "nat TaskQueues" where
  "demo_two = snd (CreateTaskQueue (snd (CreateTaskQueue (TaskQueues_new 0))))"

definition demo_task :: "nat TaskQueues" where
  "demo_task = projr (RegisterTask 1 7 5 kUnspecified demo_two)"

definition demo_merged :: "nat TaskQueues" where
  "demo_merged = snd (projr (Merge 0 1 demo_task))"

lemma demo_two_reachable: "tq_reachable demo_two"
proof -
  have "tq_reachable (snd (CreateTaskQueue (TaskQueues_new 0 :: nat TaskQueues)))"
    by (rule tq_next [OF tq_init step_other [OF step_create]]) code_simp
  then show ?thesis
    unfolding demo_two_def by (rule tq_next [OF _ step_other [OF step_create]]) code_simp
qed

lemma demo_register: "RegisterTask 1 7 5 kUnspecified demo_two = Inr demo_task"
  unfolding demo_task_def by (rule result_eqI) code_simp

lemma demo_merge: "Merge 0 1 demo_task = Inr (True, demo_merged)"
proof -
  have "Merge 0 1 demo_task = Inr (projr (Merge 0 1 demo_task))" by (rule result_eqI) code_simp
  moreover have "fst (projr (Merge 0 1 demo_task))" by code_simp
  ultimately show ?thesis unfolding demo_merged_def by (metis (full_types) prod.collapse)
qed

lemma demo_task_reachable: "tq_reachable demo_task"
  by (rule tq_next [OF demo_two_reachable step_register [OF demo_register]])

text \<open>A second task for the same time, on the owner.\<close>

definition demo_tied :: "nat TaskQueues" where
  "demo_tied = projr (RegisterTask 0 9 5 kUnspecified demo_merged)"

lemma demo_register_tied: "RegisterTask 0 9 5 kUnspecified demo_merged = Inr demo_tied"
  unfolding demo_tied_def by (rule result_eqI) code_simp

text \<open>A second task of another grade on queue 1, due later.\<close>

definition demo_graded :: "nat TaskQueues" where
  "demo_graded = projr (RegisterTask 1 8 6 kUserInteraction demo_merged)"

lemma demo_register_graded: "RegisterTask 1 8 6 kUserInteraction demo_merged = Inr demo_graded"
  unfolding demo_graded_def by (rule result_eqI) code_simp

lemma demo_merged_reachable: "tq_reachable demo_merged"
  by (rule tq_next [OF demo_task_reachable step_other [OF step_merge [OF demo_merge]]])

lemma demo_graded_reachable: "tq_reachable demo_graded"
  by (rule tq_next [OF demo_merged_reachable step_register [OF demo_register_graded]])

text \<open>
  C1: in every reachable state the ownership links form a forest of depth one: a queue that owns
  others is not subsumed, and a queue owns exactly the live queues that name it as their owner.
\<close>

theorem ownership_forest:
  assumes "tq_reachable s" and "tq_entries s q = Some e"
  shows "(tqe_owner_of e = [] \<or> tqe_subsumed_by e = kUnmerged) \<and>
    (\<forall>x. x \<in> set (tqe_owner_of e) \<longleftrightarrow>
       (\<exists>f. tq_entries s x = Some f \<and> tqe_subsumed_by f = q \<and> tqe_owner_of f = []))"
proof -
  have wf: "tq_wf s" using assms(1) by (rule tq_reachable_wf)
  then have lw: "links_wf (tq_entries s)" by (simp add: tq_wf_def)
  have q: "q \<noteq> kUnmerged" using tq_wf_keys [OF wf assms(2)] .
  show ?thesis
    using links_owned [OF lw assms(2)] links_subsumed [OF lw] assms(2) q by fastforce
qed

theorem ownership_forest_witness:
  "tq_reachable demo_merged \<and>
   (\<forall>x. x \<in> set (tqe_owner_of (the (tq_entries demo_merged 0))) \<longleftrightarrow>
       (\<exists>f. tq_entries demo_merged x = Some f \<and> tqe_subsumed_by f = 0 \<and> tqe_owner_of f = []))"
proof -
  have "tq_entries demo_merged 0 \<noteq> None" by code_simp
  then have "tq_entries demo_merged 0 = Some (the (tq_entries demo_merged 0))" by simp
  from ownership_forest [OF demo_merged_reachable this] demo_merged_reachable show ?thesis by blast
qed

text \<open>
  C2: \<open>GetNextTaskToRun\<close> never fails on a live queue.  When nothing is pending it returns null
  and changes nothing.  Otherwise it looks at the least pending task by (target time, order),
  over the queue's own source and every source it owns, and wakes the queue's loop for that
  task's target time; it returns null when the task is not due, and otherwise returns it and
  removes exactly it.  The grade recorded for the running thread is then not the one of the task
  returned but the one of the least task that is left in that task's heap, because it is read
  through \<open>TopTask::task\<close> after \<open>PopTask\<close>; when none is left it is whatever the read of the destroyed
  task gives (\<open>fr\<close>).
\<close>

theorem next_task_least:
  assumes "tq_reachable s" and "tq_entries s q = Some e"
  shows "if pending s q = {#} then GetNextTaskToRun fr th q from s = Inr (None, s)
    else \<exists>t \<in># pending s q. (\<forall>u \<in># pending s q. task_key t \<le> task_key u) \<and>
      (if dt_target_time t > from then GetNextTaskToRun fr th q from s =
         Inr (None, s\<lparr>tq_wakeups := tq_wakeups s @ wake_record e (dt_target_time t)\<rparr>)
       else \<exists>s'. GetNextTaskToRun fr th q from s = Inr (Some (dt_task t), s') \<and>
         pending s' q = pending s q - {#t#} \<and>
         tq_wakeups s' = tq_wakeups s @ wake_record e (dt_target_time t) \<and>
         (\<exists>i ei g. i \<in> insert q (set (tqe_owner_of e)) \<and> tq_entries s i = Some ei \<and>
            t \<in># heap_of t (tqe_source ei) \<and> grade_after fr t (heap_of t (tqe_source ei)) g \<and>
            tq_tls_grade s' th = Some g))"
proof -
  have wf: "tq_wf s" using assms(1) by (rule tq_reachable_wf)
  show ?thesis
  proof (cases "pending s q = {#}")
    case True
    then show ?thesis using GetNext_empty [OF wf assms(2)] by simp
  next
    case False
    show ?thesis using GetNext_pending [OF wf assms(2) False] False by simp
  qed
qed

theorem next_task_least_witness:
  "tq_reachable demo_graded \<and> pending demo_graded 0 \<noteq> {#} \<and>
   (\<exists>s'. GetNextTaskToRun kUnspecified 3 0 9 demo_graded = Inr (Some 7, s') \<and>
      tq_tls_grade s' 3 = Some kUserInteraction)"
proof -
  let ?t = "\<lparr>dt_order = 0, dt_task = 7, dt_target_time = 5, dt_grade = kUnspecified\<rparr>"
  let ?u = "\<lparr>dt_order = 1, dt_task = 8, dt_target_time = 6, dt_grade = kUserInteraction\<rparr>"
  have pend: "pending demo_graded 0 = {#?t, ?u#}" by code_simp
  have d0: "tq_entries demo_graded 0 \<noteq> None" "tqe_owner_of (the (tq_entries demo_graded 0)) = [1]"
    "heap_of ?t (tqe_source (the (tq_entries demo_graded 0))) = {#}"
    "heap_of ?t (tqe_source (the (tq_entries demo_graded 1))) = {#?t, ?u#}"
    by code_simp+
  then have "tq_entries demo_graded 0 = Some (the (tq_entries demo_graded 0))" by simp
  from next_task_least [OF demo_graded_reachable this, of kUnspecified 3 9] show ?thesis
    using demo_graded_reachable d0
    by (auto simp: pend task_key_def grade_after_def)
qed

text \<open>
  C3: a successful merge of two queues that were not merged before moves what the subsumed queue
  saw to its owner: the owner then sees both queues' tasks, the subsumed queue sees none, every
  other queue sees what it saw, and no source loses or gains a task.
\<close>

theorem merge_pending:
  assumes "tq_reachable s" and "Merge ow sub s = Inr (True, s')"
    and "tq_entries s ow = Some oe" and "ow \<noteq> sub" and "sub \<notin> set (tqe_owner_of oe)"
  shows "pending s' ow = pending s ow + pending s sub \<and> pending s' sub = {#} \<and>
    (\<forall>q. q \<noteq> ow \<and> q \<noteq> sub \<longrightarrow> pending s' q = pending s q) \<and>
    (\<forall>q. map_option tqe_source (tq_entries s' q) = map_option tqe_source (tq_entries s q))"
proof -
  have wf: "tq_wf s" using assms(1) by (rule tq_reachable_wf)
  obtain se where m: "tqe_subsumed_by oe = kUnmerged" "tq_entries s sub = Some se"
    "tqe_subsumed_by se = kUnmerged" "tqe_owner_of se = []"
    "wake_if_pending ow (merged_state ow sub oe se s) = Inr s'"
    using assms(2-5) by (auto simp: Merge_def merged_state_def split: if_splits)
  have ent: "tq_entries s' = tq_entries (merged_state ow sub oe se s)" using m(5) by simp
  show ?thesis
    using pending_merged [OF assms(3) m(1-4) assms(4,5) tq_wf_keys [OF wf assms(3)]] assms(3) m(2)
    by (auto simp: pending_entries_eq [OF ent] ent) (auto simp: merged_state_def)
qed

theorem merge_pending_witness:
  "Merge 0 1 demo_task = Inr (True, demo_merged) \<and>
   pending demo_merged 0 = pending demo_task 0 + pending demo_task 1 \<and> pending demo_merged 1 = {#}"
proof -
  have e: "tq_entries demo_task 0 = Some (TaskQueueEntry_new 0)" by code_simp
  have "1 \<notin> set (tqe_owner_of (TaskQueueEntry_new 0 :: nat TaskQueueEntry))" by code_simp
  from merge_pending [OF demo_task_reachable demo_merge e _ this] show ?thesis
    using demo_merge by simp
qed

text \<open>
  C4: unmerging undoes a merge: after a successful merge of two unmerged queues, \<open>Unmerge\<close> of
  the same pair succeeds and gives back exactly the entries that were there before the merge.
\<close>

theorem merge_unmerge_roundtrip:
  assumes "tq_reachable s" and "Merge ow sub s = Inr (True, s1)"
    and "tq_entries s ow = Some oe" and "ow \<noteq> sub" and "sub \<notin> set (tqe_owner_of oe)"
  shows "\<exists>s2. Unmerge ow sub s1 = Inr (True, s2) \<and> tq_entries s2 = tq_entries s"
proof -
  have wf: "tq_wf s" using assms(1) by (rule tq_reachable_wf)
  obtain se where m: "tqe_subsumed_by oe = kUnmerged" "tq_entries s sub = Some se"
    "tqe_subsumed_by se = kUnmerged" "tqe_owner_of se = []"
    "wake_if_pending ow (merged_state ow sub oe se s) = Inr s1"
    using assms(2-5) by (auto simp: Merge_def merged_state_def split: if_splits)
  let ?oe = "oe\<lparr>tqe_owner_of := oset_insert sub (tqe_owner_of oe)\<rparr>" and ?se = "se\<lparr>tqe_subsumed_by := ow\<rparr>"
  have ent: "tq_entries s1 = tq_entries (merged_state ow sub oe se s)" using m(5) by simp
  then have e1: "tq_entries s1 ow = Some ?oe" "tq_entries s1 sub = Some ?se"
    using assms(4) by (simp_all add: merged_state_def)
  have wf1: "tq_wf s1" using tq_wf_Merge [OF wf assms(2)] .
  have oe1: "tqe_subsumed_by ?oe = kUnmerged" "sub \<in> set (tqe_owner_of ?oe)" using m(1) by simp_all
  have "tq_entries (unmerged_state ow sub ?oe ?se s1) = tq_entries s"
    using trans [OF unmerged_entries_cong [OF ent] unmerged_merged_state [OF wf assms(3) m(2,3) assms(4,5)]] .
  then show ?thesis
    using Unmerge_owned [OF wf1 e1(1) oe1 e1(2)] by metis
qed

theorem merge_unmerge_roundtrip_witness:
  "\<exists>s2. Unmerge 0 1 demo_merged = Inr (True, s2) \<and> tq_entries s2 = tq_entries demo_task"
proof -
  have e: "tq_entries demo_task 0 = Some (TaskQueueEntry_new 0)" by code_simp
  have "1 \<notin> set (tqe_owner_of (TaskQueueEntry_new 0 :: nat TaskQueueEntry))" by code_simp
  from merge_unmerge_roundtrip [OF demo_task_reachable demo_merge e _ this] show ?thesis by simp
qed

text \<open>
  \<open>Merge\<close> of two live queues never fails with a fault; it reports failure exactly when the
  queues differ, are not merged yet, and the owner is subsumed or the other queue is subsumed or
  an owner itself; and then it changes nothing.
\<close>

theorem merge_result:
  assumes "tq_reachable s" and "tq_entries s ow = Some oe" and "tq_entries s sub = Some se"
  shows "\<exists>b s'. Merge ow sub s = Inr (b, s') \<and>
    (b \<longleftrightarrow> ow = sub \<or> sub \<in> set (tqe_owner_of oe) \<or>
       tqe_subsumed_by oe = kUnmerged \<and> tqe_subsumed_by se = kUnmerged \<and> tqe_owner_of se = []) \<and>
    (\<not> b \<longrightarrow> s' = s)"
  using Merge_total [OF tq_reachable_wf [OF assms(1)] assms(2,3)] .

theorem merge_result_witness:
  "\<exists>b s'. Merge 1 0 demo_merged = Inr (b, s') \<and> \<not> b \<and> s' = demo_merged"
proof -
  have "tq_entries demo_merged 0 \<noteq> None" "tq_entries demo_merged 1 \<noteq> None" by code_simp+
  then have e: "tq_entries demo_merged 1 = Some (the (tq_entries demo_merged 1))"
    "tq_entries demo_merged 0 = Some (the (tq_entries demo_merged 0))" by simp_all
  have "tqe_owner_of (the (tq_entries demo_merged 0)) \<noteq> []"
    "0 \<notin> set (tqe_owner_of (the (tq_entries demo_merged 1)))" by code_simp+
  then show ?thesis using merge_result [OF demo_merged_reachable e] by auto
qed

text \<open>
  C5: tasks of the same target time are first in, first out.  Take two registrations for the same
  time, possibly on different queues, with any operations of the task queues in between; as long
  as the process has made fewer than \<open>2^32\<close> registrations (the 32-bit \<open>order_\<close> has not come
  round to its start; it may have changed sign), the second stored task is greater than the first
  by \<open>DelayedTask::operator>\<close> and not the other way, and no queue that has both of them pending
  takes the second in \<open>GetNextTaskToRun\<close>.
\<close>

theorem same_time_fifo:
  assumes "tq_reachable s" and "RegisterTask q c t g s = Inr s1" and "tq_run k s1 s2"
    and "RegisterTask q' c' t g' s2 = Inr s3" and "unat (tq_order s) + k + 1 < 2 ^ 32"
  shows "\<exists>a b. stored_at s1 q = add_mset a (stored_at s q) \<and> dt_task a = c \<and> dt_target_time a = t \<and>
    stored_at s3 q' = add_mset b (stored_at s2 q') \<and> dt_task b = c' \<and> dt_target_time b = t \<and>
    DelayedTask_gt b a \<and> \<not> DelayedTask_gt a b \<and>
    (\<forall>p fr th from r s4. a \<in># pending s3 p \<and> b \<in># pending s3 p \<and>
       GetNextTaskToRun fr th p from s3 = Inr (r, s4) \<longrightarrow> b \<in># pending s4 p)"
proof -
  let ?a = "\<lparr>dt_order = order_of (tq_order s), dt_task = c, dt_target_time = t, dt_grade = g\<rparr>"
  let ?b = "\<lparr>dt_order = order_of (tq_order s2), dt_task = c', dt_target_time = t, dt_grade = g'\<rparr>"
  have "tq_order s2 = tq_order s + 1 + of_nat k"
    using tq_run_order [OF assms(3)] Register_effect(1) [OF assms(2)] by simp
  then have lt: "order_of (tq_order s) < order_of (tq_order s2)" using order_of_later [OF assms(5)] by simp
  have wf: "tq_wf s3"
    using tq_wf_Register [OF tq_run_wf [OF assms(3) tq_wf_Register [OF tq_reachable_wf [OF assms(1)] assms(2)]] assms(4)] .
  have key: "task_key ?a < task_key ?b" using lt by (simp add: task_key_def)
  have gt: "DelayedTask_gt ?b ?a" "\<not> DelayedTask_gt ?a ?b"
    using key unfolding DelayedTask_gt_key by (simp_all only: less_asym simp_thms)
  have fields: "dt_task ?a = c" "dt_target_time ?a = t" "dt_task ?b = c'" "dt_target_time ?b = t" by simp_all
  have later: "\<forall>p fr th from r s4. ?a \<in># pending s3 p \<and> ?b \<in># pending s3 p \<and>
       GetNextTaskToRun fr th p from s3 = Inr (r, s4) \<longrightarrow> ?b \<in># pending s4 p"
    using GetNext_keeps_later [OF wf _ _ key] by blast
  show ?thesis
    by (intro exI [of _ ?a] exI [of _ ?b] conjI)
      (rule Register_effect(2) [OF assms(2)] Register_effect(2) [OF assms(4)] fields gt later)+
qed

theorem same_time_fifo_witness:
  "\<exists>a b. stored_at demo_task 1 = add_mset a (stored_at demo_two 1) \<and> dt_task a = 7 \<and>
     stored_at demo_tied 0 = add_mset b (stored_at demo_merged 0) \<and> dt_task b = 9 \<and> DelayedTask_gt b a"
proof -
  have run: "tq_run 0 demo_task demo_merged" by (rule run_other [OF run_nil step_merge [OF demo_merge]])
  have "tq_order demo_two = 0" by code_simp
  then have bound: "unat (tq_order demo_two) + 0 + 1 < 2 ^ 32" by simp
  show ?thesis
    using same_time_fifo [OF demo_two_reachable demo_register run demo_register_tied bound]
    by (elim exE conjE) (intro exI conjI)
qed

end
