(* ===== verification/Thread_Merger.thy ===== *)
theory Thread_Merger
  imports Task_Queues_Spec
begin

text \<open>
  \<open>fml/shared_thread_merger\<close> and \<open>fml/raster_thread_merger\<close>: several raster thread mergers lease
  the merged state of one pair of task queues through a shared merger.  Shared mergers live in a
  store addressed by \<open>nat\<close>, so that raster mergers can alias one; the calls of the
  merge/unmerge callback and of \<open>merged_condition_.notify_one\<close> are recorded in the world.
\<close>

section \<open>Shared thread merger\<close>

text \<open>\<open>RasterThreadMergerId\<close> is the address of a raster merger.\<close>

record SharedThreadMerger =
  stm_owner :: u64
  stm_subsumed :: u64
  stm_enabled :: bool
  stm_leases :: "(nat \<times> u64) list"

definition SharedThreadMerger_new :: "u64 \<Rightarrow> u64 \<Rightarrow> SharedThreadMerger" where
  "SharedThreadMerger_new ow sub =
     \<lparr>stm_owner = ow, stm_subsumed = sub, stm_enabled = True, stm_leases = []\<rparr>"

definition Shared_IsAllLeaseTermsZeroUnSafe :: "SharedThreadMerger \<Rightarrow> bool" where
  "Shared_IsAllLeaseTermsZeroUnSafe sm = list_all (\<lambda>item. snd item = 0) (stm_leases sm)"

definition Shared_IsMergedUnSafe :: "SharedThreadMerger \<Rightarrow> bool" where
  "Shared_IsMergedUnSafe sm = (\<not> Shared_IsAllLeaseTermsZeroUnSafe sm)"

definition Shared_IsEnabledUnSafe :: "SharedThreadMerger \<Rightarrow> bool" where
  "Shared_IsEnabledUnSafe sm = stm_enabled sm"

definition Shared_SetEnabledUnSafe :: "bool \<Rightarrow> SharedThreadMerger \<Rightarrow> SharedThreadMerger" where
  "Shared_SetEnabledUnSafe b sm = sm\<lparr>stm_enabled := b\<rparr>"

type_synonym 'c shared_state = "SharedThreadMerger \<times> 'c TaskQueues"

fun Shared_MergeWithLease :: "nat \<Rightarrow> u64 \<Rightarrow> 'c shared_state \<Rightarrow> (bool \<times> 'c shared_state) result" where
  "Shared_MergeWithLease caller lease_term (sm, tq) =
     require DcheckFailed (lease_term > 0)
       (if Shared_IsMergedUnSafe sm then Inr (True, sm, tq)
        else rbind (Merge (stm_owner sm) (stm_subsumed sm) tq) (\<lambda>(success, tq').
          require CheckFailed success
            (Inr (success, sm\<lparr>stm_leases := omap_put caller lease_term (stm_leases sm)\<rparr>, tq'))))"

fun Shared_UnMergeNowUnSafe :: "'c shared_state \<Rightarrow> (bool \<times> 'c shared_state) result" where
  "Shared_UnMergeNowUnSafe (sm, tq) =
     require CheckFailed (Shared_IsAllLeaseTermsZeroUnSafe sm)
       (rbind (Unmerge (stm_owner sm) (stm_subsumed sm) tq) (\<lambda>(success, tq').
          require CheckFailed success (Inr (success, sm, tq'))))"

fun Shared_UnMergeNowIfLastOne :: "nat \<Rightarrow> 'c shared_state \<Rightarrow> (bool \<times> 'c shared_state) result" where
  "Shared_UnMergeNowIfLastOne caller (sm, tq) =
     (let sm' = sm\<lparr>stm_leases := omap_erase caller (stm_leases sm)\<rparr>
      in if stm_leases sm' = [] \<or> Shared_IsAllLeaseTermsZeroUnSafe sm'
         then Shared_UnMergeNowUnSafe (sm', tq) else Inr (True, sm', tq))"

definition decrement_entry :: "nat \<Rightarrow> SharedThreadMerger \<Rightarrow> SharedThreadMerger result" where
  "decrement_entry caller sm =
     (case map_of (stm_leases sm) caller of
        Some lease \<Rightarrow> require CheckFailed (lease > 0)
          (Inr (sm\<lparr>stm_leases := omap_put caller (lease - 1) (stm_leases sm)\<rparr>))
      | None \<Rightarrow> Inr sm)"

fun Shared_DecrementLease :: "nat \<Rightarrow> 'c shared_state \<Rightarrow> (bool \<times> 'c shared_state) result" where
  "Shared_DecrementLease caller (sm, tq) =
     rbind (decrement_entry caller sm) (\<lambda>sm'.
       if Shared_IsAllLeaseTermsZeroUnSafe sm'
       then rbind (Shared_UnMergeNowUnSafe (sm', tq)) (\<lambda>(_, st). Inr (True, st))
       else Inr (False, sm', tq))"

definition Shared_ExtendLeaseTo :: "nat \<Rightarrow> u64 \<Rightarrow> SharedThreadMerger \<Rightarrow> SharedThreadMerger result" where
  "Shared_ExtendLeaseTo caller lease_term sm =
     require DcheckFailed (lease_term > 0)
     (require DcheckFailed (Shared_IsMergedUnSafe sm)
       (Inr (sm\<lparr>stm_leases := omap_put caller lease_term (stm_leases sm)\<rparr>)))"

section \<open>Raster thread merger\<close>

datatype RasterThreadStatus = kRemainsMerged | kRemainsUnmerged | kUnmergedNow

record RasterThreadMerger =
  rtm_id :: nat
  rtm_platform_queue_id :: u64
  rtm_gpu_queue_id :: u64
  rtm_shared :: nat
  rtm_has_callback :: bool

record 'c MergerWorld =
  mw_tq :: "'c TaskQueues"
  mw_shared :: "nat \<rightharpoonup> SharedThreadMerger"
  mw_next :: nat
  mw_callbacks :: "nat list"
  mw_notified :: "nat list"

definition get_shared :: "RasterThreadMerger \<Rightarrow> 'c MergerWorld \<Rightarrow> SharedThreadMerger result" where
  "get_shared r w = (case mw_shared w (rtm_shared r) of None \<Rightarrow> Inl NullDeref | Some sm \<Rightarrow> Inr sm)"

definition put_shared :: "RasterThreadMerger \<Rightarrow> 'c shared_state \<Rightarrow> 'c MergerWorld \<Rightarrow> 'c MergerWorld" where
  "put_shared r st w = w\<lparr>mw_shared := (mw_shared w)(rtm_shared r \<mapsto> fst st), mw_tq := snd st\<rparr>"

definition run_callback :: "RasterThreadMerger \<Rightarrow> 'c MergerWorld \<Rightarrow> 'c MergerWorld" where
  "run_callback r w = (if rtm_has_callback r then w\<lparr>mw_callbacks := mw_callbacks w @ [rtm_id r]\<rparr> else w)"

definition notify_one :: "RasterThreadMerger \<Rightarrow> 'c MergerWorld \<Rightarrow> 'c MergerWorld" where
  "notify_one r w = w\<lparr>mw_notified := mw_notified w @ [rtm_id r]\<rparr>"

definition Raster_TaskQueuesAreSame :: "RasterThreadMerger \<Rightarrow> bool" where
  "Raster_TaskQueuesAreSame r = (rtm_platform_queue_id r = rtm_gpu_queue_id r)"

definition Raster_IsMergedUnSafe :: "RasterThreadMerger \<Rightarrow> SharedThreadMerger \<Rightarrow> bool" where
  "Raster_IsMergedUnSafe r sm = (Raster_TaskQueuesAreSame r \<or> Shared_IsMergedUnSafe sm)"

definition Raster_new :: "nat \<Rightarrow> nat \<Rightarrow> u64 \<Rightarrow> u64 \<Rightarrow> RasterThreadMerger" where
  "Raster_new i shared platform gpu =
     \<lparr>rtm_id = i, rtm_platform_queue_id = platform, rtm_gpu_queue_id = gpu, rtm_shared = shared,
      rtm_has_callback = False\<rparr>"

definition Raster_SetMergeUnmergeCallback :: "bool \<Rightarrow> RasterThreadMerger \<Rightarrow> RasterThreadMerger" where
  "Raster_SetMergeUnmergeCallback callback r = r\<lparr>rtm_has_callback := callback\<rparr>"

definition CreateOrShareThreadMerger ::
  "nat \<Rightarrow> RasterThreadMerger option \<Rightarrow> u64 \<Rightarrow> u64 \<Rightarrow> 'c MergerWorld \<Rightarrow> RasterThreadMerger \<times> 'c MergerWorld" where
  "CreateOrShareThreadMerger i parent platform raster w =
     (case parent of
        Some p \<Rightarrow>
          if rtm_platform_queue_id p = platform \<and> rtm_gpu_queue_id p = raster
          then (Raster_new i (rtm_shared p) platform raster, w)
          else (Raster_new i (mw_next w) platform raster,
                w\<lparr>mw_shared := (mw_shared w)(mw_next w \<mapsto> SharedThreadMerger_new platform raster),
                  mw_next := mw_next w + 1\<rparr>)
      | None \<Rightarrow> (Raster_new i (mw_next w) platform raster,
                w\<lparr>mw_shared := (mw_shared w)(mw_next w \<mapsto> SharedThreadMerger_new platform raster),
                  mw_next := mw_next w + 1\<rparr>))"

definition Raster_MergeWithLease ::
  "RasterThreadMerger \<Rightarrow> u64 \<Rightarrow> 'c MergerWorld \<Rightarrow> 'c MergerWorld result" where
  "Raster_MergeWithLease r lease_term w =
     (if Raster_TaskQueuesAreSame r then Inr w
      else rbind (get_shared r w) (\<lambda>sm.
        if \<not> Shared_IsEnabledUnSafe sm then Inr w
        else require DcheckFailed (lease_term > 0)
          (if Raster_IsMergedUnSafe r sm then Inr (notify_one r w)
           else rbind (Shared_MergeWithLease (rtm_id r) lease_term (sm, mw_tq w)) (\<lambda>(success, st).
             Inr (notify_one r
               (if success then run_callback r (put_shared r st w) else put_shared r st w))))))"

definition Raster_UnMergeNowIfLastOne :: "RasterThreadMerger \<Rightarrow> 'c MergerWorld \<Rightarrow> 'c MergerWorld result" where
  "Raster_UnMergeNowIfLastOne r w =
     (if Raster_TaskQueuesAreSame r then Inr w
      else rbind (get_shared r w) (\<lambda>sm.
        if \<not> Shared_IsEnabledUnSafe sm then Inr w
        else rbind (Shared_UnMergeNowIfLastOne (rtm_id r) (sm, mw_tq w)) (\<lambda>(success, st).
          Inr (if success then run_callback r (put_shared r st w) else put_shared r st w))))"

text \<open>\<open>MessageLoop::GetCurrentTaskQueueId\<close> aborts on a thread without a message loop.\<close>

definition Raster_IsOnPlatformThread :: "RasterThreadMerger \<Rightarrow> u64 option \<Rightarrow> bool result" where
  "Raster_IsOnPlatformThread r current =
     (case current of None \<Rightarrow> Inl CheckFailed | Some q \<Rightarrow> Inr (q = rtm_platform_queue_id r))"

definition Raster_IsOnRasterizingThread ::
  "RasterThreadMerger \<Rightarrow> u64 option \<Rightarrow> 'c MergerWorld \<Rightarrow> bool result" where
  "Raster_IsOnRasterizingThread r current w =
     rbind (get_shared r w) (\<lambda>sm.
       if Raster_IsMergedUnSafe r sm then Raster_IsOnPlatformThread r current
       else rbind (Raster_IsOnPlatformThread r current) (\<lambda>b. Inr (\<not> b)))"

definition Raster_ExtendLeaseTo ::
  "RasterThreadMerger \<Rightarrow> u64 \<Rightarrow> 'c MergerWorld \<Rightarrow> 'c MergerWorld result" where
  "Raster_ExtendLeaseTo r lease_term w =
     require DcheckFailed (lease_term > 0)
       (if Raster_TaskQueuesAreSame r then Inr w
        else rbind (get_shared r w) (\<lambda>sm.
          if \<not> Shared_IsEnabledUnSafe sm then Inr w
          else rbind (Shared_ExtendLeaseTo (rtm_id r) lease_term sm) (\<lambda>sm'.
            Inr (put_shared r (sm', mw_tq w) w))))"

definition Raster_IsMerged :: "RasterThreadMerger \<Rightarrow> 'c MergerWorld \<Rightarrow> bool result" where
  "Raster_IsMerged r w = rbind (get_shared r w) (\<lambda>sm. Inr (Raster_IsMergedUnSafe r sm))"

definition Raster_Enable :: "RasterThreadMerger \<Rightarrow> 'c MergerWorld \<Rightarrow> 'c MergerWorld result" where
  "Raster_Enable r w =
     rbind (get_shared r w) (\<lambda>sm. Inr (put_shared r (Shared_SetEnabledUnSafe True sm, mw_tq w) w))"

definition Raster_Disable :: "RasterThreadMerger \<Rightarrow> 'c MergerWorld \<Rightarrow> 'c MergerWorld result" where
  "Raster_Disable r w =
     rbind (get_shared r w) (\<lambda>sm. Inr (put_shared r (Shared_SetEnabledUnSafe False sm, mw_tq w) w))"

definition Raster_IsEnabled :: "RasterThreadMerger \<Rightarrow> 'c MergerWorld \<Rightarrow> bool result" where
  "Raster_IsEnabled r w = rbind (get_shared r w) (\<lambda>sm. Inr (Shared_IsEnabledUnSafe sm))"

text \<open>\<open>Inr True\<close> when the wait returns in this state, \<open>Inr False\<close> when the thread blocks.\<close>

definition Raster_WaitUntilMerged ::
  "RasterThreadMerger \<Rightarrow> u64 option \<Rightarrow> 'c MergerWorld \<Rightarrow> bool result" where
  "Raster_WaitUntilMerged r current w =
     (if Raster_TaskQueuesAreSame r then Inr True
      else rbind (Raster_IsOnPlatformThread r current) (\<lambda>b.
        require CheckFailed b (Raster_IsMerged r w)))"

definition Raster_DecrementLease ::
  "RasterThreadMerger \<Rightarrow> 'c MergerWorld \<Rightarrow> (RasterThreadStatus \<times> 'c MergerWorld) result" where
  "Raster_DecrementLease r w =
     (if Raster_TaskQueuesAreSame r then Inr (kRemainsMerged, w)
      else rbind (get_shared r w) (\<lambda>sm.
        if \<not> Raster_IsMergedUnSafe r sm then Inr (kRemainsUnmerged, w)
        else if \<not> Shared_IsEnabledUnSafe sm then Inr (kRemainsMerged, w)
        else rbind (Shared_DecrementLease (rtm_id r) (sm, mw_tq w)) (\<lambda>(unmerged, st).
          if unmerged then Inr (kUnmergedNow, run_callback r (put_shared r st w))
          else Inr (kRemainsMerged, put_shared r st w))))"

section \<open>The queues as seen by a shared merger\<close>

text \<open>
  What a merger relies on in the task queues, for one pair: a free pair can be merged, a merged
  pair can be unmerged and is then free.
\<close>

locale queue_pair =
  fixes merge :: "'s \<Rightarrow> (bool \<times> 's) result"
    and unmerge :: "'s \<Rightarrow> (bool \<times> 's) result"
    and free :: "'s \<Rightarrow> bool"
    and owned :: "'s \<Rightarrow> bool"
  assumes merge_free: "free s \<Longrightarrow> \<exists>s'. merge s = Inr (True, s') \<and> owned s'"
    and unmerge_owned: "owned s \<Longrightarrow> \<exists>s'. unmerge s = Inr (True, s') \<and> free s'"
    and unmerge_free: "free s \<Longrightarrow> \<exists>s'. unmerge s = Inr (False, s')"
begin

lemma not_both: "\<not> (free s \<and> owned s)"
  using unmerge_owned unmerge_free by fastforce

lemma merge_unmerge: "free s \<Longrightarrow> \<exists>s' s''. merge s = Inr (True, s') \<and> unmerge s' = Inr (True, s'') \<and> free s''"
  using merge_free unmerge_owned by meson

end

definition pair_free :: "u64 \<Rightarrow> u64 \<Rightarrow> 'c TaskQueues \<Rightarrow> bool" where
  "pair_free ow sub tq \<longleftrightarrow> tq_wf tq \<and> ow \<noteq> sub \<and>
     (\<exists>oe se. tq_entries tq ow = Some oe \<and> tqe_subsumed_by oe = kUnmerged \<and>
        tq_entries tq sub = Some se \<and> tqe_subsumed_by se = kUnmerged \<and> tqe_owner_of se = [])"

definition pair_owned :: "u64 \<Rightarrow> u64 \<Rightarrow> 'c TaskQueues \<Rightarrow> bool" where
  "pair_owned ow sub tq \<longleftrightarrow> tq_wf tq \<and>
     (\<exists>oe. tq_entries tq ow = Some oe \<and> sub \<in> set (tqe_owner_of oe))"

lemma pair_owned_entries:
  assumes "pair_owned ow sub tq"
  obtains oe se where "tq_wf tq" "tq_entries tq ow = Some oe" "sub \<in> set (tqe_owner_of oe)"
    "tqe_subsumed_by oe = kUnmerged" "tq_entries tq sub = Some se" "tqe_subsumed_by se = ow"
    "tqe_owner_of se = []" "ow \<noteq> sub"
proof -
  obtain oe where oe: "tq_wf tq" "tq_entries tq ow = Some oe" "sub \<in> set (tqe_owner_of oe)"
    using assms by (auto simp: pair_owned_def)
  then have lw: "links_wf (tq_entries tq)" by (simp add: tq_wf_def)
  obtain se where se: "tq_entries tq sub = Some se" "tqe_subsumed_by se = ow"
    using links_owned [OF lw oe(2,3)] by blast
  have "tqe_subsumed_by oe = kUnmerged" using links_subsumed [OF lw oe(2)] oe(3) by fastforce
  moreover have "tqe_owner_of se = []"
    using links_subsumed [OF lw se(1)] se(2) tq_wf_keys [OF oe(1,2)] by simp
  moreover from calculation have "ow \<noteq> sub" using wf_owner_not_owned [OF oe(1,2) _ oe(3)] by simp
  ultimately show thesis using that oe se by blast
qed

lemma merge_pair_free:
  assumes "pair_free ow sub tq"
  shows "\<exists>tq'. Merge ow sub tq = Inr (True, tq') \<and> pair_owned ow sub tq'"
proof -
  obtain oe se where e: "tq_wf tq" "ow \<noteq> sub" "tq_entries tq ow = Some oe"
    "tqe_subsumed_by oe = kUnmerged" "tq_entries tq sub = Some se"
    "tqe_subsumed_by se = kUnmerged" "tqe_owner_of se = []"
    using assms by (auto simp: pair_free_def)
  have not: "sub \<notin> set (tqe_owner_of oe)"
    using links_owned [of "tq_entries tq" ow oe sub] e tq_wf_keys [OF e(1,3)] by (auto simp: tq_wf_def)
  obtain tq' where m: "Merge ow sub tq = Inr (True, tq')"
    using Merge_total [OF e(1,3,5)] e by auto
  have "tq_wf tq'" using tq_wf_Merge [OF e(1) m] .
  moreover have "wake_if_pending ow (merged_state ow sub oe se tq) = Inr tq'"
    using m e not by (auto simp: Merge_def merged_state_def)
  then have "tq_entries tq' ow = Some (oe\<lparr>tqe_owner_of := oset_insert sub (tqe_owner_of oe)\<rparr>)"
    using e(2) by (simp add: merged_state_def)
  ultimately show ?thesis using m by (auto simp: pair_owned_def)
qed

lemma unmerge_pair_owned:
  assumes "pair_owned ow sub tq"
  shows "\<exists>tq'. Unmerge ow sub tq = Inr (True, tq') \<and> pair_free ow sub tq'"
proof -
  obtain oe se where e: "tq_wf tq" "tq_entries tq ow = Some oe" "sub \<in> set (tqe_owner_of oe)"
    "tqe_subsumed_by oe = kUnmerged" "tq_entries tq sub = Some se" "tqe_subsumed_by se = ow"
    "tqe_owner_of se = []" "ow \<noteq> sub"
    using pair_owned_entries [OF assms] .
  obtain tq' where u: "Unmerge ow sub tq = Inr (True, tq')"
    "tq_entries tq' = tq_entries (unmerged_state ow sub oe se tq)"
    using Unmerge_owned [OF e(1,2,4,3,5)] by blast
  have "tq_wf tq'" using tq_wf_Unmerge [OF e(1) u(1)] .
  then show ?thesis using u e by (auto simp: pair_free_def unmerged_state_def)
qed

lemma unmerge_pair_free:
  assumes "pair_free ow sub tq"
  shows "\<exists>tq'. Unmerge ow sub tq = Inr (False, tq')"
  using assms by (auto simp: pair_free_def Unmerge_def)

interpretation tqp: queue_pair "Merge ow sub" "Unmerge ow sub" "pair_free ow sub" "pair_owned ow sub"
  for ow sub
  by unfold_locales (rule merge_pair_free unmerge_pair_owned unmerge_pair_free; assumption)+

end
