(* ===== verification/Thread_Merger_Spec.thy ===== *)
theory Thread_Merger_Spec
  imports Thread_Merger
begin

text \<open>
  The lease protocol: while some lease is positive the two queues are merged, otherwise they are
  free; leases run out; and what happens when a merger whose lease is spent decrements again.
\<close>

section \<open>Invariant of a shared merger\<close>

definition lease_inv :: "SharedThreadMerger \<Rightarrow> 'c TaskQueues \<Rightarrow> bool" where
  "lease_inv sm tq \<longleftrightarrow> omap_wf (stm_leases sm) \<and>
     (if Shared_IsMergedUnSafe sm then pair_owned (stm_owner sm) (stm_subsumed sm) tq
      else pair_free (stm_owner sm) (stm_subsumed sm) tq)"

lemma merged_iff_positive:
  assumes "omap_wf (stm_leases sm)"
  shows "Shared_IsMergedUnSafe sm \<longleftrightarrow> (\<exists>c l. map_of (stm_leases sm) c = Some l \<and> l \<noteq> 0)"
proof -
  have d: "distinct (map fst (stm_leases sm))"
    using oset_wf_distinct [of "map fst (stm_leases sm)"] assms by (simp add: omap_wf_def oset_wf_def)
  show ?thesis
    by (force simp: Shared_IsMergedUnSafe_def Shared_IsAllLeaseTermsZeroUnSafe_def list_all_iff
        map_of_eq_Some_iff [OF d])
qed

lemma shared_merge:
  assumes inv: "lease_inv sm tq" and pos: "l > 0"
  shows "\<exists>sm' tq'. Shared_MergeWithLease c l (sm, tq) = Inr (True, sm', tq') \<and> lease_inv sm' tq' \<and>
     Shared_IsMergedUnSafe sm' \<and> stm_owner sm' = stm_owner sm \<and> stm_subsumed sm' = stm_subsumed sm \<and>
     stm_enabled sm' = stm_enabled sm"
proof (cases "Shared_IsMergedUnSafe sm")
  case True
  then show ?thesis using inv pos by auto
next
  case False
  let ?sm = "sm\<lparr>stm_leases := omap_put c l (stm_leases sm)\<rparr>"
  have wf: "omap_wf (stm_leases ?sm)" using inv by (simp add: lease_inv_def)
  have "Shared_IsMergedUnSafe ?sm"
    unfolding merged_iff_positive [OF wf] using pos by (auto intro: exI [of _ c])
  moreover obtain tq' where "Merge (stm_owner sm) (stm_subsumed sm) tq = Inr (True, tq')"
    "pair_owned (stm_owner sm) (stm_subsumed sm) tq'"
    using False inv tqp.merge_free by (fastforce simp: lease_inv_def)
  ultimately show ?thesis using False pos wf by (auto simp: lease_inv_def)
qed

lemma shared_unmerge_now:
  assumes "omap_wf (stm_leases sm)" and "\<not> Shared_IsMergedUnSafe sm"
    and "pair_owned (stm_owner sm) (stm_subsumed sm) tq"
  shows "\<exists>tq'. Shared_UnMergeNowUnSafe (sm, tq) = Inr (True, sm, tq') \<and> lease_inv sm tq'"
  using assms tqp.unmerge_owned [OF assms(3)] by (auto simp: Shared_IsMergedUnSafe_def lease_inv_def)

lemma shared_extend:
  assumes inv: "lease_inv sm tq" and e: "Shared_ExtendLeaseTo c l sm = Inr sm'"
  shows "lease_inv sm' tq \<and> Shared_IsMergedUnSafe sm' \<and> stm_owner sm' = stm_owner sm \<and>
     stm_subsumed sm' = stm_subsumed sm \<and> stm_enabled sm' = stm_enabled sm"
proof -
  have sm': "sm' = sm\<lparr>stm_leases := omap_put c l (stm_leases sm)\<rparr>" and l: "l > 0"
    and m: "Shared_IsMergedUnSafe sm" using e by (auto simp: Shared_ExtendLeaseTo_def)
  have wf: "omap_wf (stm_leases sm')" using inv sm' by (simp add: lease_inv_def)
  have "Shared_IsMergedUnSafe sm'"
    unfolding merged_iff_positive [OF wf] using l sm' by (auto intro: exI [of _ c])
  with inv m sm' wf show ?thesis by (simp add: lease_inv_def)
qed

lemma shared_decrement:
  assumes inv: "lease_inv sm tq" and m: "Shared_IsMergedUnSafe sm"
    and d: "decrement_entry c sm = Inr sm1"
  shows "\<exists>tq'. Shared_DecrementLease c (sm, tq) = Inr (\<not> Shared_IsMergedUnSafe sm1, sm1, tq') \<and>
     lease_inv sm1 tq' \<and> stm_owner sm1 = stm_owner sm \<and> stm_subsumed sm1 = stm_subsumed sm \<and>
     stm_enabled sm1 = stm_enabled sm"
proof -
  have sm1: "omap_wf (stm_leases sm1)" "stm_owner sm1 = stm_owner sm" "stm_subsumed sm1 = stm_subsumed sm"
    "stm_enabled sm1 = stm_enabled sm"
    using d inv by (auto simp: decrement_entry_def lease_inv_def split: option.splits)
  have own: "pair_owned (stm_owner sm1) (stm_subsumed sm1) tq" using inv m sm1 by (simp add: lease_inv_def)
  show ?thesis
  proof (cases "Shared_IsMergedUnSafe sm1")
    case True
    then show ?thesis using d sm1 own by (auto simp: lease_inv_def Shared_IsMergedUnSafe_def)
  next
    case False
    obtain tq' where "Shared_UnMergeNowUnSafe (sm1, tq) = Inr (True, sm1, tq')" "lease_inv sm1 tq'"
      using shared_unmerge_now [OF sm1(1) False own] by blast
    with False d sm1 show ?thesis by (auto simp: Shared_IsMergedUnSafe_def)
  qed
qed

lemma shared_unmerge_if_last:
  assumes inv: "lease_inv sm tq" and u: "Shared_UnMergeNowIfLastOne c (sm, tq) = Inr (b, sm', tq')"
  shows "lease_inv sm' tq' \<and> stm_owner sm' = stm_owner sm \<and> stm_subsumed sm' = stm_subsumed sm \<and>
     stm_enabled sm' = stm_enabled sm"
proof -
  let ?sm = "sm\<lparr>stm_leases := omap_erase c (stm_leases sm)\<rparr>"
  have wf: "omap_wf (stm_leases ?sm)" using inv by (simp add: lease_inv_def)
  have sub: "Shared_IsMergedUnSafe sm" if "Shared_IsMergedUnSafe ?sm"
    using that by (force simp: Shared_IsMergedUnSafe_def Shared_IsAllLeaseTermsZeroUnSafe_def
        omap_erase_def list_all_iff)
  show ?thesis
  proof (cases "Shared_IsMergedUnSafe ?sm")
    case True
    then have "sm' = ?sm \<and> tq' = tq"
      using u by (cases "omap_erase c (stm_leases sm) = []")
        (auto simp: Let_def Shared_IsMergedUnSafe_def Shared_IsAllLeaseTermsZeroUnSafe_def)
    then show ?thesis using True inv sub wf by (simp add: lease_inv_def)
  next
    case False
    then have un: "Shared_UnMergeNowUnSafe (?sm, tq) = Inr (b, sm', tq')"
      using u by (auto simp: Let_def Shared_IsMergedUnSafe_def)
    show ?thesis
    proof (cases "Shared_IsMergedUnSafe sm")
      case True
      then have "pair_owned (stm_owner ?sm) (stm_subsumed ?sm) tq" using inv by (simp add: lease_inv_def)
      from shared_unmerge_now [OF wf False this] un show ?thesis by auto
    next
      case unm: False
      then have "pair_free (stm_owner sm) (stm_subsumed sm) tq" using inv by (simp add: lease_inv_def)
      from tqp.unmerge_free [OF this] un show ?thesis by auto
    qed
  qed
qed

section \<open>Steps of the world\<close>

text \<open>
  The mergers of one pair \<open>(P, G)\<close> share the merger at address \<open>a\<close>.  Besides their operations,
  other threads post and run tasks on any queue.
\<close>

definition member :: "u64 \<Rightarrow> u64 \<Rightarrow> nat \<Rightarrow> RasterThreadMerger \<Rightarrow> bool" where
  "member P G a r \<longleftrightarrow> rtm_platform_queue_id r = P \<and> rtm_gpu_queue_id r = G \<and> rtm_shared r = a"

inductive merger_step :: "u64 \<Rightarrow> u64 \<Rightarrow> nat \<Rightarrow> 'c MergerWorld \<Rightarrow> 'c MergerWorld \<Rightarrow> bool" for P G a where
  ms_merge: "member P G a r \<Longrightarrow> Raster_MergeWithLease r l w = Inr w' \<Longrightarrow> merger_step P G a w w'"
| ms_unmerge: "member P G a r \<Longrightarrow> Raster_UnMergeNowIfLastOne r w = Inr w' \<Longrightarrow> merger_step P G a w w'"
| ms_extend: "member P G a r \<Longrightarrow> Raster_ExtendLeaseTo r l w = Inr w' \<Longrightarrow> merger_step P G a w w'"
| ms_decrement: "member P G a r \<Longrightarrow> Raster_DecrementLease r w = Inr (st, w') \<Longrightarrow> merger_step P G a w w'"
| ms_enable: "member P G a r \<Longrightarrow> Raster_Enable r w = Inr w' \<Longrightarrow> merger_step P G a w w'"
| ms_disable: "member P G a r \<Longrightarrow> Raster_Disable r w = Inr w' \<Longrightarrow> merger_step P G a w w'"
| ms_register: "RegisterTask q c t g (mw_tq w) = Inr tq' \<Longrightarrow> merger_step P G a w (w\<lparr>mw_tq := tq'\<rparr>)"
| ms_get_next: "GetNextTaskToRun fr th q t (mw_tq w) = Inr (c, tq') \<Longrightarrow> merger_step P G a w (w\<lparr>mw_tq := tq'\<rparr>)"

inductive merger_reachable :: "u64 \<Rightarrow> u64 \<Rightarrow> nat \<Rightarrow> 'c MergerWorld \<Rightarrow> bool" for P G a where
  mr_init: "pair_free P G (mw_tq w) \<Longrightarrow> mw_shared w a = Some (SharedThreadMerger_new P G) \<Longrightarrow>
     merger_reachable P G a w"
| mr_next: "merger_reachable P G a w \<Longrightarrow> merger_step P G a w w' \<Longrightarrow> merger_reachable P G a w'"

definition world_inv :: "u64 \<Rightarrow> u64 \<Rightarrow> nat \<Rightarrow> 'c MergerWorld \<Rightarrow> bool" where
  "world_inv P G a w \<longleftrightarrow> P \<noteq> G \<and> (\<exists>sm. mw_shared w a = Some sm \<and> stm_owner sm = P \<and> stm_subsumed sm = G \<and>
     lease_inv sm (mw_tq w))"

lemma world_inv_log [simp]:
  "world_inv P G a (notify_one r w) = world_inv P G a w"
  "world_inv P G a (run_callback r w) = world_inv P G a w"
  by (simp_all add: world_inv_def notify_one_def run_callback_def)

lemma world_inv_put:
  assumes "P \<noteq> G" and "member P G a r" and "lease_inv sm' tq'" and "stm_owner sm' = P" and "stm_subsumed sm' = G"
  shows "world_inv P G a (put_shared r (sm', tq') w)"
  using assms by (simp add: world_inv_def put_shared_def member_def)

lemma get_shared_eq: "member P G a r \<Longrightarrow> mw_shared w a = Some sm \<Longrightarrow> get_shared r w = Inr sm"
  by (simp add: get_shared_def member_def)

lemma member_not_same: "member P G a r \<Longrightarrow> P \<noteq> G \<Longrightarrow> \<not> Raster_TaskQueuesAreSame r"
  by (simp add: member_def Raster_TaskQueuesAreSame_def)

lemmas raster_simps = get_shared_eq member_not_same Raster_IsMergedUnSafe_def Shared_IsEnabledUnSafe_def

text \<open>Steps of the queues that do not change the links keep a pair free, or merged.\<close>

definition links_of :: "'c TaskQueues \<Rightarrow> u64 \<Rightarrow> (u64 list \<times> u64) option" where
  "links_of tq q = map_option (\<lambda>e. (tqe_owner_of e, tqe_subsumed_by e)) (tq_entries tq q)"

lemma links_of_update_source:
  assumes "update_source q f tq = Inr tq'"
  shows "links_of tq' = links_of tq"
  using assms by (auto simp: update_source_eq links_of_def fun_eq_iff)

lemma links_of_entries: "tq_entries tq' = tq_entries tq \<Longrightarrow> links_of tq' = links_of tq"
  by (simp add: links_of_def [abs_def])

lemma pair_links:
  assumes "tq_wf tq'" and "links_of tq' = links_of tq"
  shows "pair_free P G tq \<Longrightarrow> pair_free P G tq'" and "pair_owned P G tq \<Longrightarrow> pair_owned P G tq'"
proof -
  have l: "map_option (\<lambda>e. (tqe_owner_of e, tqe_subsumed_by e)) (tq_entries tq' q) =
      map_option (\<lambda>e. (tqe_owner_of e, tqe_subsumed_by e)) (tq_entries tq q)" for q
    using fun_cong [OF assms(2), of q] by (simp add: links_of_def)
  show "pair_free P G tq \<Longrightarrow> pair_free P G tq'" "pair_owned P G tq \<Longrightarrow> pair_owned P G tq'"
    using l [of P] l [of G] assms(1) by (auto simp: pair_free_def pair_owned_def)
qed

lemma lease_inv_links:
  "lease_inv sm tq \<Longrightarrow> tq_wf tq' \<Longrightarrow> links_of tq' = links_of tq \<Longrightarrow> lease_inv sm tq'"
  using pair_links by (auto simp: lease_inv_def split: if_splits)

lemma links_of_register: "RegisterTask q c t g tq = Inr tq' \<Longrightarrow> links_of tq' = links_of tq"
proof -
  assume "RegisterTask q c t g tq = Inr tq'"
  then obtain f l tq1 where u: "update_source q f (tq\<lparr>tq_order := tq_order tq + 1\<rparr>) = Inr tq1"
    and w: "wake_if_pending l tq1 = Inr tq'"
    by (auto simp: RegisterTask_def Let_def)
  have "links_of tq' = links_of tq1" by (rule links_of_entries) (use w in simp)
  with links_of_update_source [OF u] show ?thesis by (simp add: links_of_def [abs_def])
qed

lemma links_of_get_next: "GetNextTaskToRun fr th q t tq = Inr (c, tq') \<Longrightarrow> links_of tq' = links_of tq"
proof -
  assume "GetNextTaskToRun fr th q t tq = Inr (c, tq')"
  then consider "tq' = tq" | w where "tq' = tq\<lparr>tq_wakeups := w\<rparr>"
    | w g h i tq2 where "update_source i (TaskSource_PopTask g) (tq\<lparr>tq_wakeups := w\<rparr>) = Inr tq2"
        "tq' = tq2\<lparr>tq_tls_grade := (tq_tls_grade tq2)(th \<mapsto> h)\<rparr>"
    unfolding GetNextTaskToRun_def by (auto simp: Let_def split: if_splits dest!: wake_up_frame)
  then show ?thesis
  proof cases
    case 3
    with links_of_update_source [OF 3(1)] show ?thesis by (simp add: links_of_def [abs_def])
  qed (simp_all add: links_of_def [abs_def])
qed

section \<open>Every step keeps the world invariant\<close>

lemma world_inv_queues:
  "world_inv P G a w \<Longrightarrow> tq_wf tq' \<Longrightarrow> links_of tq' = links_of (mw_tq w) \<Longrightarrow> world_inv P G a (w\<lparr>mw_tq := tq'\<rparr>)"
  using lease_inv_links by (auto simp: world_inv_def)

lemma lease_inv_wf: "lease_inv sm tq \<Longrightarrow> tq_wf tq"
  by (auto simp: lease_inv_def pair_free_def pair_owned_def split: if_splits)

lemma lease_inv_enabled: "lease_inv (sm\<lparr>stm_enabled := b\<rparr>) tq = lease_inv sm tq"
  by (simp add: lease_inv_def Shared_IsMergedUnSafe_def Shared_IsAllLeaseTermsZeroUnSafe_def)

lemma world_invE:
  assumes "world_inv P G a w"
  obtains sm where "P \<noteq> G" "mw_shared w a = Some sm" "stm_owner sm = P" "stm_subsumed sm = G"
    "lease_inv sm (mw_tq w)"
  using assms by (auto simp: world_inv_def)

lemma world_inv_merge:
  assumes "member P G a r" and "Raster_MergeWithLease r l w = Inr w'" and "world_inv P G a w"
  shows "world_inv P G a w'"
proof -
  obtain sm where ne: "P \<noteq> G" and sm: "mw_shared w a = Some sm" "stm_owner sm = P" "stm_subsumed sm = G"
    and inv: "lease_inv sm (mw_tq w)" using assms(3) by (rule world_invE)
  note put = world_inv_put [OF ne]
  note gs = get_shared_eq [OF assms(1) sm(1)] member_not_same [OF assms(1) ne]
  show ?thesis
  proof (cases "stm_enabled sm \<and> l > 0 \<and> \<not> Shared_IsMergedUnSafe sm")
    case True
    obtain sm' tq' where st: "Shared_MergeWithLease (rtm_id r) l (sm, mw_tq w) = Inr (True, sm', tq')"
      "lease_inv sm' tq'" "stm_owner sm' = P" "stm_subsumed sm' = G"
      using shared_merge [OF inv, of l "rtm_id r"] True sm by auto
    then have "w' = notify_one r (run_callback r (put_shared r (sm', tq') w))"
      using assms(2) True
      by (simp add: Raster_MergeWithLease_def gs Raster_IsMergedUnSafe_def Shared_IsEnabledUnSafe_def
          del: Shared_MergeWithLease.simps)
    then show ?thesis using put [OF assms(1) st(2-4)] by simp
  next
    case False
    then have "w' = w \<or> w' = notify_one r w"
      using assms(2) by (auto simp: Raster_MergeWithLease_def gs Raster_IsMergedUnSafe_def
          Shared_IsEnabledUnSafe_def split: if_splits)
    then show ?thesis using assms(3) by auto
  qed
qed

lemma world_inv_unmerge:
  assumes "member P G a r" and "Raster_UnMergeNowIfLastOne r w = Inr w'" and "world_inv P G a w"
  shows "world_inv P G a w'"
proof -
  obtain sm where ne: "P \<noteq> G" and sm: "mw_shared w a = Some sm" "stm_owner sm = P" "stm_subsumed sm = G"
    and inv: "lease_inv sm (mw_tq w)" using assms(3) by (rule world_invE)
  note put = world_inv_put [OF ne]
  note gs = get_shared_eq [OF assms(1) sm(1)] member_not_same [OF assms(1) ne]
  consider "w' = w" | b sm' tq' where
    "Shared_UnMergeNowIfLastOne (rtm_id r) (sm, mw_tq w) = Inr (b, sm', tq')"
    "w' = run_callback r (put_shared r (sm', tq') w) \<or> w' = put_shared r (sm', tq') w"
    using assms(2) by (auto simp: Raster_UnMergeNowIfLastOne_def gs
        simp del: Shared_UnMergeNowIfLastOne.simps split: if_splits)
  then show ?thesis
  proof cases
    case (2 b sm' tq')
    have "world_inv P G a (put_shared r (sm', tq') w)"
      using put [OF assms(1)] shared_unmerge_if_last [OF inv 2(1)] sm(2,3) by metis
    with 2(2) show ?thesis by auto
  qed (use assms(3) in simp)
qed

lemma world_inv_extend:
  assumes "member P G a r" and "Raster_ExtendLeaseTo r l w = Inr w'" and "world_inv P G a w"
  shows "world_inv P G a w'"
proof -
  obtain sm where ne: "P \<noteq> G" and sm: "mw_shared w a = Some sm" "stm_owner sm = P" "stm_subsumed sm = G"
    and inv: "lease_inv sm (mw_tq w)" using assms(3) by (rule world_invE)
  note put = world_inv_put [OF ne]
  note gs = get_shared_eq [OF assms(1) sm(1)] member_not_same [OF assms(1) ne]
  consider "w' = w" | sm' where "Shared_ExtendLeaseTo (rtm_id r) l sm = Inr sm'"
    "w' = put_shared r (sm', mw_tq w) w"
    using assms(2) by (auto simp: Raster_ExtendLeaseTo_def gs split: if_splits)
  then show ?thesis
  proof cases
    case (2 sm')
    then show ?thesis using put [OF assms(1)] shared_extend [OF inv 2(1)] sm(2,3) by metis
  qed (use assms(3) in simp)
qed

lemma world_inv_decrement:
  assumes "member P G a r" and "Raster_DecrementLease r w = Inr (st, w')" and "world_inv P G a w"
  shows "world_inv P G a w'"
proof -
  obtain sm where ne: "P \<noteq> G" and sm: "mw_shared w a = Some sm" "stm_owner sm = P" "stm_subsumed sm = G"
    and inv: "lease_inv sm (mw_tq w)" using assms(3) by (rule world_invE)
  note put = world_inv_put [OF ne]
  note gs = get_shared_eq [OF assms(1) sm(1)] member_not_same [OF assms(1) ne]
  show ?thesis
  proof (cases "stm_enabled sm \<and> Shared_IsMergedUnSafe sm")
    case True
    then obtain sm1 where d: "decrement_entry (rtm_id r) sm = Inr sm1"
      using assms(2) by (cases "decrement_entry (rtm_id r) sm")
        (auto simp: Raster_DecrementLease_def gs Raster_IsMergedUnSafe_def Shared_IsEnabledUnSafe_def)
    obtain tq' where st: "Shared_DecrementLease (rtm_id r) (sm, mw_tq w) =
        Inr (\<not> Shared_IsMergedUnSafe sm1, sm1, tq')" "lease_inv sm1 tq'" "stm_owner sm1 = P" "stm_subsumed sm1 = G"
      using shared_decrement [OF inv _ d] True sm by auto
    then have "w' = run_callback r (put_shared r (sm1, tq') w) \<or> w' = put_shared r (sm1, tq') w"
      using assms(2) True
      by (auto simp: Raster_DecrementLease_def gs Raster_IsMergedUnSafe_def Shared_IsEnabledUnSafe_def
          simp del: Shared_DecrementLease.simps split: if_splits)
    then show ?thesis using put [OF assms(1) st(2-4)] by auto
  next
    case False
    then have "w' = w" using assms(2) by (auto simp: Raster_DecrementLease_def gs
          Raster_IsMergedUnSafe_def Shared_IsEnabledUnSafe_def split: if_splits)
    then show ?thesis using assms(3) by simp
  qed
qed

lemma world_inv_enable:
  assumes "member P G a r" and "Raster_Enable r w = Inr w'" and "world_inv P G a w"
  shows "world_inv P G a w'"
proof -
  obtain sm where ne: "P \<noteq> G" and sm: "mw_shared w a = Some sm" "stm_owner sm = P" "stm_subsumed sm = G"
    and inv: "lease_inv sm (mw_tq w)" using assms(3) by (rule world_invE)
  note put = world_inv_put [OF ne]
  have "w' = put_shared r (sm\<lparr>stm_enabled := True\<rparr>, mw_tq w) w"
    using assms(2) get_shared_eq [OF assms(1) sm(1)] by (simp add: Raster_Enable_def Shared_SetEnabledUnSafe_def)
  moreover have "world_inv P G a (put_shared r (sm\<lparr>stm_enabled := True\<rparr>, mw_tq w) w)"
    by (rule put [OF assms(1)]) (simp_all add: sm inv lease_inv_enabled)
  ultimately show ?thesis by simp
qed

lemma world_inv_disable:
  assumes "member P G a r" and "Raster_Disable r w = Inr w'" and "world_inv P G a w"
  shows "world_inv P G a w'"
proof -
  obtain sm where ne: "P \<noteq> G" and sm: "mw_shared w a = Some sm" "stm_owner sm = P" "stm_subsumed sm = G"
    and inv: "lease_inv sm (mw_tq w)" using assms(3) by (rule world_invE)
  note put = world_inv_put [OF ne]
  have "w' = put_shared r (sm\<lparr>stm_enabled := False\<rparr>, mw_tq w) w"
    using assms(2) get_shared_eq [OF assms(1) sm(1)] by (simp add: Raster_Disable_def Shared_SetEnabledUnSafe_def)
  moreover have "world_inv P G a (put_shared r (sm\<lparr>stm_enabled := False\<rparr>, mw_tq w) w)"
    by (rule put [OF assms(1)]) (simp_all add: sm inv lease_inv_enabled)
  ultimately show ?thesis by simp
qed

lemmas world_inv_ops = world_inv_merge world_inv_unmerge world_inv_extend world_inv_decrement
  world_inv_enable world_inv_disable

lemma world_inv_register:
  "world_inv P G a w \<Longrightarrow> RegisterTask q c t g (mw_tq w) = Inr tq' \<Longrightarrow> world_inv P G a (w\<lparr>mw_tq := tq'\<rparr>)"
  using world_inv_queues tq_wf_Register lease_inv_wf links_of_register by (metis world_invE)

lemma world_inv_get_next:
  "world_inv P G a w \<Longrightarrow> GetNextTaskToRun fr th q t (mw_tq w) = Inr (c, tq') \<Longrightarrow> world_inv P G a (w\<lparr>mw_tq := tq'\<rparr>)"
  using world_inv_queues tq_wf_GetNext lease_inv_wf links_of_get_next by (metis world_invE)

lemma world_inv_step: "merger_step P G a w w' \<Longrightarrow> world_inv P G a w \<Longrightarrow> world_inv P G a w'"
  by (induction rule: merger_step.induct)
    (erule (2) world_inv_ops | erule (1) world_inv_register world_inv_get_next)+

lemma merger_reachable_inv: "merger_reachable P G a w \<Longrightarrow> world_inv P G a w"
proof (induction rule: merger_reachable.induct)
  case (mr_init w)
  then show ?case
    by (auto simp: world_inv_def lease_inv_def SharedThreadMerger_new_def Shared_IsMergedUnSafe_def
        Shared_IsAllLeaseTermsZeroUnSafe_def pair_free_def)
next
  case (mr_next w w')
  then show ?case using world_inv_step by blast
qed

section \<open>Properties\<close>

lemma Owns_pair:
  "pair_owned P G tq \<Longrightarrow> Owns tq P G = Inr True" "pair_free P G tq \<Longrightarrow> Owns tq P G = Inr False"
proof -
  assume "pair_owned P G tq"
  then show "Owns tq P G = Inr True"
    by (rule pair_owned_entries) (auto simp: Owns_def dest: tq_wf_keys)
next
  assume f: "pair_free P G tq"
  then obtain oe se where e: "tq_wf tq" "tq_entries tq P = Some oe" "tq_entries tq G = Some se" by (auto simp: pair_free_def)
  have "G \<notin> set (tqe_owner_of oe)" using f e tqp.not_both by (auto simp: pair_owned_def)
  then show "Owns tq P G = Inr False" using e tq_wf_keys by (auto simp: Owns_def)
qed

text \<open>The worlds of the witnesses: two mergers, 10 and 11, share the merger at address 0.\<close>

definition demo_world :: "nat MergerWorld" where
  "demo_world = \<lparr>mw_tq = demo_two, mw_shared = [0 \<mapsto> SharedThreadMerger_new 0 1], mw_next = 1,
     mw_callbacks = [], mw_notified = []\<rparr>"

definition demo_a :: RasterThreadMerger where "demo_a = Raster_new 10 0 0 1"
definition demo_b :: RasterThreadMerger where "demo_b = Raster_new 11 0 0 1"

definition demo_world1 :: "nat MergerWorld" where
  "demo_world1 = projr (Raster_MergeWithLease demo_a 1 demo_world)"

definition demo_world2 :: "nat MergerWorld" where
  "demo_world2 = projr (Raster_ExtendLeaseTo demo_b 5 demo_world1)"

definition demo_world3 :: "nat MergerWorld" where
  "demo_world3 = snd (projr (Raster_DecrementLease demo_a demo_world2))"

lemma demo_members: "member 0 1 0 demo_a" "member 0 1 0 demo_b"
  by (simp_all add: member_def demo_a_def demo_b_def Raster_new_def)

lemma demo_world_reachable: "merger_reachable 0 1 0 demo_world"
proof (rule mr_init)
  have "tq_entries demo_two 0 = Some (TaskQueueEntry_new 0)" "tq_entries demo_two 1 = Some (TaskQueueEntry_new 1)"
    by code_simp+
  then show "pair_free 0 1 (mw_tq demo_world)"
    using tq_reachable_wf [OF demo_two_reachable]
    by (simp add: pair_free_def demo_world_def TaskQueueEntry_new_def)
qed (simp add: demo_world_def)

lemma demo_world1_reachable: "merger_reachable 0 1 0 demo_world1"
proof -
  have "Raster_MergeWithLease demo_a 1 demo_world = Inr demo_world1"
    unfolding demo_world1_def by (rule result_eqI) code_simp
  then show ?thesis using mr_next [OF demo_world_reachable] ms_merge [OF demo_members(1)] by blast
qed

lemma demo_world2_reachable: "merger_reachable 0 1 0 demo_world2"
proof -
  have "Raster_ExtendLeaseTo demo_b 5 demo_world1 = Inr demo_world2"
    unfolding demo_world2_def by (rule result_eqI) code_simp
  then show ?thesis using mr_next [OF demo_world1_reachable] ms_extend [OF demo_members(2)] by blast
qed

lemma demo_world3_reachable: "merger_reachable 0 1 0 demo_world3"
proof -
  have "Raster_DecrementLease demo_a demo_world2 = Inr (projr (Raster_DecrementLease demo_a demo_world2))"
    by (rule result_eqI) code_simp
  then have "Raster_DecrementLease demo_a demo_world2 = Inr (fst (projr (Raster_DecrementLease demo_a demo_world2)), demo_world3)"
    by (simp add: demo_world3_def)
  then show ?thesis using mr_next [OF demo_world2_reachable] ms_decrement [OF demo_members(1)] by blast
qed

text \<open>
  C6: in every reachable world a raster merger reports "merged" exactly when the task queues say
  that the platform queue owns the raster queue.
\<close>

theorem merged_iff_owned:
  assumes "merger_reachable P G a w" and "member P G a r"
  shows "\<exists>b. Raster_IsMerged r w = Inr b \<and> Owns (mw_tq w) P G = Inr b"
proof -
  obtain sm where sm: "P \<noteq> G" "mw_shared w a = Some sm" "stm_owner sm = P" "stm_subsumed sm = G" "lease_inv sm (mw_tq w)"
    using merger_reachable_inv [OF assms(1)] by (rule world_invE)
  then show ?thesis
    using get_shared_eq [OF assms(2) sm(2)] member_not_same [OF assms(2) sm(1)] Owns_pair [of P G "mw_tq w"]
    by (auto simp: Raster_IsMerged_def Raster_IsMergedUnSafe_def lease_inv_def split: if_splits)
qed

theorem merged_iff_owned_witness:
  "\<exists>b. Raster_IsMerged demo_b demo_world1 = Inr b \<and> Owns (mw_tq demo_world1) 0 1 = Inr b"
  by (rule merged_iff_owned [OF demo_world1_reachable demo_members(2)])

lemma decrement_counts:
  assumes "merger_reachable P G a w" and "member P G a r" and "mw_shared w a = Some sm"
    and "stm_enabled sm" and "map_of (stm_leases sm) (rtm_id r) = Some l" and "l \<noteq> 0"
  shows "\<exists>w' sm'. Raster_DecrementLease r w =
      Inr (if Shared_IsMergedUnSafe sm' then kRemainsMerged else kUnmergedNow, w') \<and>
    mw_shared w' a = Some sm' \<and> map_of (stm_leases sm') = (map_of (stm_leases sm))(rtm_id r \<mapsto> l - 1) \<and>
    stm_enabled sm' \<and> merger_reachable P G a w' \<and> Owns (mw_tq w') P G = Inr (Shared_IsMergedUnSafe sm')"
proof -
  obtain ne: "P \<noteq> G" and sm: "stm_owner sm = P" "stm_subsumed sm = G" and inv: "lease_inv sm (mw_tq w)"
    using world_invE [OF merger_reachable_inv [OF assms(1)]] assms(3) by (metis option.inject)
  have m: "Shared_IsMergedUnSafe sm"
    using merged_iff_positive [of sm] inv assms(5,6) by (auto simp: lease_inv_def)
  let ?sm = "sm\<lparr>stm_leases := omap_put (rtm_id r) (l - 1) (stm_leases sm)\<rparr>"
  have "decrement_entry (rtm_id r) sm = Inr ?sm"
    using assms(5,6) by (simp add: decrement_entry_def word_gt_0)
  from shared_decrement [OF inv m this] obtain tq' where
    d: "Shared_DecrementLease (rtm_id r) (sm, mw_tq w) = Inr (\<not> Shared_IsMergedUnSafe ?sm, ?sm, tq')"
    "lease_inv ?sm tq'" by blast
  define w' where "w' = (if Shared_IsMergedUnSafe ?sm then put_shared r (?sm, tq') w
      else run_callback r (put_shared r (?sm, tq') w))"
  have "Raster_DecrementLease r w = Inr (if Shared_IsMergedUnSafe ?sm then kRemainsMerged else kUnmergedNow, w')"
    using get_shared_eq [OF assms(2,3)] member_not_same [OF assms(2) ne] m assms(4) d(1)
    by (simp add: Raster_DecrementLease_def Raster_IsMergedUnSafe_def Shared_IsEnabledUnSafe_def w'_def
        del: Shared_DecrementLease.simps)
  moreover from this have "merger_reachable P G a w'"
    using mr_next [OF assms(1)] ms_decrement [OF assms(2)] by blast
  moreover have "mw_shared w' a = Some ?sm" "mw_tq w' = tq'"
    using assms(2) by (simp_all add: w'_def put_shared_def run_callback_def member_def)
  moreover have "Owns tq' P G = Inr (Shared_IsMergedUnSafe ?sm)"
    using d(2) Owns_pair [of P G tq'] sm by (auto simp: lease_inv_def split: if_splits)
  ultimately show ?thesis using assms(4) by (intro exI [of _ w'] exI [of _ ?sm]) simp
qed

fun decrement_times :: "nat \<Rightarrow> RasterThreadMerger \<Rightarrow> 'c MergerWorld \<Rightarrow> 'c MergerWorld result" where
  "decrement_times 0 r w = Inr w"
| "decrement_times (Suc n) r w = rbind (Raster_DecrementLease r w) (\<lambda>(_, w'). decrement_times n r w')"

lemma decrement_times_sole:
  assumes "merger_reachable P G a w" and "member P G a r" and "mw_shared w a = Some sm" and "stm_enabled sm"
    and "map_of (stm_leases sm) = [rtm_id r \<mapsto> l]" and "n \<le> unat l"
  shows "\<exists>w'. decrement_times n r w = Inr w' \<and> (\<exists>sm'. mw_shared w' a = Some sm' \<and>
    map_of (stm_leases sm') = [rtm_id r \<mapsto> l - of_nat n]) \<and> merger_reachable P G a w'"
  using assms
proof (induction n arbitrary: w sm l)
  case 0
  then show ?case by auto
next
  case (Suc n)
  then have l: "l \<noteq> 0" by auto
  have rl: "map_of (stm_leases sm) (rtm_id r) = Some l" using Suc.prems(5) by simp
  obtain w1 sm1 where d: "\<exists>st. Raster_DecrementLease r w = Inr (st, w1)" "mw_shared w1 a = Some sm1"
    "map_of (stm_leases sm1) = [rtm_id r \<mapsto> l - 1]" "stm_enabled sm1" "merger_reachable P G a w1"
    using decrement_counts [OF Suc.prems(1-4) rl l] unfolding Suc.prems(5) fun_upd_upd by blast
  have "unat (l - 1) = unat l - 1" using l by (simp add: unat_minus_one)
  then have "n \<le> unat (l - 1)" using Suc.prems(6) by simp
  from Suc.IH [OF d(5) Suc.prems(2) d(2,4,3) this] d(1) show ?case by (auto simp: diff_diff_eq)
qed

text \<open>
  decrementing a positive lease never aborts: it lowers exactly the caller's lease by one, and
  it unmerges the queues exactly when no lease is left.
\<close>

theorem decrement_lease_counts:
  assumes "merger_reachable P G a w" and "member P G a r" and "mw_shared w a = Some sm"
    and "stm_enabled sm" and "map_of (stm_leases sm) (rtm_id r) = Some l" and "l \<noteq> 0"
  shows "\<exists>w' sm'. Raster_DecrementLease r w =
      Inr (if Shared_IsMergedUnSafe sm' then kRemainsMerged else kUnmergedNow, w') \<and>
    mw_shared w' a = Some sm' \<and> map_of (stm_leases sm') = (map_of (stm_leases sm))(rtm_id r \<mapsto> l - 1) \<and>
    stm_enabled sm' \<and> Owns (mw_tq w') P G = Inr (Shared_IsMergedUnSafe sm')"
  using decrement_counts [OF assms] by blast

theorem decrement_lease_counts_witness:
  "\<exists>w' sm'. Raster_DecrementLease demo_a demo_world1 =
      Inr (if Shared_IsMergedUnSafe sm' then kRemainsMerged else kUnmergedNow, w') \<and>
    mw_shared w' 0 = Some sm' \<and> map_of (stm_leases sm') (rtm_id demo_a) = Some 0"
proof -
  have sm: "mw_shared demo_world1 0 = Some \<lparr>stm_owner = 0, stm_subsumed = 1, stm_enabled = True, stm_leases = [(10, 1)]\<rparr>"
    by code_simp
  have "map_of (stm_leases \<lparr>stm_owner = 0, stm_subsumed = 1, stm_enabled = True, stm_leases = [(10, 1)]\<rparr>)
      (rtm_id demo_a) = Some 1" by code_simp
  from decrement_lease_counts [OF demo_world1_reachable demo_members(1) sm _ this]
  obtain w' sm' where "Raster_DecrementLease demo_a demo_world1 =
      Inr (if Shared_IsMergedUnSafe sm' then kRemainsMerged else kUnmergedNow, w')"
    "mw_shared w' 0 = Some sm'" "map_of (stm_leases sm') (rtm_id demo_a) = Some 0" by auto
  then show ?thesis by blast
qed

text \<open>
  C7: a lease of \<open>l\<close> frames held by a single merger runs out after exactly \<open>l\<close> decrements: none
  of them aborts, before the last one the queues stay merged, and after it they are unmerged.
\<close>

theorem lease_expires:
  assumes "merger_reachable P G a w" and "member P G a r" and "mw_shared w a = Some sm" and "stm_enabled sm"
    and "map_of (stm_leases sm) = [rtm_id r \<mapsto> l]" and "n \<le> unat l"
  shows "\<exists>w'. decrement_times n r w = Inr w' \<and> Raster_IsMerged r w' = Inr (n < unat l)"
proof -
  obtain w' sm' where w': "decrement_times n r w = Inr w'" "mw_shared w' a = Some sm'"
    "map_of (stm_leases sm') = [rtm_id r \<mapsto> l - of_nat n]" "merger_reachable P G a w'"
    using decrement_times_sole [OF assms] by blast
  obtain ne: "P \<noteq> G" and inv: "lease_inv sm' (mw_tq w')"
    using world_invE [OF merger_reachable_inv [OF w'(4)]] w'(2) by (metis option.inject)
  have "l - of_nat n = 0 \<longleftrightarrow> n = unat l"
    using le_unat_uoi [OF assms(6)] by (metis right_minus_eq word_unat_eq_iff)
  moreover have "Shared_IsMergedUnSafe sm' \<longleftrightarrow> l - of_nat n \<noteq> 0"
    using merged_iff_positive [of sm'] inv w'(3) by (auto simp: lease_inv_def split: if_splits)
  ultimately show ?thesis
    using w' get_shared_eq [OF assms(2) w'(2)] member_not_same [OF assms(2) ne] assms(6)
    by (auto simp: Raster_IsMerged_def Raster_IsMergedUnSafe_def)
qed

theorem lease_expires_witness:
  "\<exists>w'. decrement_times 1 demo_a demo_world1 = Inr w' \<and> Raster_IsMerged demo_a w' = Inr False"
proof -
  define sm where "sm = \<lparr>stm_owner = 0, stm_subsumed = 1, stm_enabled = True, stm_leases = [(10, 1)]\<rparr>"
  have 1: "mw_shared demo_world1 0 = Some sm" unfolding sm_def by code_simp
  have 2: "map_of (stm_leases sm) = [rtm_id demo_a \<mapsto> 1]" "stm_enabled sm"
    by (simp_all add: sm_def demo_a_def Raster_new_def)
  from lease_expires [OF demo_world1_reachable demo_members(1) 1 2(2) 2(1), of 1] show ?thesis by simp
qed

text \<open>
  C8: a merger whose own lease is spent aborts the process when it decrements again while another
  merger of the same pair still holds a lease: \<open>FML_CHECK(lease_term_ref > 0)\<close> fails although the
  queues are merged.  The witness is a reachable world with two mergers that share a pair.
\<close>

theorem spent_lease_aborts:
  assumes "merger_reachable P G a w" and "member P G a r" and "mw_shared w a = Some sm"
    and "stm_enabled sm" and "map_of (stm_leases sm) (rtm_id r) = Some 0"
    and "map_of (stm_leases sm) c = Some l" and "l \<noteq> 0"
  shows "Raster_DecrementLease r w = Inl CheckFailed \<and> Raster_IsMerged r w = Inr True"
proof -
  obtain ne: "P \<noteq> G" and inv: "lease_inv sm (mw_tq w)"
    using world_invE [OF merger_reachable_inv [OF assms(1)]] assms(3) by (metis option.inject)
  have "Shared_IsMergedUnSafe sm"
    using merged_iff_positive [of sm] inv assms(6,7) by (auto simp: lease_inv_def)
  moreover have "decrement_entry (rtm_id r) sm = Inl CheckFailed"
    using assms(5) by (simp add: decrement_entry_def)
  ultimately show ?thesis
    using get_shared_eq [OF assms(2,3)] member_not_same [OF assms(2) ne] assms(4)
    by (simp add: Raster_DecrementLease_def Raster_IsMerged_def Raster_IsMergedUnSafe_def Shared_IsEnabledUnSafe_def)
qed

theorem spent_lease_aborts_witness:
  "merger_reachable 0 1 0 demo_world3 \<and> Raster_DecrementLease demo_a demo_world3 = Inl CheckFailed \<and>
   Raster_IsMerged demo_a demo_world3 = Inr True"
proof -
  define sm where "sm = \<lparr>stm_owner = 0, stm_subsumed = 1, stm_enabled = True, stm_leases = [(10, 0), (11, 5)]\<rparr>"
  have "mw_shared demo_world3 0 = Some sm" unfolding sm_def by code_simp
  moreover have "map_of (stm_leases sm) (rtm_id demo_a) = Some 0" "map_of (stm_leases sm) 11 = Some 5" "stm_enabled sm"
    by (simp_all add: sm_def demo_a_def Raster_new_def)
  ultimately show ?thesis
    using spent_lease_aborts [OF demo_world3_reachable demo_members(1), of sm 11 5] demo_world3_reachable
    by simp
qed

end
