(* ===== verification/Bytes.thy ===== *)
theory Bytes
  imports Prelude
begin

text \<open>
  Little-endian bytes of an unsigned number, as \<open>memcpy\<close> of an integer or a \<open>double\<close> gives them
  on the engine's targets, and fixed-size chunks of a byte buffer.
\<close>

fun le_bytes :: "nat \<Rightarrow> int \<Rightarrow> u8 list" where
  "le_bytes 0 x = []"
| "le_bytes (Suc n) x = word_of_int x # le_bytes n (x div 256)"

fun le_value :: "u8 list \<Rightarrow> int" where
  "le_value [] = 0"
| "le_value (b # bs) = uint b + 256 * le_value bs"

lemma length_le_bytes [simp]: "length (le_bytes n x) = n"
  by (induction n arbitrary: x) simp_all

lemma le_value_bounds: "0 \<le> le_value bs \<and> le_value bs < 256 ^ length bs"
proof (induction bs)
  case Nil
  then show ?case by simp
next
  case (Cons b bs)
  have "0 \<le> uint b" "uint b < 256" using uint_lt2p [of b] by simp_all
  moreover have "le_value bs + 1 \<le> 256 ^ length bs" using Cons by simp
  then have "256 * (le_value bs + 1) \<le> 256 * 256 ^ length bs" by (intro mult_left_mono) simp_all
  ultimately show ?case using Cons by (simp add: algebra_simps)
qed

lemma le_value_le_bytes: "le_value (le_bytes n x) = x mod 256 ^ n"
proof (induction n arbitrary: x)
  case 0
  then show ?case by simp
next
  case (Suc n)
  have "x mod (256 * 256 ^ n) = 256 * (x div 256 mod 256 ^ n) + x mod 256"
    by (rule zmod_zmult2_eq) simp
  with Suc show ?case by (simp add: uint_word_of_int)
qed

lemma le_bytes_le_value: "le_bytes (length bs) (le_value bs) = bs"
proof (induction bs)
  case Nil
  then show ?case by simp
next
  case (Cons b bs)
  have "uint b < 256" using uint_lt2p [of b] by simp
  then have "(uint b + 256 * le_value bs) div 256 = le_value bs" by simp
  moreover have "(word_of_int (uint b + 256 * le_value bs) :: u8) = b"
  proof -
    have "(word_of_int (uint b + 256 * le_value bs) :: u8) =
        word_of_int (uint b) + word_of_int 256 * word_of_int (le_value bs)"
      by (simp only: wi_hom_add wi_hom_mult)
    moreover have "(word_of_int 256 :: u8) = 0" unfolding word_of_int_eq_0_iff by simp
    ultimately show ?thesis by (simp only: mult_zero_left word_of_int_uint add_0_right)
  qed
  ultimately show ?case using Cons by simp
qed

section \<open>Words of a whole number of bytes\<close>

definition bytes64 :: "u64 \<Rightarrow> u8 list" where "bytes64 w = le_bytes 8 (uint w)"
definition word64 :: "u8 list \<Rightarrow> u64" where "word64 bs = word_of_int (le_value bs)"
definition bytes32 :: "u32 \<Rightarrow> u8 list" where "bytes32 w = le_bytes 4 (uint w)"
definition word32 :: "u8 list \<Rightarrow> u32" where "word32 bs = word_of_int (le_value bs)"
definition bytes16 :: "u16 \<Rightarrow> u8 list" where "bytes16 w = le_bytes 2 (uint w)"
definition word16 :: "u8 list \<Rightarrow> u16" where "word16 bs = word_of_int (le_value bs)"

lemma length_bytes [simp]:
  "length (bytes64 w) = 8" "length (bytes32 v) = 4" "length (bytes16 u) = 2"
  by (simp_all add: bytes64_def bytes32_def bytes16_def)

lemma word64_bytes64 [simp]: "word64 (bytes64 w) = w"
  using uint_lt2p [of w] by (simp add: word64_def bytes64_def le_value_le_bytes)

lemma word32_bytes32 [simp]: "word32 (bytes32 w) = w"
  using uint_lt2p [of w] by (simp add: word32_def bytes32_def le_value_le_bytes)

lemma word16_bytes16 [simp]: "word16 (bytes16 w) = w"
  using uint_lt2p [of w] by (simp add: word16_def bytes16_def le_value_le_bytes)

lemma bytes64_word64: "length bs = 8 \<Longrightarrow> bytes64 (word64 bs) = bs"
  using le_value_bounds [of bs] le_bytes_le_value [of bs]
  by (simp add: word64_def bytes64_def uint_word_of_int)

lemma bytes32_word32: "length bs = 4 \<Longrightarrow> bytes32 (word32 bs) = bs"
  using le_value_bounds [of bs] le_bytes_le_value [of bs]
  by (simp add: word32_def bytes32_def uint_word_of_int)

lemma bytes16_word16: "length bs = 2 \<Longrightarrow> bytes16 (word16 bs) = bs"
  using le_value_bounds [of bs] le_bytes_le_value [of bs]
  by (simp add: word16_def bytes16_def uint_word_of_int)

section \<open>Chunks\<close>

lemma chunk_before: "j + n \<le> k \<Longrightarrow> k \<le> length p \<Longrightarrow> take n (drop j (take k p @ r)) = take n (drop j p)"
  by (auto simp: drop_take min_def)

lemma chunk_after:
  "k + length q \<le> j \<Longrightarrow> k + length q \<le> length p \<Longrightarrow>
    drop j (take k p @ q @ drop (k + length q) p) = drop j p"
  by simp

fun chunks :: "nat \<Rightarrow> nat \<Rightarrow> 'a list \<Rightarrow> 'a list list" where
  "chunks sz 0 xs = []"
| "chunks sz (Suc n) xs = take sz xs # chunks sz n (drop sz xs)"

lemma length_chunks [simp]: "length (chunks sz n xs) = n"
  by (induction n arbitrary: xs) simp_all

lemma chunks_concat:
  "list_all (\<lambda>x. length x = sz) xss \<Longrightarrow> chunks sz (length xss) (concat xss @ rest) = xss"
  by (induction xss) auto

lemma concat_chunks: "length xs = sz * n \<Longrightarrow> concat (chunks sz n xs) = xs"
  by (induction n arbitrary: xs) simp_all

lemma length_chunk:
  "length xs = sz * n \<Longrightarrow> x \<in> set (chunks sz n xs) \<Longrightarrow> length x = sz"
proof (induction n arbitrary: xs)
  case (Suc n)
  from Suc.prems(1) have "length (drop sz xs) = sz * n" by simp
  from Suc.IH [OF this] Suc.prems show ?case by auto
qed simp

lemma nth_chunks: "i < n \<Longrightarrow> chunks sz n xs ! i = take sz (drop (i * sz) xs)"
proof (induction n arbitrary: xs i)
  case 0
  then show ?case by simp
next
  case (Suc n)
  then show ?case by (cases i) (simp_all add: add.commute)
qed

end
