(* ===== verification/Float64.thy ===== *)
theory Float64
  imports Prelude
begin

text \<open>
  The C++ type \<open>double\<close> as its 64 bits, with the operations the modelled code uses: comparison
  for inequality and subtraction, rounded to nearest with ties to even.  A result that is not a
  number is the default quiet NaN.
\<close>

type_synonym f64 = u64

definition f64_negative :: "f64 \<Rightarrow> bool" where
  "f64_negative w = bit w 63"

definition f64_bits :: "f64 \<Rightarrow> int" where
  "f64_bits w = uint w mod 2 ^ 63"

definition f64_exponent :: "f64 \<Rightarrow> int" where
  "f64_exponent w = f64_bits w div 2 ^ 52"

definition f64_fraction :: "f64 \<Rightarrow> int" where
  "f64_fraction w = f64_bits w mod 2 ^ 52"

definition f64_is_nan :: "f64 \<Rightarrow> bool" where
  "f64_is_nan w = (f64_exponent w = 2047 \<and> f64_fraction w \<noteq> 0)"

definition f64_is_inf :: "f64 \<Rightarrow> bool" where
  "f64_is_inf w = (f64_exponent w = 2047 \<and> f64_fraction w = 0)"

definition f64_is_zero :: "f64 \<Rightarrow> bool" where
  "f64_is_zero w = (f64_bits w = 0)"

definition f64_zero :: f64 where "f64_zero = 0"

definition f64_one :: f64 where "f64_one = 0x3FF0000000000000"

definition f64_nan :: f64 where "f64_nan = 0x7FF8000000000000"

text \<open>\<open>a != b\<close>: true when either is NaN; the two zeros are equal.\<close>

definition f64_ne :: "f64 \<Rightarrow> f64 \<Rightarrow> bool" where
  "f64_ne a b =
     (f64_is_nan a \<or> f64_is_nan b \<or> (a \<noteq> b \<and> \<not> (f64_is_zero a \<and> f64_is_zero b)))"

text \<open>The value of a finite number, as a multiple of \<open>2^-1074\<close>.\<close>

definition f64_magnitude :: "f64 \<Rightarrow> int" where
  "f64_magnitude w =
     (if f64_exponent w = 0 then f64_fraction w
      else (2 ^ 52 + f64_fraction w) * 2 ^ nat (f64_exponent w - 1))"

definition f64_value :: "f64 \<Rightarrow> int" where
  "f64_value w = (if f64_negative w then - f64_magnitude w else f64_magnitude w)"

function bit_length :: "int \<Rightarrow> nat" where
  "bit_length n = (if n \<le> 0 then 0 else Suc (bit_length (n div 2)))"
  by pat_completeness auto

termination bit_length
  by (relation "measure nat") auto

declare bit_length.simps [simp del]

text \<open>
  Rounding: with \<open>k\<close> the number of bits beyond 53, \<open>k * 2^52 + m\<close> is the bit pattern of the
  rounded magnitude \<open>m * 2^k\<close>, also when rounding carries into the exponent and for subnormal
  numbers, where \<open>k\<close> is 0; a pattern past the largest finite number is infinity.
\<close>

definition f64_round :: "bool \<Rightarrow> int \<Rightarrow> f64" where
  "f64_round neg n =
     (let k = bit_length n - 53;
          q = n div 2 ^ k;
          r = n mod 2 ^ k;
          m = (if 2 * r < 2 ^ k \<or> 2 * r = 2 ^ k \<and> even q then q else q + 1)
      in word_of_int (min (int k * 2 ^ 52 + m) (2047 * 2 ^ 52) + (if neg then 2 ^ 63 else 0)))"

definition f64_neg :: "f64 \<Rightarrow> f64" where
  "f64_neg w = w + 2 ^ 63"

definition f64_sub :: "f64 \<Rightarrow> f64 \<Rightarrow> f64" where
  "f64_sub a b =
     (if f64_is_nan a \<or> f64_is_nan b then f64_nan
      else if f64_is_inf a then
        (if f64_is_inf b \<and> f64_negative a = f64_negative b then f64_nan else a)
      else if f64_is_inf b then f64_neg b
      else
        let d = f64_value a - f64_value b
        in if d = 0 then (if f64_negative a \<and> \<not> f64_negative b then 2 ^ 63 else 0)
           else f64_round (d < 0) \<bar>d\<bar>)"

text \<open>Equal as \<open>double\<close> values, or the same bits (which covers a NaN that was stored).\<close>

definition f64_same :: "f64 \<Rightarrow> f64 \<Rightarrow> bool" where
  "f64_same a b = (a = b \<or> \<not> f64_ne a b)"

lemma f64_same_refl [simp]: "f64_same a a"
  by (simp add: f64_same_def)

lemma f64_same_if_not_ne: "\<not> f64_ne a b \<Longrightarrow> f64_same a b"
  by (simp add: f64_same_def)

lemma f64_ne_sym: "f64_ne a b = f64_ne b a"
  by (auto simp: f64_ne_def)

end
