(* ===== verification/Pointer_Data.thy ===== *)
theory Pointer_Data
  imports Bytes Float64
begin

text \<open>
  \<open>lib/ui/window/pointer_data\<close> and \<open>pointer_data_packet\<close>: the 36 fields of a pointer event and
  the byte buffer that carries a sequence of events.  Every field is 64 bits wide.  The
  enumerations have the underlying type \<open>int64_t\<close>, so a value read from a buffer may be none of
  the named constants: each datatype has one more constructor for such a value.
\<close>

section \<open>Events\<close>

datatype Change = kCancel | kAdd | kRemove | kHover | kDown | kMove | kUp | kPanZoomStart | kPanZoomUpdate | kPanZoomEnd | Change_other u64

fun change_code :: "Change \<Rightarrow> u64" where
  "change_code kCancel = 0"
| "change_code kAdd = 1"
| "change_code kRemove = 2"
| "change_code kHover = 3"
| "change_code kDown = 4"
| "change_code kMove = 5"
| "change_code kUp = 6"
| "change_code kPanZoomStart = 7"
| "change_code kPanZoomUpdate = 8"
| "change_code kPanZoomEnd = 9"
| "change_code (Change_other w) = w"

definition change_of :: "u64 \<Rightarrow> Change" where
  "change_of w =
     (if w = 0 then kCancel
      else if w = 1 then kAdd
      else if w = 2 then kRemove
      else if w = 3 then kHover
      else if w = 4 then kDown
      else if w = 5 then kMove
      else if w = 6 then kUp
      else if w = 7 then kPanZoomStart
      else if w = 8 then kPanZoomUpdate
      else if w = 9 then kPanZoomEnd
      else Change_other w)"

lemma change_code_of [simp]: "change_code (change_of w) = w"
  by (simp add: change_of_def)

datatype DeviceKind = kTouch | kMouse | kStylus | kInvertedStylus | kTrackpad | DeviceKind_other u64

fun kind_code :: "DeviceKind \<Rightarrow> u64" where
  "kind_code kTouch = 0"
| "kind_code kMouse = 1"
| "kind_code kStylus = 2"
| "kind_code kInvertedStylus = 3"
| "kind_code kTrackpad = 4"
| "kind_code (DeviceKind_other w) = w"

definition kind_of :: "u64 \<Rightarrow> DeviceKind" where
  "kind_of w =
     (if w = 0 then kTouch
      else if w = 1 then kMouse
      else if w = 2 then kStylus
      else if w = 3 then kInvertedStylus
      else if w = 4 then kTrackpad
      else DeviceKind_other w)"

lemma kind_code_of [simp]: "kind_code (kind_of w) = w"
  by (simp add: kind_of_def)

datatype SignalKind = kNone | kScroll | kScrollInertiaCancel | kScale | SignalKind_other u64

fun signal_code :: "SignalKind \<Rightarrow> u64" where
  "signal_code kNone = 0"
| "signal_code kScroll = 1"
| "signal_code kScrollInertiaCancel = 2"
| "signal_code kScale = 3"
| "signal_code (SignalKind_other w) = w"

definition signal_of :: "u64 \<Rightarrow> SignalKind" where
  "signal_of w =
     (if w = 0 then kNone
      else if w = 1 then kScroll
      else if w = 2 then kScrollInertiaCancel
      else if w = 3 then kScale
      else SignalKind_other w)"

lemma signal_code_of [simp]: "signal_code (signal_of w) = w"
  by (simp add: signal_of_def)

record PointerData =
  pd_embedder_id :: u64
  pd_time_stamp :: u64
  pd_change :: Change
  pd_kind :: DeviceKind
  pd_signal_kind :: SignalKind
  pd_device :: u64
  pd_pointer_identifier :: u64
  pd_physical_x :: f64
  pd_physical_y :: f64
  pd_physical_delta_x :: f64
  pd_physical_delta_y :: f64
  pd_buttons :: u64
  pd_obscured :: u64
  pd_synthesized :: u64
  pd_pressure :: f64
  pd_pressure_min :: f64
  pd_pressure_max :: f64
  pd_distance :: f64
  pd_distance_max :: f64
  pd_size :: f64
  pd_radius_major :: f64
  pd_radius_minor :: f64
  pd_radius_min :: f64
  pd_radius_max :: f64
  pd_orientation :: f64
  pd_tilt :: f64
  pd_platformData :: u64
  pd_scroll_delta_x :: f64
  pd_scroll_delta_y :: f64
  pd_pan_x :: f64
  pd_pan_y :: f64
  pd_pan_delta_x :: f64
  pd_pan_delta_y :: f64
  pd_scale :: f64
  pd_rotation :: f64
  pd_view_id :: u64

definition PointerData_words :: "PointerData \<Rightarrow> u64 list" where
  "PointerData_words d =
     [pd_embedder_id d, pd_time_stamp d, change_code (pd_change d), kind_code (pd_kind d),
      signal_code (pd_signal_kind d), pd_device d, pd_pointer_identifier d, pd_physical_x d,
      pd_physical_y d, pd_physical_delta_x d, pd_physical_delta_y d, pd_buttons d,
      pd_obscured d, pd_synthesized d, pd_pressure d, pd_pressure_min d,
      pd_pressure_max d, pd_distance d, pd_distance_max d, pd_size d,
      pd_radius_major d, pd_radius_minor d, pd_radius_min d, pd_radius_max d,
      pd_orientation d, pd_tilt d, pd_platformData d, pd_scroll_delta_x d,
      pd_scroll_delta_y d, pd_pan_x d, pd_pan_y d, pd_pan_delta_x d,
      pd_pan_delta_y d, pd_scale d, pd_rotation d, pd_view_id d]"

definition PointerData_of_words :: "u64 list \<Rightarrow> PointerData" where
  "PointerData_of_words ws =
     \<lparr>pd_embedder_id = ws ! 0, pd_time_stamp = ws ! 1, pd_change = change_of (ws ! 2),
      pd_kind = kind_of (ws ! 3), pd_signal_kind = signal_of (ws ! 4), pd_device = ws ! 5,
      pd_pointer_identifier = ws ! 6, pd_physical_x = ws ! 7, pd_physical_y = ws ! 8,
      pd_physical_delta_x = ws ! 9, pd_physical_delta_y = ws ! 10, pd_buttons = ws ! 11,
      pd_obscured = ws ! 12, pd_synthesized = ws ! 13, pd_pressure = ws ! 14,
      pd_pressure_min = ws ! 15, pd_pressure_max = ws ! 16, pd_distance = ws ! 17,
      pd_distance_max = ws ! 18, pd_size = ws ! 19, pd_radius_major = ws ! 20,
      pd_radius_minor = ws ! 21, pd_radius_min = ws ! 22, pd_radius_max = ws ! 23,
      pd_orientation = ws ! 24, pd_tilt = ws ! 25, pd_platformData = ws ! 26,
      pd_scroll_delta_x = ws ! 27, pd_scroll_delta_y = ws ! 28, pd_pan_x = ws ! 29,
      pd_pan_y = ws ! 30, pd_pan_delta_x = ws ! 31, pd_pan_delta_y = ws ! 32,
      pd_scale = ws ! 33, pd_rotation = ws ! 34, pd_view_id = ws ! 35\<rparr>"

definition PointerData_Clear :: "PointerData \<Rightarrow> PointerData" where
  "PointerData_Clear d = PointerData_of_words (replicate 36 0)"

text \<open>An event whose enumerations hold a named constant wherever there is one for the value.\<close>

definition PointerData_canonical :: "PointerData \<Rightarrow> bool" where
  "PointerData_canonical d =
     (change_of (change_code (pd_change d)) = pd_change d \<and>
      kind_of (kind_code (pd_kind d)) = pd_kind d \<and>
      signal_of (signal_code (pd_signal_kind d)) = pd_signal_kind d)"

lemma length_PointerData_words [simp]: "length (PointerData_words d) = 36"
  by (simp add: PointerData_words_def)

lemma PointerData_of_words_words:
  "PointerData_canonical d \<Longrightarrow> PointerData_of_words (PointerData_words d) = d"
  by (simp add: PointerData_canonical_def PointerData_words_def PointerData_of_words_def)

lemma PointerData_words_of_words:
  assumes "length ws = 36"
  shows "PointerData_words (PointerData_of_words ws) = ws"
proof -
  have "PointerData_words (PointerData_of_words ws) = map ((!) ws) [0..<36]"
    by (simp add: PointerData_words_def PointerData_of_words_def upt_rec
        numeral_eq_Suc)
  also have "\<dots> = ws" using map_nth [of ws] by (simp only: assms)
  finally show ?thesis .
qed

lemma PointerData_of_words_canonical [simp]: "PointerData_canonical (PointerData_of_words ws)"
  by (simp add: PointerData_canonical_def PointerData_of_words_def)

section \<open>Packets\<close>

text \<open>\<open>sizeof(PointerData)\<close> is 288; the buffer of a packet is a list of bytes.\<close>

definition PointerData_bytes :: "PointerData \<Rightarrow> u8 list" where
  "PointerData_bytes d = concat (map bytes64 (PointerData_words d))"

definition PointerData_of_bytes :: "u8 list \<Rightarrow> PointerData" where
  "PointerData_of_bytes bs = PointerData_of_words (map word64 (chunks 8 36 bs))"

type_synonym PointerDataPacket = "u8 list"

definition PointerDataPacket_new :: "nat \<Rightarrow> PointerDataPacket" where
  "PointerDataPacket_new n = replicate (n * 288) 0"

definition PointerDataPacket_of_data :: "u8 list \<Rightarrow> nat \<Rightarrow> PointerDataPacket" where
  "PointerDataPacket_of_data data num_bytes = take num_bytes data"

definition GetLength :: "PointerDataPacket \<Rightarrow> nat" where
  "GetLength p = length p div 288"

definition SetPointerData :: "nat \<Rightarrow> PointerData \<Rightarrow> PointerDataPacket \<Rightarrow> PointerDataPacket result" where
  "SetPointerData i d p =
     require DcheckFailed (i < GetLength p)
       (Inr (take (i * 288) p @ PointerData_bytes d @ drop (i * 288 + 288) p))"

definition GetPointerData :: "nat \<Rightarrow> PointerDataPacket \<Rightarrow> PointerData result" where
  "GetPointerData i p =
     require DcheckFailed (i < GetLength p)
       (Inr (PointerData_of_bytes (take 288 (drop (i * 288) p))))"

lemma length_concat_uniform:
  "list_all (\<lambda>x. length x = sz) xss \<Longrightarrow> length (concat xss) = sz * length xss"
  by (induction xss) auto

lemma length_PointerData_bytes [simp]: "length (PointerData_bytes d) = 288"
  by (simp add: PointerData_bytes_def length_concat_uniform [where sz = 8] list_all_iff)

lemma PointerData_of_bytes_bytes:
  assumes "PointerData_canonical d"
  shows "PointerData_of_bytes (PointerData_bytes d) = d"
proof -
  have "chunks 8 36 (PointerData_bytes d) = map bytes64 (PointerData_words d)"
    using chunks_concat [of 8 "map bytes64 (PointerData_words d)" "[]"]
    by (simp add: PointerData_bytes_def list_all_iff)
  then show ?thesis
    using assms by (simp add: PointerData_of_bytes_def comp_def PointerData_of_words_words)
qed

lemma PointerData_of_bytes_canonical [simp]: "PointerData_canonical (PointerData_of_bytes bs)"
  by (simp add: PointerData_of_bytes_def)

lemma PointerData_bytes_of_bytes:
  assumes "length bs = 288"
  shows "PointerData_bytes (PointerData_of_bytes bs) = bs"
proof -
  have "map bytes64 (map word64 (chunks 8 36 bs)) = chunks 8 36 bs"
    using length_chunk [of bs 8 36] assms by (simp add: map_idI bytes64_word64)
  then show ?thesis
    using assms
    by (simp add: PointerData_bytes_def PointerData_of_bytes_def PointerData_words_of_words
        concat_chunks del: map_map)
qed

end
