(* ===== verification/Pointer_Converter.thy ===== *)
theory Pointer_Converter
  imports Pointer_Data
begin

text \<open>
  \<open>lib/ui/window/pointer_data_packet_converter\<close>: the state kept per device, the helpers, and
  \<open>ConvertPointerData\<close> with one definition per case of its two switches.  The pointers of a
  packet that a call appends to \<open>converted_pointers\<close> are the list it returns.

  \<open>EnsurePointerState\<close> leaves \<open>scale\<close>, \<open>rotation\<close> and \<open>buttons\<close> of a new state uninitialised:
  they are \<open>None\<close> here, and reading \<open>None\<close> is undefined behaviour.
\<close>

section \<open>State\<close>

record PointerState =
  ps_pointer_identifier :: u64
  ps_is_down :: bool
  ps_is_pan_zoom_active :: bool
  ps_physical_x :: f64
  ps_physical_y :: f64
  ps_pan_x :: f64
  ps_pan_y :: f64
  ps_scale :: "f64 option"
  ps_rotation :: "f64 option"
  ps_buttons :: "u64 option"

record PointerDataPacketConverter =
  pc_states :: "u64 \<rightharpoonup> PointerState"
  pc_pointer :: u64

definition PointerDataPacketConverter_new :: PointerDataPacketConverter where
  "PointerDataPacketConverter_new = \<lparr>pc_states = Map.empty, pc_pointer = 0\<rparr>"

text \<open>\<open>states_[device] = state\<close>, reading an initialised field, and \<open>iter->second\<close>.\<close>

definition put_state :: "u64 \<Rightarrow> PointerState \<Rightarrow> PointerDataPacketConverter \<Rightarrow> PointerDataPacketConverter" where
  "put_state device state c = c\<lparr>pc_states := (pc_states c)(device \<mapsto> state)\<rparr>"

definition read_init :: "'a option \<Rightarrow> 'a result" where
  "read_init v = (case v of None \<Rightarrow> Inl Undefined | Some x \<Rightarrow> Inr x)"

definition existing_state :: "u64 \<Rightarrow> PointerDataPacketConverter \<Rightarrow> PointerState result" where
  "existing_state device c =
     (case pc_states c device of None \<Rightarrow> Inl DcheckFailed | Some state \<Rightarrow> Inr state)"

section \<open>Helpers\<close>

definition EnsurePointerState ::
  "PointerData \<Rightarrow> PointerDataPacketConverter \<Rightarrow> PointerState \<times> PointerDataPacketConverter" where
  "EnsurePointerState d c =
     (let state = \<lparr>ps_pointer_identifier = 0, ps_is_down = False, ps_is_pan_zoom_active = False,
                   ps_physical_x = pd_physical_x d, ps_physical_y = pd_physical_y d,
                   ps_pan_x = f64_zero, ps_pan_y = f64_zero,
                   ps_scale = None, ps_rotation = None, ps_buttons = None\<rparr>
      in (state, put_state (pd_device d) state c))"

definition UpdateDeltaAndState ::
  "PointerData \<Rightarrow> PointerState \<Rightarrow> PointerDataPacketConverter
   \<Rightarrow> PointerData \<times> PointerState \<times> PointerDataPacketConverter" where
  "UpdateDeltaAndState d state c =
     (let d' = d\<lparr>pd_physical_delta_x := f64_sub (pd_physical_x d) (ps_physical_x state),
                 pd_physical_delta_y := f64_sub (pd_physical_y d) (ps_physical_y state),
                 pd_pan_delta_x := f64_sub (pd_pan_x d) (ps_pan_x state),
                 pd_pan_delta_y := f64_sub (pd_pan_y d) (ps_pan_y state)\<rparr>;
          state' = state\<lparr>ps_physical_x := pd_physical_x d, ps_physical_y := pd_physical_y d,
                         ps_pan_x := pd_pan_x d, ps_pan_y := pd_pan_y d,
                         ps_scale := Some (pd_scale d), ps_rotation := Some (pd_rotation d)\<rparr>
      in (d', state', put_state (pd_device d) state' c))"

definition LocationNeedsUpdate :: "PointerData \<Rightarrow> PointerState \<Rightarrow> bool" where
  "LocationNeedsUpdate d state =
     (f64_ne (ps_physical_x state) (pd_physical_x d) \<or> f64_ne (ps_physical_y state) (pd_physical_y d))"

text \<open>\<open>++pointer_\<close> on an \<open>int64_t\<close>: incrementing the largest value is undefined behaviour.\<close>

definition UpdatePointerIdentifier ::
  "PointerData \<Rightarrow> PointerState \<Rightarrow> bool \<Rightarrow> PointerDataPacketConverter
   \<Rightarrow> (PointerData \<times> PointerState \<times> PointerDataPacketConverter) result" where
  "UpdatePointerIdentifier d state start_new_pointer c =
     (if start_new_pointer then
        require Undefined (pc_pointer c \<noteq> 0x7FFFFFFFFFFFFFFF)
          (let c' = c\<lparr>pc_pointer := pc_pointer c + 1\<rparr>;
               state' = state\<lparr>ps_pointer_identifier := pc_pointer c'\<rparr>
           in Inr (d\<lparr>pd_pointer_identifier := ps_pointer_identifier state'\<rparr>, state',
                   put_state (pd_device d) state' c'))
      else Inr (d\<lparr>pd_pointer_identifier := ps_pointer_identifier state\<rparr>, state, c))"

text \<open>
  The lookup with a synthesized add, and the motion event synthesized from \<open>event\<close> when the
  location of \<open>d\<close> differs from the recorded one: both recur in the cases below.
\<close>

definition find_or_add ::
  "PointerData \<Rightarrow> PointerDataPacketConverter
   \<Rightarrow> PointerData list \<times> PointerState \<times> PointerDataPacketConverter" where
  "find_or_add d c =
     (case pc_states c (pd_device d) of
        None \<Rightarrow>
          let synthesized_add_event =
                d\<lparr>pd_signal_kind := kNone, pd_change := kAdd, pd_synthesized := 1, pd_buttons := 0\<rparr>;
              (state, c') = EnsurePointerState synthesized_add_event c
          in ([synthesized_add_event], state, c')
      | Some state \<Rightarrow> ([], state, c))"

definition synthesize_motion ::
  "PointerData \<Rightarrow> PointerData \<Rightarrow> PointerState \<Rightarrow> PointerDataPacketConverter
   \<Rightarrow> PointerData list \<times> PointerState \<times> PointerDataPacketConverter" where
  "synthesize_motion event d state c =
     (if LocationNeedsUpdate d state
      then let (e, state', c') = UpdateDeltaAndState (event\<lparr>pd_synthesized := 1\<rparr>) state c
           in ([e], state', c')
      else ([], state, c))"

section \<open>The cases of a change\<close>

type_synonym conversion = "(PointerData list \<times> PointerDataPacketConverter) result"

definition convert_cancel :: "PointerData \<Rightarrow> PointerDataPacketConverter \<Rightarrow> conversion" where
  "convert_cancel d c =
     (case pc_states c (pd_device d) of
        None \<Rightarrow> Inr ([], c)
      | Some state \<Rightarrow>
          require DcheckFailed (ps_is_down state)
            (rbind (UpdatePointerIdentifier d state False c) (\<lambda>(d, state, c).
               let (moves, state, c) = synthesize_motion (d\<lparr>pd_change := kMove\<rparr>) d state c;
                   state = state\<lparr>ps_is_down := False\<rparr>
               in Inr (moves @ [d], put_state (pd_device d) state c))))"

definition convert_add :: "PointerData \<Rightarrow> PointerDataPacketConverter \<Rightarrow> conversion" where
  "convert_add d c =
     require DcheckFailed (pc_states c (pd_device d) = None)
       (let (state, c) = EnsurePointerState d c in Inr ([d], c))"

definition convert_remove :: "PointerData \<Rightarrow> PointerDataPacketConverter \<Rightarrow> conversion" where
  "convert_remove d c =
     rbind (existing_state (pd_device d) c) (\<lambda>state.
     rbind
       (if ps_is_down state then
          rbind (UpdatePointerIdentifier (d\<lparr>pd_change := kCancel, pd_synthesized := 1\<rparr>) state False c)
            (\<lambda>(cancel, state, c).
               let state = state\<lparr>ps_is_down := False\<rparr>
               in Inr ([cancel], state, put_state (pd_device cancel) state c))
        else Inr ([], state, c)) (\<lambda>(cancels, state, c).
     let (hovers, state, c) = synthesize_motion (d\<lparr>pd_change := kHover\<rparr>) d state c
     in Inr (cancels @ hovers @ [d], c\<lparr>pc_states := (pc_states c)(pd_device d := None)\<rparr>)))"

definition convert_hover :: "PointerData \<Rightarrow> PointerDataPacketConverter \<Rightarrow> conversion" where
  "convert_hover d c =
     (let (adds, state, c) = find_or_add d c
      in require DcheckFailed (\<not> ps_is_down state)
        (let state = state\<lparr>ps_buttons := Some (pd_buttons d)\<rparr>
         in if LocationNeedsUpdate d state
            then let (e, state, c) = UpdateDeltaAndState d state c in Inr (adds @ [e], c)
            else Inr (adds, c)))"

definition convert_down :: "PointerData \<Rightarrow> PointerDataPacketConverter \<Rightarrow> conversion" where
  "convert_down d c =
     (let (adds, state, c) = find_or_add d c
      in require DcheckFailed (\<not> ps_is_down state)
        (let (hovers, state, c) =
               synthesize_motion (d\<lparr>pd_change := kHover, pd_buttons := 0\<rparr>) d state c
         in rbind (UpdatePointerIdentifier d state True c) (\<lambda>(d, state, c).
              let state = state\<lparr>ps_is_down := True, ps_buttons := Some (pd_buttons d)\<rparr>
              in Inr (adds @ hovers @ [d], put_state (pd_device d) state c))))"

text \<open>
  The assignment to \<open>state.buttons\<close> after \<open>UpdateDeltaAndState\<close> changes only the local copy of
  the state, which is not stored again.
\<close>

definition convert_move :: "PointerData \<Rightarrow> PointerDataPacketConverter \<Rightarrow> conversion" where
  "convert_move d c =
     rbind (existing_state (pd_device d) c) (\<lambda>state.
     require DcheckFailed (ps_is_down state)
       (rbind (UpdatePointerIdentifier d state False c) (\<lambda>(d, state, c).
          let (e, state, c) = UpdateDeltaAndState d state c;
              state = state\<lparr>ps_buttons := Some (pd_buttons e)\<rparr>
          in Inr ([e], c))))"

definition convert_up :: "PointerData \<Rightarrow> PointerDataPacketConverter \<Rightarrow> conversion" where
  "convert_up d c =
     rbind (existing_state (pd_device d) c) (\<lambda>state.
     require DcheckFailed (ps_is_down state)
       (rbind (UpdatePointerIdentifier d state False c) (\<lambda>(d, state, c).
        rbind
          (if LocationNeedsUpdate d state then
             rbind (read_init (ps_buttons state)) (\<lambda>buttons.
               Inr (synthesize_motion (d\<lparr>pd_change := kMove, pd_buttons := buttons\<rparr>) d state c))
           else Inr ([], state, c)) (\<lambda>(moves, state, c).
          let state = state\<lparr>ps_is_down := False, ps_buttons := Some (pd_buttons d)\<rparr>
          in Inr (moves @ [d], put_state (pd_device d) state c)))))"

definition convert_pan_zoom_start :: "PointerData \<Rightarrow> PointerDataPacketConverter \<Rightarrow> conversion" where
  "convert_pan_zoom_start d c =
     (let (adds, state, c) = find_or_add d c
      in require DcheckFailed (\<not> ps_is_down state)
        (require DcheckFailed (\<not> ps_is_pan_zoom_active state)
          (let (hovers, state, c) =
                 synthesize_motion (d\<lparr>pd_change := kHover, pd_buttons := 0\<rparr>) d state c
           in rbind (UpdatePointerIdentifier d state True c) (\<lambda>(d, state, c).
                let state = state\<lparr>ps_is_pan_zoom_active := True, ps_pan_x := f64_zero,
                              ps_pan_y := f64_zero, ps_scale := Some f64_one,
                              ps_rotation := Some f64_zero\<rparr>
                in Inr (adds @ hovers @ [d], put_state (pd_device d) state c)))))"

definition convert_pan_zoom_update :: "PointerData \<Rightarrow> PointerDataPacketConverter \<Rightarrow> conversion" where
  "convert_pan_zoom_update d c =
     rbind (existing_state (pd_device d) c) (\<lambda>state.
     require DcheckFailed (\<not> ps_is_down state)
     (require DcheckFailed (ps_is_pan_zoom_active state)
       (rbind (UpdatePointerIdentifier d state False c) (\<lambda>(d, state, c).
          let (e, state, c) = UpdateDeltaAndState d state c in Inr ([e], c)))))"

definition convert_pan_zoom_end :: "PointerData \<Rightarrow> PointerDataPacketConverter \<Rightarrow> conversion" where
  "convert_pan_zoom_end d c =
     rbind (existing_state (pd_device d) c) (\<lambda>state.
     require DcheckFailed (ps_is_pan_zoom_active state)
       (rbind (UpdatePointerIdentifier d state False c) (\<lambda>(d, state, c).
        rbind
          (if LocationNeedsUpdate d state then
             rbind (read_init (ps_scale state)) (\<lambda>scale.
             rbind (read_init (ps_rotation state)) (\<lambda>rotation.
               Inr (synthesize_motion
                 (d\<lparr>pd_change := kPanZoomUpdate, pd_pan_x := ps_pan_x state,
                    pd_pan_y := ps_pan_y state, pd_pan_delta_x := f64_zero,
                    pd_pan_delta_y := f64_zero, pd_scale := scale, pd_rotation := rotation\<rparr>)
                 d state c)))
           else Inr ([], state, c)) (\<lambda>(updates, state, c).
          let state = state\<lparr>ps_is_pan_zoom_active := False\<rparr>
          in Inr (updates @ [d], put_state (pd_device d) state c)))))"

section \<open>Signals and the dispatch\<close>

definition convert_signal :: "PointerData \<Rightarrow> PointerDataPacketConverter \<Rightarrow> conversion" where
  "convert_signal d c =
     (let (adds, state, c) = find_or_add d c
      in rbind
        (if LocationNeedsUpdate d state then
           if ps_is_down state then
             rbind (read_init (ps_buttons state)) (\<lambda>buttons.
               Inr (synthesize_motion
                 (d\<lparr>pd_signal_kind := kNone, pd_change := kMove, pd_buttons := buttons\<rparr>) d state c))
           else
             Inr (synthesize_motion
               (d\<lparr>pd_signal_kind := kNone, pd_change := kHover, pd_buttons := 0\<rparr>) d state c)
         else Inr ([], state, c)) (\<lambda>(motions, state, c).
        Inr (adds @ motions @ [d], c)))"

fun ConvertPointerData :: "PointerData \<Rightarrow> PointerDataPacketConverter \<Rightarrow> conversion" where
  "ConvertPointerData d c =
     (case pd_signal_kind d of
        kNone \<Rightarrow>
          (case pd_change d of
             kCancel \<Rightarrow> convert_cancel d c
           | kAdd \<Rightarrow> convert_add d c
           | kRemove \<Rightarrow> convert_remove d c
           | kHover \<Rightarrow> convert_hover d c
           | kDown \<Rightarrow> convert_down d c
           | kMove \<Rightarrow> convert_move d c
           | kUp \<Rightarrow> convert_up d c
           | kPanZoomStart \<Rightarrow> convert_pan_zoom_start d c
           | kPanZoomUpdate \<Rightarrow> convert_pan_zoom_update d c
           | kPanZoomEnd \<Rightarrow> convert_pan_zoom_end d c
           | Change_other _ \<Rightarrow> Inr ([d], c))
      | SignalKind_other _ \<Rightarrow> Inr ([], c)
      | _ \<Rightarrow> convert_signal d c)"

declare ConvertPointerData.simps [simp del]

text \<open>The loop of \<open>Convert\<close> over the events of a packet, and the packet it builds.\<close>

fun convert_all :: "PointerData list \<Rightarrow> PointerDataPacketConverter \<Rightarrow> conversion" where
  "convert_all [] c = Inr ([], c)"
| "convert_all (d # ds) c =
     rbind (ConvertPointerData d c) (\<lambda>(out, c').
     rbind (convert_all ds c') (\<lambda>(outs, c''). Inr (out @ outs, c'')))"

fun read_all :: "nat list \<Rightarrow> PointerDataPacket \<Rightarrow> PointerData list result" where
  "read_all [] p = Inr []"
| "read_all (i # is) p =
     rbind (GetPointerData i p) (\<lambda>d. rbind (read_all is p) (\<lambda>ds. Inr (d # ds)))"

fun write_all :: "nat \<Rightarrow> PointerData list \<Rightarrow> PointerDataPacket \<Rightarrow> PointerDataPacket result" where
  "write_all i [] p = Inr p"
| "write_all i (d # ds) p = rbind (SetPointerData i d p) (write_all (Suc i) ds)"

definition Convert ::
  "PointerDataPacket \<Rightarrow> PointerDataPacketConverter
   \<Rightarrow> (PointerDataPacket \<times> PointerDataPacketConverter) result" where
  "Convert packet c =
     rbind (read_all [0..<GetLength packet] packet) (\<lambda>pointers.
     rbind (convert_all pointers c) (\<lambda>(converted, c').
     rbind (write_all 0 converted (PointerDataPacket_new (length converted))) (\<lambda>converted_packet.
     Inr (converted_packet, c'))))"

end
