(* ===== verification/Pointer_Converter_Spec.thy ===== *)
theory Pointer_Converter_Spec
  imports Pointer_Converter
begin

text \<open>
  What the framework may rely on: the stream of converted events is accepted, device by device,
  by the automaton \<open>accept1\<close>, which also fixes the deltas of motion events and the pointer
  identifiers.  The converter refines the automaton through \<open>abs_states\<close>.
\<close>

section \<open>The stream the framework expects\<close>

record SpecPointer =
  sp_down :: bool
  sp_pan_zoom :: bool
  sp_x :: f64
  sp_y :: f64
  sp_pan_x :: f64
  sp_pan_y :: f64
  sp_id :: u64

type_synonym spec_state = "u64 \<rightharpoonup> SpecPointer"

text \<open>An event without motion happens where the pointer is.\<close>

definition at_pointer :: "PointerData \<Rightarrow> SpecPointer \<Rightarrow> bool" where
  "at_pointer e s = (f64_same (sp_x s) (pd_physical_x e) \<and> f64_same (sp_y s) (pd_physical_y e))"

definition deltas_ok :: "PointerData \<Rightarrow> SpecPointer \<Rightarrow> bool" where
  "deltas_ok e s =
     (pd_physical_delta_x e = f64_sub (pd_physical_x e) (sp_x s) \<and>
      pd_physical_delta_y e = f64_sub (pd_physical_y e) (sp_y s) \<and>
      pd_pan_delta_x e = f64_sub (pd_pan_x e) (sp_pan_x s) \<and>
      pd_pan_delta_y e = f64_sub (pd_pan_y e) (sp_pan_y s))"

definition moved :: "PointerData \<Rightarrow> SpecPointer \<Rightarrow> SpecPointer" where
  "moved e s = s\<lparr>sp_x := pd_physical_x e, sp_y := pd_physical_y e,
                 sp_pan_x := pd_pan_x e, sp_pan_y := pd_pan_y e\<rparr>"

definition id_ok :: "bool \<Rightarrow> PointerData \<Rightarrow> SpecPointer \<Rightarrow> bool" where
  "id_ok strict e s = (strict \<longrightarrow> pd_pointer_identifier e = sp_id s)"

text \<open>
  One event, in a state that holds a pointer per added device.  With \<open>strict\<close> every event of a
  contact or of a pan/zoom gesture carries the identifier that its start was given.
\<close>

fun accept_change :: "bool \<Rightarrow> PointerData \<Rightarrow> SpecPointer option \<Rightarrow> SpecPointer option option" where
  "accept_change strict e None =
     (case pd_change e of
        kAdd \<Rightarrow> Some (Some \<lparr>sp_down = False, sp_pan_zoom = False, sp_x = pd_physical_x e,
                          sp_y = pd_physical_y e, sp_pan_x = f64_zero, sp_pan_y = f64_zero,
                          sp_id = 0\<rparr>)
      | Change_other _ \<Rightarrow> Some None
      | _ \<Rightarrow> None)"
| "accept_change strict e (Some s) =
     (case pd_change e of
        kAdd \<Rightarrow> None
      | kRemove \<Rightarrow> if \<not> sp_down s \<and> at_pointer e s then Some None else None
      | kHover \<Rightarrow> if \<not> sp_down s \<and> deltas_ok e s then Some (Some (moved e s)) else None
      | kDown \<Rightarrow>
          if \<not> sp_down s \<and> at_pointer e s
          then Some (Some (s\<lparr>sp_down := True, sp_id := pd_pointer_identifier e\<rparr>)) else None
      | kMove \<Rightarrow>
          if sp_down s \<and> deltas_ok e s \<and> id_ok strict e s then Some (Some (moved e s)) else None
      | kUp \<Rightarrow>
          if sp_down s \<and> at_pointer e s \<and> id_ok strict e s
          then Some (Some (s\<lparr>sp_down := False\<rparr>)) else None
      | kCancel \<Rightarrow>
          if sp_down s \<and> id_ok strict e s then Some (Some (s\<lparr>sp_down := False\<rparr>)) else None
      | kPanZoomStart \<Rightarrow>
          if \<not> sp_down s \<and> \<not> sp_pan_zoom s \<and> at_pointer e s
          then Some (Some (s\<lparr>sp_pan_zoom := True, sp_pan_x := f64_zero, sp_pan_y := f64_zero,
                             sp_id := pd_pointer_identifier e\<rparr>)) else None
      | kPanZoomUpdate \<Rightarrow>
          if sp_pan_zoom s \<and> deltas_ok e s \<and> id_ok strict e s
          then Some (Some (moved e s)) else None
      | kPanZoomEnd \<Rightarrow>
          if sp_pan_zoom s \<and> at_pointer e s \<and> id_ok strict e s
          then Some (Some (s\<lparr>sp_pan_zoom := False\<rparr>)) else None
      | Change_other _ \<Rightarrow> Some (Some s))"

definition accept1 :: "bool \<Rightarrow> PointerData \<Rightarrow> spec_state \<Rightarrow> spec_state option" where
  "accept1 strict e m =
     (if pd_signal_kind e = kNone
      then map_option (\<lambda>s. m(pd_device e := s)) (accept_change strict e (m (pd_device e)))
      else case m (pd_device e) of
             None \<Rightarrow> None
           | Some s \<Rightarrow> if at_pointer e s then Some m else None)"

fun accepts :: "bool \<Rightarrow> PointerData list \<Rightarrow> spec_state \<Rightarrow> spec_state option" where
  "accepts strict [] m = Some m"
| "accepts strict (e # es) m = Option.bind (accept1 strict e m) (accepts strict es)"

lemma accepts_append:
  "accepts strict (xs @ ys) m = Option.bind (accepts strict xs m) (accepts strict ys)"
  by (induction xs arbitrary: m) (simp_all split: Option.bind_split)

section \<open>Invariant and abstraction\<close>

definition state_inv :: "PointerState \<Rightarrow> bool" where
  "state_inv s =
     ((ps_is_down s \<longrightarrow> ps_buttons s \<noteq> None) \<and>
      (ps_is_pan_zoom_active s \<longrightarrow> ps_scale s \<noteq> None \<and> ps_rotation s \<noteq> None))"

definition conv_inv :: "PointerDataPacketConverter \<Rightarrow> bool" where
  "conv_inv c = (\<forall>s \<in> ran (pc_states c). state_inv s)"

definition abs1 :: "PointerState \<Rightarrow> SpecPointer" where
  "abs1 s = \<lparr>sp_down = ps_is_down s, sp_pan_zoom = ps_is_pan_zoom_active s,
             sp_x = ps_physical_x s, sp_y = ps_physical_y s,
             sp_pan_x = ps_pan_x s, sp_pan_y = ps_pan_y s, sp_id = ps_pointer_identifier s\<rparr>"

definition abs_states :: "PointerDataPacketConverter \<Rightarrow> spec_state" where
  "abs_states c = (\<lambda>dev. map_option abs1 (pc_states c dev))"

lemma conv_inv_new: "conv_inv PointerDataPacketConverter_new"
  by (simp add: conv_inv_def PointerDataPacketConverter_new_def)

lemma conv_inv_get: "conv_inv c \<Longrightarrow> pc_states c dev = Some s \<Longrightarrow> state_inv s"
  by (auto simp: conv_inv_def ran_def)

lemma conv_inv_put [simp]: "conv_inv c \<Longrightarrow> state_inv s \<Longrightarrow> conv_inv (put_state dev s c)"
  by (auto simp: conv_inv_def put_state_def ran_def)

lemma conv_inv_pointer [simp]: "conv_inv (c\<lparr>pc_pointer := n\<rparr>) = conv_inv c"
  by (simp add: conv_inv_def)

lemma conv_inv_erase [simp]: "conv_inv c \<Longrightarrow> conv_inv (c\<lparr>pc_states := (pc_states c)(dev := None)\<rparr>)"
  by (auto simp: conv_inv_def ran_def)

lemma abs_put [simp]: "abs_states (put_state dev s c) = (abs_states c)(dev \<mapsto> abs1 s)"
  by (auto simp: abs_states_def put_state_def)

lemma abs_pointer [simp]: "abs_states (c\<lparr>pc_pointer := n\<rparr>) = abs_states c"
  by (simp add: abs_states_def)

lemma abs_erase [simp]:
  "abs_states (c\<lparr>pc_states := (pc_states c)(dev := None)\<rparr>) = (abs_states c)(dev := None)"
  by (auto simp: abs_states_def)

lemma abs_at: "pc_states c dev = Some s \<Longrightarrow> abs_states c dev = Some (abs1 s)"
  by (simp add: abs_states_def)

lemma at_pointer_abs1: "\<not> LocationNeedsUpdate d s \<Longrightarrow> at_pointer d (abs1 s)"
  by (simp add: LocationNeedsUpdate_def at_pointer_def abs1_def f64_same_if_not_ne)

section \<open>The shared steps of the cases\<close>

text \<open>\<open>synced\<close>: the local state \<open>s\<close> of a case is the one recorded for the device.\<close>

definition synced :: "u64 \<Rightarrow> PointerState \<Rightarrow> PointerDataPacketConverter \<Rightarrow> bool" where
  "synced dev s c = (pc_states c dev = Some s \<and> conv_inv c)"

lemma synced_facts:
  assumes "synced dev s c"
  shows "abs_states c dev = Some (abs1 s)" "state_inv s" "conv_inv c"
  using assms by (auto simp: synced_def abs_at conv_inv_get)

lemma synced_put [simp]: "conv_inv c \<Longrightarrow> state_inv s \<Longrightarrow> synced dev s (put_state dev s c)"
  by (simp add: synced_def) (simp add: put_state_def)

lemma pc_pointer_put [simp]: "pc_pointer (put_state dev s c) = pc_pointer c"
  by (simp add: put_state_def)

lemma existing_state_synced:
  "conv_inv c \<Longrightarrow> existing_state dev c = Inr s \<Longrightarrow> synced dev s c"
  by (simp add: existing_state_def synced_def split: option.splits)

lemma find_or_add_sim:
  assumes "conv_inv c" and "find_or_add d c = (adds, s, c')"
  shows "accepts strict adds (abs_states c) = Some (abs_states c') \<and> synced (pd_device d) s c' \<and>
    pc_pointer c' = pc_pointer c"
proof (cases "pc_states c (pd_device d)")
  case None
  then have "abs_states c (pd_device d) = None" by (simp add: abs_states_def)
  with None assms show ?thesis
    by (auto simp: find_or_add_def EnsurePointerState_def Let_def accept1_def state_inv_def abs1_def)
next
  case (Some t)
  with assms show ?thesis by (simp add: find_or_add_def synced_def)
qed

text \<open>When a motion event may be emitted for a pointer in state \<open>s\<close>.\<close>

definition motion_ok :: "bool \<Rightarrow> PointerData \<Rightarrow> PointerState \<Rightarrow> bool" where
  "motion_ok strict e s =
     (pd_signal_kind e = kNone \<and>
      (pd_change e = kHover \<and> \<not> ps_is_down s \<or>
       (pd_change e = kMove \<and> ps_is_down s \<or> pd_change e = kPanZoomUpdate \<and> ps_is_pan_zoom_active s) \<and>
       (strict \<longrightarrow> pd_pointer_identifier e = ps_pointer_identifier s)))"

definition moved_state :: "PointerData \<Rightarrow> PointerState \<Rightarrow> PointerState" where
  "moved_state e s =
     s\<lparr>ps_physical_x := pd_physical_x e, ps_physical_y := pd_physical_y e,
       ps_pan_x := pd_pan_x e, ps_pan_y := pd_pan_y e,
       ps_scale := Some (pd_scale e), ps_rotation := Some (pd_rotation e)\<rparr>"

lemma abs1_moved_state [simp]: "abs1 (moved_state e s) = moved e (abs1 s)"
  by (simp add: abs1_def moved_state_def moved_def)

lemma state_inv_moved [simp]: "state_inv s \<Longrightarrow> state_inv (moved_state e s)"
  by (simp add: state_inv_def moved_state_def)

lemma moved_state_flags [simp]:
  "ps_is_down (moved_state e s) = ps_is_down s"
  "ps_is_pan_zoom_active (moved_state e s) = ps_is_pan_zoom_active s"
  "ps_pointer_identifier (moved_state e s) = ps_pointer_identifier s"
  "ps_buttons (moved_state e s) = ps_buttons s"
  by (simp_all add: moved_state_def)

lemma UpdateDeltaAndState_sim:
  assumes "abs_states c (pd_device e) = Some (abs1 s)" and "motion_ok strict e s"
    and "UpdateDeltaAndState e s c = (e', s', c')"
  shows "accept1 strict e' (abs_states c) = Some (abs_states c') \<and> s' = moved_state e s \<and>
    c' = put_state (pd_device e) s' c"
proof -
  have e': "pd_device e' = pd_device e" "pd_signal_kind e' = pd_signal_kind e"
      "pd_change e' = pd_change e" "pd_pointer_identifier e' = pd_pointer_identifier e"
      "moved e' = moved e" "deltas_ok e' (abs1 s)"
    and c': "s' = moved_state e s" "c' = put_state (pd_device e) s' c"
    using assms(3)
    by (auto simp: UpdateDeltaAndState_def Let_def moved_state_def moved_def deltas_ok_def abs1_def
        fun_eq_iff)
  have flags: "sp_down (abs1 s) = ps_is_down s" "sp_pan_zoom (abs1 s) = ps_is_pan_zoom_active s"
      "sp_id (abs1 s) = ps_pointer_identifier s"
    by (simp_all add: abs1_def)
  from assms(1,2) show ?thesis
    by (auto simp: accept1_def motion_ok_def id_ok_def e' c' flags)
qed

lemma at_pointer_moved: "at_pointer d (moved d s)"
  by (simp add: at_pointer_def moved_def)

lemma at_pointer_cong:
  "pd_physical_x e = pd_physical_x d \<Longrightarrow> pd_physical_y e = pd_physical_y d \<Longrightarrow>
    at_pointer e s = at_pointer d s"
  by (simp add: at_pointer_def)

lemma synthesize_motion_sim:
  assumes "synced (pd_device d) s c" and "synthesize_motion e d s c = (es, s', c')"
    and "LocationNeedsUpdate d s \<Longrightarrow> motion_ok strict e s"
    and "pd_device e = pd_device d" "pd_physical_x e = pd_physical_x d" "pd_physical_y e = pd_physical_y d"
  shows "accepts strict es (abs_states c) = Some (abs_states c') \<and> synced (pd_device d) s' c' \<and>
    at_pointer d (abs1 s') \<and> (s' = s \<or> s' = moved_state e s) \<and> pc_pointer c' = pc_pointer c"
proof (cases "LocationNeedsUpdate d s")
  case True
  let ?e = "e\<lparr>pd_synthesized := 1\<rparr>"
  obtain e' s2 c2 where upd: "UpdateDeltaAndState ?e s c = (e', s2, c2)"
    by (metis prod_cases3)
  have "abs_states c (pd_device ?e) = Some (abs1 s)" "motion_ok strict ?e s"
    using assms True synced_facts [OF assms(1)] by (auto simp: motion_ok_def)
  from UpdateDeltaAndState_sim [OF this upd]
  have step: "accept1 strict e' (abs_states c) = Some (abs_states c2)"
    and s2: "s2 = moved_state e s" and c2: "c2 = put_state (pd_device d) s2 c"
    using assms(4) by (simp_all add: moved_state_def)
  have "at_pointer d (abs1 s2)"
    using assms(5,6) by (simp add: s2 at_pointer_def moved_def)
  moreover have "synced (pd_device d) s2 c2"
    using synced_facts [OF assms(1)] by (simp add: c2 s2)
  moreover have "es = [e']" "s' = s2" "c' = c2"
    using assms(2) True upd by (simp_all add: synthesize_motion_def)
  ultimately show ?thesis using step s2 by (simp add: c2)
next
  case False
  with assms show ?thesis by (simp add: synthesize_motion_def at_pointer_abs1)
qed

section \<open>Simulation\<close>

definition sim :: "bool \<Rightarrow> PointerDataPacketConverter \<Rightarrow> PointerData list \<Rightarrow> PointerDataPacketConverter \<Rightarrow> bool" where
  "sim strict c out c' =
     (accepts strict out (abs_states c) = Some (abs_states c') \<and> conv_inv c')"

lemma sim_Nil: "conv_inv c \<Longrightarrow> sim strict c [] c"
  by (simp add: sim_def)

lemma sim_trans: "sim strict c xs c1 \<Longrightarrow> sim strict c1 ys c' \<Longrightarrow> sim strict c (xs @ ys) c'"
  by (simp add: sim_def accepts_append)

text \<open>The last event of a case: it leaves the device in state \<open>s'\<close>.\<close>

lemma sim_last:
  assumes "synced (pd_device d) s c" and "pd_signal_kind d = kNone" and "state_inv s'"
    and "accept_change strict d (Some (abs1 s)) = Some (Some (abs1 s'))"
  shows "sim strict c [d] (put_state (pd_device d) s' c)"
  using assms synced_facts [OF assms(1)] by (simp add: sim_def accept1_def)

lemma sim_motion:
  assumes "synced (pd_device e) s c" and "motion_ok strict e s"
    and "UpdateDeltaAndState e s c = (e', s', c')"
  shows "sim strict c [e'] c'"
  using UpdateDeltaAndState_sim [OF synced_facts(1) [OF assms(1)] assms(2,3)] synced_facts [OF assms(1)]
  by (simp add: sim_def)

lemma synthesize_motion_idle [simp]:
  "\<not> LocationNeedsUpdate d s \<Longrightarrow> synthesize_motion e d s c = ([], s, c)"
  by (simp add: synthesize_motion_def)

lemma sim_synthesize:
  assumes "synced (pd_device d) s c" and "synthesize_motion e d s c = (es, s', c')"
    and "LocationNeedsUpdate d s \<Longrightarrow> motion_ok strict e s"
    and "pd_device e = pd_device d" "pd_physical_x e = pd_physical_x d" "pd_physical_y e = pd_physical_y d"
  shows "sim strict c es c'" "synced (pd_device d) s' c'" "at_pointer d (abs1 s')"
    "s' = s \<or> s' = moved_state e s"
  using synthesize_motion_sim [OF assms] by (auto simp: sim_def synced_def)

lemma abs1_simps [simp]:
  "sp_down (abs1 s) = ps_is_down s" "sp_pan_zoom (abs1 s) = ps_is_pan_zoom_active s"
  "sp_id (abs1 s) = ps_pointer_identifier s"
  "abs1 (s\<lparr>ps_is_down := b\<rparr>) = (abs1 s)\<lparr>sp_down := b\<rparr>"
  "abs1 (s\<lparr>ps_is_pan_zoom_active := b\<rparr>) = (abs1 s)\<lparr>sp_pan_zoom := b\<rparr>"
  "abs1 (s\<lparr>ps_pointer_identifier := i\<rparr>) = (abs1 s)\<lparr>sp_id := i\<rparr>"
  "abs1 (s\<lparr>ps_pan_x := x\<rparr>) = (abs1 s)\<lparr>sp_pan_x := x\<rparr>"
  "abs1 (s\<lparr>ps_pan_y := y\<rparr>) = (abs1 s)\<lparr>sp_pan_y := y\<rparr>"
  "abs1 (s\<lparr>ps_scale := v\<rparr>) = abs1 s" "abs1 (s\<lparr>ps_rotation := v\<rparr>) = abs1 s"
  "abs1 (s\<lparr>ps_buttons := w\<rparr>) = abs1 s"
  by (simp_all add: abs1_def)

lemma at_pointer_update [simp]:
  "at_pointer (d\<lparr>pd_pointer_identifier := i\<rparr>) s = at_pointer d s"
  "at_pointer d (s\<lparr>sp_id := i\<rparr>) = at_pointer d s"
  by (simp_all add: at_pointer_def)

lemma LocationNeedsUpdate_id [simp]:
  "LocationNeedsUpdate (d\<lparr>pd_pointer_identifier := i\<rparr>) s = LocationNeedsUpdate d s"
  "LocationNeedsUpdate d (s\<lparr>ps_buttons := w\<rparr>) = LocationNeedsUpdate d s"
  by (simp_all add: LocationNeedsUpdate_def)

lemma UpdatePointerIdentifier_keep [simp]:
  "UpdatePointerIdentifier d s False c =
     Inr (d\<lparr>pd_pointer_identifier := ps_pointer_identifier s\<rparr>, s, c)"
  by (simp add: UpdatePointerIdentifier_def)

lemma sim_cancel:
  assumes c: "conv_inv c" and d: "pd_signal_kind d = kNone" "pd_change d = kCancel"
    and conv: "convert_cancel d c = Inr (out, c')"
  shows "sim strict c out c'"
proof (cases "pc_states c (pd_device d)")
  case None
  with c conv show ?thesis by (simp add: convert_cancel_def sim_Nil)
next
  case (Some s)
  let ?d = "d\<lparr>pd_pointer_identifier := ps_pointer_identifier s\<rparr>"
  obtain es s1 c1 where syn: "synthesize_motion (?d\<lparr>pd_change := kMove\<rparr>) ?d s c = (es, s1, c1)"
    by (metis prod_cases3)
  from Some conv syn have down: "ps_is_down s"
    and out: "out = es @ [?d]" "c' = put_state (pd_device ?d) (s1\<lparr>ps_is_down := False\<rparr>) c1"
    by (auto simp: convert_cancel_def)
  from Some c have sync: "synced (pd_device ?d) s c" by (simp add: synced_def)
  have es: "sim strict c es c1" "synced (pd_device ?d) s1 c1"
      "s1 = s \<or> s1 = moved_state (?d\<lparr>pd_change := kMove\<rparr>) s"
    using sim_synthesize [OF sync syn] d down by (simp_all add: motion_ok_def)
  then have "ps_is_down s1" "ps_pointer_identifier s1 = ps_pointer_identifier s" "state_inv s1"
    using down synced_facts [OF es(2)] by auto
  then have "sim strict c1 [?d] c'"
    unfolding out using d by (intro sim_last [OF es(2)]) (simp_all add: id_ok_def state_inv_def)
  then show ?thesis unfolding out using es(1) by (rule sim_trans [rotated])
qed

lemma sim_add:
  assumes c: "conv_inv c" and d: "pd_signal_kind d = kNone" "pd_change d = kAdd"
    and conv: "convert_add d c = Inr (out, c')"
  shows "sim strict c out c'"
proof -
  from conv have "pc_states c (pd_device d) = None" by (auto simp: convert_add_def)
  then have "abs_states c (pd_device d) = None" by (simp add: abs_states_def)
  with c d conv show ?thesis
    by (auto simp: convert_add_def EnsurePointerState_def Let_def sim_def accept1_def abs1_def
        state_inv_def)
qed

lemma sim_remove_last:
  assumes "synced (pd_device d) s c" and "pd_signal_kind d = kNone" "pd_change d = kRemove"
    and "\<not> ps_is_down s" and "at_pointer d (abs1 s)"
  shows "sim strict c [d] (c\<lparr>pc_states := (pc_states c)(pd_device d := None)\<rparr>)"
  using assms synced_facts [OF assms(1)] by (simp add: sim_def accept1_def)

lemma sim_remove:
  assumes c: "conv_inv c" and d: "pd_signal_kind d = kNone" "pd_change d = kRemove"
    and conv: "convert_remove d c = Inr (out, c')"
  shows "sim strict c out c'"
proof -
  from conv obtain s where ex: "existing_state (pd_device d) c = Inr s"
    by (auto simp: convert_remove_def)
  from existing_state_synced [OF c ex] have sync: "synced (pd_device d) s c" .
  let ?d = "d\<lparr>pd_change := kCancel, pd_synthesized := 1, pd_pointer_identifier := ps_pointer_identifier s\<rparr>"
  let ?s = "s\<lparr>ps_is_down := False\<rparr>"
  obtain cancels s1 c1 where first:
      "(cancels, s1, c1) = (if ps_is_down s then ([?d], ?s, put_state (pd_device d) ?s c) else ([], s, c))"
    by (metis prod_cases3)
  obtain es s2 c2 where syn: "synthesize_motion (d\<lparr>pd_change := kHover\<rparr>) d s1 c1 = (es, s2, c2)"
    by (metis prod_cases3)
  from conv ex first syn have out: "out = cancels @ es @ [d]"
      "c' = c2\<lparr>pc_states := (pc_states c2)(pd_device d := None)\<rparr>"
    by (auto simp: convert_remove_def Let_def split: if_splits)
  have "state_inv ?s" using synced_facts [OF sync] by (simp add: state_inv_def)
  then have one: "sim strict c cancels c1 \<and> synced (pd_device d) s1 c1 \<and> \<not> ps_is_down s1"
    using first sync sim_last [of ?d s c ?s strict] d synced_facts [OF sync]
    by (auto simp: id_ok_def sim_Nil split: if_splits)
  then have es: "sim strict c1 es c2" "synced (pd_device d) s2 c2" "at_pointer d (abs1 s2)"
      "s2 = s1 \<or> s2 = moved_state (d\<lparr>pd_change := kHover\<rparr>) s1"
    using sim_synthesize [OF _ syn, of strict] d by (simp_all add: motion_ok_def)
  with one have "\<not> ps_is_down s2" by auto
  with es d have "sim strict c2 [d] c'" unfolding out by (intro sim_remove_last) auto
  with one es show ?thesis unfolding out by (metis sim_trans)
qed

lemma sim_find_or_add:
  assumes "conv_inv c" and "find_or_add d c = (adds, s, c')"
  shows "sim strict c adds c'" "synced (pd_device d) s c'"
  using find_or_add_sim [OF assms] by (auto simp: sim_def synced_def)

lemma sim_hover:
  assumes c: "conv_inv c" and d: "pd_signal_kind d = kNone" "pd_change d = kHover"
    and conv: "convert_hover d c = Inr (out, c')"
  shows "sim strict c out c'"
proof -
  obtain adds s c1 where add: "find_or_add d c = (adds, s, c1)" by (metis prod_cases3)
  note pre = sim_find_or_add [OF c add]
  let ?s = "s\<lparr>ps_buttons := Some (pd_buttons d)\<rparr>"
  from conv add have up: "\<not> ps_is_down s" by (auto simp: convert_hover_def)
  show ?thesis
  proof (cases "LocationNeedsUpdate d s")
    case True
    obtain e s2 c2 where upd: "UpdateDeltaAndState d ?s c1 = (e, s2, c2)" by (metis prod_cases3)
    have "motion_ok strict d ?s" using d up by (simp add: motion_ok_def)
    from UpdateDeltaAndState_sim [OF _ this upd] synced_facts [OF pre(2)]
    have "accept1 strict e (abs_states c1) = Some (abs_states c2)" "s2 = moved_state d ?s"
        "c2 = put_state (pd_device d) s2 c1"
      by simp_all
    moreover have "state_inv ?s" using synced_facts [OF pre(2)] up by (simp add: state_inv_def)
    ultimately have "sim strict c1 [e] c2" using synced_facts [OF pre(2)] by (simp add: sim_def)
    moreover have "out = adds @ [e]" "c' = c2"
      using conv add True upd up by (auto simp: convert_hover_def)
    ultimately show ?thesis using pre(1) by (metis sim_trans)
  next
    case False
    with conv add up pre show ?thesis by (auto simp: convert_hover_def)
  qed
qed

text \<open>A new pointer identifier, stored with the state.\<close>

lemma UpdatePointerIdentifier_new:
  assumes "UpdatePointerIdentifier d s True c = Inr (d', s', c')"
  shows "pc_pointer c \<noteq> 0x7FFFFFFFFFFFFFFF"
    "d' = d\<lparr>pd_pointer_identifier := pc_pointer c + 1\<rparr>"
    "s' = s\<lparr>ps_pointer_identifier := pc_pointer c + 1\<rparr>"
    "c' = put_state (pd_device d) s' (c\<lparr>pc_pointer := pc_pointer c + 1\<rparr>)"
  using assms by (auto simp: UpdatePointerIdentifier_def Let_def)

text \<open>The end of the two cases that start a contact: \<open>f\<close> changes the local state.\<close>

lemma sim_start:
  assumes sync: "synced (pd_device d) s c" and d: "pd_signal_kind d = kNone"
    and upd: "UpdatePointerIdentifier d s True c = Inr (d', s', c')" and inv: "state_inv (f s')"
    and ok: "accept_change strict d' (Some (abs1 s)) = Some (Some (abs1 (f s')))"
  shows "sim strict c [d'] (put_state (pd_device d') (f s') c')"
proof -
  note new = UpdatePointerIdentifier_new [OF upd]
  have "put_state (pd_device d') (f s') c' =
      put_state (pd_device d) (f s') (c\<lparr>pc_pointer := pc_pointer c + 1\<rparr>)"
    by (simp add: new put_state_def)
  then show ?thesis
    using ok inv d synced_facts [OF sync] by (simp add: sim_def accept1_def new(2))
qed

lemma sim_down:
  assumes c: "conv_inv c" and d: "pd_signal_kind d = kNone" "pd_change d = kDown"
    and conv: "convert_down d c = Inr (out, c')"
  shows "sim strict c out c'"
proof -
  obtain adds s c1 where add: "find_or_add d c = (adds, s, c1)" by (metis prod_cases3)
  note pre = sim_find_or_add [OF c add]
  let ?e = "d\<lparr>pd_change := kHover, pd_buttons := 0\<rparr>"
  obtain es s2 c2 where syn: "synthesize_motion ?e d s c1 = (es, s2, c2)" by (metis prod_cases3)
  from conv add have up: "\<not> ps_is_down s" by (auto simp: convert_down_def)
  have es: "sim strict c1 es c2" "synced (pd_device d) s2 c2" "at_pointer d (abs1 s2)"
      "s2 = s \<or> s2 = moved_state ?e s"
    using sim_synthesize [OF pre(2) syn] d up by (simp_all add: motion_ok_def)
  from conv add syn up obtain d' s3 c3 where upd: "UpdatePointerIdentifier d s2 True c2 = Inr (d', s3, c3)"
    and out: "out = adds @ es @ [d']"
      "c' = put_state (pd_device d') (s3\<lparr>ps_is_down := True, ps_buttons := Some (pd_buttons d')\<rparr>) c3"
    by (auto simp: convert_down_def)
  note new = UpdatePointerIdentifier_new [OF upd]
  have "\<not> ps_is_down s2" "state_inv s2" using es up synced_facts [OF es(2)] by auto
  then have "sim strict c2 [d'] c'"
    unfolding out using d es(3)
    by (intro sim_start [OF es(2) d(1) upd]) (simp_all add: new state_inv_def)
  with pre(1) es(1) show ?thesis unfolding out by (metis sim_trans)
qed

lemma sim_pan_zoom_start:
  assumes c: "conv_inv c" and d: "pd_signal_kind d = kNone" "pd_change d = kPanZoomStart"
    and conv: "convert_pan_zoom_start d c = Inr (out, c')"
  shows "sim strict c out c'"
proof -
  obtain adds s c1 where add: "find_or_add d c = (adds, s, c1)" by (metis prod_cases3)
  note pre = sim_find_or_add [OF c add]
  let ?e = "d\<lparr>pd_change := kHover, pd_buttons := 0\<rparr>"
  obtain es s2 c2 where syn: "synthesize_motion ?e d s c1 = (es, s2, c2)" by (metis prod_cases3)
  from conv add have up: "\<not> ps_is_down s" "\<not> ps_is_pan_zoom_active s"
    by (auto simp: convert_pan_zoom_start_def)
  have es: "sim strict c1 es c2" "synced (pd_device d) s2 c2" "at_pointer d (abs1 s2)"
      "s2 = s \<or> s2 = moved_state ?e s"
    using sim_synthesize [OF pre(2) syn] d up by (simp_all add: motion_ok_def)
  define f where "f s = s\<lparr>ps_is_pan_zoom_active := True, ps_pan_x := f64_zero,
      ps_pan_y := f64_zero, ps_scale := Some f64_one, ps_rotation := Some f64_zero\<rparr>" for s :: PointerState
  from conv add syn up obtain d' s3 c3 where upd: "UpdatePointerIdentifier d s2 True c2 = Inr (d', s3, c3)"
    and out: "out = adds @ es @ [d']" "c' = put_state (pd_device d') (f s3) c3"
    by (auto simp: convert_pan_zoom_start_def f_def)
  note new = UpdatePointerIdentifier_new [OF upd]
  have "\<not> ps_is_down s2" "\<not> ps_is_pan_zoom_active s2" "state_inv s2"
    using es up synced_facts [OF es(2)] by auto
  then have "sim strict c2 [d'] c'"
    unfolding out using d es(3)
    by (intro sim_start [OF es(2) d(1) upd]) (simp_all add: new state_inv_def f_def)
  with pre(1) es(1) show ?thesis unfolding out by (metis sim_trans)
qed

lemma sim_move:
  assumes c: "conv_inv c" and d: "pd_signal_kind d = kNone" "pd_change d = kMove"
    and conv: "convert_move d c = Inr (out, c')"
  shows "sim strict c out c'"
proof -
  from conv obtain s where ex: "existing_state (pd_device d) c = Inr s" and down: "ps_is_down s"
    by (auto simp: convert_move_def)
  let ?d = "d\<lparr>pd_pointer_identifier := ps_pointer_identifier s\<rparr>"
  obtain e s2 c2 where upd: "UpdateDeltaAndState ?d s c = (e, s2, c2)" by (metis prod_cases3)
  from existing_state_synced [OF c ex] have "synced (pd_device ?d) s c" by simp
  moreover have "motion_ok strict ?d s" using d down by (simp add: motion_ok_def)
  moreover have "out = [e]" "c' = c2" using conv ex down upd by (auto simp: convert_move_def)
  ultimately show ?thesis using sim_motion upd by blast
qed

lemma sim_pan_zoom_update:
  assumes c: "conv_inv c" and d: "pd_signal_kind d = kNone" "pd_change d = kPanZoomUpdate"
    and conv: "convert_pan_zoom_update d c = Inr (out, c')"
  shows "sim strict c out c'"
proof -
  from conv obtain s where ex: "existing_state (pd_device d) c = Inr s"
    and pz: "\<not> ps_is_down s" "ps_is_pan_zoom_active s"
    by (auto simp: convert_pan_zoom_update_def)
  let ?d = "d\<lparr>pd_pointer_identifier := ps_pointer_identifier s\<rparr>"
  obtain e s2 c2 where upd: "UpdateDeltaAndState ?d s c = (e, s2, c2)" by (metis prod_cases3)
  from existing_state_synced [OF c ex] have "synced (pd_device ?d) s c" by simp
  moreover have "motion_ok strict ?d s" using d pz by (simp add: motion_ok_def)
  moreover have "out = [e]" "c' = c2"
    using conv ex pz upd by (auto simp: convert_pan_zoom_update_def)
  ultimately show ?thesis using sim_motion upd by blast
qed

text \<open>
  The two cases that end a contact: after the synthesized motion, the event \<open>d\<close> with the
  identifier of the contact is last.
\<close>

lemma read_init_Inr [simp]: "read_init v = Inr x \<longleftrightarrow> v = Some x"
  by (simp add: read_init_def split: option.splits)

lemma read_init_Some [simp]: "read_init (Some x) = Inr x"
  by simp

lemma sim_end:
  assumes sync: "synced (pd_device d) s c" and d: "pd_signal_kind d = kNone"
    and id: "pd_pointer_identifier d = ps_pointer_identifier s"
    and syn: "synthesize_motion e d s c = (es, s1, c1)"
    and mot: "LocationNeedsUpdate d s \<Longrightarrow> motion_ok strict e s"
    and e: "pd_device e = pd_device d" "pd_physical_x e = pd_physical_x d" "pd_physical_y e = pd_physical_y d"
    and fin: "pd_change d = kUp \<and> ps_is_down s \<and> f = (\<lambda>s. s\<lparr>ps_is_down := False, ps_buttons := w\<rparr>) \<or>
      pd_change d = kPanZoomEnd \<and> ps_is_pan_zoom_active s \<and> f = (\<lambda>s. s\<lparr>ps_is_pan_zoom_active := False\<rparr>)"
  shows "sim strict c (es @ [d]) (put_state (pd_device d) (f s1) c1)"
proof -
  note es = sim_synthesize [OF sync syn mot e]
  have "ps_is_down s1 = ps_is_down s" "ps_is_pan_zoom_active s1 = ps_is_pan_zoom_active s"
      "ps_pointer_identifier s1 = ps_pointer_identifier s" "state_inv s1"
    using es(4) synced_facts [OF es(2)] by auto
  with fin es(3) id d have "sim strict c1 [d] (put_state (pd_device d) (f s1) c1)"
    by (intro sim_last [OF es(2)]) (auto simp: id_ok_def state_inv_def)
  with es(1) show ?thesis by (rule sim_trans)
qed

lemma sim_up:
  assumes c: "conv_inv c" and d: "pd_signal_kind d = kNone" "pd_change d = kUp"
    and conv: "convert_up d c = Inr (out, c')"
  shows "sim strict c out c'"
proof -
  from conv obtain s where ex: "existing_state (pd_device d) c = Inr s" and down: "ps_is_down s"
    by (auto simp: convert_up_def)
  let ?d = "d\<lparr>pd_pointer_identifier := ps_pointer_identifier s\<rparr>"
  from existing_state_synced [OF c ex] have sync: "synced (pd_device ?d) s c" by simp
  from synced_facts(2) [OF sync] down obtain w where w: "ps_buttons s = Some w"
    by (auto simp: state_inv_def)
  let ?e = "?d\<lparr>pd_change := kMove, pd_buttons := w\<rparr>"
  let ?f = "\<lambda>s. s\<lparr>ps_is_down := False, ps_buttons := Some (pd_buttons d)\<rparr>"
  obtain es s1 c1 where syn: "synthesize_motion ?e ?d s c = (es, s1, c1)" by (metis prod_cases3)
  have "(if LocationNeedsUpdate d s then synthesize_motion ?e ?d s c else ([], s, c)) = (es, s1, c1)"
    using syn by auto
  then have out: "out = es @ [?d]" "c' = put_state (pd_device ?d) (?f s1) c1"
    using conv ex down w by (auto simp: convert_up_def split: if_splits)
  show ?thesis
    unfolding out using d down by (intro sim_end [OF sync _ _ syn]) (auto simp: motion_ok_def)
qed

lemma sim_pan_zoom_end:
  assumes c: "conv_inv c" and d: "pd_signal_kind d = kNone" "pd_change d = kPanZoomEnd"
    and conv: "convert_pan_zoom_end d c = Inr (out, c')"
  shows "sim strict c out c'"
proof -
  from conv obtain s where ex: "existing_state (pd_device d) c = Inr s" and pz: "ps_is_pan_zoom_active s"
    by (auto simp: convert_pan_zoom_end_def)
  let ?d = "d\<lparr>pd_pointer_identifier := ps_pointer_identifier s\<rparr>"
  from existing_state_synced [OF c ex] have sync: "synced (pd_device ?d) s c" by simp
  from synced_facts(2) [OF sync] pz obtain v w where w: "ps_scale s = Some v" "ps_rotation s = Some w"
    by (auto simp: state_inv_def)
  let ?e = "?d\<lparr>pd_change := kPanZoomUpdate, pd_pan_x := ps_pan_x s, pd_pan_y := ps_pan_y s,
      pd_pan_delta_x := f64_zero, pd_pan_delta_y := f64_zero, pd_scale := v, pd_rotation := w\<rparr>"
  let ?f = "\<lambda>s. s\<lparr>ps_is_pan_zoom_active := False\<rparr>"
  obtain es s1 c1 where syn: "synthesize_motion ?e ?d s c = (es, s1, c1)" by (metis prod_cases3)
  have "(if LocationNeedsUpdate d s then synthesize_motion ?e ?d s c else ([], s, c)) = (es, s1, c1)"
    using syn by auto
  then have out: "out = es @ [?d]" "c' = put_state (pd_device ?d) (?f s1) c1"
    using conv ex pz w by (auto simp: convert_pan_zoom_end_def split: if_splits)
  show ?thesis
    unfolding out using d pz by (intro sim_end [OF sync _ _ syn]) (auto simp: motion_ok_def)
qed

lemma sim_signal:
  assumes c: "conv_inv c" and d: "pd_signal_kind d \<noteq> kNone"
    and conv: "convert_signal d c = Inr (out, c')"
  shows "sim False c out c'"
proof -
  obtain adds s c1 where add: "find_or_add d c = (adds, s, c1)" by (metis prod_cases3)
  note pre = sim_find_or_add [OF c add]
  define e where "e =
    (if ps_is_down s
     then d\<lparr>pd_signal_kind := kNone, pd_change := kMove, pd_buttons := the (ps_buttons s)\<rparr>
     else d\<lparr>pd_signal_kind := kNone, pd_change := kHover, pd_buttons := 0\<rparr>)"
  obtain es s2 c2 where syn: "synthesize_motion e d s c1 = (es, s2, c2)" by (metis prod_cases3)
  have "rbind (Inr (es, s2, c2)) (\<lambda>(motions, state, c). Inr (adds @ motions @ [d], c)) = Inr (out, c')"
  proof (cases "LocationNeedsUpdate d s \<and> ps_is_down s")
    case True
    with conv add obtain w where "ps_buttons s = Some w" by (auto simp: convert_signal_def)
    with True conv add syn show ?thesis by (simp add: convert_signal_def e_def)
  next
    case False
    with conv add syn show ?thesis by (auto simp: convert_signal_def e_def split: if_splits)
  qed
  then have out: "out = adds @ es @ [d]" "c' = c2" by simp_all
  have "pd_device e = pd_device d" "pd_physical_x e = pd_physical_x d"
      "pd_physical_y e = pd_physical_y d" "motion_ok False e s"
    by (simp_all add: e_def motion_ok_def)
  note es = sim_synthesize [OF pre(2) syn this(4) this(1-3)]
  have "sim False c2 [d] c2"
    using d es(3) synced_facts [OF es(2)] by (simp add: sim_def accept1_def)
  with pre(1) es(1) show ?thesis unfolding out by (metis sim_trans)
qed

lemma sim_other:
  assumes "conv_inv c" and "pd_signal_kind d = kNone" and "pd_change d = Change_other w"
  shows "sim strict c [d] c"
  using assms
  by (cases "abs_states c (pd_device d)") (auto simp: sim_def accept1_def fun_upd_idem_iff)

lemma sim_convert1:
  assumes c: "conv_inv c" and conv: "ConvertPointerData d c = Inr (out, c')"
    and strict: "strict \<Longrightarrow> pd_signal_kind d = kNone"
  shows "sim strict c out c'"
proof -
  have signal: "sim strict c out c'" if "convert_signal d c = Inr (out, c')" "pd_signal_kind d \<noteq> kNone"
    using sim_signal [OF c that(2,1)] that(2) strict by (cases strict) simp_all
  show ?thesis
  proof (cases "pd_signal_kind d")
    case kNone
    then show ?thesis
      using conv c
      by (cases "pd_change d")
        (auto simp: ConvertPointerData.simps sim_cancel [OF c] sim_add [OF c] sim_remove [OF c]
          sim_hover [OF c] sim_down [OF c] sim_move [OF c] sim_up [OF c] sim_pan_zoom_start [OF c]
          sim_pan_zoom_update [OF c] sim_pan_zoom_end [OF c] sim_other)
  next
    case (SignalKind_other w)
    with conv c show ?thesis by (simp add: ConvertPointerData.simps sim_Nil)
  qed (use conv signal in \<open>simp_all add: ConvertPointerData.simps\<close>)
qed

lemma sim_convert_all:
  assumes "conv_inv c" and "convert_all ds c = Inr (outs, c')"
    and "strict \<Longrightarrow> list_all (\<lambda>d. pd_signal_kind d = kNone) ds"
  shows "sim strict c outs c'"
  using assms
proof (induction ds arbitrary: c outs)
  case Nil
  then show ?case by (simp add: sim_Nil)
next
  case (Cons d ds)
  then obtain o1 c1 o2 where "ConvertPointerData d c = Inr (o1, c1)"
    and rest: "convert_all ds c1 = Inr (o2, c')" and outs: "outs = o1 @ o2"
    by auto
  with Cons.prems have one: "sim strict c o1 c1" by (intro sim_convert1) auto
  then have "sim strict c1 o2 c'" using Cons.prems rest by (intro Cons.IH) (auto simp: sim_def)
  with one show ?case unfolding outs by (rule sim_trans)
qed

text \<open>The converters that any sequence of successful conversions leads to.\<close>

inductive conv_reachable :: "PointerDataPacketConverter \<Rightarrow> bool" where
  start: "conv_reachable PointerDataPacketConverter_new"
| step: "conv_reachable c \<Longrightarrow> ConvertPointerData d c = Inr (out, c') \<Longrightarrow> conv_reachable c'"

lemma conv_reachable_inv: "conv_reachable c \<Longrightarrow> conv_inv c"
proof (induction rule: conv_reachable.induct)
  case start
  show ?case by (rule conv_inv_new)
next
  case (step c d out c')
  from sim_convert1 [of c d out c' False] step show ?case by (simp add: sim_def)
qed

end
