(* ===== verification/Pointer_Converter_Props.thy ===== *)
theory Pointer_Converter_Props
  imports Pointer_Converter_Spec
begin

text \<open>
  The properties of the pointer data packet converter: its output stream is legal, it converts
  exactly the transitions its checks let through, and it numbers contacts consecutively.
\<close>

section \<open>Which events are converted\<close>

text \<open>The transitions that the checks of the code let through.\<close>

fun convertible :: "Change \<Rightarrow> PointerState option \<Rightarrow> bool" where
  "convertible kCancel s = (s = None \<or> ps_is_down (the s))"
| "convertible kAdd s = (s = None)"
| "convertible kRemove s = (s \<noteq> None)"
| "convertible kHover s = (s = None \<or> \<not> ps_is_down (the s))"
| "convertible kDown s = (s = None \<or> \<not> ps_is_down (the s))"
| "convertible kMove s = (s \<noteq> None \<and> ps_is_down (the s))"
| "convertible kUp s = (s \<noteq> None \<and> ps_is_down (the s))"
| "convertible kPanZoomStart s =
     (s = None \<or> \<not> ps_is_down (the s) \<and> \<not> ps_is_pan_zoom_active (the s))"
| "convertible kPanZoomUpdate s =
     (s \<noteq> None \<and> \<not> ps_is_down (the s) \<and> ps_is_pan_zoom_active (the s))"
| "convertible kPanZoomEnd s = (s \<noteq> None \<and> ps_is_pan_zoom_active (the s))"
| "convertible (Change_other w) s = True"

definition found_state :: "PointerData \<Rightarrow> PointerDataPacketConverter \<Rightarrow> PointerState" where
  "found_state d c = fst (snd (find_or_add d c))"

lemma find_or_add_cases:
  assumes "find_or_add d c = (adds, s, c1)"
  shows "pc_states c (pd_device d) = None \<and> \<not> ps_is_down s \<and> \<not> ps_is_pan_zoom_active s \<or>
    pc_states c (pd_device d) = Some s"
  using assms
  by (auto simp: find_or_add_def EnsurePointerState_def Let_def split: option.splits)

lemma find_or_add_pointer: "find_or_add d c = (adds, s, c1) \<Longrightarrow> pc_pointer c1 = pc_pointer c"
  by (auto simp: find_or_add_def EnsurePointerState_def Let_def split: option.splits)

lemma synthesize_motion_pointer:
  "synthesize_motion e d s c = (es, s1, c1) \<Longrightarrow> pc_pointer c1 = pc_pointer c"
  by (auto simp: synthesize_motion_def UpdateDeltaAndState_def Let_def split: if_splits)

lemma UpdatePointerIdentifier_start:
  "UpdatePointerIdentifier d s True c =
     (if pc_pointer c = 0x7FFFFFFFFFFFFFFF then Inl Undefined
      else Inr (d\<lparr>pd_pointer_identifier := pc_pointer c + 1\<rparr>,
                s\<lparr>ps_pointer_identifier := pc_pointer c + 1\<rparr>,
                put_state (pd_device d) (s\<lparr>ps_pointer_identifier := pc_pointer c + 1\<rparr>)
                  (c\<lparr>pc_pointer := pc_pointer c + 1\<rparr>)))"
  by (simp add: UpdatePointerIdentifier_def Let_def require_def)

text \<open>Success of a result, and how it goes through the combinators of the model.\<close>

definition outcome :: "fault \<Rightarrow> bool \<Rightarrow> 'a result \<Rightarrow> bool" where
  "outcome e ok r = (if ok then \<exists>x. r = Inr x else r = Inl e)"

lemma outcome_existing:
  assumes "conv_inv c" and
    "\<And>s. pc_states c dev = Some s \<Longrightarrow> state_inv s \<Longrightarrow> outcome DcheckFailed (P (Some s)) (f s)"
    and "\<not> P None"
  shows "outcome DcheckFailed (P (pc_states c dev)) (rbind (existing_state dev c) f)"
  using assms conv_inv_get [OF assms(1), of dev]
  by (cases "pc_states c dev") (auto simp: existing_state_def outcome_def)

lemma outcome_require:
  "(b \<Longrightarrow> outcome e ok r) \<Longrightarrow> outcome e (b \<and> ok) (require e b r)"
  by (simp add: outcome_def require_def)

lemma outcome_total_down:
  assumes "pc_pointer c \<noteq> 0x7FFFFFFFFFFFFFFF"
  shows "outcome DcheckFailed (convertible kDown (pc_states c (pd_device d))) (convert_down d c)"
proof -
  obtain adds s c1 where add: "find_or_add d c = (adds, s, c1)" by (metis prod_cases3)
  obtain es s2 c2 where syn:
      "synthesize_motion (d\<lparr>pd_change := kHover, pd_buttons := 0\<rparr>) d s c1 = (es, s2, c2)"
    by (metis prod_cases3)
  have "pc_pointer c2 = pc_pointer c"
    using find_or_add_pointer [OF add] synthesize_motion_pointer [OF syn] by simp
  with assms syn find_or_add_cases [OF add] show ?thesis
    by (auto simp: outcome_def convert_down_def add UpdatePointerIdentifier_start require_def)
qed

lemma outcome_total_pan_zoom_start:
  assumes "pc_pointer c \<noteq> 0x7FFFFFFFFFFFFFFF"
  shows "outcome DcheckFailed (convertible kPanZoomStart (pc_states c (pd_device d)))
    (convert_pan_zoom_start d c)"
proof -
  obtain adds s c1 where add: "find_or_add d c = (adds, s, c1)" by (metis prod_cases3)
  obtain es s2 c2 where syn:
      "synthesize_motion (d\<lparr>pd_change := kHover, pd_buttons := 0\<rparr>) d s c1 = (es, s2, c2)"
    by (metis prod_cases3)
  have "pc_pointer c2 = pc_pointer c"
    using find_or_add_pointer [OF add] synthesize_motion_pointer [OF syn] by simp
  with assms syn find_or_add_cases [OF add] show ?thesis
    by (auto simp: outcome_def convert_pan_zoom_start_def add UpdatePointerIdentifier_start require_def)
qed

lemma outcome_total_hover:
  "outcome DcheckFailed (convertible kHover (pc_states c (pd_device d))) (convert_hover d c)"
proof -
  obtain adds s c1 where add: "find_or_add d c = (adds, s, c1)" by (metis prod_cases3)
  then show ?thesis
    using find_or_add_cases [OF add]
    by (auto simp: outcome_def convert_hover_def require_def Let_def split: prod.splits)
qed

lemma outcome_total_cancel:
  "outcome DcheckFailed (convertible kCancel (pc_states c (pd_device d))) (convert_cancel d c)"
  by (auto simp: outcome_def convert_cancel_def require_def Let_def split: option.splits prod.splits)

lemma outcome_total_remove:
  "conv_inv c \<Longrightarrow>
    outcome DcheckFailed (convertible kRemove (pc_states c (pd_device d))) (convert_remove d c)"
  unfolding convert_remove_def
  by (rule outcome_existing) (auto simp: outcome_def Let_def split: prod.splits)

lemma outcome_total_move:
  "conv_inv c \<Longrightarrow>
    outcome DcheckFailed (convertible kMove (pc_states c (pd_device d))) (convert_move d c)"
  unfolding convert_move_def
  by (rule outcome_existing) (auto simp: outcome_def require_def Let_def split: prod.splits)

lemma outcome_total_pan_zoom_update:
  "conv_inv c \<Longrightarrow>
    outcome DcheckFailed (convertible kPanZoomUpdate (pc_states c (pd_device d)))
      (convert_pan_zoom_update d c)"
  unfolding convert_pan_zoom_update_def
  by (rule outcome_existing) (auto simp: outcome_def require_def Let_def split: prod.splits)

lemma outcome_total_up:
  "conv_inv c \<Longrightarrow>
    outcome DcheckFailed (convertible kUp (pc_states c (pd_device d))) (convert_up d c)"
  unfolding convert_up_def
  by (rule outcome_existing) (auto simp: outcome_def require_def Let_def state_inv_def split: prod.splits)

lemma outcome_total_pan_zoom_end:
  "conv_inv c \<Longrightarrow>
    outcome DcheckFailed (convertible kPanZoomEnd (pc_states c (pd_device d)))
      (convert_pan_zoom_end d c)"
  unfolding convert_pan_zoom_end_def
  by (rule outcome_existing) (auto simp: outcome_def require_def Let_def state_inv_def split: prod.splits)

lemma convert_signal_total:
  assumes "conv_inv c"
  shows "\<exists>r. convert_signal d c = Inr r"
proof -
  obtain adds s c1 where add: "find_or_add d c = (adds, s, c1)" by (metis prod_cases3)
  have "state_inv s" using sim_find_or_add(2) [OF assms add] by (rule synced_facts)
  with add show ?thesis
    by (auto simp: convert_signal_def state_inv_def Let_def split: prod.splits)
qed

lemma convert_outcome:
  assumes c: "conv_inv c" and p: "pc_pointer c \<noteq> 0x7FFFFFFFFFFFFFFF"
    and none: "pd_signal_kind d = kNone"
  shows "outcome DcheckFailed (convertible (pd_change d) (pc_states c (pd_device d)))
    (ConvertPointerData d c)"
proof (cases "pd_change d")
  case kAdd
  then show ?thesis
    by (simp add: ConvertPointerData.simps none convert_add_def outcome_def require_def
        split: prod.splits)
next
  case (Change_other w)
  then show ?thesis by (simp add: ConvertPointerData.simps none outcome_def)
qed (simp_all add: ConvertPointerData.simps none outcome_total_cancel outcome_total_remove [OF c]
    outcome_total_hover outcome_total_down [OF p] outcome_total_move [OF c] outcome_total_up [OF c]
    outcome_total_pan_zoom_start [OF p] outcome_total_pan_zoom_update [OF c]
    outcome_total_pan_zoom_end [OF c] del: convertible.simps)

section \<open>New identifiers\<close>

definition starts :: "PointerData \<Rightarrow> bool" where
  "starts e = (pd_signal_kind e = kNone \<and> (pd_change e = kDown \<or> pd_change e = kPanZoomStart))"

text \<open>The identifiers of contacts that a list of events starts, in order.\<close>

definition started :: "PointerData list \<Rightarrow> int list" where
  "started es = map (\<lambda>e. uint (pd_pointer_identifier e)) (filter starts es)"

lemma started_simps [simp]:
  "started [] = []" "started (xs @ ys) = started xs @ started ys"
  by (simp_all add: started_def)

lemma started_Cons:
  "started (e # es) = (if starts e then uint (pd_pointer_identifier e) # started es else started es)"
  by (simp add: started_def)

lemma started_find_or_add: "find_or_add d c = (adds, s, c1) \<Longrightarrow> started adds = []"
  by (auto simp: find_or_add_def started_def starts_def Let_def split: option.splits prod.splits)

lemma started_motion:
  "synthesize_motion e d s c = (es, s1, c1) \<Longrightarrow> pd_change e \<noteq> kDown \<Longrightarrow>
    pd_change e \<noteq> kPanZoomStart \<Longrightarrow> started es = []"
  by (auto simp: synthesize_motion_def UpdateDeltaAndState_def started_def starts_def Let_def
      split: if_splits)

text \<open>A conversion draws at most one identifier, the next one.\<close>

definition draws :: "PointerDataPacketConverter \<Rightarrow> PointerData list \<Rightarrow> PointerDataPacketConverter \<Rightarrow> bool" where
  "draws c out c' =
     (started out = [] \<and> pc_pointer c' = pc_pointer c \<or>
      started out = [uint (pc_pointer c + 1)] \<and> pc_pointer c' = pc_pointer c + 1 \<and>
      pc_pointer c \<noteq> 0x7FFFFFFFFFFFFFFF)"

lemma draws_down:
  assumes "convert_down d c = Inr (out, c')" and "pd_signal_kind d = kNone" "pd_change d = kDown"
  shows "draws c out c'"
proof -
  obtain adds s c1 where add: "find_or_add d c = (adds, s, c1)" by (metis prod_cases3)
  obtain es s2 c2 where syn:
      "synthesize_motion (d\<lparr>pd_change := kHover, pd_buttons := 0\<rparr>) d s c1 = (es, s2, c2)"
    by (metis prod_cases3)
  have "pc_pointer c2 = pc_pointer c" "started adds = []" "started es = []"
    using find_or_add_pointer [OF add] synthesize_motion_pointer [OF syn] started_find_or_add [OF add]
      started_motion [OF syn] by simp_all
  with assms add syn show ?thesis
    by (auto simp: convert_down_def UpdatePointerIdentifier_start draws_def started_Cons starts_def
        require_def split: if_splits)
qed

lemma draws_pan_zoom_start:
  assumes "convert_pan_zoom_start d c = Inr (out, c')"
    and "pd_signal_kind d = kNone" "pd_change d = kPanZoomStart"
  shows "draws c out c'"
proof -
  obtain adds s c1 where add: "find_or_add d c = (adds, s, c1)" by (metis prod_cases3)
  obtain es s2 c2 where syn:
      "synthesize_motion (d\<lparr>pd_change := kHover, pd_buttons := 0\<rparr>) d s c1 = (es, s2, c2)"
    by (metis prod_cases3)
  have "pc_pointer c2 = pc_pointer c" "started adds = []" "started es = []"
    using find_or_add_pointer [OF add] synthesize_motion_pointer [OF syn] started_find_or_add [OF add]
      started_motion [OF syn] by simp_all
  with assms add syn show ?thesis
    by (auto simp: convert_pan_zoom_start_def UpdatePointerIdentifier_start draws_def started_Cons
        starts_def require_def split: if_splits)
qed

text \<open>The other cases keep the counter and start nothing.\<close>

definition quiet :: "PointerDataPacketConverter \<Rightarrow> conversion \<Rightarrow> bool" where
  "quiet c r = (\<forall>out c'. r = Inr (out, c') \<longrightarrow> started out = [] \<and> pc_pointer c' = pc_pointer c)"

lemma UpdateDelta_quiet:
  "UpdateDeltaAndState e s c = (e', s', c') \<Longrightarrow>
    pc_pointer c' = pc_pointer c \<and> starts e' = starts e"
  by (auto simp: UpdateDeltaAndState_def Let_def starts_def)

lemma quiet_cancel: "pd_change d = kCancel \<Longrightarrow> quiet c (convert_cancel d c)"
  by (auto simp: quiet_def convert_cancel_def started_Cons starts_def Let_def
      synthesize_motion_def UpdateDeltaAndState_def
      split: option.splits prod.splits)

lemma quiet_remove: "pd_change d = kRemove \<Longrightarrow> quiet c (convert_remove d c)"
  by (auto simp: quiet_def convert_remove_def started_Cons starts_def Let_def
      synthesize_motion_def UpdateDeltaAndState_def
      split: prod.splits if_splits)

lemma quiet_up: "pd_change d = kUp \<Longrightarrow> quiet c (convert_up d c)"
  by (auto simp: quiet_def convert_up_def started_Cons starts_def Let_def
      synthesize_motion_def UpdateDeltaAndState_def
      split: prod.splits if_splits)

lemma quiet_pan_zoom_end: "pd_change d = kPanZoomEnd \<Longrightarrow> quiet c (convert_pan_zoom_end d c)"
  by (auto simp: quiet_def convert_pan_zoom_end_def started_Cons starts_def Let_def
      synthesize_motion_def UpdateDeltaAndState_def
      split: prod.splits if_splits)

lemma quiet_motion:
  "pd_change d = kMove \<Longrightarrow> quiet c (convert_move d c)"
  "pd_change d = kPanZoomUpdate \<Longrightarrow> quiet c (convert_pan_zoom_update d c)"
  by (auto simp: quiet_def convert_move_def convert_pan_zoom_update_def started_Cons starts_def
      Let_def UpdateDeltaAndState_def split: prod.splits)

lemma quiet_add: "pd_change d = kAdd \<Longrightarrow> quiet c (convert_add d c)"
  by (auto simp: quiet_def convert_add_def EnsurePointerState_def started_Cons starts_def Let_def)

lemma quiet_hover:
  assumes "pd_change d = kHover"
  shows "quiet c (convert_hover d c)"
proof -
  obtain adds s c1 where add: "find_or_add d c = (adds, s, c1)" by (metis prod_cases3)
  obtain e s2 c2 where upd:
      "UpdateDeltaAndState d (s\<lparr>ps_buttons := Some (pd_buttons d)\<rparr>) c1 = (e, s2, c2)"
    by (metis prod_cases3)
  from UpdateDelta_quiet [OF upd] started_find_or_add [OF add] find_or_add_pointer [OF add] assms
  show ?thesis
    by (auto simp: quiet_def convert_hover_def add upd started_Cons starts_def Let_def
        split: if_splits)
qed

lemma quiet_signal:
  assumes "pd_signal_kind d \<noteq> kNone"
  shows "quiet c (convert_signal d c)"
proof -
  obtain adds s c1 where add: "find_or_add d c = (adds, s, c1)" by (metis prod_cases3)
  from started_find_or_add [OF add] find_or_add_pointer [OF add] assms show ?thesis
    by (auto simp: quiet_def convert_signal_def add started_Cons starts_def Let_def
        synthesize_motion_def UpdateDeltaAndState_def split: if_splits prod.splits)
qed

lemma draws_quiet: "quiet c r \<Longrightarrow> r = Inr (out, c') \<Longrightarrow> draws c out c'"
  by (simp add: quiet_def draws_def)

lemma draws_convert1:
  assumes conv: "ConvertPointerData d c = Inr (out, c')"
  shows "draws c out c'"
proof -
  have signal: "draws c out c'" if "convert_signal d c = Inr (out, c')" "pd_signal_kind d \<noteq> kNone"
    using draws_quiet quiet_signal that by blast
  show ?thesis
  proof (cases "pd_signal_kind d")
    case kNone
    note quiets = quiet_cancel quiet_add quiet_remove quiet_hover quiet_motion quiet_up
      quiet_pan_zoom_end
    show ?thesis
      using conv kNone
      by (cases "pd_change d")
        (simp_all add: ConvertPointerData.simps draws_down draws_pan_zoom_start
          draws_quiet [OF quiets(1)] draws_quiet [OF quiets(2)] draws_quiet [OF quiets(3)]
          draws_quiet [OF quiets(4)] draws_quiet [OF quiets(5)] draws_quiet [OF quiets(6)]
          draws_quiet [OF quiets(7)] draws_quiet [OF quiets(8)],
         auto simp: draws_def started_Cons starts_def)
  next
    case (SignalKind_other w)
    with conv show ?thesis by (simp add: ConvertPointerData.simps draws_def)
  qed (use conv signal in \<open>simp_all add: ConvertPointerData.simps\<close>)
qed

lemma uint_suc_small:
  "uint (p::u64) \<le> 9223372036854775807 \<Longrightarrow> p \<noteq> 0x7FFFFFFFFFFFFFFF \<Longrightarrow>
    uint (p + 1) = uint p + 1 \<and> uint (p + 1) \<le> 9223372036854775807"
  by (simp add: uint_word_ariths word_uint_eq_iff)

lemma upto_append: "a \<le> b \<Longrightarrow> b \<le> (c::int) \<Longrightarrow> [a + 1..b] @ [b + 1..c] = [a + 1..c]"
  using upto_split2 [of "a + 1" b c] by (cases "a = b") simp_all

lemma draws_all:
  assumes "convert_all ds c = Inr (outs, c')" and "uint (pc_pointer c) \<le> 9223372036854775807"
  shows "uint (pc_pointer c) \<le> uint (pc_pointer c') \<and> uint (pc_pointer c') \<le> 9223372036854775807 \<and>
    started outs = [uint (pc_pointer c) + 1..uint (pc_pointer c')]"
  using assms
proof (induction ds arbitrary: c outs)
  case Nil
  then show ?case by simp
next
  case (Cons d ds)
  then obtain o1 c1 o2 where one: "ConvertPointerData d c = Inr (o1, c1)"
    and rest: "convert_all ds c1 = Inr (o2, c')" and outs: "outs = o1 @ o2"
    by auto
  have c1: "uint (pc_pointer c1) \<le> 9223372036854775807 \<and> uint (pc_pointer c) \<le> uint (pc_pointer c1) \<and>
      started o1 = [uint (pc_pointer c) + 1..uint (pc_pointer c1)]"
    using draws_convert1 [OF one] uint_suc_small [of "pc_pointer c"] Cons.prems(2)
    by (auto simp: draws_def)
  with Cons.IH [OF rest] show ?case by (auto simp: outs upto_append)
qed

section \<open>Where a converted event comes from\<close>

text \<open>
  \<open>e\<close> is \<open>d\<close> or was synthesized from it: it agrees with \<open>d\<close> on every field but those that
  conversion fills in or a synthesized event replaces.
\<close>

definition origin :: "PointerData \<Rightarrow> PointerData \<Rightarrow> bool" where
  "origin d e =
     (e\<lparr>pd_change := pd_change d, pd_signal_kind := pd_signal_kind d,
        pd_pointer_identifier := pd_pointer_identifier d, pd_physical_delta_x := pd_physical_delta_x d,
        pd_physical_delta_y := pd_physical_delta_y d, pd_buttons := pd_buttons d,
        pd_synthesized := pd_synthesized d, pd_pan_x := pd_pan_x d, pd_pan_y := pd_pan_y d,
        pd_pan_delta_x := pd_pan_delta_x d, pd_pan_delta_y := pd_pan_delta_y d,
        pd_scale := pd_scale d, pd_rotation := pd_rotation d\<rparr> = d \<and>
      (pd_synthesized e = 1 \<and> pd_signal_kind e = kNone \<and>
         pd_change e \<in> {kAdd, kHover, kMove, kCancel, kPanZoomUpdate} \<or>
       pd_change e = pd_change d \<and> pd_signal_kind e = pd_signal_kind d \<and>
         pd_buttons e = pd_buttons d \<and> pd_synthesized e = pd_synthesized d \<and>
         pd_pan_x e = pd_pan_x d \<and> pd_pan_y e = pd_pan_y d \<and>
         pd_scale e = pd_scale d \<and> pd_rotation e = pd_rotation d))"

definition from_event :: "PointerData \<Rightarrow> conversion \<Rightarrow> bool" where
  "from_event d r = (\<forall>out c'. r = Inr (out, c') \<longrightarrow> list_all (origin d) out)"

lemma origin_find_or_add:
  "find_or_add d c = (adds, s, c1) \<Longrightarrow> list_all (origin d) adds"
  by (auto simp: find_or_add_def origin_def Let_def split: option.splits prod.splits)

lemma origin_down: "pd_signal_kind d = kNone \<Longrightarrow> from_event d (convert_down d c)"
  by (auto simp: from_event_def convert_down_def origin_def Let_def synthesize_motion_def
      UpdateDeltaAndState_def UpdatePointerIdentifier_start list_all_iff require_def
      split: prod.splits if_splits dest!: origin_find_or_add)

lemma origin_filled: "origin d (d\<lparr>pd_pointer_identifier := i\<rparr>)" "origin d d"
  by (simp_all add: origin_def)

lemma origin_UpdateDelta:
  "UpdateDeltaAndState (d\<lparr>pd_pointer_identifier := i\<rparr>) s c = (e, s', c') \<Longrightarrow> origin d e"
  "UpdateDeltaAndState d s c = (e, s', c') \<Longrightarrow> origin d e"
  by (auto simp: UpdateDeltaAndState_def Let_def origin_def)

lemmas origin_unfold = from_event_def origin_def Let_def synthesize_motion_def
  UpdateDeltaAndState_def UpdatePointerIdentifier_start list_all_iff require_def

lemma origin_pan_zoom_start: "pd_signal_kind d = kNone \<Longrightarrow> from_event d (convert_pan_zoom_start d c)"
  by (auto simp: origin_unfold convert_pan_zoom_start_def
      split: prod.splits if_splits dest!: origin_find_or_add)

lemma origin_hover: "pd_signal_kind d = kNone \<Longrightarrow> from_event d (convert_hover d c)"
  by (auto simp: origin_unfold convert_hover_def
      split: prod.splits if_splits dest!: origin_find_or_add)

lemma origin_signal: "from_event d (convert_signal d c)"
  by (auto simp: origin_unfold convert_signal_def
      split: prod.splits if_splits dest!: origin_find_or_add)

lemma origin_cancel: "pd_signal_kind d = kNone \<Longrightarrow> from_event d (convert_cancel d c)"
  by (auto simp: origin_unfold convert_cancel_def split: option.splits prod.splits if_splits)

lemma origin_remove: "pd_signal_kind d = kNone \<Longrightarrow> from_event d (convert_remove d c)"
  by (auto simp: origin_unfold convert_remove_def split: prod.splits if_splits)

lemma origin_up: "pd_signal_kind d = kNone \<Longrightarrow> from_event d (convert_up d c)"
  by (auto simp: origin_unfold convert_up_def split: prod.splits if_splits)

lemma origin_pan_zoom_end: "pd_signal_kind d = kNone \<Longrightarrow> from_event d (convert_pan_zoom_end d c)"
  by (auto simp: origin_unfold convert_pan_zoom_end_def split: prod.splits if_splits)

lemma origin_plain:
  "from_event d (convert_add d c)" "from_event d (convert_move d c)"
  "from_event d (convert_pan_zoom_update d c)"
  by (auto simp: from_event_def convert_add_def convert_move_def convert_pan_zoom_update_def
      origin_filled split: prod.splits dest!: origin_UpdateDelta(1))

lemma origin_convert1: "from_event d (ConvertPointerData d c)"
proof (cases "pd_signal_kind d")
  case kNone
  then show ?thesis
    by (cases "pd_change d")
      (simp_all add: ConvertPointerData.simps origin_down origin_pan_zoom_start origin_hover
        origin_cancel origin_remove origin_up origin_pan_zoom_end origin_plain, simp add: from_event_def origin_filled)
qed (simp_all add: ConvertPointerData.simps origin_signal, simp add: from_event_def)

lemma origin_canonical:
  assumes o: "origin d e" and d: "PointerData_canonical d"
  shows "PointerData_canonical e"
proof -
  have "pd_kind e = pd_kind d"
    using o unfolding origin_def by (elim conjE) (drule arg_cong [where f = pd_kind], simp)
  moreover have "change_of (change_code (pd_change e)) = pd_change e"
    "signal_of (signal_code (pd_signal_kind e)) = pd_signal_kind e"
    using o d unfolding origin_def PointerData_canonical_def
    by (auto simp: change_of_def signal_of_def)
  ultimately show ?thesis using d by (simp add: PointerData_canonical_def)
qed

section \<open>Packets\<close>

definition packet_events :: "PointerDataPacket \<Rightarrow> PointerData list" where
  "packet_events p = map PointerData_of_bytes (chunks 288 (GetLength p) p)"

lemma packet_events_canonical: "list_all PointerData_canonical (packet_events p)"
  by (simp add: packet_events_def list_all_iff)

lemma read_all_ok:
  "\<forall>i \<in> set is. i < GetLength p \<Longrightarrow> read_all is p = Inr (map (\<lambda>i. packet_events p ! i) is)"
  by (induction "is") (simp_all add: GetPointerData_def packet_events_def nth_chunks)

lemma read_all_events: "read_all [0..<GetLength p] p = Inr (packet_events p)"
proof -
  have "length (packet_events p) = GetLength p" by (simp add: packet_events_def)
  then have "map (\<lambda>i. packet_events p ! i) [0..<GetLength p] = packet_events p"
    by (metis map_nth)
  then show ?thesis by (subst read_all_ok) simp_all
qed

definition packet_of :: "PointerData list \<Rightarrow> PointerDataPacket" where
  "packet_of ds = concat (map PointerData_bytes ds)"

lemma length_packet_of [simp]: "length (packet_of ds) = 288 * length ds"
  unfolding packet_of_def by (subst length_concat_uniform [where sz = 288]) (simp_all add: list_all_iff)

lemma write_all_ok:
  "length pre = i * 288 \<Longrightarrow> length rest = 288 * length ds \<Longrightarrow>
    write_all i ds (pre @ rest) = Inr (pre @ packet_of ds)"
proof (induction ds arbitrary: i pre rest)
  case Nil
  then show ?case by (simp add: packet_of_def)
next
  case (Cons d ds)
  have "write_all (Suc i) ds ((pre @ PointerData_bytes d) @ drop 288 rest) =
      Inr ((pre @ PointerData_bytes d) @ packet_of ds)"
    using Cons.prems by (intro Cons.IH) simp_all
  with Cons.prems show ?case
    by (simp add: SetPointerData_def GetLength_def packet_of_def)
qed

lemma packet_events_packet_of:
  assumes "list_all PointerData_canonical ds"
  shows "packet_events (packet_of ds) = ds"
proof -
  have "GetLength (packet_of ds) = length (map PointerData_bytes ds)" by (simp add: GetLength_def)
  then have "chunks 288 (GetLength (packet_of ds)) (packet_of ds) = map PointerData_bytes ds"
    using chunks_concat [of 288 "map PointerData_bytes ds" "[]"]
    by (simp add: packet_of_def list_all_iff)
  with assms show ?thesis
    by (auto simp: packet_events_def list_all_iff PointerData_of_bytes_bytes intro!: map_idI)
qed

text \<open>\<open>Convert\<close> is the conversion of the events its packet holds.\<close>

lemma Convert_eq:
  "Convert p c = rbind (convert_all (packet_events p) c) (\<lambda>(outs, c'). Inr (packet_of outs, c'))"
proof -
  have "write_all 0 outs (PointerDataPacket_new (length outs)) = Inr (packet_of outs)" for outs
    using write_all_ok [of "[]" 0 "PointerDataPacket_new (length outs)" outs]
    by (simp add: PointerDataPacket_new_def)
  then show ?thesis
    by (simp add: Convert_def read_all_events)
qed

lemma isl_Convert: "isl (Convert p c) = isl (convert_all (packet_events p) c)"
  by (cases "convert_all (packet_events p) c") (auto simp: Convert_eq)

lemma canonical_convert_all:
  assumes "convert_all ds c = Inr (outs, c')" and "list_all PointerData_canonical ds"
  shows "list_all PointerData_canonical outs"
  using assms
proof (induction ds arbitrary: c outs)
  case Nil
  then show ?case by simp
next
  case (Cons d ds)
  then obtain o1 c1 o2 where one: "ConvertPointerData d c = Inr (o1, c1)"
    and rest: "convert_all ds c1 = Inr (o2, c')" and outs: "outs = o1 @ o2"
    by auto
  have "list_all (origin d) o1" using origin_convert1 [of d c] one by (simp add: from_event_def)
  then have "list_all PointerData_canonical o1"
    using Cons.prems(2) origin_canonical by (auto simp: list_all_iff)
  with Cons.IH [OF rest] Cons.prems(2) show ?case by (simp add: outs)
qed

lemma Convert_events:
  assumes "Convert p c = Inr (p', c')"
  shows "convert_all (packet_events p) c = Inr (packet_events p', c')"
proof -
  from assms obtain outs where out: "convert_all (packet_events p) c = Inr (outs, c')"
    and p': "p' = packet_of outs"
    by (auto simp: Convert_eq)
  with canonical_convert_all [OF out packet_events_canonical] show ?thesis
    by (simp add: packet_events_packet_of)
qed

section \<open>Properties\<close>

lemma conv_reachable_pointer: "conv_reachable c \<Longrightarrow> uint (pc_pointer c) \<le> 9223372036854775807"
proof (induction rule: conv_reachable.induct)
  case start
  show ?case by (simp add: PointerDataPacketConverter_new_def)
next
  case (step c d out c')
  then show ?case
    using draws_convert1 [OF step(2)] uint_suc_small [of "pc_pointer c"] by (auto simp: draws_def)
qed

text \<open>Two events of device 7: a contact at (1, 0) that ends at (3, 0), without an add event.\<close>

definition demo_event :: "Change \<Rightarrow> f64 \<Rightarrow> PointerData" where
  "demo_event ch x =
     (PointerData_of_words (replicate 36 0))\<lparr>pd_change := ch, pd_device := 7, pd_physical_x := x\<rparr>"

definition demo_packet :: PointerDataPacket where
  "demo_packet =
     packet_of [demo_event kDown 0x3FF0000000000000, demo_event kUp 0x4008000000000000]"

definition demo_result :: "PointerDataPacket \<times> PointerDataPacketConverter" where
  "demo_result =
     (case Convert demo_packet PointerDataPacketConverter_new of
        Inr r \<Rightarrow> r | Inl _ \<Rightarrow> ([], PointerDataPacketConverter_new))"

text \<open>
  C9: In every reachable state of the converter, the events of a converted packet are a legal
  continuation of the stream for every device: a pointer is added before it is used and removed
  only when it is up, contacts and pan/zoom gestures are started and ended in turn, an event that
  does not move the pointer happens where the pointer is, and motion events carry the difference to
  the last location and pan.  For a packet without signal (scroll and scale) events, and only for
  such a packet, the automaton also checks that the events of a contact carry the identifier its start
  was given; the move synthesized for a signal does not carry it (\<open>scroll_move_identifier\<close>).  The
  resulting states agree.
\<close>
theorem converted_stream_legal:
  assumes "conv_reachable c" and "Convert p c = Inr (p', c')"
  shows "accepts (list_all (\<lambda>d. pd_signal_kind d = kNone) (packet_events p)) (packet_events p')
    (abs_states c) = Some (abs_states c')"
  using sim_convert_all [OF conv_reachable_inv [OF assms(1)] Convert_events [OF assms(2)]]
  by (simp add: sim_def)

lemma demo_result_ok: "Convert demo_packet PointerDataPacketConverter_new = Inr demo_result"
proof -
  have "packet_events demo_packet =
      [demo_event kDown 0x3FF0000000000000, demo_event kUp 0x4008000000000000]"
    unfolding demo_packet_def by (rule packet_events_packet_of) code_simp
  moreover have "\<not> isl (convert_all
      [demo_event kDown 0x3FF0000000000000, demo_event kUp 0x4008000000000000]
      PointerDataPacketConverter_new)"
    by code_simp
  ultimately have "\<not> isl (Convert demo_packet PointerDataPacketConverter_new)"
    by (simp only: isl_Convert not_False_eq_True)
  then show ?thesis by (auto simp: demo_result_def isl_def split: sum.splits)
qed

lemma demo_result_pair:
  "Convert demo_packet PointerDataPacketConverter_new = Inr (fst demo_result, snd demo_result)"
  by (simp add: demo_result_ok)

theorem converted_stream_legal_witness:
  "Convert demo_packet PointerDataPacketConverter_new = Inr demo_result \<and>
   accepts (list_all (\<lambda>d. pd_signal_kind d = kNone) (packet_events demo_packet))
     (packet_events (fst demo_result)) (abs_states PointerDataPacketConverter_new) =
   Some (abs_states (snd demo_result))"
  using converted_stream_legal [OF conv_reachable.start demo_result_pair] demo_result_ok by simp

text \<open>
  C10: In a reachable state with identifiers left, an event without a signal is converted exactly
  when its change is a transition of the device's state that the checks let through, and every
  other event stops at a check; no uninitialised field is ever read.  A signal is always converted.
\<close>
theorem conversion_outcome:
  assumes "conv_reachable c" and "pc_pointer c \<noteq> 0x7FFFFFFFFFFFFFFF"
  shows "if pd_signal_kind d \<noteq> kNone \<or> convertible (pd_change d) (pc_states c (pd_device d))
    then \<exists>out c'. ConvertPointerData d c = Inr (out, c')
    else ConvertPointerData d c = Inl DcheckFailed"
proof (cases "pd_signal_kind d")
  case kNone
  with convert_outcome [OF conv_reachable_inv [OF assms(1)] assms(2) kNone] show ?thesis
    by (auto simp: outcome_def split: if_splits)
qed (use convert_signal_total [OF conv_reachable_inv [OF assms(1)]] in
    \<open>simp_all add: ConvertPointerData.simps\<close>)

theorem conversion_outcome_witness:
  "ConvertPointerData (demo_event kUp 0) PointerDataPacketConverter_new = Inl DcheckFailed"
  using conversion_outcome [OF conv_reachable.start, of "demo_event kUp 0"]
  by (simp add: PointerDataPacketConverter_new_def demo_event_def PointerData_of_words_def signal_of_def)

text \<open>
  The contacts and gestures that a converted packet starts get consecutive identifiers, from
  the one after the last identifier given out to the new last one: no identifier is used twice.
\<close>
theorem identifiers_consecutive:
  assumes "conv_reachable c" and "Convert p c = Inr (p', c')"
  shows "started (packet_events p') = [uint (pc_pointer c) + 1..uint (pc_pointer c')]"
  using draws_all [OF Convert_events [OF assms(2)] conv_reachable_pointer [OF assms(1)]] by simp

theorem identifiers_consecutive_witness:
  "started (packet_events (fst demo_result)) =
     [uint (pc_pointer PointerDataPacketConverter_new) + 1..uint (pc_pointer (snd demo_result))]"
  using identifiers_consecutive [OF conv_reachable.start demo_result_pair] by simp

text \<open>
  Every event that the conversion of an event produces is that event with its identifier and
  deltas filled in, or is marked as synthesized and agrees with it on device, location, time
  stamp, view and every other field that a synthesized event does not replace.
\<close>
theorem converted_event_origin:
  assumes "ConvertPointerData d c = Inr (out, c')"
  shows "list_all (origin d) out"
  using origin_convert1 [of d c] assms by (simp add: from_event_def)

lemma demo_down_ok:
  "ConvertPointerData (demo_event kDown 0x3FF0000000000000) PointerDataPacketConverter_new =
     Inr (projr (ConvertPointerData (demo_event kDown 0x3FF0000000000000) PointerDataPacketConverter_new))"
  by (rule result_eqI) code_simp

theorem converted_event_origin_witness:
  "list_all (origin (demo_event kDown 0x3FF0000000000000))
     (fst (projr (ConvertPointerData (demo_event kDown 0x3FF0000000000000) PointerDataPacketConverter_new)))"
  by (rule converted_event_origin [where c' = "snd (projr (ConvertPointerData
      (demo_event kDown 0x3FF0000000000000) PointerDataPacketConverter_new))"
      and c = PointerDataPacketConverter_new]) (simp add: demo_down_ok [symmetric])

text \<open>
  An event written into a packet is read back from its position, and the events at the other
  positions keep their bytes.
\<close>
theorem packet_set_get:
  assumes "i < GetLength p" and "length p = 288 * GetLength p" and "PointerData_canonical d"
  shows "\<exists>p'. SetPointerData i d p = Inr p' \<and> length p' = length p \<and> GetPointerData i p' = Inr d \<and>
    (\<forall>j < GetLength p. j \<noteq> i \<longrightarrow> GetPointerData j p' = GetPointerData j p)"
proof -
  let ?p = "take (i * 288) p @ PointerData_bytes d @ drop (i * 288 + 288) p"
  have bound: "i * 288 + 288 \<le> length p" using assms(1,2) by simp
  then have len: "length ?p = length p" by simp
  have set: "SetPointerData i d p = Inr ?p" using assms(1) by (simp add: SetPointerData_def)
  have "take 288 (drop (i * 288) ?p) = PointerData_bytes d" using bound by simp
  then have at: "GetPointerData i ?p = Inr d"
    using assms(1,3) len
    by (simp add: GetPointerData_def GetLength_def PointerData_of_bytes_bytes del: append_take_drop_id)
  have other: "GetPointerData j ?p = GetPointerData j p" if "j < GetLength p" "j \<noteq> i" for j
  proof -
    have "take 288 (drop (j * 288) ?p) = take 288 (drop (j * 288) p)"
    proof (cases "j < i")
      case True
      then show ?thesis using bound by (intro chunk_before) simp_all
    next
      case False
      with that bound chunk_after [of "i * 288" "PointerData_bytes d" "j * 288" p] show ?thesis
        by simp
    qed
    then show ?thesis by (simp only: GetPointerData_def GetLength_def len)
  qed
  from set len at other show ?thesis by blast
qed

theorem packet_set_get_witness:
  "\<exists>p'. SetPointerData 0 (demo_event kDown 0) (PointerDataPacket_new 1) = Inr p' \<and>
     GetPointerData 0 p' = Inr (demo_event kDown 0)"
proof -
  have "PointerData_canonical (demo_event kDown 0)" by code_simp
  then show ?thesis
    using packet_set_get [of 0 "PointerDataPacket_new 1" "demo_event kDown 0"]
    by (auto simp: GetLength_def PointerDataPacket_new_def)
qed

text \<open>
  A move that is synthesized because a scroll event arrives elsewhere during a contact keeps
  the identifier of the scroll event, so it does not carry the identifier of the contact.
\<close>
theorem scroll_move_identifier:
  "map (\<lambda>e. (pd_change e, pd_signal_kind e, pd_pointer_identifier e))
     (fst (projr (convert_all
       [demo_event kDown 0, (demo_event kHover 0x3FF0000000000000)\<lparr>pd_signal_kind := kScroll\<rparr>]
       PointerDataPacketConverter_new))) =
   [(kAdd, kNone, 0), (kDown, kNone, 1), (kMove, kNone, 0), (kHover, kScroll, 0)]"
  by code_simp

end
