(* ===== verification/Unicode.thy ===== *)
theory Unicode
  imports Prelude
begin

text \<open>
  UTF-16 and UTF-8 as \<open>fml/string_conversion\<close> converts between them (through the strict
  \<open>std::codecvt_utf8_utf16\<close>, which throws on ill-formed input), and the surrogate tests of
  \<open>shell/platform/common/text_input_model\<close>.
\<close>

unbundle bit_operations_syntax

section \<open>Surrogates\<close>

definition IsLeadingSurrogate :: "u32 \<Rightarrow> bool" where
  "IsLeadingSurrogate code_point = (code_point AND 0xFFFFFC00 = 0xD800)"

definition IsTrailingSurrogate :: "u32 \<Rightarrow> bool" where
  "IsTrailingSurrogate code_point = (code_point AND 0xFFFFFC00 = 0xDC00)"

definition lead16 :: "u16 \<Rightarrow> bool" where "lead16 u = (uint u div 1024 = 54)"
definition trail16 :: "u16 \<Rightarrow> bool" where "trail16 u = (uint u div 1024 = 55)"

lemma and_high_bits: "uint ((w::u32) AND 0xFFFFFC00) = uint w div 1024 * 1024"
proof -
  have "(0xFFFFFC00 :: u32) = NOT (mask 10)" by (simp add: mask_eq_exp_minus_1)
  moreover have "w AND NOT (mask 10) = push_bit 10 (drop_bit 10 w)"
    by (auto intro!: bit_word_eqI simp: bit_and_iff bit_not_iff bit_mask_iff bit_push_bit_iff
        bit_drop_bit_eq)
  ultimately have "uint (w AND 0xFFFFFC00) = uint (push_bit 10 (drop_bit 10 w))" by (simp only:)
  also have "\<dots> = uint w div 1024 * 1024 mod 2 ^ 32"
    using uint_lt2p [of w] by (simp only: unsigned_push_bit_eq unsigned_drop_bit_eq)
      (simp add: push_bit_eq_mult drop_bit_eq_div take_bit_eq_mod)
  also have "\<dots> = uint w div 1024 * 1024"
    using uint_lt2p [of w] pos_mod_sign [of 1024 "uint w"]
    by (intro mod_pos_pos_trivial) (simp_all add: zmod_le_nonneg_dividend flip: minus_mod_eq_div_mult)
  finally show ?thesis .
qed

lemma uint_ucast_u16: "uint (ucast (u::u16) :: u32) = uint u"
  by (simp add: unsigned_ucast_eq take_bit_eq_mod) (use uint_lt2p [of u] in simp)

lemma IsLeadingSurrogate_u16: "IsLeadingSurrogate (ucast (u::u16)) = lead16 u"
  by (simp add: IsLeadingSurrogate_def lead16_def word_uint_eq_iff and_high_bits uint_ucast_u16)

lemma IsTrailingSurrogate_u16: "IsTrailingSurrogate (ucast (u::u16)) = trail16 u"
  by (simp add: IsTrailingSurrogate_def trail16_def word_uint_eq_iff and_high_bits uint_ucast_u16)

section \<open>UTF-16\<close>

definition pair_cp :: "u16 \<Rightarrow> u16 \<Rightarrow> int" where
  "pair_cp u t = 0x10000 + (uint u - 0xD800) * 1024 + (uint t - 0xDC00)"

fun decode16 :: "u16 list \<Rightarrow> int list option" where
  "decode16 [] = Some []"
| "decode16 (u # us) =
     (if lead16 u then
        (case us of
           [] \<Rightarrow> None
         | t # ts \<Rightarrow>
             if trail16 t
             then map_option (Cons (pair_cp u t)) (decode16 ts)
             else None)
      else if trail16 u then None
      else map_option (Cons (uint u)) (decode16 us))"

definition scalar :: "int \<Rightarrow> bool" where
  "scalar c = (0 \<le> c \<and> c \<le> 0x10FFFF \<and> \<not> (0xD800 \<le> c \<and> c \<le> 0xDFFF))"

definition encode16 :: "int \<Rightarrow> u16 list" where
  "encode16 c =
     (if c \<le> 0xFFFF then [word_of_int c]
      else [word_of_int (0xD800 + (c - 0x10000) div 1024), word_of_int (0xDC00 + (c - 0x10000) mod 1024)])"

lemma uint_u16_small: "0 \<le> c \<Longrightarrow> c < 65536 \<Longrightarrow> uint (word_of_int c :: u16) = c"
  by (simp add: uint_word_of_int)

lemma encode16_high:
  assumes "scalar c" and "\<not> c \<le> 0xFFFF"
  obtains u t where "encode16 c = [u, t]" "lead16 u" "trail16 t" "pair_cp u t = c"
proof -
  define h l where "h = (c - 0x10000) div 1024" and "l = (c - 0x10000) mod 1024"
  have b: "0 \<le> h" "h < 1024" "0 \<le> l" "l < 1024" and c: "0x10000 + h * 1024 + l = c"
    using assms by (auto simp: scalar_def h_def l_def)
  have u: "uint (word_of_int (0xD800 + h) :: u16) = 0xD800 + h"
    and t: "uint (word_of_int (0xDC00 + l) :: u16) = 0xDC00 + l"
    using b by (auto intro!: uint_u16_small simp del: of_int_add)
  have d: "(0xD800 + h) div 1024 = 54" "(0xDC00 + l) div 1024 = 55" using b by simp_all
  have "encode16 c = [word_of_int (0xD800 + h), word_of_int (0xDC00 + l)]"
    unfolding encode16_def h_def l_def using assms(2) by (simp only: if_False)
  moreover have "lead16 (word_of_int (0xD800 + h))" "trail16 (word_of_int (0xDC00 + l))"
    by (simp_all only: lead16_def trail16_def u t d)
  moreover have "pair_cp (word_of_int (0xD800 + h)) (word_of_int (0xDC00 + l)) = c"
    unfolding pair_cp_def u t using c by simp
  ultimately show ?thesis by (rule that)
qed

lemma decode16_encode16:
  assumes "scalar c"
  shows "decode16 (encode16 c @ us) = map_option (Cons c) (decode16 us)"
proof (cases "c \<le> 0xFFFF")
  case True
  with assms have "uint (word_of_int c :: u16) = c" by (simp add: uint_u16_small scalar_def)
  moreover from assms have "c div 1024 \<noteq> 54" "c div 1024 \<noteq> 55" by (auto simp: scalar_def)
  ultimately show ?thesis using True by (simp add: encode16_def lead16_def trail16_def)
next
  case False
  from encode16_high [OF assms this] obtain u t
    where "encode16 c = [u, t]" "lead16 u" "trail16 t" "pair_cp u t = c" .
  then show ?thesis by simp
qed

lemma decode16_append:
  "decode16 us = Some cs \<Longrightarrow> decode16 (us @ vs) = map_option ((@) cs) (decode16 vs)"
proof (induction us arbitrary: cs rule: decode16.induct)
  case 1
  then show ?case by (simp add: option.map_ident)
next
  case (2 u us)
  have ext: "(@) (c # z) = (\<lambda>x. c # z @ x)" for c :: int and z by auto
  from 2 show ?case
    by (auto split: if_splits list.splits simp: option.map_comp comp_def ext)
qed

lemma encode16_unit: "encode16 (uint (u::u16)) = [u]"
  using uint_lt2p [of u] by (simp add: encode16_def)

lemma encode16_pair:
  assumes "lead16 u" "trail16 t"
  shows "encode16 (pair_cp u t) = [u, t]"
proof -
  define h l where "h = uint u - 0xD800" and "l = uint t - 0xDC00"
  have "0 \<le> h" "0 \<le> l" "l < 1024"
    using assms by (auto simp: lead16_def trail16_def h_def l_def)
  then have "(h * 1024 + l) div 1024 = h" "(h * 1024 + l) mod 1024 = l"
      "\<not> 0x10000 + h * 1024 + l \<le> 0xFFFF" "0x10000 + h * 1024 + l - 0x10000 = h * 1024 + l"
    by simp_all
  moreover have "pair_cp u t = 0x10000 + h * 1024 + l" by (simp add: pair_cp_def h_def l_def)
  ultimately show ?thesis
    unfolding encode16_def by (simp only: if_False) (simp add: h_def l_def)
qed

lemma encode16_decode16: "decode16 us = Some cs \<Longrightarrow> concat (map encode16 cs) = us"
  by (induction us arbitrary: cs rule: decode16.induct)
    (auto split: if_splits list.splits simp: encode16_unit encode16_pair)

lemma scalar_pair:
  assumes "lead16 u" "trail16 t"
  shows "scalar (pair_cp u t)"
proof -
  have "0xD800 \<le> uint u" "uint u \<le> 0xDBFF" "0xDC00 \<le> uint t" "uint t \<le> 0xDFFF"
    using assms by (auto simp: lead16_def trail16_def)
  then show ?thesis by (simp add: scalar_def pair_cp_def)
qed

lemma scalar_unit: "\<not> lead16 u \<Longrightarrow> \<not> trail16 u \<Longrightarrow> scalar (uint u)"
  using uint_lt2p [of u] by (auto simp: scalar_def lead16_def trail16_def)

lemma decode16_scalar: "decode16 us = Some cs \<Longrightarrow> list_all scalar cs"
  by (induction us arbitrary: cs rule: decode16.induct)
    (auto split: if_splits list.splits simp: scalar_pair scalar_unit)

lemma decode16_concat_encode16: "list_all scalar cs \<Longrightarrow> decode16 (concat (map encode16 cs)) = Some cs"
  by (induction cs) (simp_all add: decode16_encode16)

section \<open>UTF-8\<close>

definition marked :: "int \<Rightarrow> int \<Rightarrow> u8" where
  "marked mark v = word_of_int (mark + v)"

definition encode8 :: "int \<Rightarrow> u8 list" where
  "encode8 c =
     (if c < 0x80 then [word_of_int c]
      else if c < 0x800 then [marked 0xC0 (c div 64), marked 0x80 (c mod 64)]
      else if c < 0x10000 then
        [marked 0xE0 (c div 4096), marked 0x80 (c div 64 mod 64), marked 0x80 (c mod 64)]
      else
        [marked 0xF0 (c div 262144), marked 0x80 (c div 4096 mod 64),
         marked 0x80 (c div 64 mod 64), marked 0x80 (c mod 64)])"

definition continuation :: "u8 \<Rightarrow> bool" where "continuation b = (uint b div 64 = 2)"

fun decode8 :: "u8 list \<Rightarrow> int list option" where
  "decode8 [] = Some []"
| "decode8 (b # bs) =
     (if uint b < 0x80 then map_option (Cons (uint b)) (decode8 bs)
      else if uint b < 0xC2 then None
      else if uint b < 0xE0 then
        (case bs of
           b2 # r \<Rightarrow>
             if continuation b2
             then map_option (Cons (uint b mod 32 * 64 + uint b2 mod 64)) (decode8 r) else None
         | _ \<Rightarrow> None)
      else if uint b < 0xF0 then
        (case bs of
           b2 # b3 # r \<Rightarrow>
             let c = uint b mod 16 * 4096 + uint b2 mod 64 * 64 + uint b3 mod 64
             in if continuation b2 \<and> continuation b3 \<and> 0x800 \<le> c \<and> scalar c
                then map_option (Cons c) (decode8 r) else None
         | _ \<Rightarrow> None)
      else if uint b < 0xF5 then
        (case bs of
           b2 # b3 # b4 # r \<Rightarrow>
             let c = uint b mod 8 * 262144 + uint b2 mod 64 * 4096 + uint b3 mod 64 * 64 + uint b4 mod 64
             in if continuation b2 \<and> continuation b3 \<and> continuation b4 \<and> 0x10000 \<le> c \<and> scalar c
                then map_option (Cons c) (decode8 r) else None
         | _ \<Rightarrow> None)
      else None)"

lemma uint_marked: "0 \<le> v \<Longrightarrow> 0 \<le> mark \<Longrightarrow> mark + v < 256 \<Longrightarrow> uint (marked mark v) = mark + v"
  unfolding marked_def by (subst uint_word_of_int) simp

lemma marked_mod: "0 \<le> v \<Longrightarrow> v < m \<Longrightarrow> (m * k + v) mod m = (v::int)"
  by (simp add: mod_pos_pos_trivial)

lemma continuation_byte:
  assumes "0 \<le> v" "v < 64"
  shows "uint (marked 0x80 v) mod 64 = v" "continuation (marked 0x80 v)"
proof -
  have u: "uint (marked 0x80 v) = 0x80 + v" using assms by (simp add: uint_marked)
  show "uint (marked 0x80 v) mod 64 = v" using marked_mod [of v 64 2] assms by (simp add: u)
  have "(0x80 + v) div 64 = 2" using assms by simp
  then show "continuation (marked 0x80 v)" by (simp only: continuation_def u)
qed

lemma decode8_encode8_2:
  assumes "0x80 \<le> c" "c < 0x800"
  shows "decode8 (encode8 c @ bs) = map_option (Cons c) (decode8 bs)"
proof -
  define h l where "h = c div 64" and "l = c mod 64"
  have hl: "2 \<le> h" "h < 32" "0 \<le> l" "l < 64" "h * 64 + l = c"
    using assms by (auto simp: h_def l_def)
  have "encode8 c = [marked 0xC0 h, marked 0x80 l]"
    using assms by (simp add: encode8_def h_def l_def)
  moreover have "uint (marked 0xC0 h) = 0xC0 + h" "(0xC0 + h) mod 32 = h"
    using hl marked_mod [of h 32 6] by (simp_all add: uint_marked)
  ultimately show ?thesis using hl by (simp add: continuation_byte)
qed

lemma decode8_encode8_3:
  assumes "0x800 \<le> c" "c < 0x10000" "scalar c"
  shows "decode8 (encode8 c @ bs) = map_option (Cons c) (decode8 bs)"
proof -
  define h k l where "h = c div 4096" and "k = c div 64 mod 64" and "l = c mod 64"
  have hkl: "0 \<le> h" "h < 16" "0 \<le> k" "k < 64" "0 \<le> l" "l < 64"
    using assms by (auto simp: h_def k_def l_def)
  have "c div 64 = h * 64 + k"
    using div_mult_mod_eq [of "c div 64" 64] by (simp add: h_def k_def zdiv_zmult2_eq [symmetric])
  then have c: "h * 4096 + k * 64 + l = c"
    using div_mult_mod_eq [of c 64] by (simp add: l_def)
  have "encode8 c = [marked 0xE0 h, marked 0x80 k, marked 0x80 l]"
    using assms by (simp add: encode8_def h_def k_def l_def)
  moreover have "uint (marked 0xE0 h) = 0xE0 + h" "(0xE0 + h) mod 16 = h"
    using hkl marked_mod [of h 16 14] by (simp_all add: uint_marked)
  ultimately show ?thesis using hkl c assms by (simp add: continuation_byte)
qed

lemma decode8_encode8_4:
  assumes "0x10000 \<le> c" "scalar c"
  shows "decode8 (encode8 c @ bs) = map_option (Cons c) (decode8 bs)"
proof -
  define h j k l where "h = c div 262144" and "j = c div 4096 mod 64"
    and "k = c div 64 mod 64" and "l = c mod 64"
  have hkl: "0 \<le> h" "h < 5" "0 \<le> j" "j < 64" "0 \<le> k" "k < 64" "0 \<le> l" "l < 64"
    using assms by (auto simp: h_def j_def k_def l_def scalar_def)
  have "c div 4096 = h * 64 + j"
    using div_mult_mod_eq [of "c div 4096" 64] by (simp add: h_def j_def zdiv_zmult2_eq [symmetric])
  moreover have "c div 64 = c div 4096 * 64 + k"
    using div_mult_mod_eq [of "c div 64" 64] by (simp add: k_def zdiv_zmult2_eq [symmetric])
  ultimately have c: "h * 262144 + j * 4096 + k * 64 + l = c"
    using div_mult_mod_eq [of c 64] by (simp add: l_def)
  have "encode8 c = [marked 0xF0 h, marked 0x80 j, marked 0x80 k, marked 0x80 l]"
    using assms by (simp add: encode8_def h_def j_def k_def l_def)
  moreover have "uint (marked 0xF0 h) = 0xF0 + h" "(0xF0 + h) mod 8 = h"
    using hkl marked_mod [of h 8 30] by (simp_all add: uint_marked)
  ultimately show ?thesis using hkl c assms by (simp add: continuation_byte)
qed

lemma decode8_encode8:
  assumes "scalar c"
  shows "decode8 (encode8 c @ bs) = map_option (Cons c) (decode8 bs)"
proof -
  consider "c < 0x80" | "0x80 \<le> c" "c < 0x800" | "0x800 \<le> c" "c < 0x10000" | "0x10000 \<le> c"
    by linarith
  then show ?thesis
  proof cases
    case 1
    then have "uint (word_of_int c :: u8) = c" using assms by (simp add: uint_word_of_int scalar_def)
    with 1 show ?thesis by (simp add: encode8_def)
  qed (use assms in \<open>simp_all add: decode8_encode8_2 decode8_encode8_3 decode8_encode8_4\<close>)
qed

lemma decode8_concat_encode8: "list_all scalar cs \<Longrightarrow> decode8 (concat (map encode8 cs)) = Some cs"
  by (induction cs) (simp_all add: decode8_encode8)

text \<open>
  Both conversions take \<open>string.data()\<close> as a null-terminated string: the text after a null
  character is dropped.
\<close>

definition Utf16ToUtf8 :: "u16 list \<Rightarrow> u8 list result" where
  "Utf16ToUtf8 s =
     (case decode16 (takeWhile (\<lambda>u. u \<noteq> 0) s) of
        None \<Rightarrow> Inl RangeError | Some cs \<Rightarrow> Inr (concat (map encode8 cs)))"

definition Utf8ToUtf16 :: "u8 list \<Rightarrow> u16 list result" where
  "Utf8ToUtf16 s =
     (case decode8 (takeWhile (\<lambda>b. b \<noteq> 0) s) of
        None \<Rightarrow> Inl RangeError | Some cs \<Rightarrow> Inr (concat (map encode16 cs)))"

lemma marked_nonzero: "0 \<le> v \<Longrightarrow> 0 < mark \<Longrightarrow> mark + v < 256 \<Longrightarrow> marked mark v \<noteq> 0"
  using uint_marked [of v mark] by auto

lemma encode8_nonzero:
  assumes "scalar c" and "c \<noteq> 0"
  shows "0 \<notin> set (encode8 c)"
proof -
  have cont: "marked 0x80 (x mod 64) \<noteq> 0" for x
  proof (rule marked_nonzero)
    show "0x80 + x mod 64 < 256" using pos_mod_bound [of 64 x] by linarith
  qed simp_all
  have "(word_of_int c :: u8) \<noteq> 0" if "c < 0x80"
  proof -
    from that have "uint (word_of_int c :: u8) = c"
      using assms by (simp add: uint_word_of_int scalar_def)
    with assms show ?thesis by auto
  qed
  moreover have "marked 0xC0 (c div 64) \<noteq> 0" if "c < 0x800"
    using that assms by (intro marked_nonzero) (auto simp: scalar_def)
  moreover have "marked 0xE0 (c div 4096) \<noteq> 0" if "c < 0x10000"
    using that assms by (intro marked_nonzero) (auto simp: scalar_def)
  moreover have "marked 0xF0 (c div 262144) \<noteq> 0"
    using assms by (intro marked_nonzero) (auto simp: scalar_def)
  ultimately show ?thesis using cont by (auto simp: encode8_def)
qed

lemma decode16_nonzero: "decode16 us = Some cs \<Longrightarrow> 0 \<notin> set us \<Longrightarrow> 0 \<notin> set cs"
proof (induction us arbitrary: cs rule: decode16.induct)
  case (2 u us)
  have "pair_cp u t \<noteq> 0" if "lead16 u" "trail16 t" for t
    using scalar_pair [OF that] that by (auto simp: pair_cp_def lead16_def trail16_def)
  moreover have "uint u \<noteq> 0" using 2(4) by (simp add: word_uint_eq_iff)
  ultimately show ?case using 2 by (auto split: if_splits list.splits)
qed simp

lemma takeWhile_nonzero: "0 \<notin> set xs \<Longrightarrow> takeWhile (\<lambda>x. x \<noteq> 0) xs = xs"
  by (induction xs) auto

text \<open>Well-formed text without null characters survives the way to UTF-8 and back.\<close>

lemma utf16_utf8_roundtrip:
  assumes "decode16 s = Some cs" and "0 \<notin> set s"
  shows "Utf16ToUtf8 s = Inr (concat (map encode8 cs))"
    "Utf8ToUtf16 (concat (map encode8 cs)) = Inr s"
proof -
  have sc: "list_all scalar cs" "0 \<notin> set cs"
    using decode16_scalar [OF assms(1)] decode16_nonzero [OF assms] by auto
  then have "0 \<notin> set (concat (map encode8 cs))"
    using encode8_nonzero by (auto simp: list_all_iff)
  then show "Utf8ToUtf16 (concat (map encode8 cs)) = Inr s"
    using sc encode16_decode16 [OF assms(1)]
    by (simp add: Utf8ToUtf16_def takeWhile_nonzero decode8_concat_encode8)
  show "Utf16ToUtf8 s = Inr (concat (map encode8 cs))"
    using assms by (simp add: Utf16ToUtf8_def takeWhile_nonzero)
qed

section \<open>Joining strings\<close>

text \<open>\<open>delim\<close> is the null-terminated C string; the loop runs over the index \<open>i\<close>.\<close>

function join_from :: "nat \<Rightarrow> u8 list list \<Rightarrow> u8 list \<Rightarrow> u8 list \<Rightarrow> u8 list" where
  "join_from i vec delim res =
     (if i < length vec then
        join_from (i + 1) vec delim (res @ vec ! i @ (if i < length vec - 1 then delim else []))
      else res)"
  by pat_completeness auto

termination
  by (relation "measure (\<lambda>(i, vec, _, _). length vec - i)") auto

declare join_from.simps [simp del]

definition Join :: "u8 list list \<Rightarrow> u8 list \<Rightarrow> u8 list" where
  "Join vec delim = join_from 0 vec delim []"

fun separated :: "'a list \<Rightarrow> 'a list list \<Rightarrow> 'a list" where
  "separated d [] = []"
| "separated d [x] = x"
| "separated d (x # y # ys) = x @ d @ separated d (y # ys)"

lemma join_from_separated: "join_from i vec delim res = res @ separated delim (drop i vec)"
proof (induction i vec delim res rule: join_from.induct)
  case (1 i vec delim res)
  show ?case
  proof (cases "i < length vec")
    case True
    then have "drop i vec = vec ! i # drop (i + 1) vec" by (simp add: Cons_nth_drop_Suc)
    with 1 True show ?thesis by (cases "drop (i + 1) vec") (auto simp: join_from.simps [of i])
  qed (simp add: join_from.simps [of i])
qed

text \<open>The strings in order with the delimiter between every two of them.\<close>

theorem Join_separated: "Join vec delim = separated delim vec"
  by (simp add: Join_def join_from_separated)

end
