(* ===== verification/Text_Input.thy ===== *)
theory Text_Input
  imports Unicode
begin

text \<open>
  \<open>shell/platform/common\<close>: text ranges, text editing deltas and the text input model, the UTF-16
  text of an input field with its selection and composing range.  Positions are \<open>size_t\<close>: their
  arithmetic wraps at \<open>2^64\<close>.
\<close>

section \<open>Text ranges\<close>

record TextRange =
  tr_base :: size_t
  tr_extent :: size_t

definition TextRange_at :: "size_t \<Rightarrow> TextRange" where
  "TextRange_at p = \<lparr>tr_base = p, tr_extent = p\<rparr>"

definition TextRange_of :: "size_t \<Rightarrow> size_t \<Rightarrow> TextRange" where
  "TextRange_of b e = \<lparr>tr_base = b, tr_extent = e\<rparr>"

definition tr_start :: "TextRange \<Rightarrow> size_t" where
  "tr_start r = min (tr_base r) (tr_extent r)"

definition tr_set_start :: "size_t \<Rightarrow> TextRange \<Rightarrow> TextRange" where
  "tr_set_start p r = (if tr_base r \<le> tr_extent r then r\<lparr>tr_base := p\<rparr> else r\<lparr>tr_extent := p\<rparr>)"

definition tr_end :: "TextRange \<Rightarrow> size_t" where
  "tr_end r = max (tr_base r) (tr_extent r)"

definition tr_set_end :: "size_t \<Rightarrow> TextRange \<Rightarrow> TextRange" where
  "tr_set_end p r = (if tr_base r \<le> tr_extent r then r\<lparr>tr_extent := p\<rparr> else r\<lparr>tr_base := p\<rparr>)"

definition tr_position :: "TextRange \<Rightarrow> size_t result" where
  "tr_position r = require DcheckFailed (tr_base r = tr_extent r) (Inr (tr_extent r))"

definition tr_length :: "TextRange \<Rightarrow> size_t" where
  "tr_length r = size_sub (tr_end r) (tr_start r)"

definition tr_collapsed :: "TextRange \<Rightarrow> bool" where
  "tr_collapsed r = (tr_base r = tr_extent r)"

definition tr_reversed :: "TextRange \<Rightarrow> bool" where
  "tr_reversed r = (tr_base r > tr_extent r)"

definition tr_contains_position :: "TextRange \<Rightarrow> size_t \<Rightarrow> bool" where
  "tr_contains_position r p = (p \<ge> tr_start r \<and> p \<le> tr_end r)"

definition tr_contains :: "TextRange \<Rightarrow> TextRange \<Rightarrow> bool" where
  "tr_contains r s = (tr_start s \<ge> tr_start r \<and> tr_end s \<le> tr_end r)"

section \<open>Text editing deltas\<close>

text \<open>\<open>static_cast\<close> of a \<open>size_t\<close> to \<open>int\<close> keeps the low 32 bits.\<close>

definition int32_of :: "int \<Rightarrow> int" where
  "int32_of x = (x + 2 ^ 31) mod 2 ^ 32 - 2 ^ 31"

record TextEditingDelta =
  ted_old_text :: "u16 list"
  ted_delta_text :: "u16 list"
  ted_delta_start :: int
  ted_delta_end :: int

definition TextEditingDelta_change :: "u16 list \<Rightarrow> TextRange \<Rightarrow> u16 list \<Rightarrow> TextEditingDelta" where
  "TextEditingDelta_change old rng text =
     \<lparr>ted_old_text = old, ted_delta_text = text, ted_delta_start = int32_of (tr_start rng),
      ted_delta_end = int32_of (size_add (tr_start rng) (tr_length rng))\<rparr>"

definition TextEditingDelta_change_utf8 ::
  "u8 list \<Rightarrow> TextRange \<Rightarrow> u8 list \<Rightarrow> TextEditingDelta result" where
  "TextEditingDelta_change_utf8 old rng text =
     rbind (Utf8ToUtf16 old) (\<lambda>old16. rbind (Utf8ToUtf16 text) (\<lambda>text16.
       Inr (TextEditingDelta_change old16 rng text16)))"

definition TextEditingDelta_none :: "u16 list \<Rightarrow> TextEditingDelta" where
  "TextEditingDelta_none text =
     \<lparr>ted_old_text = text, ted_delta_text = [], ted_delta_start = -1, ted_delta_end = -1\<rparr>"

section \<open>Strings\<close>

text \<open>The members of \<open>std::u16string\<close> that the model uses; a position past the end throws.\<close>

definition str_at :: "u16 list \<Rightarrow> size_t \<Rightarrow> u16 result" where
  "str_at s p = require OutOfRange (p < int (length s)) (Inr (s ! nat p))"

definition str_replace :: "size_t \<Rightarrow> size_t \<Rightarrow> u16 list \<Rightarrow> u16 list \<Rightarrow> u16 list result" where
  "str_replace p n t s =
     require OutOfRange (p \<le> int (length s))
       (Inr (take (nat p) s @ t @ drop (nat (min (p + n) (int (length s)))) s))"

definition str_erase :: "size_t \<Rightarrow> size_t \<Rightarrow> u16 list \<Rightarrow> u16 list result" where
  "str_erase p n s = str_replace p n [] s"

definition str_insert :: "size_t \<Rightarrow> u16 list \<Rightarrow> u16 list \<Rightarrow> u16 list result" where
  "str_insert p t s = str_replace p 0 t s"

section \<open>The model\<close>

record TextInputModel =
  tim_text :: "u16 list"
  tim_selection :: TextRange
  tim_composing_range :: TextRange
  tim_composing :: bool

definition TextInputModel_new :: TextInputModel where
  "TextInputModel_new =
     \<lparr>tim_text = [], tim_selection = TextRange_at 0, tim_composing_range = TextRange_at 0,
      tim_composing = False\<rparr>"

definition text_range :: "TextInputModel \<Rightarrow> TextRange" where
  "text_range m = TextRange_of 0 (int (length (tim_text m)))"

definition editable_range :: "TextInputModel \<Rightarrow> TextRange" where
  "editable_range m = (if tim_composing m then tim_composing_range m else text_range m)"

definition SetText ::
  "u8 list \<Rightarrow> TextRange \<Rightarrow> TextRange \<Rightarrow> TextInputModel \<Rightarrow> (bool \<times> TextInputModel) result" where
  "SetText text selection composing_range m =
     rbind (Utf8ToUtf16 text) (\<lambda>text16.
       let m = m\<lparr>tim_text := text16\<rparr>
       in if \<not> tr_contains (text_range m) selection \<or> \<not> tr_contains (text_range m) composing_range
          then Inr (False, m)
          else Inr (True, m\<lparr>tim_selection := selection, tim_composing_range := composing_range,
                            tim_composing := \<not> tr_collapsed composing_range\<rparr>))"

definition SetSelection :: "TextRange \<Rightarrow> TextInputModel \<Rightarrow> bool \<times> TextInputModel" where
  "SetSelection rng m =
     (if tim_composing m \<and> \<not> tr_collapsed rng then (False, m)
      else if \<not> tr_contains (editable_range m) rng then (False, m)
      else (True, m\<lparr>tim_selection := rng\<rparr>))"

definition SetComposingRange :: "TextRange \<Rightarrow> size_t \<Rightarrow> TextInputModel \<Rightarrow> bool \<times> TextInputModel" where
  "SetComposingRange rng cursor_offset m =
     (if \<not> tim_composing m \<or> \<not> tr_contains (text_range m) rng then (False, m)
      else (True, m\<lparr>tim_composing_range := rng,
                    tim_selection := TextRange_at (size_add (tr_start rng) cursor_offset)\<rparr>))"

definition BeginComposing :: "TextInputModel \<Rightarrow> TextInputModel" where
  "BeginComposing m =
     m\<lparr>tim_composing := True, tim_composing_range := TextRange_at (tr_start (tim_selection m))\<rparr>"

definition UpdateComposingText :: "u16 list \<Rightarrow> TextRange \<Rightarrow> TextInputModel \<Rightarrow> TextInputModel result" where
  "UpdateComposingText text selection m =
     (if length text = 0 \<and> tr_collapsed (tim_composing_range m) then Inr m
      else
        let rangeToDelete = (if tr_collapsed (tim_composing_range m) then tim_selection m
                             else tim_composing_range m)
        in rbind (str_replace (tr_start rangeToDelete) (tr_length rangeToDelete) text (tim_text m))
             (\<lambda>text'.
               let composing = tr_set_end (size_add (tr_start (tim_composing_range m))
                                             (int (length text))) (tim_composing_range m)
               in Inr (m\<lparr>tim_text := text', tim_composing_range := composing,
                         tim_selection := TextRange_of (size_add (tr_start selection) (tr_start composing))
                                            (size_add (tr_extent selection) (tr_start composing))\<rparr>)))"

definition UpdateComposingText_end :: "u16 list \<Rightarrow> TextInputModel \<Rightarrow> TextInputModel result" where
  "UpdateComposingText_end text = UpdateComposingText text (TextRange_at (int (length text)))"

definition UpdateComposingText_utf8 :: "u8 list \<Rightarrow> TextInputModel \<Rightarrow> TextInputModel result" where
  "UpdateComposingText_utf8 text m = rbind (Utf8ToUtf16 text) (\<lambda>t. UpdateComposingText_end t m)"

definition CommitComposing :: "TextInputModel \<Rightarrow> TextInputModel" where
  "CommitComposing m =
     (if tr_collapsed (tim_composing_range m) then m
      else let composing = TextRange_at (tr_end (tim_composing_range m))
           in m\<lparr>tim_composing_range := composing, tim_selection := composing\<rparr>)"

definition EndComposing :: "TextInputModel \<Rightarrow> TextInputModel" where
  "EndComposing m = m\<lparr>tim_composing := False, tim_composing_range := TextRange_at 0\<rparr>"

definition DeleteSelected :: "TextInputModel \<Rightarrow> (bool \<times> TextInputModel) result" where
  "DeleteSelected m =
     (if tr_collapsed (tim_selection m) then Inr (False, m)
      else
        let start = tr_start (tim_selection m)
        in rbind (str_erase start (tr_length (tim_selection m)) (tim_text m)) (\<lambda>text.
             let m = m\<lparr>tim_text := text, tim_selection := TextRange_at start\<rparr>
             in Inr (True, if tim_composing m then m\<lparr>tim_composing_range := tim_selection m\<rparr> else m)))"

definition AddText :: "u16 list \<Rightarrow> TextInputModel \<Rightarrow> TextInputModel result" where
  "AddText text m =
     rbind (DeleteSelected m) (\<lambda>(_, m).
     rbind
       (if tim_composing m then
          let composing = tim_composing_range m
          in rbind (str_erase (tr_start composing) (tr_length composing) (tim_text m)) (\<lambda>text'.
               Inr (m\<lparr>tim_text := text', tim_selection := TextRange_at (tr_start composing),
                      tim_composing_range :=
                        tr_set_end (size_add (tr_start composing) (int (length text))) composing\<rparr>))
        else Inr m) (\<lambda>m.
     rbind (tr_position (tim_selection m)) (\<lambda>position.
     rbind (str_insert position text (tim_text m)) (\<lambda>text'.
     Inr (m\<lparr>tim_text := text',
            tim_selection := TextRange_at (size_add position (int (length text)))\<rparr>)))))"

definition AddText_utf8 :: "u8 list \<Rightarrow> TextInputModel \<Rightarrow> TextInputModel result" where
  "AddText_utf8 text m = rbind (Utf8ToUtf16 text) (\<lambda>t. AddText t m)"

definition AddCodePoint :: "u32 \<Rightarrow> TextInputModel \<Rightarrow> TextInputModel result" where
  "AddCodePoint c m =
     (if c \<le> 0xFFFF then AddText [ucast c] m
      else let to_decompose = c - 0x10000
           in AddText [ucast (drop_bit 10 to_decompose + 0xD800),
                       ucast (to_decompose mod 0x400 + 0xDC00)] m)"

section \<open>Deleting around the cursor\<close>

text \<open>\<open>IsTrailingSurrogate(text_.at(p - 1)) ? 2 : 1\<close> and \<open>IsLeadingSurrogate(text_.at(p)) ? 2 : 1\<close>.\<close>

definition count_before :: "u16 list \<Rightarrow> size_t \<Rightarrow> size_t result" where
  "count_before s p =
     rbind (str_at s (size_sub p 1)) (\<lambda>c. Inr (if IsTrailingSurrogate (ucast c) then 2 else 1))"

definition count_after :: "u16 list \<Rightarrow> size_t \<Rightarrow> size_t result" where
  "count_after s p =
     rbind (str_at s p) (\<lambda>c. Inr (if IsLeadingSurrogate (ucast c) then 2 else 1))"

definition shrink_composing :: "size_t \<Rightarrow> TextInputModel \<Rightarrow> TextInputModel" where
  "shrink_composing n m =
     (if tim_composing m
      then m\<lparr>tim_composing_range :=
               tr_set_end (size_sub (tr_end (tim_composing_range m)) n) (tim_composing_range m)\<rparr>
      else m)"

definition Backspace :: "TextInputModel \<Rightarrow> (bool \<times> TextInputModel) result" where
  "Backspace m =
     rbind (DeleteSelected m) (\<lambda>(deleted, m).
       if deleted then Inr (True, m)
       else rbind (tr_position (tim_selection m)) (\<lambda>position.
         if position \<noteq> tr_start (editable_range m) then
           rbind (count_before (tim_text m) position) (\<lambda>n.
           rbind (str_erase (size_sub position n) n (tim_text m)) (\<lambda>text.
             Inr (True, shrink_composing n
               (m\<lparr>tim_text := text, tim_selection := TextRange_at (size_sub position n)\<rparr>))))
         else Inr (False, m)))"

definition Delete :: "TextInputModel \<Rightarrow> (bool \<times> TextInputModel) result" where
  "Delete m =
     rbind (DeleteSelected m) (\<lambda>(deleted, m).
       if deleted then Inr (True, m)
       else rbind (tr_position (tim_selection m)) (\<lambda>position.
         if position < tr_end (editable_range m) then
           rbind (count_after (tim_text m) position) (\<lambda>n.
           rbind (str_erase position n (tim_text m)) (\<lambda>text.
             Inr (True, shrink_composing n (m\<lparr>tim_text := text\<rparr>))))
         else Inr (False, m)))"

text \<open>The three loops of \<open>DeleteSurrounding\<close>, with the iterations left as first argument.\<close>

fun surround_back :: "nat \<Rightarrow> int \<Rightarrow> int \<Rightarrow> size_t \<Rightarrow> TextInputModel \<Rightarrow> (int \<times> size_t) result" where
  "surround_back 0 i n start m = Inr (n, start)"
| "surround_back (Suc k) i n start m =
     (if start = tr_start (editable_range m) then Inr (i, start)
      else rbind (count_before (tim_text m) start) (\<lambda>d.
        surround_back k (i + 1) n (size_sub start d) m))"

fun surround_forward :: "nat \<Rightarrow> size_t \<Rightarrow> size_t \<Rightarrow> TextInputModel \<Rightarrow> size_t result" where
  "surround_forward 0 start max_pos m = Inr start"
| "surround_forward (Suc k) start max_pos m =
     (if start = max_pos then Inr start
      else rbind (count_after (tim_text m) start) (\<lambda>d.
        surround_forward k (size_add start d) max_pos m))"

fun surround_end :: "nat \<Rightarrow> size_t \<Rightarrow> size_t \<Rightarrow> size_t \<Rightarrow> TextInputModel \<Rightarrow> size_t result" where
  "surround_end 0 start en max_pos m = Inr en"
| "surround_end (Suc k) start en max_pos m =
     (if en = max_pos then Inr en
      else rbind (count_after (tim_text m) start) (\<lambda>d.
        surround_end k start (size_add en d) max_pos m))"

definition DeleteSurrounding :: "int \<Rightarrow> int \<Rightarrow> TextInputModel \<Rightarrow> (bool \<times> TextInputModel) result" where
  "DeleteSurrounding offset_from_cursor n m =
     (let max_pos = tr_end (editable_range m);
          start = tr_extent (tim_selection m)
      in rbind
        (if offset_from_cursor < 0 then
           require Undefined (offset_from_cursor \<noteq> - (2 ^ 31))
             (surround_back (nat (- offset_from_cursor)) 0 n start m)
         else rbind (surround_forward (nat offset_from_cursor) start max_pos m) (\<lambda>s. Inr (n, s)))
        (\<lambda>(n, start).
      rbind (surround_end (nat n) start start max_pos m) (\<lambda>en.
        if start = en then Inr (False, m)
        else
          let deleted_length = size_sub en start
          in rbind (str_erase start deleted_length (tim_text m)) (\<lambda>text.
               Inr (True, shrink_composing deleted_length
                 (m\<lparr>tim_text := text,
                    tim_selection := TextRange_at (if offset_from_cursor \<le> 0 then start
                                                   else tr_start (tim_selection m))\<rparr>))))))"

section \<open>Moving the cursor and selecting\<close>

definition at_collapsed :: "TextInputModel \<Rightarrow> size_t \<Rightarrow> bool" where
  "at_collapsed m p = (tr_collapsed (tim_selection m) \<and> tr_extent (tim_selection m) = p)"

definition MoveCursorToBeginning :: "TextInputModel \<Rightarrow> bool \<times> TextInputModel" where
  "MoveCursorToBeginning m =
     (let min_pos = tr_start (editable_range m)
      in if at_collapsed m min_pos then (False, m)
         else (True, m\<lparr>tim_selection := TextRange_at min_pos\<rparr>))"

definition MoveCursorToEnd :: "TextInputModel \<Rightarrow> bool \<times> TextInputModel" where
  "MoveCursorToEnd m =
     (let max_pos = tr_end (editable_range m)
      in if at_collapsed m max_pos then (False, m)
         else (True, m\<lparr>tim_selection := TextRange_at max_pos\<rparr>))"

definition SelectToBeginning :: "TextInputModel \<Rightarrow> bool \<times> TextInputModel" where
  "SelectToBeginning m =
     (let min_pos = tr_start (editable_range m)
      in if at_collapsed m min_pos then (False, m)
         else (True, m\<lparr>tim_selection := TextRange_of (tr_base (tim_selection m)) min_pos\<rparr>))"

definition SelectToEnd :: "TextInputModel \<Rightarrow> bool \<times> TextInputModel" where
  "SelectToEnd m =
     (let max_pos = tr_end (editable_range m)
      in if at_collapsed m max_pos then (False, m)
         else (True, m\<lparr>tim_selection := TextRange_of (tr_base (tim_selection m)) max_pos\<rparr>))"

definition MoveCursorForward :: "TextInputModel \<Rightarrow> (bool \<times> TextInputModel) result" where
  "MoveCursorForward m =
     (if \<not> tr_collapsed (tim_selection m)
      then Inr (True, m\<lparr>tim_selection := TextRange_at (tr_end (tim_selection m))\<rparr>)
      else rbind (tr_position (tim_selection m)) (\<lambda>position.
        if position \<noteq> tr_end (editable_range m) then
          rbind (count_after (tim_text m) position) (\<lambda>n.
            Inr (True, m\<lparr>tim_selection := TextRange_at (size_add position n)\<rparr>))
        else Inr (False, m)))"

definition MoveCursorBack :: "TextInputModel \<Rightarrow> (bool \<times> TextInputModel) result" where
  "MoveCursorBack m =
     (if \<not> tr_collapsed (tim_selection m)
      then Inr (True, m\<lparr>tim_selection := TextRange_at (tr_start (tim_selection m))\<rparr>)
      else rbind (tr_position (tim_selection m)) (\<lambda>position.
        if position \<noteq> tr_start (editable_range m) then
          rbind (count_before (tim_text m) position) (\<lambda>n.
            Inr (True, m\<lparr>tim_selection := TextRange_at (size_sub position n)\<rparr>))
        else Inr (False, m)))"

section \<open>Reading\<close>

definition GetText :: "TextInputModel \<Rightarrow> u8 list result" where
  "GetText m = Utf16ToUtf8 (tim_text m)"

definition GetCursorOffset :: "TextInputModel \<Rightarrow> int result" where
  "GetCursorOffset m =
     rbind (Utf16ToUtf8 (take (nat (tr_extent (tim_selection m))) (tim_text m)))
       (\<lambda>bytes. Inr (int32_of (int (length bytes))))"

end
