(* ===== verification/Text_Input_Inv.thy ===== *)
theory Text_Input_Inv
  imports Text_Input
begin

text \<open>
  The invariant of the text input model: the text is well-formed UTF-16, the ends of the selection
  and of the composing range lie between code points, and while composing the selection is in the
  composing range.  Positions are related to code points through \<open>enc\<close>.
\<close>

section \<open>Code points of a text\<close>

definition enc :: "int list \<Rightarrow> u16 list" where
  "enc cs = concat (map encode16 cs)"

abbreviation len :: "'a list \<Rightarrow> int" where
  "len xs \<equiv> int (length xs)"

lemma enc_simps [simp]: "enc [] = []" "enc (c # cs) = encode16 c @ enc cs" "enc (xs @ ys) = enc xs @ enc ys"
  by (simp_all add: enc_def)

lemma decode16_enc: "list_all scalar cs \<Longrightarrow> decode16 (enc cs) = Some cs"
  by (simp add: enc_def decode16_concat_encode16)

lemma enc_inject:
  assumes "list_all scalar xs" "list_all scalar ys" "enc xs = enc ys"
  shows "xs = ys"
  using decode16_enc [OF assms(1)] decode16_enc [OF assms(2)] assms(3) by (metis option.inject)

lemma enc_prefix:
  assumes "list_all scalar xs" "list_all scalar ys" "enc ys = enc xs @ r"
  obtains zs where "r = enc zs" "ys = xs @ zs" "list_all scalar zs"
proof -
  have "decode16 (enc xs @ r) = Some ys" using decode16_enc [OF assms(2)] assms(3) by metis
  then have "map_option ((@) xs) (decode16 r) = Some ys"
    using decode16_append [OF decode16_enc [OF assms(1)], of r] by metis
  then obtain zs where zs: "decode16 r = Some zs" "ys = xs @ zs" by auto
  moreover have "r = enc zs" using encode16_decode16 [OF zs(1)] by (simp add: enc_def)
  ultimately show ?thesis using that decode16_scalar by blast
qed

lemma encode16_cases:
  assumes "scalar c"
  obtains u where "encode16 c = [u]" "\<not> lead16 u" "\<not> trail16 u"
    | u t where "encode16 c = [u, t]" "lead16 u" "trail16 t" "\<not> trail16 u" "\<not> lead16 t"
proof (cases "c \<le> 0xFFFF")
  case True
  then have "encode16 c = [word_of_int c]" "uint (word_of_int c :: u16) = c"
    using assms by (simp_all add: encode16_def uint_u16_small scalar_def)
  moreover have "c div 1024 \<noteq> 54" "c div 1024 \<noteq> 55" using assms by (auto simp: scalar_def)
  ultimately show ?thesis using that(1) by (simp add: lead16_def trail16_def)
next
  case False
  from encode16_high [OF assms this] obtain u t
    where "encode16 c = [u, t]" "lead16 u" "trail16 t" by metis
  then show ?thesis using that(2) by (simp add: lead16_def trail16_def)
qed

section \<open>Boundaries\<close>

definition boundary :: "u16 list \<Rightarrow> int \<Rightarrow> bool" where
  "boundary us p =
     (\<exists>b a. us = enc b @ enc a \<and> list_all scalar b \<and> list_all scalar a \<and> p = len (enc b))"

lemma boundary_bounds: "boundary us p \<Longrightarrow> 0 \<le> p \<and> p \<le> len us"
  by (auto simp: boundary_def)

lemma boundaryI:
  "us = enc b @ enc a \<Longrightarrow> list_all scalar b \<Longrightarrow> list_all scalar a \<Longrightarrow> boundary us (len (enc b))"
  by (auto simp: boundary_def)

text \<open>A boundary can be tested by decoding both parts.\<close>

lemma boundary_decode [code]:
  "boundary us p \<longleftrightarrow> 0 \<le> p \<and> p \<le> len us \<and> decode16 (take (nat p) us) \<noteq> None \<and>
     decode16 (drop (nat p) us) \<noteq> None"
proof
  assume "boundary us p"
  then obtain b a where "us = enc b @ enc a" "list_all scalar b" "list_all scalar a" "p = len (enc b)"
    by (auto simp: boundary_def)
  then show "0 \<le> p \<and> p \<le> len us \<and> decode16 (take (nat p) us) \<noteq> None \<and> decode16 (drop (nat p) us) \<noteq> None"
    using decode16_enc [of b] decode16_enc [of a] by simp
next
  assume p: "0 \<le> p \<and> p \<le> len us \<and> decode16 (take (nat p) us) \<noteq> None \<and> decode16 (drop (nat p) us) \<noteq> None"
  then obtain b a where ba: "decode16 (take (nat p) us) = Some b" "decode16 (drop (nat p) us) = Some a" by auto
  have e: "take (nat p) us = enc b" "drop (nat p) us = enc a"
    using encode16_decode16 [OF ba(1)] encode16_decode16 [OF ba(2)] by (simp_all add: enc_def)
  have "len (take (nat p) us) = p" using p by (auto simp: min_def nat_le_iff)
  then have "p = len (enc b)" by (simp only: e)
  moreover have "us = enc b @ enc a" using e by (metis append_take_drop_id)
  ultimately show "boundary us p"
    using boundaryI [of us b a] decode16_scalar [OF ba(1)] decode16_scalar [OF ba(2)] by (simp only:)
qed

lemma boundary_0_len:
  assumes "boundary us p"
  shows "boundary us 0" "boundary us (len us)"
proof -
  from assms obtain b a where *: "us = enc b @ enc a" "list_all scalar b" "list_all scalar a"
    by (auto simp: boundary_def)
  show "boundary us 0" using boundaryI [of us "[]" "b @ a"] * by simp
  show "boundary us (len us)" using boundaryI [of us "b @ a" "[]"] * by simp
qed

lemma boundary_two:
  assumes "boundary us p" "boundary us q" "p \<le> q"
  obtains b s a where "us = enc b @ enc s @ enc a" "p = len (enc b)" "q = len (enc b) + len (enc s)"
    "list_all scalar b" "list_all scalar s" "list_all scalar a"
proof -
  from assms(1) obtain b a1 where 1: "us = enc b @ enc a1" "list_all scalar b" "p = len (enc b)"
    by (auto simp: boundary_def)
  from assms(2) obtain b2 a where 2: "us = enc b2 @ enc a" "list_all scalar b2" "list_all scalar a"
      "q = len (enc b2)" by (auto simp: boundary_def)
  have "enc b = take (length (enc b)) us" using 1 by simp
  also have "\<dots> = take (length (enc b)) (enc b2)"
    unfolding 2(1) using 1(3) 2(4) assms(3) by (subst take_append) simp
  finally have "enc b2 = enc b @ drop (length (enc b)) (enc b2)" by (metis append_take_drop_id)
  from enc_prefix [OF 1(2) 2(2) this] obtain s
    where "b2 = b @ s" "list_all scalar s" by metis
  with 1 2 show ?thesis using that [of b s a] by simp
qed

text \<open>Replacing the units between two boundaries by a well-formed text.\<close>

lemma str_replace_enc:
  "str_replace (len x) (len y) t (x @ y @ z) = Inr (x @ t @ z)"
proof -
  have "min (len x + len y) (len (x @ y @ z)) = int (length x + length y)" by simp
  then show ?thesis by (simp add: str_replace_def del: of_nat_add)
qed

lemma boundary_replace_low:
  assumes "boundary (enc b @ enc s @ enc a) q" "q \<le> len (enc b)"
    and "list_all scalar b" "list_all scalar s" "list_all scalar t" "list_all scalar a"
  shows "boundary (enc b @ enc t @ enc a) q"
proof -
  have "boundary (enc b @ enc s @ enc a) (len (enc b))"
    using assms by (intro boundaryI [where a = "s @ a"]) simp_all
  from boundary_two [OF assms(1) this assms(2)] obtain x y z
    where x: "q = len (enc x)" "len (enc b) = len (enc x) + len (enc y)"
      "enc b @ enc s @ enc a = enc x @ enc y @ enc z" "list_all scalar x" "list_all scalar y"
    by metis
  then have "length (enc b) = length (enc x @ enc y)" by simp
  moreover have "enc b @ (enc s @ enc a) = (enc x @ enc y) @ enc z" using x(3) by simp
  ultimately have "enc b = enc x @ enc y" by (metis append_eq_append_conv)
  with x assms show ?thesis
    using boundaryI [of "enc b @ enc t @ enc a" x "y @ t @ a"] by simp
qed

lemma boundary_replace_high:
  assumes "boundary (enc b @ enc s @ enc a) q" "len (enc b) + len (enc s) \<le> q"
    and "list_all scalar b" "list_all scalar s" "list_all scalar t" "list_all scalar a"
  shows "boundary (enc b @ enc t @ enc a) (q - len (enc s) + len (enc t))"
proof -
  have "boundary (enc b @ enc s @ enc a) (len (enc (b @ s)))"
    using assms by (intro boundaryI [where a = a]) simp_all
  moreover have "len (enc (b @ s)) \<le> q" using assms(2) by simp
  ultimately obtain x y z
    where x: "len (enc (b @ s)) = len (enc x)" "q = len (enc x) + len (enc y)"
      "enc b @ enc s @ enc a = enc x @ enc y @ enc z" "list_all scalar y" "list_all scalar z"
    using assms(1) by (metis boundary_two)
  then have "length (enc b @ enc s) = length (enc x)" by simp
  moreover have "(enc b @ enc s) @ enc a = enc x @ (enc y @ enc z)" using x(3) by simp
  ultimately have "enc a = enc y @ enc z" by (metis append_eq_append_conv)
  then have "boundary (enc b @ enc t @ enc a) (len (enc (b @ t @ y)))"
    using x assms by (intro boundaryI [where a = z]) simp_all
  moreover have "len (enc (b @ t @ y)) = q - len (enc s) + len (enc t)" using x(1,2) by simp
  ultimately show ?thesis by (simp only:)
qed

section \<open>One code point before or after a boundary\<close>

lemma count_before_enc:
  assumes "list_all scalar b" "scalar c" "len (enc (b @ [c])) < 2 ^ 64"
  shows "count_before (enc (b @ [c]) @ r) (len (enc (b @ [c]))) = Inr (len (encode16 c))"
  using assms(2)
proof (cases c rule: encode16_cases)
  case (1 u)
  with assms(3) show ?thesis
    by (simp add: count_before_def str_at_def nth_append IsTrailingSurrogate_u16)
next
  case (2 u t)
  then have "enc (b @ [c]) = enc b @ [u, t]" by simp
  moreover have "size_sub (len (enc b @ [u, t])) 1 = len (enc b) + 1"
    using assms(3) 2 by (subst size_sub_small) simp_all
  moreover have "((enc b @ [u, t]) @ r) ! nat (len (enc b) + 1) = t"
    by (simp add: nth_append nat_add_distrib)
  ultimately show ?thesis
    using 2 by (simp add: count_before_def str_at_def IsTrailingSurrogate_u16)
qed

lemma count_after_enc:
  assumes "scalar c"
  shows "count_after (enc b @ encode16 c @ r) (len (enc b)) = Inr (len (encode16 c))"
  using assms
proof (cases c rule: encode16_cases)
  case (1 u)
  then show ?thesis by (simp add: count_after_def str_at_def nth_append IsLeadingSurrogate_u16)
next
  case (2 u t)
  then show ?thesis by (simp add: count_after_def str_at_def nth_append IsLeadingSurrogate_u16)
qed

section \<open>The invariant\<close>

definition tim_inv :: "TextInputModel \<Rightarrow> bool" where
  "tim_inv m =
     (len (tim_text m) < 2 ^ 62 \<and>
      boundary (tim_text m) (tr_base (tim_selection m)) \<and>
      boundary (tim_text m) (tr_extent (tim_selection m)) \<and>
      (\<not> tim_composing m \<longrightarrow> tr_collapsed (tim_composing_range m)) \<and>
      (tim_composing m \<longrightarrow>
         boundary (tim_text m) (tr_base (tim_composing_range m)) \<and>
         boundary (tim_text m) (tr_extent (tim_composing_range m)) \<and>
         (tr_contains (tim_composing_range m) (tim_selection m) \<or>
          tim_composing_range m = TextRange_at (tr_start (tim_selection m)))))"

text \<open>The text as code points before, in and after the selection.\<close>

definition cps_split :: "TextInputModel \<Rightarrow> int list \<Rightarrow> int list \<Rightarrow> int list \<Rightarrow> bool" where
  "cps_split m b s a =
     (tim_text m = enc b @ enc s @ enc a \<and>
      tr_start (tim_selection m) = len (enc b) \<and> tr_end (tim_selection m) = len (enc b) + len (enc s) \<and>
      list_all scalar b \<and> list_all scalar s \<and> list_all scalar a)"

lemmas tr_defs = tr_start_def tr_end_def tr_collapsed_def tr_contains_def tr_length_def
  TextRange_at_def TextRange_of_def tr_set_end_def tr_position_def

lemma TextRange_at_simps [simp]:
  "tr_start (TextRange_at p) = p" "tr_end (TextRange_at p) = p" "tr_base (TextRange_at p) = p"
  "tr_extent (TextRange_at p) = p" "tr_collapsed (TextRange_at p)" "tr_position (TextRange_at p) = Inr p"
  by (simp_all add: tr_defs)

lemma boundary_start_end:
  "boundary t (tr_base r) \<Longrightarrow> boundary t (tr_extent r) \<Longrightarrow> boundary t (tr_start r) \<and> boundary t (tr_end r)"
  by (simp add: tr_defs min_def max_def)

lemma tr_start_le_end: "tr_start r \<le> tr_end r"
  by (simp add: tr_defs)

lemma tim_inv_split:
  assumes "tim_inv m"
  obtains b s a where "cps_split m b s a"
proof -
  from assms have "boundary (tim_text m) (tr_start (tim_selection m))"
    "boundary (tim_text m) (tr_end (tim_selection m))"
    by (simp_all add: tim_inv_def boundary_start_end)
  from boundary_two [OF this tr_start_le_end] obtain b s a
    where "tim_text m = enc b @ enc s @ enc a" "tr_start (tim_selection m) = len (enc b)"
      "tr_end (tim_selection m) = len (enc b) + len (enc s)"
      "list_all scalar b" "list_all scalar s" "list_all scalar a" .
  then have "cps_split m b s a" unfolding cps_split_def by blast
  then show ?thesis by (rule that)
qed

lemma encode16_not_Nil [simp]: "encode16 c \<noteq> []"
  by (simp add: encode16_def)

lemma enc_eq_Nil [simp]: "enc cs = [] \<longleftrightarrow> cs = []"
  by (cases cs) simp_all

lemma tr_collapsed_iff: "tr_collapsed r \<longleftrightarrow> tr_start r = tr_end r"
  by (auto simp: tr_defs min_def max_def)

lemma collapsed_iff: "cps_split m b s a \<Longrightarrow> tr_collapsed (tim_selection m) \<longleftrightarrow> s = []"
  by (simp add: cps_split_def tr_collapsed_iff)

lemma cps_split_length:
  assumes "tim_inv m" "cps_split m b s a"
  shows "tr_length (tim_selection m) = len (enc s)"
  using assms by (simp add: cps_split_def tr_length_def tim_inv_def)

text \<open>
  What an edit of the segment \<open>s\<close> between \<open>b\<close> and \<open>a\<close> keeps: the length bound is the only
  condition on the new segment \<open>t\<close>.
\<close>

lemma boundary_points:
  assumes "list_all scalar b" "list_all scalar t" "list_all scalar a"
  shows "boundary (enc b @ enc t @ enc a) (len (enc b))"
    "boundary (enc b @ enc t @ enc a) (len (enc b) + len (enc t))"
    "boundary (enc b @ enc a) (len (enc b))"
  using assms boundaryI [of "enc b @ enc t @ enc a" b "t @ a"]
    boundaryI [of "enc b @ enc t @ enc a" "b @ t" a] boundaryI [of "enc b @ enc a" b a]
  by simp_all

lemma DeleteSelected_ok:
  assumes inv: "tim_inv m" and sp: "cps_split m b s a" and ne: "s \<noteq> []"
  defines "m1 \<equiv> m\<lparr>tim_text := enc b @ enc a, tim_selection := TextRange_at (len (enc b))\<rparr>"
  shows "DeleteSelected m = Inr (True,
      if tim_composing m then m1\<lparr>tim_composing_range := TextRange_at (len (enc b))\<rparr> else m1)"
proof -
  have "str_erase (len (enc b)) (len (enc s)) (tim_text m) = Inr (enc b @ enc a)"
    using sp str_replace_enc [of "enc b" "enc s" "[]" "enc a"] by (simp add: str_erase_def cps_split_def)
  with collapsed_iff [OF sp] ne cps_split_length [OF inv sp] sp show ?thesis
    by (simp add: DeleteSelected_def m1_def cps_split_def Let_def)
qed

lemma tim_inv_cursor:
  assumes "list_all scalar b" "list_all scalar a" "len (enc b @ enc a) < 2 ^ 62"
    and "tim_text m = enc b @ enc a" "tim_selection m = TextRange_at (len (enc b))"
    and "tim_composing_range m = TextRange_at (len (enc b)) \<or>
      \<not> tim_composing m \<and> tr_collapsed (tim_composing_range m)"
  shows "tim_inv m"
  using assms boundaryI [of "enc b @ enc a" b a] by (auto simp: tim_inv_def)

lemma DeleteSelected_inv:
  assumes inv: "tim_inv m"
  obtains r m' b a s where "DeleteSelected m = Inr (r, m')" "tim_inv m'" "cps_split m' b [] a"
    "cps_split m b s a" "r \<longleftrightarrow> s \<noteq> []" "\<not> r \<Longrightarrow> m' = m" "tim_composing m' = tim_composing m"
    "r \<Longrightarrow> tim_composing m \<Longrightarrow> tim_composing_range m' = TextRange_at (len (enc b))"
proof -
  obtain b s a where sp: "cps_split m b s a" using tim_inv_split [OF inv] .
  show ?thesis
  proof (cases "s = []")
    case True
    with sp collapsed_iff [OF sp] inv show ?thesis
      using that [of False m b a "[]"] by (simp add: DeleteSelected_def)
  next
    case False
    define m1 where "m1 = m\<lparr>tim_text := enc b @ enc a, tim_selection := TextRange_at (len (enc b))\<rparr>"
    let ?m = "if tim_composing m then m1\<lparr>tim_composing_range := TextRange_at (len (enc b))\<rparr> else m1"
    have sc: "list_all scalar b" "list_all scalar a" "len (enc b @ enc a) < 2 ^ 62"
      using sp inv by (simp_all add: cps_split_def tim_inv_def)
    have "tim_inv ?m"
      using inv by (intro tim_inv_cursor [OF sc]) (simp_all add: m1_def tim_inv_def)
    moreover have "cps_split ?m b [] a" using sc by (simp add: cps_split_def m1_def)
    moreover have "DeleteSelected m = Inr (True, ?m)"
      using DeleteSelected_ok [OF inv sp False] by (simp add: m1_def)
    ultimately show ?thesis using that [of True ?m b a s] sp False by (simp add: m1_def)
  qed
qed

end
