(* ===== verification/Text_Input_Ops.thy ===== *)
theory Text_Input_Ops
  imports Text_Input_Inv
begin

text \<open>
  The operations of the text input model keep its invariant, never throw in a state that satisfies
  it, and act on whole code points.
\<close>

section \<open>Ranges\<close>

lemma boundary_range_iff:
  "boundary t (tr_base r) \<and> boundary t (tr_extent r) \<longleftrightarrow> boundary t (tr_start r) \<and> boundary t (tr_end r)"
  by (auto simp: tr_defs min_def max_def)

lemma tim_inv_iff:
  "tim_inv m \<longleftrightarrow>
     len (tim_text m) < 2 ^ 62 \<and>
     boundary (tim_text m) (tr_start (tim_selection m)) \<and>
     boundary (tim_text m) (tr_end (tim_selection m)) \<and>
     (\<not> tim_composing m \<longrightarrow> tr_collapsed (tim_composing_range m)) \<and>
     (tim_composing m \<longrightarrow>
        boundary (tim_text m) (tr_start (tim_composing_range m)) \<and>
        boundary (tim_text m) (tr_end (tim_composing_range m)) \<and>
        (tr_contains (tim_composing_range m) (tim_selection m) \<or>
         tim_composing_range m = TextRange_at (tr_start (tim_selection m))))"
  using boundary_range_iff [of "tim_text m" "tim_selection m"]
    boundary_range_iff [of "tim_text m" "tim_composing_range m"]
  unfolding tim_inv_def by blast

lemma tr_set_end_simps [simp]:
  "tr_start r \<le> p \<Longrightarrow> tr_start (tr_set_end p r) = tr_start r"
  "tr_start r \<le> p \<Longrightarrow> tr_end (tr_set_end p r) = p"
  by (auto simp: tr_defs min_def max_def)

lemma boundary_prev:
  assumes "boundary (enc (b @ [c]) @ enc a) q" "q < len (enc (b @ [c]))"
    and "list_all scalar b" "scalar c" "list_all scalar a"
  shows "q \<le> len (enc b)"
proof -
  have "boundary (enc (b @ [c]) @ enc a) (len (enc (b @ [c])))"
    using assms by (intro boundaryI [where a = a]) simp_all
  from boundary_two [OF assms(1) this] assms(2) obtain x y z
    where x: "q = len (enc x)" "len (enc (b @ [c])) = len (enc x) + len (enc y)"
      "enc (b @ [c]) @ enc a = enc x @ enc y @ enc z" "list_all scalar x" "list_all scalar y"
    by (metis less_le)
  then have "length (enc (b @ [c])) = length (enc (x @ y))" by simp
  moreover have "enc (b @ [c]) @ enc a = enc (x @ y) @ enc z" using x(3) by simp
  ultimately have "enc (b @ [c]) = enc (x @ y)" by (metis append_eq_append_conv)
  then have eq: "b @ [c] = x @ y" using assms x by (intro enc_inject) simp_all
  moreover have "y \<noteq> []" using x(1,2) assms(2) by auto
  ultimately obtain y0 where "b = x @ y0" by (metis append_butlast_last_id append_eq_append_conv2
      append_assoc butlast_append butlast_snoc)
  then show ?thesis using x(1) by simp
qed

lemma boundary_next:
  assumes "boundary (enc b @ enc (c # a)) q" "len (enc b) < q"
    and "list_all scalar b" "scalar c" "list_all scalar a"
  shows "len (enc b) + len (encode16 c) \<le> q"
proof -
  have "boundary (enc b @ enc (c # a)) (len (enc b))"
    using assms by (intro boundaryI [where a = "c # a"]) simp_all
  from boundary_two [OF this assms(1)] assms(2) obtain x y z
    where x: "len (enc b) = len (enc x)" "q = len (enc x) + len (enc y)"
      "enc b @ enc (c # a) = enc x @ enc y @ enc z" "list_all scalar y" "list_all scalar z"
    by (metis less_le)
  then have "enc (c # a) = enc (y @ z)" by (simp add: append_eq_append_conv)
  then have "c # a = y @ z" using assms x by (intro enc_inject) simp_all
  moreover have "y \<noteq> []" using x(1,2) assms(2) by auto
  ultimately obtain y0 where "y = c # y0" by (metis append_eq_Cons_conv)
  then show ?thesis using x(1,2) by simp
qed

section \<open>Adding text\<close>

lemma str_erase_enc: "str_erase (len x) (len y) (x @ y @ z) = Inr (x @ z)"
  using str_replace_enc [of x y "[]" z] by (simp add: str_erase_def)

lemma str_insert_enc: "str_insert (len x) t (x @ z) = Inr (x @ t @ z)"
  using str_replace_enc [of x "[]" t z] by (simp add: str_insert_def)

lemma AddText_plain:
  assumes inv: "tim_inv m" and sp: "cps_split m b s a" and nc: "\<not> tim_composing m"
    and t: "list_all scalar t" and bound: "len (tim_text m) + len (enc t) < 2 ^ 62"
  obtains m' where "AddText (enc t) m = Inr m'" "tim_inv m'" "cps_split m' (b @ t) [] a"
    "tim_composing m' = tim_composing m"
proof -
  have sc: "list_all scalar b" "list_all scalar a" using sp by (simp_all add: cps_split_def)
  obtain r m1 where del: "DeleteSelected m = Inr (r, m1)"
    and m1: "tim_text m1 = enc b @ enc a" "tim_selection m1 = TextRange_at (len (enc b))"
      "\<not> tim_composing m1" "tr_collapsed (tim_composing_range m1)"
  proof (cases "s = []")
    case True
    with sp have "tr_base (tim_selection m) = len (enc b)" "tr_extent (tim_selection m) = len (enc b)"
      by (auto simp: cps_split_def tr_defs min_def max_def split: if_splits)
    then have "tim_selection m = TextRange_at (len (enc b))" by (simp add: TextRange_at_def)
    with that [of False m] True nc sp collapsed_iff [OF sp] inv show ?thesis
      by (simp add: DeleteSelected_def cps_split_def tim_inv_def)
  next
    case False
    with DeleteSelected_ok [OF inv sp] nc that inv show ?thesis by (simp add: tim_inv_def)
  qed
  let ?m = "m1\<lparr>tim_text := enc b @ enc t @ enc a, tim_selection := TextRange_at (len (enc b) + len (enc t))\<rparr>"
  have len: "len (enc b) + len (enc t) + len (enc a) < 2 ^ 62"
    using bound sp by (simp add: cps_split_def)
  have "AddText (enc t) m = Inr ?m"
    using del m1 len by (simp add: AddText_def str_insert_enc)
  moreover have "tim_inv ?m"
    using m1 sc t len by (intro tim_inv_cursor [of "b @ t" a]) simp_all
  moreover have "cps_split ?m (b @ t) [] a" using sc t by (simp add: cps_split_def)
  ultimately show ?thesis using that nc m1 by simp
qed

lemma AddText_composing:
  assumes inv: "tim_inv m" and co: "tim_composing m"
    and t: "list_all scalar t" and bound: "len (tim_text m) + len (enc t) < 2 ^ 62"
  obtains m' where "AddText (enc t) m = Inr m'" "tim_inv m'" "tim_composing m'"
proof -
  obtain r m1 b a s where del: "DeleteSelected m = Inr (r, m1)" and inv1: "tim_inv m1"
    and sp: "cps_split m b s a" "cps_split m1 b [] a" and co1: "tim_composing m1 = tim_composing m"
    using DeleteSelected_inv [OF inv] by metis
  let ?c = "tim_composing_range m1"
  from inv1 co co1 have "boundary (tim_text m1) (tr_start ?c)" "boundary (tim_text m1) (tr_end ?c)"
    by (simp_all add: tim_inv_iff)
  from boundary_two [OF this tr_start_le_end] obtain x y z
    where x: "tim_text m1 = enc x @ enc y @ enc z" "tr_start ?c = len (enc x)"
      "tr_end ?c = len (enc x) + len (enc y)"
      "list_all scalar x" "list_all scalar y" "list_all scalar z" .
  have "len (tim_text m1) \<le> len (tim_text m)" using sp by (simp add: cps_split_def)
  then have len: "len (enc x) + len (enc t) + len (enc z) < 2 ^ 62" "len (enc x) + len (enc y) < 2 ^ 62"
    using bound x(1) inv1 by (simp_all add: tim_inv_def)
  then have ly: "tr_length ?c = len (enc y)" using x by (simp add: tr_length_def)
  let ?m = "m1\<lparr>tim_text := enc x @ enc t @ enc z, tim_selection := TextRange_at (len (enc x) + len (enc t)),
      tim_composing_range := tr_set_end (len (enc x) + len (enc t)) ?c\<rparr>"
  have "AddText (enc t) m = Inr ?m"
    using del co co1 x ly len by (simp add: AddText_def str_erase_enc str_insert_enc Let_def)
  moreover have "tim_inv ?m"
    using boundary_points [OF x(4) t x(6)] x(2) len co co1 by (simp add: tim_inv_iff tr_contains_def)
  ultimately show ?thesis using that co co1 by simp
qed

section \<open>Deleting and moving by one code point\<close>

text \<open>A collapsed selection between code points \<open>b\<close> and \<open>a\<close>.\<close>

lemma cursor_facts:
  assumes "tim_inv m" "cps_split m b [] a"
  shows "tim_selection m = TextRange_at (len (enc b))" "tim_text m = enc b @ enc a"
    "list_all scalar b" "list_all scalar a" "len (enc b) + len (enc a) < 2 ^ 62"
    "tim_composing m \<Longrightarrow> tr_start (tim_composing_range m) \<le> len (enc b) \<and>
       len (enc b) \<le> tr_end (tim_composing_range m) \<and> tr_end (tim_composing_range m) < 2 ^ 62"
proof -
  have "tr_base (tim_selection m) = len (enc b)" "tr_extent (tim_selection m) = len (enc b)"
    using assms(2) by (auto simp: cps_split_def tr_defs min_def max_def split: if_splits)
  then show sel: "tim_selection m = TextRange_at (len (enc b))" by (simp add: TextRange_at_def)
  show "tr_start (tim_composing_range m) \<le> len (enc b) \<and>
      len (enc b) \<le> tr_end (tim_composing_range m) \<and> tr_end (tim_composing_range m) < 2 ^ 62"
    if "tim_composing m"
    using assms(1) that boundary_bounds [of "tim_text m" "tr_end (tim_composing_range m)"]
    by (auto simp: tim_inv_iff sel tr_contains_def)
qed (use assms in \<open>auto simp: cps_split_def tim_inv_def\<close>)

lemma editable_start_split:
  assumes "tim_inv m" "cps_split m b [] a" "len (enc b) \<noteq> tr_start (editable_range m)"
  obtains b0 c where "b = b0 @ [c]" "scalar c" "list_all scalar b0"
proof -
  have "b \<noteq> []"
  proof
    assume "b = []"
    have "tr_start (editable_range m) = 0"
    proof (cases "tim_composing m")
      case True
      then have "0 \<le> tr_start (tim_composing_range m)"
        using assms(1) boundary_bounds [of "tim_text m"] by (simp add: tim_inv_iff)
      with cursor_facts(6) [OF assms(1,2) True] True \<open>b = []\<close> show ?thesis
        by (simp add: editable_range_def)
    next
      case False
      then show ?thesis by (simp add: editable_range_def text_range_def TextRange_of_def tr_start_def)
    qed
    with assms(3) \<open>b = []\<close> show False by simp
  qed
  then obtain b0 c where "b = b0 @ [c]" by (metis append_butlast_last_id)
  with that cursor_facts(3) [OF assms(1,2)] show ?thesis by simp
qed

lemma editable_end_split:
  assumes "tim_inv m" "cps_split m b [] a" "len (enc b) \<noteq> tr_end (editable_range m)"
  obtains c a0 where "a = c # a0" "scalar c" "list_all scalar a0" "len (enc b) < tr_end (editable_range m)"
proof -
  note facts = cursor_facts [OF assms(1,2)]
  have le: "len (enc b) \<le> tr_end (editable_range m)" "tr_end (editable_range m) \<le> len (tim_text m)"
    using facts assms(1) boundary_bounds [of "tim_text m" "tr_end (tim_composing_range m)"]
    by (auto simp: editable_range_def text_range_def TextRange_of_def tr_end_def tim_inv_iff)
  with assms(3) have lt: "len (enc b) < tr_end (editable_range m)" by simp
  with le facts(2) have "a \<noteq> []" by auto
  then obtain c a0 where "a = c # a0" by (cases a) auto
  with that lt facts(4) show ?thesis by simp
qed

lemma MoveCursorBack_ok:
  assumes inv: "tim_inv m" and sp: "cps_split m (b @ [c]) [] a"
    and ed: "len (enc (b @ [c])) \<noteq> tr_start (editable_range m)"
  obtains m' where "MoveCursorBack m = Inr (True, m')" "tim_inv m'" "cps_split m' b [] (c # a)"
proof -
  note facts = cursor_facts [OF inv sp]
  let ?p = "len (enc (b @ [c]))" and ?m = "m\<lparr>tim_selection := TextRange_at (len (enc b))\<rparr>"
  have n: "count_before (tim_text m) ?p = Inr (len (encode16 c))"
    using count_before_enc [of b c "enc a"] facts by simp
  have "size_sub ?p (len (encode16 c)) = len (enc b)" using facts(5) by simp
  with n ed facts(1) have "MoveCursorBack m = Inr (True, ?m)" by (simp add: MoveCursorBack_def)
  moreover have "boundary (tim_text m) (len (enc b))"
    using facts boundaryI [of "tim_text m" b "c # a"] by simp
  moreover have "tr_start (tim_composing_range m) \<le> len (enc b)" if "tim_composing m"
  proof (rule boundary_prev [of b c a])
    show "tr_start (tim_composing_range m) < len (enc (b @ [c]))"
      using facts(6) [OF that] ed that by (simp add: editable_range_def)
  qed (use facts inv that in \<open>auto simp: tim_inv_iff\<close>)
  moreover have "len (enc b) \<le> tr_end (tim_composing_range m)" if "tim_composing m"
    using facts(6) [OF that] by simp
  ultimately have "MoveCursorBack m = Inr (True, ?m)" "tim_inv ?m"
    using inv by (simp_all add: tim_inv_iff tr_contains_def)
  with that facts show ?thesis by (simp add: cps_split_def)
qed

lemma MoveCursorForward_ok:
  assumes inv: "tim_inv m" and sp: "cps_split m b [] (c # a)"
    and ed: "len (enc b) \<noteq> tr_end (editable_range m)"
  obtains m' where "MoveCursorForward m = Inr (True, m')" "tim_inv m'" "cps_split m' (b @ [c]) [] a"
proof -
  note facts = cursor_facts [OF inv sp]
  let ?m = "m\<lparr>tim_selection := TextRange_at (len (enc (b @ [c])))\<rparr>"
  have n: "count_after (tim_text m) (len (enc b)) = Inr (len (encode16 c))"
    using count_after_enc [of c b "enc a"] facts by simp
  have "size_add (len (enc b)) (len (encode16 c)) = len (enc (b @ [c]))" using facts(5) by simp
  with n ed facts(1) have "MoveCursorForward m = Inr (True, ?m)" by (simp add: MoveCursorForward_def)
  moreover have "boundary (tim_text m) (len (enc (b @ [c])))"
    using facts boundaryI [of "tim_text m" "b @ [c]" a] by simp
  moreover have "len (enc b) + len (encode16 c) \<le> tr_end (tim_composing_range m)" if "tim_composing m"
  proof (rule boundary_next [of b c a])
    show "len (enc b) < tr_end (tim_composing_range m)"
      using facts(6) [OF that] ed that by (simp add: editable_range_def)
  qed (use facts inv that in \<open>auto simp: tim_inv_iff\<close>)
  moreover have "tr_start (tim_composing_range m) \<le> len (enc (b @ [c]))" if "tim_composing m"
    using facts(6) [OF that] by simp
  ultimately have "MoveCursorForward m = Inr (True, ?m)" "tim_inv ?m"
    using inv by (simp_all add: tim_inv_iff tr_contains_def)
  with that facts show ?thesis by (simp add: cps_split_def)
qed

lemma Backspace_ok:
  assumes inv: "tim_inv m" and sp: "cps_split m (b @ [c]) [] a"
    and ed: "len (enc (b @ [c])) \<noteq> tr_start (editable_range m)"
  obtains m' where "Backspace m = Inr (True, m')" "tim_inv m'" "cps_split m' b [] a"
    "tim_composing m' = tim_composing m"
proof -
  note facts = cursor_facts [OF inv sp]
  let ?p = "len (enc (b @ [c]))" and ?r = "tim_composing_range m"
  let ?m1 = "m\<lparr>tim_text := enc b @ enc a, tim_selection := TextRange_at (len (enc b))\<rparr>"
  let ?m = "shrink_composing (len (encode16 c)) ?m1"
  have n: "count_before (tim_text m) ?p = Inr (len (encode16 c))"
    using count_before_enc [of b c "enc a"] facts by simp
  have "size_sub ?p (len (encode16 c)) = len (enc b)" using facts(5) by simp
  then have "Backspace m = Inr (True, ?m)"
    using n ed facts str_erase_enc [of "enc b" "encode16 c" "enc a"]
    by (simp add: Backspace_def DeleteSelected_def)
  moreover have "tim_inv ?m"
  proof (cases "tim_composing m")
    case True
    let ?e = "tr_end ?r - len (encode16 c)"
    have tx: "tim_text m = enc b @ enc [c] @ enc a" using facts(2) by simp
    have bd: "boundary (tim_text m) (tr_start ?r)" "boundary (tim_text m) (tr_end ?r)"
      using inv True by (simp_all add: tim_inv_iff)
    have lo: "tr_start ?r \<le> len (enc b)"
    proof (rule boundary_prev [of b c a])
      show "tr_start ?r < ?p" using facts(6) [OF True] ed True by (simp add: editable_range_def)
    qed (use facts bd in auto)
    have hi: "?p \<le> tr_end ?r" "tr_end ?r < 2 ^ 62" using facts(6) [OF True] by simp_all
    have "boundary (enc b @ enc [] @ enc a) (tr_start ?r)"
      using boundary_replace_low [of b "[c]" a "tr_start ?r" "[]"] bd(1) lo facts unfolding tx by simp
    moreover have "boundary (enc b @ enc [] @ enc a) ?e"
      using boundary_replace_high [of b "[c]" a "tr_end ?r" "[]"] bd(2) hi facts unfolding tx by simp
    moreover have "boundary (enc b @ enc a) (len (enc b))" using facts boundaryI [of "enc b @ enc a" b a] by simp
    moreover have "size_sub (tr_end ?r) (len (encode16 c)) = ?e" using hi by simp
    ultimately show ?thesis
      using True lo hi facts(5) by (simp add: tim_inv_iff shrink_composing_def tr_contains_def)
  next
    case False
    then show ?thesis
      using facts inv
      by (intro tim_inv_cursor [of b a]) (simp_all add: shrink_composing_def tim_inv_def)
  qed
  moreover have "cps_split ?m b [] a" using facts by (simp add: cps_split_def shrink_composing_def)
  ultimately show ?thesis using that [of ?m] by (simp add: shrink_composing_def)
qed

lemma Delete_ok:
  assumes inv: "tim_inv m" and sp: "cps_split m b [] (c # a)"
    and ed: "len (enc b) < tr_end (editable_range m)"
  obtains m' where "Delete m = Inr (True, m')" "tim_inv m'" "cps_split m' b [] a"
    "tim_composing m' = tim_composing m"
proof -
  note facts = cursor_facts [OF inv sp]
  let ?r = "tim_composing_range m"
  let ?m = "shrink_composing (len (encode16 c)) (m\<lparr>tim_text := enc b @ enc a\<rparr>)"
  have n: "count_after (tim_text m) (len (enc b)) = Inr (len (encode16 c))"
    using count_after_enc [of c b "enc a"] facts by simp
  then have "Delete m = Inr (True, ?m)"
    using ed facts str_erase_enc [of "enc b" "encode16 c" "enc a"]
    by (simp add: Delete_def DeleteSelected_def)
  moreover have "tim_inv ?m"
  proof (cases "tim_composing m")
    case True
    let ?e = "tr_end ?r - len (encode16 c)"
    have tx: "tim_text m = enc b @ enc [c] @ enc a" using facts(2) by simp
    have bd: "boundary (tim_text m) (tr_start ?r)" "boundary (tim_text m) (tr_end ?r)"
      using inv True by (simp_all add: tim_inv_iff)
    have lo: "tr_start ?r \<le> len (enc b)" "tr_end ?r < 2 ^ 62" using facts(6) [OF True] by simp_all
    have hi: "len (enc b) + len (encode16 c) \<le> tr_end ?r"
    proof (rule boundary_next [of b c a])
      show "len (enc b) < tr_end ?r" using ed True by (simp add: editable_range_def)
    qed (use facts bd in auto)
    have "boundary (enc b @ enc [] @ enc a) (tr_start ?r)"
      using boundary_replace_low [of b "[c]" a "tr_start ?r" "[]"] bd(1) lo facts unfolding tx by simp
    moreover have "boundary (enc b @ enc [] @ enc a) ?e"
      using boundary_replace_high [of b "[c]" a "tr_end ?r" "[]"] bd(2) hi facts unfolding tx by simp
    moreover have "boundary (enc b @ enc a) (len (enc b))" using facts boundaryI [of "enc b @ enc a" b a] by simp
    moreover have "size_sub (tr_end ?r) (len (encode16 c)) = ?e" using hi lo by simp
    ultimately show ?thesis
      using True lo hi facts by (simp add: tim_inv_iff shrink_composing_def tr_contains_def)
  next
    case False
    then show ?thesis
      using facts inv
      by (intro tim_inv_cursor [of b a]) (simp_all add: shrink_composing_def tim_inv_def)
  qed
  moreover have "cps_split ?m b [] a" using facts by (simp add: cps_split_def shrink_composing_def)
  ultimately show ?thesis using that [of ?m] by (simp add: shrink_composing_def)
qed

section \<open>Composing\<close>

lemma boundary_offset:
  assumes "boundary (enc t) q" "list_all scalar x" "list_all scalar t" "list_all scalar z"
  shows "boundary (enc x @ enc t @ enc z) (len (enc x) + q)"
proof -
  from assms(1) obtain b a where t: "enc t = enc b @ enc a" "list_all scalar b" "list_all scalar a"
      "q = len (enc b)"
    by (auto simp: boundary_def)
  then have "boundary (enc x @ enc t @ enc z) (len (enc (x @ b)))"
    using assms by (intro boundaryI [where a = "a @ z"]) simp_all
  then show ?thesis using t by simp
qed

lemma UpdateComposingText_ok:
  assumes inv: "tim_inv m" and co: "tim_composing m" and t: "list_all scalar t"
    and bound: "len (tim_text m) + len (enc t) < 2 ^ 62"
    and sel: "boundary (enc t) (tr_base sel)" "boundary (enc t) (tr_extent sel)"
  obtains m' where "UpdateComposingText (enc t) sel m = Inr m'" "tim_inv m'"
proof (cases "length (enc t) = 0 \<and> tr_collapsed (tim_composing_range m)")
  case True
  with inv that [of m] show ?thesis by (simp add: UpdateComposingText_def)
next
  case False
  let ?c = "tim_composing_range m"
  let ?d = "if tr_collapsed ?c then tim_selection m else ?c"
  have "boundary (tim_text m) (tr_start ?d)" "boundary (tim_text m) (tr_end ?d)"
    using inv co by (auto simp: tim_inv_iff)
  from boundary_two [OF this tr_start_le_end] obtain x y z
    where x: "tim_text m = enc x @ enc y @ enc z" "tr_start ?d = len (enc x)"
      "tr_end ?d = len (enc x) + len (enc y)"
      "list_all scalar x" "list_all scalar y" "list_all scalar z" .
  have start: "tr_start ?c = len (enc x)"
  proof (cases "tr_collapsed ?c")
    case True
    with inv co x(2) show ?thesis
      using tr_start_le_end [of "tim_selection m"]
      by (auto simp: tim_inv_iff tr_collapsed_iff tr_contains_def)
  next
    case False
    with x(2) show ?thesis by simp
  qed
  have len: "len (enc x) + len (enc y) < 2 ^ 62" "len (enc x) + len (enc t) + len (enc z) < 2 ^ 62"
    using bound x(1) by simp_all
  then have ly: "tr_length ?d = len (enc y)" using x(2,3) by (simp add: tr_length_def)
  have b: "0 \<le> tr_base sel" "tr_base sel \<le> len (enc t)" "0 \<le> tr_extent sel" "tr_extent sel \<le> len (enc t)"
    using boundary_bounds [OF sel(1)] boundary_bounds [OF sel(2)] by auto
  let ?sel = "TextRange_of (tr_start sel + len (enc x)) (tr_extent sel + len (enc x))"
  let ?m = "m\<lparr>tim_text := enc x @ enc t @ enc z,
      tim_composing_range := tr_set_end (len (enc x) + len (enc t)) ?c, tim_selection := ?sel\<rparr>"
  have "size_add (tr_start sel) (len (enc x)) = tr_start sel + len (enc x)"
      "size_add (tr_extent sel) (len (enc x)) = tr_extent sel + len (enc x)"
      "size_add (len (enc x)) (len (enc t)) = len (enc x) + len (enc t)"
    using b len by (simp_all add: tr_start_def)
  then have "UpdateComposingText (enc t) sel m = Inr ?m"
    unfolding UpdateComposingText_def if_not_P [OF False]
    using ly start x(1,2) str_replace_enc [of "enc x" "enc y" "enc t" "enc z"]
    by (simp add: Let_def)
  moreover have "boundary (enc t) (tr_start sel)" using sel by (simp add: boundary_range_iff [symmetric] tr_start_def min_def)
  then have "boundary (enc x @ enc t @ enc z) (tr_base ?sel)" "boundary (enc x @ enc t @ enc z) (tr_extent ?sel)"
    using boundary_offset [OF _ x(4) t x(6)] sel(2) by (simp_all add: TextRange_of_def add.commute)
  then have "boundary (enc x @ enc t @ enc z) (tr_start ?sel)" "boundary (enc x @ enc t @ enc z) (tr_end ?sel)"
    by (simp_all add: boundary_start_end)
  moreover have "tr_contains (tr_set_end (len (enc x) + len (enc t)) ?c) ?sel"
    using start b by (simp add: tr_contains_def) (simp add: tr_defs)
  ultimately have "UpdateComposingText (enc t) sel m = Inr ?m" "tim_inv ?m"
    using boundary_points [OF x(4) t x(6)] start len co by (simp_all add: tim_inv_iff)
  with that show ?thesis by blast
qed

lemma inv_composing_switch:
  assumes "tim_inv m"
  shows "tim_inv (BeginComposing m)" "tim_inv (CommitComposing m)" "tim_inv (EndComposing m)"
proof -
  show "tim_inv (BeginComposing m)" using assms by (simp add: BeginComposing_def tim_inv_iff)
  show "tim_inv (EndComposing m)" using assms by (simp add: EndComposing_def tim_inv_iff)
  show "tim_inv (CommitComposing m)"
    using assms by (cases "tim_composing m") (simp_all add: CommitComposing_def tim_inv_iff Let_def)
qed

end
