(* ===== verification/Text_Input_Surround.thy ===== *)
theory Text_Input_Surround
  imports Text_Input_Ops
begin

text \<open>
  \<open>TextInputModel::DeleteSurrounding\<close> on any well-formed text: which units its three loops select,
  in terms of the code points around the cursor, and that it keeps the invariant when the section it
  measures ends between two code points of the editable range.
\<close>

section \<open>The editable text around the cursor\<close>

text \<open>
  Code points before the editable range, in it before and after the extent of the selection, and
  behind it.
\<close>

definition edit_split :: "TextInputModel \<Rightarrow> int list \<Rightarrow> int list \<Rightarrow> int list \<Rightarrow> int list \<Rightarrow> bool" where
  "edit_split m x b a z =
     (tim_text m = enc x @ enc b @ enc a @ enc z \<and>
      list_all scalar x \<and> list_all scalar b \<and> list_all scalar a \<and> list_all scalar z \<and>
      tr_start (editable_range m) = len (enc x) \<and>
      tr_extent (tim_selection m) = len (enc x) + len (enc b) \<and>
      tr_end (editable_range m) = len (enc x) + len (enc b) + len (enc a))"

lemma editable_boundaries:
  assumes "tim_inv m"
  shows "boundary (tim_text m) (tr_start (editable_range m))" "boundary (tim_text m) (tr_end (editable_range m))"
  using assms boundary_0_len [of "tim_text m" "tr_start (tim_selection m)"]
  by (auto simp: editable_range_def text_range_def tim_inv_iff tr_start_def tr_end_def TextRange_of_def)

lemma edit_splitE:
  assumes inv: "tim_inv m" and pos: "tr_contains_position (editable_range m) (tr_extent (tim_selection m))"
  obtains x b a z where "edit_split m x b a z"
proof -
  let ?lo = "tr_start (editable_range m)" and ?hi = "tr_end (editable_range m)"
  let ?p = "tr_extent (tim_selection m)"
  note ends = editable_boundaries [OF inv]
  have p: "boundary (tim_text m) ?p" "?lo \<le> ?p" "?p \<le> ?hi"
    using inv pos by (simp_all add: tim_inv_def tr_contains_position_def)
  from boundary_two [OF ends(1) p(1,2)] obtain x b r
    where 1: "tim_text m = enc x @ enc b @ enc r" "?lo = len (enc x)" "?p = len (enc x) + len (enc b)"
      "list_all scalar x" "list_all scalar b" "list_all scalar r" .
  from boundary_two [OF p(1) ends(2) p(3)] obtain y a z
    where 2: "tim_text m = enc y @ enc a @ enc z" "?p = len (enc y)" "?hi = len (enc y) + len (enc a)"
      "list_all scalar y" "list_all scalar a" "list_all scalar z" .
  have "(enc x @ enc b) @ enc r = enc y @ (enc a @ enc z)" using 1(1) 2(1) by simp
  moreover have "length (enc x @ enc b) = length (enc y)" using 1(3) 2(2) by simp
  ultimately have "enc r = enc a @ enc z" using append_eq_append_conv by blast
  with 1 2 that [of x b a z] show ?thesis by (simp add: edit_split_def)
qed

section \<open>The three loops\<close>

lemma encode16_pos: "0 < len (encode16 c)"
  by simp

lemma surround_back_cps:
  assumes "tim_text m = enc x @ enc b @ r" "tr_start (editable_range m) = len (enc x)"
    and "list_all scalar x" "list_all scalar b" "len (enc x) + len (enc b) < 2 ^ 62"
  shows "surround_back k i n (len (enc x) + len (enc b)) m =
    Inr (if k \<le> length b then (n, len (enc x) + len (enc (take (length b - k) b)))
         else (i + len b, len (enc x)))"
  using assms(1,4,5)
proof (induction b arbitrary: k i r rule: rev_induct)
  case Nil
  then show ?case using assms(2) by (cases k) simp_all
next
  case (snoc c b)
  show ?case
  proof (cases k)
    case (Suc k')
    let ?p = "len (enc x) + len (enc (b @ [c]))"
    have n: "count_before (tim_text m) ?p = Inr (len (encode16 c))"
      using count_before_enc [of "x @ b" c r] snoc.prems assms(3) by simp
    have sub: "size_sub ?p (len (encode16 c)) = len (enc x) + len (enc b)" using snoc.prems(3) by simp
    have ne: "?p \<noteq> tr_start (editable_range m)" using assms(2) encode16_pos [of c] by (simp del: length_greater_0_conv)
    have "surround_back k i n ?p m = surround_back k' (i + 1) n (len (enc x) + len (enc b)) m"
      using Suc ne n sub by (simp del: enc_simps)
    also have "\<dots> = Inr (if k' \<le> length b then (n, len (enc x) + len (enc (take (length b - k') b)))
         else (i + 1 + len b, len (enc x)))"
      using snoc.prems by (intro snoc.IH [of "encode16 c @ r"]) simp_all
    finally show ?thesis using Suc by simp
  qed simp
qed

lemma surround_forward_cps:
  assumes "tim_text m = enc x @ enc a @ r" "list_all scalar a" "len (enc x) + len (enc a) < 2 ^ 62"
  shows "surround_forward k (len (enc x)) (len (enc x) + len (enc a)) m = Inr (len (enc x) + len (enc (take k a)))"
  using assms
proof (induction a arbitrary: x k)
  case Nil
  then show ?case by (cases k) simp_all
next
  case (Cons c a)
  show ?case
  proof (cases k)
    case (Suc k')
    have n: "count_after (tim_text m) (len (enc x)) = Inr (len (encode16 c))"
      using count_after_enc [of c x "enc a @ r"] Cons.prems by simp
    have add: "size_add (len (enc x)) (len (encode16 c)) = len (enc (x @ [c]))" using Cons.prems(3) by simp
    have ne: "len (enc x) \<noteq> len (enc x) + len (enc (c # a))" using encode16_pos [of c] by (simp del: length_greater_0_conv)
    have "surround_forward k' (len (enc (x @ [c]))) (len (enc (x @ [c])) + len (enc a)) m =
        Inr (len (enc (x @ [c])) + len (enc (take k' a)))"
      using Cons.prems by (intro Cons.IH) simp_all
    with Suc n add ne show ?thesis by (simp add: add.assoc)
  qed simp
qed

text \<open>
  The third loop adds the width of the first code point of the section once per code point, and
  stops only if it meets the end of the editable range exactly.
\<close>

definition cp_width :: "int list \<Rightarrow> int" where
  "cp_width r = (case r of [] \<Rightarrow> 1 | c # _ \<Rightarrow> len (encode16 c))"

definition surround_units :: "nat \<Rightarrow> int list \<Rightarrow> int" where
  "surround_units k r =
     (if cp_width r dvd len (enc r) \<and> len (enc r) \<le> cp_width r * int k then len (enc r)
      else cp_width r * int k)"

lemma cp_width_cases: "list_all scalar r \<Longrightarrow> cp_width r = 1 \<or> cp_width r = 2"
  by (cases r) (auto simp: cp_width_def elim: encode16_cases)

lemma surround_end_steps:
  assumes w: "w = 1 \<or> w = 2" and L: "0 \<le> L" "0 \<le> start" "start + L < 2 ^ 62"
    and n: "0 < L \<Longrightarrow> count_after (tim_text m) start = Inr w"
  shows "0 \<le> j \<Longrightarrow> (w dvd L \<Longrightarrow> j * w \<le> L) \<Longrightarrow> j + int k < 2 ^ 62 \<Longrightarrow>
    surround_end k start (start + j * w) (start + L) m =
      Inr (start + (if w dvd L \<and> L \<le> (j + int k) * w then L else (j + int k) * w))"
proof (induction k arbitrary: j)
  case 0
  then show ?case by auto
next
  case (Suc k)
  show ?case
  proof (cases "j * w = L")
    case True
    then show ?thesis using w Suc.prems by auto
  next
    case False
    have pos: "0 < L"
    proof (rule ccontr)
      assume "\<not> 0 < L"
      with L(1) have "L = 0" by simp
      moreover from this Suc.prems have "j * w \<le> 0" by simp
      ultimately show False using False w Suc.prems(1) by auto
    qed
    have next_le: "(j + 1) * w \<le> L" if "w dvd L"
      using w Suc.prems(2) [OF that] False that by auto
    have "size_add (start + j * w) w = start + (j + 1) * w"
      using w Suc.prems L by (subst size_add_small) auto
    then have "surround_end (Suc k) start (start + j * w) (start + L) m =
        surround_end k start (start + (j + 1) * w) (start + L) m"
      using False n [OF pos] by simp
    also have "\<dots> = Inr (start + (if w dvd L \<and> L \<le> (j + 1 + int k) * w then L else (j + 1 + int k) * w))"
      using Suc.prems by (intro Suc.IH next_le) simp_all
    finally show ?thesis by (simp add: add.assoc)
  qed
qed

lemma surround_end_cps:
  assumes t: "tim_text m = enc x @ enc r @ enc z" and sc: "list_all scalar r"
    and len: "len (enc x) + len (enc r) < 2 ^ 62" and k: "int k < 2 ^ 62"
  shows "surround_end k (len (enc x)) (len (enc x)) (len (enc x) + len (enc r)) m =
    Inr (len (enc x) + surround_units k r)"
proof -
  have "count_after (tim_text m) (len (enc x)) = Inr (cp_width r)" if "0 < len (enc r)"
  proof (cases r)
    case (Cons c r')
    then show ?thesis using t sc count_after_enc [of c x "enc r' @ enc z"] by (simp add: cp_width_def)
  qed (use that in simp)
  from surround_end_steps [OF cp_width_cases [OF sc] _ _ len this, of 0 k] k show ?thesis
    by (simp add: surround_units_def mult.commute)
qed

section \<open>The whole operation\<close>

text \<open>
  The code points in front of the section and from its start to the end of the editable range, and
  the number of code points that will be measured: when the requested start lies before the
  editable range, the requested number \<open>n\<close> is replaced by the number of code points before the cursor.
\<close>

definition surround_cps ::
  "int \<Rightarrow> int \<Rightarrow> int list \<Rightarrow> int list \<Rightarrow> int list \<times> int list \<times> nat" where
  "surround_cps off n b a =
     (if 0 \<le> off then (b @ take (nat off) a, drop (nat off) a, nat n)
      else if nat (- off) \<le> length b
      then (take (length b - nat (- off)) b, drop (length b - nat (- off)) b @ a, nat n)
      else ([], b @ a, length b))"

lemma surround_cps_append: "surround_cps off n b a = (pre, rest, k) \<Longrightarrow> pre @ rest = b @ a"
  by (auto simp: surround_cps_def split: if_splits)

lemma surround_cps_enc:
  assumes "surround_cps off n b a = (pre, rest, k)"
  shows "enc pre @ enc rest = enc b @ enc a"
  using surround_cps_append [OF assms] by (metis enc_simps(3))

lemma surround_cps_after: "surround_cps off n b a = (pre, rest, k) \<Longrightarrow> 0 < off \<Longrightarrow> len (enc b) \<le> len (enc pre)"
  by (auto simp: surround_cps_def split: if_splits)

lemma surround_start_cps:
  assumes sp: "edit_split m x b a z" and len: "len (tim_text m) < 2 ^ 62"
    and off: "- (2 ^ 31) < off" and c: "surround_cps off n b a = (pre, rest, k)"
  obtains n' where "(if off < 0 then require Undefined (off \<noteq> - (2 ^ 31))
             (surround_back (nat (- off)) 0 n (tr_extent (tim_selection m)) m)
         else rbind (surround_forward (nat off) (tr_extent (tim_selection m)) (tr_end (editable_range m)) m)
                (\<lambda>s. Inr (n, s))) = Inr (n', len (enc x) + len (enc pre))" "nat n' = k"
proof (cases "off < 0")
  case True
  have "surround_back (nat (- off)) 0 n (len (enc x) + len (enc b)) m =
      Inr (if nat (- off) \<le> length b then (n, len (enc x) + len (enc (take (length b - nat (- off)) b)))
         else (0 + len b, len (enc x)))"
    using sp len by (intro surround_back_cps [of m x b "enc a @ enc z"]) (simp_all add: edit_split_def)
  with True off c sp that show ?thesis
    by (auto simp: surround_cps_def edit_split_def split: if_splits)
next
  case False
  have "surround_forward (nat off) (len (enc (x @ b))) (len (enc (x @ b)) + len (enc a)) m =
      Inr (len (enc (x @ b)) + len (enc (take (nat off) a)))"
    using sp len by (intro surround_forward_cps [of m "x @ b" a "enc z"]) (simp_all add: edit_split_def)
  with False c sp that [of n] show ?thesis
    by (auto simp: surround_cps_def edit_split_def)
qed

lemma surround_units_nonneg: "list_all scalar r \<Longrightarrow> 0 \<le> surround_units k r"
  using cp_width_cases [of r] by (auto simp: surround_units_def)

lemma length_enc_ge: "len b \<le> len (enc b)"
proof (induction b)
  case (Cons c b)
  then show ?case using encode16_pos [of c] by (simp del: length_greater_0_conv)
qed simp

lemma str_erase_drop:
  assumes "0 \<le> d"
  shows "str_erase (len u) d (u @ v) = Inr (u @ drop (nat d) v)"
proof -
  have "nat (min (len u + d) (len (u @ v))) = length u + min (nat d) (length v)" using assms by simp
  moreover have "drop (min (nat d) (length v)) v = drop (nat d) v" by (simp add: min_def)
  ultimately show ?thesis by (simp add: str_erase_def str_replace_def)
qed

text \<open>The section that the loops measure: its start and its end.\<close>

definition surround_section :: "int \<Rightarrow> int \<Rightarrow> TextInputModel \<Rightarrow> (size_t \<times> size_t) result" where
  "surround_section off n m =
     (let max_pos = tr_end (editable_range m); start = tr_extent (tim_selection m)
      in rbind
        (if off < 0 then require Undefined (off \<noteq> - (2 ^ 31)) (surround_back (nat (- off)) 0 n start m)
         else rbind (surround_forward (nat off) start max_pos m) (\<lambda>s. Inr (n, s)))
        (\<lambda>(n, start). rbind (surround_end (nat n) start start max_pos m) (\<lambda>en. Inr (start, en))))"

lemma rbind_assoc: "rbind (rbind m f) g = rbind m (\<lambda>x. rbind (f x) g)"
  by (cases m) simp_all

lemma DeleteSurrounding_section:
  "DeleteSurrounding off n m =
     rbind (surround_section off n m) (\<lambda>(start, en).
        if start = en then Inr (False, m)
        else rbind (str_erase start (size_sub en start) (tim_text m)) (\<lambda>t.
               Inr (True, shrink_composing (size_sub en start)
                 (m\<lparr>tim_text := t, tim_selection := TextRange_at (if off \<le> 0 then start
                                                   else tr_start (tim_selection m))\<rparr>))))"
  by (simp only: DeleteSurrounding_def surround_section_def Let_def rbind_assoc split_def rbind_Inr fst_conv snd_conv)

lemma surround_section_cps:
  assumes sp: "edit_split m x b a z" and len: "len (tim_text m) < 2 ^ 62"
    and off: "- (2 ^ 31) < off" and n: "n < 2 ^ 31"
    and c: "surround_cps off n b a = (pre, rest, k)"
  shows "surround_section off n m =
      Inr (len (enc (x @ pre)), len (enc (x @ pre)) + surround_units k rest)"
    and "tim_text m = enc (x @ pre) @ enc rest @ enc z" and "list_all scalar (x @ pre)"
    and "list_all scalar rest" and "0 \<le> surround_units k rest" and "surround_units k rest < 2 ^ 63"
proof -
  have sc: "list_all scalar (x @ pre)" "list_all scalar rest"
    using sp arg_cong [OF surround_cps_append [OF c], of "list_all scalar"] by (simp_all add: edit_split_def)
  note e = surround_cps_enc [OF c]
  have tx: "tim_text m = enc (x @ pre) @ enc rest @ enc z"
    using sp arg_cong [OF e, of "\<lambda>u. enc x @ u @ enc z"] by (simp add: edit_split_def)
  have hi: "tr_end (editable_range m) = len (enc (x @ pre)) + len (enc rest)"
    using sp arg_cong [OF e, of length] by (simp add: edit_split_def)
  have lt: "len (enc (x @ pre)) + len (enc rest) < 2 ^ 62" using len by (simp add: tx)
  have "length b \<le> length (enc b)" using length_enc_ge [of b] by simp
  then have kb: "int k < 2 ^ 62"
    using c n len sp by (auto simp: surround_cps_def edit_split_def split: if_splits)
  then show "0 \<le> surround_units k rest" "surround_units k rest < 2 ^ 63"
    using cp_width_cases [OF sc(2)] lt by (auto simp: surround_units_def)
  obtain n' where n': "(if off < 0 then require Undefined (off \<noteq> - (2 ^ 31))
             (surround_back (nat (- off)) 0 n (tr_extent (tim_selection m)) m)
         else rbind (surround_forward (nat off) (tr_extent (tim_selection m)) (tr_end (editable_range m)) m)
                (\<lambda>s. Inr (n, s))) = Inr (n', len (enc (x @ pre)))" "nat n' = k"
    using surround_start_cps [OF sp len off c] by (metis add.commute enc_simps(3) length_append of_nat_add)
  have "surround_end (nat n') (len (enc (x @ pre))) (len (enc (x @ pre))) (tr_end (editable_range m)) m =
      Inr (len (enc (x @ pre)) + surround_units k rest)"
    using surround_end_cps [OF tx sc(2) lt kb] unfolding hi n'(2) .
  with n'(1) show "surround_section off n m =
      Inr (len (enc (x @ pre)), len (enc (x @ pre)) + surround_units k rest)"
    by (simp add: surround_section_def Let_def del: enc_simps)
  show "tim_text m = enc (x @ pre) @ enc rest @ enc z" "list_all scalar (x @ pre)" "list_all scalar rest"
    using tx sc by simp_all
qed

lemma DeleteSurrounding_cps:
  assumes sp: "edit_split m x b a z" and len: "len (tim_text m) < 2 ^ 62"
    and off: "- (2 ^ 31) < off" and n: "n < 2 ^ 31"
    and c: "surround_cps off n b a = (pre, rest, k)"
  defines "start \<equiv> len (enc (x @ pre))" and "d \<equiv> surround_units k rest"
  shows "DeleteSurrounding off n m =
    Inr (if d = 0 then (False, m)
         else (True, shrink_composing d
           (m\<lparr>tim_text := enc x @ enc pre @ drop (nat d) (enc rest @ enc z),
              tim_selection := TextRange_at (if off \<le> 0 then start else tr_start (tim_selection m))\<rparr>)))"
proof -
  note s = surround_section_cps [OF sp len off n c, folded start_def d_def]
  have lt: "0 \<le> start" "start < 2 ^ 62" using s(2) len by (simp_all add: start_def)
  have "size_sub (start + d) start = d" using s(5,6) lt by simp
  moreover have "str_erase start d (tim_text m) = Inr (enc x @ enc pre @ drop (nat d) (enc rest @ enc z))"
    using str_erase_drop [OF s(5), of "enc (x @ pre)" "enc rest @ enc z"] by (simp add: s(2) start_def)
  ultimately show ?thesis by (simp add: DeleteSurrounding_section s(1))
qed

section \<open>The invariant\<close>

text \<open>Erasing a section between two boundaries of the editable range.\<close>

lemma inv_erase_section:
  assumes inv: "tim_inv m" and bd: "boundary (tim_text m) start" "boundary (tim_text m) en"
    and le: "tr_start (editable_range m) \<le> start" "start \<le> en" "en \<le> tr_end (editable_range m)"
    and s: "s = start \<or> s = tr_start (tim_selection m) \<and> s \<le> start"
  shows "\<exists>t. str_erase start (size_sub en start) (tim_text m) = Inr t \<and>
    tim_inv (shrink_composing (size_sub en start) (m\<lparr>tim_text := t, tim_selection := TextRange_at s\<rparr>))"
proof -
  from boundary_two [OF bd le(2)] obtain u v w
    where x: "tim_text m = enc u @ enc v @ enc w" "start = len (enc u)" "en = len (enc u) + len (enc v)"
      "list_all scalar u" "list_all scalar v" "list_all scalar w" .
  let ?r = "tim_composing_range m" and ?d = "len (enc v)"
  let ?m = "shrink_composing ?d (m\<lparr>tim_text := enc u @ enc w, tim_selection := TextRange_at s\<rparr>)"
  have len: "len (tim_text m) < 2 ^ 62" using inv by (simp add: tim_inv_def)
  have sz: "size_sub en start = ?d" using x len by simp
  have er: "str_erase start ?d (tim_text m) = Inr (enc u @ enc w)" using str_erase_enc x by simp
  have low: "boundary (enc u @ enc w) q" if "boundary (tim_text m) q" "q \<le> start" for q
    using boundary_replace_low [of u v w q "[]"] that x by simp
  have sb: "boundary (enc u @ enc w) s"
    using s low bd(1) inv by (auto simp: tim_inv_iff)
  have "tim_inv ?m"
  proof (cases "tim_composing m")
    case True
    have r: "tr_start ?r \<le> start" "en \<le> tr_end ?r" "boundary (tim_text m) (tr_start ?r)" "boundary (tim_text m) (tr_end ?r)"
      using le True inv by (simp_all add: editable_range_def tim_inv_iff)
    have hb: "tr_end ?r < 2 ^ 62" using boundary_bounds [OF r(4)] len by simp
    have "boundary (enc u @ enc w) (tr_end ?r - ?d)"
      using boundary_replace_high [of u v w "tr_end ?r" "[]"] r(2,4) x by simp
    moreover have "size_sub (tr_end ?r) ?d = tr_end ?r - ?d" using r(2) x hb by simp
    moreover have "tr_start ?r \<le> s"
      using s r(1) inv True by (auto simp: tim_inv_iff tr_contains_def)
    ultimately show ?thesis
      using True low [OF r(3,1)] r(1,2) sb s x len
      by (auto simp: tim_inv_iff shrink_composing_def tr_contains_def)
  next
    case False
    then show ?thesis using sb inv x len by (simp add: tim_inv_iff shrink_composing_def)
  qed
  with er sz show ?thesis by simp
qed

text \<open>
  The operation keeps the invariant when the cursor is in the editable range and the section it
  measures ends there, between two code points.
\<close>

definition section_ok :: "int \<Rightarrow> int \<Rightarrow> TextInputModel \<Rightarrow> bool" where
  "section_ok off n m =
     (case surround_section off n m of
        Inl _ \<Rightarrow> True
      | Inr (start, en) \<Rightarrow> boundary (tim_text m) en \<and> en \<le> tr_end (editable_range m))"

lemma inv_DeleteSurrounding:
  assumes inv: "tim_inv m" and pos: "tr_contains_position (editable_range m) (tr_extent (tim_selection m))"
    and off: "- (2 ^ 31) < off" and n: "n < 2 ^ 31" and ok: "section_ok off n m"
  obtains r m' where "DeleteSurrounding off n m = Inr (r, m')" "tim_inv m'"
proof -
  obtain x b a z where sp: "edit_split m x b a z" using edit_splitE [OF inv pos] .
  obtain pre rest k where c: "surround_cps off n b a = (pre, rest, k)" by (metis prod_cases3)
  have len: "len (tim_text m) < 2 ^ 62" using inv by (simp add: tim_inv_def)
  note s = surround_section_cps [OF sp len off n c]
  let ?start = "len (enc (x @ pre))" and ?d = "surround_units k rest"
  let ?s = "if off \<le> 0 then ?start else tr_start (tim_selection m)"
  show ?thesis
  proof (cases "?d = 0")
    case True
    with DeleteSurrounding_cps [OF sp len off n c] inv that [of False m] show ?thesis by simp
  next
    case False
    have bd: "boundary (tim_text m) ?start"
      using boundaryI [of "tim_text m" "x @ pre" "rest @ z"] s(2-4) sp by (simp add: edit_split_def)
    have en: "boundary (tim_text m) (?start + ?d)" "?start + ?d \<le> tr_end (editable_range m)"
      using ok s(1) by (simp_all add: section_ok_def)
    have "tr_start (tim_selection m) \<le> ?start" if "0 < off"
      using surround_cps_after [OF c that] sp by (simp add: edit_split_def tr_start_def)
    then have sel: "?s = ?start \<or> ?s = tr_start (tim_selection m) \<and> ?s \<le> ?start" by auto
    have lo: "tr_start (editable_range m) \<le> ?start" using sp by (simp add: edit_split_def)
    have le: "?start \<le> ?start + ?d" using s(5) by simp
    obtain t where "str_erase ?start (size_sub (?start + ?d) ?start) (tim_text m) = Inr t"
      "tim_inv (shrink_composing (size_sub (?start + ?d) ?start) (m\<lparr>tim_text := t, tim_selection := TextRange_at ?s\<rparr>))"
      using inv_erase_section [OF inv bd en(1) lo le en(2) sel] by blast
    with False that show ?thesis
      by (simp add: DeleteSurrounding_section s(1) del: enc_simps)
  qed
qed

end
