(* ===== verification/Text_Input_Spec.thy ===== *)
theory Text_Input_Spec
  imports Text_Input_Surround
begin

text \<open>
  The reachable states of the text input model and the properties of its operations: the invariant,
  editing by whole code points, deletion around the cursor, and the conversions to UTF-8.
\<close>

section \<open>Selecting\<close>

lemma tr_TextRange_of [simp]:
  "tr_start (TextRange_of b e) = min b e" "tr_end (TextRange_of b e) = max b e"
  by (simp_all add: tr_defs)

lemma inv_select:
  assumes "tim_inv m"
  shows "tim_inv (snd (MoveCursorToBeginning m))" "tim_inv (snd (MoveCursorToEnd m))"
    "tim_inv (snd (SelectToBeginning m))" "tim_inv (snd (SelectToEnd m))"
proof -
  note ends = editable_boundaries [OF assms]
  have base: "boundary (tim_text m) (tr_base (tim_selection m))" using assms by (simp add: tim_inv_def)
  have le: "tr_start (tim_composing_range m) \<le> tr_end (tim_composing_range m)" by (rule tr_start_le_end)
  show "tim_inv (snd (MoveCursorToBeginning m))"
    using assms ends le
    by (auto simp: MoveCursorToBeginning_def tim_inv_iff editable_range_def tr_contains_def Let_def)
  show "tim_inv (snd (MoveCursorToEnd m))"
    using assms ends le
    by (auto simp: MoveCursorToEnd_def tim_inv_iff editable_range_def tr_contains_def Let_def)
  have sel: "tr_start (tim_selection m) \<le> tr_base (tim_selection m)"
      "tr_base (tim_selection m) \<le> tr_end (tim_selection m)"
    by (simp_all add: tr_defs)
  show "tim_inv (snd (SelectToBeginning m))"
    using assms ends le base sel
    by (auto simp: SelectToBeginning_def tim_inv_iff editable_range_def tr_contains_def Let_def min_def max_def)
  show "tim_inv (snd (SelectToEnd m))"
    using assms ends le base sel
    by (auto simp: SelectToEnd_def tim_inv_iff editable_range_def tr_contains_def Let_def min_def max_def)
qed

lemma inv_SetSelection:
  assumes "tim_inv m" "boundary (tim_text m) (tr_base rng)" "boundary (tim_text m) (tr_extent rng)"
  shows "tim_inv (snd (SetSelection rng m))"
  using assms by (simp add: SetSelection_def tim_inv_iff boundary_start_end editable_range_def)

lemma inv_SetComposingRange:
  assumes "tim_inv m" "boundary (tim_text m) (tr_base rng)" "boundary (tim_text m) (tr_extent rng)"
    and "boundary (tim_text m) (tr_start rng + off)" "0 \<le> off" "tr_start rng + off \<le> tr_end rng"
  shows "tim_inv (snd (SetComposingRange rng off m))"
proof -
  have "0 \<le> tr_start rng" "tr_end rng < 2 ^ 62"
    using assms boundary_bounds [of "tim_text m" "tr_start rng"] boundary_bounds [of "tim_text m" "tr_end rng"]
      boundary_start_end [OF assms(2,3)] by (auto simp: tim_inv_iff)
  with assms have "size_add (tr_start rng) off = tr_start rng + off" by simp
  with assms boundary_start_end [OF assms(2,3)] show ?thesis
    by (simp add: SetComposingRange_def tim_inv_iff tr_contains_def)
qed

lemma inv_SetText:
  assumes "Utf8ToUtf16 t = Inr (enc cs)" "list_all scalar cs" "len (enc cs) < 2 ^ 62"
    and "boundary (enc cs) (tr_base sel)" "boundary (enc cs) (tr_extent sel)"
    and "boundary (enc cs) (tr_base cmp)" "boundary (enc cs) (tr_extent cmp)"
    and "\<not> tr_collapsed cmp \<Longrightarrow> tr_contains cmp sel"
  obtains m' where "SetText t sel cmp m = Inr (True, m')" "tim_inv m'" "tim_text m' = enc cs"
    "tim_selection m' = sel"
proof -
  have b: "boundary (enc cs) (tr_start sel)" "boundary (enc cs) (tr_end sel)"
      "boundary (enc cs) (tr_start cmp)" "boundary (enc cs) (tr_end cmp)"
    using assms(4-7) by (simp_all add: boundary_start_end)
  let ?m = "m\<lparr>tim_text := enc cs, tim_selection := sel, tim_composing_range := cmp,
      tim_composing := \<not> tr_collapsed cmp\<rparr>"
  have "SetText t sel cmp m = Inr (True, ?m)"
    using assms(1) b [THEN boundary_bounds]
    by (simp add: SetText_def text_range_def tr_contains_def)
  moreover have "tim_inv ?m" using assms b by (auto simp: tim_inv_iff)
  ultimately show ?thesis using that by simp
qed

section \<open>Calls and their preconditions\<close>

text \<open>Every method of \<open>TextInputModel\<close> that changes it, with its arguments.\<close>

datatype tim_call =
    Call_SetText "u8 list" TextRange TextRange
  | Call_SetSelection TextRange
  | Call_SetComposingRange TextRange size_t
  | Call_BeginComposing
  | Call_UpdateComposingText "u16 list" TextRange
  | Call_UpdateComposingText_end "u16 list"
  | Call_UpdateComposingText_utf8 "u8 list"
  | Call_CommitComposing
  | Call_EndComposing
  | Call_AddText "u16 list"
  | Call_AddText_utf8 "u8 list"
  | Call_AddCodePoint u32
  | Call_Backspace
  | Call_Delete
  | Call_DeleteSurrounding int int
  | Call_MoveCursorToBeginning
  | Call_MoveCursorToEnd
  | Call_SelectToBeginning
  | Call_SelectToEnd
  | Call_MoveCursorForward
  | Call_MoveCursorBack

fun do_call :: "tim_call \<Rightarrow> TextInputModel \<Rightarrow> TextInputModel result" where
  "do_call (Call_SetText t sel cmp) m = map_sum id snd (SetText t sel cmp m)"
| "do_call (Call_SetSelection rng) m = Inr (snd (SetSelection rng m))"
| "do_call (Call_SetComposingRange rng off) m = Inr (snd (SetComposingRange rng off m))"
| "do_call Call_BeginComposing m = Inr (BeginComposing m)"
| "do_call (Call_UpdateComposingText us sel) m = UpdateComposingText us sel m"
| "do_call (Call_UpdateComposingText_end us) m = UpdateComposingText_end us m"
| "do_call (Call_UpdateComposingText_utf8 t) m = UpdateComposingText_utf8 t m"
| "do_call Call_CommitComposing m = Inr (CommitComposing m)"
| "do_call Call_EndComposing m = Inr (EndComposing m)"
| "do_call (Call_AddText us) m = AddText us m"
| "do_call (Call_AddText_utf8 t) m = AddText_utf8 t m"
| "do_call (Call_AddCodePoint c) m = AddCodePoint c m"
| "do_call Call_Backspace m = map_sum id snd (Backspace m)"
| "do_call Call_Delete m = map_sum id snd (Delete m)"
| "do_call (Call_DeleteSurrounding off n) m = map_sum id snd (DeleteSurrounding off n m)"
| "do_call Call_MoveCursorToBeginning m = Inr (snd (MoveCursorToBeginning m))"
| "do_call Call_MoveCursorToEnd m = Inr (snd (MoveCursorToEnd m))"
| "do_call Call_SelectToBeginning m = Inr (snd (SelectToBeginning m))"
| "do_call Call_SelectToEnd m = Inr (snd (SelectToEnd m))"
| "do_call Call_MoveCursorForward m = map_sum id snd (MoveCursorForward m)"
| "do_call Call_MoveCursorBack m = map_sum id snd (MoveCursorBack m)"

text \<open>
  The code checks only that ranges lie in the text.  What a call may ask for besides, so that the
  model stays consistent: text that is well-formed UTF-16 and fits, and ranges with their ends
  between code points.
\<close>

definition text_ok :: "u16 list \<Rightarrow> TextInputModel \<Rightarrow> bool" where
  "text_ok us m \<longleftrightarrow> decode16 us \<noteq> None \<and> len (tim_text m) + len us < 2 ^ 62"

definition range_ok :: "u16 list \<Rightarrow> TextRange \<Rightarrow> bool" where
  "range_ok us rng \<longleftrightarrow> boundary us (tr_base rng) \<and> boundary us (tr_extent rng)"

definition update_ok :: "u16 list \<Rightarrow> TextRange \<Rightarrow> TextInputModel \<Rightarrow> bool" where
  "update_ok us sel m \<longleftrightarrow> us = [] \<and> tr_collapsed (tim_composing_range m) \<or>
     tim_composing m \<and> text_ok us m \<and> range_ok us sel"

text \<open>
  The preconditions of each call in the state it is made in.  A \<open>SetText\<close> that is refused keeps the
  new text, so the old ranges must fit it; a call that is refused without a change has no
  precondition; the end of a selection that the composing range does not cover is not a place to
  move to; and \<open>DeleteSurrounding\<close> must measure its section to a place between two code points.  The
  end of the theory has an example for what each of them excludes.
\<close>

fun call_ok :: "tim_call \<Rightarrow> TextInputModel \<Rightarrow> bool" where
  "call_ok (Call_SetText t sel cmp) m \<longleftrightarrow>
     (case Utf8ToUtf16 t of
        Inl _ \<Rightarrow> False
      | Inr us \<Rightarrow> text_ok us (m\<lparr>tim_text := []\<rparr>) \<and>
          (if tr_contains (text_range (m\<lparr>tim_text := us\<rparr>)) sel \<and>
              tr_contains (text_range (m\<lparr>tim_text := us\<rparr>)) cmp
           then range_ok us sel \<and> range_ok us cmp \<and> (tr_collapsed cmp \<or> tr_contains cmp sel)
           else range_ok us (tim_selection m) \<and> (tim_composing m \<longrightarrow> range_ok us (tim_composing_range m))))"
| "call_ok (Call_SetSelection rng) m \<longleftrightarrow> (fst (SetSelection rng m) \<longrightarrow> range_ok (tim_text m) rng)"
| "call_ok (Call_SetComposingRange rng off) m \<longleftrightarrow>
     (fst (SetComposingRange rng off m) \<longrightarrow>
        range_ok (tim_text m) rng \<and> boundary (tim_text m) (tr_start rng + off) \<and> 0 \<le> off \<and>
        tr_start rng + off \<le> tr_end rng)"
| "call_ok (Call_UpdateComposingText us sel) m \<longleftrightarrow> update_ok us sel m"
| "call_ok (Call_UpdateComposingText_end us) m \<longleftrightarrow> update_ok us (TextRange_at (len us)) m"
| "call_ok (Call_UpdateComposingText_utf8 t) m \<longleftrightarrow>
     (case Utf8ToUtf16 t of Inl _ \<Rightarrow> False | Inr us \<Rightarrow> update_ok us (TextRange_at (len us)) m)"
| "call_ok (Call_AddText us) m \<longleftrightarrow> text_ok us m"
| "call_ok (Call_AddText_utf8 t) m \<longleftrightarrow> (case Utf8ToUtf16 t of Inl _ \<Rightarrow> False | Inr us \<Rightarrow> text_ok us m)"
| "call_ok (Call_AddCodePoint c) m \<longleftrightarrow> scalar (uint c) \<and> len (tim_text m) + 2 < 2 ^ 62"
| "call_ok (Call_DeleteSurrounding off n) m \<longleftrightarrow>
     - (2 ^ 31) < off \<and> n < 2 ^ 31 \<and> section_ok off n m \<and>
     tr_contains_position (editable_range m) (tr_extent (tim_selection m))"
| "call_ok Call_MoveCursorForward m \<longleftrightarrow>
     tr_collapsed (tim_selection m) \<or> tr_contains (editable_range m) (tim_selection m)"
| "call_ok _ m \<longleftrightarrow> True"

text \<open>The states that calls within their preconditions lead to.\<close>

inductive tim_reachable :: "TextInputModel \<Rightarrow> bool" where
  new: "tim_reachable TextInputModel_new"
| step: "tim_reachable m \<Longrightarrow> call_ok c m \<Longrightarrow> do_call c m = Inr m' \<Longrightarrow> tim_reachable m'"

section \<open>Every operation keeps the invariant\<close>

lemma inv_AddText:
  assumes "tim_inv m" "list_all scalar cs" "len (tim_text m) + len (enc cs) < 2 ^ 62"
  obtains m' where "AddText (enc cs) m = Inr m'" "tim_inv m'"
proof (cases "tim_composing m")
  case True
  with AddText_composing [OF assms(1) True assms(2,3)] that show ?thesis by metis
next
  case False
  obtain b s a where "cps_split m b s a" using tim_inv_split [OF assms(1)] .
  from AddText_plain [OF assms(1) this False assms(2,3)] that show ?thesis by metis
qed

lemma inv_Backspace:
  assumes inv: "tim_inv m"
  obtains r m' where "Backspace m = Inr (r, m')" "tim_inv m'"
proof -
  obtain r m1 b a s where del: "DeleteSelected m = Inr (r, m1)" "tim_inv m1" "cps_split m1 b [] a"
    and keep: "\<not> r \<Longrightarrow> m1 = m"
    using DeleteSelected_inv [OF inv] by metis
  consider "r" | "\<not> r" "len (enc b) = tr_start (editable_range m)"
    | "\<not> r" "len (enc b) \<noteq> tr_start (editable_range m)" by blast
  then show ?thesis
  proof cases
    case 1
    with del that show ?thesis by (simp add: Backspace_def)
  next
    case 2
    with del keep that cursor_facts [OF del(2,3)] show ?thesis by (simp add: Backspace_def)
  next
    case 3
    with keep del(3) have sp: "cps_split m b [] a" by simp
    from editable_start_split [OF inv sp 3(2)] obtain b0 c where b: "b = b0 @ [c]" by metis
    from Backspace_ok [OF inv sp [unfolded b]] 3(2) b that show ?thesis by metis
  qed
qed

lemma inv_Delete:
  assumes inv: "tim_inv m"
  obtains r m' where "Delete m = Inr (r, m')" "tim_inv m'"
proof -
  obtain r m1 b a s where del: "DeleteSelected m = Inr (r, m1)" "tim_inv m1" "cps_split m1 b [] a"
    and keep: "\<not> r \<Longrightarrow> m1 = m"
    using DeleteSelected_inv [OF inv] by metis
  consider "r" | "\<not> r" "\<not> len (enc b) < tr_end (editable_range m)"
    | "\<not> r" "len (enc b) < tr_end (editable_range m)" by blast
  then show ?thesis
  proof cases
    case 1
    with del that show ?thesis by (simp add: Delete_def)
  next
    case 2
    with del keep that cursor_facts [OF del(2,3)] show ?thesis by (simp add: Delete_def)
  next
    case 3
    with keep del(3) have sp: "cps_split m b [] a" by simp
    from editable_end_split [OF inv sp] 3(2) obtain c a0 where a: "a = c # a0" by (metis less_irrefl)
    from Delete_ok [OF inv sp [unfolded a] 3(2)] that show ?thesis by metis
  qed
qed

lemma inv_MoveCursorBack:
  assumes inv: "tim_inv m"
  obtains r m' where "MoveCursorBack m = Inr (r, m')" "tim_inv m'"
proof -
  obtain b s a where sp: "cps_split m b s a" using tim_inv_split [OF inv] .
  consider "s \<noteq> []" | "s = []" "len (enc b) = tr_start (editable_range m)"
    | "s = []" "len (enc b) \<noteq> tr_start (editable_range m)" by blast
  then show ?thesis
  proof cases
    case 1
    have "tim_inv (m\<lparr>tim_selection := TextRange_at (tr_start (tim_selection m))\<rparr>)"
      using inv tr_start_le_end [of "tim_selection m"] by (auto simp: tim_inv_iff tr_contains_def)
    with 1 collapsed_iff [OF sp] that show ?thesis by (simp add: MoveCursorBack_def)
  next
    case 2
    with sp have sp': "cps_split m b [] a" by simp
    from 2 cursor_facts(1) [OF inv sp'] inv that [of False m] show ?thesis
      by (simp add: MoveCursorBack_def)
  next
    case 3
    with sp have sp': "cps_split m b [] a" by simp
    from editable_start_split [OF inv sp' 3(2)] obtain b0 c where b: "b = b0 @ [c]" by metis
    from MoveCursorBack_ok [OF inv sp' [unfolded b]] 3(2) b that show ?thesis by metis
  qed
qed

lemma inv_MoveCursorForward:
  assumes inv: "tim_inv m" and ed: "tr_contains (editable_range m) (tim_selection m)"
  obtains r m' where "MoveCursorForward m = Inr (r, m')" "tim_inv m'"
proof -
  obtain b s a where sp: "cps_split m b s a" using tim_inv_split [OF inv] .
  consider "s \<noteq> []" | "s = []" "len (enc b) = tr_end (editable_range m)"
    | "s = []" "len (enc b) \<noteq> tr_end (editable_range m)" by blast
  then show ?thesis
  proof cases
    case 1
    have "tim_inv (m\<lparr>tim_selection := TextRange_at (tr_end (tim_selection m))\<rparr>)"
      using inv ed tr_start_le_end [of "tim_selection m"]
      by (auto simp: tim_inv_iff tr_contains_def editable_range_def)
    with 1 collapsed_iff [OF sp] that show ?thesis by (simp add: MoveCursorForward_def)
  next
    case 2
    with sp have sp': "cps_split m b [] a" by simp
    from 2 cursor_facts(1) [OF inv sp'] inv that [of False m] show ?thesis
      by (simp add: MoveCursorForward_def)
  next
    case 3
    with sp have sp': "cps_split m b [] a" by simp
    from editable_end_split [OF inv sp' 3(2)] obtain c a0 where a: "a = c # a0" by metis
    from MoveCursorForward_ok [OF inv sp' [unfolded a] 3(2)] that show ?thesis by metis
  qed
qed

text \<open>The arithmetic of \<open>AddCodePoint\<close> does not wrap for a code point.\<close>

lemma uint_add_u32: "uint (v::u32) + uint w < 2 ^ 32 \<Longrightarrow> uint (v + w) = uint v + uint w"
  by (simp add: uint_word_ariths)

lemma uint_sub_u32: "uint (w::u32) \<le> uint v \<Longrightarrow> uint (v - w) = uint v - uint w"
  by (rule uint_sub_lem [THEN iffD1])

lemma ucast_u32_u16: "(ucast (w::u32) :: u16) = word_of_int (uint w)"
  by (simp add: word_uint_eq_iff uint_word_of_int unsigned_ucast_eq take_bit_eq_mod)

lemma AddCodePoint_encode16:
  assumes "scalar (uint c)"
  shows "AddCodePoint c m = AddText (encode16 (uint c)) m"
proof (cases "c \<le> 0xFFFF")
  case True
  then have "uint c \<le> 0xFFFF" by (simp add: word_le_def)
  with True show ?thesis by (simp only: AddCodePoint_def encode16_def ucast_u32_u16 if_True)
next
  case False
  then have big: "\<not> uint c \<le> 0xFFFF" by (simp add: word_le_def)
  define d where "d = c - 0x10000"
  have d: "uint d = uint c - 0x10000" using big unfolding d_def by (subst uint_sub_u32) simp_all
  then have small: "0 \<le> uint d" "uint d < 1048576" using assms big by (simp_all add: scalar_def)
  have "uint (drop_bit 10 d) = uint d div 1024"
    using small by (simp only: unsigned_drop_bit_eq) (simp add: drop_bit_eq_div take_bit_eq_mod)
  moreover have "uint d div 1024 < 1024" using small by simp
  ultimately have hi: "uint (drop_bit 10 d + 0xD800) = 0xD800 + uint d div 1024"
    by (subst uint_add_u32) simp_all
  have "uint (d mod 0x400) = uint d mod 1024" by (simp add: uint_mod)
  moreover have "uint d mod 1024 < 1024" by simp
  ultimately have lo: "uint (d mod 0x400 + 0xDC00) = 0xDC00 + uint d mod 1024"
    by (subst uint_add_u32) simp_all
  have "encode16 (uint c) = [word_of_int (0xD800 + uint d div 1024), word_of_int (0xDC00 + uint d mod 1024)]"
    unfolding encode16_def d using big by (simp only: if_False)
  moreover have "AddCodePoint c m = AddText [ucast (drop_bit 10 d + 0xD800), ucast (d mod 0x400 + 0xDC00)] m"
    using False by (simp only: AddCodePoint_def Let_def d_def if_False)
  ultimately show ?thesis by (simp only: ucast_u32_u16 hi lo)
qed

lemma text_ok_enc:
  assumes "text_ok us m"
  obtains cs where "us = enc cs" "list_all scalar cs" "len (tim_text m) + len (enc cs) < 2 ^ 62"
proof -
  from assms obtain cs where cs: "decode16 us = Some cs" by (auto simp: text_ok_def)
  then have "us = enc cs" using encode16_decode16 [OF cs] by (simp add: enc_def)
  with that [of cs] decode16_scalar [OF cs] assms show ?thesis by (simp add: text_ok_def)
qed

lemma range_ok_end: "decode16 us \<noteq> None \<Longrightarrow> range_ok us (TextRange_at (len us))"
proof -
  assume "decode16 us \<noteq> None"
  then obtain cs where cs: "decode16 us = Some cs" by auto
  then have "us = enc cs" using encode16_decode16 [OF cs] by (simp add: enc_def)
  then show ?thesis
    using boundaryI [of us cs "[]"] decode16_scalar [OF cs] by (simp add: range_ok_def)
qed

lemma update_ok_inv:
  assumes inv: "tim_inv m" and ok: "update_ok us sel m"
  shows "\<exists>m'. UpdateComposingText us sel m = Inr m' \<and> tim_inv m'"
proof (cases "us = [] \<and> tr_collapsed (tim_composing_range m)")
  case True
  then show ?thesis using inv by (simp add: UpdateComposingText_def)
next
  case False
  with ok have co: "tim_composing m" "text_ok us m" "range_ok us sel" by (auto simp: update_ok_def)
  obtain cs where "us = enc cs" "list_all scalar cs" "len (tim_text m) + len (enc cs) < 2 ^ 62"
    using text_ok_enc [OF co(2)] .
  with UpdateComposingText_ok [OF inv co(1), of cs sel] co(3) show ?thesis
    unfolding range_ok_def by metis
qed

lemma AddText_inv:
  assumes "tim_inv m" "text_ok us m"
  shows "\<exists>m'. AddText us m = Inr m' \<and> tim_inv m'"
  using text_ok_enc [OF assms(2)] inv_AddText [OF assms(1)] by metis

lemma SetText_inv:
  assumes inv: "tim_inv m" and ok: "call_ok (Call_SetText t sel cmp) m"
  shows "\<exists>r m'. SetText t sel cmp m = Inr (r, m') \<and> tim_inv m'"
proof -
  obtain us where us: "Utf8ToUtf16 t = Inr us" using ok by (auto split: sum.splits)
  then have tx: "text_ok us (m\<lparr>tim_text := []\<rparr>)" using ok by simp
  obtain cs where cs: "us = enc cs" "list_all scalar cs" "len (enc cs) < 2 ^ 62"
    using text_ok_enc [OF tx] by auto
  show ?thesis
  proof (cases "tr_contains (text_range (m\<lparr>tim_text := us\<rparr>)) sel \<and> tr_contains (text_range (m\<lparr>tim_text := us\<rparr>)) cmp")
    case True
    with ok us have "range_ok us sel" "range_ok us cmp" "tr_collapsed cmp \<or> tr_contains cmp sel" by simp_all
    with inv_SetText [of t cs sel cmp m] us cs show ?thesis unfolding range_ok_def by metis
  next
    case False
    with ok us have "range_ok us (tim_selection m)" "tim_composing m \<longrightarrow> range_ok us (tim_composing_range m)"
      by (simp_all split: if_splits)
    then have "tim_inv (m\<lparr>tim_text := us\<rparr>)" using inv cs by (simp add: tim_inv_def range_ok_def)
    moreover have "SetText t sel cmp m = Inr (False, m\<lparr>tim_text := us\<rparr>)"
      using False us by (simp add: SetText_def Let_def)
    ultimately show ?thesis by blast
  qed
qed

lemma forward_ok_inv:
  assumes inv: "tim_inv m" and "tr_collapsed (tim_selection m) \<or> tr_contains (editable_range m) (tim_selection m)"
  shows "tr_contains (editable_range m) (tim_selection m)"
  using assms(2)
proof
  assume "tr_collapsed (tim_selection m)"
  then have se: "tr_end (tim_selection m) = tr_start (tim_selection m)" by (simp add: tr_defs)
  show ?thesis
    using inv se boundary_bounds [of "tim_text m" "tr_start (tim_selection m)"]
    by (auto simp: tim_inv_iff editable_range_def text_range_def tr_contains_def)
qed

lemma do_call_inv:
  assumes inv: "tim_inv m" and ok: "call_ok c m"
  shows "\<exists>m'. do_call c m = Inr m' \<and> tim_inv m'"
proof (cases c)
  case (Call_SetText t sel cmp)
  then show ?thesis using SetText_inv [OF inv, of t sel cmp] ok by auto
next
  case (Call_SetSelection rng)
  then show ?thesis
    using inv_SetSelection [OF inv, of rng] ok inv by (auto simp: range_ok_def SetSelection_def split: if_splits)
next
  case (Call_SetComposingRange rng off)
  then show ?thesis
    using inv_SetComposingRange [OF inv, of rng off] ok inv
    by (auto simp: range_ok_def SetComposingRange_def split: if_splits)
next
  case (Call_UpdateComposingText us sel)
  then show ?thesis using update_ok_inv [OF inv] ok by simp
next
  case (Call_UpdateComposingText_end us)
  then show ?thesis using update_ok_inv [OF inv] ok by (simp add: UpdateComposingText_end_def)
next
  case (Call_UpdateComposingText_utf8 t)
  then show ?thesis using update_ok_inv [OF inv] ok
    by (auto simp: UpdateComposingText_utf8_def UpdateComposingText_end_def split: sum.splits)
next
  case (Call_AddText us)
  then show ?thesis using AddText_inv [OF inv] ok by simp
next
  case (Call_AddText_utf8 t)
  then show ?thesis using AddText_inv [OF inv] ok by (auto simp: AddText_utf8_def split: sum.splits)
next
  case (Call_AddCodePoint c)
  then have sc: "scalar (uint c)" "len (tim_text m) + 2 < 2 ^ 62" using ok by simp_all
  have "length (encode16 (uint c)) \<le> 2" using encode16_cases [OF sc(1)] by (metis length_Cons list.size(3) numeral_2_eq_2 order.refl one_le_numeral One_nat_def)
  then have "text_ok (encode16 (uint c)) m"
    using sc decode16_encode16 [OF sc(1), of "[]"] by (simp add: text_ok_def)
  then show ?thesis
    using AddText_inv [OF inv] AddCodePoint_encode16 [OF sc(1)] Call_AddCodePoint by simp
next
  case Call_Backspace
  then show ?thesis using inv_Backspace [OF inv] by (metis do_call.simps(13) map_sum.simps(2) snd_conv)
next
  case Call_Delete
  then show ?thesis using inv_Delete [OF inv] by (metis do_call.simps(14) map_sum.simps(2) snd_conv)
next
  case (Call_DeleteSurrounding off n)
  then have "tr_contains_position (editable_range m) (tr_extent (tim_selection m))" "- (2 ^ 31) < off"
    "n < 2 ^ 31" "section_ok off n m" using ok by simp_all
  from inv_DeleteSurrounding [OF inv this] Call_DeleteSurrounding show ?thesis
    by (metis do_call.simps(15) map_sum.simps(2) snd_conv)
next
  case Call_MoveCursorForward
  then show ?thesis using inv_MoveCursorForward [OF inv forward_ok_inv [OF inv]] ok
    by (metis call_ok.simps(11) do_call.simps(20) map_sum.simps(2) snd_conv)
next
  case Call_MoveCursorBack
  then show ?thesis using inv_MoveCursorBack [OF inv] by (metis do_call.simps(21) map_sum.simps(2) snd_conv)
qed (use inv inv_composing_switch inv_select in auto)

lemma tim_inv_new: "tim_inv TextInputModel_new"
  using boundaryI [of "[]" "[]" "[]"] by (simp add: tim_inv_iff TextInputModel_new_def)

lemma tim_reachable_inv: "tim_reachable m \<Longrightarrow> tim_inv m"
proof (induction rule: tim_reachable.induct)
  case (step m c m')
  then show ?case using do_call_inv [of m c] by auto
qed (rule tim_inv_new)

lemma enc_snoc_nonzero: "len (enc (b @ [c])) \<noteq> 0"
  using encode16_pos [of c] by (simp del: length_greater_0_conv)

section \<open>Properties\<close>

text \<open>The text \<open>a\<close>, U+1F600, \<open>b\<close> with the cursor after the second code point.\<close>

definition demo_text :: TextInputModel where
  "demo_text = TextInputModel_new\<lparr>tim_text := [0x61, 0xD83D, 0xDE00, 0x62], tim_selection := TextRange_at 3\<rparr>"

lemma demo_enc: "enc [0x61, 0x1F600, 0x62] = [0x61, 0xD83D, 0xDE00, 0x62]"
  by code_simp

lemma demo_reachable: "tim_reachable demo_text"
proof -
  let ?m = "TextInputModel_new\<lparr>tim_text := [0x61, 0xD83D, 0xDE00, 0x62], tim_selection := TextRange_at 4\<rparr>"
  have "do_call (Call_AddText [0x61, 0xD83D, 0xDE00, 0x62]) TextInputModel_new = Inr ?m" by code_simp
  then have "tim_reachable ?m"
    by (rule tim_reachable.step [OF tim_reachable.new, rotated]) code_simp
  moreover have "do_call Call_MoveCursorBack ?m = Inr demo_text" by code_simp
  ultimately show ?thesis using tim_reachable.step [of ?m Call_MoveCursorBack demo_text] by simp
qed



text \<open>
  C13: no method of the model throws or fails an assertion when it is called within the
  preconditions of \<open>call_ok\<close>, in a state that such calls lead to; \<open>Backspace\<close>, \<open>Delete\<close>,
  \<open>MoveCursorBack\<close> and the calls that select, or begin, commit and end composing have no precondition.
\<close>

theorem text_edits_total:
  assumes "tim_reachable m"
    and "call_ok c m \<or> c \<in> {Call_Backspace, Call_Delete, Call_MoveCursorBack, Call_BeginComposing,
      Call_CommitComposing, Call_EndComposing, Call_MoveCursorToBeginning, Call_MoveCursorToEnd,
      Call_SelectToBeginning, Call_SelectToEnd}"
  shows "\<exists>m'. do_call c m = Inr m' \<and> tim_reachable m'"
proof -
  have ok: "call_ok c m" using assms(2) by auto
  then obtain m' where "do_call c m = Inr m'" using do_call_inv [OF tim_reachable_inv [OF assms(1)]] by blast
  with tim_reachable.step [OF assms(1) ok] show ?thesis by blast
qed

theorem text_edits_total_witness:
  "\<exists>m'. do_call (Call_DeleteSurrounding (- 1) 1) demo_text = Inr m' \<and> tim_reachable m'"
proof -
  have "call_ok (Call_DeleteSurrounding (- 1) 1) demo_text" by code_simp
  then show ?thesis using text_edits_total [OF demo_reachable, of "Call_DeleteSurrounding (- 1) 1"] by simp
qed

text \<open>
  C12: Outside composing, \<open>Backspace\<close> deletes the selection, or else the one code point before the
  cursor, and reports whether there was something to delete; \<open>Delete\<close> does the same after the
  cursor.
\<close>
theorem backspace_delete_code_point:
  assumes "tim_reachable m" and "cps_split m b s a" and "\<not> tim_composing m"
  shows "(\<exists>m'. Backspace m = Inr (s \<noteq> [] \<or> b \<noteq> [], m') \<and>
      cps_split m' (if s = [] then butlast b else b) [] a) \<and>
    (\<exists>m'. Delete m = Inr (s \<noteq> [] \<or> a \<noteq> [], m') \<and> cps_split m' b [] (if s = [] then tl a else a))"
proof (intro conjI)
  note inv = tim_reachable_inv [OF assms(1)]
  have ed: "tr_start (editable_range m) = 0" "tr_end (editable_range m) = len (tim_text m)"
    using assms(3) by (simp_all add: editable_range_def text_range_def)
  show "\<exists>m'. Backspace m = Inr (s \<noteq> [] \<or> b \<noteq> [], m') \<and>
      cps_split m' (if s = [] then butlast b else b) [] a"
  proof (cases "s = []")
    case False
    with DeleteSelected_ok [OF inv assms(2)] assms show ?thesis
      by (simp add: Backspace_def cps_split_def)
  next
    case True
    with assms have sp: "cps_split m b [] a" by simp
    show ?thesis
    proof (cases b rule: rev_cases)
      case Nil
      with True sp cursor_facts [OF inv sp] ed show ?thesis by (simp add: Backspace_def DeleteSelected_def)
    next
      case (snoc b0 c)
      obtain m' where "Backspace m = Inr (True, m')" "cps_split m' b0 [] a"
        using Backspace_ok [OF inv sp [unfolded snoc]] ed by (metis enc_snoc_nonzero)
      with True snoc show ?thesis by auto
    qed
  qed
  show "\<exists>m'. Delete m = Inr (s \<noteq> [] \<or> a \<noteq> [], m') \<and> cps_split m' b [] (if s = [] then tl a else a)"
  proof (cases "s = []")
    case False
    with DeleteSelected_ok [OF inv assms(2)] assms show ?thesis
      by (simp add: Delete_def cps_split_def)
  next
    case True
    with assms have sp: "cps_split m b [] a" by simp
    show ?thesis
    proof (cases a)
      case Nil
      with True sp cursor_facts [OF inv sp] ed show ?thesis by (simp add: Delete_def DeleteSelected_def)
    next
      case (Cons c a0)
      obtain m' where "Delete m = Inr (True, m')" "cps_split m' b [] a0"
        using Delete_ok [OF inv sp [unfolded Cons]] ed cursor_facts(2) [OF inv sp] encode16_pos [of c]
        by (auto simp: Cons simp del: length_greater_0_conv)
      with True Cons show ?thesis by auto
    qed
  qed
qed

lemma demo_split: "cps_split demo_text [0x61, 0x1F600] [] [0x62]"
  by code_simp

theorem backspace_delete_code_point_witness:
  "\<exists>m'. Backspace demo_text = Inr (True, m') \<and> cps_split m' [0x61] [] [0x62]"
  using backspace_delete_code_point [OF demo_reachable demo_split]
  by (simp add: demo_text_def TextInputModel_new_def)

text \<open>
  Outside composing, adding well-formed text replaces the selection by it and puts the cursor
  behind it, and adding a code point outside the surrogate range adds exactly that code point.
\<close>
theorem add_text_replaces:
  assumes "tim_reachable m" and "cps_split m b s a" and "\<not> tim_composing m"
    and "list_all scalar t" and "len (tim_text m) + len (enc t) < 2 ^ 62"
  shows "\<exists>m'. AddText (enc t) m = Inr m' \<and> cps_split m' (b @ t) [] a \<and>
    (\<forall>c. t = [uint c] \<longrightarrow> AddCodePoint c m = Inr m')"
proof -
  obtain m' where m': "AddText (enc t) m = Inr m'" "cps_split m' (b @ t) [] a"
    using AddText_plain [OF tim_reachable_inv [OF assms(1)] assms(2-5)] .
  have "AddCodePoint c m = AddText (enc [uint c]) m" if "scalar (uint c)" for c
    using AddCodePoint_encode16 [OF that] by simp
  with m' assms(4) show ?thesis by auto
qed

theorem add_text_replaces_witness:
  "\<exists>m'. AddText (enc [0x1F600]) demo_text = Inr m' \<and>
     cps_split m' ([0x61, 0x1F600] @ [0x1F600]) [] [0x62]"
proof -
  have "\<not> tim_composing demo_text" "list_all scalar [0x1F600]"
      "len (tim_text demo_text) + len (enc [0x1F600]) < 2 ^ 62"
    by code_simp+
  from add_text_replaces [OF demo_reachable demo_split this] show ?thesis by auto
qed

text \<open>
  The UTF-8 text read from a reachable state without null characters, set again with any
  selection and composing range of the text, gives the same UTF-16 text and the requested
  selection.
\<close>
theorem get_set_text_roundtrip:
  assumes "tim_reachable m" and "0 \<notin> set (tim_text m)"
    and "tr_contains (text_range m) sel" and "tr_contains (text_range m) cmp"
  shows "\<exists>bytes m''. GetText m = Inr bytes \<and> SetText bytes sel cmp m' = Inr (True, m'') \<and>
    tim_text m'' = tim_text m \<and> tim_selection m'' = sel \<and> GetText m'' = Inr bytes"
proof -
  obtain b s a where "cps_split m b s a" using tim_inv_split [OF tim_reachable_inv [OF assms(1)]] .
  then have "decode16 (tim_text m) = Some (b @ s @ a)"
    using decode16_enc [of "b @ s @ a"] by (simp add: cps_split_def)
  from utf16_utf8_roundtrip [OF this assms(2)] assms(3,4) show ?thesis
    by (simp add: GetText_def SetText_def text_range_def)
qed

theorem get_set_text_roundtrip_witness:
  "\<exists>bytes m''. GetText demo_text = Inr bytes \<and>
     SetText bytes (TextRange_at 1) (TextRange_at 0) TextInputModel_new = Inr (True, m'') \<and>
     tim_text m'' = [0x61, 0xD83D, 0xDE00, 0x62]"
proof -
  have pre: "0 \<notin> set (tim_text demo_text)" "tr_contains (text_range demo_text) (TextRange_at 1)"
      "tr_contains (text_range demo_text) (TextRange_at 0)"
    by code_simp+
  have "tim_text demo_text = [0x61, 0xD83D, 0xDE00, 0x62]" by (simp add: demo_text_def)
  with get_set_text_roundtrip [OF demo_reachable pre, of TextInputModel_new] show ?thesis by auto
qed

text \<open>
  C14: what \<open>DeleteSurrounding\<close> deletes.  With the editable text split at the extent of the selection
  into \<open>b\<close> and \<open>a\<close>, the section starts \<open>off\<close> code points after the cursor, or before it, and no
  further than the editable range reaches (\<open>pre\<close>, \<open>rest\<close>).  The number of code points counts as
  requested, except when the section would start before the editable range: then it is the number
  of code points before the cursor, whatever was requested.  Each of them is counted with the width of
  the first code point of the section, so what is deleted is not a number of code points when the
  widths differ: it can end in a surrogate pair, or behind the editable range.
\<close>

theorem delete_surrounding_units:
  assumes "tim_reachable m" and "edit_split m x b a z"
    and "- (2 ^ 31) < off" and "n < 2 ^ 31" and "surround_cps off n b a = (pre, rest, k)"
  shows "\<exists>m'. DeleteSurrounding off n m = Inr (surround_units k rest \<noteq> 0, m') \<and>
    tim_text m' = enc x @ enc pre @ drop (nat (surround_units k rest)) (enc rest @ enc z)"
proof -
  have len: "len (tim_text m) < 2 ^ 62" using tim_reachable_inv [OF assms(1)] by (simp add: tim_inv_def)
  have "tim_text m = enc (x @ pre) @ enc rest @ enc z"
    using surround_section_cps(2) [OF assms(2) len assms(3-5)] .
  then show ?thesis
    using DeleteSurrounding_cps [OF assms(2) len assms(3-5)] by (auto simp: shrink_composing_def)
qed

definition demo_pair :: TextInputModel where
  "demo_pair = TextInputModel_new\<lparr>tim_text := [0x61, 0xD83D, 0xDE00, 0x62], tim_selection := TextRange_at 0\<rparr>"

lemma demo_pair_reachable: "tim_reachable demo_pair"
proof -
  have "do_call Call_MoveCursorToBeginning demo_text = Inr demo_pair" by code_simp
  then show ?thesis by (rule tim_reachable.step [OF demo_reachable, rotated]) simp
qed

text \<open>Deleting two code points of \<open>a\<close> U+1F600 \<open>b\<close> leaves half a pair.\<close>

theorem delete_surrounding_units_witness:
  "\<exists>m'. DeleteSurrounding 0 2 demo_pair = Inr (True, m') \<and> tim_text m' = [0xDE00, 0x62] \<and>
     decode16 (tim_text m') = None"
proof -
  have sp: "edit_split demo_pair [] [] [0x61, 0x1F600, 0x62] []" by code_simp
  have c: "surround_cps 0 2 [] [0x61, 0x1F600, 0x62] = ([], [0x61, 0x1F600, 0x62], 2)" by code_simp
  have u: "surround_units 2 [0x61, 0x1F600, 0x62] \<noteq> 0"
    "enc [] @ enc [] @ drop (nat (surround_units 2 [0x61, 0x1F600, 0x62])) (enc [0x61, 0x1F600, 0x62] @ enc []) =
       [0xDE00, 0x62]" "decode16 [0xDE00, 0x62] = None"
    by code_simp+
  obtain m' where m': "DeleteSurrounding 0 2 demo_pair = Inr (True, m')" "tim_text m' = [0xDE00, 0x62]"
    using delete_surrounding_units [OF demo_pair_reachable sp _ _ c] unfolding u(2) using u(1) by auto
  show ?thesis using m' u(3) by (intro exI [of _ m']) (simp only: simp_thms)
qed

section \<open>What the preconditions exclude\<close>

text \<open>
  After \<open>SetText\<close> has rejected a selection, the new text is in place with the old selection, and the
  next backspace throws.
\<close>

lemma rejected_set_text_throws:
  "let m = TextInputModel_new\<lparr>tim_text := [0x61, 0x62], tim_selection := TextRange_at 2\<rparr>
   in fst (projr (SetText [0x78] (TextRange_at 5) (TextRange_at 0) m)) = False \<and>
      Backspace (snd (projr (SetText [0x78] (TextRange_at 5) (TextRange_at 0) m))) = Inl OutOfRange"
  by code_simp

text \<open>
  Moving forward out of a selection while composing leaves the composing range; the next backspace
  then makes its end wrap around.
\<close>

lemma composing_range_wraps:
  "let m = BeginComposing (TextInputModel_new\<lparr>tim_text := [0x61, 0x62],
             tim_selection := TextRange_of 0 2\<rparr>);
       m1 = snd (projr (MoveCursorForward m));
       m2 = snd (projr (Backspace m1))
   in tr_contains (editable_range m1) (tim_selection m1) = False \<and>
      tr_end (tim_composing_range m2) = 2 ^ 64 - 1"
  by code_simp

text \<open>
  A selection inside a surrogate pair is accepted; text added there splits the pair.
\<close>

lemma selection_splits_pair:
  "let m = TextInputModel_new\<lparr>tim_text := [0xD83D, 0xDE00]\<rparr>;
       m1 = snd (SetSelection (TextRange_at 1) m)
   in fst (SetSelection (TextRange_at 1) m) \<and>
      map_sum id (\<lambda>m. decode16 (tim_text m)) (AddText [0x78] m1) = Inr None"
  by code_simp

text \<open>
  A cursor offset outside the composing range is accepted; the next backspace throws.
\<close>

lemma cursor_offset_throws:
  "let m = BeginComposing TextInputModel_new
   in fst (SetComposingRange (TextRange_at 0) 5 m) \<and>
      map_sum id fst (Backspace (snd (SetComposingRange (TextRange_at 0) 5 m))) = Inl OutOfRange"
  by code_simp

text \<open>
  \<open>UpdateComposingText\<close> outside composing leaves a composing range, and \<open>CommitComposing\<close> moves the
  selection to its end also when the text is gone.
\<close>

lemma update_outside_composing_throws:
  "let m = projr (UpdateComposingText_end [0x78] TextInputModel_new);
       m1 = snd (projr (Backspace m));
       m2 = CommitComposing m1
   in tim_text m1 = [] \<and> tim_selection m2 = TextRange_at 1 \<and> map_sum id fst (Backspace m2) = Inl OutOfRange"
  by code_simp

text \<open>
  When the section starts before the text, as many code points are deleted as there are before the
  cursor, although one was requested.
\<close>

lemma delete_surrounding_before_text:
  "map_sum id (tim_text \<circ> snd) (DeleteSurrounding (- 5) 1
     (TextInputModel_new\<lparr>tim_text := [0x61, 0x62, 0x63], tim_selection := TextRange_at 2\<rparr>)) = Inr [0x63]"
  by code_simp

end
