(* ===== verification/Byte_Streams.thy ===== *)
theory Byte_Streams
  imports Bytes
begin

text \<open>
  \<open>shell/platform/common/client_wrapper\<close>: the byte stream interfaces of \<open>byte_streams.h\<close> and their
  implementation on a byte buffer in \<open>byte_buffer_streams.h\<close>.  The contract that ties a writer to a
  reader is the locale \<open>stream_codec\<close>; the codecs built on streams are interpretations of it.
\<close>

section \<open>Reader\<close>

record ByteBufferStreamReader =
  rd_bytes :: "u8 list"
  rd_location :: nat

definition ByteBufferStreamReader_new :: "u8 list \<Rightarrow> ByteBufferStreamReader" where
  "ByteBufferStreamReader_new bytes = \<lparr>rd_bytes = bytes, rd_location = 0\<rparr>"

definition ReadByte :: "ByteBufferStreamReader \<Rightarrow> u8 \<times> ByteBufferStreamReader" where
  "ReadByte r =
     (if rd_location r \<ge> length (rd_bytes r) then (0, r)
      else (rd_bytes r ! rd_location r, r\<lparr>rd_location := rd_location r + 1\<rparr>))"

text \<open>
  \<open>ReadBytes\<close> into a buffer that its callers have cleared: after an invalid read the buffer still
  holds zeros and the location has not moved.
\<close>

definition ReadBytes :: "nat \<Rightarrow> ByteBufferStreamReader \<Rightarrow> u8 list \<times> ByteBufferStreamReader" where
  "ReadBytes n r =
     (if rd_location r + n > length (rd_bytes r) then (replicate n 0, r)
      else (take n (drop (rd_location r) (rd_bytes r)), r\<lparr>rd_location := rd_location r + n\<rparr>))"

definition ReadAlignment :: "nat \<Rightarrow> ByteBufferStreamReader \<Rightarrow> ByteBufferStreamReader" where
  "ReadAlignment alignment r =
     (let m = rd_location r mod alignment
      in if m \<noteq> 0 then r\<lparr>rd_location := rd_location r + (alignment - m)\<rparr> else r)"

definition ReadInt32 :: "ByteBufferStreamReader \<Rightarrow> u32 \<times> ByteBufferStreamReader" where
  "ReadInt32 r = (let (bs, r') = ReadBytes 4 r in (word32 bs, r'))"

definition ReadInt64 :: "ByteBufferStreamReader \<Rightarrow> u64 \<times> ByteBufferStreamReader" where
  "ReadInt64 r = (let (bs, r') = ReadBytes 8 r in (word64 bs, r'))"

definition ReadDouble :: "ByteBufferStreamReader \<Rightarrow> u64 \<times> ByteBufferStreamReader" where
  "ReadDouble r = (let (bs, r') = ReadBytes 8 r in (word64 bs, r'))"

section \<open>Writer\<close>

text \<open>The writer is the buffer it appends to.\<close>

type_synonym ByteBufferStreamWriter = "u8 list"

definition WriteByte :: "u8 \<Rightarrow> ByteBufferStreamWriter \<Rightarrow> ByteBufferStreamWriter" where
  "WriteByte b w = w @ [b]"

definition WriteBytes :: "u8 list \<Rightarrow> ByteBufferStreamWriter \<Rightarrow> ByteBufferStreamWriter result" where
  "WriteBytes bs w = require DcheckFailed (length bs > 0) (Inr (w @ bs))"

definition WriteAlignment :: "nat \<Rightarrow> ByteBufferStreamWriter \<Rightarrow> ByteBufferStreamWriter" where
  "WriteAlignment alignment w =
     (let m = length w mod alignment
      in if m \<noteq> 0 then w @ replicate (alignment - m) 0 else w)"

definition WriteInt32 :: "u32 \<Rightarrow> ByteBufferStreamWriter \<Rightarrow> ByteBufferStreamWriter result" where
  "WriteInt32 v w = WriteBytes (bytes32 v) w"

definition WriteInt64 :: "u64 \<Rightarrow> ByteBufferStreamWriter \<Rightarrow> ByteBufferStreamWriter result" where
  "WriteInt64 v w = WriteBytes (bytes64 v) w"

definition WriteDouble :: "u64 \<Rightarrow> ByteBufferStreamWriter \<Rightarrow> ByteBufferStreamWriter result" where
  "WriteDouble v w = WriteBytes (bytes64 v) w"

section \<open>The contract between a writer and a reader\<close>

abbreviation reader_at :: "u8 list \<Rightarrow> nat \<Rightarrow> ByteBufferStreamReader" where
  "reader_at bytes loc \<equiv> \<lparr>rd_bytes = bytes, rd_location = loc\<rparr>"

text \<open>
  \<open>reads_back wr rd x\<close>: whatever has been written before and follows after, writing \<open>x\<close> appends
  bytes, and reading where they start returns \<open>x\<close> and stops behind them.
\<close>

type_synonym 'a stream_write = "'a \<Rightarrow> ByteBufferStreamWriter \<Rightarrow> ByteBufferStreamWriter result"
type_synonym 'a stream_read = "ByteBufferStreamReader \<Rightarrow> ('a \<times> ByteBufferStreamReader) option"

definition reads_back :: "'a stream_write \<Rightarrow> 'a stream_read \<Rightarrow> 'a \<Rightarrow> bool" where
  "reads_back wr rd x =
     (\<forall>w. \<exists>d. wr x w = Inr (w @ d) \<and>
       (\<forall>rest. rd (reader_at (w @ d @ rest) (length w)) =
          Some (x, reader_at (w @ d @ rest) (length w + length d))))"

lemma reads_backI:
  assumes "\<And>w. wr x w = Inr (w @ d w)"
    and "\<And>w rest. rd (reader_at (w @ d w @ rest) (length w)) =
      Some (x, reader_at (w @ d w @ rest) (length w + length (d w)))"
  shows "reads_back wr rd x"
  using assms unfolding reads_back_def by blast

lemma reads_backE:
  assumes "reads_back wr rd x"
  obtains d where "wr x w = Inr (w @ d)"
    "\<And>rest. rd (reader_at (w @ d @ rest) (length w)) = Some (x, reader_at (w @ d @ rest) (length w + length d))"
  using assms unfolding reads_back_def by metis

text \<open>Writing a sequence, and reading a known number of values.\<close>

fun write_values :: "'a stream_write \<Rightarrow> 'a list stream_write" where
  "write_values wr [] w = Inr w"
| "write_values wr (x # xs) w = rbind (wr x w) (write_values wr xs)"

fun read_values :: "'a stream_read \<Rightarrow> nat \<Rightarrow> 'a list stream_read" where
  "read_values rd 0 r = Some ([], r)"
| "read_values rd (Suc n) r =
     (case rd r of
        None \<Rightarrow> None
      | Some (x, r') \<Rightarrow>
          (case read_values rd n r' of None \<Rightarrow> None | Some (xs, r'') \<Rightarrow> Some (x # xs, r'')))"

lemma reads_back_values:
  assumes "\<And>x. x \<in> set xs \<Longrightarrow> reads_back wr rd x"
  shows "reads_back (write_values wr) (read_values rd (length xs)) xs"
  using assms
proof (induction xs)
  case Nil
  show ?case by (rule reads_backI [where d = "\<lambda>_. []"]) simp_all
next
  case (Cons x xs)
  have one: "reads_back wr rd x" and all: "reads_back (write_values wr) (read_values rd (length xs)) xs"
    using Cons by simp_all
  show ?case
    unfolding reads_back_def
  proof
    fix w
    obtain d1 where 1: "wr x w = Inr (w @ d1)"
      "\<And>rest. rd (reader_at (w @ d1 @ rest) (length w)) = Some (x, reader_at (w @ d1 @ rest) (length w + length d1))"
      using reads_backE [OF one, of w] by blast
    obtain d2 where 2: "write_values wr xs (w @ d1) = Inr ((w @ d1) @ d2)"
      "\<And>rest. read_values rd (length xs) (reader_at ((w @ d1) @ d2 @ rest) (length (w @ d1))) =
         Some (xs, reader_at ((w @ d1) @ d2 @ rest) (length (w @ d1) + length d2))"
      using reads_backE [OF all, of "w @ d1"] by blast
    from 1 2 show "\<exists>d. write_values wr (x # xs) w = Inr (w @ d) \<and>
        (\<forall>rest. read_values rd (length (x # xs)) (reader_at (w @ d @ rest) (length w)) =
           Some (x # xs, reader_at (w @ d @ rest) (length w + length d)))"
      by (intro exI [of _ "d1 @ d2"]) (simp add: add.assoc)
  qed
qed

locale stream_codec =
  fixes wr :: "'a stream_write" and rd :: "'a stream_read" and ok :: "'a \<Rightarrow> bool"
  assumes inverse: "ok x \<Longrightarrow> reads_back wr rd x"
begin

lemma write_ok: "ok x \<Longrightarrow> \<exists>d. wr x w = Inr (w @ d)"
  using inverse unfolding reads_back_def by metis

lemma read_written:
  assumes "ok x" and "wr x w = Inr w'"
  shows "rd (reader_at (w' @ rest) (length w)) = Some (x, reader_at (w' @ rest) (length w'))"
proof -
  obtain d where "wr x w = Inr (w @ d)"
    "rd (reader_at (w @ d @ rest) (length w)) = Some (x, reader_at (w @ d @ rest) (length w + length d))"
    using reads_backE [OF inverse [OF assms(1)], of w] by metis
  with assms(2) show ?thesis by auto
qed

lemma values_inverse:
  "list_all ok xs \<Longrightarrow> reads_back (write_values wr) (read_values rd (length xs)) xs"
  by (rule reads_back_values) (simp add: inverse list_all_iff)

end

section \<open>The primitive codecs\<close>

lemma ReadBytes_at:
  "length d = n \<Longrightarrow> ReadBytes n (reader_at (w @ d @ rest) (length w)) =
     (d, reader_at (w @ d @ rest) (length w + n))"
  by (simp add: ReadBytes_def)

lemma ReadByte_at:
  "ReadByte (reader_at (w @ b # rest) (length w)) = (b, reader_at (w @ b # rest) (length w + 1))"
  by (simp add: ReadByte_def nth_append)

interpretation byte: stream_codec "\<lambda>b w. Inr (WriteByte b w)" "\<lambda>r. Some (ReadByte r)" "\<lambda>_. True"
  by unfold_locales (rule reads_backI [where d = "\<lambda>_. [b]" for b], simp_all add: WriteByte_def ReadByte_at)

text \<open>A fixed number of bytes, read with \<open>ReadBytes\<close>.\<close>

lemma reads_back_fixed:
  assumes "\<And>w. wr x w = WriteBytes (en x) w"
    and "\<And>r. rd r = Some (let (bs, r') = ReadBytes n r in (de bs, r'))"
    and "length (en x) = n" "0 < n" "de (en x) = x"
  shows "reads_back wr rd x"
  by (rule reads_backI [where d = "\<lambda>_. en x"]) (simp_all add: assms WriteBytes_def ReadBytes_at)

interpretation int32: stream_codec WriteInt32 "\<lambda>r. Some (ReadInt32 r)" "\<lambda>_. True"
  by unfold_locales (rule reads_back_fixed [where en = bytes32 and de = word32 and n = 4],
    simp_all add: WriteInt32_def ReadInt32_def)

interpretation int64: stream_codec WriteInt64 "\<lambda>r. Some (ReadInt64 r)" "\<lambda>_. True"
  by unfold_locales (rule reads_back_fixed [where en = bytes64 and de = word64 and n = 8],
    simp_all add: WriteInt64_def ReadInt64_def)

interpretation double: stream_codec WriteDouble "\<lambda>r. Some (ReadDouble r)" "\<lambda>_. True"
  by unfold_locales (rule reads_back_fixed [where en = bytes64 and de = word64 and n = 8],
    simp_all add: WriteDouble_def ReadDouble_def)

text \<open>Aligned writes: the reader skips the padding the writer adds.\<close>

definition padding :: "nat \<Rightarrow> nat \<Rightarrow> nat" where
  "padding alignment n = (if n mod alignment \<noteq> 0 then alignment - n mod alignment else 0)"

lemma WriteAlignment_eq: "WriteAlignment a w = w @ replicate (padding a (length w)) 0"
  by (simp add: WriteAlignment_def padding_def Let_def)

lemma ReadAlignment_at: "ReadAlignment a (reader_at bs n) = reader_at bs (n + padding a n)"
  by (simp add: ReadAlignment_def padding_def Let_def)

lemma reads_back_aligned:
  assumes "reads_back wr rd x"
  shows "reads_back (\<lambda>x w. wr x (WriteAlignment a w)) (\<lambda>r. rd (ReadAlignment a r)) x"
  unfolding reads_back_def
proof
  fix w :: "u8 list"
  let ?p = "replicate (padding a (length w)) 0 :: u8 list"
  obtain d where d: "wr x (w @ ?p) = Inr ((w @ ?p) @ d)"
    "\<And>rest. rd (reader_at ((w @ ?p) @ d @ rest) (length (w @ ?p))) =
       Some (x, reader_at ((w @ ?p) @ d @ rest) (length (w @ ?p) + length d))"
    using reads_backE [OF assms, of "w @ ?p"] by blast
  then show "\<exists>d. wr x (WriteAlignment a w) = Inr (w @ d) \<and>
       (\<forall>rest. rd (ReadAlignment a (reader_at (w @ d @ rest) (length w))) =
          Some (x, reader_at (w @ d @ rest) (length w + length d)))"
    by (intro exI [of _ "?p @ d"]) (simp add: WriteAlignment_eq ReadAlignment_at add.assoc)
qed

text \<open>A header (a type byte, a size), and then what it announces.\<close>

lemma reads_back_then:
  assumes head: "reads_back wrh rdh h" and tail: "reads_back wrt (rdt h) y"
    and wr: "\<And>w. wr x w = rbind (wrh h w) (wrt y)"
    and rd: "\<And>r. rd r = Option.bind (rdh r) (\<lambda>(h, r'). map_option (\<lambda>(y, r''). (f h y, r'')) (rdt h r'))"
    and fy: "f h y = x"
  shows "reads_back wr rd x"
  unfolding reads_back_def
proof
  fix w
  obtain d1 where 1: "wrh h w = Inr (w @ d1)"
    "\<And>rest. rdh (reader_at (w @ d1 @ rest) (length w)) = Some (h, reader_at (w @ d1 @ rest) (length w + length d1))"
    using reads_backE [OF head, of w] by blast
  obtain d2 where 2: "wrt y (w @ d1) = Inr ((w @ d1) @ d2)"
    "\<And>rest. rdt h (reader_at ((w @ d1) @ d2 @ rest) (length (w @ d1))) =
       Some (y, reader_at ((w @ d1) @ d2 @ rest) (length (w @ d1) + length d2))"
    using reads_backE [OF tail, of "w @ d1"] by blast
  from 1 2 show "\<exists>d. wr x w = Inr (w @ d) \<and>
       (\<forall>rest. rd (reader_at (w @ d @ rest) (length w)) =
          Some (x, reader_at (w @ d @ rest) (length w + length d)))"
    by (intro exI [of _ "d1 @ d2"]) (simp add: add.assoc wr rd fy)
qed

end
