(* ===== verification/Standard_Codec.thy ===== *)
theory Standard_Codec
  imports Byte_Streams Float64
begin

text \<open>
  \<open>encodable_value.h\<close> and \<open>standard_codec.cc\<close>: the values that method channels exchange, their
  order as keys of \<open>EncodableMap\<close>, the serializer, and the message and method codecs built on it.
\<close>

section \<open>Values\<close>

text \<open>
  The alternatives of \<open>EncodableValueVariant\<close> in their order.  Integers and floating point numbers
  are their bits.  An \<open>EncodableMap\<close> is the list of its pairs in iteration order; a custom value is
  an address.
\<close>

datatype EncodableValue =
    EV_null
  | EV_bool bool
  | EV_int32 u32
  | EV_int64 u64
  | EV_double f64
  | EV_string "u8 list"
  | EV_uint8_list "u8 list"
  | EV_int32_list "u32 list"
  | EV_int64_list "u64 list"
  | EV_double_list "f64 list"
  | EV_list "EncodableValue list"
  | EV_map "(EncodableValue \<times> EncodableValue) list"
  | EV_custom nat
  | EV_float_list "u32 list"

fun ev_index :: "EncodableValue \<Rightarrow> nat" where
  "ev_index EV_null = 0"
| "ev_index (EV_bool _) = 1"
| "ev_index (EV_int32 _) = 2"
| "ev_index (EV_int64 _) = 3"
| "ev_index (EV_double _) = 4"
| "ev_index (EV_string _) = 5"
| "ev_index (EV_uint8_list _) = 6"
| "ev_index (EV_int32_list _) = 7"
| "ev_index (EV_int64_list _) = 8"
| "ev_index (EV_double_list _) = 9"
| "ev_index (EV_list _) = 10"
| "ev_index (EV_map _) = 11"
| "ev_index (EV_custom _) = 12"
| "ev_index (EV_float_list _) = 13"

definition EV_IsNull :: "EncodableValue \<Rightarrow> bool" where
  "EV_IsNull v = (v = EV_null)"

definition EV_LongValue :: "EncodableValue \<Rightarrow> u64 result" where
  "EV_LongValue v =
     (case v of EV_int32 w \<Rightarrow> Inr (scast w) | EV_int64 w \<Rightarrow> Inr w | _ \<Rightarrow> Inl BadVariant)"

subsection \<open>Order\<close>

text \<open>\<open>operator<\<close> of \<open>double\<close> and \<open>float\<close>: false when either is NaN.\<close>

definition f64_lt :: "f64 \<Rightarrow> f64 \<Rightarrow> bool" where
  "f64_lt a b = (\<not> f64_is_nan a \<and> \<not> f64_is_nan b \<and> f64_value a < f64_value b)"

definition f32_value :: "u32 \<Rightarrow> int" where
  "f32_value w =
     (let bits = uint w mod 2 ^ 31; ex = bits div 2 ^ 23; frac = bits mod 2 ^ 23;
          mag = (if ex = 0 then frac else (2 ^ 23 + frac) * 2 ^ nat (ex - 1))
      in if bit w 31 then - mag else mag)"

definition f32_is_nan :: "u32 \<Rightarrow> bool" where
  "f32_is_nan w = (uint w mod 2 ^ 31 > 255 * 2 ^ 23)"

definition f32_lt :: "u32 \<Rightarrow> u32 \<Rightarrow> bool" where
  "f32_lt a b = (\<not> f32_is_nan a \<and> \<not> f32_is_nan b \<and> f32_value a < f32_value b)"

text \<open>\<open>std::lexicographical_compare\<close>, the order of vectors and strings.\<close>

fun lex_less :: "('a \<Rightarrow> 'a \<Rightarrow> bool) \<Rightarrow> 'a list \<Rightarrow> 'a list \<Rightarrow> bool" where
  "lex_less lt [] ys = (ys \<noteq> [])"
| "lex_less lt (x # xs) [] = False"
| "lex_less lt (x # xs) (y # ys) = (lt x y \<or> \<not> lt y x \<and> lex_less lt xs ys)"

text \<open>\<open>operator<\<close> of \<open>std::pair\<close>.\<close>

definition pair_less :: "('a \<Rightarrow> 'a \<Rightarrow> bool) \<Rightarrow> 'a \<times> 'a \<Rightarrow> 'a \<times> 'a \<Rightarrow> bool" where
  "pair_less lt p q =
     (lt (fst p) (fst q) \<or> \<not> lt (fst q) (fst p) \<and> lt (snd p) (snd q))"

lemma lex_less_cong [fundef_cong]:
  "xs = xs' \<Longrightarrow> ys = ys' \<Longrightarrow>
    (\<And>x y. x \<in> set xs' \<Longrightarrow> y \<in> set ys' \<Longrightarrow> lt x y = lt' x y) \<Longrightarrow>
    (\<And>x y. x \<in> set xs' \<Longrightarrow> y \<in> set ys' \<Longrightarrow> lt y x = lt' y x) \<Longrightarrow>
    lex_less lt xs ys = lex_less lt' xs' ys'"
proof -
  have "lex_less lt xs ys = lex_less lt' xs ys"
    if "\<And>x y. x \<in> set xs \<Longrightarrow> y \<in> set ys \<Longrightarrow> lt x y = lt' x y"
      "\<And>x y. x \<in> set xs \<Longrightarrow> y \<in> set ys \<Longrightarrow> lt y x = lt' y x" for xs ys
    using that by (induction lt xs ys rule: lex_less.induct) auto
  then show "xs = xs' \<Longrightarrow> ys = ys' \<Longrightarrow>
    (\<And>x y. x \<in> set xs' \<Longrightarrow> y \<in> set ys' \<Longrightarrow> lt x y = lt' x y) \<Longrightarrow>
    (\<And>x y. x \<in> set xs' \<Longrightarrow> y \<in> set ys' \<Longrightarrow> lt y x = lt' y x) \<Longrightarrow>
    lex_less lt xs ys = lex_less lt' xs' ys'"
    by blast
qed

lemma pair_less_cong [fundef_cong]:
  "p = p' \<Longrightarrow> q = q' \<Longrightarrow> lt (fst p') (fst q') = lt' (fst p') (fst q') \<Longrightarrow>
    lt (fst q') (fst p') = lt' (fst q') (fst p') \<Longrightarrow> lt (snd p') (snd q') = lt' (snd p') (snd q') \<Longrightarrow>
    pair_less lt p q = pair_less lt' p' q'"
  by (simp add: pair_less_def)

text \<open>
  \<open>operator<\<close> of a variant compares the indices first, then the values; lists and maps compare
  lexicographically.
\<close>

lemma size_value_in: "(v::EncodableValue) \<in> set vs \<Longrightarrow> size v \<le> size_list size vs"
  using size_list_estimation' [of v vs "size v" size] by simp

lemma size_pair_in:
  fixes k v :: EncodableValue
  assumes "(k, v) \<in> set m"
  shows "size k \<le> size_list (size_prod size size) m \<and> size v \<le> size_list (size_prod size size) m"
proof -
  have "size_prod size size (k, v) = size k + size v + 1" by (simp add: size_prod_simp)
  then have "size k \<le> size_prod size size (k, v)" "size v \<le> size_prod size size (k, v)" by simp_all
  with size_list_estimation' [OF assms] show ?thesis by blast
qed

function ev_less :: "EncodableValue \<Rightarrow> EncodableValue \<Rightarrow> bool" where
  "ev_less a b =
     (if ev_index a \<noteq> ev_index b then ev_index a < ev_index b
      else case a of
        EV_null \<Rightarrow> False
      | EV_bool x \<Rightarrow> (case b of EV_bool y \<Rightarrow> \<not> x \<and> y | _ \<Rightarrow> False)
      | EV_int32 x \<Rightarrow> (case b of EV_int32 y \<Rightarrow> sint x < sint y | _ \<Rightarrow> False)
      | EV_int64 x \<Rightarrow> (case b of EV_int64 y \<Rightarrow> sint x < sint y | _ \<Rightarrow> False)
      | EV_double x \<Rightarrow> (case b of EV_double y \<Rightarrow> f64_lt x y | _ \<Rightarrow> False)
      | EV_string x \<Rightarrow> (case b of EV_string y \<Rightarrow> lex_less (<) x y | _ \<Rightarrow> False)
      | EV_uint8_list x \<Rightarrow> (case b of EV_uint8_list y \<Rightarrow> lex_less (<) x y | _ \<Rightarrow> False)
      | EV_int32_list x \<Rightarrow>
          (case b of EV_int32_list y \<Rightarrow> lex_less (\<lambda>u v. sint u < sint v) x y | _ \<Rightarrow> False)
      | EV_int64_list x \<Rightarrow>
          (case b of EV_int64_list y \<Rightarrow> lex_less (\<lambda>u v. sint u < sint v) x y | _ \<Rightarrow> False)
      | EV_double_list x \<Rightarrow> (case b of EV_double_list y \<Rightarrow> lex_less f64_lt x y | _ \<Rightarrow> False)
      | EV_list x \<Rightarrow> (case b of EV_list y \<Rightarrow> lex_less ev_less x y | _ \<Rightarrow> False)
      | EV_map x \<Rightarrow> (case b of EV_map y \<Rightarrow> lex_less (pair_less ev_less) x y | _ \<Rightarrow> False)
      | EV_custom x \<Rightarrow> (case b of EV_custom y \<Rightarrow> x < y | _ \<Rightarrow> False)
      | EV_float_list x \<Rightarrow> (case b of EV_float_list y \<Rightarrow> lex_less f32_lt x y | _ \<Rightarrow> False))"
  by pat_completeness auto

termination ev_less
  by (relation "measure (\<lambda>(a, b). size a + size b)")
    (auto dest!: size_pair_in size_value_in)

declare ev_less.simps [simp del]

text \<open>\<open>EncodableMap::emplace\<close> keeps an equivalent key that is already present.\<close>

fun ev_emplace :: "EncodableValue \<Rightarrow> EncodableValue \<Rightarrow> (EncodableValue \<times> EncodableValue) list
    \<Rightarrow> (EncodableValue \<times> EncodableValue) list" where
  "ev_emplace k v [] = [(k, v)]"
| "ev_emplace k v ((l, w) # m) =
     (if ev_less k l then (k, v) # (l, w) # m
      else if ev_less l k then (l, w) # ev_emplace k v m
      else (l, w) # m)"

section \<open>Serializer\<close>

datatype EncodedType =
    kNull | kTrue | kFalse | kInt32 | kInt64 | kLargeInt | kFloat64 | kString | kUInt8List
  | kInt32List | kInt64List | kFloat64List | kList | kMap | kFloat32List

fun EncodedType_code :: "EncodedType \<Rightarrow> u8" where
  "EncodedType_code kNull = 0"
| "EncodedType_code kTrue = 1"
| "EncodedType_code kFalse = 2"
| "EncodedType_code kInt32 = 3"
| "EncodedType_code kInt64 = 4"
| "EncodedType_code kLargeInt = 5"
| "EncodedType_code kFloat64 = 6"
| "EncodedType_code kString = 7"
| "EncodedType_code kUInt8List = 8"
| "EncodedType_code kInt32List = 9"
| "EncodedType_code kInt64List = 10"
| "EncodedType_code kFloat64List = 11"
| "EncodedType_code kList = 12"
| "EncodedType_code kMap = 13"
| "EncodedType_code kFloat32List = 14"

fun EncodedTypeForValue :: "EncodableValue \<Rightarrow> EncodedType result" where
  "EncodedTypeForValue EV_null = Inr kNull"
| "EncodedTypeForValue (EV_bool b) = Inr (if b then kTrue else kFalse)"
| "EncodedTypeForValue (EV_int32 _) = Inr kInt32"
| "EncodedTypeForValue (EV_int64 _) = Inr kInt64"
| "EncodedTypeForValue (EV_double _) = Inr kFloat64"
| "EncodedTypeForValue (EV_string _) = Inr kString"
| "EncodedTypeForValue (EV_uint8_list _) = Inr kUInt8List"
| "EncodedTypeForValue (EV_int32_list _) = Inr kInt32List"
| "EncodedTypeForValue (EV_int64_list _) = Inr kInt64List"
| "EncodedTypeForValue (EV_double_list _) = Inr kFloat64List"
| "EncodedTypeForValue (EV_list _) = Inr kList"
| "EncodedTypeForValue (EV_map _) = Inr kMap"
| "EncodedTypeForValue (EV_custom _) = Inl DcheckFailed"
| "EncodedTypeForValue (EV_float_list _) = Inr kFloat32List"

definition WriteSize :: "nat stream_write" where
  "WriteSize n w =
     (if n < 254 then Inr (WriteByte (of_nat n) w)
      else if n \<le> 0xFFFF then WriteBytes (bytes16 (of_nat n)) (WriteByte 254 w)
      else WriteBytes (bytes32 (of_nat n)) (WriteByte 255 w))"

definition ReadSize :: "ByteBufferStreamReader \<Rightarrow> nat \<times> ByteBufferStreamReader" where
  "ReadSize r =
     (let (byte, r) = ReadByte r
      in if byte < 254 then (unat byte, r)
         else if byte = 254 then let (bs, r) = ReadBytes 2 r in (unat (word16 bs), r)
         else let (bs, r) = ReadBytes 4 r in (unat (word32 bs), r))"

definition WriteVector :: "nat \<Rightarrow> ('a \<Rightarrow> u8 list) \<Rightarrow> 'a list stream_write" where
  "WriteVector type_size en xs w =
     rbind (WriteSize (length xs) w) (\<lambda>w.
       if length xs = 0 then Inr w
       else WriteBytes (concat (map en xs)) (if type_size > 1 then WriteAlignment type_size w else w))"

definition ReadVector :: "nat \<Rightarrow> (u8 list \<Rightarrow> 'a) \<Rightarrow> ByteBufferStreamReader \<Rightarrow> 'a list \<times> ByteBufferStreamReader" where
  "ReadVector type_size de r =
     (let (n, r) = ReadSize r;
          r = (if type_size > 1 then ReadAlignment type_size r else r);
          (bs, r) = ReadBytes (n * type_size) r
      in (map de (chunks type_size n bs), r))"

text \<open>A byte as itself, for \<open>std::vector<uint8_t>\<close>.\<close>

definition byte_bytes :: "u8 \<Rightarrow> u8 list" where "byte_bytes b = [b]"
definition byte_word :: "u8 list \<Rightarrow> u8" where "byte_word bs = hd bs"

definition write_type :: "EncodableValue \<Rightarrow> ByteBufferStreamWriter \<Rightarrow> ByteBufferStreamWriter result" where
  "write_type v w = rbind (EncodedTypeForValue v) (\<lambda>t. Inr (WriteByte (EncodedType_code t) w))"

lemma size_prod_fun: "size_prod f g = (\<lambda>p. Suc (f (fst p) + g (snd p)))"
  by (simp add: fun_eq_iff size_prod_simp)

function (sequential) WriteValue :: "EncodableValue stream_write"
  and WriteList :: "EncodableValue list stream_write"
  and WriteMap :: "(EncodableValue \<times> EncodableValue) list stream_write" where
  "WriteValue v w =
     rbind (write_type v w) (\<lambda>w.
       case v of
         EV_null \<Rightarrow> Inr w
       | EV_bool _ \<Rightarrow> Inr w
       | EV_int32 x \<Rightarrow> WriteInt32 x w
       | EV_int64 x \<Rightarrow> WriteInt64 x w
       | EV_double x \<Rightarrow> WriteDouble x (WriteAlignment 8 w)
       | EV_string s \<Rightarrow>
           rbind (WriteSize (length s) w) (\<lambda>w. if length s > 0 then WriteBytes s w else Inr w)
       | EV_uint8_list xs \<Rightarrow> WriteVector 1 byte_bytes xs w
       | EV_int32_list xs \<Rightarrow> WriteVector 4 bytes32 xs w
       | EV_int64_list xs \<Rightarrow> WriteVector 8 bytes64 xs w
       | EV_double_list xs \<Rightarrow> WriteVector 8 bytes64 xs w
       | EV_list xs \<Rightarrow> rbind (WriteSize (length xs) w) (WriteList xs)
       | EV_map m \<Rightarrow> rbind (WriteSize (length m) w) (WriteMap m)
       | EV_custom _ \<Rightarrow> Inr w
       | EV_float_list xs \<Rightarrow> WriteVector 4 bytes32 xs w)"
| "WriteList [] w = Inr w"
| "WriteList (v # vs) w = rbind (WriteValue v w) (WriteList vs)"
| "WriteMap [] w = Inr w"
| "WriteMap ((k, v) # m) w = rbind (WriteValue k w) (\<lambda>w. rbind (WriteValue v w) (WriteMap m))"
  by pat_completeness auto

termination
  by (relation "measure (case_sum (\<lambda>(v, w). size v)
      (case_sum (\<lambda>(vs, w). size_list size vs) (\<lambda>(m, w). size_list (size_prod size size) m)))")
    (auto simp: size_prod_fun)

declare WriteValue.simps [simp del]

subsection \<open>Reading\<close>

text \<open>
  \<open>ReadValueOfType\<close> reads nested values with \<open>ReadValue\<close>, its first argument here.  The recursion
  of \<open>ReadValue\<close> is on a bound for the nesting; \<open>ReadValue\<close> itself uses the number of bytes left.
\<close>

fun read_map :: "EncodableValue stream_read \<Rightarrow> nat \<Rightarrow> (EncodableValue \<times> EncodableValue) list
    \<Rightarrow> (EncodableValue \<times> EncodableValue) list stream_read" where
  "read_map rd 0 m r = Some (m, r)"
| "read_map rd (Suc n) m r =
     Option.bind (rd r) (\<lambda>(k, r). Option.bind (rd r) (\<lambda>(v, r). read_map rd n (ev_emplace k v m) r))"

definition read_string :: "ByteBufferStreamReader \<Rightarrow> u8 list \<times> ByteBufferStreamReader" where
  "read_string r = (let (n, r) = ReadSize r in ReadBytes n r)"

definition ReadValueOfType :: "EncodableValue stream_read \<Rightarrow> u8 \<Rightarrow> EncodableValue stream_read" where
  "ReadValueOfType rd type r =
     (if type = EncodedType_code kNull then Some (EV_null, r)
      else if type = EncodedType_code kTrue then Some (EV_bool True, r)
      else if type = EncodedType_code kFalse then Some (EV_bool False, r)
      else if type = EncodedType_code kInt32 then Some (map_prod EV_int32 id (ReadInt32 r))
      else if type = EncodedType_code kInt64 then Some (map_prod EV_int64 id (ReadInt64 r))
      else if type = EncodedType_code kFloat64 then
        Some (map_prod EV_double id (ReadDouble (ReadAlignment 8 r)))
      else if type = EncodedType_code kLargeInt \<or> type = EncodedType_code kString then
        Some (map_prod EV_string id (read_string r))
      else if type = EncodedType_code kUInt8List then
        Some (map_prod EV_uint8_list id (ReadVector 1 byte_word r))
      else if type = EncodedType_code kInt32List then
        Some (map_prod EV_int32_list id (ReadVector 4 word32 r))
      else if type = EncodedType_code kInt64List then
        Some (map_prod EV_int64_list id (ReadVector 8 word64 r))
      else if type = EncodedType_code kFloat64List then
        Some (map_prod EV_double_list id (ReadVector 8 word64 r))
      else if type = EncodedType_code kList then
        (let (n, r) = ReadSize r in map_option (map_prod EV_list id) (read_values rd n r))
      else if type = EncodedType_code kMap then
        (let (n, r) = ReadSize r in map_option (map_prod EV_map id) (read_map rd n [] r))
      else if type = EncodedType_code kFloat32List then
        Some (map_prod EV_float_list id (ReadVector 4 word32 r))
      else Some (EV_null, r))"

fun read_value :: "nat \<Rightarrow> EncodableValue stream_read" where
  "read_value 0 r = None"
| "read_value (Suc fuel) r =
     (let (type, r) = ReadByte r in ReadValueOfType (read_value fuel) type r)"

definition ReadValue :: "EncodableValue stream_read" where
  "ReadValue r = read_value (Suc (length (rd_bytes r) - rd_location r)) r"

section \<open>Message codec\<close>

definition DecodeMessageInternal :: "u8 list option \<Rightarrow> EncodableValue option" where
  "DecodeMessageInternal binary_message =
     (case binary_message of
        None \<Rightarrow> Some EV_null
      | Some bytes \<Rightarrow> map_option fst (ReadValue (ByteBufferStreamReader_new bytes)))"

definition EncodeMessageInternal :: "EncodableValue \<Rightarrow> u8 list result" where
  "EncodeMessageInternal message = WriteValue message []"

section \<open>Method codec\<close>

record MethodCall =
  mc_method_name :: "u8 list"
  mc_arguments :: "EncodableValue option"

text \<open>\<open>Inr None\<close> is the null pointer returned for an invalid call.\<close>

definition DecodeMethodCallInternal :: "u8 list \<Rightarrow> MethodCall option option" where
  "DecodeMethodCallInternal message =
     Option.bind (ReadValue (ByteBufferStreamReader_new message)) (\<lambda>(method_name_value, r).
       case method_name_value of
         EV_string method_name \<Rightarrow>
           map_option (\<lambda>(arguments, _). Some \<lparr>mc_method_name = method_name, mc_arguments = Some arguments\<rparr>)
             (ReadValue r)
       | _ \<Rightarrow> Some None)"

definition write_or_null :: "EncodableValue option stream_write" where
  "write_or_null v w = WriteValue (case v of None \<Rightarrow> EV_null | Some x \<Rightarrow> x) w"

definition EncodeMethodCallInternal :: "MethodCall \<Rightarrow> u8 list result" where
  "EncodeMethodCallInternal method_call =
     rbind (WriteValue (EV_string (mc_method_name method_call)) []) (write_or_null (mc_arguments method_call))"

definition EncodeSuccessEnvelopeInternal :: "EncodableValue option \<Rightarrow> u8 list result" where
  "EncodeSuccessEnvelopeInternal result = write_or_null result (WriteByte 0 [])"

definition EncodeErrorEnvelopeInternal ::
  "u8 list \<Rightarrow> u8 list \<Rightarrow> EncodableValue option \<Rightarrow> u8 list result" where
  "EncodeErrorEnvelopeInternal error_code error_message error_details =
     rbind (WriteValue (EV_string error_code) (WriteByte 1 [])) (\<lambda>w.
     rbind (if error_message = [] then WriteValue EV_null w else WriteValue (EV_string error_message) w)
       (write_or_null error_details))"

text \<open>The call that \<open>DecodeAndProcessResponseEnvelopeInternal\<close> makes on its \<open>MethodResult\<close>.\<close>

datatype MethodResultCall =
    Success "EncodableValue option"
  | Error "u8 list" "u8 list" "EncodableValue option"

definition get_string :: "EncodableValue \<Rightarrow> u8 list result" where
  "get_string v = (case v of EV_string s \<Rightarrow> Inr s | _ \<Rightarrow> Inl BadVariant)"

definition null_to_None :: "EncodableValue \<Rightarrow> EncodableValue option" where
  "null_to_None v = (if EV_IsNull v then None else Some v)"

text \<open>
  The message is looked at before the code; \<open>Inr None\<close> is the result \<open>false\<close>, without a call.
\<close>

definition DecodeAndProcessResponseEnvelopeInternal ::
  "u8 list \<Rightarrow> MethodResultCall option result option" where
  "DecodeAndProcessResponseEnvelopeInternal response =
     (let (flag, r) = ReadByte (ByteBufferStreamReader_new response)
      in if flag = 0 then
           map_option (\<lambda>(value, _). Inr (Some (Success (null_to_None value)))) (ReadValue r)
         else if flag = 1 then
           Option.bind (ReadValue r) (\<lambda>(code, r).
           Option.bind (ReadValue r) (\<lambda>(message, r).
           map_option (\<lambda>(details, _).
             rbind (if EV_IsNull message then Inr [] else get_string message) (\<lambda>message_string.
             rbind (get_string code) (\<lambda>code_string.
             Inr (Some (Error code_string message_string (null_to_None details)))))) (ReadValue r)))
         else Some (Inr None))"

section \<open>Registries of codec instances\<close>

text \<open>
  \<open>StandardMessageCodec\<close> and \<open>StandardMethodCodec\<close> keep one instance per serializer in a static map, the
  same code for both.  Objects are their addresses: \<open>standard\<close> is the serializer of
  \<open>StandardCodecSerializer::GetInstance\<close>, \<open>fresh\<close> what \<open>new\<close> returns, and a null serializer is \<open>None\<close>.
\<close>

record codec_instance =
  ci_address :: u64
  ci_serializer :: u64

type_synonym codec_registry = "(u64 \<times> codec_instance) list"

definition GetInstance :: "u64 \<Rightarrow> u64 \<Rightarrow> u64 option \<Rightarrow> codec_registry \<Rightarrow> codec_instance \<times> codec_registry" where
  "GetInstance standard fresh serializer sInstances =
     (let serializer = (case serializer of None \<Rightarrow> standard | Some s \<Rightarrow> s)
      in case map_of sInstances serializer of
           Some codec \<Rightarrow> (codec, sInstances)
         | None \<Rightarrow>
             (let codec = \<lparr>ci_address = fresh, ci_serializer = serializer\<rparr>
              in (codec, omap_put serializer codec sInstances)))"

end
