(* ===== verification/Standard_Codec_Spec.thy ===== *)
theory Standard_Codec_Spec
  imports Standard_Codec
begin

text \<open>
  What the standard codec promises.  Decoding returns on every input: the bound on the nesting is
  never reached, and \<open>ReadValue\<close> satisfies the recursion equation of the source.  Encoding is the
  inverse of decoding on the values the codec supports, for values, messages, calls and envelopes.
\<close>

section \<open>Decoding returns\<close>

definition bytes_left :: "ByteBufferStreamReader \<Rightarrow> nat" where
  "bytes_left r = length (rd_bytes r) - rd_location r"

text \<open>A step of the reader keeps the buffer and does not move back.\<close>

definition reader_le :: "ByteBufferStreamReader \<Rightarrow> ByteBufferStreamReader \<Rightarrow> bool" where
  "reader_le r r' = (rd_bytes r' = rd_bytes r \<and> rd_location r \<le> rd_location r')"

lemma reader_le_refl [simp]: "reader_le r r"
  by (simp add: reader_le_def)

lemma reader_le_trans [trans]: "reader_le r r' \<Longrightarrow> reader_le r' r'' \<Longrightarrow> reader_le r r''"
  by (simp add: reader_le_def)

lemma reader_le_left: "reader_le r r' \<Longrightarrow> bytes_left r' \<le> bytes_left r"
  by (simp add: reader_le_def bytes_left_def diff_le_mono2)

named_theorems reader_step \<open>the primitive reads move the reader forward\<close>

lemma reader_le_ReadByte [reader_step]: "reader_le r (snd (ReadByte r))"
  by (simp add: ReadByte_def reader_le_def)

lemma reader_le_ReadBytes [reader_step]: "reader_le r (snd (ReadBytes n r))"
  by (simp add: ReadBytes_def reader_le_def)

lemma reader_le_ReadAlignment [reader_step]: "reader_le r (ReadAlignment n r)"
  by (simp add: ReadAlignment_def reader_le_def Let_def)

lemma reader_le_ReadInt [reader_step]:
  "reader_le r (snd (ReadInt32 r))" "reader_le r (snd (ReadInt64 r))" "reader_le r (snd (ReadDouble r))"
  by (simp_all add: ReadInt32_def ReadInt64_def ReadDouble_def case_prod_beta reader_step)

lemma reader_le_ReadSize [reader_step]: "reader_le r (snd (ReadSize r))"
  using reader_le_trans [OF reader_le_ReadByte reader_le_ReadBytes]
  by (simp add: ReadSize_def Let_def case_prod_beta reader_step)

lemma reader_le_ReadVector [reader_step]: "reader_le r (snd (ReadVector ts de r))"
proof -
  let ?r = "snd (ReadSize r)"
  let ?r' = "if ts > 1 then ReadAlignment ts ?r else ?r"
  have "reader_le r ?r" by (rule reader_step)
  also have "reader_le ?r ?r'" by (simp add: reader_step)
  also have "reader_le ?r' (snd (ReadBytes (fst (ReadSize r) * ts) ?r'))" by (rule reader_step)
  finally show ?thesis by (simp add: ReadVector_def Let_def case_prod_beta)
qed

lemma reader_le_read_string [reader_step]: "reader_le r (snd (read_string r))"
  using reader_le_trans [OF reader_le_ReadSize reader_le_ReadBytes]
  by (simp add: read_string_def case_prod_beta)

text \<open>
  \<open>returns rd n\<close>: the reader returns, and moves forward, whenever at most \<open>n\<close> bytes are left.
\<close>

definition returns :: "'a stream_read \<Rightarrow> nat \<Rightarrow> bool" where
  "returns rd n = (\<forall>r. bytes_left r \<le> n \<longrightarrow> (\<exists>x r'. rd r = Some (x, r') \<and> reader_le r r'))"

lemma returnsE:
  assumes "returns rd n" "bytes_left r \<le> n"
  obtains x r' where "rd r = Some (x, r')" "reader_le r r'" "bytes_left r' \<le> n"
  using assms reader_le_left unfolding returns_def by (meson le_trans)

lemma returns_values: "returns rd n \<Longrightarrow> returns (read_values rd m) n"
proof (induction m)
  case 0
  show ?case by (simp add: returns_def)
next
  case (Suc m)
  show ?case
    unfolding returns_def
  proof (intro allI impI)
    fix r assume "bytes_left r \<le> n"
    with Suc.prems obtain x r1 where 1: "rd r = Some (x, r1)" "reader_le r r1" "bytes_left r1 \<le> n"
      by (rule returnsE)
    from returnsE [OF Suc.IH [OF Suc.prems] this(3)] obtain xs r2
      where 2: "read_values rd m r1 = Some (xs, r2)" "reader_le r1 r2" by blast
    from reader_le_trans [OF 1(2) 2(2)] show "\<exists>x r'. read_values rd (Suc m) r = Some (x, r') \<and> reader_le r r'"
      by (simp add: 1(1) 2(1))
  qed
qed

lemma returns_map: "returns rd n \<Longrightarrow> returns (read_map rd k m) n"
proof (induction k arbitrary: m)
  case 0
  show ?case by (simp add: returns_def)
next
  case (Suc k)
  show ?case
    unfolding returns_def
  proof (intro allI impI)
    fix r assume "bytes_left r \<le> n"
    with Suc.prems obtain x r1 where 1: "rd r = Some (x, r1)" "reader_le r r1" "bytes_left r1 \<le> n"
      by (rule returnsE)
    from Suc.prems this(3) obtain y r2 where 2: "rd r1 = Some (y, r2)" "reader_le r1 r2" "bytes_left r2 \<le> n"
      by (rule returnsE)
    from returnsE [OF Suc.IH [OF Suc.prems] this(3)] obtain m' r3
      where 3: "read_map rd k (ev_emplace x y m) r2 = Some (m', r3)" "reader_le r2 r3" by blast
    from reader_le_trans [OF reader_le_trans [OF 1(2) 2(2)] 3(2)]
    show "\<exists>x r'. read_map rd (Suc k) m r = Some (x, r') \<and> reader_le r r'"
      by (simp add: 1(1) 2(1) 3(1))
  qed
qed

text \<open>A count read first only moves the reader forward, so the elements still return.\<close>

definition forward :: "ByteBufferStreamReader \<Rightarrow> ('a \<times> ByteBufferStreamReader) option \<Rightarrow> bool" where
  "forward r res = (\<exists>x r'. res = Some (x, r') \<and> reader_le r r')"

lemma returns_forward: "returns rd n = (\<forall>r. bytes_left r \<le> n \<longrightarrow> forward r (rd r))"
  by (simp add: returns_def forward_def)

lemma forward_map_prod [simp]: "forward r (map_option (map_prod f id) res) = forward r res"
  by (cases res) (auto simp: forward_def)

lemma forward_Some [simp]: "forward r (Some p) = reader_le r (snd p)"
  by (cases p) (simp add: forward_def)

lemma forward_trans: "reader_le r r' \<Longrightarrow> forward r' res \<Longrightarrow> forward r res"
  using reader_le_trans by (auto simp: forward_def)

lemma returns_sized:
  assumes "\<And>k. returns (rd k) n" and "bytes_left r \<le> n"
  shows "forward r (rd k (snd (ReadSize r)))"
proof (rule forward_trans [OF reader_le_ReadSize])
  have "bytes_left (snd (ReadSize r)) \<le> n"
    using reader_le_left [OF reader_le_ReadSize [of r]] assms(2) by simp
  with assms(1) show "forward (snd (ReadSize r)) (rd k (snd (ReadSize r)))"
    by (simp add: returns_forward)
qed

lemma returns_type:
  assumes "returns rd n"
  shows "returns (ReadValueOfType rd t) n"
  unfolding returns_forward ReadValueOfType_def
  using returns_sized [where rd = "read_values rd", OF returns_values [OF assms]]
    returns_sized [where rd = "\<lambda>k. read_map rd k []", OF returns_map [OF assms]]
    reader_le_trans [OF reader_le_ReadAlignment reader_le_ReadInt(3)]
  by (simp add: case_prod_beta reader_step)

lemma read_value_Suc:
  "read_value (Suc n) r = ReadValueOfType (read_value n) (fst (ReadByte r)) (snd (ReadByte r))"
  by (simp add: case_prod_beta)

lemma read_value_returns: "returns (read_value (Suc n)) n"
proof (induction n)
  case 0
  show ?case
    by (auto simp: returns_def bytes_left_def ReadByte_def ReadValueOfType_def)
next
  case (Suc n)
  show ?case
    unfolding returns_def
  proof (intro allI impI)
    fix r assume r: "bytes_left r \<le> Suc n"
    let ?t = "fst (ReadByte r)" and ?r = "snd (ReadByte r)"
    show "\<exists>x r'. read_value (Suc (Suc n)) r = Some (x, r') \<and> reader_le r r'"
    proof (cases "rd_location r < length (rd_bytes r)")
      case False
      then show ?thesis by (simp add: ReadByte_def ReadValueOfType_def)
    next
      case True
      then have "bytes_left ?r \<le> n" using r by (simp add: bytes_left_def ReadByte_def)
      from returnsE [OF returns_type [OF Suc.IH] this] obtain x r' where
        "ReadValueOfType (read_value (Suc n)) ?t ?r = Some (x, r')" "reader_le ?r r'" by blast
      moreover from reader_le_trans [OF reader_le_ReadByte this(2)] have "reader_le r r'" .
      ultimately show ?thesis unfolding read_value_Suc [of "Suc n"] by blast
    qed
  qed
qed

subsection \<open>The recursion equation\<close>

text \<open>\<open>extends rd rd'\<close>: wherever \<open>rd\<close> returns, \<open>rd'\<close> returns the same.\<close>

definition extends :: "'a stream_read \<Rightarrow> 'a stream_read \<Rightarrow> bool" where
  "extends rd rd' = (\<forall>r x. rd r = Some x \<longrightarrow> rd' r = Some x)"

lemma extendsD: "extends rd rd' \<Longrightarrow> rd r = Some x \<Longrightarrow> rd' r = Some x"
  unfolding extends_def by blast

lemma extends_values: "extends rd rd' \<Longrightarrow> extends (read_values rd n) (read_values rd' n)"
proof (induction n)
  case (Suc n)
  from Suc.IH [OF Suc.prems] Suc.prems show ?case
    unfolding extends_def by (fastforce split: option.splits)
qed (simp add: extends_def)

lemma extends_map: "extends rd rd' \<Longrightarrow> extends (read_map rd n m) (read_map rd' n m)"
proof (induction n arbitrary: m)
  case (Suc n)
  from Suc.IH [OF Suc.prems] Suc.prems show ?case
    unfolding extends_def by (fastforce simp: bind_eq_Some_conv)
qed (simp add: extends_def)

lemma extends_type: "extends rd rd' \<Longrightarrow> extends (ReadValueOfType rd t) (ReadValueOfType rd' t)"
  using extendsD [OF extends_values] extendsD [OF extends_map]
  unfolding extends_def [of "ReadValueOfType rd t"] ReadValueOfType_def
  by (auto simp: case_prod_beta)

lemma read_value_mono: "extends (read_value n) (read_value (n + k))"
proof (induction n)
  case (Suc n)
  from extendsD [OF extends_type [OF this]] show ?case
    by (simp add: extends_def case_prod_beta)
qed (simp add: extends_def)

lemma ReadValue_returns: "\<exists>v r'. ReadValue r = Some (v, r') \<and> reader_le r r'"
  using read_value_returns [of "bytes_left r"] by (simp add: returns_def ReadValue_def bytes_left_def)

lemma read_value_ReadValue: "extends (read_value n) ReadValue"
  unfolding extends_def
proof (intro allI impI)
  fix r x assume x: "read_value n r = Some x"
  let ?m = "Suc (bytes_left r)"
  obtain y where y: "ReadValue r = Some y" using ReadValue_returns by blast
  then have "read_value ?m r = Some y" by (simp add: ReadValue_def bytes_left_def)
  from extendsD [OF read_value_mono [of ?m n] this] extendsD [OF read_value_mono [of n ?m] x] y
  show "ReadValue r = Some x" by (simp add: add.commute)
qed

lemma ReadValue_rec:
  "ReadValue r = ReadValueOfType ReadValue (fst (ReadByte r)) (snd (ReadByte r))"
proof -
  obtain x where x: "ReadValue r = Some x" using ReadValue_returns by blast
  then have "ReadValueOfType (read_value (bytes_left r)) (fst (ReadByte r)) (snd (ReadByte r)) = Some x"
    by (simp only: ReadValue_def read_value_Suc bytes_left_def)
  from extendsD [OF extends_type [OF read_value_ReadValue] this] x show ?thesis by simp
qed

text \<open>
  C15: Decoding ends on every byte sequence, also a malformed one: from every position of every
  buffer \<open>ReadValue\<close> returns a value, leaves the buffer as it is and does not move backwards, and it
  satisfies the recursion equation of the source, so the bound on its nesting is never used up.
\<close>

theorem read_value_terminates:
  "(\<exists>v r'. ReadValue r = Some (v, r') \<and> rd_bytes r' = rd_bytes r \<and> rd_location r \<le> rd_location r') \<and>
   ReadValue r = (let (type, r') = ReadByte r in ReadValueOfType ReadValue type r')"
  using ReadValue_returns [of r] ReadValue_rec [of r] by (auto simp: reader_le_def case_prod_beta)

section \<open>The order of keys\<close>

text \<open>\<open>operator<\<close> is asymmetric, so a sequence of strictly increasing keys keeps its order in a map.\<close>

lemma lex_less_Nil [simp]: "\<not> lex_less lt xs []"
  by (cases xs) simp_all

lemma lex_less_asym:
  assumes "\<And>x y. x \<in> set xs \<Longrightarrow> y \<in> set ys \<Longrightarrow> lt x y \<Longrightarrow> \<not> lt y x"
  shows "lex_less lt xs ys \<Longrightarrow> \<not> lex_less lt ys xs"
  using assms by (induction lt xs ys rule: lex_less.induct) auto

lemma lex_less_asym_all:
  "(\<And>x y. lt x y \<Longrightarrow> \<not> lt y x) \<Longrightarrow> lex_less lt xs ys \<Longrightarrow> \<not> lex_less lt ys xs"
  by (rule lex_less_asym [of xs ys lt]) simp_all

lemma pair_less_asym:
  "(lt (fst p) (fst q) \<Longrightarrow> \<not> lt (fst q) (fst p)) \<Longrightarrow> (lt (snd p) (snd q) \<Longrightarrow> \<not> lt (snd q) (snd p)) \<Longrightarrow>
    pair_less lt p q \<Longrightarrow> \<not> pair_less lt q p"
  by (auto simp: pair_less_def)

lemma ev_index_cases:
  assumes "ev_index a = ev_index b"
  obtains (null) "a = EV_null" "b = EV_null"
  | (bool) x y where "a = EV_bool x" "b = EV_bool y"
  | (int32) x y where "a = EV_int32 x" "b = EV_int32 y"
  | (int64) x y where "a = EV_int64 x" "b = EV_int64 y"
  | (double) x y where "a = EV_double x" "b = EV_double y"
  | (string) x y where "a = EV_string x" "b = EV_string y"
  | (uint8_list) x y where "a = EV_uint8_list x" "b = EV_uint8_list y"
  | (int32_list) x y where "a = EV_int32_list x" "b = EV_int32_list y"
  | (int64_list) x y where "a = EV_int64_list x" "b = EV_int64_list y"
  | (double_list) x y where "a = EV_double_list x" "b = EV_double_list y"
  | (list) x y where "a = EV_list x" "b = EV_list y"
  | (map) x y where "a = EV_map x" "b = EV_map y"
  | (custom) x y where "a = EV_custom x" "b = EV_custom y"
  | (float_list) x y where "a = EV_float_list x" "b = EV_float_list y"
  using assms by (cases a; cases b) simp_all

lemma ev_less_list [simp]: "ev_less (EV_list x) (EV_list y) = lex_less ev_less x y"
  by (subst ev_less.simps) simp

lemma ev_less_map [simp]: "ev_less (EV_map x) (EV_map y) = lex_less (pair_less ev_less) x y"
  by (subst ev_less.simps) simp

lemma ev_less_scalar [simp]:
  "\<not> ev_less EV_null EV_null"
  "ev_less (EV_bool p) (EV_bool q) = (\<not> p \<and> q)"
  "ev_less (EV_int32 a) (EV_int32 b) = (sint a < sint b)"
  "ev_less (EV_int64 c) (EV_int64 d) = (sint c < sint d)"
  "ev_less (EV_double e) (EV_double f) = f64_lt e f"
  "ev_less (EV_custom m) (EV_custom n) = (m < n)"
  by (subst ev_less.simps, simp)+

lemma ev_less_vector [simp]:
  "ev_less (EV_string s) (EV_string t) = lex_less (<) s t"
  "ev_less (EV_uint8_list s) (EV_uint8_list t) = lex_less (<) s t"
  "ev_less (EV_int32_list a) (EV_int32_list b) = lex_less (\<lambda>u v. sint u < sint v) a b"
  "ev_less (EV_int64_list c) (EV_int64_list d) = lex_less (\<lambda>u v. sint u < sint v) c d"
  "ev_less (EV_double_list e) (EV_double_list f) = lex_less f64_lt e f"
  "ev_less (EV_float_list g) (EV_float_list h) = lex_less f32_lt g h"
  by (subst ev_less.simps, simp)+

lemma ev_less_index: "ev_index a \<noteq> ev_index b \<Longrightarrow> ev_less a b = (ev_index a < ev_index b)"
  by (subst ev_less.simps) simp

lemma f64_lt_asym: "f64_lt x y \<Longrightarrow> \<not> f64_lt y x"
  by (simp add: f64_lt_def)

lemma f32_lt_asym: "f32_lt x y \<Longrightarrow> \<not> f32_lt y x"
  by (simp add: f32_lt_def)

lemma vector_asym:
  "lex_less (<) (p :: u8 list) q \<Longrightarrow> \<not> lex_less (<) q p"
  "lex_less (\<lambda>u v. sint u < sint v) (a :: u32 list) b \<Longrightarrow> \<not> lex_less (\<lambda>u v. sint u < sint v) b a"
  "lex_less (\<lambda>u v. sint u < sint v) (c :: u64 list) d \<Longrightarrow> \<not> lex_less (\<lambda>u v. sint u < sint v) d c"
  "lex_less f64_lt e f \<Longrightarrow> \<not> lex_less f64_lt f e"
  "lex_less f32_lt g h \<Longrightarrow> \<not> lex_less f32_lt h g"
  by (erule lex_less_asym_all [rotated], simp add: f64_lt_asym f32_lt_asym)+

lemma ev_less_asym: "ev_less a b \<Longrightarrow> \<not> ev_less b a"
proof (induction "size a + size b" arbitrary: a b rule: less_induct)
  case less
  show ?case
  proof (cases "ev_index a = ev_index b")
    case False
    with less.prems show ?thesis by (simp add: ev_less_index)
  next
    case True
    then show ?thesis
    proof (cases rule: ev_index_cases)
      case (list x y)
      then have "\<not> ev_less v u" if "u \<in> set x" "v \<in> set y" "ev_less u v" for u v
        using less.hyps [of u v] that by (auto dest!: size_value_in)
      from lex_less_asym [OF this] list less.prems show ?thesis by simp
    next
      case (map x y)
      have "\<not> pair_less ev_less q p" if "p \<in> set x" "q \<in> set y" "pair_less ev_less p q" for p q
      proof (rule pair_less_asym [OF _ _ that(3)])
        have sz: "size (fst p) < size a" "size (snd p) < size a" "size (fst q) < size b" "size (snd q) < size b"
          using size_pair_in [of "fst p" "snd p" x] size_pair_in [of "fst q" "snd q" y] that(1,2) map
          by (simp_all add: size_prod_fun)
        show "\<not> ev_less (fst q) (fst p)" if "ev_less (fst p) (fst q)"
          using less.hyps [of "fst p" "fst q"] that sz by simp
        show "\<not> ev_less (snd q) (snd p)" if "ev_less (snd p) (snd q)"
          using less.hyps [of "snd p" "snd q"] that sz by simp
      qed
      from lex_less_asym [OF this] map less.prems show ?thesis by simp
    qed (use less.prems f64_lt_asym in \<open>auto dest: vector_asym\<close>)
  qed
qed

section \<open>Sizes and vectors\<close>

definition size_ok :: "nat \<Rightarrow> bool" where
  "size_ok n = (int n < 2 ^ 32)"

definition size_bytes :: "nat \<Rightarrow> u8 list" where
  "size_bytes n =
     (if n < 254 then [of_nat n] else if n \<le> 0xFFFF then 254 # bytes16 (of_nat n) else 255 # bytes32 (of_nat n))"

lemma WriteSize_eq: "WriteSize n w = Inr (w @ size_bytes n)"
  using length_bytes
  by (auto simp: WriteSize_def size_bytes_def WriteByte_def WriteBytes_def require_def simp del: length_bytes)

lemma reads_back_size: "size_ok n \<Longrightarrow> reads_back WriteSize (\<lambda>r. Some (ReadSize r)) n"
  using ReadBytes_at [of _ _ "_ @ [_]"]
  by (intro reads_backI [where d = "\<lambda>_. size_bytes n"])
    (auto simp: WriteSize_eq size_bytes_def ReadSize_def ReadByte_at size_ok_def unat_of_nat word_less_nat_alt)

interpretation size: stream_codec WriteSize "\<lambda>r. Some (ReadSize r)" size_ok
  by unfold_locales (rule reads_back_size)

text \<open>A vector reads back unless it is an empty vector of multi-byte elements.\<close>

definition vector_ok :: "nat \<Rightarrow> 'a list \<Rightarrow> bool" where
  "vector_ok type_size xs = (size_ok (length xs) \<and> (type_size > 1 \<longrightarrow> xs \<noteq> []))"

lemma reads_back_elements:
  assumes en: "\<And>x. length (en x) = ts" "\<And>x. de (en x) = x" and "ts > 0"
  shows "reads_back (\<lambda>xs w. if length xs = 0 then Inr w else WriteBytes (concat (map en xs)) w)
    (\<lambda>r. Some (let (bs, r) = ReadBytes (length xs * ts) r in (map de (chunks ts (length xs) bs), r))) xs"
proof (rule reads_backI [where d = "\<lambda>_. concat (map en xs)"])
  have len: "length (concat (map en ys)) = length ys * ts" for ys
    by (induction ys) (simp_all add: en)
  show "(if length xs = 0 then Inr w else WriteBytes (concat (map en xs)) w) = Inr (w @ concat (map en xs))" for w
    using len [of xs] \<open>ts > 0\<close> by (simp add: WriteBytes_def)
  have "chunks ts (length xs) (concat (map en xs)) = map en xs"
    using chunks_concat [of ts "map en xs" "[]"] by (simp add: list_all_iff en)
  then show "Some (let (bs, r) = ReadBytes (length xs * ts) (reader_at (w @ concat (map en xs) @ rest) (length w))
      in (map de (chunks ts (length xs) bs), r)) =
    Some (xs, reader_at (w @ concat (map en xs) @ rest) (length w + length (concat (map en xs))))" for w rest
    using ReadBytes_at [OF len] len [of xs] by (simp add: comp_def en)
qed

lemma reads_back_vector:
  assumes en: "\<And>x. length (en x) = ts" "\<And>x. de (en x) = x" and "ts > 0" and ok: "vector_ok ts xs"
  shows "reads_back (WriteVector ts en) (\<lambda>r. Some (ReadVector ts de r)) xs"
proof (rule reads_back_then [where f = "\<lambda>_. id" and y = xs, OF reads_back_size [of "length xs"]])
  let ?rd = "\<lambda>n r. Some (let (bs, r) = ReadBytes (n * ts) (if ts > 1 then ReadAlignment ts r else r)
      in (map de (chunks ts n bs), r))"
  let ?wr = "\<lambda>xs w. if length xs = 0 then Inr w
      else WriteBytes (concat (map en xs)) (if ts > 1 then WriteAlignment ts w else w)"
  show "size_ok (length xs)" using ok by (simp add: vector_ok_def)
  show "reads_back ?wr (?rd (length xs)) xs"
  proof (cases "ts > 1")
    case True
    with ok have "xs \<noteq> []" by (simp add: vector_ok_def)
    with reads_back_aligned [OF reads_back_elements [OF assms(1-3), of xs], of ts] True
    show ?thesis by (simp add: reads_back_def)
  next
    case False
    with reads_back_elements [OF assms(1-3), of xs] show ?thesis by (simp cong: if_cong)
  qed
  show "WriteVector ts en xs w = rbind (WriteSize (length xs) w) (?wr xs)" for w
    by (simp add: WriteVector_def)
  show "Some (ReadVector ts de r) =
      Option.bind (Some (ReadSize r)) (\<lambda>(h, r'). map_option (\<lambda>(y, r''). (id y, r'')) (?rd h r'))" for r
    by (simp add: ReadVector_def case_prod_beta Let_def)
qed simp

interpretation uint8_vector: stream_codec "WriteVector 1 byte_bytes" "\<lambda>r. Some (ReadVector 1 byte_word r)" "vector_ok 1"
  by unfold_locales (rule reads_back_vector, simp_all add: byte_bytes_def byte_word_def)

interpretation u32_vector: stream_codec "WriteVector 4 bytes32" "\<lambda>r. Some (ReadVector 4 word32 r)" "vector_ok 4"
  by unfold_locales (rule reads_back_vector, simp_all)

interpretation u64_vector: stream_codec "WriteVector 8 bytes64" "\<lambda>r. Some (ReadVector 8 word64 r)" "vector_ok 8"
  by unfold_locales (rule reads_back_vector, simp_all)

definition WriteString :: "u8 list stream_write" where
  "WriteString s w = rbind (WriteSize (length s) w) (\<lambda>w. if length s > 0 then WriteBytes s w else Inr w)"

interpretation string_codec: stream_codec WriteString "\<lambda>r. Some (read_string r)" "\<lambda>s. size_ok (length s)"
proof (unfold_locales, rule reads_back_then [where f = "\<lambda>_. id"])
  fix s :: "u8 list" assume "size_ok (length s)"
  then show "reads_back WriteSize (\<lambda>r. Some (ReadSize r)) (length s)" by (rule reads_back_size)
  show "reads_back (\<lambda>s w. if length s > 0 then WriteBytes s w else Inr w) ((\<lambda>n r. Some (ReadBytes n r)) (length s)) s"
    by (rule reads_backI [where d = "\<lambda>_. s"]) (simp_all add: WriteBytes_def ReadBytes_at)
qed (simp_all add: WriteString_def read_string_def case_prod_beta)

section \<open>Values\<close>

text \<open>
  The values that survive a round trip: no custom value, sizes that fit in 32 bits, no empty vector of
  multi-byte elements, and the keys of every map in increasing order, as \<open>std::map\<close> keeps them.
\<close>

function ev_ok :: "EncodableValue \<Rightarrow> bool" where
  "ev_ok v =
     (case v of
        EV_string s \<Rightarrow> size_ok (length s)
      | EV_uint8_list xs \<Rightarrow> vector_ok 1 xs
      | EV_int32_list xs \<Rightarrow> vector_ok 4 xs
      | EV_int64_list xs \<Rightarrow> vector_ok 8 xs
      | EV_double_list xs \<Rightarrow> vector_ok 8 xs
      | EV_float_list xs \<Rightarrow> vector_ok 4 xs
      | EV_list vs \<Rightarrow> size_ok (length vs) \<and> list_all ev_ok vs
      | EV_map m \<Rightarrow> size_ok (length m) \<and> list_all (\<lambda>p. ev_ok (fst p) \<and> ev_ok (snd p)) m \<and>
          sorted_wrt (\<lambda>p q. ev_less (fst p) (fst q)) m
      | EV_custom _ \<Rightarrow> False
      | _ \<Rightarrow> True)"
  by pat_completeness auto

termination
proof (relation "measure size")
  show "(x, v) \<in> measure size" if "v = EV_list vs" "x \<in> set vs" for v vs x
    using size_value_in [OF that(2)] that(1) by simp
  show "(fst p, v) \<in> measure size" if "v = EV_map m" "p \<in> set m" for v m p
    using size_pair_in [of "fst p" "snd p" m] that by (simp add: size_prod_fun)
  show "(snd p, v) \<in> measure size" if "v = EV_map m" "p \<in> set m" for v m p
    using size_pair_in [of "fst p" "snd p" m] that by (simp add: size_prod_fun)
qed simp

declare ev_ok.simps [simp del]

text \<open>Lists and maps are sequences of values and of pairs.\<close>

definition write_pair :: "(EncodableValue \<times> EncodableValue) stream_write" where
  "write_pair p w = rbind (WriteValue (fst p) w) (WriteValue (snd p))"

definition read_pair :: "(EncodableValue \<times> EncodableValue) stream_read" where
  "read_pair r = Option.bind (ReadValue r) (\<lambda>(k, r). map_option (\<lambda>(v, r). ((k, v), r)) (ReadValue r))"

lemma WriteList_eq: "WriteList vs = write_values WriteValue vs"
  by (induction vs) (simp_all add: fun_eq_iff rbind_def split: sum.splits)

lemma WriteMap_eq: "WriteMap m = write_values write_pair m"
  by (induction m) (auto simp: fun_eq_iff write_pair_def rbind_def split: sum.splits)

lemma read_map_eq:
  "read_map ReadValue n m r =
     map_option (\<lambda>(ps, r). (fold (\<lambda>(k, v). ev_emplace k v) ps m, r)) (read_values read_pair n r)"
  by (induction n arbitrary: m r) (auto simp: read_pair_def split: option.splits bind_splits)

lemma ev_emplace_last:
  "(\<And>p. p \<in> set m \<Longrightarrow> ev_less (fst p) k) \<Longrightarrow> ev_emplace k v m = m @ [(k, v)]"
proof (induction m)
  case (Cons p m)
  from Cons.prems [of p] have "ev_less (fst p) k" "\<not> ev_less k (fst p)"
    using ev_less_asym by simp_all
  with Cons show ?case by (cases p) simp
qed simp

lemma fold_emplace_sorted:
  "sorted_wrt (\<lambda>p q. ev_less (fst p) (fst q)) (m @ ps) \<Longrightarrow> fold (\<lambda>(k, v). ev_emplace k v) ps m = m @ ps"
proof (induction ps arbitrary: m)
  case (Cons p ps)
  then have "ev_emplace (fst p) (snd p) m = m @ [p]"
    by (subst ev_emplace_last) (auto simp: sorted_wrt_append)
  with Cons show ?case by (simp add: case_prod_beta)
qed simp

lemma reads_back_pair:
  "reads_back WriteValue ReadValue k \<Longrightarrow> reads_back WriteValue ReadValue v \<Longrightarrow>
    reads_back write_pair read_pair (k, v)"
  by (rule reads_back_then [where f = Pair and rdt = "\<lambda>_. ReadValue"]) (auto simp: write_pair_def read_pair_def)

lemma reads_back_typed:
  assumes "EncodedTypeForValue v = Inr t" and body: "reads_back wr rd y" and "f y = v"
    and "\<And>w. WriteValue v w = rbind (write_type v w) (wr y)"
    and rd: "ReadValueOfType ReadValue (EncodedType_code t) = (\<lambda>r. map_option (map_prod f id) (rd r))"
  shows "reads_back WriteValue ReadValue v"
proof (rule reads_back_then [where f = "\<lambda>_. id" and rdt = "ReadValueOfType ReadValue" and wrt = "\<lambda>_. wr y"
      and h = "EncodedType_code t", OF byte.inverse])
  from body show "reads_back (\<lambda>_. wr y) (ReadValueOfType ReadValue (EncodedType_code t)) v"
    using assms(3) unfolding reads_back_def rd by (metis (no_types, lifting) map_prod_simp id_apply option.map(2))
qed (simp_all add: assms(1,4) write_type_def ReadValue_rec case_prod_beta option.map_id)

text \<open>An empty body, for the values that their type encodes.\<close>

lemma reads_back_unit: "reads_back (\<lambda>(_ :: unit). Inr) (\<lambda>r. Some ((), r)) ()"
  by (rule reads_backI [where d = "\<lambda>_. []"]) simp_all

lemma reads_back_list:
  assumes "size_ok (length vs)" and "\<And>v. v \<in> set vs \<Longrightarrow> reads_back WriteValue ReadValue v"
  shows "reads_back (\<lambda>vs w. rbind (WriteSize (length vs) w) (WriteList vs))
    (\<lambda>r. let (n, r) = ReadSize r in read_values ReadValue n r) vs"
  by (rule reads_back_then [where f = "\<lambda>_. id" and wrt = "write_values WriteValue" and rdt = "read_values ReadValue",
        OF reads_back_size [OF assms(1)] reads_back_values])
    (auto simp: assms(2) WriteList_eq fun_eq_iff case_prod_beta option.map_id)

lemma reads_back_map:
  assumes "size_ok (length m)" and "\<And>p. p \<in> set m \<Longrightarrow> reads_back write_pair read_pair p"
    and "sorted_wrt (\<lambda>p q. ev_less (fst p) (fst q)) m"
  shows "reads_back (\<lambda>m w. rbind (WriteSize (length m) w) (WriteMap m))
    (\<lambda>r. let (n, r) = ReadSize r in read_map ReadValue n [] r) m"
  by (rule reads_back_then [where f = "\<lambda>_ ps. fold (\<lambda>(k, v). ev_emplace k v) ps []"
        and wrt = "write_values write_pair" and rdt = "read_values read_pair",
        OF reads_back_size [OF assms(1)] reads_back_values])
    (use fold_emplace_sorted [of "[]" m] in
      \<open>auto simp: assms(2,3) WriteMap_eq fun_eq_iff case_prod_beta read_map_eq\<close>)

lemma ReadValueOfType_simps [simp]:
  "ReadValueOfType rd 0 = (\<lambda>r. Some (EV_null, r))"
  "ReadValueOfType rd 1 = (\<lambda>r. Some (EV_bool True, r))"
  "ReadValueOfType rd 2 = (\<lambda>r. Some (EV_bool False, r))"
  "ReadValueOfType rd 3 = (\<lambda>r. Some (map_prod EV_int32 id (ReadInt32 r)))"
  "ReadValueOfType rd 4 = (\<lambda>r. Some (map_prod EV_int64 id (ReadInt64 r)))"
  "ReadValueOfType rd 6 = (\<lambda>r. Some (map_prod EV_double id (ReadDouble (ReadAlignment 8 r))))"
  "ReadValueOfType rd 7 = (\<lambda>r. Some (map_prod EV_string id (read_string r)))"
  "ReadValueOfType rd 8 = (\<lambda>r. Some (map_prod EV_uint8_list id (ReadVector 1 byte_word r)))"
  "ReadValueOfType rd 9 = (\<lambda>r. Some (map_prod EV_int32_list id (ReadVector 4 word32 r)))"
  "ReadValueOfType rd 10 = (\<lambda>r. Some (map_prod EV_int64_list id (ReadVector 8 word64 r)))"
  "ReadValueOfType rd 11 = (\<lambda>r. Some (map_prod EV_double_list id (ReadVector 8 word64 r)))"
  "ReadValueOfType rd 12 = (\<lambda>r. map_option (map_prod EV_list id) (let (n, r) = ReadSize r in read_values rd n r))"
  "ReadValueOfType rd 13 = (\<lambda>r. map_option (map_prod EV_map id) (let (n, r) = ReadSize r in read_map rd n [] r))"
  "ReadValueOfType rd 14 = (\<lambda>r. Some (map_prod EV_float_list id (ReadVector 4 word32 r)))"
  by (simp_all add: ReadValueOfType_def fun_eq_iff case_prod_beta)

lemma WriteValue_body:
  "WriteValue EV_null w = rbind (write_type EV_null w) Inr"
  "WriteValue (EV_bool b) w = rbind (write_type (EV_bool b) w) Inr"
  "WriteValue (EV_int32 i) w = rbind (write_type (EV_int32 i) w) (WriteInt32 i)"
  "WriteValue (EV_int64 j) w = rbind (write_type (EV_int64 j) w) (WriteInt64 j)"
  "WriteValue (EV_double x) w = rbind (write_type (EV_double x) w) (\<lambda>w. WriteDouble x (WriteAlignment 8 w))"
  "WriteValue (EV_string s) w = rbind (write_type (EV_string s) w) (WriteString s)"
  "WriteValue (EV_uint8_list bs) w = rbind (write_type (EV_uint8_list bs) w) (WriteVector 1 byte_bytes bs)"
  "WriteValue (EV_int32_list is) w = rbind (write_type (EV_int32_list is) w) (WriteVector 4 bytes32 is)"
  "WriteValue (EV_int64_list js) w = rbind (write_type (EV_int64_list js) w) (WriteVector 8 bytes64 js)"
  "WriteValue (EV_double_list xs) w = rbind (write_type (EV_double_list xs) w) (WriteVector 8 bytes64 xs)"
  "WriteValue (EV_float_list fs) w = rbind (write_type (EV_float_list fs) w) (WriteVector 4 bytes32 fs)"
  "WriteValue (EV_list vs) w =
     rbind (write_type (EV_list vs) w) (\<lambda>w. rbind (WriteSize (length vs) w) (WriteList vs))"
  "WriteValue (EV_map m) w =
     rbind (write_type (EV_map m) w) (\<lambda>w. rbind (WriteSize (length m) w) (WriteMap m))"
  by (simp_all add: WriteValue.simps WriteString_def [abs_def])

lemma reads_back_value: "ev_ok v \<Longrightarrow> reads_back WriteValue ReadValue v"
proof (induction "size v" arbitrary: v rule: less_induct)
  case less
  note ok = less.prems [unfolded ev_ok.simps [of v]]
  note w = WriteValue_body
  show ?case
  proof (cases v)
    case EV_null
    show ?thesis by (rule reads_back_typed [OF _ reads_back_unit, where f = "\<lambda>_. EV_null" and t = kNull]) (simp_all add: EV_null w)
  next
    case (EV_bool b)
    show ?thesis
      by (rule reads_back_typed [OF _ reads_back_unit, where f = "\<lambda>_. EV_bool b" and t = "if b then kTrue else kFalse"]) (simp_all add: EV_bool w)
  next
    case (EV_int32 x)
    show ?thesis
      by (rule reads_back_typed [OF _ int32.inverse, where f = EV_int32 and t = kInt32]) (simp_all add: EV_int32 w)
  next
    case (EV_int64 x)
    show ?thesis
      by (rule reads_back_typed [OF _ int64.inverse, where f = EV_int64 and t = kInt64]) (simp_all add: EV_int64 w)
  next
    case (EV_double x)
    show ?thesis
      by (rule reads_back_typed [OF _ reads_back_aligned [OF double.inverse], where f = EV_double and t = kFloat64]) (simp_all add: EV_double w)
  next
    case (EV_string x)
    show ?thesis
      by (rule reads_back_typed [OF _ string_codec.inverse, where f = EV_string and t = kString])
        (use ok in \<open>simp_all add: EV_string w\<close>)
  next
    case (EV_uint8_list x)
    show ?thesis
      by (rule reads_back_typed [OF _ uint8_vector.inverse, where f = EV_uint8_list and t = kUInt8List])
        (use ok in \<open>simp_all add: EV_uint8_list w\<close>)
  next
    case (EV_int32_list x)
    show ?thesis
      by (rule reads_back_typed [OF _ u32_vector.inverse, where f = EV_int32_list and t = kInt32List])
        (use ok in \<open>simp_all add: EV_int32_list w\<close>)
  next
    case (EV_int64_list x)
    show ?thesis
      by (rule reads_back_typed [OF _ u64_vector.inverse, where f = EV_int64_list and t = kInt64List])
        (use ok in \<open>simp_all add: EV_int64_list w\<close>)
  next
    case (EV_double_list x)
    show ?thesis
      by (rule reads_back_typed [OF _ u64_vector.inverse, where f = EV_double_list and t = kFloat64List])
        (use ok in \<open>simp_all add: EV_double_list w\<close>)
  next
    case (EV_float_list x)
    show ?thesis
      by (rule reads_back_typed [OF _ u32_vector.inverse, where f = EV_float_list and t = kFloat32List])
        (use ok in \<open>simp_all add: EV_float_list w\<close>)
  next
    case (EV_list vs)
    then have "reads_back WriteValue ReadValue x" if "x \<in> set vs" for x
      using less.hyps [of x] ok size_value_in [OF that] that by (simp add: list_all_iff)
    with ok show ?thesis
      by - (rule reads_back_typed [OF _ reads_back_list, where f = EV_list and t = kList], simp_all add: EV_list w)
  next
    case (EV_map m)
    then have "reads_back write_pair read_pair p" if "p \<in> set m" for p
      using reads_back_pair [of "fst p" "snd p"] less.hyps [of "fst p"] less.hyps [of "snd p"]
        ok size_pair_in [of "fst p" "snd p" m] that by (simp add: list_all_iff size_prod_fun)
    with ok show ?thesis
      by - (rule reads_back_typed [OF _ reads_back_map, where f = EV_map and t = kMap], simp_all add: EV_map w)
  next
    case (EV_custom x)
    with ok show ?thesis by simp
  qed
qed

interpretation standard_value: stream_codec WriteValue ReadValue ev_ok
  by unfold_locales (rule reads_back_value)

section \<open>Decoded values\<close>

text \<open>No custom value anywhere, and sizes that fit in 32 bits.\<close>

function ev_plain :: "EncodableValue \<Rightarrow> bool" where
  "ev_plain v =
     (case v of
        EV_string s \<Rightarrow> size_ok (length s)
      | EV_uint8_list xs \<Rightarrow> size_ok (length xs)
      | EV_int32_list xs \<Rightarrow> size_ok (length xs)
      | EV_int64_list xs \<Rightarrow> size_ok (length xs)
      | EV_double_list xs \<Rightarrow> size_ok (length xs)
      | EV_float_list xs \<Rightarrow> size_ok (length xs)
      | EV_list vs \<Rightarrow> size_ok (length vs) \<and> list_all ev_plain vs
      | EV_map m \<Rightarrow> size_ok (length m) \<and> list_all (\<lambda>p. ev_plain (fst p) \<and> ev_plain (snd p)) m
      | EV_custom _ \<Rightarrow> False
      | _ \<Rightarrow> True)"
  by pat_completeness auto

termination
proof (relation "measure size")
  show "(x, v) \<in> measure size" if "v = EV_list vs" "x \<in> set vs" for v vs x
    using size_value_in [OF that(2)] that(1) by simp
  show "(fst p, v) \<in> measure size" if "v = EV_map m" "p \<in> set m" for v m p
    using size_pair_in [of "fst p" "snd p" m] that by (simp add: size_prod_fun)
  show "(snd p, v) \<in> measure size" if "v = EV_map m" "p \<in> set m" for v m p
    using size_pair_in [of "fst p" "snd p" m] that by (simp add: size_prod_fun)
qed simp

declare ev_plain.simps [simp del]

lemma ReadSize_ok: "size_ok (fst (ReadSize r))"
proof -
  have "unat (word16 bs) < 4294967296" for bs using unsigned_less [of "word16 bs", where ?'a = nat] by simp
  moreover have "unat (word32 bs) < 4294967296" for bs using unsigned_less [of "word32 bs", where ?'a = nat] by simp
  moreover have "unat b < 4294967296" for b :: u8 using unsigned_less [of b, where ?'a = nat] by simp
  ultimately show ?thesis by (simp add: ReadSize_def size_ok_def case_prod_beta)
qed

lemma length_ReadBytes: "length (fst (ReadBytes n r)) = n"
  by (simp add: ReadBytes_def)

lemma length_ReadVector: "size_ok (length (fst (ReadVector ts de r)))"
  by (simp add: ReadVector_def case_prod_beta Let_def ReadSize_ok)

lemma length_read_string: "size_ok (length (fst (read_string r)))"
  by (simp add: read_string_def case_prod_beta length_ReadBytes ReadSize_ok)

lemma read_values_all:
  assumes "\<And>r v r'. rd r = Some (v, r') \<Longrightarrow> P v"
  shows "read_values rd n r = Some (vs, r') \<Longrightarrow> length vs = n \<and> list_all P vs"
  by (induction n arbitrary: r vs r') (auto split: option.splits, metis assms)

lemma ev_emplace_all: "P (k, v) \<Longrightarrow> list_all P m \<Longrightarrow> list_all P (ev_emplace k v m)"
  by (induction k v m rule: ev_emplace.induct) auto

lemma length_ev_emplace: "length (ev_emplace k v m) \<le> Suc (length m)"
  by (induction k v m rule: ev_emplace.induct) auto

lemma read_map_all:
  assumes "\<And>r v r'. rd r = Some (v, r') \<Longrightarrow> P v"
  shows "read_map rd n m r = Some (m', r') \<Longrightarrow> list_all (\<lambda>p. P (fst p) \<and> P (snd p)) m \<Longrightarrow>
    length m' \<le> n + length m \<and> list_all (\<lambda>p. P (fst p) \<and> P (snd p)) m'"
proof (induction n arbitrary: m r)
  case (Suc n)
  from Suc.prems(1) obtain k r1 v r2 where step:
    "rd r = Some (k, r1)" "rd r1 = Some (v, r2)" "read_map rd n (ev_emplace k v m) r2 = Some (m', r')"
    by (auto simp: bind_eq_Some_conv)
  then have "P k" "P v" using assms by blast+
  then have "list_all (\<lambda>p. P (fst p) \<and> P (snd p)) (ev_emplace k v m)"
    using Suc.prems(2) by (intro ev_emplace_all) simp_all
  from Suc.IH [OF step(3) this] length_ev_emplace [of k v m] show ?case by simp
qed simp

lemma size_ok_le: "size_ok n \<Longrightarrow> m \<le> n \<Longrightarrow> size_ok m"
  by (simp add: size_ok_def)

lemma ReadValueOfType_plain:
  assumes rd: "\<And>r v r'. rd r = Some (v, r') \<Longrightarrow> ev_plain v"
    and "ReadValueOfType rd t r = Some (v, r')"
  shows "ev_plain v"
proof -
  have list: "ev_plain (EV_list vs)" if "read_values rd (fst (ReadSize r)) r1 = Some (vs, r2)" for vs r1 r2
    using read_values_all [of rd ev_plain, OF rd that] ReadSize_ok [of r] by (simp add: ev_plain.simps [of "EV_list _"])
  have map: "ev_plain (EV_map m)" if "read_map rd (fst (ReadSize r)) [] r1 = Some (m, r2)" for m r1 r2
    using read_map_all [of rd ev_plain, OF rd that] size_ok_le [OF ReadSize_ok [of r]]
    by (simp add: ev_plain.simps [of "EV_map _"])
  note plain = ev_plain.simps [of "EV_string _"] ev_plain.simps [of "EV_uint8_list _"]
    ev_plain.simps [of "EV_int32_list _"] ev_plain.simps [of "EV_int64_list _"] ev_plain.simps [of "EV_float_list _"]
    ev_plain.simps [of "EV_double_list _"] ev_plain.simps [of "EV_null"] ev_plain.simps [of "EV_bool _"]
    ev_plain.simps [of "EV_int32 _"] ev_plain.simps [of "EV_int64 _"] ev_plain.simps [of "EV_double _"]
  have *: "map_prod f id p = (v, r') \<longleftrightarrow> v = f (fst p) \<and> r' = snd p" for f :: "'b \<Rightarrow> EncodableValue" and p
    by (cases p) auto
  from assms(2) list map show ?thesis
    unfolding ReadValueOfType_def
    by (auto simp: case_prod_beta plain * length_ReadVector length_read_string split: if_splits)
qed

lemma read_value_plain: "read_value n r = Some (v, r') \<Longrightarrow> ev_plain v"
proof (induction n arbitrary: r v r')
  case (Suc n)
  from Suc.prems show ?case
    unfolding read_value_Suc using Suc.IH by (rule ReadValueOfType_plain [rotated])
qed simp

text \<open>
  Whatever bytes arrive, the decoded value has no custom value at any depth and only sizes below
  \<open>2 ^ 32\<close>.
\<close>

lemma decoded_value_plain: "\<exists>v. DecodeMessageInternal bytes = Some v \<and> ev_plain v"
proof (cases bytes)
  case None
  then show ?thesis by (simp add: DecodeMessageInternal_def ev_plain.simps)
next
  case (Some bs)
  obtain v r where "ReadValue (ByteBufferStreamReader_new bs) = Some (v, r)" using ReadValue_returns by blast
  with Some read_value_plain show ?thesis unfolding DecodeMessageInternal_def ReadValue_def by fastforce
qed

section \<open>Messages, calls and envelopes\<close>

lemma ReadValue_written:
  "ev_ok v \<Longrightarrow> WriteValue v w = Inr w' \<Longrightarrow>
    ReadValue (reader_at (w' @ rest) (length w)) = Some (v, reader_at (w' @ rest) (length w'))"
  by (rule standard_value.read_written)

text \<open>
  C16: A message survives the trip: for every supported value (no custom value, sizes below \<open>2 ^ 32\<close>,
  no empty vector of multi-byte elements, map keys in the order of \<open>std::map\<close>), encoding succeeds and
  decoding the bytes gives the value back, whatever its nesting.
\<close>

theorem message_roundtrip:
  assumes "ev_ok message"
  shows "\<exists>bytes. EncodeMessageInternal message = Inr bytes \<and> DecodeMessageInternal (Some bytes) = Some message"
proof -
  obtain bs where bs: "WriteValue message [] = Inr ([] @ bs)"
    using standard_value.write_ok [OF assms] by blast
  from ReadValue_written [OF assms this, of "[]"] show ?thesis
    by (simp add: EncodeMessageInternal_def DecodeMessageInternal_def ByteBufferStreamReader_new_def bs)
qed

definition demo_message :: EncodableValue where
  "demo_message = EV_map
     [(EV_int32 7, EV_list [EV_null, EV_double 0x3FF0000000000000, EV_float_list [1, 2, 3]]),
      (EV_string [97, 98], EV_int64_list [5]),
      (EV_string [97, 99], EV_map [(EV_bool False, EV_uint8_list [])])]"

lemma demo_message_ok: "ev_ok demo_message" by code_simp

theorem message_roundtrip_witness:
  "\<exists>bytes. EncodeMessageInternal demo_message = Inr bytes \<and> DecodeMessageInternal (Some bytes) = Some demo_message"
  using message_roundtrip [OF demo_message_ok] .

definition or_null :: "EncodableValue option \<Rightarrow> EncodableValue" where
  "or_null v = (case v of None \<Rightarrow> EV_null | Some x \<Rightarrow> x)"

lemma write_or_null_eq: "write_or_null v = WriteValue (or_null v)"
  by (simp add: write_or_null_def or_null_def fun_eq_iff)

lemma ev_ok_string: "ev_ok (EV_string s) = size_ok (length s)"
  by (simp add: ev_ok.simps)

lemma ev_ok_null: "ev_ok EV_null"
  by (simp add: ev_ok.simps)

text \<open>
  A method call survives the trip: with a name shorter than \<open>2 ^ 32\<close> bytes and supported
  arguments, the decoded call has the same name and the same arguments, where a call without
  arguments arrives with the null value.
\<close>

theorem method_call_roundtrip:
  assumes "size_ok (length (mc_method_name call))" and "ev_ok (or_null (mc_arguments call))"
  shows "\<exists>bytes. EncodeMethodCallInternal call = Inr bytes \<and>
    DecodeMethodCallInternal bytes =
      Some (Some \<lparr>mc_method_name = mc_method_name call, mc_arguments = Some (or_null (mc_arguments call))\<rparr>)"
proof -
  let ?name = "EV_string (mc_method_name call)" and ?args = "or_null (mc_arguments call)"
  have name: "ev_ok ?name" using assms(1) by (simp add: ev_ok_string)
  obtain n where n: "WriteValue ?name [] = Inr ([] @ n)" using standard_value.write_ok [OF name] by blast
  obtain a where a: "WriteValue ?args n = Inr (n @ a)" using standard_value.write_ok [OF assms(2)] by blast
  from ReadValue_written [OF name n, of a] ReadValue_written [OF assms(2) a, of "[]"] n a show ?thesis
    by (simp add: EncodeMethodCallInternal_def DecodeMethodCallInternal_def ByteBufferStreamReader_new_def write_or_null_eq)
qed

theorem method_call_roundtrip_witness:
  "\<exists>bytes. EncodeMethodCallInternal \<lparr>mc_method_name = [111, 107], mc_arguments = Some demo_message\<rparr> = Inr bytes \<and>
    DecodeMethodCallInternal bytes = Some (Some \<lparr>mc_method_name = [111, 107], mc_arguments = Some demo_message\<rparr>)"
proof -
  have "size_ok (length [111, 107 :: u8])" by code_simp
  then show ?thesis
    using method_call_roundtrip [of "\<lparr>mc_method_name = [111, 107], mc_arguments = Some demo_message\<rparr>"] demo_message_ok
    by (simp add: or_null_def)
qed

text \<open>A response value and the null value it may be written as.\<close>

definition non_null :: "EncodableValue option \<Rightarrow> EncodableValue option" where
  "non_null v = (if v = Some EV_null then None else v)"

lemma null_to_None_or_null: "null_to_None (or_null v) = non_null v"
  by (cases v) (auto simp: null_to_None_def or_null_def non_null_def EV_IsNull_def)

lemma ReadByte_flag: "ReadByte (ByteBufferStreamReader_new (b # bs)) = (b, reader_at (b # bs) 1)"
  by (simp add: ReadByte_def ByteBufferStreamReader_new_def)

lemma success_envelope:
  assumes "ev_ok (or_null value)"
  shows "\<exists>bytes. EncodeSuccessEnvelopeInternal value = Inr bytes \<and>
    DecodeAndProcessResponseEnvelopeInternal bytes = Some (Inr (Some (Success (non_null value))))"
proof -
  obtain d where d: "WriteValue (or_null value) [0] = Inr ([0] @ d)"
    using standard_value.write_ok [OF assms] by blast
  from ReadValue_written [OF assms d, of "[]"] d show ?thesis
    by (simp add: EncodeSuccessEnvelopeInternal_def DecodeAndProcessResponseEnvelopeInternal_def
        write_or_null_eq WriteByte_def ReadByte_flag null_to_None_or_null)
qed

lemma error_envelope:
  assumes "size_ok (length code)" "size_ok (length message)" and details: "ev_ok (or_null details)"
  shows "\<exists>bytes. EncodeErrorEnvelopeInternal code message details = Inr bytes \<and>
    DecodeAndProcessResponseEnvelopeInternal bytes = Some (Inr (Some (Error code message (non_null details))))"
proof -
  let ?m = "if message = [] then EV_null else EV_string message"
  have code: "ev_ok (EV_string code)" and m: "ev_ok ?m"
    using assms(1,2) by (simp_all add: ev_ok_string ev_ok_null)
  obtain c where c: "WriteValue (EV_string code) [1] = Inr ([1] @ c)" using standard_value.write_ok [OF code] by blast
  obtain d where d: "WriteValue ?m ([1] @ c) = Inr (([1] @ c) @ d)" using standard_value.write_ok [OF m] by blast
  obtain e where e: "WriteValue (or_null details) (([1] @ c) @ d) = Inr ((([1] @ c) @ d) @ e)"
    using standard_value.write_ok [OF details] by blast
  have "EncodeErrorEnvelopeInternal code message details = Inr (1 # c @ d @ e)"
    using c d e by (auto simp: EncodeErrorEnvelopeInternal_def write_or_null_eq WriteByte_def)
  moreover have "DecodeAndProcessResponseEnvelopeInternal (1 # c @ d @ e) = Some (Inr (Some (Error code message (non_null details))))"
    using ReadValue_written [OF code c, of "d @ e"] ReadValue_written [OF m d, of e]
      ReadValue_written [OF details e, of "[]"]
    by (auto simp: DecodeAndProcessResponseEnvelopeInternal_def ReadByte_flag null_to_None_or_null
        EV_IsNull_def get_string_def)
  ultimately show ?thesis by blast
qed

text \<open>
  C17: The two response envelopes reach the caller's \<open>MethodResult\<close> as they were sent: a success
  envelope calls \<open>Success\<close> with the value, an error envelope calls \<open>Error\<close> with the code, the message
  (the empty message travels as the null value) and the details; a null value arrives as no value.
\<close>

theorem envelope_roundtrip:
  assumes "size_ok (length code)" and "size_ok (length message)" and "ev_ok (or_null value)"
  shows "(\<exists>bytes. EncodeSuccessEnvelopeInternal value = Inr bytes \<and>
      DecodeAndProcessResponseEnvelopeInternal bytes = Some (Inr (Some (Success (non_null value))))) \<and>
    (\<exists>bytes. EncodeErrorEnvelopeInternal code message value = Inr bytes \<and>
      DecodeAndProcessResponseEnvelopeInternal bytes = Some (Inr (Some (Error code message (non_null value)))))"
  using success_envelope [OF assms(3)] error_envelope [OF assms] by blast

theorem envelope_roundtrip_witness:
  "(\<exists>bytes. EncodeSuccessEnvelopeInternal (Some demo_message) = Inr bytes \<and>
      DecodeAndProcessResponseEnvelopeInternal bytes = Some (Inr (Some (Success (Some demo_message))))) \<and>
    (\<exists>bytes. EncodeErrorEnvelopeInternal [69] [] (Some demo_message) = Inr bytes \<and>
      DecodeAndProcessResponseEnvelopeInternal bytes = Some (Inr (Some (Error [69] [] (Some demo_message)))))"
proof -
  have "size_ok (length [69 :: u8])" "size_ok (length ([] :: u8 list))" by code_simp+
  moreover have "non_null (Some demo_message) = Some demo_message" by code_simp
  ultimately show ?thesis
    using envelope_roundtrip [of "[69]" "[]" "Some demo_message"] demo_message_ok by (simp add: or_null_def)
qed

section \<open>Empty vectors\<close>

text \<open>
  C18: An empty vector of multi-byte elements does not read back where it was written: the writer
  emits its size and no padding, the reader skips the padding all the same.  So wherever the size
  ends at an unaligned position, the reader drops bytes that belong to the next value; a list with
  such a vector decodes to another list.
\<close>

theorem empty_vector_skips:
  "WriteVector type_size en [] w = Inr (w @ [0]) \<and>
   (type_size > 1 \<longrightarrow> ReadVector type_size de (reader_at (w @ 0 # rest) (length w)) =
      ([], reader_at (w @ 0 # rest) (length w + 1 + padding type_size (length w + 1)))) \<and>
   EncodeMessageInternal (EV_list [EV_null, EV_int32_list [], EV_bool True]) = Inr [12, 3, 0, 9, 0, 1] \<and>
   DecodeMessageInternal (Some [12, 3, 0, 9, 0, 1]) = Some (EV_list [EV_null, EV_int32_list [], EV_null])"
proof (intro conjI impI)
  show "WriteVector type_size en [] w = Inr (w @ [0])"
    by (simp add: WriteVector_def WriteSize_def WriteByte_def)
  assume "type_size > 1"
  then show "ReadVector type_size de (reader_at (w @ 0 # rest) (length w)) =
      ([], reader_at (w @ 0 # rest) (length w + 1 + padding type_size (length w + 1)))"
    by (simp add: ReadVector_def ReadSize_def ReadByte_at ReadAlignment_at ReadBytes_def Let_def)
next
  show "EncodeMessageInternal (EV_list [EV_null, EV_int32_list [], EV_bool True]) = Inr [12, 3, 0, 9, 0, 1]"
    by code_simp
  show "DecodeMessageInternal (Some [12, 3, 0, 9, 0, 1]) = Some (EV_list [EV_null, EV_int32_list [], EV_null])"
    by code_simp
qed

theorem empty_vector_skips_witness:
  "ReadVector 4 word32 (reader_at ([9] @ 0 # [1, 1, 1]) 1) = ([], reader_at [9, 0, 1, 1, 1] 4)"
  using empty_vector_skips [where type_size = 4 and en = bytes32 and de = word32 and w = "[9]" and rest = "[1, 1, 1]"]
  by (simp add: padding_def)

section \<open>Codec instances\<close>

text \<open>Requests of instances, each with the address that \<open>new\<close> would return.\<close>

fun registry_requests :: "u64 \<Rightarrow> (u64 \<times> u64 option) list \<Rightarrow> codec_registry \<Rightarrow> codec_registry" where
  "registry_requests standard [] m = m"
| "registry_requests standard ((fresh, s) # rs) m = registry_requests standard rs (snd (GetInstance standard fresh s m))"

definition registry_wf :: "codec_registry \<Rightarrow> bool" where
  "registry_wf m = (omap_wf m \<and> (\<forall>s c. map_of m s = Some c \<longrightarrow> ci_serializer c = s))"

lemma GetInstance_wf: "registry_wf m \<Longrightarrow> registry_wf (snd (GetInstance standard fresh s m))"
  by (auto simp: registry_wf_def GetInstance_def Let_def split: option.splits)

lemma GetInstance_keeps: "map_of m k = Some c \<Longrightarrow> map_of (snd (GetInstance standard fresh s m)) k = Some c"
  by (auto simp: GetInstance_def Let_def split: option.splits)

lemma GetInstance_found:
  "map_of (snd (GetInstance standard fresh s m)) (case s of None \<Rightarrow> standard | Some k \<Rightarrow> k) = Some (fst (GetInstance standard fresh s m))"
  by (auto simp: GetInstance_def Let_def split: option.split)

lemma registry_requests_wf: "registry_wf m \<Longrightarrow> registry_wf (registry_requests standard rs m)"
  by (induction standard rs m rule: registry_requests.induct) (simp_all add: GetInstance_wf)

lemma registry_requests_keeps: "map_of m k = Some c \<Longrightarrow> map_of (registry_requests standard rs m) k = Some c"
  by (induction standard rs m rule: registry_requests.induct) (simp_all add: GetInstance_keeps)

text \<open>
  The instance handed out for a serializer uses that serializer (the standard one for null), and every
  later request for it, whatever was requested in between, returns the same object.
\<close>

theorem codec_instance_unique:
  fixes standard fresh :: u64 and s t :: "u64 option" and earlier later :: "(u64 \<times> u64 option) list"
  defines "m \<equiv> registry_requests standard earlier []"
  defines "codec \<equiv> fst (GetInstance standard fresh s m)" and "m' \<equiv> snd (GetInstance standard fresh s m)"
  assumes same: "(case t of None \<Rightarrow> standard | Some k \<Rightarrow> k) = (case s of None \<Rightarrow> standard | Some k \<Rightarrow> k)"
  shows "ci_serializer codec = (case s of None \<Rightarrow> standard | Some k \<Rightarrow> k)"
    "fst (GetInstance standard fresh' t (registry_requests standard later m')) = codec"
proof -
  have found: "map_of m' (case s of None \<Rightarrow> standard | Some k \<Rightarrow> k) = Some codec"
    unfolding m'_def codec_def by (rule GetInstance_found)
  have "registry_wf m'"
    unfolding m'_def m_def by (intro GetInstance_wf registry_requests_wf) (simp add: registry_wf_def)
  with found show "ci_serializer codec = (case s of None \<Rightarrow> standard | Some k \<Rightarrow> k)" by (simp add: registry_wf_def)
  show "fst (GetInstance standard fresh' t (registry_requests standard later m')) = codec"
    unfolding GetInstance_def Let_def same by (simp add: registry_requests_keeps [OF found])
qed

end
