(* ===== verification/Dl_Region.thy ===== *)
theory Dl_Region
  imports Prelude
begin

text \<open>
  \<open>display_list/geometry/dl_region.cc\<close>: a region of the plane as horizontal lines of spans.  The
  spans of a line are a chunk of one buffer, found by a handle.  Loops that may not end are
  \<open>partial_function (option)\<close>, where \<open>None\<close> is not returning.
\<close>

section \<open>Rectangles\<close>

text \<open>
  \<open>SkIRect\<close> is Skia's.  Its four coordinates are public; the member functions that the region code
  calls are fields of a record that the model takes as an argument, and \<open>SkIRect_docs\<close> states what
  Skia documents about them.
\<close>

record SkIRect =
  fLeft :: int
  fTop :: int
  fRight :: int
  fBottom :: int

abbreviation MakeLTRB :: "int \<Rightarrow> int \<Rightarrow> int \<Rightarrow> int \<Rightarrow> SkIRect" where
  "MakeLTRB l t r b \<equiv> \<lparr>fLeft = l, fTop = t, fRight = r, fBottom = b\<rparr>"

abbreviation MakeEmpty :: SkIRect where
  "MakeEmpty \<equiv> MakeLTRB 0 0 0 0"

record SkIRect_api =
  sk_isEmpty :: "SkIRect \<Rightarrow> bool"
  sk_join :: "SkIRect \<Rightarrow> SkIRect \<Rightarrow> SkIRect"
  sk_contains :: "SkIRect \<Rightarrow> SkIRect \<Rightarrow> bool"
  sk_Intersects :: "SkIRect \<Rightarrow> SkIRect \<Rightarrow> bool"
  sk_intersect :: "SkIRect \<Rightarrow> SkIRect \<Rightarrow> bool \<times> SkIRect"

definition kIntMin :: int where
  "kIntMin = - (2 ^ 31)"

section \<open>Span buffer\<close>

record Span =
  sp_left :: int
  sp_right :: int

abbreviation mk_span :: "int \<Rightarrow> int \<Rightarrow> Span" where
  "mk_span l r \<equiv> \<lparr>sp_left = l, sp_right = r\<rparr>"

text \<open>
  The buffer holds \<open>size_\<close> spans, the length of the list; \<open>spans_\<close> is null exactly while the
  capacity is 0.  Memory that \<open>realloc\<close> leaves uninitialised is written as zeros: the only such
  memory is the right end of a chunk's first span, which is never read.
\<close>

record SpanBuffer =
  sb_capacity :: nat
  sb_spans :: "Span list"

definition SpanBuffer_new :: SpanBuffer where
  "SpanBuffer_new = \<lparr>sb_capacity = 0, sb_spans = []\<rparr>"

definition reserve :: "nat \<Rightarrow> SpanBuffer \<Rightarrow> SpanBuffer" where
  "reserve capacity sb = (if sb_capacity sb < capacity then sb\<lparr>sb_capacity := capacity\<rparr> else sb)"

definition setChunkSize :: "nat \<Rightarrow> nat \<Rightarrow> SpanBuffer \<Rightarrow> SpanBuffer result" where
  "setChunkSize handle n sb =
     require DcheckFailed (handle < length (sb_spans sb))
       (require DcheckFailed (sb_capacity sb \<noteq> 0)
         (Inr (sb\<lparr>sb_spans := (sb_spans sb)[handle := (sb_spans sb ! handle)\<lparr>sp_left := int n\<rparr>]\<rparr>)))"

definition storeChunk :: "Span list \<Rightarrow> SpanBuffer \<Rightarrow> (nat \<times> SpanBuffer) result" where
  "storeChunk spans sb =
     (let chunk_size = length spans;
          min_capacity = length (sb_spans sb) + chunk_size + 1;
          sb = (if sb_capacity sb < min_capacity
                then reserve (max (max min_capacity (sb_capacity sb * 2)) 512) sb else sb);
          res = length (sb_spans sb);
          sb = sb\<lparr>sb_spans := sb_spans sb @ replicate (chunk_size + 1) (mk_span 0 0)\<rparr>
      in rbind (setChunkSize res chunk_size sb) (\<lambda>sb.
           Inr (res, sb\<lparr>sb_spans := take (res + 1) (sb_spans sb) @ spans\<rparr>)))"

definition getChunkSize :: "nat \<Rightarrow> SpanBuffer \<Rightarrow> nat result" where
  "getChunkSize handle sb =
     require DcheckFailed (handle < length (sb_spans sb)) (Inr (nat (sp_left (sb_spans sb ! handle))))"

definition getSpans :: "nat \<Rightarrow> SpanBuffer \<Rightarrow> Span list result" where
  "getSpans handle sb =
     require DcheckFailed (handle < length (sb_spans sb))
       (rbind (getChunkSize handle sb) (\<lambda>n.
          require Undefined (handle + 1 + n \<le> length (sb_spans sb))
            (Inr (take n (drop (handle + 1) (sb_spans sb))))))"

section \<open>Regions\<close>

record SpanLine =
  ln_top :: int
  ln_bottom :: int
  ln_chunk_handle :: nat

record DlRegion =
  rg_lines :: "SpanLine list"
  rg_bounds :: SkIRect
  rg_span_buffer :: SpanBuffer

definition DlRegion_empty :: DlRegion where
  "DlRegion_empty = \<lparr>rg_lines = [], rg_bounds = MakeEmpty, rg_span_buffer = SpanBuffer_new\<rparr>"

definition makeLine :: "int \<Rightarrow> int \<Rightarrow> Span list \<Rightarrow> DlRegion \<Rightarrow> (SpanLine \<times> DlRegion) result" where
  "makeLine t b spans rg =
     rbind (storeChunk spans (rg_span_buffer rg)) (\<lambda>(handle, sb).
       Inr (\<lparr>ln_top = t, ln_bottom = b, ln_chunk_handle = handle\<rparr>, rg\<lparr>rg_span_buffer := sb\<rparr>))"

definition push_line :: "int \<Rightarrow> int \<Rightarrow> Span list \<Rightarrow> DlRegion \<Rightarrow> DlRegion result" where
  "push_line t b spans rg =
     rbind (makeLine t b spans rg) (\<lambda>(line, rg). Inr (rg\<lparr>rg_lines := rg_lines rg @ [line]\<rparr>))"

definition DlRegion_of_rect :: "SkIRect \<Rightarrow> DlRegion result" where
  "DlRegion_of_rect rect =
     push_line (fTop rect) (fBottom rect) [mk_span (fLeft rect) (fRight rect)] (DlRegion_empty\<lparr>rg_bounds := rect\<rparr>)"

definition spansEqual :: "SpanLine \<Rightarrow> Span list \<Rightarrow> DlRegion \<Rightarrow> bool result" where
  "spansEqual line spans rg =
     rbind (getSpans (ln_chunk_handle line) (rg_span_buffer rg)) (\<lambda>ours.
       Inr (if length ours \<noteq> length spans then False else ours = spans))"

definition set_last_bottom :: "int \<Rightarrow> DlRegion \<Rightarrow> DlRegion" where
  "set_last_bottom b rg =
     rg\<lparr>rg_lines := butlast (rg_lines rg) @ [(last (rg_lines rg))\<lparr>ln_bottom := b\<rparr>]\<rparr>"

definition appendLine :: "int \<Rightarrow> int \<Rightarrow> Span list \<Rightarrow> DlRegion \<Rightarrow> DlRegion result" where
  "appendLine t b spans rg =
     (if rg_lines rg = [] then push_line t b spans rg
      else if ln_bottom (last (rg_lines rg)) = t then
        rbind (spansEqual (last (rg_lines rg)) spans rg) (\<lambda>eq.
          if eq then Inr (set_last_bottom b rg) else push_line t b spans rg)
      else push_line t b spans rg)"

definition appendLine_chunk :: "int \<Rightarrow> int \<Rightarrow> SpanBuffer \<Rightarrow> nat \<Rightarrow> DlRegion \<Rightarrow> DlRegion result" where
  "appendLine_chunk t b buffer handle rg = rbind (getSpans handle buffer) (\<lambda>spans. appendLine t b spans rg)"

definition rg_isEmpty :: "DlRegion \<Rightarrow> bool" where
  "rg_isEmpty rg = (rg_lines rg = [])"

definition isComplex :: "DlRegion \<Rightarrow> bool result" where
  "isComplex rg =
     (if length (rg_lines rg) > 1 then Inr True
      else if length (rg_lines rg) = 1 then
        rbind (getChunkSize (ln_chunk_handle (hd (rg_lines rg))) (rg_span_buffer rg)) (\<lambda>n. Inr (n > 1))
      else Inr False)"

definition isSimple :: "DlRegion \<Rightarrow> bool result" where
  "isSimple rg = rbind (isComplex rg) (\<lambda>c. Inr (\<not> c))"

subsection \<open>Operations on spans\<close>

text \<open>\<open>OrderedSpanAccumulator\<close>: the valid part of \<open>res\<close>, and \<open>last_\<close>.\<close>

definition accumulate :: "Span \<Rightarrow> Span list \<times> int \<Rightarrow> Span list \<times> int" where
  "accumulate span = (\<lambda>(res, last).
     if sp_left span > last \<or> length res = 0 then (res @ [span], sp_right span)
     else if sp_right span > last then
       (res[length res - 1 := (res ! (length res - 1))\<lparr>sp_right := sp_right span\<rparr>], sp_right span)
     else (res, last))"

fun union_spans :: "Span list \<Rightarrow> Span list \<Rightarrow> Span list \<times> int \<Rightarrow> Span list result" where
  "union_spans (s # ss) (t # ts) acc =
     (if sp_left s < sp_left t then
        (if ss = [] then Inr (fst (fold accumulate (t # ts) (accumulate s acc)))
         else union_spans ss (t # ts) (accumulate s acc))
      else
        (if ts = [] then Inr (fst (fold accumulate (s # ss) (accumulate t acc)))
         else union_spans (s # ss) ts (accumulate t acc)))"
| "union_spans _ _ acc = Inl Undefined"

definition unionLineSpans :: "SpanBuffer \<Rightarrow> nat \<Rightarrow> SpanBuffer \<Rightarrow> nat \<Rightarrow> Span list result" where
  "unionLineSpans a_buffer a_handle b_buffer b_handle =
     rbind (getSpans a_handle a_buffer) (\<lambda>ss.
     rbind (getSpans b_handle b_buffer) (\<lambda>ts. union_spans ss ts ([], kIntMin)))"

text \<open>
  The result of \<open>intersectLineSpans\<close> is written to a vector of the given size; the check that the
  next span has a place in it is part of the loop.
\<close>

function intersect_spans :: "nat \<Rightarrow> Span list \<Rightarrow> Span list \<Rightarrow> Span list \<Rightarrow> Span list result" where
  "intersect_spans res_size (s # ss) (t # ts) res =
     (if sp_right s \<le> sp_left t then intersect_spans res_size ss (t # ts) res
      else if sp_right t \<le> sp_left s then intersect_spans res_size (s # ss) ts res
      else
        let left = max (sp_left s) (sp_left t); right = min (sp_right s) (sp_right t)
        in require DcheckFailed (left < right)
             (require DcheckFailed (length res < res_size)
               (intersect_spans res_size (if sp_right s = right then ss else s # ss)
                  (if sp_right t = right then ts else t # ts) (res @ [mk_span left right]))))"
| "intersect_spans res_size [] ts res = Inr res"
| "intersect_spans res_size (s # ss) [] res = Inr res"
  by pat_completeness auto

termination
  by (relation "measure (\<lambda>(_, ss, ts, _). length ss + length ts)") (auto simp: min_def)

definition intersectLineSpans ::
  "nat \<Rightarrow> SpanBuffer \<Rightarrow> nat \<Rightarrow> SpanBuffer \<Rightarrow> nat \<Rightarrow> (Span list \<times> nat) result" where
  "intersectLineSpans res_size a_buffer a_handle b_buffer b_handle =
     rbind (getSpans a_handle a_buffer) (\<lambda>ss.
     rbind (getSpans b_handle b_buffer) (\<lambda>ts.
       let res_size = max res_size (length ss + length ts - 1)
       in rbind (intersect_spans res_size ss ts []) (\<lambda>res. Inr (res, res_size))))"

fun spansIntersect :: "Span list \<Rightarrow> Span list \<Rightarrow> bool" where
  "spansIntersect (s # ss) (t # ts) =
     (if sp_right s \<le> sp_left t then spansIntersect ss (t # ts)
      else if sp_right t \<le> sp_left s then spansIntersect (s # ss) ts
      else True)"
| "spansIntersect _ _ = False"

subsection \<open>Union\<close>

definition append_line_from :: "int \<Rightarrow> SpanBuffer \<Rightarrow> SpanLine \<Rightarrow> DlRegion \<Rightarrow> DlRegion result" where
  "append_line_from cur_top buffer l rg =
     appendLine_chunk (max cur_top (ln_top l)) (ln_bottom l) buffer (ln_chunk_handle l) rg"

fun append_rest :: "int \<Rightarrow> SpanBuffer \<Rightarrow> SpanLine list \<Rightarrow> DlRegion \<Rightarrow> DlRegion result" where
  "append_rest cur_top buffer [] rg = Inr rg"
| "append_rest cur_top buffer (l # ls) rg =
     rbind (append_line_from cur_top buffer l rg) (append_rest cur_top buffer ls)"

text \<open>\<open>++it\<close> when the line ends at \<open>cur_top\<close>.\<close>

definition advance :: "int \<Rightarrow> SpanLine list \<Rightarrow> SpanLine list" where
  "advance cur_top ls = (case ls of [] \<Rightarrow> [] | l # rest \<Rightarrow> if cur_top = ln_bottom l then rest else ls)"

text \<open>
  A pass takes a line, or makes the two heads start at the same height, after which the next pass
  takes a line.
\<close>

definition uneven :: "int \<Rightarrow> SpanLine list \<Rightarrow> SpanLine list \<Rightarrow> nat" where
  "uneven cur_top as bs =
     (case (as, bs) of (a # _, b # _) \<Rightarrow> if max cur_top (ln_top a) = max cur_top (ln_top b) then 0 else 1 | _ \<Rightarrow> 0)"

function union_lines :: "SpanBuffer \<Rightarrow> SpanBuffer \<Rightarrow> int \<Rightarrow> SpanLine list \<Rightarrow> SpanLine list \<Rightarrow> DlRegion \<Rightarrow> DlRegion result" where
  "union_lines a_buffer b_buffer cur_top (a # as) (b # bs) res =
     (let a_top = max cur_top (ln_top a); b_top = max cur_top (ln_top b)
      in if ln_bottom a \<le> b_top then
           rbind (append_line_from cur_top a_buffer a res) (union_lines a_buffer b_buffer cur_top as (b # bs))
         else if ln_bottom b \<le> a_top then
           rbind (append_line_from cur_top b_buffer b res) (union_lines a_buffer b_buffer cur_top (a # as) bs)
         else if a_top < b_top then
           rbind (appendLine_chunk a_top b_top a_buffer (ln_chunk_handle a) res)
             (union_lines a_buffer b_buffer b_top (advance b_top (a # as)) (b # bs))
         else if b_top < a_top then
           rbind (appendLine_chunk b_top a_top b_buffer (ln_chunk_handle b) res)
             (union_lines a_buffer b_buffer a_top (a # as) (advance a_top (b # bs)))
         else
           let new_bottom = min (ln_bottom a) (ln_bottom b)
           in require DcheckFailed (a_top = b_top \<and> new_bottom > a_top \<and> new_bottom > b_top)
                (rbind (unionLineSpans a_buffer (ln_chunk_handle a) b_buffer (ln_chunk_handle b)) (\<lambda>spans.
                 rbind (appendLine a_top new_bottom spans res)
                   (union_lines a_buffer b_buffer new_bottom
                      (advance new_bottom (a # as)) (advance new_bottom (b # bs))))))"
| "union_lines a_buffer b_buffer cur_top [] bs res = append_rest cur_top b_buffer bs res"
| "union_lines a_buffer b_buffer cur_top (a # as) [] res = append_rest cur_top a_buffer (a # as) res"
  by pat_completeness auto

termination
  by (relation "measures [\<lambda>(_, _, _, as, bs, _). length as + length bs, \<lambda>(_, _, cur_top, as, bs, _). uneven cur_top as bs]")
    (auto simp: uneven_def advance_def min_def)

definition MakeUnion :: "SkIRect_api \<Rightarrow> DlRegion \<Rightarrow> DlRegion \<Rightarrow> DlRegion result" where
  "MakeUnion sk a b =
     (if rg_isEmpty a then Inr b
      else if rg_isEmpty b then Inr a
      else
        rbind (isSimple a) (\<lambda>a_simple.
        if a_simple \<and> sk_contains sk (rg_bounds a) (rg_bounds b) then Inr a
        else
        rbind (isSimple b) (\<lambda>b_simple.
        if b_simple \<and> sk_contains sk (rg_bounds b) (rg_bounds a) then Inr b
        else
          union_lines (rg_span_buffer a) (rg_span_buffer b) kIntMin (rg_lines a) (rg_lines b)
            \<lparr>rg_lines = [], rg_bounds = sk_join sk (rg_bounds a) (rg_bounds b),
             rg_span_buffer =
               reserve (sb_capacity (rg_span_buffer a) + sb_capacity (rg_span_buffer b)) SpanBuffer_new\<rparr>)))"

subsection \<open>Intersection\<close>

definition kBinarySearchThreshold :: nat where
  "kBinarySearchThreshold = 10"

text \<open>\<open>std::lower_bound\<close>: the part of the sequence from the position it returns.\<close>

function lower_bound :: "('a \<Rightarrow> bool) \<Rightarrow> 'a list \<Rightarrow> 'a list" where
  "lower_bound P xs =
     (if xs = [] then []
      else
        let half = length xs div 2
        in if P (xs ! half) then lower_bound P (drop (half + 1) xs)
           else lower_bound P (take half xs) @ drop half xs)"
  by pat_completeness auto

termination
proof (relation "measure (\<lambda>(_, xs). length xs)")
  fix P :: "'a \<Rightarrow> bool" and xs :: "'a list" and half
  assume "xs \<noteq> []" and half: "half = length xs div 2"
  then have "0 < length xs" by simp
  with half have "half < length xs" "0 < length xs" by linarith+
  then show "((P, drop (half + 1) xs), P, xs) \<in> measure (\<lambda>(_, xs). length xs)"
    "((P, take half xs), P, xs) \<in> measure (\<lambda>(_, xs). length xs)" by simp_all
qed simp

declare lower_bound.simps [simp del]

definition getIntersectionIterators ::
  "SpanLine list \<Rightarrow> SpanLine list \<Rightarrow> (SpanLine list \<times> SpanLine list) result" where
  "getIntersectionIterators a_lines b_lines =
     require DcheckFailed (a_lines \<noteq> [] \<and> b_lines \<noteq> [])
       (if length a_lines > kBinarySearchThreshold \<and>
            ln_bottom (a_lines ! kBinarySearchThreshold) \<le> ln_top (hd b_lines) then
          Inr (lower_bound (\<lambda>l. ln_bottom l \<le> ln_top (hd b_lines)) (drop (kBinarySearchThreshold + 1) a_lines), b_lines)
        else if length b_lines > kBinarySearchThreshold \<and>
            ln_bottom (b_lines ! kBinarySearchThreshold) \<le> ln_top (hd a_lines) then
          Inr (a_lines, lower_bound (\<lambda>l. ln_bottom l \<le> ln_top (hd a_lines)) (drop (kBinarySearchThreshold + 1) b_lines))
        else Inr (a_lines, b_lines))"

definition append_intersection :: "SkIRect_api \<Rightarrow> int \<Rightarrow> int \<Rightarrow> Span list \<Rightarrow> DlRegion \<Rightarrow> DlRegion result" where
  "append_intersection sk t b spans res =
     (if length spans > 0 then
        rbind (appendLine t b spans res) (\<lambda>res.
          Inr (res\<lparr>rg_bounds := sk_join sk (rg_bounds res) (MakeLTRB (sp_left (hd spans)) t (sp_right (last spans)) b)\<rparr>))
      else Inr res)"

function intersect_lines :: "SkIRect_api \<Rightarrow> SpanBuffer \<Rightarrow> SpanBuffer \<Rightarrow> nat \<Rightarrow> int \<Rightarrow>
    SpanLine list \<Rightarrow> SpanLine list \<Rightarrow> DlRegion \<Rightarrow> DlRegion result" where
  "intersect_lines sk a_buffer b_buffer tmp_size cur_top (a # as) (b # bs) res =
     (let a_top = max cur_top (ln_top a); b_top = max cur_top (ln_top b)
      in if ln_bottom a \<le> b_top then intersect_lines sk a_buffer b_buffer tmp_size cur_top as (b # bs) res
         else if ln_bottom b \<le> a_top then intersect_lines sk a_buffer b_buffer tmp_size cur_top (a # as) bs res
         else
           let t = max a_top b_top; bottom = min (ln_bottom a) (ln_bottom b)
           in require DcheckFailed (t < bottom)
                (rbind (intersectLineSpans tmp_size a_buffer (ln_chunk_handle a) b_buffer (ln_chunk_handle b))
                  (\<lambda>(spans, tmp_size).
                    rbind (append_intersection sk t bottom spans res)
                      (intersect_lines sk a_buffer b_buffer tmp_size bottom
                         (advance bottom (a # as)) (advance bottom (b # bs))))))"
| "intersect_lines sk a_buffer b_buffer tmp_size cur_top [] bs res = Inr res"
| "intersect_lines sk a_buffer b_buffer tmp_size cur_top (a # as) [] res = Inr res"
  by pat_completeness auto

termination
  by (relation "measure (\<lambda>(_, _, _, _, _, as, bs, _). length as + length bs)") (auto simp: advance_def min_def)

definition MakeIntersection :: "SkIRect_api \<Rightarrow> DlRegion \<Rightarrow> DlRegion \<Rightarrow> DlRegion result" where
  "MakeIntersection sk a b =
     (if \<not> sk_Intersects sk (rg_bounds a) (rg_bounds b) then Inr DlRegion_empty
      else
        rbind (isSimple a) (\<lambda>a_simple.
        rbind (isSimple b) (\<lambda>b_simple.
        if a_simple \<and> b_simple then
          let (res, r) = sk_intersect sk (rg_bounds a) (rg_bounds b)
          in require DcheckFailed res (DlRegion_of_rect r)
        else if a_simple \<and> sk_contains sk (rg_bounds a) (rg_bounds b) then Inr b
        else if b_simple \<and> sk_contains sk (rg_bounds b) (rg_bounds a) then Inr a
        else
          rbind (getIntersectionIterators (rg_lines a) (rg_lines b)) (\<lambda>(a_it, b_it).
            intersect_lines sk (rg_span_buffer a) (rg_span_buffer b) 0 kIntMin a_it b_it
              \<lparr>rg_lines = [], rg_bounds = MakeEmpty,
               rg_span_buffer =
                 reserve (max (sb_capacity (rg_span_buffer a)) (sb_capacity (rg_span_buffer b))) SpanBuffer_new\<rparr>))))"

subsection \<open>Rectangles of a region\<close>

text \<open>The search for a rectangle that the next one continues, down from \<open>previous_span_end\<close>.\<close>

fun deband_find :: "SkIRect list \<Rightarrow> SkIRect \<Rightarrow> nat \<Rightarrow> nat option result" where
  "deband_find rects rect 0 = Inr None"
| "deband_find rects rect (Suc i) =
     (if fBottom (rects ! i) < fTop rect then Inr None
      else if fLeft (rects ! i) = fLeft rect \<and> fRight (rects ! i) = fRight rect then
        require DcheckFailed (fBottom (rects ! i) = fTop rect) (Inr (Some i))
      else deband_find rects rect i)"

definition add_rect :: "bool \<Rightarrow> SkIRect \<Rightarrow> SkIRect list \<times> nat \<Rightarrow> (SkIRect list \<times> nat) result" where
  "add_rect deband rect = (\<lambda>(rects, previous_span_end).
     if deband then
       rbind (deband_find rects rect previous_span_end) (\<lambda>found.
         case found of
           None \<Rightarrow> Inr (rects @ [rect], previous_span_end)
         | Some i \<Rightarrow>
             Inr (take i rects @ drop (i + 1) rects @ [rect\<lparr>fTop := fTop (rects ! i)\<rparr>], previous_span_end - 1))
     else Inr (rects @ [rect], previous_span_end))"

fun add_rects :: "bool \<Rightarrow> SkIRect list \<Rightarrow> SkIRect list \<times> nat \<Rightarrow> (SkIRect list \<times> nat) result" where
  "add_rects deband [] st = Inr st"
| "add_rects deband (r # rs) st = rbind (add_rect deband r st) (add_rects deband rs)"

fun lines_rects :: "bool \<Rightarrow> SpanBuffer \<Rightarrow> SpanLine list \<Rightarrow> SkIRect list \<times> nat \<Rightarrow> (SkIRect list \<times> nat) result" where
  "lines_rects deband buffer [] st = Inr st"
| "lines_rects deband buffer (l # ls) st =
     rbind (getSpans (ln_chunk_handle l) buffer) (\<lambda>spans.
     rbind (add_rects deband
         (map (\<lambda>s. MakeLTRB (sp_left s) (ln_top l) (sp_right s) (ln_bottom l)) spans) st) (\<lambda>(rects, _).
       lines_rects deband buffer ls (rects, length rects)))"

definition getRects :: "bool \<Rightarrow> DlRegion \<Rightarrow> SkIRect list result" where
  "getRects deband rg =
     (if rg_isEmpty rg then Inr []
      else
        rbind (isSimple rg) (\<lambda>simple.
        if simple then Inr [rg_bounds rg]
        else rbind (lines_rects deband (rg_span_buffer rg) (rg_lines rg) ([], 0)) (\<lambda>(rects, _). Inr rects)))"

subsection \<open>Intersection tests\<close>

fun rect_meets_spans :: "SkIRect \<Rightarrow> Span list \<Rightarrow> bool" where
  "rect_meets_spans rect [] = False"
| "rect_meets_spans rect (s # ss) =
     (if sp_left s < fRight rect then sp_right s > fLeft rect \<or> rect_meets_spans rect ss else False)"

fun rect_meets_lines :: "SkIRect \<Rightarrow> SpanBuffer \<Rightarrow> SpanLine list \<Rightarrow> bool result" where
  "rect_meets_lines rect buffer [] = Inr False"
| "rect_meets_lines rect buffer (l # ls) =
     (if ln_top l < fBottom rect then
        require DcheckFailed (fTop rect < ln_bottom l \<and> ln_top l < fBottom rect)
          (rbind (getSpans (ln_chunk_handle l) buffer) (\<lambda>spans.
            if rect_meets_spans rect spans then Inr True else rect_meets_lines rect buffer ls))
      else Inr False)"

definition first_line :: "SkIRect \<Rightarrow> SpanLine list \<Rightarrow> SpanLine list" where
  "first_line rect ls =
     (if length ls > kBinarySearchThreshold \<and> ln_bottom (ls ! kBinarySearchThreshold) \<le> fTop rect
      then lower_bound (\<lambda>l. ln_bottom l \<le> fTop rect) (drop (kBinarySearchThreshold + 1) ls)
      else dropWhile (\<lambda>l. ln_bottom l \<le> fTop rect) ls)"

definition intersects_rect :: "SkIRect_api \<Rightarrow> SkIRect \<Rightarrow> DlRegion \<Rightarrow> bool result" where
  "intersects_rect sk rect rg =
     (if rg_isEmpty rg then Inr False
      else
        rbind (isSimple rg) (\<lambda>simple.
        if simple then Inr (sk_Intersects sk (rg_bounds rg) rect)
        else if \<not> sk_Intersects sk (rg_bounds rg) rect then Inr False
        else rect_meets_lines rect (rg_span_buffer rg) (first_line rect (rg_lines rg))))"

fun lines_meet :: "SpanBuffer \<Rightarrow> SpanBuffer \<Rightarrow> SpanLine list \<Rightarrow> SpanLine list \<Rightarrow> bool result" where
  "lines_meet a_buffer b_buffer (a # as) (b # bs) =
     (if ln_bottom a \<le> ln_top b then lines_meet a_buffer b_buffer as (b # bs)
      else if ln_bottom b \<le> ln_top a then lines_meet a_buffer b_buffer (a # as) bs
      else
        require DcheckFailed (ln_top a < ln_bottom b \<and> ln_top b < ln_bottom a)
          (rbind (getSpans (ln_chunk_handle a) a_buffer) (\<lambda>ss.
           rbind (getSpans (ln_chunk_handle b) b_buffer) (\<lambda>ts.
             if spansIntersect ss ts then Inr True
             else if ln_bottom a < ln_bottom b then lines_meet a_buffer b_buffer as (b # bs)
             else lines_meet a_buffer b_buffer (a # as) bs))))"
| "lines_meet a_buffer b_buffer as bs = Inr False"

definition intersects_region :: "SkIRect_api \<Rightarrow> DlRegion \<Rightarrow> DlRegion \<Rightarrow> bool result" where
  "intersects_region sk rg region =
     (if rg_isEmpty rg \<or> rg_isEmpty region then Inr False
      else
        rbind (isComplex rg) (\<lambda>our_complex.
        rbind (isComplex region) (\<lambda>their_complex.
        let bounds_intersect = sk_Intersects sk (rg_bounds rg) (rg_bounds region)
        in if \<not> our_complex \<and> \<not> their_complex then Inr bounds_intersect
           else if \<not> bounds_intersect then Inr False
           else if \<not> our_complex then intersects_rect sk (rg_bounds rg) region
           else if \<not> their_complex then intersects_rect sk (rg_bounds region) rg
           else
             rbind (getIntersectionIterators (rg_lines rg) (rg_lines region)) (\<lambda>(ours, theirs).
               lines_meet (rg_span_buffer rg) (rg_span_buffer region) ours theirs))))"

subsection \<open>Bulk construction\<close>

text \<open>
  \<open>setRects\<close> works in one array: its first \<open>active_end\<close> entries are the active rectangles, the
  entries from \<open>next_rect\<close> on the ones not reached yet.  Each insertion moves both bounds, so
  \<open>active_end \<le> next_rect\<close> and the two parts, which are lists here, never overlap.
\<close>

text \<open>Insertion behind the active rectangles that start at the same place or further left.\<close>

definition insert_active :: "SkIRect \<Rightarrow> SkIRect list \<Rightarrow> SkIRect list" where
  "insert_active r active =
     (let right = rev (takeWhile (\<lambda>ir. \<not> fLeft ir \<le> fLeft r) (rev active))
      in take (length active - length right) active @ r # right)"

text \<open>The loop that brings new rectangles in; an empty rectangle makes it run forever.\<close>

partial_function (option) insert_rects ::
  "SkIRect_api \<Rightarrow> int \<Rightarrow> SkIRect list \<Rightarrow> SkIRect list \<Rightarrow> (SkIRect list \<times> SkIRect list) option" where
  "insert_rects sk cur_y active pending =
     (case pending of
        [] \<Rightarrow> Some (active, [])
      | r # rs \<Rightarrow>
          if sk_isEmpty sk r then insert_rects sk cur_y active pending
          else if fTop r > cur_y then Some (active, pending)
          else insert_rects sk cur_y (insert_active r active) rs)"

declare insert_rects.simps [code]

text \<open>The spans of the active rectangles, and the lowest \<open>bottom\<close> among them.\<close>

fun merge_active :: "int \<Rightarrow> int \<Rightarrow> int \<Rightarrow> Span list \<Rightarrow> SkIRect list \<Rightarrow> Span list \<times> int" where
  "merge_active start_x end_x end_y spans [] = (spans @ [mk_span start_x end_x], end_y)"
| "merge_active start_x end_x end_y spans (r # rs) =
     (let end_y' = (if end_y > fBottom r then fBottom r else end_y)
      in if fLeft r > end_x then
           merge_active (fLeft r) (fRight r) end_y' (spans @ [mk_span start_x end_x]) rs
         else merge_active start_x (if end_x < fRight r then fRight r else end_x) end_y' spans rs)"

definition working_spans :: "SkIRect list \<Rightarrow> Span list \<times> int" where
  "working_spans active = merge_active (fLeft (hd active)) (fRight (hd active)) (fBottom (hd active)) [] (tl active)"

text \<open>One pass of the sweep below \<open>cur_y\<close>, and where it ends.\<close>

definition sweep_line :: "int \<Rightarrow> SkIRect list \<Rightarrow> SkIRect list \<Rightarrow> DlRegion \<Rightarrow> (int \<times> DlRegion) result" where
  "sweep_line cur_y active pending rg =
     require DcheckFailed (active \<noteq> [])
       (let (spans, end_y) = working_spans active;
            end_y = (if pending \<noteq> [] \<and> end_y > fTop (hd pending) then fTop (hd pending) else end_y)
        in require DcheckFailed (end_y > cur_y)
             (rbind (appendLine cur_y end_y spans rg) (\<lambda>rg. Inr (end_y, rg))))"

partial_function (option) sweep ::
  "SkIRect_api \<Rightarrow> int \<Rightarrow> SkIRect list \<Rightarrow> SkIRect list \<Rightarrow> DlRegion \<Rightarrow> DlRegion result option" where
  "sweep sk cur_y active pending rg =
     (if active = [] \<and> pending = [] then Some (Inr rg)
      else
        let active = filter (\<lambda>r. fBottom r > cur_y) active
        in if active = [] \<and> pending = [] then Some (Inr rg)
           else
             let cur_y = (if active = [] then fTop (hd pending) else cur_y)
             in Option.bind (insert_rects sk cur_y active pending) (\<lambda>(active, pending).
                  case sweep_line cur_y active pending rg of
                    Inl e \<Rightarrow> Some (Inl e)
                  | Inr (cur_y, rg) \<Rightarrow> sweep sk cur_y active pending rg))"

declare sweep.simps [code]

text \<open>\<open>std::sort\<close> by top and then left; its order of equal elements is not specified.\<close>

definition rect_order :: "SkIRect list \<Rightarrow> SkIRect list" where
  "rect_order rects = sort_key (\<lambda>r. (fTop r, fLeft r)) rects"

definition setRects :: "SkIRect_api \<Rightarrow> SkIRect list \<Rightarrow> DlRegion \<Rightarrow> DlRegion result option" where
  "setRects sk rects rg =
     (if rg_lines rg \<noteq> [] then Some (Inl DcheckFailed)
      else sweep sk kIntMin [] (rect_order rects) (rg\<lparr>rg_bounds := foldl (sk_join sk) (rg_bounds rg) rects\<rparr>))"

definition DlRegion_of_rects :: "SkIRect_api \<Rightarrow> SkIRect list \<Rightarrow> DlRegion result option" where
  "DlRegion_of_rects sk rects = setRects sk rects DlRegion_empty"

end
