(* ===== verification/Dl_Region_Inv.thy ===== *)
theory Dl_Region_Inv
  imports Dl_Region
begin

text \<open>
  What a region means: the points it covers.  The invariant of regions (canonical lines and spans,
  valid handles, exact bounds), what Skia documents about rectangles, and the lemmas on the span
  buffer and \<open>appendLine\<close> that the loops of the region operations rest on.
\<close>

section \<open>Rectangles as Skia documents them\<close>

definition rect_empty :: "SkIRect \<Rightarrow> bool" where
  "rect_empty r = (fRight r \<le> fLeft r \<or> fBottom r \<le> fTop r)"

definition rect_meet :: "SkIRect \<Rightarrow> SkIRect \<Rightarrow> SkIRect" where
  "rect_meet a b =
     MakeLTRB (max (fLeft a) (fLeft b)) (max (fTop a) (fTop b)) (min (fRight a) (fRight b)) (min (fBottom a) (fBottom b))"

definition rect_hull :: "SkIRect \<Rightarrow> SkIRect \<Rightarrow> SkIRect" where
  "rect_hull a b =
     MakeLTRB (min (fLeft a) (fLeft b)) (min (fTop a) (fTop b)) (max (fRight a) (fRight b)) (max (fBottom a) (fBottom b))"

text \<open>
  \<open>isEmpty\<close>: the width or the height is zero or negative.  \<open>join\<close>: the union, without effect for
  an empty argument, the argument for an empty receiver.  \<open>contains\<close>, \<open>Intersects\<close>: false if either
  rectangle is empty.  \<open>intersect\<close>: true, and the intersection, if the rectangles intersect; else
  false, and the receiver unchanged.
\<close>

definition SkIRect_docs :: "SkIRect_api \<Rightarrow> bool" where
  "SkIRect_docs sk =
     ((\<forall>r. sk_isEmpty sk r = rect_empty r) \<and>
      (\<forall>a b. sk_join sk a b = (if rect_empty b then a else if rect_empty a then b else rect_hull a b)) \<and>
      (\<forall>a b. sk_contains sk a b = (\<not> rect_empty a \<and> \<not> rect_empty b \<and>
         fLeft a \<le> fLeft b \<and> fTop a \<le> fTop b \<and> fRight b \<le> fRight a \<and> fBottom b \<le> fBottom a)) \<and>
      (\<forall>a b. sk_Intersects sk a b = (\<not> rect_empty a \<and> \<not> rect_empty b \<and> \<not> rect_empty (rect_meet a b))) \<and>
      (\<forall>a b. sk_intersect sk a b = (if sk_Intersects sk a b then (True, rect_meet a b) else (False, a))))"

definition in_rect :: "SkIRect \<Rightarrow> int \<Rightarrow> int \<Rightarrow> bool" where
  "in_rect r x y = (fLeft r \<le> x \<and> x < fRight r \<and> fTop r \<le> y \<and> y < fBottom r)"

lemma rect_empty_iff: "rect_empty r \<longleftrightarrow> (\<forall>x y. \<not> in_rect r x y)"
proof
  assume "\<forall>x y. \<not> in_rect r x y"
  then have "\<not> in_rect r (fLeft r) (fTop r)" by blast
  then show "rect_empty r" by (auto simp: in_rect_def rect_empty_def)
qed (auto simp: in_rect_def rect_empty_def)

lemma in_rect_meet [simp]: "in_rect (rect_meet a b) x y \<longleftrightarrow> in_rect a x y \<and> in_rect b x y"
  by (auto simp: in_rect_def rect_meet_def)

lemma rect_meet_empty: "rect_empty (rect_meet a b) \<longleftrightarrow> (\<forall>x y. \<not> (in_rect a x y \<and> in_rect b x y))"
  by (simp add: rect_empty_iff)

lemma sk_Intersects_iff:
  "SkIRect_docs sk \<Longrightarrow> sk_Intersects sk a b \<longleftrightarrow> (\<exists>x y. in_rect a x y \<and> in_rect b x y)"
  by (auto simp: SkIRect_docs_def rect_meet_empty rect_empty_iff)

lemma sk_contains_in:
  "SkIRect_docs sk \<Longrightarrow> sk_contains sk a b \<Longrightarrow> in_rect b x y \<Longrightarrow> in_rect a x y"
  by (auto simp: SkIRect_docs_def in_rect_def)

section \<open>Points of a region\<close>

type_synonym band = "int \<times> int \<times> Span list"

definition in_spans :: "int \<Rightarrow> Span list \<Rightarrow> bool" where
  "in_spans x ss = (\<exists>s\<in>set ss. sp_left s \<le> x \<and> x < sp_right s)"

definition band_covers :: "band \<Rightarrow> int \<Rightarrow> int \<Rightarrow> bool" where
  "band_covers l x y = (fst l \<le> y \<and> y < fst (snd l) \<and> in_spans x (snd (snd l)))"

definition covers :: "band list \<Rightarrow> int \<Rightarrow> int \<Rightarrow> bool" where
  "covers bs x y = (\<exists>l\<in>set bs. band_covers l x y)"

lemma in_spans_simps [simp]:
  "\<not> in_spans x []" "in_spans x (s # ss) \<longleftrightarrow> sp_left s \<le> x \<and> x < sp_right s \<or> in_spans x ss"
  "in_spans x (ss @ ts) \<longleftrightarrow> in_spans x ss \<or> in_spans x ts"
  by (auto simp: in_spans_def)

lemma band_covers_simp [simp]: "band_covers (t, b, ss) x y \<longleftrightarrow> t \<le> y \<and> y < b \<and> in_spans x ss"
  by (simp add: band_covers_def)

lemma covers_simps [simp]:
  "\<not> covers [] x y" "covers (l # bs) x y \<longleftrightarrow> band_covers l x y \<or> covers bs x y"
  "covers (bs @ cs) x y \<longleftrightarrow> covers bs x y \<or> covers cs x y"
  by (auto simp: covers_def)

subsection \<open>Canonical spans and lines\<close>

definition span_ok :: "Span \<Rightarrow> bool" where
  "span_ok s = (sp_left s < sp_right s)"

definition span_before :: "Span \<Rightarrow> Span \<Rightarrow> bool" where
  "span_before s t = (sp_right s < sp_left t)"

definition wf_spans :: "Span list \<Rightarrow> bool" where
  "wf_spans ss = (ss \<noteq> [] \<and> list_all span_ok ss \<and> sorted_wrt span_before ss)"

definition band_ok :: "band \<Rightarrow> bool" where
  "band_ok = (\<lambda>(t, b, ss). kIntMin \<le> t \<and> t < b \<and> wf_spans ss)"

definition band_before :: "band \<Rightarrow> band \<Rightarrow> bool" where
  "band_before l m = (fst (snd l) \<le> fst m)"

definition band_differs :: "band \<Rightarrow> band \<Rightarrow> bool" where
  "band_differs l m = (\<not> (fst (snd l) = fst m \<and> snd (snd l) = snd (snd m)))"

definition wf_bands :: "band list \<Rightarrow> bool" where
  "wf_bands bs = (list_all band_ok bs \<and> sorted_wrt band_before bs \<and> successively band_differs bs)"

lemma wf_bands_Nil [simp]: "wf_bands []"
  by (simp add: wf_bands_def)

lemma wf_bands_ConsD:
  assumes "wf_bands ((t, b, ss) # bs)"
  shows "kIntMin \<le> t" "t < b" "wf_spans ss" "wf_bands bs" "\<And>l. l \<in> set bs \<Longrightarrow> b \<le> fst l"
  using assms by (auto simp: wf_bands_def band_ok_def band_before_def successively_Cons)

lemma wf_bands_snoc:
  assumes "wf_bands bs" "kIntMin \<le> t" "t < b" "wf_spans ss" "\<And>l. l \<in> set bs \<Longrightarrow> fst (snd l) \<le> t"
    and "bs \<noteq> [] \<Longrightarrow> fst (snd (last bs)) = t \<Longrightarrow> snd (snd (last bs)) \<noteq> ss"
  shows "wf_bands (bs @ [(t, b, ss)])"
  using assms
  by (auto simp: wf_bands_def band_ok_def band_before_def band_differs_def sorted_wrt_append successively_append_iff)

lemma wf_bands_last_bottom:
  assumes "wf_bands (bs @ [(t, b, ss)])" "b < b'"
  shows "wf_bands (bs @ [(t, b', ss)])"
  using assms
  by (auto simp: wf_bands_def band_ok_def band_before_def band_differs_def sorted_wrt_append successively_append_iff)

lemma covers_above:
  "(\<And>l. l \<in> set bs \<Longrightarrow> b \<le> fst l) \<Longrightarrow> covers bs x y \<Longrightarrow> b \<le> y"
  by (force simp: covers_def band_covers_def)

lemma wf_bands_bottom:
  assumes "wf_bands (m # bs)" "l \<in> set bs"
  shows "fst (snd m) < fst (snd l)"
proof -
  have "band_ok l" "fst (snd m) \<le> fst l"
    using assms by (auto simp: wf_bands_def list_all_iff band_before_def)
  then show ?thesis by (auto simp: band_ok_def split: prod.splits)
qed

section \<open>The span buffer\<close>

definition chunk_ok :: "SpanBuffer \<Rightarrow> nat \<Rightarrow> bool" where
  "chunk_ok sb h =
     (h < length (sb_spans sb) \<and> h + 1 + nat (sp_left (sb_spans sb ! h)) \<le> length (sb_spans sb))"

definition spans_of :: "SpanBuffer \<Rightarrow> nat \<Rightarrow> Span list" where
  "spans_of sb h = take (nat (sp_left (sb_spans sb ! h))) (drop (h + 1) (sb_spans sb))"

lemma getSpans_ok: "chunk_ok sb h \<Longrightarrow> getSpans h sb = Inr (spans_of sb h)"
  by (simp add: getSpans_def getChunkSize_def chunk_ok_def spans_of_def)

lemma getChunkSize_ok: "chunk_ok sb h \<Longrightarrow> getChunkSize h sb = Inr (length (spans_of sb h))"
  by (auto simp: getChunkSize_def chunk_ok_def spans_of_def)

lemma storeChunk_eq:
  "\<exists>c. storeChunk spans sb = Inr (length (sb_spans sb),
     \<lparr>sb_capacity = c, sb_spans = sb_spans sb @ mk_span (int (length spans)) 0 # spans\<rparr>)"
proof -
  define big where "big = (if sb_capacity sb < length (sb_spans sb) + length spans + 1
      then reserve (max (max (length (sb_spans sb) + length spans + 1) (sb_capacity sb * 2)) 512) sb else sb)"
  have big: "sb_spans big = sb_spans sb" "0 < sb_capacity big"
    by (auto simp: big_def reserve_def)
  obtain c sp where c: "big = \<lparr>sb_capacity = c, sb_spans = sp\<rparr>" by (cases big)
  with big have "sp = sb_spans sb" "0 < c" by simp_all
  with c show ?thesis
    unfolding storeChunk_def Let_def big_def [symmetric]
    by (simp add: setChunkSize_def nth_append list_update_append)
qed

text \<open>Storing a chunk always succeeds, gives a new valid handle and keeps the others.\<close>

lemma storeChunk_ok:
  obtains h sb' where "storeChunk spans sb = Inr (h, sb')" "chunk_ok sb' h" "spans_of sb' h = spans"
    "\<And>k. chunk_ok sb k \<Longrightarrow> chunk_ok sb' k \<and> spans_of sb' k = spans_of sb k"
proof -
  let ?n = "length (sb_spans sb)"
  let ?new = "sb_spans sb @ mk_span (int (length spans)) 0 # spans"
  obtain c where c: "storeChunk spans sb = Inr (?n, \<lparr>sb_capacity = c, sb_spans = ?new\<rparr>)"
    using storeChunk_eq by blast
  show ?thesis
  proof (rule that [OF c])
    show "chunk_ok \<lparr>sb_capacity = c, sb_spans = ?new\<rparr> ?n" by (simp add: chunk_ok_def)
    show "spans_of \<lparr>sb_capacity = c, sb_spans = ?new\<rparr> ?n = spans" by (simp add: spans_of_def)
    show "chunk_ok \<lparr>sb_capacity = c, sb_spans = ?new\<rparr> k \<and> spans_of \<lparr>sb_capacity = c, sb_spans = ?new\<rparr> k = spans_of sb k"
      if "chunk_ok sb k" for k
      using that by (simp add: chunk_ok_def spans_of_def nth_append)
  qed
qed

section \<open>The invariant of regions\<close>

definition band_of :: "SpanBuffer \<Rightarrow> SpanLine \<Rightarrow> band" where
  "band_of sb l = (ln_top l, ln_bottom l, spans_of sb (ln_chunk_handle l))"

definition bands :: "DlRegion \<Rightarrow> band list" where
  "bands rg = map (band_of (rg_span_buffer rg)) (rg_lines rg)"

definition lines_ok :: "SpanBuffer \<Rightarrow> SpanLine list \<Rightarrow> bool" where
  "lines_ok sb ls = (list_all (\<lambda>l. chunk_ok sb (ln_chunk_handle l)) ls \<and> wf_bands (map (band_of sb) ls))"

text \<open>The smallest rectangle around the points of \<open>C\<close>, the empty one when there are none.\<close>

definition is_bounds :: "SkIRect \<Rightarrow> (int \<Rightarrow> int \<Rightarrow> bool) \<Rightarrow> bool" where
  "is_bounds r C =
     (if \<exists>x y. C x y
      then (\<forall>x y. C x y \<longrightarrow> in_rect r x y) \<and> (\<exists>y. C (fLeft r) y) \<and> (\<exists>y. C (fRight r - 1) y) \<and>
        (\<exists>x. C x (fTop r)) \<and> (\<exists>x. C x (fBottom r - 1))
      else r = MakeEmpty)"

definition region_covers :: "DlRegion \<Rightarrow> int \<Rightarrow> int \<Rightarrow> bool" where
  "region_covers rg = covers (bands rg)"

definition region_wf :: "DlRegion \<Rightarrow> bool" where
  "region_wf rg = (lines_ok (rg_span_buffer rg) (rg_lines rg) \<and> is_bounds (rg_bounds rg) (region_covers rg))"

text \<open>The part of the invariant that a region under construction has.\<close>

definition region_ok :: "DlRegion \<Rightarrow> bool" where
  "region_ok rg = lines_ok (rg_span_buffer rg) (rg_lines rg)"

lemma region_okD: "region_ok rg \<Longrightarrow> wf_bands (bands rg)"
  by (simp add: region_ok_def lines_ok_def bands_def)

subsection \<open>Appending a line\<close>

definition append_band :: "int \<Rightarrow> int \<Rightarrow> Span list \<Rightarrow> band list \<Rightarrow> band list" where
  "append_band t b ss bs =
     (if bs \<noteq> [] \<and> fst (snd (last bs)) = t \<and> snd (snd (last bs)) = ss
      then butlast bs @ [(fst (last bs), b, ss)] else bs @ [(t, b, ss)])"

lemma push_line_ok:
  assumes "list_all (\<lambda>l. chunk_ok (rg_span_buffer rg) (ln_chunk_handle l)) (rg_lines rg)"
  obtains rg' where "push_line t b ss rg = Inr rg'" "bands rg' = bands rg @ [(t, b, ss)]"
    "rg_bounds rg' = rg_bounds rg"
    "list_all (\<lambda>l. chunk_ok (rg_span_buffer rg') (ln_chunk_handle l)) (rg_lines rg')"
proof -
  obtain h sb where sb: "storeChunk ss (rg_span_buffer rg) = Inr (h, sb)" "chunk_ok sb h" "spans_of sb h = ss"
    "\<And>k. chunk_ok (rg_span_buffer rg) k \<Longrightarrow> chunk_ok sb k \<and> spans_of sb k = spans_of (rg_span_buffer rg) k"
    using storeChunk_ok [of ss "rg_span_buffer rg"] by blast
  show ?thesis
  proof (rule that)
    show "push_line t b ss rg = Inr (rg\<lparr>rg_span_buffer := sb,
        rg_lines := rg_lines rg @ [\<lparr>ln_top = t, ln_bottom = b, ln_chunk_handle = h\<rparr>]\<rparr>)"
      by (simp add: push_line_def makeLine_def sb(1))
  qed (use assms sb in \<open>auto simp: bands_def band_of_def list_all_iff\<close>)
qed

lemma appendLine_bands:
  assumes "list_all (\<lambda>l. chunk_ok (rg_span_buffer rg) (ln_chunk_handle l)) (rg_lines rg)"
  obtains rg' where "appendLine t b ss rg = Inr rg'" "bands rg' = append_band t b ss (bands rg)"
    "rg_bounds rg' = rg_bounds rg"
    "list_all (\<lambda>l. chunk_ok (rg_span_buffer rg') (ln_chunk_handle l)) (rg_lines rg')"
proof (cases "rg_lines rg = [] \<or> ln_bottom (last (rg_lines rg)) \<noteq> t \<or>
    spans_of (rg_span_buffer rg) (ln_chunk_handle (last (rg_lines rg))) \<noteq> ss")
  case True
  have "getSpans (ln_chunk_handle (last (rg_lines rg))) (rg_span_buffer rg) =
      Inr (spans_of (rg_span_buffer rg) (ln_chunk_handle (last (rg_lines rg))))" if "rg_lines rg \<noteq> []"
    using getSpans_ok assms that by (simp add: list_all_iff)
  with True have "appendLine t b ss rg = push_line t b ss rg"
    by (auto simp: appendLine_def spansEqual_def)
  moreover from True have "append_band t b ss (bands rg) = bands rg @ [(t, b, ss)]"
    by (auto simp: append_band_def bands_def last_map band_of_def)
  ultimately show ?thesis using push_line_ok [OF assms] that by metis
next
  case False
  then obtain ls l where ls: "rg_lines rg = ls @ [l]" by (cases "rg_lines rg" rule: rev_cases) auto
  with assms False have "appendLine t b ss rg = Inr (set_last_bottom b rg)"
    by (simp add: appendLine_def spansEqual_def getSpans_ok)
  moreover from ls False have "bands (set_last_bottom b rg) = append_band t b ss (bands rg)"
    by (simp add: bands_def set_last_bottom_def append_band_def band_of_def)
  moreover from ls assms have "list_all (\<lambda>l. chunk_ok (rg_span_buffer (set_last_bottom b rg)) (ln_chunk_handle l))
      (rg_lines (set_last_bottom b rg))" by (simp add: set_last_bottom_def)
  ultimately show ?thesis using that by (simp add: set_last_bottom_def)
qed

text \<open>All lines of the region end at or above \<open>h\<close>.\<close>

definition ends_by :: "DlRegion \<Rightarrow> int \<Rightarrow> bool" where
  "ends_by rg h = (\<forall>l\<in>set (bands rg). fst (snd l) \<le> h)"

lemma append_band_covers:
  assumes "wf_bands bs" "t < b"
  shows "covers (append_band t b ss bs) x y \<longleftrightarrow> covers bs x y \<or> t \<le> y \<and> y < b \<and> in_spans x ss"
proof (cases bs rule: rev_cases)
  case (snoc cs l)
  obtain t' b' ss' where "l = (t', b', ss')" by (cases l) auto
  with snoc assms have "t' < b'" by (auto simp: wf_bands_def band_ok_def)
  with assms snoc \<open>l = _\<close> show ?thesis by (auto simp: append_band_def)
qed (simp add: append_band_def)

lemma append_band_wf:
  assumes "wf_bands bs" "kIntMin \<le> t" "t < b" "wf_spans ss" "\<And>l. l \<in> set bs \<Longrightarrow> fst (snd l) \<le> t"
  shows "wf_bands (append_band t b ss bs)"
proof (cases "bs \<noteq> [] \<and> fst (snd (last bs)) = t \<and> snd (snd (last bs)) = ss")
  case True
  then have "bs = butlast bs @ [(fst (last bs), t, ss)]"
    by (metis append_butlast_last_id prod.collapse)
  with assms(1) have "wf_bands (butlast bs @ [(fst (last bs), b, ss)])"
    using wf_bands_last_bottom [OF _ assms(3)] by metis
  with True show ?thesis by (simp add: append_band_def)
next
  case False
  with assms have "wf_bands (bs @ [(t, b, ss)])" by (intro wf_bands_snoc) auto
  with False show ?thesis by (auto simp: append_band_def)
qed

lemma append_band_bottom:
  "l \<in> set (append_band t b ss bs) \<Longrightarrow> l \<in> set bs \<or> fst (snd l) = b"
  by (auto simp: append_band_def dest: in_set_butlastD split: if_splits)

lemma appendLine_ok:
  assumes "region_ok rg" "ends_by rg t" "kIntMin \<le> t" "t < b" "wf_spans ss"
  obtains rg' where "appendLine t b ss rg = Inr rg'" "region_ok rg'" "ends_by rg' b" "rg_bounds rg' = rg_bounds rg"
    "\<And>x y. covers (bands rg') x y \<longleftrightarrow> covers (bands rg) x y \<or> t \<le> y \<and> y < b \<and> in_spans x ss"
proof -
  have chunks: "list_all (\<lambda>l. chunk_ok (rg_span_buffer rg) (ln_chunk_handle l)) (rg_lines rg)"
    using assms(1) by (simp add: region_ok_def lines_ok_def)
  obtain rg' where rg': "appendLine t b ss rg = Inr rg'" "bands rg' = append_band t b ss (bands rg)"
    "rg_bounds rg' = rg_bounds rg" "list_all (\<lambda>l. chunk_ok (rg_span_buffer rg') (ln_chunk_handle l)) (rg_lines rg')"
    using appendLine_bands [OF chunks] by blast
  have wf: "wf_bands (bands rg)" by (rule region_okD [OF assms(1)])
  show ?thesis
  proof (rule that [OF rg'(1)])
    have "wf_bands (bands rg')"
      unfolding rg'(2) using wf assms(2-5) by (intro append_band_wf) (auto simp: ends_by_def)
    with rg'(4) show "region_ok rg'" by (simp add: region_ok_def lines_ok_def bands_def)
    show "ends_by rg' b"
      using assms(2,4) append_band_bottom unfolding ends_by_def rg'(2) by fastforce
  qed (simp_all add: rg'(2,3) append_band_covers [OF wf assms(4)])
qed

end
