(* ===== verification/Dl_Region_Ops.thy ===== *)
theory Dl_Region_Ops
  imports Dl_Region_Inv
begin

text \<open>
  The operations on the spans of two lines compute the union, the intersection and the intersection
  test of the covered sets, and keep spans canonical; the loops over the lines lift this to regions.
\<close>

section \<open>Spans\<close>

lemma wf_spans_ConsD:
  assumes "wf_spans (s # ss)"
  shows "sp_left s < sp_right s" "ss \<noteq> [] \<Longrightarrow> wf_spans ss" "\<And>t. t \<in> set ss \<Longrightarrow> sp_right s < sp_left t"
    "\<And>t. t \<in> set ss \<Longrightarrow> sp_left t < sp_right t"
  using assms by (auto simp: wf_spans_def span_ok_def span_before_def list_all_iff)

lemma in_spans_after: "(\<And>t. t \<in> set ts \<Longrightarrow> a \<le> sp_left t) \<Longrightarrow> in_spans x ts \<Longrightarrow> a \<le> x"
  by (force simp: in_spans_def)

subsection \<open>Union\<close>

definition acc_ok :: "Span list \<times> int \<Rightarrow> bool" where
  "acc_ok acc = (list_all span_ok (fst acc) \<and> sorted_wrt span_before (fst acc) \<and>
     (fst acc \<noteq> [] \<longrightarrow> snd acc = sp_right (last (fst acc))))"

definition acc_le :: "Span list \<times> int \<Rightarrow> int \<Rightarrow> bool" where
  "acc_le acc x = (fst acc \<noteq> [] \<longrightarrow> sp_left (last (fst acc)) \<le> x)"

lemma acc_le_mono: "acc_le acc x \<Longrightarrow> x \<le> y \<Longrightarrow> acc_le acc y"
  by (auto simp: acc_le_def)

lemma accumulate_snoc:
  "accumulate s (res @ [u], sp_right u) =
     (if sp_left s > sp_right u then (res @ [u, s], sp_right s)
      else if sp_right s > sp_right u then (res @ [u\<lparr>sp_right := sp_right s\<rparr>], sp_right s)
      else (res @ [u], sp_right u))"
  by (simp add: accumulate_def nth_append list_update_append)

lemma accumulate_ok:
  assumes "acc_ok acc" "span_ok s" "acc_le acc (sp_left s)"
  shows "acc_ok (accumulate s acc) \<and> fst (accumulate s acc) \<noteq> [] \<and> acc_le (accumulate s acc) (sp_left s) \<and>
    (\<forall>x. in_spans x (fst (accumulate s acc)) \<longleftrightarrow> in_spans x (fst acc) \<or> sp_left s \<le> x \<and> x < sp_right s)"
proof (cases "fst acc" rule: rev_cases)
  case Nil
  with assms show ?thesis by (cases acc) (simp add: accumulate_def acc_ok_def acc_le_def)
next
  case (snoc res u)
  with assms(1) have acc: "acc = (res @ [u], sp_right u)" by (cases acc) (simp add: acc_ok_def)
  have u: "sp_left u < sp_right u" "sp_left u \<le> sp_left s" "sp_left s < sp_right s"
    and res: "sorted_wrt span_before (res @ [u])" "list_all span_ok (res @ [u])"
    using assms unfolding acc by (auto simp: acc_ok_def acc_le_def span_ok_def)
  have far: "span_before r s" if "r \<in> set (res @ [u])" "sp_right u < sp_left s" for r
    using that res u by (auto simp: sorted_wrt_append span_before_def)
  show ?thesis
    unfolding acc accumulate_snoc using u res far
    by (auto simp: acc_ok_def acc_le_def span_ok_def sorted_wrt_append span_before_def)
qed

lemma fold_accumulate_ok:
  assumes "acc_ok acc" "acc_le acc (sp_left (hd ss))" "wf_spans ss"
  shows "wf_spans (fst (fold accumulate ss acc)) \<and>
    (\<forall>x. in_spans x (fst (fold accumulate ss acc)) \<longleftrightarrow> in_spans x (fst acc) \<or> in_spans x ss)"
  using assms
proof (induction ss arbitrary: acc)
  case (Cons s ss)
  note s = wf_spans_ConsD [OF Cons.prems(3)]
  have step: "acc_ok (accumulate s acc)" "fst (accumulate s acc) \<noteq> []" "acc_le (accumulate s acc) (sp_left s)"
    "\<And>x. in_spans x (fst (accumulate s acc)) \<longleftrightarrow> in_spans x (fst acc) \<or> sp_left s \<le> x \<and> x < sp_right s"
    using accumulate_ok [of acc s] Cons.prems s(1) by (simp_all add: span_ok_def)
  show ?case
  proof (cases "ss = []")
    case True
    with step show ?thesis by (simp add: wf_spans_def acc_ok_def)
  next
    case False
    then have "acc_le (accumulate s acc) (sp_left (hd ss))"
      using acc_le_mono [OF step(3)] s(1) s(3) [of "hd ss"] by simp
    from Cons.IH [OF step(1) this s(2) [OF False]] step(4) show ?thesis by auto
  qed
qed (simp add: wf_spans_def)

lemma union_spans_ok:
  assumes "acc_ok acc" "acc_le acc (sp_left (hd ss))" "acc_le acc (sp_left (hd ts))" "wf_spans ss" "wf_spans ts"
  shows "\<exists>us. union_spans ss ts acc = Inr us \<and> wf_spans us \<and>
    (\<forall>x. in_spans x us \<longleftrightarrow> in_spans x (fst acc) \<or> in_spans x ss \<or> in_spans x ts)"
  using assms
proof (induction ss ts acc rule: union_spans.induct)
  case (1 s ss t ts acc)
  note s = wf_spans_ConsD [OF 1(6)] and t = wf_spans_ConsD [OF 1(7)]
  have stepS: "acc_ok (accumulate s acc)" "acc_le (accumulate s acc) (sp_left s)"
    "\<And>x. in_spans x (fst (accumulate s acc)) \<longleftrightarrow> in_spans x (fst acc) \<or> sp_left s \<le> x \<and> x < sp_right s"
    using accumulate_ok [of acc s] 1(3-7) s(1) by (simp_all add: span_ok_def)
  have stepT: "acc_ok (accumulate t acc)" "acc_le (accumulate t acc) (sp_left t)"
    "\<And>x. in_spans x (fst (accumulate t acc)) \<longleftrightarrow> in_spans x (fst acc) \<or> sp_left t \<le> x \<and> x < sp_right t"
    using accumulate_ok [of acc t] 1(3-7) t(1) by (simp_all add: span_ok_def)
  show ?case
  proof (cases "sp_left s < sp_left t")
    case True
    then have le: "acc_le (accumulate s acc) (sp_left (hd (t # ts)))" using acc_le_mono [OF stepS(2)] by simp
    show ?thesis
    proof (cases "ss = []")
      case empty: True
      from fold_accumulate_ok [OF stepS(1) le 1(7)] True empty stepS(3) show ?thesis by auto
    next
      case False
      then have "acc_le (accumulate s acc) (sp_left (hd ss))"
        using acc_le_mono [OF stepS(2)] s(1) s(3) [of "hd ss"] by simp
      from 1(1) [OF True False stepS(1) this le s(2) [OF False] 1(7)] True False stepS(3) show ?thesis by auto
    qed
  next
    case less: False
    then have le: "acc_le (accumulate t acc) (sp_left (hd (s # ss)))" using acc_le_mono [OF stepT(2)] by simp
    show ?thesis
    proof (cases "ts = []")
      case empty: True
      from fold_accumulate_ok [OF stepT(1) le 1(6)] less empty stepT(3) show ?thesis by auto
    next
      case False
      then have "acc_le (accumulate t acc) (sp_left (hd ts))"
        using acc_le_mono [OF stepT(2)] t(1) t(3) [of "hd ts"] by simp
      from 1(2) [OF less False stepT(1) le this 1(6) t(2) [OF False]] less False stepT(3) show ?thesis by auto
    qed
  qed
qed (simp_all add: wf_spans_def)

lemma unionLineSpans_ok:
  assumes "chunk_ok a_buffer h" "chunk_ok b_buffer k" "wf_spans (spans_of a_buffer h)" "wf_spans (spans_of b_buffer k)"
  obtains us where "unionLineSpans a_buffer h b_buffer k = Inr us" "wf_spans us"
    "\<And>x. in_spans x us \<longleftrightarrow> in_spans x (spans_of a_buffer h) \<or> in_spans x (spans_of b_buffer k)"
  using assms union_spans_ok [of "([], kIntMin)" "spans_of a_buffer h" "spans_of b_buffer k"]
  by (auto simp: unionLineSpans_def getSpans_ok acc_ok_def acc_le_def)

subsection \<open>Intersection\<close>

text \<open>
  What the loop has written, what is left of the two lists, and the gap before what it writes next.
\<close>

lemma intersect_spans_ok:
  assumes "ss = [] \<or> wf_spans ss" "ts = [] \<or> wf_spans ts"
    and "list_all span_ok res" "sorted_wrt span_before res"
    and "\<And>r s t. r \<in> set res \<Longrightarrow> s \<in> set ss \<Longrightarrow> t \<in> set ts \<Longrightarrow> sp_right r < max (sp_left s) (sp_left t)"
    and "length res + length ss + length ts \<le> Suc n"
  shows "\<exists>us. intersect_spans n ss ts res = Inr us \<and> list_all span_ok us \<and> sorted_wrt span_before us \<and>
    (\<forall>x. in_spans x us \<longleftrightarrow> in_spans x res \<or> in_spans x ss \<and> in_spans x ts)"
  using assms
proof (induction n ss ts res rule: intersect_spans.induct)
  case (1 n s ss t ts res)
  have s: "sp_left s < sp_right s" "ss = [] \<or> wf_spans ss" "\<And>u. u \<in> set ss \<Longrightarrow> sp_right s < sp_left u"
    and t: "sp_left t < sp_right t" "ts = [] \<or> wf_spans ts" "\<And>u. u \<in> set ts \<Longrightarrow> sp_right t < sp_left u"
    using 1(4,5) wf_spans_ConsD by auto
  have sx: "sp_right s < x" if "in_spans x ss" for x using in_spans_after [of ss "sp_right s + 1" x] s(3) that by force
  have tx: "sp_right t < x" if "in_spans x ts" for x using in_spans_after [of ts "sp_right t + 1" x] t(3) that by force
  consider (left) "sp_right s \<le> sp_left t" | (right) "\<not> sp_right s \<le> sp_left t" "sp_right t \<le> sp_left s"
    | (both) "\<not> sp_right s \<le> sp_left t" "\<not> sp_right t \<le> sp_left s" by blast
  then show ?case
  proof cases
    case left
    with 1(1) [OF left s(2) 1(5) 1(6,7)] 1(8,9) tx t show ?thesis by fastforce
  next
    case right
    with 1(2) [OF right 1(4) t(2) 1(6,7)] 1(8,9) sx s show ?thesis by fastforce
  next
    case both
    let ?l = "max (sp_left s) (sp_left t)" and ?r = "min (sp_right s) (sp_right t)"
    let ?ss = "if sp_right s = ?r then ss else s # ss" and ?ts = "if sp_right t = ?r then ts else t # ts"
    have lr: "?l < ?r" using both s(1) t(1) by auto
    have len: "length res < n" and len': "length (res @ [mk_span ?l ?r]) + length ?ss + length ?ts \<le> Suc n"
      using 1(9) by auto
    have res: "sorted_wrt span_before (res @ [mk_span ?l ?r])" "list_all span_ok (res @ [mk_span ?l ?r])"
    proof -
      have "span_before r (mk_span ?l ?r)" if "r \<in> set res" for r
        using 1(8) [of r s t] that by (simp add: span_before_def)
      moreover have "span_ok (mk_span ?l ?r)" using lr by (simp add: span_ok_def)
      ultimately show "sorted_wrt span_before (res @ [mk_span ?l ?r])" "list_all span_ok (res @ [mk_span ?l ?r])"
        using 1(6,7) by (simp_all add: sorted_wrt_append)
    qed
    have gap: "sp_right r < max (sp_left u) (sp_left v)"
      if "r \<in> set (res @ [mk_span ?l ?r])" "u \<in> set ?ss" "v \<in> set ?ts" for r u v
      using that 1(8) [of r u v] s(3) [of u] t(3) [of v] by (auto split: if_splits)
    have wf: "?ss = [] \<or> wf_spans ?ss" "?ts = [] \<or> wf_spans ?ts" using s(2) t(2) 1(4,5) by auto
    from 1(3) [OF both refl refl wf res(2,1) gap len'] obtain us where
      us: "intersect_spans n ?ss ?ts (res @ [mk_span ?l ?r]) = Inr us" "list_all span_ok us" "sorted_wrt span_before us"
      "\<And>x. in_spans x us \<longleftrightarrow> in_spans x (res @ [mk_span ?l ?r]) \<or> in_spans x ?ss \<and> in_spans x ?ts" by blast
    have "in_spans x us \<longleftrightarrow> in_spans x res \<or> in_spans x (s # ss) \<and> in_spans x (t # ts)" for x
      unfolding us(4) using sx [of x] tx [of x] by (auto split: if_splits)
    with us both lr len show ?thesis by (simp add: Let_def)
  qed
qed simp_all

lemma intersectLineSpans_ok:
  assumes "chunk_ok a_buffer h" "chunk_ok b_buffer k" "wf_spans (spans_of a_buffer h)" "wf_spans (spans_of b_buffer k)"
  obtains us m where "intersectLineSpans n a_buffer h b_buffer k = Inr (us, m)" "us \<noteq> [] \<Longrightarrow> wf_spans us"
    "\<And>x. in_spans x us \<longleftrightarrow> in_spans x (spans_of a_buffer h) \<and> in_spans x (spans_of b_buffer k)"
proof -
  let ?ss = "spans_of a_buffer h" and ?ts = "spans_of b_buffer k"
  let ?m = "max n (length ?ss + length ?ts - 1)"
  have "length ?ss + length ?ts \<le> Suc ?m" by simp
  with intersect_spans_ok [of ?ss ?ts "[]" ?m] assms(3,4) obtain us where
    us: "intersect_spans ?m ?ss ?ts [] = Inr us" "list_all span_ok us" "sorted_wrt span_before us"
    "\<And>x. in_spans x us \<longleftrightarrow> in_spans x ?ss \<and> in_spans x ?ts" by auto
  show ?thesis
  proof (rule that [of us ?m])
    show "intersectLineSpans n a_buffer h b_buffer k = Inr (us, ?m)"
      using us(1) by (simp add: intersectLineSpans_def getSpans_ok assms(1,2) Let_def)
  qed (use us in \<open>simp_all add: wf_spans_def\<close>)
qed

lemma spansIntersect_iff:
  "ss = [] \<or> wf_spans ss \<Longrightarrow> ts = [] \<or> wf_spans ts \<Longrightarrow>
    spansIntersect ss ts \<longleftrightarrow> (\<exists>x. in_spans x ss \<and> in_spans x ts)"
proof (induction ss ts rule: spansIntersect.induct)
  case (1 s ss t ts)
  have s: "sp_left s < sp_right s" "ss = [] \<or> wf_spans ss" "\<And>u. u \<in> set ss \<Longrightarrow> sp_right s < sp_left u"
    and t: "sp_left t < sp_right t" "ts = [] \<or> wf_spans ts" "\<And>u. u \<in> set ts \<Longrightarrow> sp_right t < sp_left u"
    using 1(3,4) wf_spans_ConsD by auto
  have sx: "sp_right s < x" if "in_spans x ss" for x using in_spans_after [of ss "sp_right s + 1" x] s(3) that by force
  have tx: "sp_right t < x" if "in_spans x ts" for x using in_spans_after [of ts "sp_right t + 1" x] t(3) that by force
  consider (left) "sp_right s \<le> sp_left t" | (right) "\<not> sp_right s \<le> sp_left t" "sp_right t \<le> sp_left s"
    | (both) "\<not> sp_right s \<le> sp_left t" "\<not> sp_right t \<le> sp_left s" by blast
  then show ?case
  proof cases
    case left
    with 1(1) [OF left s(2) 1(4)] tx t show ?thesis by fastforce
  next
    case right
    with 1(2) [OF right 1(3) t(2)] sx s show ?thesis by fastforce
  next
    case both
    then have "in_spans (max (sp_left s) (sp_left t)) (s # ss) \<and> in_spans (max (sp_left s) (sp_left t)) (t # ts)"
      using s(1) t(1) by auto
    with both show ?thesis by (simp only: spansIntersect.simps if_False simp_thms) blast
  qed
qed simp_all

section \<open>Lines\<close>

definition lines_cover :: "SpanBuffer \<Rightarrow> SpanLine list \<Rightarrow> int \<Rightarrow> int \<Rightarrow> bool" where
  "lines_cover sb ls = covers (map (band_of sb) ls)"

lemma lines_cover_simps [simp]:
  "\<not> lines_cover sb [] x y"
  "lines_cover sb (l # ls) x y \<longleftrightarrow>
     ln_top l \<le> y \<and> y < ln_bottom l \<and> in_spans x (spans_of sb (ln_chunk_handle l)) \<or> lines_cover sb ls x y"
  by (simp_all add: lines_cover_def band_of_def)

lemma lines_ok_Nil [simp]: "lines_ok sb []"
  by (simp add: lines_ok_def)

lemma lines_ok_ConsD:
  assumes "lines_ok sb (l # ls)"
  shows "chunk_ok sb (ln_chunk_handle l)" "kIntMin \<le> ln_top l" "ln_top l < ln_bottom l"
    "wf_spans (spans_of sb (ln_chunk_handle l))" "lines_ok sb ls"
    "\<And>m. m \<in> set ls \<Longrightarrow> ln_bottom l \<le> ln_top m" "\<And>m. m \<in> set ls \<Longrightarrow> ln_bottom l < ln_bottom m"
proof -
  have wf: "wf_bands ((ln_top l, ln_bottom l, spans_of sb (ln_chunk_handle l)) # map (band_of sb) ls)"
    using assms by (simp add: lines_ok_def band_of_def)
  note wf_bands_ConsD [OF wf]
  then show "chunk_ok sb (ln_chunk_handle l)" "kIntMin \<le> ln_top l" "ln_top l < ln_bottom l"
    "wf_spans (spans_of sb (ln_chunk_handle l))" "lines_ok sb ls" using assms by (simp_all add: lines_ok_def)
  fix m assume m: "m \<in> set ls"
  from m have in_bands: "band_of sb m \<in> set (map (band_of sb) ls)" by simp
  from wf_bands_ConsD(5) [OF wf this] show "ln_bottom l \<le> ln_top m" by (simp add: band_of_def)
  from wf_bands_bottom [OF wf in_bands] show "ln_bottom l < ln_bottom m" by (simp add: band_of_def)
qed

lemma lines_cover_above:
  assumes "lines_ok sb (l # ls)" "lines_cover sb ls x y"
  shows "ln_bottom l \<le> y"
proof (rule covers_above)
  show "covers (map (band_of sb) ls) x y" using assms(2) by (simp add: lines_cover_def)
  show "ln_bottom l \<le> fst b" if "b \<in> set (map (band_of sb) ls)" for b
    using that lines_ok_ConsD(6) [OF assms(1)] by (auto simp: band_of_def)
qed

lemma ends_by_mono: "ends_by rg h \<Longrightarrow> h \<le> k \<Longrightarrow> ends_by rg k"
  by (force simp: ends_by_def)

text \<open>
  \<open>builds rg P res\<close>: \<open>res\<close> is a valid region with the bounds of \<open>rg\<close> that covers the points of \<open>rg\<close>
  and those of \<open>P\<close>.
\<close>

definition builds :: "DlRegion \<Rightarrow> (int \<Rightarrow> int \<Rightarrow> bool) \<Rightarrow> DlRegion result \<Rightarrow> bool" where
  "builds rg P res =
     (\<exists>rg'. res = Inr rg' \<and> region_ok rg' \<and> rg_bounds rg' = rg_bounds rg \<and>
       (\<forall>x y. covers (bands rg') x y \<longleftrightarrow> covers (bands rg) x y \<or> P x y))"

lemma builds_Inr: "region_ok rg \<Longrightarrow> (\<And>x y. \<not> P x y) \<Longrightarrow> builds rg P (Inr rg)"
  by (simp add: builds_def)

text \<open>A line is appended below the region, then the rest is built.\<close>

lemma builds_append:
  assumes "region_ok rg" "ends_by rg t" "kIntMin \<le> t" "t < b" "wf_spans ss"
    and rest: "\<And>rg'. region_ok rg' \<Longrightarrow> ends_by rg' b \<Longrightarrow> builds rg' Q (k rg')"
    and P: "\<And>x y. P x y \<longleftrightarrow> t \<le> y \<and> y < b \<and> in_spans x ss \<or> Q x y"
  shows "builds rg P (rbind (appendLine t b ss rg) k)"
proof -
  obtain rg' where rg': "appendLine t b ss rg = Inr rg'" "region_ok rg'" "ends_by rg' b" "rg_bounds rg' = rg_bounds rg"
    "\<And>x y. covers (bands rg') x y \<longleftrightarrow> covers (bands rg) x y \<or> t \<le> y \<and> y < b \<and> in_spans x ss"
    using appendLine_ok [OF assms(1-5)] by blast
  with rest [OF this(2,3)] P show ?thesis by (auto simp: builds_def)
qed

lemma builds_chunk:
  assumes "region_ok rg" "ends_by rg t" "kIntMin \<le> t" "t < b" "chunk_ok sb h" "wf_spans (spans_of sb h)"
    and "\<And>rg'. region_ok rg' \<Longrightarrow> ends_by rg' b \<Longrightarrow> builds rg' Q (k rg')"
    and "\<And>x y. P x y \<longleftrightarrow> t \<le> y \<and> y < b \<and> in_spans x (spans_of sb h) \<or> Q x y"
  shows "builds rg P (rbind (appendLine_chunk t b sb h rg) k)"
  using builds_append [OF assms(1-4,6), where k = k and P = P and Q = Q] assms(5,7,8)
  by (simp add: appendLine_chunk_def getSpans_ok)

subsection \<open>Union\<close>

lemma append_rest_builds:
  assumes "lines_ok sb ls" "region_ok rg" "\<And>l. l \<in> set ls \<Longrightarrow> ends_by rg (max cur_top (ln_top l))"
    and "\<And>l. l \<in> set ls \<Longrightarrow> cur_top < ln_bottom l"
  shows "builds rg (\<lambda>x y. cur_top \<le> y \<and> lines_cover sb ls x y) (append_rest cur_top sb ls rg)"
  using assms
proof (induction ls arbitrary: rg)
  case Nil
  then show ?case by (simp add: builds_Inr)
next
  case (Cons l ls)
  note l = lines_ok_ConsD [OF Cons.prems(1)]
  show ?case
    unfolding append_rest.simps append_line_from_def
  proof (rule builds_chunk [OF Cons.prems(2) _ _ _ l(1,4)])
    fix rg' assume "region_ok rg'" "ends_by rg' (ln_bottom l)"
    then show "builds rg' (\<lambda>x y. cur_top \<le> y \<and> lines_cover sb ls x y) (append_rest cur_top sb ls rg')"
      using Cons.IH [OF l(5)] l(6) Cons.prems(4) ends_by_mono by (metis list.set_intros(2) max.coboundedI2)
  qed (use l Cons.prems in auto)
qed

lemma advance_ok:
  assumes "lines_ok sb (l # ls)" "h \<le> ln_bottom l"
  shows "lines_ok sb (advance h (l # ls))" "\<And>m. m \<in> set (advance h (l # ls)) \<Longrightarrow> h < ln_bottom m"
    "\<And>x y. h \<le> y \<Longrightarrow> lines_cover sb (advance h (l # ls)) x y = lines_cover sb (l # ls) x y"
  using assms lines_ok_ConsD(5) [OF assms(1)] lines_ok_ConsD(7) [OF assms(1)]
  by (auto simp: advance_def split: if_splits) (meson less_le_trans le_less_trans)

lemma ends_by_tail:
  "lines_ok sb (a # as) \<Longrightarrow> ends_by rg (ln_bottom a) \<Longrightarrow> l \<in> set as \<Longrightarrow> ends_by rg (max c (ln_top l))"
  by (meson ends_by_mono lines_ok_ConsD(6) max.coboundedI2)

lemma ends_by_list:
  assumes "lines_ok sb (b # bs)" "ends_by rg h" "h \<le> max c (ln_top b)" "l \<in> set (b # bs)"
  shows "ends_by rg (max c (ln_top l))"
proof -
  have "ln_top b \<le> ln_top l" using assms(4) lines_ok_ConsD(3) [OF assms(1)] lines_ok_ConsD(6) [OF assms(1), of l] by auto
  with assms(3) have "h \<le> max c (ln_top l)" by linarith
  with assms(2) show ?thesis by (rule ends_by_mono)
qed

lemma ends_by_cur: "ends_by rg c \<Longrightarrow> ends_by rg (max c t)"
  by (erule ends_by_mono) simp

text \<open>The points below \<open>cur_top\<close> when one of the lines starts above the other, and when they start together.\<close>

lemma union_points_head:
  assumes A: "lines_ok A (a # as)" and B: "lines_ok B (b # bs)"
    and "max c (ln_top a) < max c (ln_top b)" "max c (ln_top b) \<le> ln_bottom a"
  shows "c \<le> y \<and> (lines_cover A (a # as) x y \<or> lines_cover B (b # bs) x y) \<longleftrightarrow>
    max c (ln_top a) \<le> y \<and> y < max c (ln_top b) \<and> in_spans x (spans_of A (ln_chunk_handle a)) \<or>
    max c (ln_top b) \<le> y \<and>
      (lines_cover A (advance (max c (ln_top b)) (a # as)) x y \<or> lines_cover B (b # bs) x y)"
proof (cases "y < max c (ln_top b)")
  case True
  have "\<not> lines_cover A as x y" using lines_cover_above [OF A, of x y] True assms(4) by linarith
  moreover have "\<not> lines_cover B (b # bs) x y"
    using lines_cover_above [OF B, of x y] lines_ok_ConsD(3) [OF B] True assms(3) by auto
  ultimately show ?thesis using True assms(3,4) by auto
next
  case False
  then have le: "max c (ln_top b) \<le> y" by linarith
  then have "c \<le> y" by simp
  with le False advance_ok(3) [OF A assms(4) le, of x] show ?thesis by blast
qed

lemma union_points_even:
  assumes A: "lines_ok A (a # as)" and B: "lines_ok B (b # bs)"
    and eq: "max c (ln_top a) = max c (ln_top b)" and n: "n \<le> ln_bottom a" "n \<le> ln_bottom b" "max c (ln_top a) < n"
  shows "c \<le> y \<and> (lines_cover A (a # as) x y \<or> lines_cover B (b # bs) x y) \<longleftrightarrow>
    max c (ln_top a) \<le> y \<and> y < n \<and>
      (in_spans x (spans_of A (ln_chunk_handle a)) \<or> in_spans x (spans_of B (ln_chunk_handle b))) \<or>
    n \<le> y \<and> (lines_cover A (advance n (a # as)) x y \<or> lines_cover B (advance n (b # bs)) x y)"
proof (cases "y < n")
  case True
  have "\<not> lines_cover A as x y" using lines_cover_above [OF A, of x y] True n(1) by linarith
  moreover have "\<not> lines_cover B bs x y" using lines_cover_above [OF B, of x y] True n(2) by linarith
  moreover have "y < ln_bottom a" "y < ln_bottom b" using True n by linarith+
  moreover have "c \<le> y \<and> ln_top a \<le> y \<longleftrightarrow> max c (ln_top a) \<le> y" by simp
  moreover have "c \<le> y \<and> ln_top b \<le> y \<longleftrightarrow> max c (ln_top a) \<le> y" unfolding eq by simp
  moreover have "\<not> n \<le> y" using True by simp
  ultimately show ?thesis using True unfolding lines_cover_simps by metis
next
  case False
  then have le: "n \<le> y" by linarith
  with n(3) have "c \<le> y" by linarith
  with le False advance_ok(3) [OF A n(1) le, of x] advance_ok(3) [OF B n(2) le, of x] show ?thesis by blast
qed

lemma union_lines_builds:
  assumes "lines_ok a_buffer as" "lines_ok b_buffer bs" "region_ok rg"
    and "\<And>l. l \<in> set as \<union> set bs \<Longrightarrow> ends_by rg (max cur_top (ln_top l))"
    and "\<And>l. l \<in> set as \<union> set bs \<Longrightarrow> cur_top < ln_bottom l"
  shows "builds rg (\<lambda>x y. cur_top \<le> y \<and> (lines_cover a_buffer as x y \<or> lines_cover b_buffer bs x y))
    (union_lines a_buffer b_buffer cur_top as bs rg)"
  using assms
proof (induction a_buffer b_buffer cur_top as bs rg rule: union_lines.induct)
  case (1 A B cur_top a as b bs rg)
  let ?P = "\<lambda>x y. cur_top \<le> y \<and> (lines_cover A (a # as) x y \<or> lines_cover B (b # bs) x y)"
  let ?at = "max cur_top (ln_top a)" and ?bt = "max cur_top (ln_top b)"
  note a = lines_ok_ConsD [OF 1(6)] and b = lines_ok_ConsD [OF 1(7)]
  have ends: "ends_by rg ?at" "ends_by rg ?bt" using 1(9) by auto
  have cur: "cur_top < ln_bottom a" "cur_top < ln_bottom b" using 1(10) by auto
  consider (aboveB) "ln_bottom a \<le> ?bt" | (aboveA) "\<not> ln_bottom a \<le> ?bt" "ln_bottom b \<le> ?at"
    | (headA) "\<not> ln_bottom a \<le> ?bt" "\<not> ln_bottom b \<le> ?at" "?at < ?bt"
    | (headB) "\<not> ln_bottom a \<le> ?bt" "\<not> ln_bottom b \<le> ?at" "\<not> ?at < ?bt" "?bt < ?at"
    | (even) "\<not> ln_bottom a \<le> ?bt" "\<not> ln_bottom b \<le> ?at" "\<not> ?at < ?bt" "\<not> ?bt < ?at" by blast
  then show ?case
  proof cases
    case aboveB
    have "builds rg ?P (rbind (append_line_from cur_top A a rg) (union_lines A B cur_top as (b # bs)))"
      unfolding append_line_from_def
    proof (rule builds_chunk [OF 1(8) ends(1) _ _ a(1,4)])
      fix rg' assume rg': "region_ok rg'" "ends_by rg' (ln_bottom a)"
      show "builds rg' (\<lambda>x y. cur_top \<le> y \<and> (lines_cover A as x y \<or> lines_cover B (b # bs) x y))
          (union_lines A B cur_top as (b # bs) rg')"
        using ends_by_tail [OF 1(6) rg'(2)] ends_by_list [OF 1(7) rg'(2) aboveB] 1(10)
        by (intro 1(1) [OF refl refl aboveB a(5) 1(7) rg'(1)]) auto
    qed (use a cur in auto)
    then show ?thesis by (simp only: union_lines.simps Let_def aboveB if_True if_False)
  next
    case aboveA
    have "builds rg ?P (rbind (append_line_from cur_top B b rg) (union_lines A B cur_top (a # as) bs))"
      unfolding append_line_from_def
    proof (rule builds_chunk [OF 1(8) ends(2) _ _ b(1,4)])
      fix rg' assume rg': "region_ok rg'" "ends_by rg' (ln_bottom b)"
      show "builds rg' (\<lambda>x y. cur_top \<le> y \<and> (lines_cover A (a # as) x y \<or> lines_cover B bs x y))
          (union_lines A B cur_top (a # as) bs rg')"
        using ends_by_tail [OF 1(7) rg'(2)] ends_by_list [OF 1(6) rg'(2) aboveA(2)] 1(10)
        by (intro 1(2) [OF refl refl aboveA 1(6) b(5) rg'(1)]) auto
    qed (use b cur in auto)
    then show ?thesis by (simp only: union_lines.simps Let_def aboveA if_True if_False)
  next
    case headA
    then have bt: "?bt \<le> ln_bottom a" "?bt < ln_bottom b" using b(3) cur by auto
    note adv = advance_ok [OF 1(6) bt(1)]
    have "builds rg ?P (rbind (appendLine_chunk ?at ?bt A (ln_chunk_handle a) rg)
        (union_lines A B ?bt (advance ?bt (a # as)) (b # bs)))"
    proof (rule builds_chunk [OF 1(8) ends(1) _ headA(3) a(1,4)])
      fix rg' assume rg': "region_ok rg'" "ends_by rg' ?bt"
      show "builds rg' (\<lambda>x y. ?bt \<le> y \<and> (lines_cover A (advance ?bt (a # as)) x y \<or> lines_cover B (b # bs) x y))
          (union_lines A B ?bt (advance ?bt (a # as)) (b # bs) rg')"
        using ends_by_cur [OF rg'(2)] adv(2) bt(2) b(7)
        by (intro 1(3) [OF refl refl headA adv(1) 1(7) rg'(1)]) fastforce+
    next
      show "?P x y \<longleftrightarrow> ?at \<le> y \<and> y < ?bt \<and> in_spans x (spans_of A (ln_chunk_handle a)) \<or>
          ?bt \<le> y \<and> (lines_cover A (advance ?bt (a # as)) x y \<or> lines_cover B (b # bs) x y)" for x y
        by (rule union_points_head [OF 1(6,7) headA(3) bt(1)])
    qed (use a in auto)
    then show ?thesis by (simp only: union_lines.simps Let_def headA if_True if_False)
  next
    case headB
    then have at: "?at \<le> ln_bottom b" "?at < ln_bottom a" using a(3) cur by auto
    note adv = advance_ok [OF 1(7) at(1)]
    have "builds rg ?P (rbind (appendLine_chunk ?bt ?at B (ln_chunk_handle b) rg)
        (union_lines A B ?at (a # as) (advance ?at (b # bs))))"
    proof (rule builds_chunk [OF 1(8) ends(2) _ headB(4) b(1,4)])
      fix rg' assume rg': "region_ok rg'" "ends_by rg' ?at"
      show "builds rg' (\<lambda>x y. ?at \<le> y \<and> (lines_cover A (a # as) x y \<or> lines_cover B (advance ?at (b # bs)) x y))
          (union_lines A B ?at (a # as) (advance ?at (b # bs)) rg')"
        using ends_by_cur [OF rg'(2)] adv(2) at(2) a(7)
        by (intro 1(4) [OF refl refl headB 1(6) adv(1) rg'(1)]) fastforce+
    next
      show "?P x y \<longleftrightarrow> ?bt \<le> y \<and> y < ?at \<and> in_spans x (spans_of B (ln_chunk_handle b)) \<or>
          ?at \<le> y \<and> (lines_cover A (a # as) x y \<or> lines_cover B (advance ?at (b # bs)) x y)" for x y
        using union_points_head [OF 1(7,6) headB(4) at(1), of y x] by (simp only: disj_commute)
    qed (use b in auto)
    then show ?thesis by (simp only: union_lines.simps Let_def headB if_True if_False)
  next
    case even
    let ?nb = "min (ln_bottom a) (ln_bottom b)"
    have eq: "?at = ?bt" and nb: "?at < ?nb" "?nb \<le> ln_bottom a" "?nb \<le> ln_bottom b" using even by auto
    note advA = advance_ok [OF 1(6) nb(2)] and advB = advance_ok [OF 1(7) nb(3)]
    obtain us where us: "unionLineSpans A (ln_chunk_handle a) B (ln_chunk_handle b) = Inr us" "wf_spans us"
      "\<And>x. in_spans x us \<longleftrightarrow> in_spans x (spans_of A (ln_chunk_handle a)) \<or> in_spans x (spans_of B (ln_chunk_handle b))"
      using unionLineSpans_ok [OF a(1) b(1) a(4) b(4)] by blast
    have "builds rg ?P (rbind (appendLine ?at ?nb us rg)
        (union_lines A B ?nb (advance ?nb (a # as)) (advance ?nb (b # bs))))"
    proof (rule builds_append [OF 1(8) ends(1) _ nb(1) us(2)])
      fix rg' assume rg': "region_ok rg'" "ends_by rg' ?nb"
      show "builds rg' (\<lambda>x y. ?nb \<le> y \<and>
            (lines_cover A (advance ?nb (a # as)) x y \<or> lines_cover B (advance ?nb (b # bs)) x y))
          (union_lines A B ?nb (advance ?nb (a # as)) (advance ?nb (b # bs)) rg')"
        using ends_by_cur [OF rg'(2)] advA(2) advB(2)
        by (intro 1(5) [OF refl refl even refl advA(1) advB(1) rg'(1)]) auto
    next
      show "?P x y \<longleftrightarrow> ?at \<le> y \<and> y < ?nb \<and> in_spans x us \<or>
          ?nb \<le> y \<and> (lines_cover A (advance ?nb (a # as)) x y \<or> lines_cover B (advance ?nb (b # bs)) x y)" for x y
        unfolding us(3) by (rule union_points_even [OF 1(6,7) eq nb(2,3,1)])
    qed (use a in auto)
    moreover have "union_lines A B cur_top (a # as) (b # bs) rg = rbind (appendLine ?at ?nb us rg)
        (union_lines A B ?nb (advance ?nb (a # as)) (advance ?nb (b # bs)))"
    proof -
      have req: "(?at = ?bt \<and> ?at < ?nb \<and> ?bt < ?nb) = True" using eq nb(1) by simp
      show ?thesis by (simp only: union_lines.simps Let_def even if_False req require_True us(1) rbind_Inr)
    qed
    ultimately show ?thesis by (simp only:)
  qed
next
  case (2 A B cur_top bs rg)
  then show ?case using append_rest_builds [of B bs rg cur_top] by simp
next
  case (3 A B cur_top a as rg)
  then show ?case using append_rest_builds [of A "a # as" rg cur_top] by simp
qed

section \<open>Bounds\<close>

lemma is_bounds_empty: "(\<And>x y. \<not> C x y) \<Longrightarrow> is_bounds MakeEmpty C"
  by (simp add: is_bounds_def)

lemma is_boundsD:
  assumes "is_bounds r C"
  shows "C x y \<Longrightarrow> in_rect r x y" "rect_empty r \<longleftrightarrow> (\<forall>x y. \<not> C x y)"
  using assms by (auto simp: is_bounds_def rect_empty_iff split: if_splits) (auto simp: in_rect_def)

lemma is_bounds_join:
  assumes sk: "SkIRect_docs sk" and r: "is_bounds r C" and s: "is_bounds s D"
  shows "is_bounds (sk_join sk r s) (\<lambda>x y. C x y \<or> D x y)"
proof -
  consider "rect_empty s" | "\<not> rect_empty s" "rect_empty r" | (both) "\<not> rect_empty s" "\<not> rect_empty r" by blast
  then show ?thesis
  proof cases
    case both
    then obtain x y x' y' where "C x y" "D x' y'" using is_boundsD(2) [OF r] is_boundsD(2) [OF s] by blast
    then have C: "\<And>x y. C x y \<Longrightarrow> in_rect r x y" "\<exists>y. C (fLeft r) y" "\<exists>y. C (fRight r - 1) y" "\<exists>x. C x (fTop r)" "\<exists>x. C x (fBottom r - 1)"
      and D: "\<And>x y. D x y \<Longrightarrow> in_rect s x y" "\<exists>y. D (fLeft s) y" "\<exists>y. D (fRight s - 1) y" "\<exists>x. D x (fTop s)" "\<exists>x. D x (fBottom s - 1)"
      using r s by (auto simp: is_bounds_def split: if_splits)
    have "sk_join sk r s = rect_hull r s" using both sk by (simp add: SkIRect_docs_def)
    moreover have "in_rect (rect_hull r s) x y" if "C x y \<or> D x y" for x y
      using that C(1) [of x y] D(1) [of x y] by (auto simp: in_rect_def rect_hull_def)
    moreover have "\<exists>x y. C x y \<or> D x y" using \<open>C x y\<close> by blast
    ultimately show ?thesis using C(2-5) D(2-5) by (auto simp: is_bounds_def rect_hull_def min_def max_def)
  qed (use r s sk is_boundsD(2) [OF r] is_boundsD(2) [OF s] in \<open>auto simp: SkIRect_docs_def\<close>)
qed

lemma wf_spans_hull:
  assumes "wf_spans ss"
  shows "in_spans (sp_left (hd ss)) ss" "in_spans (sp_right (last ss) - 1) ss"
    "in_spans x ss \<Longrightarrow> sp_left (hd ss) \<le> x \<and> x < sp_right (last ss)"
proof -
  have ss: "ss \<noteq> []" "\<And>s. s \<in> set ss \<Longrightarrow> sp_left s < sp_right s" "sorted_wrt span_before ss"
    using assms by (auto simp: wf_spans_def list_all_iff span_ok_def)
  show "in_spans (sp_left (hd ss)) ss" using ss(1) ss(2) [of "hd ss"] unfolding in_spans_def by (intro bexI [of _ "hd ss"]) auto
  show "in_spans (sp_right (last ss) - 1) ss"
    using ss(1) ss(2) [of "last ss"] unfolding in_spans_def by (intro bexI [of _ "last ss"]) auto
  have "sp_left (hd ss) \<le> sp_left s" if "s \<in> set ss" for s
    using that ss(2,3) by (cases ss) (auto simp: span_before_def, force)
  moreover have "sp_right s \<le> sp_right (last ss)" if "s \<in> set ss" for s
    using that ss(2,3) by (cases ss rule: rev_cases) (auto simp: span_before_def sorted_wrt_append, force)
  ultimately show "in_spans x ss \<Longrightarrow> sp_left (hd ss) \<le> x \<and> x < sp_right (last ss)"
    by (force simp: in_spans_def)
qed

lemma is_bounds_band:
  assumes "wf_spans ss" "t < b"
  shows "is_bounds (MakeLTRB (sp_left (hd ss)) t (sp_right (last ss)) b) (\<lambda>x y. t \<le> y \<and> y < b \<and> in_spans x ss)"
proof -
  note ss = wf_spans_hull [OF assms(1)]
  have "\<exists>x y. t \<le> y \<and> y < b \<and> in_spans x ss" using ss(1) assms(2) by blast
  with ss assms(2) show ?thesis by (auto simp: is_bounds_def in_rect_def)
qed

lemma is_bounds_cong: "(\<And>x y. C x y \<longleftrightarrow> D x y) \<Longrightarrow> is_bounds r C = is_bounds r D"
  by (rule arg_cong [where f = "is_bounds r"]) (intro ext, simp)

subsection \<open>Intersection of lines\<close>

text \<open>As \<open>builds\<close>, with bounds that grow with the region.\<close>

definition builds_bounded :: "DlRegion \<Rightarrow> (int \<Rightarrow> int \<Rightarrow> bool) \<Rightarrow> DlRegion result \<Rightarrow> bool" where
  "builds_bounded rg P res =
     (\<exists>rg'. res = Inr rg' \<and> region_ok rg' \<and> is_bounds (rg_bounds rg') (covers (bands rg')) \<and>
       (\<forall>x y. covers (bands rg') x y \<longleftrightarrow> covers (bands rg) x y \<or> P x y))"

definition region_at :: "DlRegion \<Rightarrow> int \<Rightarrow> bool" where
  "region_at rg h = (region_ok rg \<and> ends_by rg h \<and> is_bounds (rg_bounds rg) (covers (bands rg)))"

lemma append_intersection_ok:
  assumes sk: "SkIRect_docs sk" and rg: "region_at rg c" and "c \<le> t" "kIntMin \<le> t" "t < b" "us \<noteq> [] \<Longrightarrow> wf_spans us"
  obtains rg' where "append_intersection sk t b us rg = Inr rg'" "region_at rg' b"
    "\<And>x y. covers (bands rg') x y \<longleftrightarrow> covers (bands rg) x y \<or> t \<le> y \<and> y < b \<and> in_spans x us"
proof (cases "us = []")
  case True
  have "region_at rg b" using rg assms(3,5) ends_by_mono [of rg c b] by (simp add: region_at_def)
  with True that show ?thesis by (simp add: append_intersection_def)
next
  case False
  then have us: "wf_spans us" by (rule assms(6))
  have "ends_by rg t" using rg assms(3) ends_by_mono [of rg c t] by (simp add: region_at_def)
  with rg obtain rg' where rg': "appendLine t b us rg = Inr rg'" "region_ok rg'" "ends_by rg' b" "rg_bounds rg' = rg_bounds rg"
    "\<And>x y. covers (bands rg') x y \<longleftrightarrow> covers (bands rg) x y \<or> t \<le> y \<and> y < b \<and> in_spans x us"
    using appendLine_ok [of rg t b us] assms(4,5) us unfolding region_at_def by blast
  let ?res = "rg'\<lparr>rg_bounds := sk_join sk (rg_bounds rg') (MakeLTRB (sp_left (hd us)) t (sp_right (last us)) b)\<rparr>"
  have same: "bands ?res = bands rg'" "region_ok ?res = region_ok rg'" "ends_by ?res b = ends_by rg' b"
    by (simp_all add: bands_def region_ok_def ends_by_def)
  have "is_bounds (rg_bounds ?res) (\<lambda>x y. covers (bands rg) x y \<or> t \<le> y \<and> y < b \<and> in_spans x us)"
    using is_bounds_join [OF sk _ is_bounds_band [OF us assms(5)]] rg by (simp add: rg'(4) region_at_def)
  then have "is_bounds (rg_bounds ?res) (covers (bands ?res))"
    using is_bounds_cong [of "covers (bands ?res)"] rg'(5) same(1) by simp
  with rg' same False show ?thesis
    by (intro that [of ?res]) (simp_all add: append_intersection_def region_at_def)
qed

lemma intersect_points:
  assumes A: "lines_ok A (a # as)" and B: "lines_ok B (b # bs)"
    and n: "n \<le> ln_bottom a" "n \<le> ln_bottom b" "max (max c (ln_top a)) (max c (ln_top b)) < n"
  shows "c \<le> y \<and> lines_cover A (a # as) x y \<and> lines_cover B (b # bs) x y \<longleftrightarrow>
    max (max c (ln_top a)) (max c (ln_top b)) \<le> y \<and> y < n \<and>
      in_spans x (spans_of A (ln_chunk_handle a)) \<and> in_spans x (spans_of B (ln_chunk_handle b)) \<or>
    n \<le> y \<and> lines_cover A (advance n (a # as)) x y \<and> lines_cover B (advance n (b # bs)) x y"
proof (cases "y < n")
  case True
  have "\<not> lines_cover A as x y" using lines_cover_above [OF A, of x y] True n(1) by linarith
  moreover have "\<not> lines_cover B bs x y" using lines_cover_above [OF B, of x y] True n(2) by linarith
  moreover have "y < ln_bottom a" "y < ln_bottom b" "\<not> n \<le> y" using True n by linarith+
  moreover have "c \<le> y \<and> ln_top a \<le> y \<and> ln_top b \<le> y \<longleftrightarrow> max (max c (ln_top a)) (max c (ln_top b)) \<le> y" by auto
  ultimately show ?thesis using True unfolding lines_cover_simps by metis
next
  case False
  then have le: "n \<le> y" by linarith
  with n(3) have "c \<le> y" by linarith
  with le False advance_ok(3) [OF A n(1) le, of x] advance_ok(3) [OF B n(2) le, of x] show ?thesis by blast
qed

lemma intersect_lines_builds:
  assumes sk: "SkIRect_docs sk"
    and "lines_ok a_buffer as" "lines_ok b_buffer bs" "region_at rg cur_top"
    and "\<And>l. l \<in> set as \<union> set bs \<Longrightarrow> cur_top < ln_bottom l"
  shows "builds_bounded rg (\<lambda>x y. cur_top \<le> y \<and> lines_cover a_buffer as x y \<and> lines_cover b_buffer bs x y)
    (intersect_lines sk a_buffer b_buffer tmp_size cur_top as bs rg)"
  using assms
proof (induction sk a_buffer b_buffer tmp_size cur_top as bs rg rule: intersect_lines.induct)
  case (1 sk A B n c a as b bs rg)
  let ?at = "max c (ln_top a)" and ?bt = "max c (ln_top b)"
  note a = lines_ok_ConsD [OF 1(5)] and b = lines_ok_ConsD [OF 1(6)]
  have cur: "c < ln_bottom a" "c < ln_bottom b" using 1(8) by auto
  have aboveA: "ln_bottom a \<le> y" if "lines_cover A as x y" for x y using lines_cover_above [OF 1(5) that] .
  have aboveB: "ln_bottom b \<le> y" if "lines_cover B bs x y" for x y using lines_cover_above [OF 1(6) that] .
  consider (skipA) "ln_bottom a \<le> ?bt" | (skipB) "\<not> ln_bottom a \<le> ?bt" "ln_bottom b \<le> ?at"
    | (both) "\<not> ln_bottom a \<le> ?bt" "\<not> ln_bottom b \<le> ?at" by blast
  then show ?case
  proof cases
    case skipA
    have eq: "c \<le> y \<and> lines_cover A (a # as) x y \<and> lines_cover B (b # bs) x y \<longleftrightarrow>
        c \<le> y \<and> lines_cover A as x y \<and> lines_cover B (b # bs) x y" for x y
      using skipA cur(1) b(3) aboveB [of x y] by auto
    have "builds_bounded rg (\<lambda>x y. c \<le> y \<and> lines_cover A as x y \<and> lines_cover B (b # bs) x y)
        (intersect_lines sk A B n c as (b # bs) rg)"
      by (rule 1(1) [OF refl refl skipA 1(4) a(5) 1(6,7)]) (use 1(8) in auto)
    then show ?thesis unfolding eq by (simp only: intersect_lines.simps Let_def skipA if_True)
  next
    case skipB
    have eq: "c \<le> y \<and> lines_cover A (a # as) x y \<and> lines_cover B (b # bs) x y \<longleftrightarrow>
        c \<le> y \<and> lines_cover A (a # as) x y \<and> lines_cover B bs x y" for x y
      using skipB cur(2) a(3) aboveA [of x y] by auto
    have "builds_bounded rg (\<lambda>x y. c \<le> y \<and> lines_cover A (a # as) x y \<and> lines_cover B bs x y)
        (intersect_lines sk A B n c (a # as) bs rg)"
      by (rule 1(2) [OF refl refl skipB 1(4,5) b(5) 1(7)]) (use 1(8) in auto)
    then show ?thesis unfolding eq by (simp only: intersect_lines.simps Let_def skipB if_True if_False)
  next
    case both
    let ?t = "max ?at ?bt" and ?n = "min (ln_bottom a) (ln_bottom b)"
    have t: "?t < ?n" "c \<le> ?t" "kIntMin \<le> ?t" and n: "?n \<le> ln_bottom a" "?n \<le> ln_bottom b"
      using both cur a(2,3) b(3) by auto
    obtain us m where us: "intersectLineSpans n A (ln_chunk_handle a) B (ln_chunk_handle b) = Inr (us, m)"
      "us \<noteq> [] \<Longrightarrow> wf_spans us"
      "\<And>x. in_spans x us \<longleftrightarrow> in_spans x (spans_of A (ln_chunk_handle a)) \<and> in_spans x (spans_of B (ln_chunk_handle b))"
      using intersectLineSpans_ok [OF a(1) b(1) a(4) b(4)] by blast
    obtain rg' where rg': "append_intersection sk ?t ?n us rg = Inr rg'" "region_at rg' ?n"
      "\<And>x y. covers (bands rg') x y \<longleftrightarrow> covers (bands rg) x y \<or> ?t \<le> y \<and> y < ?n \<and> in_spans x us"
      using append_intersection_ok [OF 1(4,7) t(2,3,1) us(2)] by blast
    note advA = advance_ok [OF 1(5) n(1)] and advB = advance_ok [OF 1(6) n(2)]
    have IH: "builds_bounded rg' (\<lambda>x y. ?n \<le> y \<and> lines_cover A (advance ?n (a # as)) x y \<and> lines_cover B (advance ?n (b # bs)) x y)
        (intersect_lines sk A B m ?n (advance ?n (a # as)) (advance ?n (b # bs)) rg')"
      by (rule 1(3) [OF refl refl both refl refl 1(4) advA(1) advB(1) rg'(2)]) (use advA(2) advB(2) in auto)
    have "builds_bounded rg (\<lambda>x y. c \<le> y \<and> lines_cover A (a # as) x y \<and> lines_cover B (b # bs) x y)
        (intersect_lines sk A B m ?n (advance ?n (a # as)) (advance ?n (b # bs)) rg')"
      using IH unfolding builds_bounded_def rg'(3) us(3) intersect_points [OF 1(5,6) n t(1)] by blast
    then show ?thesis
      using t(1) by (simp only: intersect_lines.simps Let_def both if_False require_True us(1) rbind_Inr case_prod_conv rg'(1))
  qed
qed (auto simp: builds_bounded_def region_at_def)

end
