(* ===== verification/Dl_Region_Spec.thy ===== *)
theory Dl_Region_Spec
  imports Dl_Region_Ops
begin

text \<open>
  What regions promise: unions, intersections and intersection tests are those of the covered
  points, the rectangles of a region are disjoint and cover exactly the region, and every operation
  keeps the invariant.
\<close>

section \<open>Simple regions\<close>

lemma region_wf_ok: "region_wf rg \<Longrightarrow> region_ok rg"
  by (simp add: region_wf_def region_ok_def)

lemma region_covers_lines: "region_covers rg = lines_cover (rg_span_buffer rg) (rg_lines rg)"
  by (simp add: region_covers_def lines_cover_def bands_def)

lemma region_wfI: "region_ok rg \<Longrightarrow> is_bounds (rg_bounds rg) (covers (bands rg)) \<Longrightarrow> region_wf rg"
  by (simp add: region_wf_def region_ok_def region_covers_def)

lemma region_wf_bounds: "region_wf rg \<Longrightarrow> is_bounds (rg_bounds rg) (region_covers rg)"
  by (simp add: region_wf_def)

lemma empty_region [simp]: "region_wf DlRegion_empty" "\<not> region_covers DlRegion_empty x y"
  by (simp_all add: region_wf_def DlRegion_empty_def region_covers_lines is_bounds_empty)

lemma is_bounds_rect:
  assumes "is_bounds r C" "\<And>x y. C x y \<longleftrightarrow> in_rect q x y" "\<not> rect_empty q"
  shows "r = q"
proof -
  have q: "fLeft q < fRight q" "fTop q < fBottom q" using assms(3) by (auto simp: rect_empty_def)
  then have "C (fLeft q) (fTop q)" "C (fRight q - 1) (fBottom q - 1)" by (auto simp: assms(2) in_rect_def)
  with assms(1) have r: "in_rect r (fLeft q) (fTop q)" "in_rect r (fRight q - 1) (fBottom q - 1)"
    and ends: "\<exists>y. C (fLeft r) y" "\<exists>y. C (fRight r - 1) y" "\<exists>x. C x (fTop r)" "\<exists>x. C x (fBottom r - 1)"
    by (auto simp: is_bounds_def split: if_splits)
  from ends [unfolded assms(2)] r show ?thesis
    by (cases r; cases q) (auto simp: in_rect_def)
qed

lemma isComplex_ok:
  assumes "region_ok rg"
  shows "isComplex rg = Inr (length (rg_lines rg) > 1 \<or>
    length (rg_lines rg) = 1 \<and> length (spans_of (rg_span_buffer rg) (ln_chunk_handle (hd (rg_lines rg)))) > 1)"
  using assms by (cases "rg_lines rg") (auto simp: isComplex_def region_ok_def lines_ok_def getChunkSize_ok)

lemma isSimple_ok:
  assumes "region_wf rg"
  obtains s where "isSimple rg = Inr s" "isComplex rg = Inr (\<not> s)"
    "s \<Longrightarrow> rg_lines rg \<noteq> [] \<Longrightarrow> region_covers rg = in_rect (rg_bounds rg)"
proof -
  let ?c = "length (rg_lines rg) > 1 \<or>
    length (rg_lines rg) = 1 \<and> length (spans_of (rg_span_buffer rg) (ln_chunk_handle (hd (rg_lines rg)))) > 1"
  note ok = region_wf_ok [OF assms]
  have "region_covers rg = in_rect (rg_bounds rg)" if "\<not> ?c" "rg_lines rg \<noteq> []"
  proof -
    from that have "length (rg_lines rg) = 1" by (cases "rg_lines rg") auto
    then obtain l where l: "rg_lines rg = [l]" by (cases "rg_lines rg") auto
    let ?ss = "spans_of (rg_span_buffer rg) (ln_chunk_handle l)"
    note L = lines_ok_ConsD [OF ok [unfolded region_ok_def l]]
    from that l L(4) have "length ?ss = 1" by (cases ?ss) (auto simp: wf_spans_def)
    then obtain s where s: "?ss = [s]" by (cases ?ss) auto
    let ?q = "MakeLTRB (sp_left s) (ln_top l) (sp_right s) (ln_bottom l)"
    have cov: "region_covers rg x y \<longleftrightarrow> in_rect ?q x y" for x y
      by (auto simp: region_covers_lines l s in_rect_def)
    have "\<not> rect_empty ?q" using L(3,4) s by (simp add: rect_empty_def wf_spans_def span_ok_def)
    from is_bounds_rect [OF region_wf_bounds [OF assms] cov this] cov show ?thesis by (intro ext) simp
  qed
  with isComplex_ok [OF ok] show ?thesis by (intro that [of "\<not> ?c"]) (simp_all add: isSimple_def)
qed

lemma region_of_rect:
  assumes "\<not> rect_empty r" "kIntMin \<le> fTop r"
  obtains rg where "DlRegion_of_rect r = Inr rg" "region_wf rg" "region_covers rg = in_rect r"
proof -
  let ?e = "DlRegion_empty\<lparr>rg_bounds := r\<rparr>" and ?ss = "[mk_span (fLeft r) (fRight r)]"
  have "list_all (\<lambda>l. chunk_ok (rg_span_buffer ?e) (ln_chunk_handle l)) (rg_lines ?e)" by (simp add: DlRegion_empty_def)
  from push_line_ok [OF this] obtain rg where rg: "push_line (fTop r) (fBottom r) ?ss ?e = Inr rg"
    "bands rg = bands ?e @ [(fTop r, fBottom r, ?ss)]" "rg_bounds rg = rg_bounds ?e"
    "list_all (\<lambda>l. chunk_ok (rg_span_buffer rg) (ln_chunk_handle l)) (rg_lines rg)" by metis
  have bands: "bands rg = [(fTop r, fBottom r, ?ss)]" unfolding rg(2) by (simp add: bands_def DlRegion_empty_def)
  have wf: "wf_spans ?ss" "fTop r < fBottom r" using assms by (simp_all add: wf_spans_def span_ok_def rect_empty_def)
  have cov: "region_covers rg = in_rect r"
    by (intro ext) (auto simp: region_covers_def bands in_rect_def)
  have "region_ok rg"
    using rg(4) wf assms(2) bands by (simp add: region_ok_def lines_ok_def wf_bands_def band_ok_def bands_def)
  moreover have "is_bounds (rg_bounds rg) (covers (bands rg))"
  proof -
    have "covers (bands rg) = (\<lambda>x y. fTop r \<le> y \<and> y < fBottom r \<and> in_spans x ?ss)"
      by (intro ext) (simp add: bands)
    with is_bounds_band [OF wf] show ?thesis by (cases r) (simp add: rg(3))
  qed
  ultimately show ?thesis using that rg(1) cov region_wfI by (simp add: DlRegion_of_rect_def)
qed

section \<open>Union\<close>

lemma region_wf_lines: "region_wf rg \<Longrightarrow> lines_ok (rg_span_buffer rg) (rg_lines rg)"
  by (simp add: region_wf_def)

lemma lines_ok_bottom:
  "lines_ok sb ls \<Longrightarrow> l \<in> set ls \<Longrightarrow> kIntMin < ln_bottom l"
proof (induction ls)
  case (Cons m ls)
  then show ?case using lines_ok_ConsD(2,3,5) [OF Cons.prems(1)] by auto
qed simp

text \<open>An empty region that a loop starts from.\<close>

lemma fresh_region:
  "region_ok \<lparr>rg_lines = [], rg_bounds = r, rg_span_buffer = sb\<rparr>"
  "ends_by \<lparr>rg_lines = [], rg_bounds = r, rg_span_buffer = sb\<rparr> h"
  "\<not> covers (bands \<lparr>rg_lines = [], rg_bounds = r, rg_span_buffer = sb\<rparr>) x y"
  by (simp_all add: region_ok_def ends_by_def bands_def)

lemma lines_ge_kIntMin:
  "lines_ok sb ls \<Longrightarrow> lines_cover sb ls x y \<Longrightarrow> kIntMin \<le> y"
proof (induction ls)
  case (Cons m ls)
  then show ?case using lines_ok_ConsD(2,5) [OF Cons.prems(1)] by auto
qed simp

lemma is_bounds_contained:
  assumes "SkIRect_docs sk" "is_bounds r C" "sk_contains sk q r"
  shows "C x y \<Longrightarrow> in_rect q x y"
  using sk_contains_in [OF assms(1,3)] is_boundsD(1) [OF assms(2)] by blast

lemma union_lines_region:
  assumes sk: "SkIRect_docs sk" and a: "region_wf a" and b: "region_wf b"
  shows "\<exists>c. union_lines (rg_span_buffer a) (rg_span_buffer b) kIntMin (rg_lines a) (rg_lines b)
      \<lparr>rg_lines = [], rg_bounds = sk_join sk (rg_bounds a) (rg_bounds b), rg_span_buffer = sb\<rparr> = Inr c \<and>
    region_wf c \<and> (\<forall>x y. region_covers c x y \<longleftrightarrow> region_covers a x y \<or> region_covers b x y)"
proof -
  let ?r = "\<lparr>rg_lines = [], rg_bounds = sk_join sk (rg_bounds a) (rg_bounds b), rg_span_buffer = sb\<rparr>"
  note la = region_wf_lines [OF a] and lb = region_wf_lines [OF b]
  have "builds ?r (\<lambda>x y. kIntMin \<le> y \<and> (region_covers a x y \<or> region_covers b x y))
      (union_lines (rg_span_buffer a) (rg_span_buffer b) kIntMin (rg_lines a) (rg_lines b) ?r)"
    unfolding region_covers_lines
    using lines_ok_bottom [OF la] lines_ok_bottom [OF lb]
    by (intro union_lines_builds [OF la lb]) (auto simp: fresh_region)
  moreover have "kIntMin \<le> y \<and> (region_covers a x y \<or> region_covers b x y) \<longleftrightarrow> region_covers a x y \<or> region_covers b x y" for x y
    using lines_ge_kIntMin [OF la] lines_ge_kIntMin [OF lb] unfolding region_covers_lines by blast
  ultimately obtain c where c: "union_lines (rg_span_buffer a) (rg_span_buffer b) kIntMin (rg_lines a) (rg_lines b) ?r = Inr c"
    "region_ok c" "rg_bounds c = sk_join sk (rg_bounds a) (rg_bounds b)"
    "\<And>x y. covers (bands c) x y \<longleftrightarrow> region_covers a x y \<or> region_covers b x y"
    unfolding builds_def by (auto simp: fresh_region)
  have "is_bounds (rg_bounds c) (covers (bands c))"
    unfolding c(3) using is_bounds_join [OF sk region_wf_bounds [OF a] region_wf_bounds [OF b]]
    by (simp add: is_bounds_cong [OF c(4)])
  with c show ?thesis using region_wfI by (simp add: region_covers_def)
qed

lemma union_region:
  assumes sk: "SkIRect_docs sk" and a: "region_wf a" and b: "region_wf b"
  shows "\<exists>c. MakeUnion sk a b = Inr c \<and> region_wf c \<and>
    (\<forall>x y. region_covers c x y \<longleftrightarrow> region_covers a x y \<or> region_covers b x y)"
proof -
  obtain s where s: "isSimple a = Inr s" "s \<Longrightarrow> rg_lines a \<noteq> [] \<Longrightarrow> region_covers a = in_rect (rg_bounds a)"
    using isSimple_ok [OF a] by metis
  obtain t where t: "isSimple b = Inr t" "t \<Longrightarrow> rg_lines b \<noteq> [] \<Longrightarrow> region_covers b = in_rect (rg_bounds b)"
    using isSimple_ok [OF b] by metis
  note inside = is_bounds_contained [OF sk region_wf_bounds [OF a]] is_bounds_contained [OF sk region_wf_bounds [OF b]]
  consider (emptyA) "rg_lines a = []" | (emptyB) "rg_lines a \<noteq> []" "rg_lines b = []"
    | (inA) "rg_lines a \<noteq> []" "rg_lines b \<noteq> []" "s" "sk_contains sk (rg_bounds a) (rg_bounds b)"
    | (inB) "rg_lines a \<noteq> []" "rg_lines b \<noteq> []" "\<not> (s \<and> sk_contains sk (rg_bounds a) (rg_bounds b))"
        "t" "sk_contains sk (rg_bounds b) (rg_bounds a)"
    | (loop) "rg_lines a \<noteq> []" "rg_lines b \<noteq> []" "\<not> (s \<and> sk_contains sk (rg_bounds a) (rg_bounds b))"
        "\<not> (t \<and> sk_contains sk (rg_bounds b) (rg_bounds a))" by blast
  then show ?thesis
  proof cases
    case inA
    with s(2) inside(2) have "region_covers a x y \<or> region_covers b x y \<longleftrightarrow> region_covers a x y" for x y by auto
    with inA s a show ?thesis by (simp add: MakeUnion_def rg_isEmpty_def)
  next
    case inB
    with t(2) inside(1) have "region_covers a x y \<or> region_covers b x y \<longleftrightarrow> region_covers b x y" for x y by auto
    with inB s t b show ?thesis by (auto simp: MakeUnion_def rg_isEmpty_def)
  next
    case loop
    with union_lines_region [OF sk a b] s t show ?thesis by (auto simp: MakeUnion_def rg_isEmpty_def)
  qed (use a b in \<open>auto simp: MakeUnion_def rg_isEmpty_def region_covers_lines\<close>)
qed

section \<open>Binary search\<close>

text \<open>On a partitioned sequence, \<open>lower_bound\<close> is the linear search.\<close>

lemma lower_bound_dropWhile:
  "sorted_wrt (\<lambda>x y. P y \<longrightarrow> P x) xs \<Longrightarrow> lower_bound P xs = dropWhile P xs"
proof (induction P xs rule: lower_bound.induct)
  case (1 P xs)
  show ?case
  proof (cases "xs = []")
    case True
    then show ?thesis by (simp add: lower_bound.simps)
  next
    case False
    let ?h = "length xs div 2"
    from False have h: "?h < length xs" by (simp add: div_less_dividend)
    have split: "xs = take ?h xs @ xs ! ?h # drop (?h + 1) xs" using id_take_nth_drop [OF h] by simp
    have sorted: "sorted_wrt (\<lambda>x y. P y \<longrightarrow> P x) (take ?h xs)" "sorted_wrt (\<lambda>x y. P y \<longrightarrow> P x) (drop (?h + 1) xs)"
      using "1.prems" by (simp_all add: sorted_wrt_take sorted_wrt_drop)
    show ?thesis
    proof (cases "P (xs ! ?h)")
      case True
      have "\<forall>x\<in>set (take ?h xs). P x"
        using "1.prems" True by (subst (asm) split) (simp add: sorted_wrt_append)
      with True have "dropWhile P xs = dropWhile P (drop (?h + 1) xs)"
        by (subst split) (simp add: dropWhile_append2)
      with "1.IH"(1) [OF False refl True sorted(2)] False True show ?thesis by (simp add: lower_bound.simps [of P xs] Let_def)
    next
      case no: False
      have "dropWhile P xs = dropWhile P (take ?h xs) @ drop ?h xs"
      proof (cases "\<forall>x\<in>set (take ?h xs). P x")
        case True
        then have "dropWhile P xs = dropWhile P (drop ?h xs)"
          using dropWhile_append2 [of "take ?h xs" P "drop ?h xs"] by simp
        also have "\<dots> = drop ?h xs" using no h by (simp add: Cons_nth_drop_Suc [symmetric])
        finally show ?thesis using True by (simp add: dropWhile_eq_Nil_conv [THEN iffD2])
      next
        case False
        then show ?thesis by (metis append_take_drop_id dropWhile_append1)
      qed
      with "1.IH"(2) [OF False refl no sorted(1)] False no show ?thesis by (simp add: lower_bound.simps [of P xs] Let_def)
    qed
  qed
qed

text \<open>Lines that end above a height are a prefix, so both searches drop exactly them.\<close>

lemma lines_ok_partition:
  "lines_ok sb ls \<Longrightarrow> sorted_wrt (\<lambda>l m. ln_bottom m \<le> h \<longrightarrow> ln_bottom l \<le> h) ls"
proof (induction ls)
  case (Cons l ls)
  then show ?case using lines_ok_ConsD(5,7) [OF Cons.prems] by force
qed simp

lemma lines_ok_drop: "lines_ok sb ls \<Longrightarrow> lines_ok sb (drop n ls)"
proof (induction n arbitrary: ls)
  case (Suc n)
  then show ?case using lines_ok_ConsD(5) by (cases ls) auto
qed simp

lemma lines_ok_dropWhile: "lines_ok sb ls \<Longrightarrow> lines_ok sb (dropWhile P ls)"
  by (metis dropWhile_eq_drop lines_ok_drop)

lemma search_eq:
  assumes "lines_ok sb ls" "n < length ls" "ln_bottom (ls ! n) \<le> h"
  shows "lower_bound (\<lambda>l. ln_bottom l \<le> h) (drop (n + 1) ls) = dropWhile (\<lambda>l. ln_bottom l \<le> h) ls"
proof -
  let ?P = "\<lambda>l. ln_bottom l \<le> h"
  have ls: "ls = take n ls @ ls ! n # drop (n + 1) ls" using id_take_nth_drop [OF assms(2)] by simp
  have "\<forall>l\<in>set (take n ls). ?P l"
    using lines_ok_partition [OF assms(1), of h] assms(3) by (subst (asm) ls) (simp add: sorted_wrt_append)
  with assms(3) have "dropWhile ?P ls = dropWhile ?P (drop (n + 1) ls)"
    by (subst ls) (simp add: dropWhile_append2)
  with lower_bound_dropWhile [OF lines_ok_partition [OF lines_ok_drop [OF assms(1)]]] show ?thesis by metis
qed

lemma dropWhile_cover:
  assumes "lines_ok sb ls"
  shows "h \<le> y \<Longrightarrow> lines_cover sb (dropWhile (\<lambda>l. ln_bottom l \<le> h) ls) x y = lines_cover sb ls x y"
  using assms
proof (induction ls)
  case (Cons l ls)
  then show ?case using lines_ok_ConsD(5) [OF Cons.prems(2)] by auto
qed simp

text \<open>
  The iterators from which two regions are compared leave out only lines that do not meet the other
  region.
\<close>

lemma iterators_ok:
  assumes a: "lines_ok A as" "as \<noteq> []" and b: "lines_ok B bs" "bs \<noteq> []"
  obtains as' bs' where "getIntersectionIterators as bs = Inr (as', bs')" "lines_ok A as'" "lines_ok B bs'"
    "\<And>x y. lines_cover A as' x y \<and> lines_cover B bs' x y \<longleftrightarrow> lines_cover A as x y \<and> lines_cover B bs x y"
proof -
  have hd_le: "ln_top (hd ls) \<le> y" if "lines_ok sb ls" "lines_cover sb ls x y" for sb ls x y
  proof (cases ls)
    case (Cons l ls')
    with that have "y < ln_bottom l \<or> ln_bottom l \<le> y" "ln_top l < ln_bottom l"
      using lines_ok_ConsD(3) by auto
    with that Cons show ?thesis using lines_cover_above [of sb l ls' x y] by auto
  qed (use that in simp)
  let ?da = "dropWhile (\<lambda>l. ln_bottom l \<le> ln_top (hd bs)) as" and ?db = "dropWhile (\<lambda>l. ln_bottom l \<le> ln_top (hd as)) bs"
  consider (A) "length as > kBinarySearchThreshold" "ln_bottom (as ! kBinarySearchThreshold) \<le> ln_top (hd bs)"
    | (B) "\<not> (length as > kBinarySearchThreshold \<and> ln_bottom (as ! kBinarySearchThreshold) \<le> ln_top (hd bs))"
        "length bs > kBinarySearchThreshold" "ln_bottom (bs ! kBinarySearchThreshold) \<le> ln_top (hd as)"
    | (none) "\<not> (length as > kBinarySearchThreshold \<and> ln_bottom (as ! kBinarySearchThreshold) \<le> ln_top (hd bs))"
        "\<not> (length bs > kBinarySearchThreshold \<and> ln_bottom (bs ! kBinarySearchThreshold) \<le> ln_top (hd as))" by blast
  then show ?thesis
  proof cases
    case A
    have "getIntersectionIterators as bs = Inr (?da, bs)"
      using A a(2) b(2) search_eq [OF a(1) A] by (simp add: getIntersectionIterators_def)
    then show ?thesis
      by (rule that [OF _ lines_ok_dropWhile [OF a(1)] b(1)]) (use dropWhile_cover [OF a(1)] hd_le [OF b(1)] in blast)
  next
    case B
    have "getIntersectionIterators as bs = Inr (as, ?db)"
      using B a(2) b(2) search_eq [OF b(1) B(2,3)] by (auto simp: getIntersectionIterators_def)
    then show ?thesis
      by (rule that [OF _ a(1) lines_ok_dropWhile [OF b(1)]]) (use dropWhile_cover [OF b(1)] hd_le [OF a(1)] in blast)
  next
    case none
    with a b that show ?thesis by (auto simp: getIntersectionIterators_def)
  qed
qed

section \<open>Intersection\<close>

lemma intersect_lines_region:
  assumes sk: "SkIRect_docs sk" and a: "region_wf a" "rg_lines a \<noteq> []" and b: "region_wf b" "rg_lines b \<noteq> []"
  shows "\<exists>c. rbind (getIntersectionIterators (rg_lines a) (rg_lines b)) (\<lambda>(a_it, b_it).
      intersect_lines sk (rg_span_buffer a) (rg_span_buffer b) 0 kIntMin a_it b_it
        \<lparr>rg_lines = [], rg_bounds = MakeEmpty, rg_span_buffer = sb\<rparr>) = Inr c \<and>
    region_wf c \<and> (\<forall>x y. region_covers c x y \<longleftrightarrow> region_covers a x y \<and> region_covers b x y)"
proof -
  let ?r = "\<lparr>rg_lines = [], rg_bounds = MakeEmpty, rg_span_buffer = sb\<rparr>"
  let ?A = "rg_span_buffer a" and ?B = "rg_span_buffer b"
  obtain as bs where it: "getIntersectionIterators (rg_lines a) (rg_lines b) = Inr (as, bs)"
    "lines_ok ?A as" "lines_ok ?B bs"
    "\<And>x y. lines_cover ?A as x y \<and> lines_cover ?B bs x y \<longleftrightarrow> region_covers a x y \<and> region_covers b x y"
    using iterators_ok [OF region_wf_lines [OF a(1)] a(2) region_wf_lines [OF b(1)] b(2)]
    unfolding region_covers_lines by metis
  have at: "region_at ?r kIntMin" by (simp add: region_at_def fresh_region is_bounds_empty)
  have "builds_bounded ?r (\<lambda>x y. kIntMin \<le> y \<and> lines_cover ?A as x y \<and> lines_cover ?B bs x y)
      (intersect_lines sk ?A ?B 0 kIntMin as bs ?r)"
    using lines_ok_bottom [OF it(2)] lines_ok_bottom [OF it(3)]
    by (intro intersect_lines_builds [OF sk it(2,3) at]) auto
  moreover have "kIntMin \<le> y \<and> lines_cover ?A as x y \<and> lines_cover ?B bs x y \<longleftrightarrow> region_covers a x y \<and> region_covers b x y" for x y
    using lines_ge_kIntMin [OF it(2)] it(4) by blast
  ultimately show ?thesis
    using region_wfI by (auto simp: builds_bounded_def it(1) fresh_region region_covers_def)
qed

lemma nonempty_lines:
  assumes "region_wf rg" "\<not> rect_empty (rg_bounds rg)"
  shows "rg_lines rg \<noteq> []" "kIntMin \<le> fTop (rg_bounds rg)"
proof -
  have "\<exists>x y. region_covers rg x y" using is_boundsD(2) [OF region_wf_bounds [OF assms(1)]] assms(2) by blast
  with region_wf_bounds [OF assms(1)] have "\<exists>x. region_covers rg x (fTop (rg_bounds rg))" by (simp add: is_bounds_def)
  then show "rg_lines rg \<noteq> []" "kIntMin \<le> fTop (rg_bounds rg)"
    using lines_ge_kIntMin [OF region_wf_lines [OF assms(1)]] by (auto simp: region_covers_lines)
qed

lemma intersection_region:
  assumes sk: "SkIRect_docs sk" and a: "region_wf a" and b: "region_wf b"
  shows "\<exists>c. MakeIntersection sk a b = Inr c \<and> region_wf c \<and>
    (\<forall>x y. region_covers c x y \<longleftrightarrow> region_covers a x y \<and> region_covers b x y)"
proof (cases "sk_Intersects sk (rg_bounds a) (rg_bounds b)")
  case False
  then have "\<not> (region_covers a x y \<and> region_covers b x y)" for x y
    using sk_Intersects_iff [OF sk] is_boundsD(1) [OF region_wf_bounds [OF a]] is_boundsD(1) [OF region_wf_bounds [OF b]] by blast
  with False show ?thesis by (simp add: MakeIntersection_def)
next
  case True
  then have ne: "\<not> rect_empty (rg_bounds a)" "\<not> rect_empty (rg_bounds b)" "\<not> rect_empty (rect_meet (rg_bounds a) (rg_bounds b))"
    using sk by (simp_all add: SkIRect_docs_def)
  note la = nonempty_lines [OF a ne(1)] and lb = nonempty_lines [OF b ne(2)]
  obtain s where s: "isSimple a = Inr s" "s \<Longrightarrow> region_covers a = in_rect (rg_bounds a)"
    using isSimple_ok [OF a] la(1) by metis
  obtain t where t: "isSimple b = Inr t" "t \<Longrightarrow> region_covers b = in_rect (rg_bounds b)"
    using isSimple_ok [OF b] lb(1) by metis
  note inside = is_bounds_contained [OF sk region_wf_bounds [OF a]] is_bounds_contained [OF sk region_wf_bounds [OF b]]
  consider (both) "s" "t" | (inA) "s" "\<not> t" "sk_contains sk (rg_bounds a) (rg_bounds b)"
    | (inB) "\<not> (s \<and> t)" "\<not> (s \<and> sk_contains sk (rg_bounds a) (rg_bounds b))" "t" "sk_contains sk (rg_bounds b) (rg_bounds a)"
    | (loop) "\<not> (s \<and> t)" "\<not> (s \<and> sk_contains sk (rg_bounds a) (rg_bounds b))"
        "\<not> (t \<and> sk_contains sk (rg_bounds b) (rg_bounds a))" by blast
  then show ?thesis
  proof cases
    case both
    have "kIntMin \<le> fTop (rect_meet (rg_bounds a) (rg_bounds b))" using la(2) by (simp add: rect_meet_def)
    then obtain c where "DlRegion_of_rect (rect_meet (rg_bounds a) (rg_bounds b)) = Inr c" "region_wf c"
      "region_covers c = in_rect (rect_meet (rg_bounds a) (rg_bounds b))"
      using region_of_rect [OF ne(3)] by blast
    moreover have "sk_intersect sk (rg_bounds a) (rg_bounds b) = (True, rect_meet (rg_bounds a) (rg_bounds b))"
      using sk True by (simp add: SkIRect_docs_def)
    ultimately show ?thesis using True both s t by (simp add: MakeIntersection_def)
  next
    case inA
    then have "region_covers a x y \<and> region_covers b x y \<longleftrightarrow> region_covers b x y" for x y using s(2) inside(2) by auto
    with inA True s t b show ?thesis by (simp add: MakeIntersection_def)
  next
    case inB
    then have "region_covers a x y \<and> region_covers b x y \<longleftrightarrow> region_covers a x y" for x y using t(2) inside(1) by auto
    with inB True s t a show ?thesis by (auto simp: MakeIntersection_def)
  next
    case loop
    have "MakeIntersection sk a b = rbind (getIntersectionIterators (rg_lines a) (rg_lines b)) (\<lambda>(a_it, b_it).
        intersect_lines sk (rg_span_buffer a) (rg_span_buffer b) 0 kIntMin a_it b_it
          \<lparr>rg_lines = [], rg_bounds = MakeEmpty, rg_span_buffer =
            reserve (max (sb_capacity (rg_span_buffer a)) (sb_capacity (rg_span_buffer b))) SpanBuffer_new\<rparr>)"
      by (simp only: MakeIntersection_def True s(1) t(1) rbind_Inr loop not_True_eq_False if_False)
    then show ?thesis using intersect_lines_region [OF sk a la(1) b lb(1)] by simp
  qed
qed

section \<open>Intersection tests\<close>

lemma rect_meets_spans_iff:
  assumes "ss = [] \<or> wf_spans ss" "fLeft r < fRight r"
  shows "rect_meets_spans r ss \<longleftrightarrow> (\<exists>x. fLeft r \<le> x \<and> x < fRight r \<and> in_spans x ss)"
  using assms
proof (induction ss)
  case (Cons s ss)
  then have wf: "wf_spans (s # ss)" by simp
  note s = wf_spans_ConsD [OF wf]
  have after: "sp_right s < x" if "in_spans x ss" for x using in_spans_after [of ss "sp_right s + 1" x] s(3) that by force
  have IH: "rect_meets_spans r ss \<longleftrightarrow> (\<exists>x. fLeft r \<le> x \<and> x < fRight r \<and> in_spans x ss)"
    using Cons.IH [OF _ Cons.prems(2)] s(2) by blast
  have one: "(\<exists>x. fLeft r \<le> x \<and> x < fRight r \<and> sp_left s \<le> x \<and> x < sp_right s) \<longleftrightarrow> sp_left s < fRight r \<and> fLeft r < sp_right s"
    using s(1) Cons.prems(2) by (auto intro: exI [of _ "max (fLeft r) (sp_left s)"])
  have split: "(\<exists>x. fLeft r \<le> x \<and> x < fRight r \<and> in_spans x (s # ss)) \<longleftrightarrow>
      sp_left s < fRight r \<and> fLeft r < sp_right s \<or> rect_meets_spans r ss"
    unfolding one [symmetric] IH by auto
  show ?case
  proof (cases "sp_left s < fRight r")
    case True
    then show ?thesis unfolding split by simp
  next
    case False
    have "\<not> rect_meets_spans r ss"
    proof
      assume "rect_meets_spans r ss"
      then obtain x where "x < fRight r" "in_spans x ss" unfolding IH by blast
      with after [of x] s(1) False show False by linarith
    qed
    with False show ?thesis unfolding split by simp
  qed
qed simp

lemma rect_meets_lines_iff:
  assumes "lines_ok sb ls" "\<And>l. l \<in> set ls \<Longrightarrow> fTop r < ln_bottom l" "\<not> rect_empty r"
  shows "\<exists>b. rect_meets_lines r sb ls = Inr b \<and> (b \<longleftrightarrow> (\<exists>x y. in_rect r x y \<and> lines_cover sb ls x y))"
  using assms
proof (induction ls)
  case (Cons l ls)
  note l = lines_ok_ConsD [OF Cons.prems(1)]
  have r: "fLeft r < fRight r" "fTop r < fBottom r" using Cons.prems(3) by (auto simp: rect_empty_def)
  have IH: "\<exists>b. rect_meets_lines r sb ls = Inr b \<and> (b \<longleftrightarrow> (\<exists>x y. in_rect r x y \<and> lines_cover sb ls x y))"
    using Cons.IH [OF l(5)] Cons.prems(2,3) by simp
  show ?case
  proof (cases "ln_top l < fBottom r")
    case False
    then have "\<not> (in_rect r x y \<and> lines_cover sb (l # ls) x y)" for x y
      using lines_cover_above [OF Cons.prems(1), of x y] l(3) by (auto simp: in_rect_def)
    with False show ?thesis by auto
  next
    case True
    let ?ss = "spans_of sb (ln_chunk_handle l)"
    have "\<exists>y. fTop r \<le> y \<and> y < fBottom r \<and> ln_top l \<le> y \<and> y < ln_bottom l"
      using True r(2) l(3) Cons.prems(2) [of l] by (intro exI [of _ "max (fTop r) (ln_top l)"]) auto
    then have "(\<exists>x y. in_rect r x y \<and> lines_cover sb (l # ls) x y) \<longleftrightarrow>
        rect_meets_spans r ?ss \<or> (\<exists>x y. in_rect r x y \<and> lines_cover sb ls x y)"
      using rect_meets_spans_iff [of ?ss r] l(4) r(1) by (auto simp: in_rect_def)
    with IH True Cons.prems(2) [of l] l(1) show ?thesis by (auto simp: getSpans_ok)
  qed
qed (auto intro: exI [of _ False])

lemma lines_ok_dropWhile_bottom:
  "lines_ok sb ls \<Longrightarrow> l \<in> set (dropWhile (\<lambda>l. ln_bottom l \<le> h) ls) \<Longrightarrow> h < ln_bottom l"
proof (induction ls)
  case (Cons m ls)
  then show ?case using lines_ok_ConsD(5,7) [OF Cons.prems(1)] by (fastforce split: if_splits)
qed simp

lemma first_line_eq: "lines_ok sb ls \<Longrightarrow> first_line r ls = dropWhile (\<lambda>l. ln_bottom l \<le> fTop r) ls"
  unfolding first_line_def by (metis search_eq)

lemma intersects_rect_iff:
  assumes sk: "SkIRect_docs sk" and rg: "region_wf rg"
  shows "\<exists>b. intersects_rect sk r rg = Inr b \<and> (b \<longleftrightarrow> (\<exists>x y. in_rect r x y \<and> region_covers rg x y))"
proof (cases "rg_lines rg = []")
  case True
  then show ?thesis
    by (intro exI [of _ False]) (simp add: intersects_rect_def rg_isEmpty_def region_covers_lines)
next
  case False
  obtain s where s: "isSimple rg = Inr s" "s \<Longrightarrow> region_covers rg = in_rect (rg_bounds rg)"
    using isSimple_ok [OF rg] False by metis
  note iff = sk_Intersects_iff [OF sk, of "rg_bounds rg" r] and inside = is_boundsD(1) [OF region_wf_bounds [OF rg]]
  note eq = intersects_rect_def rg_isEmpty_def s(1) rbind_Inr
  show ?thesis
  proof (cases "s \<or> \<not> sk_Intersects sk (rg_bounds rg) r")
    case True
    have "sk_Intersects sk (rg_bounds rg) r \<longleftrightarrow> (\<exists>x y. in_rect r x y \<and> region_covers rg x y)"
      using True iff inside s(2) by (cases s) auto
    with True False show ?thesis by (cases s) (simp_all add: eq)
  next
    case loop: False
    note lines = region_wf_lines [OF rg]
    have "\<not> rect_empty r" using loop iff rect_empty_iff [of r] by blast
    note meets = rect_meets_lines_iff [OF lines_ok_dropWhile [OF lines] lines_ok_dropWhile_bottom [OF lines] this]
    have "in_rect r x y \<and> lines_cover (rg_span_buffer rg) (dropWhile (\<lambda>l. ln_bottom l \<le> fTop r) (rg_lines rg)) x y \<longleftrightarrow>
        in_rect r x y \<and> region_covers rg x y" for x y
      using dropWhile_cover [OF lines, of "fTop r" y x] by (auto simp: in_rect_def region_covers_lines)
    with meets have "\<exists>b. rect_meets_lines r (rg_span_buffer rg) (first_line r (rg_lines rg)) = Inr b \<and>
        (b \<longleftrightarrow> (\<exists>x y. in_rect r x y \<and> region_covers rg x y))"
      unfolding first_line_eq [OF lines] by simp
    with loop False show ?thesis by (simp add: eq)
  qed
qed

lemma lines_meet_iff:
  assumes "lines_ok A as" "lines_ok B bs"
  shows "\<exists>r. lines_meet A B as bs = Inr r \<and> (r \<longleftrightarrow> (\<exists>x y. lines_cover A as x y \<and> lines_cover B bs x y))"
  using assms
proof (induction A B as bs rule: lines_meet.induct)
  case (1 A B a as b bs)
  note a = lines_ok_ConsD [OF 1(5)] and b = lines_ok_ConsD [OF 1(6)]
  let ?ss = "spans_of A (ln_chunk_handle a)" and ?ts = "spans_of B (ln_chunk_handle b)"
  have aboveA: "ln_bottom a \<le> y" if "lines_cover A as x y" for x y using lines_cover_above [OF 1(5) that] .
  have aboveB: "ln_bottom b \<le> y" if "lines_cover B bs x y" for x y using lines_cover_above [OF 1(6) that] .
  have spans: "spansIntersect ?ss ?ts \<longleftrightarrow> (\<exists>x. in_spans x ?ss \<and> in_spans x ?ts)"
    using spansIntersect_iff a(4) b(4) by blast
  consider (skipA) "ln_bottom a \<le> ln_top b" | (skipB) "\<not> ln_bottom a \<le> ln_top b" "ln_bottom b \<le> ln_top a"
    | (meet) "\<not> ln_bottom a \<le> ln_top b" "\<not> ln_bottom b \<le> ln_top a" "spansIntersect ?ss ?ts"
    | (nextA) "\<not> ln_bottom a \<le> ln_top b" "\<not> ln_bottom b \<le> ln_top a" "\<not> spansIntersect ?ss ?ts" "ln_bottom a < ln_bottom b"
    | (nextB) "\<not> ln_bottom a \<le> ln_top b" "\<not> ln_bottom b \<le> ln_top a" "\<not> spansIntersect ?ss ?ts" "\<not> ln_bottom a < ln_bottom b"
    by blast
  then show ?case
  proof cases
    case skipA
    have "lines_cover A (a # as) x y \<and> lines_cover B (b # bs) x y \<longleftrightarrow> lines_cover A as x y \<and> lines_cover B (b # bs) x y" for x y
      using skipA b(3) aboveB [of x y] by auto
    with 1(1) [OF skipA a(5) 1(6)] skipA show ?thesis by simp
  next
    case skipB
    have "lines_cover A (a # as) x y \<and> lines_cover B (b # bs) x y \<longleftrightarrow> lines_cover A (a # as) x y \<and> lines_cover B bs x y" for x y
      using skipB a(3) aboveA [of x y] by auto
    with 1(2) [OF skipB 1(5) b(5)] skipB show ?thesis by simp
  next
    case meet
    with spans obtain x where "in_spans x ?ss" "in_spans x ?ts" by blast
    with meet a(3) b(3) have "lines_cover A (a # as) x (max (ln_top a) (ln_top b)) \<and> lines_cover B (b # bs) x (max (ln_top a) (ln_top b))"
      by auto
    then have ex: "\<exists>x y. lines_cover A (a # as) x y \<and> lines_cover B (b # bs) x y" by blast
    moreover have "lines_meet A B (a # as) (b # bs) = Inr True" using meet a(1) b(1) by (simp add: getSpans_ok)
    ultimately show ?thesis by blast
  next
    case nextA
    have "lines_cover A (a # as) x y \<and> lines_cover B (b # bs) x y \<longleftrightarrow> lines_cover A as x y \<and> lines_cover B (b # bs) x y" for x y
      using nextA spans aboveB [of x y] by auto
    with 1(3) [OF nextA(1,2) nextA(3,4) a(5) 1(6)] nextA a(1) b(1) show ?thesis by (simp add: getSpans_ok)
  next
    case nextB
    have "lines_cover A (a # as) x y \<and> lines_cover B (b # bs) x y \<longleftrightarrow> lines_cover A (a # as) x y \<and> lines_cover B bs x y" for x y
      using nextB spans aboveA [of x y] by auto
    with 1(4) [OF nextB(1,2) nextB(3,4) 1(5) b(5)] nextB a(1) b(1) show ?thesis by (simp add: getSpans_ok)
  qed
qed auto

lemma intersects_region_iff:
  assumes sk: "SkIRect_docs sk" and a: "region_wf a" and b: "region_wf b"
  shows "\<exists>r. intersects_region sk a b = Inr r \<and> (r \<longleftrightarrow> (\<exists>x y. region_covers a x y \<and> region_covers b x y))"
proof (cases "rg_lines a = [] \<or> rg_lines b = []")
  case True
  then show ?thesis
    by (intro exI [of _ False]) (auto simp: intersects_region_def rg_isEmpty_def region_covers_lines)
next
  case ne: False
  obtain s where s: "isComplex a = Inr (\<not> s)" "s \<Longrightarrow> region_covers a = in_rect (rg_bounds a)"
    using isSimple_ok [OF a] ne by metis
  obtain t where t: "isComplex b = Inr (\<not> t)" "t \<Longrightarrow> region_covers b = in_rect (rg_bounds b)"
    using isSimple_ok [OF b] ne by metis
  let ?i = "sk_Intersects sk (rg_bounds a) (rg_bounds b)"
  note iff = sk_Intersects_iff [OF sk, of "rg_bounds a" "rg_bounds b"]
    and inside = is_boundsD(1) [OF region_wf_bounds [OF a]] is_boundsD(1) [OF region_wf_bounds [OF b]]
  have eq: "intersects_region sk a b =
      (if s \<and> t then Inr ?i else if \<not> ?i then Inr False else if s then intersects_rect sk (rg_bounds a) b
       else if t then intersects_rect sk (rg_bounds b) a
       else rbind (getIntersectionIterators (rg_lines a) (rg_lines b)) (\<lambda>(ours, theirs).
         lines_meet (rg_span_buffer a) (rg_span_buffer b) ours theirs))"
    using ne by (cases s; cases t) (simp_all add: intersects_region_def rg_isEmpty_def s(1) t(1))
  consider (both) "s" "t" | (apart) "\<not> (s \<and> t)" "\<not> ?i" | (ours) "s" "\<not> t" "?i" | (theirs) "\<not> s" "t" "?i"
    | (loop) "\<not> s" "\<not> t" "?i" by blast
  then show ?thesis
  proof cases
    case both
    have "intersects_region sk a b = Inr ?i" by (simp only: eq both simp_thms if_True)
    then show ?thesis using iff by (simp only: s(2) [OF both(1)] t(2) [OF both(2)]) blast
  next
    case apart
    have "\<not> (region_covers a x y \<and> region_covers b x y)" for x y using apart(2) iff inside by blast
    moreover have "intersects_region sk a b = Inr False" by (simp only: eq apart simp_thms if_True if_False)
    ultimately show ?thesis by blast
  next
    case ours
    have "intersects_region sk a b = intersects_rect sk (rg_bounds a) b" by (simp only: eq ours simp_thms if_True if_False)
    then show ?thesis using intersects_rect_iff [OF sk b, of "rg_bounds a"] by (simp only: s(2) [OF ours(1)])
  next
    case theirs
    have "intersects_region sk a b = intersects_rect sk (rg_bounds b) a" by (simp only: eq theirs simp_thms if_True if_False)
    then show ?thesis using intersects_rect_iff [OF sk a, of "rg_bounds b"]
      by (simp only: t(2) [OF theirs(2)] conj_commute)
  next
    case loop
    obtain as bs where it: "getIntersectionIterators (rg_lines a) (rg_lines b) = Inr (as, bs)"
      "lines_ok (rg_span_buffer a) as" "lines_ok (rg_span_buffer b) bs"
      "\<And>x y. lines_cover (rg_span_buffer a) as x y \<and> lines_cover (rg_span_buffer b) bs x y \<longleftrightarrow>
        region_covers a x y \<and> region_covers b x y"
      unfolding region_covers_lines using iterators_ok [OF region_wf_lines [OF a] _ region_wf_lines [OF b]] ne by blast
    have "intersects_region sk a b = lines_meet (rg_span_buffer a) (rg_span_buffer b) as bs"
      by (simp only: eq loop simp_thms if_True if_False it(1) rbind_Inr case_prod_conv)
    with lines_meet_iff [OF it(2,3)] show ?thesis by (simp only: it(4))
  qed
qed

end
