(* ===== verification/Dl_Region_Rects.thy ===== *)
theory Dl_Region_Rects
  imports Dl_Region_Spec
begin

text \<open>
  From regions to rectangles and back: \<open>getRects\<close>, with and without merging of bands, and the sweep
  of \<open>setRects\<close> over a list of rectangles, with its termination.
\<close>

section \<open>The rectangles of a region\<close>

definition rects_cover :: "SkIRect list \<Rightarrow> int \<Rightarrow> int \<Rightarrow> bool" where
  "rects_cover rs x y = (\<exists>r\<in>set rs. in_rect r x y)"

definition apart :: "SkIRect \<Rightarrow> SkIRect \<Rightarrow> bool" where
  "apart r q = (\<forall>x y. \<not> (in_rect r x y \<and> in_rect q x y))"

lemma rects_cover_simps [simp]:
  "\<not> rects_cover [] x y" "rects_cover (r # rs) x y \<longleftrightarrow> in_rect r x y \<or> rects_cover rs x y"
  "rects_cover (rs @ qs) x y \<longleftrightarrow> rects_cover rs x y \<or> rects_cover qs x y"
  by (auto simp: rects_cover_def)

lemma apart_cover: "(\<forall>q\<in>set rs. apart q r) \<longleftrightarrow> (\<forall>x y. \<not> (rects_cover rs x y \<and> in_rect r x y))"
  by (auto simp: apart_def rects_cover_def)

text \<open>Disjoint rectangles, none of them empty, that end at or above \<open>h\<close>.\<close>

definition rects_ok :: "SkIRect list \<Rightarrow> int \<Rightarrow> bool" where
  "rects_ok rs h = (sorted_wrt apart rs \<and> (\<forall>r\<in>set rs. \<not> rect_empty r \<and> fBottom r \<le> h))"

lemma deband_find_ok:
  assumes "\<And>i. i < n \<Longrightarrow> fBottom (rs ! i) \<le> fTop r"
  shows "\<exists>found. deband_find rs r n = Inr found \<and>
    (\<forall>i. found = Some i \<longrightarrow> i < n \<and> fBottom (rs ! i) = fTop r \<and> fLeft (rs ! i) = fLeft r \<and> fRight (rs ! i) = fRight r)"
  using assms
proof (induction n)
  case (Suc n)
  from Suc.IH Suc.prems obtain found where IH: "deband_find rs r n = Inr found"
    "\<forall>i. found = Some i \<longrightarrow> i < n \<and> fBottom (rs ! i) = fTop r \<and> fLeft (rs ! i) = fLeft r \<and> fRight (rs ! i) = fRight r"
    by auto
  have "fBottom (rs ! n) \<le> fTop r" using Suc.prems by simp
  with IH show ?case by (auto simp: require_def)
qed simp

lemma extend_rect:
  assumes "fBottom q = fTop r" "fLeft q = fLeft r" "fRight q = fRight r" "\<not> rect_empty q" "\<not> rect_empty r"
  shows "in_rect (r\<lparr>fTop := fTop q\<rparr>) x y \<longleftrightarrow> in_rect q x y \<or> in_rect r x y" "\<not> rect_empty (r\<lparr>fTop := fTop q\<rparr>)"
  using assms by (auto simp: in_rect_def rect_empty_def)

lemma add_rect_ok:
  assumes rs: "rects_ok rs h" and pe: "pe \<le> length rs" "\<And>i. i < pe \<Longrightarrow> fBottom (rs ! i) \<le> fTop r"
    and r: "\<not> rect_empty r" "fBottom r \<le> h" "\<And>x y. \<not> (rects_cover rs x y \<and> in_rect r x y)"
  shows "\<exists>rs' pe'. add_rect deband r (rs, pe) = Inr (rs', pe') \<and> rects_ok rs' h \<and> pe' \<le> length rs' \<and>
    (\<forall>i<pe'. fBottom (rs' ! i) \<le> fTop r) \<and> (\<forall>x y. rects_cover rs' x y \<longleftrightarrow> rects_cover rs x y \<or> in_rect r x y)"
proof -
  obtain found where found: "deband_find rs r pe = Inr found"
    "\<And>i. found = Some i \<Longrightarrow> i < pe \<and> fBottom (rs ! i) = fTop r \<and> fLeft (rs ! i) = fLeft r \<and> fRight (rs ! i) = fRight r"
    using deband_find_ok [of pe rs r] pe(2) by auto
  have app: "\<forall>q\<in>set rs. apart q r" using apart_cover r(3) by blast
  show ?thesis
  proof (cases "deband \<and> found \<noteq> None")
    case False
    then have "add_rect deband r (rs, pe) = Inr (rs @ [r], pe)" using found(1) by (auto simp: add_rect_def)
    moreover have "rects_ok (rs @ [r]) h" using rs r app by (auto simp: rects_ok_def sorted_wrt_append)
    moreover have "\<forall>i<pe. fBottom ((rs @ [r]) ! i) \<le> fTop r" using pe by (simp add: nth_append)
    ultimately show ?thesis using pe(1) by (intro exI [of _ "rs @ [r]"] exI [of _ pe]) auto
  next
    case True
    then obtain i where i: "found = Some i" by blast
    let ?q = "rs ! i" and ?A = "take i rs" and ?B = "drop (i + 1) rs"
    let ?m = "r\<lparr>fTop := fTop ?q\<rparr>"
    note q = found(2) [OF i]
    have split: "rs = ?A @ ?q # ?B" using id_take_nth_drop [of i rs] q pe(1) by simp
    have nq: "\<not> rect_empty ?q" using rs q pe(1) by (simp add: rects_ok_def)
    note m = extend_rect [of ?q r, OF _ _ _ nq r(1)]
    have add: "add_rect deband r (rs, pe) = Inr (?A @ ?B @ [?m], pe - 1)" using True found(1) i by (simp add: add_rect_def)
    have sw: "sorted_wrt apart (?A @ ?q # ?B)" using rs split unfolding rects_ok_def by metis
    have "apart p ?m" if "p \<in> set (?A @ ?B)" for p
    proof -
      have "apart p ?q" using sw that by (auto simp: sorted_wrt_append apart_def)
      moreover have "apart p r" using app that by (auto dest: in_set_takeD in_set_dropD)
      ultimately show ?thesis using m(1) q by (auto simp: apart_def)
    qed
    moreover have "sorted_wrt apart (?A @ ?B)" using sw by (auto simp: sorted_wrt_append)
    ultimately have "rects_ok (?A @ ?B @ [?m]) h"
      using rs r m(2) q by (auto simp: rects_ok_def sorted_wrt_append dest: in_set_takeD in_set_dropD)
    moreover have "rects_cover (?A @ ?B @ [?m]) x y \<longleftrightarrow> rects_cover rs x y \<or> in_rect r x y" for x y
      using m(1) q by (subst (3) split) auto
    moreover have "\<forall>j<pe - 1. fBottom ((?A @ ?B @ [?m]) ! j) \<le> fTop r"
      using pe q by (auto simp: nth_append min_def)
    moreover have "pe - 1 \<le> length (?A @ ?B @ [?m])" using pe(1) by simp
    ultimately show ?thesis unfolding add by blast
  qed
qed

lemma add_rects_ok:
  assumes "rects_ok rs h" "pe \<le> length rs" "\<And>i. i < pe \<Longrightarrow> fBottom (rs ! i) \<le> t"
    and "\<And>q. q \<in> set qs \<Longrightarrow> \<not> rect_empty q \<and> fTop q = t \<and> fBottom q \<le> h" "sorted_wrt apart qs"
    and "\<And>q x y. q \<in> set qs \<Longrightarrow> \<not> (rects_cover rs x y \<and> in_rect q x y)"
  shows "\<exists>rs' pe'. add_rects deband qs (rs, pe) = Inr (rs', pe') \<and> rects_ok rs' h \<and>
    (\<forall>x y. rects_cover rs' x y \<longleftrightarrow> rects_cover rs x y \<or> rects_cover qs x y)"
  using assms
proof (induction qs arbitrary: rs pe)
  case (Cons q qs)
  obtain rs1 pe1 where 1: "add_rect deband q (rs, pe) = Inr (rs1, pe1)" "rects_ok rs1 h" "pe1 \<le> length rs1"
    "\<And>i. i < pe1 \<Longrightarrow> fBottom (rs1 ! i) \<le> t" "\<And>x y. rects_cover rs1 x y \<longleftrightarrow> rects_cover rs x y \<or> in_rect q x y"
    using add_rect_ok [of rs h pe q deband] Cons.prems by auto
  have "\<not> (rects_cover rs1 x y \<and> in_rect p x y)" if "p \<in> set qs" for p x y
    using Cons.prems(5,6) that 1(5) by (auto simp: apart_def)
  with Cons.IH [OF 1(2-4)] Cons.prems(4,5) obtain rs2 pe2 where "add_rects deband qs (rs1, pe1) = Inr (rs2, pe2)"
    "rects_ok rs2 h" "\<And>x y. rects_cover rs2 x y \<longleftrightarrow> rects_cover rs1 x y \<or> rects_cover qs x y" by auto
  with 1 show ?case by auto
qed simp

lemma span_rects:
  assumes "wf_spans ss" "t < b"
  defines "qs \<equiv> map (\<lambda>s. MakeLTRB (sp_left s) t (sp_right s) b) ss"
  shows "sorted_wrt apart qs" "\<And>q. q \<in> set qs \<Longrightarrow> \<not> rect_empty q \<and> fTop q = t \<and> fBottom q \<le> b"
    "\<And>x y. rects_cover qs x y \<longleftrightarrow> t \<le> y \<and> y < b \<and> in_spans x ss"
proof -
  have "sorted_wrt span_before ss" "\<And>s. s \<in> set ss \<Longrightarrow> sp_left s < sp_right s"
    using assms(1) by (auto simp: wf_spans_def list_all_iff span_ok_def)
  then show "sorted_wrt apart qs"
    unfolding qs_def sorted_wrt_map
    by (auto elim!: sorted_wrt_mono_rel [rotated] simp: apart_def in_rect_def span_before_def)
  show "\<not> rect_empty q \<and> fTop q = t \<and> fBottom q \<le> b" if "q \<in> set qs" for q
    using that assms(1,2) by (auto simp: qs_def rect_empty_def wf_spans_def list_all_iff span_ok_def)
  show "rects_cover qs x y \<longleftrightarrow> t \<le> y \<and> y < b \<and> in_spans x ss" for x y
    by (auto simp: qs_def rects_cover_def in_rect_def in_spans_def)
qed

lemma rects_ok_mono: "rects_ok rs h \<Longrightarrow> h \<le> k \<Longrightarrow> rects_ok rs k"
  by (force simp: rects_ok_def)

lemma rects_ok_cover: "rects_ok rs h \<Longrightarrow> rects_cover rs x y \<Longrightarrow> y < h"
  by (force simp: rects_ok_def rects_cover_def in_rect_def)

lemma lines_rects_ok:
  assumes "lines_ok sb ls" "rects_ok rs h" "\<And>l. l \<in> set ls \<Longrightarrow> h \<le> ln_top l"
  shows "\<exists>rs' pe' k. lines_rects deband sb ls (rs, length rs) = Inr (rs', pe') \<and> rects_ok rs' k \<and>
    (\<forall>x y. rects_cover rs' x y \<longleftrightarrow> rects_cover rs x y \<or> lines_cover sb ls x y)"
  using assms
proof (induction ls arbitrary: rs h)
  case (Cons l ls)
  note l = lines_ok_ConsD [OF Cons.prems(1)]
  let ?qs = "map (\<lambda>s. MakeLTRB (sp_left s) (ln_top l) (sp_right s) (ln_bottom l)) (spans_of sb (ln_chunk_handle l))"
  note qs = span_rects [OF l(4,3)]
  have h: "h \<le> ln_top l" using Cons.prems(3) by simp
  have b: "rects_ok rs (ln_bottom l)" using rects_ok_mono [OF Cons.prems(2)] h l(3) by simp
  have old: "fBottom (rs ! i) \<le> ln_top l" if "i < length rs" for i
  proof -
    have "fBottom (rs ! i) \<le> h" using Cons.prems(2) that by (simp add: rects_ok_def)
    with h show ?thesis by simp
  qed
  have new: "\<not> (rects_cover rs x y \<and> in_rect q x y)" if "q \<in> set ?qs" for q x y
    using rects_ok_cover [OF Cons.prems(2), of x y] h qs(2) [OF that] by (auto simp: in_rect_def)
  obtain rs1 pe1 where 1: "add_rects deband ?qs (rs, length rs) = Inr (rs1, pe1)" "rects_ok rs1 (ln_bottom l)"
    "\<And>x y. rects_cover rs1 x y \<longleftrightarrow> rects_cover rs x y \<or> rects_cover ?qs x y"
    using add_rects_ok [OF b order_refl old qs(2,1) new] by blast
  obtain rs2 pe2 k where 2: "lines_rects deband sb ls (rs1, length rs1) = Inr (rs2, pe2)" "rects_ok rs2 k"
    "\<And>x y. rects_cover rs2 x y \<longleftrightarrow> rects_cover rs1 x y \<or> lines_cover sb ls x y"
    using Cons.IH [OF l(5) 1(2) l(6)] by blast
  have "lines_rects deband sb (l # ls) (rs, length rs) = Inr (rs2, pe2)"
    by (simp add: getSpans_ok [OF l(1)] 1(1) 2(1))
  with 1(3) 2(2,3) qs(3) show ?case by auto
qed auto

lemma lines_ok_top: "lines_ok sb ls \<Longrightarrow> l \<in> set ls \<Longrightarrow> kIntMin \<le> ln_top l"
proof (induction ls)
  case (Cons m ls)
  then show ?case using lines_ok_ConsD(2,5) [OF Cons.prems(1)] by auto
qed simp

lemma getRects_ok:
  assumes "region_wf rg"
  shows "\<exists>rs. getRects deband rg = Inr rs \<and> sorted_wrt apart rs \<and> (\<forall>r\<in>set rs. \<not> rect_empty r) \<and>
    (\<forall>x y. rects_cover rs x y \<longleftrightarrow> region_covers rg x y)"
proof (cases "rg_lines rg = []")
  case True
  then show ?thesis by (simp add: getRects_def rg_isEmpty_def region_covers_lines)
next
  case False
  obtain s where s: "isSimple rg = Inr s" "s \<Longrightarrow> region_covers rg = in_rect (rg_bounds rg)"
    using isSimple_ok [OF assms] False by metis
  show ?thesis
  proof (cases s)
    case True
    have "\<exists>x y. region_covers rg x y"
    proof -
      obtain l ls where l: "rg_lines rg = l # ls" using False by (cases "rg_lines rg") auto
      note L = lines_ok_ConsD [OF region_wf_lines [OF assms, unfolded l]]
      from wf_spans_hull(1) [OF L(4)] L(3) show ?thesis by (auto simp: region_covers_lines l)
    qed
    then have "\<not> rect_empty (rg_bounds rg)" using is_boundsD(2) [OF region_wf_bounds [OF assms]] by blast
    with True s False show ?thesis by (simp add: getRects_def rg_isEmpty_def)
  next
    case complex: False
    obtain rs pe k where "lines_rects deband (rg_span_buffer rg) (rg_lines rg) ([], 0) = Inr (rs, pe)" "rects_ok rs k"
      "\<And>x y. rects_cover rs x y \<longleftrightarrow> lines_cover (rg_span_buffer rg) (rg_lines rg) x y"
    proof -
      have "rects_ok [] kIntMin" by (simp add: rects_ok_def)
      from lines_rects_ok [OF region_wf_lines [OF assms] this lines_ok_top [OF region_wf_lines [OF assms]], of deband]
      show ?thesis using that by auto
    qed
    with complex s False show ?thesis by (auto simp: getRects_def rg_isEmpty_def rects_ok_def region_covers_lines)
  qed
qed

section \<open>The sweep\<close>

subsection \<open>Active rectangles\<close>

lemma insert_active_split:
  obtains A B where "active = A @ B" "insert_active r active = A @ r # B" "\<And>q. q \<in> set B \<Longrightarrow> fLeft r < fLeft q"
    "A \<noteq> [] \<Longrightarrow> fLeft (last A) \<le> fLeft r"
proof -
  let ?P = "\<lambda>ir. \<not> fLeft ir \<le> fLeft r"
  let ?B = "rev (takeWhile ?P (rev active))" and ?A = "rev (dropWhile ?P (rev active))"
  have split: "active = ?A @ ?B" by (metis rev_append rev_rev_ident takeWhile_dropWhile_id)
  have ins: "insert_active r active = ?A @ r # ?B"
  proof -
    have "length active - length ?B = length ?A" by (subst (1) split) simp
    then have "take (length active - length ?B) active = ?A" using split by (metis append_eq_conv_conj)
    then show ?thesis by (simp only: insert_active_def Let_def)
  qed
  show ?thesis
  proof (rule that [OF split ins])
    show "fLeft r < fLeft q" if "q \<in> set ?B" for q using that set_takeWhileD [of q ?P "rev active"] by simp
    show "fLeft (last ?A) \<le> fLeft r" if "?A \<noteq> []"
      using that hd_dropWhile [of ?P "rev active"] by (simp add: last_rev)
  qed
qed

definition by_left :: "SkIRect list \<Rightarrow> bool" where
  "by_left rs = sorted_wrt (\<lambda>r q. fLeft r \<le> fLeft q) rs"

lemma insert_active_ok:
  "set (insert_active r active) = insert r (set active)" "length (insert_active r active) = Suc (length active)"
  "by_left active \<Longrightarrow> by_left (insert_active r active)"
proof -
  obtain A B where AB: "active = A @ B" "insert_active r active = A @ r # B" "\<And>q. q \<in> set B \<Longrightarrow> fLeft r < fLeft q"
    "A \<noteq> [] \<Longrightarrow> fLeft (last A) \<le> fLeft r" using insert_active_split [of active r] by blast
  show "set (insert_active r active) = insert r (set active)" "length (insert_active r active) = Suc (length active)"
    unfolding AB(2) by (simp_all add: AB(1))
  assume "by_left active"
  then have "\<forall>q\<in>set A. fLeft q \<le> fLeft r"
    using AB(1,4) by (cases A rule: rev_cases) (auto simp: by_left_def sorted_wrt_append)
  with \<open>by_left active\<close> AB(3) show "by_left (insert_active r active)"
    unfolding AB(2) by (auto simp: by_left_def AB(1) sorted_wrt_append less_imp_le)
qed

lemma insert_rects_ok:
  assumes sk: "SkIRect_docs sk" and "\<forall>r\<in>set pending. \<not> rect_empty r"
  obtains used rest active' where "insert_rects sk cur_y active pending = Some (active', rest)" "pending = used @ rest"
    "\<forall>r\<in>set used. fTop r \<le> cur_y" "rest \<noteq> [] \<Longrightarrow> cur_y < fTop (hd rest)"
    "set active' = set active \<union> set used" "length active' = length active + length used"
    "by_left active \<Longrightarrow> by_left active'"
proof -
  have "\<exists>used rest active'. insert_rects sk cur_y active pending = Some (active', rest) \<and> pending = used @ rest \<and>
    (\<forall>r\<in>set used. fTop r \<le> cur_y) \<and> (rest \<noteq> [] \<longrightarrow> cur_y < fTop (hd rest)) \<and>
    set active' = set active \<union> set used \<and> length active' = length active + length used \<and>
    (by_left active \<longrightarrow> by_left active')"
    using assms(2)
  proof (induction pending arbitrary: active)
    case Nil
    then show ?case by (simp add: insert_rects.simps)
  next
    case (Cons r rs)
    have ne: "\<not> sk_isEmpty sk r" using sk Cons.prems by (simp add: SkIRect_docs_def)
    show ?case
    proof (cases "fTop r > cur_y")
      case True
      with ne show ?thesis
        by (intro exI [of _ "[]"] exI [of _ "r # rs"] exI [of _ active]) (simp add: insert_rects.simps)
    next
      case False
      obtain used rest active' where IH: "insert_rects sk cur_y (insert_active r active) rs = Some (active', rest)" "rs = used @ rest"
        "\<forall>r\<in>set used. fTop r \<le> cur_y" "rest \<noteq> [] \<longrightarrow> cur_y < fTop (hd rest)"
        "set active' = set (insert_active r active) \<union> set used" "length active' = length (insert_active r active) + length used"
        "by_left (insert_active r active) \<longrightarrow> by_left active'" using Cons.IH [of "insert_active r active"] Cons.prems by auto
      have "insert_rects sk cur_y active (r # rs) = Some (active', rest)"
        using ne False IH(1) by (simp add: insert_rects.simps [of sk cur_y active])
      with IH False insert_active_ok show ?thesis by (intro exI [of _ "r # used"] exI [of _ rest] exI [of _ active']) auto
    qed
  qed
  then show ?thesis using that by blast
qed

subsection \<open>The spans of a line\<close>

definition lowest :: "int \<Rightarrow> int \<Rightarrow> SkIRect list \<Rightarrow> bool" where
  "lowest h end_y rs = (h \<le> end_y \<and> (\<forall>r\<in>set rs. h \<le> fBottom r) \<and> (h = end_y \<or> (\<exists>r\<in>set rs. h = fBottom r)))"

lemma merge_active_ok:
  assumes "wf_spans (spans @ [mk_span start_x end_x])" "by_left rs"
    and "\<And>r. r \<in> set rs \<Longrightarrow> start_x \<le> fLeft r \<and> fLeft r < fRight r"
  shows "wf_spans (fst (merge_active start_x end_x end_y spans rs)) \<and>
    (\<forall>x. in_spans x (fst (merge_active start_x end_x end_y spans rs)) \<longleftrightarrow>
       in_spans x (spans @ [mk_span start_x end_x]) \<or> (\<exists>r\<in>set rs. fLeft r \<le> x \<and> x < fRight r)) \<and>
    lowest (snd (merge_active start_x end_x end_y spans rs)) end_y rs"
  using assms
proof (induction rs arbitrary: start_x end_x end_y spans)
  case (Cons r rs)
  have r: "start_x \<le> fLeft r" "fLeft r < fRight r" using Cons.prems(3) by auto
  have rs: "by_left rs" "\<And>q. q \<in> set rs \<Longrightarrow> fLeft r \<le> fLeft q \<and> fLeft q < fRight q"
    using Cons.prems(2,3) by (auto simp: by_left_def)
  have start: "start_x < end_x" using Cons.prems(1) by (simp add: wf_spans_def span_ok_def)
  have low: "lowest h end_y (r # rs)" if "lowest h (if end_y > fBottom r then fBottom r else end_y) rs" for h
    using that by (auto simp: lowest_def split: if_splits)
  show ?case
  proof (cases "fLeft r > end_x")
    case True
    have "wf_spans ((spans @ [mk_span start_x end_x]) @ [mk_span (fLeft r) (fRight r)])"
      using Cons.prems(1) r(2) True by (auto simp: wf_spans_def span_ok_def sorted_wrt_append span_before_def)
    from Cons.IH [OF this rs, of "if end_y > fBottom r then fBottom r else end_y"] True low show ?thesis by auto
  next
    case False
    let ?e = "if end_x < fRight r then fRight r else end_x"
    have wf: "wf_spans (spans @ [mk_span start_x ?e])"
      using Cons.prems(1) start by (auto simp: wf_spans_def span_ok_def sorted_wrt_append span_before_def)
    have same: "start_x \<le> x \<and> x < ?e \<longleftrightarrow> start_x \<le> x \<and> x < end_x \<or> fLeft r \<le> x \<and> x < fRight r" for x
      using False r by auto
    have le: "\<And>q. q \<in> set rs \<Longrightarrow> start_x \<le> fLeft q \<and> fLeft q < fRight q" using Cons.prems(3) by simp
    from Cons.IH [OF wf rs(1) le, of "if end_y > fBottom r then fBottom r else end_y"] False low same show ?thesis
      by (auto simp: Let_def)
  qed
qed (simp add: lowest_def)

lemma working_spans_ok:
  assumes "active \<noteq> []" "by_left active" "\<And>r. r \<in> set active \<Longrightarrow> \<not> rect_empty r"
  shows "wf_spans (fst (working_spans active))"
    "in_spans x (fst (working_spans active)) \<longleftrightarrow> (\<exists>r\<in>set active. fLeft r \<le> x \<and> x < fRight r)"
    "\<And>r. r \<in> set active \<Longrightarrow> snd (working_spans active) \<le> fBottom r"
    "\<exists>r\<in>set active. snd (working_spans active) = fBottom r"
proof -
  obtain r rs where act: "active = r # rs" using assms(1) by (cases active) auto
  have ne: "fLeft q < fRight q" if "q \<in> set active" for q using assms(3) [OF that] by (simp add: rect_empty_def)
  have wf: "wf_spans ([] @ [mk_span (fLeft r) (fRight r)])"
    using ne act by (simp add: wf_spans_def span_ok_def)
  have le: "\<And>q. q \<in> set rs \<Longrightarrow> fLeft r \<le> fLeft q \<and> fLeft q < fRight q" and sorted: "by_left rs"
    using assms(2) ne act by (auto simp: by_left_def)
  note merged = merge_active_ok [OF wf sorted le, of "fBottom r"]
  from merged show "wf_spans (fst (working_spans active))"
    "in_spans x (fst (working_spans active)) \<longleftrightarrow> (\<exists>r\<in>set active. fLeft r \<le> x \<and> x < fRight r)"
    "\<exists>r\<in>set active. snd (working_spans active) = fBottom r"
    by (auto simp: working_spans_def act lowest_def)
  show "\<And>r. r \<in> set active \<Longrightarrow> snd (working_spans active) \<le> fBottom r"
    using merged by (auto simp: working_spans_def act lowest_def)
qed

subsection \<open>The loop\<close>

text \<open>
  The state between two passes: the rectangles not reached yet start at or below \<open>cur_y\<close>, the active
  ones above it, and the next pass drops an active rectangle or reaches a new one.
\<close>

definition sweep_ok :: "int \<Rightarrow> SkIRect list \<Rightarrow> SkIRect list \<Rightarrow> bool" where
  "sweep_ok cur_y active pending =
     (by_left active \<and> sorted_wrt (\<lambda>r q. fTop r \<le> fTop q) pending \<and> kIntMin \<le> cur_y \<and>
      (\<forall>r\<in>set active. \<not> rect_empty r \<and> fTop r \<le> cur_y) \<and>
      (\<forall>r\<in>set pending. \<not> rect_empty r \<and> cur_y \<le> fTop r) \<and>
      (active \<noteq> [] \<longrightarrow> (\<exists>r\<in>set active. fBottom r \<le> cur_y) \<or> pending \<noteq> [] \<and> fTop (hd pending) \<le> cur_y))"

text \<open>One pass: where it ends, and the points of the line it adds.\<close>

lemma sweep_line_ok:
  assumes "active \<noteq> []" "by_left active" "region_ok rg" "ends_by rg cur_y" "kIntMin \<le> cur_y"
    and act: "\<And>r. r \<in> set active \<Longrightarrow> \<not> rect_empty r \<and> fTop r \<le> cur_y \<and> cur_y < fBottom r"
    and pend: "sorted_wrt (\<lambda>r q. fTop r \<le> fTop q) pending" "\<And>r. r \<in> set pending \<Longrightarrow> \<not> rect_empty r \<and> cur_y < fTop r"
  obtains end_y rg' where "sweep_line cur_y active pending rg = Inr (end_y, rg')" "cur_y < end_y" "sweep_ok end_y active pending"
    "region_ok rg'" "ends_by rg' end_y" "rg_bounds rg' = rg_bounds rg"
    "\<And>x y. covers (bands rg') x y \<longleftrightarrow> covers (bands rg) x y \<or> y < end_y \<and> cur_y \<le> y \<and> (\<exists>r\<in>set active. in_rect r x y)"
proof -
  let ?ss = "fst (working_spans active)" and ?low = "snd (working_spans active)"
  define end_y where "end_y = (if pending \<noteq> [] \<and> ?low > fTop (hd pending) then fTop (hd pending) else ?low)"
  note ws = working_spans_ok [OF assms(1,2)]
  have low: "wf_spans ?ss" "\<And>x. in_spans x ?ss \<longleftrightarrow> (\<exists>r\<in>set active. fLeft r \<le> x \<and> x < fRight r)"
    "\<And>r. r \<in> set active \<Longrightarrow> ?low \<le> fBottom r" "\<exists>r\<in>set active. ?low = fBottom r" using ws act by blast+
  have less: "cur_y < end_y" using low(4) act pend(2) [of "hd pending"] by (auto simp: end_y_def)
  have end_le: "end_y \<le> fBottom r" if "r \<in> set active" for r using low(3) [OF that] by (auto simp: end_y_def)
  obtain rg' where rg': "appendLine cur_y end_y ?ss rg = Inr rg'" "region_ok rg'" "ends_by rg' end_y" "rg_bounds rg' = rg_bounds rg"
    "\<And>x y. covers (bands rg') x y \<longleftrightarrow> covers (bands rg) x y \<or> cur_y \<le> y \<and> y < end_y \<and> in_spans x ?ss"
    using appendLine_ok [OF assms(3-5) less low(1)] by blast
  have hd_le: "fTop (hd pending) \<le> fTop r" if "r \<in> set pending" for r using pend(1) that by (cases pending) auto
  have "sweep_ok end_y active pending"
    unfolding sweep_ok_def
  proof (intro conjI)
    show "\<forall>r\<in>set active. \<not> rect_empty r \<and> fTop r \<le> end_y" using act less by force
    show "\<forall>r\<in>set pending. \<not> rect_empty r \<and> end_y \<le> fTop r" using pend(2) hd_le by (force simp: end_y_def)
    show "active \<noteq> [] \<longrightarrow> (\<exists>r\<in>set active. fBottom r \<le> end_y) \<or> pending \<noteq> [] \<and> fTop (hd pending) \<le> end_y"
      using low(4) by (auto simp: end_y_def)
  qed (use assms less pend in auto)
  moreover have "cur_y \<le> y \<and> y < end_y \<and> in_spans x ?ss \<longleftrightarrow> y < end_y \<and> cur_y \<le> y \<and> (\<exists>r\<in>set active. in_rect r x y)" for x y
  proof -
    have "in_rect r x y \<longleftrightarrow> fLeft r \<le> x \<and> x < fRight r" if "r \<in> set active" "cur_y \<le> y" "y < end_y" for r
      using act [OF that(1)] end_le [OF that(1)] that by (auto simp: in_rect_def)
    then show ?thesis unfolding low(2) by blast
  qed
  moreover have "sweep_line cur_y active pending rg = Inr (end_y, rg')"
    using assms(1) less rg'(1) by (simp add: sweep_line_def case_prod_beta Let_def end_y_def)
  ultimately show ?thesis using that less rg' by metis
qed

definition next_y :: "int \<Rightarrow> SkIRect list \<Rightarrow> SkIRect list \<Rightarrow> int" where
  "next_y cur_y active pending = (if active = [] then fTop (hd pending) else cur_y)"

lemma sweep_okD:
  assumes "sweep_ok cur_y active pending"
  shows "by_left active" "sorted_wrt (\<lambda>r q. fTop r \<le> fTop q) pending" "kIntMin \<le> cur_y"
    "\<And>r. r \<in> set active \<Longrightarrow> \<not> rect_empty r \<and> fTop r \<le> cur_y" "\<And>r. r \<in> set pending \<Longrightarrow> \<not> rect_empty r \<and> cur_y \<le> fTop r"
    "active \<noteq> [] \<Longrightarrow> (\<exists>r\<in>set active. fBottom r \<le> cur_y) \<or> pending \<noteq> [] \<and> fTop (hd pending) \<le> cur_y"
    "\<And>r. r \<in> set pending \<Longrightarrow> fTop (hd pending) \<le> fTop r"
proof -
  show "fTop (hd pending) \<le> fTop r" if "r \<in> set pending" for r
    using assms that by (cases pending) (auto simp: sweep_ok_def)
qed (use assms in \<open>auto simp: sweep_ok_def\<close>)

lemma next_y_ok:
  assumes "sweep_ok cur_y active pending" "\<not> (kept = [] \<and> pending = [])"
  shows "cur_y \<le> next_y cur_y kept pending" "\<And>r. r \<in> set pending \<Longrightarrow> next_y cur_y kept pending \<le> fTop r"
    "kept \<noteq> [] \<Longrightarrow> next_y cur_y kept pending = cur_y"
  using sweep_okD(5) [OF assms(1), of "hd pending"] sweep_okD(5,7) [OF assms(1)] assms(2) by (auto simp: next_y_def)

text \<open>A pass drops an active rectangle or brings one in.\<close>

lemma sweep_progress:
  assumes "sweep_ok cur_y active pending" and "pending = used @ rest"
    and kept: "kept = filter (\<lambda>r. fBottom r > cur_y) active" "\<not> (kept = [] \<and> pending = [])"
    and rest: "rest \<noteq> [] \<Longrightarrow> next_y cur_y kept pending < fTop (hd rest)"
  shows "2 * length rest + (length kept + length used) < 2 * length pending + length active"
proof -
  have "length kept < length active \<or> used \<noteq> []"
  proof (cases "\<exists>r\<in>set active. fBottom r \<le> cur_y")
    case True
    then show ?thesis unfolding kept(1) by (metis length_filter_less not_le)
  next
    case False
    then have "kept = active" unfolding kept(1) by (simp add: filter_id_conv not_le)
    then have "pending \<noteq> []" "fTop (hd pending) \<le> next_y cur_y kept pending"
      using sweep_okD(6) [OF assms(1)] False kept(2) by (auto simp: next_y_def)
    then show ?thesis using assms(2) rest by (cases used) auto
  qed
  moreover have "length kept \<le> length active" by (simp add: kept(1))
  ultimately show ?thesis using assms(2) by (auto simp flip: length_greater_0_conv)
qed

lemma sweep_step:
  assumes sk: "SkIRect_docs sk" and ok: "sweep_ok cur_y active pending" and rg: "region_ok rg" "ends_by rg cur_y"
    and kept: "kept = filter (\<lambda>r. fBottom r > cur_y) active" "\<not> (kept = [] \<and> pending = [])"
  obtains active' rest end_y rg' where "sweep sk cur_y active pending rg = sweep sk end_y active' rest rg'"
    "2 * length rest + length active' < 2 * length pending + length active"
    "sweep_ok end_y active' rest" "region_ok rg'" "ends_by rg' end_y" "rg_bounds rg' = rg_bounds rg"
    "next_y cur_y kept pending < end_y" "set active' \<union> set rest = set kept \<union> set pending"
    "\<And>r. r \<in> set rest \<Longrightarrow> end_y \<le> fTop r"
    "\<And>x y. covers (bands rg') x y \<longleftrightarrow> covers (bands rg) x y \<or>
       y < end_y \<and> next_y cur_y kept pending \<le> y \<and> (\<exists>r\<in>set active'. in_rect r x y)"
proof -
  let ?y = "next_y cur_y kept pending"
  note D = sweep_okD [OF ok] and y = next_y_ok [OF ok kept(2)]
  obtain used rest active' where ins: "insert_rects sk ?y kept pending = Some (active', rest)" "pending = used @ rest"
    "\<forall>r\<in>set used. fTop r \<le> ?y" "rest \<noteq> [] \<Longrightarrow> ?y < fTop (hd rest)" "set active' = set kept \<union> set used"
    "length active' = length kept + length used" "by_left kept \<Longrightarrow> by_left active'"
    using insert_rects_ok [OF sk, of pending ?y kept thesis] D(5) by blast
  have act: "\<not> rect_empty r \<and> fTop r \<le> ?y \<and> ?y < fBottom r" if "r \<in> set active'" for r
  proof (cases "r \<in> set used")
    case True
    then have "r \<in> set pending" "fTop r \<le> ?y" using ins(2,3) by simp_all
    with y(2) [of r] D(5) [of r] have "fTop r = ?y" "\<not> rect_empty r" by (blast intro: antisym)+
    then show ?thesis by (simp add: rect_empty_def)
  next
    case False
    with that ins(5) have "r \<in> set kept" by blast
    then have "kept \<noteq> []" by auto
    moreover from \<open>r \<in> set kept\<close> have "r \<in> set active" "cur_y < fBottom r" using kept(1) by auto
    ultimately show ?thesis using D(4) [of r] y(3) by simp
  qed
  have sorted: "sorted_wrt (\<lambda>r q. fTop r \<le> fTop q) rest" using D(2) ins(2) by (simp add: sorted_wrt_append)
  have rest: "\<not> rect_empty r \<and> ?y < fTop r" if "r \<in> set rest" for r
  proof -
    have "rest \<noteq> []" "r \<in> set pending" using that ins(2) by auto
    moreover have "fTop (hd rest) \<le> fTop r" using that sorted by (cases rest) auto
    ultimately show ?thesis using D(5) [of r] ins(4) by (meson less_le_trans)
  qed
  have "by_left kept" using D(1) by (simp add: kept(1) by_left_def sorted_wrt_filter)
  note act_left = ins(7) [OF this]
  have "active' \<noteq> []"
  proof (cases "kept = []")
    case True
    with kept(2) have "fTop (hd pending) = ?y" "pending \<noteq> []" by (simp_all add: next_y_def)
    with ins(2,4) have "used \<noteq> []" by auto
    with ins(6) show ?thesis by auto
  qed (use ins(6) in auto)
  moreover have "ends_by rg ?y" using ends_by_mono [OF rg(2) y(1)] .
  moreover have "kIntMin \<le> ?y" using D(3) y(1) by simp
  ultimately obtain end_y rg' where step: "sweep_line ?y active' rest rg = Inr (end_y, rg')" "?y < end_y" "sweep_ok end_y active' rest"
    "region_ok rg'" "ends_by rg' end_y" "rg_bounds rg' = rg_bounds rg"
    "\<And>x y. covers (bands rg') x y \<longleftrightarrow> covers (bands rg) x y \<or> y < end_y \<and> ?y \<le> y \<and> (\<exists>r\<in>set active'. in_rect r x y)"
    using sweep_line_ok [OF _ act_left rg(1) _ _ act sorted rest] by blast
  have ne: "\<not> (active = [] \<and> pending = [])" using kept by auto
  have eq: "sweep sk cur_y active pending rg = sweep sk end_y active' rest rg'"
    by (subst sweep.simps)
      (simp only: ne kept(2) kept(1) [symmetric] Let_def if_False next_y_def [symmetric] ins(1) step(1)
        bind.bind_lunit case_prod_conv sum.case)
  show ?thesis
  proof (rule that [OF eq _ step(3-6,2) _ _ step(7)])
    show "2 * length rest + length active' < 2 * length pending + length active"
      using sweep_progress [OF ok ins(2) kept ins(4)] ins(6) by simp
    show "set active' \<union> set rest = set kept \<union> set pending" using ins(2,5) by auto
    show "end_y \<le> fTop r" if "r \<in> set rest" for r using sweep_okD(5) [OF step(3) that] by simp
  qed
qed

lemma sweep_builds:
  assumes sk: "SkIRect_docs sk" and "sweep_ok cur_y active pending" "region_ok rg" "ends_by rg cur_y"
  shows "\<exists>res. sweep sk cur_y active pending rg = Some res \<and>
    builds rg (\<lambda>x y. cur_y \<le> y \<and> (\<exists>r\<in>set active \<union> set pending. in_rect r x y)) res"
  using assms(2-4)
proof (induction "2 * length pending + length active" arbitrary: cur_y active pending rg rule: less_induct)
  case less
  define kept where "kept = filter (\<lambda>r. fBottom r > cur_y) active"
  let ?P = "\<lambda>x y. cur_y \<le> y \<and> (\<exists>r\<in>set active \<union> set pending. in_rect r x y)"
  have keep: "?P x y \<longleftrightarrow> cur_y \<le> y \<and> (\<exists>r\<in>set kept \<union> set pending. in_rect r x y)" for x y
    by (auto simp: kept_def in_rect_def)
  show ?case
  proof (cases "kept = [] \<and> pending = []")
    case True
    then have "sweep sk cur_y active pending rg = Some (Inr rg)" by (simp add: sweep.simps flip: kept_def)
    moreover have "\<not> ?P x y" for x y unfolding keep using True by simp
    ultimately show ?thesis using builds_Inr [OF less.prems(2), of ?P] by blast
  next
    case False
    let ?y = "next_y cur_y kept pending"
    note y = next_y_ok [OF less.prems(1) False]
    obtain active' rest end_y rg' where step: "sweep sk cur_y active pending rg = sweep sk end_y active' rest rg'"
      "2 * length rest + length active' < 2 * length pending + length active"
      "sweep_ok end_y active' rest" "region_ok rg'" "ends_by rg' end_y" "rg_bounds rg' = rg_bounds rg"
      "?y < end_y" "set active' \<union> set rest = set kept \<union> set pending" "\<And>r. r \<in> set rest \<Longrightarrow> end_y \<le> fTop r"
      "\<And>x y. covers (bands rg') x y \<longleftrightarrow> covers (bands rg) x y \<or> y < end_y \<and> ?y \<le> y \<and> (\<exists>r\<in>set active'. in_rect r x y)"
      by (rule sweep_step [OF sk less.prems kept_def False]) (rule that)
    have above: "?y \<le> y" if "cur_y \<le> y" "r \<in> set kept \<union> set pending" "in_rect r x y" for r x y
    proof (cases "kept = []")
      case True
      then show ?thesis using that y(2) [of r] by (auto simp: in_rect_def)
    next
      case False
      then show ?thesis using that(1) y(3) by simp
    qed
    have later: "end_y \<le> y" if "r \<in> set rest" "in_rect r x y" for r x y
      using that step(9) [of r] by (auto simp: in_rect_def)
    have pts: "?P x y \<longleftrightarrow> y < end_y \<and> ?y \<le> y \<and> (\<exists>r\<in>set active'. in_rect r x y) \<or>
        end_y \<le> y \<and> (\<exists>r\<in>set active' \<union> set rest. in_rect r x y)" for x y
    proof -
      have "(\<exists>r\<in>set active' \<union> set rest. in_rect r x y) \<longleftrightarrow> (\<exists>r\<in>set active'. in_rect r x y)" if "y < end_y"
        using that later [of _ x y] by (meson Un_iff not_le)
      moreover have "cur_y \<le> y \<longleftrightarrow> ?y \<le> y" if "\<exists>r\<in>set active' \<union> set rest. in_rect r x y"
      proof
        show "?y \<le> y" if "cur_y \<le> y" using \<open>\<exists>r\<in>_. _\<close> above [OF that] unfolding step(8) by blast
        show "cur_y \<le> y" if "?y \<le> y" using y(1) that by (rule order.trans)
      qed
      moreover have "cur_y \<le> y" if "end_y \<le> y" using that y(1) step(7) by linarith
      moreover have "y < end_y \<longleftrightarrow> \<not> end_y \<le> y" by linarith
      ultimately show ?thesis unfolding keep step(8) [symmetric] by blast
    qed
    obtain c where c: "sweep sk end_y active' rest rg' = Some (Inr c)" "region_ok c" "rg_bounds c = rg_bounds rg'"
      "\<And>x y. covers (bands c) x y \<longleftrightarrow> covers (bands rg') x y \<or> end_y \<le> y \<and> (\<exists>r\<in>set active' \<union> set rest. in_rect r x y)"
      using less.hyps [OF step(2-5)] unfolding builds_def by blast
    have "covers (bands c) x y \<longleftrightarrow> covers (bands rg) x y \<or> ?P x y" for x y
      unfolding c(4) step(10) pts by blast
    then have "builds rg ?P (Inr c)" using c(2,3) step(6) by (simp add: builds_def)
    with c(1) show ?thesis unfolding step(1) by blast
  qed
qed

subsection \<open>Bulk construction\<close>

lemma is_bounds_self: "\<not> rect_empty r \<Longrightarrow> is_bounds r (in_rect r)"
proof -
  assume r: "\<not> rect_empty r"
  then have "in_rect r (fLeft r) (fTop r)" "in_rect r (fRight r - 1) (fBottom r - 1)"
    by (auto simp: rect_empty_def in_rect_def)
  then show ?thesis unfolding is_bounds_def by auto
qed

lemma is_bounds_foldl:
  assumes sk: "SkIRect_docs sk"
  shows "is_bounds b C \<Longrightarrow> \<forall>r\<in>set rs. \<not> rect_empty r \<Longrightarrow>
    is_bounds (foldl (sk_join sk) b rs) (\<lambda>x y. C x y \<or> rects_cover rs x y)"
proof (induction rs arbitrary: b C)
  case (Cons r rs)
  have "is_bounds (sk_join sk b r) (\<lambda>x y. C x y \<or> in_rect r x y)"
    using is_bounds_join [OF sk Cons.prems(1) is_bounds_self] Cons.prems(2) by simp
  from Cons.IH [OF this] Cons.prems(2) show ?case by (simp add: disj_assoc)
qed simp

lemma rect_order_sorted: "sorted_wrt (\<lambda>r q. fTop r \<le> fTop q) (rect_order rs)"
proof -
  have "sorted (map (\<lambda>r. (fTop r, fLeft r)) (rect_order rs))" by (simp add: rect_order_def)
  then show ?thesis unfolding sorted_map by (rule sorted_wrt_mono_rel [rotated]) auto
qed

lemma set_rect_order [simp]: "set (rect_order rs) = set rs"
  by (simp add: rect_order_def)

lemma of_rects_ok:
  assumes sk: "SkIRect_docs sk" and rs: "\<forall>r\<in>set rs. \<not> rect_empty r \<and> kIntMin \<le> fTop r"
  shows "\<exists>rg. DlRegion_of_rects sk rs = Some (Inr rg) \<and> region_wf rg \<and> (\<forall>x y. region_covers rg x y \<longleftrightarrow> rects_cover rs x y)"
proof -
  let ?r0 = "DlRegion_empty\<lparr>rg_bounds := foldl (sk_join sk) (rg_bounds DlRegion_empty) rs\<rparr>"
  have fresh: "region_ok ?r0" "ends_by ?r0 kIntMin" "\<And>x y. \<not> covers (bands ?r0) x y"
    by (simp_all add: DlRegion_empty_def fresh_region)
  have "sweep_ok kIntMin [] (rect_order rs)"
    using rs rect_order_sorted by (simp add: sweep_ok_def by_left_def)
  from sweep_builds [OF sk this fresh(1,2)] obtain rg where
    rg: "sweep sk kIntMin [] (rect_order rs) ?r0 = Some (Inr rg)" "region_ok rg" "rg_bounds rg = rg_bounds ?r0"
      "\<And>x y. covers (bands rg) x y \<longleftrightarrow> kIntMin \<le> y \<and> (\<exists>r\<in>set rs. in_rect r x y)"
    using fresh(3) by (auto simp: builds_def)
  have cov: "covers (bands rg) x y \<longleftrightarrow> rects_cover rs x y" for x y
    using rs unfolding rg(4) rects_cover_def in_rect_def by force
  have "is_bounds (rg_bounds ?r0) (\<lambda>x y. False \<or> rects_cover rs x y)"
    using is_bounds_foldl [OF sk is_bounds_empty [of "\<lambda>_ _. False"]] rs by (simp add: DlRegion_empty_def)
  then have "is_bounds (rg_bounds rg) (covers (bands rg))" using is_bounds_cong [OF cov] rg(3) by simp
  moreover have "DlRegion_of_rects sk rs = Some (Inr rg)"
    using rg(1) by (simp add: DlRegion_of_rects_def setRects_def) (simp add: DlRegion_empty_def)
  ultimately show ?thesis using region_wfI [OF rg(2)] cov by (simp add: region_covers_def)
qed

subsection \<open>An empty rectangle\<close>

text \<open>What a call that returned has been through: no empty rectangle.\<close>

lemma insert_rects_returned:
  "insert_rects sk cur_y active pending = Some res \<Longrightarrow>
    \<exists>used. pending = used @ snd res \<and> (\<forall>r\<in>set used. \<not> sk_isEmpty sk r)"
proof (erule insert_rects.raw_induct [rotated])
  fix f sk cur_y active pending and res :: "SkIRect list \<times> SkIRect list"
  assume 1: "\<And>sk cur_y active pending res. f sk cur_y active pending = Some res \<Longrightarrow>
      \<exists>used. pending = used @ snd res \<and> (\<forall>r\<in>set used. \<not> sk_isEmpty sk r)"
    "(case pending of [] \<Rightarrow> Some (active, [])
      | r # rs \<Rightarrow> if sk_isEmpty sk r then f sk cur_y active pending
          else if cur_y < fTop r then Some (active, pending) else f sk cur_y (insert_active r active) rs) = Some res"
  show "\<exists>used. pending = used @ snd res \<and> (\<forall>r\<in>set used. \<not> sk_isEmpty sk r)"
  proof (cases pending)
    case Nil
    with 1(2) show ?thesis by (intro exI [of _ "[]"]) auto
  next
    case (Cons r rs)
    consider (empty) "sk_isEmpty sk r" | (later) "\<not> sk_isEmpty sk r" "cur_y < fTop r"
      | (now) "\<not> sk_isEmpty sk r" "\<not> cur_y < fTop r" by blast
    then show ?thesis
    proof cases
      case empty
      with Cons 1(2) have "f sk cur_y active pending = Some res" by simp
      then show ?thesis by (rule 1(1))
    next
      case later
      with Cons 1(2) have "snd res = pending" by auto
      then show ?thesis by (intro exI [of _ "[]"]) simp
    next
      case now
      with Cons 1(2) have "f sk cur_y (insert_active r active) rs = Some res" by simp
      from 1(1) [OF this] obtain used where "rs = used @ snd res" "\<forall>r\<in>set used. \<not> sk_isEmpty sk r" by blast
      with Cons now show ?thesis by (intro exI [of _ "r # used"]) simp
    qed
  qed
qed

lemma sweep_returned:
  assumes "sweep sk cur_y active pending rg = Some res"
  shows "\<not> isl res \<longrightarrow> (\<forall>r\<in>set pending. \<not> sk_isEmpty sk r)"
  using assms
proof (rule sweep.raw_induct [rotated])
  fix f sk cur_y active pending rg and res :: "DlRegion result"
  assume 1: "\<And>sk cur_y active pending rg res. f sk cur_y active pending rg = Some res \<Longrightarrow>
      \<not> isl res \<longrightarrow> (\<forall>r\<in>set pending. \<not> sk_isEmpty sk r)"
    "(if active = [] \<and> pending = [] then Some (Inr rg)
      else let active = filter (\<lambda>r. cur_y < fBottom r) active
           in if active = [] \<and> pending = [] then Some (Inr rg)
              else let cur_y = if active = [] then fTop (hd pending) else cur_y
                   in Option.bind (insert_rects sk cur_y active pending) (\<lambda>(active, pending).
                        case sweep_line cur_y active pending rg of Inl e \<Rightarrow> Some (Inl e)
                        | Inr (cur_y, rg) \<Rightarrow> f sk cur_y active pending rg)) = Some res"
  let ?kept = "filter (\<lambda>r. cur_y < fBottom r) active"
  show "\<not> isl res \<longrightarrow> (\<forall>r\<in>set pending. \<not> sk_isEmpty sk r)"
  proof (cases "pending = []")
    case False
    let ?y = "if ?kept = [] then fTop (hd pending) else cur_y"
    from 1(2) False obtain active' rest where ins: "insert_rects sk ?y ?kept pending = Some (active', rest)"
      and k: "(case sweep_line ?y active' rest rg of Inl e \<Rightarrow> Some (Inl e)
        | Inr (cur_y, rg) \<Rightarrow> f sk cur_y active' rest rg) = Some res"
      by (simp only: Let_def simp_thms if_False bind_eq_Some_conv) auto
    obtain used where used: "pending = used @ rest" "\<forall>r\<in>set used. \<not> sk_isEmpty sk r"
      using insert_rects_returned [OF ins] by auto
    show ?thesis
    proof (cases "sweep_line ?y active' rest rg")
      case (Inl e)
      with k show ?thesis by auto
    next
      case (Inr p)
      with k obtain y' rg' where "f sk y' active' rest rg' = Some res" by (cases p) auto
      from 1(1) [OF this] have "\<not> isl res \<longrightarrow> (\<forall>r\<in>set rest. \<not> sk_isEmpty sk r)" .
      with used show ?thesis by auto
    qed
  qed simp
qed

lemma empty_rect_diverges:
  assumes "SkIRect_docs sk" "r \<in> set rs" "rect_empty r"
  shows "DlRegion_of_rects sk rs \<noteq> Some (Inr rg)"
proof
  assume "DlRegion_of_rects sk rs = Some (Inr rg)"
  then have "sweep sk kIntMin [] (rect_order rs)
      (DlRegion_empty\<lparr>rg_bounds := foldl (sk_join sk) (rg_bounds DlRegion_empty) rs\<rparr>) = Some (Inr rg)"
    by (auto simp: DlRegion_of_rects_def setRects_def split: if_splits)
  from sweep_returned [OF this] assms show False by (auto simp: SkIRect_docs_def)
qed

end
