(* ===== verification/Dl_Region_Props.thy ===== *)
theory Dl_Region_Props
  imports Dl_Region_Rects
begin

text \<open>
  The properties of regions, over any \<open>SkIRect\<close> that behaves as Skia documents, with their instances
  on a concrete one.
\<close>

section \<open>A rectangle implementation and sample regions\<close>

definition demo_sk :: SkIRect_api where
  "demo_sk = \<lparr>sk_isEmpty = rect_empty,
     sk_join = (\<lambda>a b. if rect_empty b then a else if rect_empty a then b else rect_hull a b),
     sk_contains = (\<lambda>a b. \<not> rect_empty a \<and> \<not> rect_empty b \<and>
       fLeft a \<le> fLeft b \<and> fTop a \<le> fTop b \<and> fRight b \<le> fRight a \<and> fBottom b \<le> fBottom a),
     sk_Intersects = (\<lambda>a b. \<not> rect_empty a \<and> \<not> rect_empty b \<and> \<not> rect_empty (rect_meet a b)),
     sk_intersect = (\<lambda>a b. if \<not> rect_empty a \<and> \<not> rect_empty b \<and> \<not> rect_empty (rect_meet a b)
       then (True, rect_meet a b) else (False, a))\<rparr>"

lemma demo_sk_docs: "SkIRect_docs demo_sk"
  by (simp add: SkIRect_docs_def demo_sk_def)

definition demo_rects :: "SkIRect list" where
  "demo_rects = [MakeLTRB 0 0 10 10, MakeLTRB 20 5 30 15, MakeLTRB 8 5 14 20]"

lemma demo_rects_ok: "\<forall>r\<in>set demo_rects. \<not> rect_empty r \<and> kIntMin \<le> fTop r"
  by (simp add: demo_rects_def rect_empty_def kIntMin_def)

definition demo_region :: DlRegion where
  "demo_region = projr (the (DlRegion_of_rects demo_sk demo_rects))"

definition demo_square :: DlRegion where
  "demo_square = projr (DlRegion_of_rect (MakeLTRB 9 3 25 7))"

lemma demo_region_wf: "region_wf demo_region"
  using of_rects_ok [OF demo_sk_docs demo_rects_ok] by (auto simp: demo_region_def)

lemma demo_square_wf: "region_wf demo_square"
  using region_of_rect [of "MakeLTRB 9 3 25 7"] by (force simp: demo_square_def rect_empty_def kIntMin_def)

section \<open>Properties\<close>

text \<open>
  C19: Union and intersection are those of the points.  For two well-formed regions (lines from top to
  bottom, separated increasing spans, no two touching lines with equal spans, valid chunk handles,
  exact bounds) \<open>MakeUnion\<close> and \<open>MakeIntersection\<close> return, no check of theirs fails, the result is
  well-formed again, and it covers exactly the points of either, respectively of both.
\<close>

theorem region_union_intersection:
  assumes "SkIRect_docs sk" and "region_wf a" and "region_wf b"
  shows "(\<exists>c. MakeUnion sk a b = Inr c \<and> region_wf c \<and>
      (\<forall>x y. region_covers c x y \<longleftrightarrow> region_covers a x y \<or> region_covers b x y)) \<and>
    (\<exists>c. MakeIntersection sk a b = Inr c \<and> region_wf c \<and>
      (\<forall>x y. region_covers c x y \<longleftrightarrow> region_covers a x y \<and> region_covers b x y))"
  using union_region [OF assms] intersection_region [OF assms] by blast

theorem region_union_intersection_witness:
  "(\<exists>c. MakeUnion demo_sk demo_region demo_square = Inr c \<and> region_wf c \<and>
      (\<forall>x y. region_covers c x y \<longleftrightarrow> region_covers demo_region x y \<or> region_covers demo_square x y)) \<and>
    (\<exists>c. MakeIntersection demo_sk demo_region demo_square = Inr c \<and> region_wf c \<and>
      (\<forall>x y. region_covers c x y \<longleftrightarrow> region_covers demo_region x y \<and> region_covers demo_square x y))"
  by (rule region_union_intersection [OF demo_sk_docs demo_region_wf demo_square_wf])

text \<open>
  C20: Building a region from a list of rectangles ends and covers exactly their points, when no
  rectangle is empty: the sweep of \<open>setRects\<close> returns a well-formed region and none of its checks
  fails.
\<close>

theorem region_of_rects_correct:
  assumes "SkIRect_docs sk" and "\<forall>r\<in>set rects. \<not> rect_empty r \<and> kIntMin \<le> fTop r"
  shows "\<exists>rg. DlRegion_of_rects sk rects = Some (Inr rg) \<and> region_wf rg \<and>
    (\<forall>x y. region_covers rg x y \<longleftrightarrow> (\<exists>r\<in>set rects. in_rect r x y))"
  using of_rects_ok [OF assms] unfolding rects_cover_def .

theorem region_of_rects_correct_witness:
  "\<exists>rg. DlRegion_of_rects demo_sk demo_rects = Some (Inr rg) \<and> region_wf rg \<and>
    (\<forall>x y. region_covers rg x y \<longleftrightarrow> (\<exists>r\<in>set demo_rects. in_rect r x y))"
  by (rule region_of_rects_correct [OF demo_sk_docs demo_rects_ok])

text \<open>
  C21: The rectangles that \<open>getRects\<close> returns, with or without merging across lines, are disjoint, none
  of them is empty, and together they cover exactly the region.
\<close>

theorem region_rects_partition:
  assumes "region_wf rg"
  shows "\<exists>rects. getRects deband rg = Inr rects \<and> sorted_wrt apart rects \<and> (\<forall>r\<in>set rects. \<not> rect_empty r) \<and>
    (\<forall>x y. (\<exists>r\<in>set rects. in_rect r x y) \<longleftrightarrow> region_covers rg x y)"
  using getRects_ok [OF assms] unfolding rects_cover_def .

theorem region_rects_partition_witness:
  "\<exists>rects. getRects True demo_region = Inr rects \<and> sorted_wrt apart rects \<and> (\<forall>r\<in>set rects. \<not> rect_empty r) \<and>
    (\<forall>x y. (\<exists>r\<in>set rects. in_rect r x y) \<longleftrightarrow> region_covers demo_region x y)"
  by (rule region_rects_partition [OF demo_region_wf])

text \<open>
  The intersection tests decide whether a common point exists: \<open>intersects\<close> of a region with a
  rectangle and with another region, both of which skip lines with a binary search and walk the rest
  in step, return true exactly when some point is in both.
\<close>

theorem region_intersects_iff:
  assumes "SkIRect_docs sk" and "region_wf a" and "region_wf b"
  shows "(\<exists>i. intersects_rect sk rect a = Inr i \<and> (i \<longleftrightarrow> (\<exists>x y. in_rect rect x y \<and> region_covers a x y))) \<and>
    (\<exists>i. intersects_region sk a b = Inr i \<and> (i \<longleftrightarrow> (\<exists>x y. region_covers a x y \<and> region_covers b x y)))"
  using intersects_rect_iff [OF assms(1,2)] intersects_region_iff [OF assms] by blast

theorem region_intersects_iff_witness:
  "(\<exists>i. intersects_rect demo_sk (MakeLTRB 15 0 18 9) demo_region = Inr i \<and>
      (i \<longleftrightarrow> (\<exists>x y. in_rect (MakeLTRB 15 0 18 9) x y \<and> region_covers demo_region x y))) \<and>
    (\<exists>i. intersects_region demo_sk demo_region demo_square = Inr i \<and>
      (i \<longleftrightarrow> (\<exists>x y. region_covers demo_region x y \<and> region_covers demo_square x y)))"
  by (rule region_intersects_iff [OF demo_sk_docs demo_region_wf demo_square_wf])

text \<open>
  The search that \<open>intersects\<close> starts from, a binary search over the lines behind the first eleven
  or a scan from the start, finds the same line as a plain scan over all lines.
\<close>

theorem first_line_is_scan:
  assumes "region_wf rg"
  shows "first_line rect (rg_lines rg) = dropWhile (\<lambda>l. ln_bottom l \<le> fTop rect) (rg_lines rg)"
  using first_line_eq [OF region_wf_lines [OF assms]] .

theorem first_line_is_scan_witness:
  "first_line (MakeLTRB 0 7 1 8) (rg_lines demo_region) =
     dropWhile (\<lambda>l. ln_bottom l \<le> fTop (MakeLTRB 0 7 1 8)) (rg_lines demo_region)"
  by (rule first_line_is_scan [OF demo_region_wf])

text \<open>
  C22: \<open>setRects\<close> does not return when one of the rectangles is empty: the loop that brings rectangles
  in continues at an empty one without moving past it.  A single rectangle given to the other
  constructor is not filtered either: an empty one gives a region that covers nothing and does not
  count as empty.
\<close>

theorem region_empty_rect:
  "(SkIRect_docs sk \<and> r \<in> set rects \<and> rect_empty r \<longrightarrow> (\<nexists>rg. DlRegion_of_rects sk rects = Some (Inr rg))) \<and>
   (\<exists>rg. DlRegion_of_rect MakeEmpty = Inr rg \<and> \<not> rg_isEmpty rg \<and> (\<forall>x y. \<not> region_covers rg x y))"
proof (intro conjI)
  show "SkIRect_docs sk \<and> r \<in> set rects \<and> rect_empty r \<longrightarrow> (\<nexists>rg. DlRegion_of_rects sk rects = Some (Inr rg))"
    using empty_rect_diverges by blast
  have "DlRegion_of_rect MakeEmpty = Inr (projr (DlRegion_of_rect MakeEmpty))" by (rule result_eqI) code_simp
  moreover have "\<not> rg_isEmpty (projr (DlRegion_of_rect MakeEmpty))" by code_simp
  moreover have "\<not> region_covers (projr (DlRegion_of_rect MakeEmpty)) x y" for x y
  proof -
    have "bands (projr (DlRegion_of_rect MakeEmpty)) = [(0, 0, [mk_span 0 0])]" by code_simp
    then show ?thesis by (simp add: region_covers_def)
  qed
  ultimately show "\<exists>rg. DlRegion_of_rect MakeEmpty = Inr rg \<and> \<not> rg_isEmpty rg \<and> (\<forall>x y. \<not> region_covers rg x y)" by blast
qed

theorem region_empty_rect_witness:
  "\<nexists>rg. DlRegion_of_rects demo_sk [MakeLTRB 0 0 4 4, MakeLTRB 1 1 1 2] = Some (Inr rg)"
proof -
  have "MakeLTRB 1 1 1 2 \<in> set [MakeLTRB 0 0 4 4, MakeLTRB 1 1 1 2]" "rect_empty (MakeLTRB 1 1 1 2)"
    by (simp_all add: rect_empty_def)
  then show ?thesis using region_empty_rect [of demo_sk "MakeLTRB 1 1 1 2"] demo_sk_docs by blast
qed

end
