(* ===== verification/Rectangle_Packer.thy ===== *)
theory Rectangle_Packer
  imports Prelude
begin

text \<open>
  \<open>impeller/typographer/rectangle_packer.cc\<close>: the packer that gives glyphs their place in an atlas.
  It keeps the silhouette of what it has placed, a list of horizontal segments from left to right.

  Positions and sizes are C++ \<open>int\<close>s that stay between 0 and the packer's width and height (that is
  part of the invariant), so the model adds them without wrap-around; the location it returns is
  narrowed to 16 bits.
\<close>

record SkylineSegment =
  sg_x :: int
  sg_y :: int
  sg_width :: int

abbreviation segment :: "int \<Rightarrow> int \<Rightarrow> int \<Rightarrow> SkylineSegment" where
  "segment x y w \<equiv> \<lparr>sg_x = x, sg_y = y, sg_width = w\<rparr>"

abbreviation sg_end :: "SkylineSegment \<Rightarrow> int" where
  "sg_end s \<equiv> sg_x s + sg_width s"

record SkylineRectanglePacker =
  pk_width :: int
  pk_height :: int
  pk_skyline :: "SkylineSegment list"
  pk_area_so_far :: int

record IPoint16 =
  ip_x :: int
  ip_y :: int

text \<open>Conversion to \<open>int16_t\<close>.\<close>

definition int16 :: "int \<Rightarrow> int" where
  "int16 z = (z + 2 ^ 15) mod 2 ^ 16 - 2 ^ 15"

definition packer_reset :: "SkylineRectanglePacker \<Rightarrow> SkylineRectanglePacker" where
  "packer_reset p = p\<lparr>pk_area_so_far := 0, pk_skyline := [segment 0 0 (pk_width p)]\<rparr>"

definition RectanglePacker_Factory :: "int \<Rightarrow> int \<Rightarrow> SkylineRectanglePacker result" where
  "RectanglePacker_Factory w h =
     require DcheckFailed (w \<ge> 0) (require DcheckFailed (h \<ge> 0)
       (Inr (packer_reset \<lparr>pk_width = w, pk_height = h, pk_skyline = [], pk_area_so_far = 0\<rparr>)))"

text \<open>The loop of \<open>rectangleFits\<close> over the segments from the given one on.\<close>

fun fits_from :: "int \<Rightarrow> int \<Rightarrow> int \<Rightarrow> int \<Rightarrow> SkylineSegment list \<Rightarrow> int option" where
  "fits_from packer_height height widthLeft y [] = Some y"
| "fits_from packer_height height widthLeft y (s # ss) =
     (if widthLeft > 0 then
        let y = max y (sg_y s)
        in if y + height > packer_height then None
           else fits_from packer_height height (widthLeft - sg_width s) y ss
      else Some y)"

definition rectangleFits :: "SkylineRectanglePacker \<Rightarrow> nat \<Rightarrow> int \<Rightarrow> int \<Rightarrow> int option" where
  "rectangleFits p i width height =
     (let s = pk_skyline p ! i
      in if sg_x s + width > pk_width p then None
         else fits_from (pk_height p) height width (sg_y s) (drop i (pk_skyline p)))"

text \<open>The following segments lose what the new one covers.\<close>

fun shrink_following :: "SkylineSegment \<Rightarrow> SkylineSegment list \<Rightarrow> SkylineSegment list result" where
  "shrink_following new [] = Inr []"
| "shrink_following new (s # ss) =
     require DcheckFailed (sg_x new \<le> sg_x s)
       (if sg_x s < sg_x new + sg_width new then
          let shrink = sg_x new + sg_width new - sg_x s;
              s = s\<lparr>sg_x := sg_x s + shrink, sg_width := sg_width s - shrink\<rparr>
          in if sg_width s \<le> 0 then shrink_following new ss else Inr (s # ss)
        else Inr (s # ss))"

text \<open>
  Two neighbours of the same height: the left one gets the width of both, and is then the one that
  is erased.
\<close>

fun merge_segments :: "SkylineSegment list \<Rightarrow> SkylineSegment list" where
  "merge_segments (s # t # ss) =
     (if sg_y s = sg_y t then
        let skyline = s\<lparr>sg_width := sg_width s + sg_width t\<rparr> # t # ss
        in merge_segments (tl skyline)
      else s # merge_segments (t # ss))"
| "merge_segments ss = ss"

definition addSkylineLevel :: "nat \<Rightarrow> int \<Rightarrow> int \<Rightarrow> int \<Rightarrow> int \<Rightarrow> SkylineRectanglePacker \<Rightarrow> SkylineRectanglePacker result" where
  "addSkylineLevel i x y width height p =
     (let new = segment x (y + height) width
      in require DcheckFailed (sg_x new + sg_width new \<le> pk_width p)
           (require DcheckFailed (sg_y new \<le> pk_height p)
             (rbind (shrink_following new (drop i (pk_skyline p))) (\<lambda>rest.
               Inr (p\<lparr>pk_skyline := merge_segments (take i (pk_skyline p) @ new # rest)\<rparr>)))))"

text \<open>The best position so far: index, width of its segment, x and y.\<close>

type_synonym best = "(nat \<times> int \<times> int \<times> int) option"

definition better :: "SkylineRectanglePacker \<Rightarrow> int \<Rightarrow> int \<Rightarrow> nat \<Rightarrow> best \<Rightarrow> best" where
  "better p width height i best =
     (let (bestWidth, bestY) =
            (case best of None \<Rightarrow> (pk_width p + 1, pk_height p + 1) | Some (_, w, _, y) \<Rightarrow> (w, y))
      in case rectangleFits p i width height of
           None \<Rightarrow> best
         | Some y \<Rightarrow>
             (let s = pk_skyline p ! i
              in if y < bestY \<or> y = bestY \<and> sg_width s < bestWidth then Some (i, sg_width s, sg_x s, y) else best))"

text \<open>\<open>(unsigned)a > (unsigned)b\<close>: a negative number counts as a large one.\<close>

definition unsigned_gt :: "int \<Rightarrow> int \<Rightarrow> bool" where
  "unsigned_gt a b = (a mod 2 ^ 32 > b mod 2 ^ 32)"

text \<open>The result, the location (unset when the size check fails) and the packer.\<close>

definition addRect :: "int \<Rightarrow> int \<Rightarrow> SkylineRectanglePacker \<Rightarrow> (bool \<times> IPoint16 option \<times> SkylineRectanglePacker) result" where
  "addRect width height p =
     (if unsigned_gt width (pk_width p) \<or> unsigned_gt height (pk_height p) then Inr (False, None, p)
      else
        case fold (better p width height) [0..<length (pk_skyline p)] None of
          None \<Rightarrow> Inr (False, Some \<lparr>ip_x = 0, ip_y = 0\<rparr>, p)
        | Some (i, _, x, y) \<Rightarrow>
            rbind (addSkylineLevel i x y width height p) (\<lambda>p.
              Inr (True, Some \<lparr>ip_x = int16 x, ip_y = int16 y\<rparr>,
                   p\<lparr>pk_area_so_far := pk_area_so_far p + width * height\<rparr>)))"

section \<open>The silhouette lies above what is placed\<close>

text \<open>A placed rectangle: its left upper corner, its width and height.\<close>

record placed =
  pl_x :: int
  pl_y :: int
  pl_width :: int
  pl_height :: int

abbreviation pl_right :: "placed \<Rightarrow> int" where "pl_right r \<equiv> pl_x r + pl_width r"
abbreviation pl_bottom :: "placed \<Rightarrow> int" where "pl_bottom r \<equiv> pl_y r + pl_height r"

text \<open>
  Segments from \<open>l\<close> on: ordered, of positive width, between the sides and above the bottom; a placed
  rectangle that reaches into a segment, or into the gap before it, ends at or above its height.
\<close>

fun skyline_ok :: "int \<Rightarrow> placed list \<Rightarrow> int \<Rightarrow> SkylineSegment list \<Rightarrow> bool" where
  "skyline_ok H ps l [] = True"
| "skyline_ok H ps l (s # ss) =
     (l \<le> sg_x s \<and> 0 < sg_width s \<and> 0 \<le> sg_y s \<and> sg_y s \<le> H \<and>
      (\<forall>r\<in>set ps. pl_x r < sg_end s \<and> l < pl_right r \<longrightarrow> pl_bottom r \<le> sg_y s) \<and>
      skyline_ok H ps (sg_end s) ss)"

definition last_end :: "int \<Rightarrow> SkylineSegment list \<Rightarrow> int" where
  "last_end l ss = (if ss = [] then l else sg_end (last ss))"

lemma skyline_ok_end: "skyline_ok H ps l ss \<Longrightarrow> l \<le> last_end l ss"
proof (induction ss arbitrary: l)
  case (Cons s ss)
  then have "sg_end s \<le> last_end (sg_end s) ss" "l \<le> sg_end s" by auto
  then show ?case by (auto simp: last_end_def split: if_splits)
qed (simp add: last_end_def)

lemma skyline_ok_append:
  "skyline_ok H ps l (ss @ ts) \<longleftrightarrow> skyline_ok H ps l ss \<and> skyline_ok H ps (last_end l ss) ts"
proof (induction ss arbitrary: l)
  case (Cons s ss)
  have "last_end (sg_end s) ss = last_end l (s # ss)" by (simp add: last_end_def)
  with Cons show ?case by simp
qed (simp add: last_end_def)

text \<open>A segment may start further left: the gap before it grows, if nothing placed reaches into it too far.\<close>

lemma skyline_ok_left:
  assumes "skyline_ok H ps m (s # ss)" "l \<le> m" "\<forall>r\<in>set ps. 0 < pl_width r"
    and "\<And>r. r \<in> set ps \<Longrightarrow> pl_x r < m \<Longrightarrow> l < pl_right r \<Longrightarrow> pl_bottom r \<le> sg_y s"
  shows "skyline_ok H ps l (s # ss)"
proof -
  have "pl_bottom r \<le> sg_y s" if "r \<in> set ps" "pl_x r < sg_end s" "l < pl_right r" for r
  proof (cases "m < pl_right r")
    case True
    with assms(1) that show ?thesis by simp
  next
    case False
    have "0 < pl_width r" using assms(3) that(1) by blast
    with False that assms(4) show ?thesis by simp
  qed
  with assms(1,2) show ?thesis by simp
qed

lemma merge_segments_ok:
  assumes "\<forall>r\<in>set ps. 0 < pl_width r"
  shows "skyline_ok H ps l ss \<Longrightarrow> skyline_ok H ps l (merge_segments ss) \<and> last_end l (merge_segments ss) = last_end l ss \<and>
    (ss \<noteq> [] \<longrightarrow> merge_segments ss \<noteq> [])"
proof (induction ss arbitrary: l rule: merge_segments.induct)
  case (1 s t ss)
  show ?case
  proof (cases "sg_y s = sg_y t")
    case True
    have "skyline_ok H ps l (t # ss)"
      by (rule skyline_ok_left [where m = "sg_end s"]) (use 1(3) True assms in auto)
    with 1(1) [OF True refl] True show ?thesis by (auto simp: last_end_def)
  next
    case False
    with 1(2) [OF False, of "sg_end s"] 1(3) show ?thesis by (auto simp: last_end_def split: if_splits)
  qed
qed auto

text \<open>
  Where the search says the rectangle fits, nothing placed reaches below that height in its columns,
  and the rectangle ends above the bottom.
\<close>

definition overlaps_columns :: "placed \<Rightarrow> int \<Rightarrow> int \<Rightarrow> bool" where
  "overlaps_columns r l R = (max l (pl_x r) < min R (pl_right r))"

lemma fits_from_ok:
  assumes "fits_from H height n y ss = Some y'" "skyline_ok H ps l ss" "R - l \<le> n" "R \<le> last_end l ss"
  shows "y \<le> y' \<and> (y + height \<le> H \<or> ss \<noteq> [] \<and> 0 < n \<longrightarrow> y' + height \<le> H) \<and>
    (\<forall>r\<in>set ps. overlaps_columns r l R \<longrightarrow> pl_bottom r \<le> y')"
  using assms
proof (induction H height n y ss arbitrary: l rule: fits_from.induct)
  case (2 H height n y s ss)
  show ?case
  proof (cases "n > 0")
    case False
    with 2 show ?thesis by (auto simp: overlaps_columns_def)
  next
    case True
    let ?y = "max y (sg_y s)"
    have seg: "l \<le> sg_x s" "skyline_ok H ps (sg_end s) ss"
      "\<And>r. r \<in> set ps \<Longrightarrow> pl_x r < sg_end s \<Longrightarrow> l < pl_right r \<Longrightarrow> pl_bottom r \<le> sg_y s" using 2(3) by auto
    have fit: "\<not> ?y + height > H" "fits_from H height (n - sg_width s) ?y ss = Some y'"
      using 2(2) True by (auto simp: Let_def split: if_splits)
    have "R - sg_end s \<le> n - sg_width s" "R \<le> last_end (sg_end s) ss"
      using 2(4,5) seg(1) by (auto simp: last_end_def split: if_splits)
    from 2(1) [OF True refl fit(1) fit(2) seg(2) this] have IH: "?y \<le> y'" "y' + height \<le> H"
      "\<And>r. r \<in> set ps \<Longrightarrow> overlaps_columns r (sg_end s) R \<Longrightarrow> pl_bottom r \<le> y'" using fit(1) by auto
    have "pl_bottom r \<le> y'" if "r \<in> set ps" "overlaps_columns r l R" for r
    proof (cases "pl_x r < sg_end s")
      case True
      with seg(3) [OF that(1)] that(2) IH(1) show ?thesis by (auto simp: overlaps_columns_def)
    next
      case False
      with that(2) have "overlaps_columns r (sg_end s) R" by (auto simp: overlaps_columns_def)
      with IH(3) that(1) show ?thesis by blast
    qed
    with IH(1,2) show ?thesis by auto
  qed
qed (auto simp: last_end_def overlaps_columns_def)

text \<open>Covering part of the following segments keeps what is left of them.\<close>

lemma shrink_following_ok:
  assumes "skyline_ok H ps l ss" "sg_x new \<le> l \<or> ss \<noteq> [] \<and> sg_x new \<le> sg_x (hd ss)" "sg_end new \<le> last_end l ss"
    "l \<le> sg_end new"
  shows "\<exists>rest. shrink_following new ss = Inr rest \<and> skyline_ok H ps (sg_end new) rest \<and>
    last_end (sg_end new) rest = last_end l ss"
  using assms
proof (induction ss arbitrary: l)
  case (Cons s ss)
  have seg: "l \<le> sg_x s" "0 < sg_width s" "0 \<le> sg_y s" "sg_y s \<le> H" "skyline_ok H ps (sg_end s) ss"
    "\<And>r. r \<in> set ps \<Longrightarrow> pl_x r < sg_end s \<Longrightarrow> l < pl_right r \<Longrightarrow> pl_bottom r \<le> sg_y s" using Cons.prems(1) by auto
  have le: "sg_x new \<le> sg_x s" using Cons.prems(2) seg(1) by auto
  have last: "last_end l (s # ss) = last_end (sg_end s) ss" by (simp add: last_end_def)
  show ?case
  proof (cases "sg_x s < sg_end new \<and> sg_end s \<le> sg_end new")
    case True
    have "sg_x new \<le> sg_end s" using le seg(2) by simp
    with Cons.IH [OF seg(5)] True Cons.prems(3) last obtain rest where
      "shrink_following new ss = Inr rest" "skyline_ok H ps (sg_end new) rest" "last_end (sg_end new) rest = last_end (sg_end s) ss"
      by auto
    with True le last show ?thesis by (auto simp: Let_def)
  next
    case False
    let ?s = "if sg_x s < sg_end new then segment (sg_end new) (sg_y s) (sg_end s - sg_end new) else s"
    have eq: "shrink_following new (s # ss) = Inr (?s # ss)" using False le by (cases s) (auto simp: Let_def)
    have "sg_end ?s = sg_end s" by simp
    then have "skyline_ok H ps (sg_end new) (?s # ss)" using False seg Cons.prems(4) by (auto split: if_splits)
    moreover have "last_end (sg_end new) (?s # ss) = last_end l (s # ss)"
      using \<open>sg_end ?s = sg_end s\<close> by (simp add: last_end_def)
    ultimately show ?thesis unfolding eq by blast
  qed
qed (auto simp: last_end_def)

section \<open>The invariant\<close>

definition pl_inside :: "placed \<Rightarrow> int \<Rightarrow> int \<Rightarrow> bool" where
  "pl_inside r x y = (pl_x r \<le> x \<and> x < pl_right r \<and> pl_y r \<le> y \<and> y < pl_bottom r)"

definition disjoint_placed :: "placed \<Rightarrow> placed \<Rightarrow> bool" where
  "disjoint_placed r q = (\<forall>x y. \<not> (pl_inside r x y \<and> pl_inside q x y))"

definition placed_ok :: "SkylineRectanglePacker \<Rightarrow> placed \<Rightarrow> bool" where
  "placed_ok p r =
     (0 < pl_width r \<and> 0 \<le> pl_height r \<and> 0 \<le> pl_x r \<and> 0 \<le> pl_y r \<and> pl_right r \<le> pk_width p \<and> pl_bottom r \<le> pk_height p)"

definition packer_inv :: "SkylineRectanglePacker \<Rightarrow> placed list \<Rightarrow> bool" where
  "packer_inv p ps =
     (0 < pk_width p \<and> pk_width p < 2 ^ 15 \<and> 0 \<le> pk_height p \<and> pk_height p < 2 ^ 15 \<and>
      pk_skyline p \<noteq> [] \<and> skyline_ok (pk_height p) ps 0 (pk_skyline p) \<and> last_end 0 (pk_skyline p) = pk_width p \<and>
      (\<forall>r\<in>set ps. placed_ok p r) \<and> sorted_wrt disjoint_placed ps \<and>
      pk_area_so_far p = sum_list (map (\<lambda>r. pl_width r * pl_height r) ps))"

lemma packer_inv_new:
  "RectanglePacker_Factory w h = Inr p \<Longrightarrow> 0 < w \<Longrightarrow> w < 2 ^ 15 \<Longrightarrow> h < 2 ^ 15 \<Longrightarrow> packer_inv p []"
  by (auto simp: RectanglePacker_Factory_def packer_reset_def packer_inv_def last_end_def)

lemma packer_inv_reset: "packer_inv p ps \<Longrightarrow> packer_inv (packer_reset p) []"
  by (auto simp: packer_reset_def packer_inv_def last_end_def)

text \<open>The chosen position is one where the rectangle fits, and no fitting position is higher up.\<close>

definition best_fits :: "SkylineRectanglePacker \<Rightarrow> int \<Rightarrow> int \<Rightarrow> best \<Rightarrow> bool" where
  "best_fits p width height best =
     (case best of None \<Rightarrow> True | Some (i, w, x, y) \<Rightarrow>
        rectangleFits p i width height = Some y \<and> x = sg_x (pk_skyline p ! i) \<and> i < length (pk_skyline p))"

definition best_y :: "SkylineRectanglePacker \<Rightarrow> best \<Rightarrow> int" where
  "best_y p best = (case best of None \<Rightarrow> pk_height p + 1 | Some (i, w, x, y) \<Rightarrow> y)"

lemma better_fits: "best_fits p width height best \<Longrightarrow> i < length (pk_skyline p) \<Longrightarrow> best_fits p width height (better p width height i best)"
  by (auto simp: best_fits_def better_def Let_def split: option.splits prod.splits)

lemma fold_better_fits:
  "best_fits p width height best \<Longrightarrow> \<forall>i\<in>set js. i < length (pk_skyline p) \<Longrightarrow>
    best_fits p width height (fold (better p width height) js best)"
  by (induction js arbitrary: best) (simp_all add: better_fits)

lemma better_y:
  "best_y p (better p width height i best) \<le> best_y p best"
  "rectangleFits p i width height = Some y \<Longrightarrow> best_y p (better p width height i best) \<le> y"
  by (auto simp: best_y_def better_def Let_def split: option.splits prod.splits)

lemma fold_better_y:
  "best_y p (fold (better p width height) js best) \<le> best_y p best \<and>
    (\<forall>i\<in>set js. \<forall>y. rectangleFits p i width height = Some y \<longrightarrow> best_y p (fold (better p width height) js best) \<le> y)"
proof (induction js arbitrary: best)
  case (Cons i js)
  note IH = Cons.IH [of "better p width height i best"]
  have "best_y p (fold (better p width height) (i # js) best) \<le> y" if "rectangleFits p i width height = Some y" for y
    using IH better_y(2) [OF that, of best] by simp
  moreover have "best_y p (fold (better p width height) (i # js) best) \<le> best_y p best"
    using IH better_y(1) [of p width height i best] by simp
  ultimately show ?case using IH by auto
qed simp

lemma rectangleFits_ok:
  assumes inv: "packer_inv p ps" and i: "i < length (pk_skyline p)" and "0 < width" "0 \<le> height"
    and fits: "rectangleFits p i width height = Some y"
  defines "x \<equiv> sg_x (pk_skyline p ! i)"
  shows "0 \<le> x" "x + width \<le> pk_width p" "0 \<le> y" "y + height \<le> pk_height p" "sg_y (pk_skyline p ! i) \<le> y"
    "\<And>r. r \<in> set ps \<Longrightarrow> overlaps_columns r x (x + width) \<Longrightarrow> pl_bottom r \<le> y"
proof -
  let ?A = "take i (pk_skyline p)" and ?s = "pk_skyline p ! i" and ?B = "drop (Suc i) (pk_skyline p)"
  have split: "pk_skyline p = ?A @ ?s # ?B" "drop i (pk_skyline p) = ?s # ?B"
    using i by (simp_all add: Cons_nth_drop_Suc flip: id_take_nth_drop)
  have sky: "skyline_ok (pk_height p) ps 0 (?A @ ?s # ?B)" "last_end 0 (?A @ ?s # ?B) = pk_width p"
    using inv split(1) by (simp_all add: packer_inv_def)
  have A: "skyline_ok (pk_height p) ps 0 ?A" "skyline_ok (pk_height p) ps (last_end 0 ?A) (?s # ?B)"
    using sky(1) by (simp_all add: skyline_ok_append)
  have x: "0 \<le> x" "0 \<le> sg_y ?s" using skyline_ok_end [OF A(1)] A(2) by (auto simp: x_def)
  have wid: "x + width \<le> pk_width p" and from_s: "fits_from (pk_height p) height width (sg_y ?s) (?s # ?B) = Some y"
    using fits split(2) by (auto simp: rectangleFits_def x_def Let_def split: if_splits)
  have "skyline_ok (pk_height p) ps x (?s # ?B)" using A(2) by (auto simp: x_def)
  moreover have "x + width \<le> last_end x (?s # ?B)" using wid sky(2) by (auto simp: last_end_def)
  ultimately have ok: "sg_y ?s \<le> y" "y + height \<le> pk_height p"
    "\<And>r. r \<in> set ps \<Longrightarrow> overlaps_columns r x (x + width) \<Longrightarrow> pl_bottom r \<le> y"
    using fits_from_ok [OF from_s, of ps x "x + width"] assms(3) by auto
  show "0 \<le> x" "x + width \<le> pk_width p" "0 \<le> y" "y + height \<le> pk_height p" "sg_y ?s \<le> y"
    using x wid ok by auto
  show "\<And>r. r \<in> set ps \<Longrightarrow> overlaps_columns r x (x + width) \<Longrightarrow> pl_bottom r \<le> y" by (rule ok(3))
qed

text \<open>Segments left and right of a new rectangle.\<close>

lemma last_end_append: "last_end l (ss @ ts) = last_end (last_end l ss) ts"
  by (simp add: last_end_def)

lemma skyline_ok_new_right:
  "skyline_ok H ps l ss \<Longrightarrow> pl_right r \<le> l \<Longrightarrow> skyline_ok H (r # ps) l ss"
  by (induction ss arbitrary: l) auto

lemma skyline_ok_new_left:
  "skyline_ok H ps l ss \<Longrightarrow> last_end l ss \<le> pl_x r \<Longrightarrow> skyline_ok H (r # ps) l ss"
proof (induction ss arbitrary: l)
  case (Cons s ss)
  have "sg_end s \<le> last_end (sg_end s) ss" using Cons.prems(1) skyline_ok_end by auto
  moreover have "last_end (sg_end s) ss = last_end l (s # ss)" by (simp add: last_end_def)
  ultimately show ?case using Cons by auto
qed simp

text \<open>The silhouette with the new rectangle.\<close>

lemma new_level_ok:
  assumes A: "skyline_ok H ps 0 A" and D: "skyline_ok H ps (last_end 0 A) (s # B)"
    and wid: "\<forall>r\<in>set ps. 0 < pl_width r" and size: "0 < width" "0 \<le> height" "0 \<le> y" "y + height \<le> H" "sg_y s \<le> y"
    and free: "\<And>r. r \<in> set ps \<Longrightarrow> overlaps_columns r (sg_x s) (sg_x s + width) \<Longrightarrow> pl_bottom r \<le> y"
    and fit: "sg_x s + width \<le> last_end (last_end 0 A) (s # B)"
  defines "new \<equiv> \<lparr>pl_x = sg_x s, pl_y = y, pl_width = width, pl_height = height\<rparr>"
  shows "\<exists>rest. shrink_following (segment (sg_x s) (y + height) width) (s # B) = Inr rest \<and>
    skyline_ok H (new # ps) 0 (A @ segment (sg_x s) (y + height) width # rest) \<and>
    last_end 0 (A @ segment (sg_x s) (y + height) width # rest) = last_end (last_end 0 A) (s # B)"
proof -
  let ?seg = "segment (sg_x s) (y + height) width" and ?l = "last_end 0 A"
  have s: "?l \<le> sg_x s" "0 < sg_width s" "\<And>r. r \<in> set ps \<Longrightarrow> pl_x r < sg_end s \<Longrightarrow> ?l < pl_right r \<Longrightarrow> pl_bottom r \<le> sg_y s"
    using D by auto
  obtain rest where rest: "shrink_following ?seg (s # B) = Inr rest" "skyline_ok H ps (sg_x s + width) rest"
    "last_end (sg_x s + width) rest = last_end ?l (s # B)"
    using shrink_following_ok [OF D, of ?seg] fit s(1) size(1) by auto
  have "pl_bottom r \<le> y + height" if "r \<in> set ps" "pl_x r < sg_x s + width" "?l < pl_right r" for r
  proof (cases "overlaps_columns r (sg_x s) (sg_x s + width)")
    case True
    with free [OF that(1)] size(2) show ?thesis by simp
  next
    case False
    moreover have "0 < pl_width r" using wid that(1) by blast
    ultimately have "pl_x r < sg_end s" using that(2) s(2) size(1) by (auto simp: overlaps_columns_def)
    with s(3) [OF that(1)] that(3) size(2,5) show ?thesis by fastforce
  qed
  then have "skyline_ok H (new # ps) ?l (?seg # rest)"
    using s(1) size rest(2) skyline_ok_new_right [OF rest(2), of new] by (auto simp: new_def)
  moreover have "skyline_ok H (new # ps) 0 A"
    using skyline_ok_new_left [OF A, of new] s(1) by (simp add: new_def)
  ultimately have "skyline_ok H (new # ps) 0 (A @ ?seg # rest)" by (simp add: skyline_ok_append)
  moreover have "last_end 0 (A @ ?seg # rest) = last_end ?l (s # B)"
  proof -
    have "last_end ?l (?seg # rest) = last_end (sg_x s + width) rest" by (simp add: last_end_def)
    with rest(3) show ?thesis by (simp only: last_end_append)
  qed
  ultimately show ?thesis using rest(1) by blast
qed

lemma addSkylineLevel_ok:
  assumes inv: "packer_inv p ps" and i: "i < length (pk_skyline p)" and size: "0 < width" "0 \<le> height"
    and fits: "rectangleFits p i width height = Some y"
  defines "x \<equiv> sg_x (pk_skyline p ! i)"
  defines "new \<equiv> \<lparr>pl_x = x, pl_y = y, pl_width = width, pl_height = height\<rparr>"
  shows "\<exists>sky. addSkylineLevel i x y width height p = Inr (p\<lparr>pk_skyline := sky\<rparr>) \<and> sky \<noteq> [] \<and>
    skyline_ok (pk_height p) (new # ps) 0 sky \<and> last_end 0 sky = pk_width p"
proof -
  note fit = rectangleFits_ok [OF inv i size fits, folded x_def]
  obtain A s B where AB: "pk_skyline p = A @ s # B" "take i (pk_skyline p) = A" "drop i (pk_skyline p) = s # B" "pk_skyline p ! i = s"
    using i by (metis Cons_nth_drop_Suc append_take_drop_id)
  have inv': "skyline_ok (pk_height p) ps 0 A" "skyline_ok (pk_height p) ps (last_end 0 A) (s # B)"
    "last_end (last_end 0 A) (s # B) = pk_width p" "\<forall>r\<in>set ps. 0 < pl_width r"
    using inv by (auto simp: packer_inv_def AB(1) skyline_ok_append last_end_append placed_ok_def)
  have x: "x = sg_x s" by (simp add: x_def AB(4))
  obtain rest where rest: "shrink_following (segment x (y + height) width) (s # B) = Inr rest"
    "skyline_ok (pk_height p) (new # ps) 0 (A @ segment x (y + height) width # rest)"
    "last_end 0 (A @ segment x (y + height) width # rest) = pk_width p"
    using new_level_ok [OF inv'(1,2,4) size fit(3,4)] fit inv'(3) unfolding new_def x AB(4) by auto
  let ?sky = "merge_segments (A @ segment x (y + height) width # rest)"
  have "\<forall>r\<in>set (new # ps). 0 < pl_width r" using inv'(4) size(1) by (simp add: new_def)
  from merge_segments_ok [OF this rest(2)] rest(3)
  have "skyline_ok (pk_height p) (new # ps) 0 ?sky" "last_end 0 ?sky = pk_width p" "?sky \<noteq> []" by auto
  moreover have "addSkylineLevel i x y width height p = Inr (p\<lparr>pk_skyline := ?sky\<rparr>)"
    using fit(2,4) rest(1) by (simp add: addSkylineLevel_def AB(2,3) Let_def)
  ultimately show ?thesis by blast
qed

section \<open>Placing a rectangle\<close>

lemma unsigned_gt_iff:
  "0 \<le> b \<Longrightarrow> b < 2 ^ 15 \<Longrightarrow> - (2 ^ 31) \<le> a \<Longrightarrow> a < 2 ^ 31 \<Longrightarrow> unsigned_gt a b \<longleftrightarrow> a < 0 \<or> b < a"
proof -
  assume b: "0 \<le> b" "b < 2 ^ 15" and a: "- (2 ^ 31) \<le> a" "a < 2 ^ 31"
  have "a mod 2 ^ 32 = (if a < 0 then a + 2 ^ 32 else a)"
  proof (cases "a < 0")
    case True
    have "a mod 2 ^ 32 = (a + 2 ^ 32) mod 2 ^ 32" by simp
    also have "\<dots> = a + 2 ^ 32" using a True by (intro mod_pos_pos_trivial) simp_all
    finally show ?thesis using True by simp
  qed (use a in simp)
  moreover have "b mod 2 ^ 32 = b" using b by simp
  ultimately show ?thesis using a b by (auto simp: unsigned_gt_def)
qed

lemma int16_small: "0 \<le> z \<Longrightarrow> z < 2 ^ 15 \<Longrightarrow> int16 z = z"
  by (simp add: int16_def)

definition rect_at :: "IPoint16 \<Rightarrow> int \<Rightarrow> int \<Rightarrow> placed" where
  "rect_at loc width height = \<lparr>pl_x = ip_x loc, pl_y = ip_y loc, pl_width = width, pl_height = height\<rparr>"

lemma fits_iff:
  assumes "packer_inv p ps" "fold (better p width height) [0..<length (pk_skyline p)] None = best"
  shows "best = Some (i, w, x, y) \<Longrightarrow> i < length (pk_skyline p) \<and> rectangleFits p i width height = Some y \<and> x = sg_x (pk_skyline p ! i)"
    "0 < width \<Longrightarrow> 0 \<le> height \<Longrightarrow> best = None \<Longrightarrow> j < length (pk_skyline p) \<Longrightarrow> rectangleFits p j width height = None"
proof -
  show "best = Some (i, w, x, y) \<Longrightarrow> i < length (pk_skyline p) \<and> rectangleFits p i width height = Some y \<and> x = sg_x (pk_skyline p ! i)"
    using fold_better_fits [of p width height None "[0..<length (pk_skyline p)]"] assms(2) by (auto simp: best_fits_def)
  assume size: "0 < width" "0 \<le> height" and none: "best = None" and j: "j < length (pk_skyline p)"
  show "rectangleFits p j width height = None"
  proof (rule ccontr)
    assume "rectangleFits p j width height \<noteq> None"
    then obtain y where y: "rectangleFits p j width height = Some y" by blast
    have "best_y p best \<le> y"
      using fold_better_y [of p width height "[0..<length (pk_skyline p)]" None] j y assms(2) by auto
    moreover have "y + height \<le> pk_height p" by (rule rectangleFits_ok(4) [OF assms(1) j size y])
    ultimately show False using none size by (simp add: best_y_def)
  qed
qed

lemma addRect_ok:
  assumes inv: "packer_inv p ps" and size: "0 < width" "width < 2 ^ 31" "- (2 ^ 31) \<le> height" "height < 2 ^ 31"
  shows "(\<exists>loc p'. addRect width height p = Inr (True, Some loc, p') \<and> packer_inv p' (rect_at loc width height # ps)) \<or>
    (\<exists>loc. addRect width height p = Inr (False, loc, p) \<and>
      (\<forall>i<length (pk_skyline p). 0 \<le> height \<longrightarrow> rectangleFits p i width height = None))"
proof -
  have W: "0 < pk_width p" "pk_width p < 2 ^ 15" "0 \<le> pk_height p" "pk_height p < 2 ^ 15" using inv by (simp_all add: packer_inv_def)
  have gt: "unsigned_gt width (pk_width p) \<longleftrightarrow> pk_width p < width" "unsigned_gt height (pk_height p) \<longleftrightarrow> height < 0 \<or> pk_height p < height"
    using unsigned_gt_iff W size by auto
  let ?best = "fold (better p width height) [0..<length (pk_skyline p)] None"
  consider (large) "pk_width p < width \<or> height < 0 \<or> pk_height p < height"
    | (none) "\<not> (pk_width p < width \<or> height < 0 \<or> pk_height p < height)" "?best = None"
    | (some) i w x y where "\<not> (pk_width p < width \<or> height < 0 \<or> pk_height p < height)" "?best = Some (i, w, x, y)"
    by (cases ?best) auto
  then show ?thesis
  proof cases
    case large
    have "rectangleFits p i width height = None" if "i < length (pk_skyline p)" "0 \<le> height" for i
    proof (rule ccontr)
      assume "rectangleFits p i width height \<noteq> None"
      then obtain y where "rectangleFits p i width height = Some y" by blast
      from rectangleFits_ok(1-4) [OF inv that(1) size(1) that(2) this] large that(2) show False by auto
    qed
    with large gt show ?thesis by (simp add: addRect_def)
  next
    case none
    have "rectangleFits p i width height = None" if "i < length (pk_skyline p)" for i
      using fits_iff(2) [OF inv refl size(1) _ none(2) that] none(1) by simp
    with none gt show ?thesis by (simp add: addRect_def)
  next
    case some
    then have h: "0 \<le> height" by simp
    note chosen = fits_iff(1) [OF inv refl some(2)]
    let ?new = "\<lparr>pl_x = x, pl_y = y, pl_width = width, pl_height = height\<rparr>"
    note fit = rectangleFits_ok [OF inv _ size(1) h, of i y] 
    have x: "0 \<le> x" "x + width \<le> pk_width p" "0 \<le> y" "y + height \<le> pk_height p"
      "\<And>r. r \<in> set ps \<Longrightarrow> overlaps_columns r x (x + width) \<Longrightarrow> pl_bottom r \<le> y" using fit chosen by auto
    obtain sky where sky: "addSkylineLevel i x y width height p = Inr (p\<lparr>pk_skyline := sky\<rparr>)" "sky \<noteq> []"
      "skyline_ok (pk_height p) (?new # ps) 0 sky" "last_end 0 sky = pk_width p"
      using addSkylineLevel_ok [OF inv _ size(1) h, of i y] chosen by auto
    have loc: "rect_at \<lparr>ip_x = int16 x, ip_y = int16 y\<rparr> width height = ?new"
      using x W size(1) h by (simp add: rect_at_def int16_small)
    have "disjoint_placed ?new r" if "r \<in> set ps" for r
      using x(5) [OF that] by (force simp: disjoint_placed_def pl_inside_def overlaps_columns_def)
    with inv sky(2-4) x size(1) h have "packer_inv (p\<lparr>pk_skyline := sky, pk_area_so_far := pk_area_so_far p + width * height\<rparr>) (?new # ps)"
      by (auto simp: packer_inv_def placed_ok_def)
    with loc some gt sky(1) show ?thesis by (simp add: addRect_def)
  qed
qed

section \<open>Properties\<close>

inductive packer_reachable :: "SkylineRectanglePacker \<Rightarrow> placed list \<Rightarrow> bool" where
  new: "RectanglePacker_Factory w h = Inr p \<Longrightarrow> 0 < w \<Longrightarrow> w < 2 ^ 15 \<Longrightarrow> h < 2 ^ 15 \<Longrightarrow> packer_reachable p []"
| add: "packer_reachable p ps \<Longrightarrow> 0 < w \<Longrightarrow> w < 2 ^ 31 \<Longrightarrow> - (2 ^ 31) \<le> h \<Longrightarrow> h < 2 ^ 31 \<Longrightarrow>
    addRect w h p = Inr (True, Some loc, p') \<Longrightarrow> packer_reachable p' (rect_at loc w h # ps)"
| full: "packer_reachable p ps \<Longrightarrow> 0 < w \<Longrightarrow> w < 2 ^ 31 \<Longrightarrow> - (2 ^ 31) \<le> h \<Longrightarrow> h < 2 ^ 31 \<Longrightarrow>
    addRect w h p = Inr (False, loc, p') \<Longrightarrow> packer_reachable p' ps"
| reset: "packer_reachable p ps \<Longrightarrow> packer_reachable (packer_reset p) []"

lemma packer_reachable_inv: "packer_reachable p ps \<Longrightarrow> packer_inv p ps"
proof (induction rule: packer_reachable.induct)
  case (new w h p)
  then show ?case by (rule packer_inv_new)
next
  case (add p ps w h loc p')
  then show ?case using addRect_ok [OF add.IH add.hyps(2-5)] by auto
next
  case (full p ps w h loc p')
  then show ?case using addRect_ok [OF full.IH full.hyps(2-5)] by auto
next
  case (reset p ps)
  then show ?case using packer_inv_reset by blast
qed

text \<open>
  C23: Glyphs never overlap in the atlas.  For a packer of a positive width and of sides below
  \<open>2 ^ 15\<close>, after any sequence of additions of rectangles of positive width, refused additions and
  resets, the rectangles placed since the last reset are disjoint and inside the packer and their
  areas add up to \<open>area_so_far_\<close>; a further addition does not fail a check, and it is refused only
  when the rectangle fits on no segment of the silhouette.
\<close>

theorem packer_no_overlap:
  assumes "packer_reachable p ps" and "0 < width" "width < 2 ^ 31" "- (2 ^ 31) \<le> height" "height < 2 ^ 31"
  shows "sorted_wrt disjoint_placed ps \<and> (\<forall>r\<in>set ps. placed_ok p r) \<and>
    pk_area_so_far p = sum_list (map (\<lambda>r. pl_width r * pl_height r) ps) \<and>
    (\<exists>added loc p'. addRect width height p = Inr (added, loc, p') \<and>
      (\<not> added \<longrightarrow> p' = p \<and> (\<forall>i<length (pk_skyline p). 0 \<le> height \<longrightarrow> rectangleFits p i width height = None)))"
  using packer_reachable_inv [OF assms(1)] addRect_ok [OF packer_reachable_inv [OF assms(1)] assms(2-5)]
  by (auto simp: packer_inv_def)

definition demo_packer :: SkylineRectanglePacker where
  "demo_packer = projr (RectanglePacker_Factory 10 10)"

definition after_add :: "int \<Rightarrow> int \<Rightarrow> SkylineRectanglePacker \<Rightarrow> SkylineRectanglePacker" where
  "after_add w h p = snd (snd (projr (addRect w h p)))"

lemma demo_add1: "addRect 5 5 demo_packer = Inr (True, Some \<lparr>ip_x = 0, ip_y = 0\<rparr>, after_add 5 5 demo_packer)"
  by code_simp

lemma demo_add2: "addRect 5 5 (after_add 5 5 demo_packer) =
    Inr (True, Some \<lparr>ip_x = 5, ip_y = 0\<rparr>, after_add 5 5 (after_add 5 5 demo_packer))"
  by code_simp

lemma demo_packer_reachable:
  "packer_reachable (after_add 5 5 (after_add 5 5 demo_packer))
     [rect_at \<lparr>ip_x = 5, ip_y = 0\<rparr> 5 5, rect_at \<lparr>ip_x = 0, ip_y = 0\<rparr> 5 5]"
proof -
  have "RectanglePacker_Factory 10 10 = Inr demo_packer" by code_simp
  then have "packer_reachable demo_packer []" by (rule packer_reachable.new) simp_all
  from packer_reachable.add [OF this _ _ _ _ demo_add1] have
    "packer_reachable (after_add 5 5 demo_packer) [rect_at \<lparr>ip_x = 0, ip_y = 0\<rparr> 5 5]" by simp
  from packer_reachable.add [OF this _ _ _ _ demo_add2] show ?thesis by simp
qed

theorem packer_no_overlap_witness:
  "sorted_wrt disjoint_placed [rect_at \<lparr>ip_x = 5, ip_y = 0\<rparr> 5 5, rect_at \<lparr>ip_x = 0, ip_y = 0\<rparr> 5 5]"
  using packer_no_overlap [OF demo_packer_reachable, of 1 1] by simp

text \<open>
  Merging two neighbours of the same height loses space: the segment that was widened is the one
  that is erased.  In a 10 by 10 packer with two 5 by 5 squares side by side, the lower half is free
  and a 10 by 5 rectangle is refused.  And a rectangle of width zero is placed without looking at the
  silhouette, so that in a full packer the check on its bottom fails.
\<close>

theorem packer_merge_loses_space:
  "addRect 5 5 demo_packer = Inr (True, Some \<lparr>ip_x = 0, ip_y = 0\<rparr>, after_add 5 5 demo_packer) \<and>
   addRect 5 5 (after_add 5 5 demo_packer) =
     Inr (True, Some \<lparr>ip_x = 5, ip_y = 0\<rparr>, after_add 5 5 (after_add 5 5 demo_packer)) \<and>
   pk_skyline (after_add 5 5 (after_add 5 5 demo_packer)) = [segment 5 5 5] \<and>
   addRect 10 5 (after_add 5 5 (after_add 5 5 demo_packer)) =
     Inr (False, Some \<lparr>ip_x = 0, ip_y = 0\<rparr>, after_add 5 5 (after_add 5 5 demo_packer)) \<and>
   disjoint_placed (rect_at \<lparr>ip_x = 0, ip_y = 5\<rparr> 10 5) (rect_at \<lparr>ip_x = 0, ip_y = 0\<rparr> 5 5) \<and>
   disjoint_placed (rect_at \<lparr>ip_x = 0, ip_y = 5\<rparr> 10 5) (rect_at \<lparr>ip_x = 5, ip_y = 0\<rparr> 5 5) \<and>
   addRect 0 5 (after_add 10 10 demo_packer) = Inl DcheckFailed"
proof (intro conjI demo_add1 demo_add2)
  show "pk_skyline (after_add 5 5 (after_add 5 5 demo_packer)) = [segment 5 5 5]" by code_simp
  show "addRect 10 5 (after_add 5 5 (after_add 5 5 demo_packer)) =
     Inr (False, Some \<lparr>ip_x = 0, ip_y = 0\<rparr>, after_add 5 5 (after_add 5 5 demo_packer))" by code_simp
  show "addRect 0 5 (after_add 10 10 demo_packer) = Inl DcheckFailed" by code_simp
qed (auto simp: disjoint_placed_def pl_inside_def rect_at_def)

end
