(* ===== verification/Semaphore.thy ===== *)
theory Semaphore
  imports Prelude
begin

text \<open>
  \<open>fml/synchronization/semaphore.cc\<close>, the POSIX variant: a counting semaphore over \<open>sem_t\<close>.  The
  calls of \<open>semaphore.h\<close> have their POSIX meaning: \<open>sem_init\<close> fails above \<open>SEM_VALUE_MAX\<close>,
  \<open>sem_trywait\<close> fails at zero, \<open>sem_post\<close> fails at the maximum (its result is ignored), and
  \<open>sem_wait\<close> at zero does not return.  An interrupted call is repeated by \<open>FML_HANDLE_EINTR\<close>.
  Every call is atomic, so each is one step of the pipeline's interleaving.
\<close>

record Semaphore =
  sm_valid :: bool
  sm_value :: nat

definition SEM_VALUE_MAX :: nat where
  "SEM_VALUE_MAX = 2147483647"

definition Semaphore_new :: "u32 \<Rightarrow> Semaphore" where
  "Semaphore_new n = \<lparr>sm_valid = (unat n \<le> SEM_VALUE_MAX), sm_value = (if unat n \<le> SEM_VALUE_MAX then unat n else 0)\<rparr>"

definition Semaphore_IsValid :: "Semaphore \<Rightarrow> bool" where
  "Semaphore_IsValid s = sm_valid s"

text \<open>\<open>None\<close>: the caller blocks.\<close>

definition Wait :: "Semaphore \<Rightarrow> (bool \<times> Semaphore) option" where
  "Wait s =
     (if \<not> sm_valid s then Some (False, s)
      else if sm_value s = 0 then None
      else Some (True, s\<lparr>sm_value := sm_value s - 1\<rparr>))"

definition TryWait :: "Semaphore \<Rightarrow> bool \<times> Semaphore" where
  "TryWait s =
     (if \<not> sm_valid s then (False, s)
      else if sm_value s = 0 then (False, s)
      else (True, s\<lparr>sm_value := sm_value s - 1\<rparr>))"

definition Signal :: "Semaphore \<Rightarrow> Semaphore" where
  "Signal s =
     (if \<not> sm_valid s then s
      else if sm_value s = SEM_VALUE_MAX then s
      else s\<lparr>sm_value := sm_value s + 1\<rparr>)"

text \<open>For evaluation, with the limit as an integer literal.\<close>

lemma Semaphore_new_code [code]:
  "Semaphore_new n = (if uint n \<le> 2147483647 then \<lparr>sm_valid = True, sm_value = nat (uint n)\<rparr> else \<lparr>sm_valid = False, sm_value = 0\<rparr>)"
  unfolding Semaphore_new_def SEM_VALUE_MAX_def unat_eq_nat_uint nat_le_iff by simp

lemma Signal_code [code]:
  "Signal s =
     (if \<not> sm_valid s then s else if int (sm_value s) = 2147483647 then s else s\<lparr>sm_value := sm_value s + 1\<rparr>)"
  unfolding Signal_def SEM_VALUE_MAX_def int_eq_iff_numeral by (rule refl)

section \<open>The contract of a counting semaphore\<close>

text \<open>
  What a client relies on: \<open>try_wait\<close> succeeds exactly when the value is positive and takes one,
  \<open>signal\<close> adds one below the limit, and neither leaves the good semaphores.
\<close>

locale counting_semaphore =
  fixes good :: "'s \<Rightarrow> bool" and val :: "'s \<Rightarrow> nat" and limit :: nat
    and try_wait :: "'s \<Rightarrow> bool \<times> 's" and signal :: "'s \<Rightarrow> 's"
  assumes try_wait_iff: "good s \<Longrightarrow> fst (try_wait s) \<longleftrightarrow> 0 < val s"
    and try_wait_val: "good s \<Longrightarrow> val (snd (try_wait s)) = val s - 1"
    and try_wait_good: "good s \<Longrightarrow> good (snd (try_wait s))"
    and signal_val: "good s \<Longrightarrow> val s < limit \<Longrightarrow> val (signal s) = val s + 1"
    and signal_good: "good s \<Longrightarrow> good (signal s)"
begin

lemma taken:
  assumes "good s" "try_wait s = (True, t)"
  shows "good t" "val s = val t + 1"
  using assms try_wait_iff [of s] try_wait_val [of s] try_wait_good [of s] by auto

lemma refused:
  assumes "good s" "try_wait s = (False, t)"
  shows "good t" "val s = 0" "val t = val s"
  using assms try_wait_iff [of s] try_wait_val [of s] try_wait_good [of s] by auto

lemma takes: "good s \<Longrightarrow> 0 < val s \<Longrightarrow> \<exists>t. try_wait s = (True, t) \<and> good t \<and> val s = val t + 1"
  using taken [of s "snd (try_wait s)"] try_wait_iff [of s] by (cases "try_wait s") auto

text \<open>A signal lets one wait succeed and is used up by it.\<close>

lemma signal_then_wait:
  assumes "good s" "val s < limit"
  shows "\<exists>t. try_wait (signal s) = (True, t) \<and> good t \<and> val t = val s"
  using takes [of "signal s"] signal_val [OF assms] signal_good [OF assms(1)] by auto

end

interpretation sem: counting_semaphore Semaphore_IsValid sm_value SEM_VALUE_MAX TryWait Signal
  by unfold_locales (auto simp: Semaphore_IsValid_def TryWait_def Signal_def)

text \<open>A blocking wait that returns does what a successful \<open>TryWait\<close> does.\<close>

lemma Wait_TryWait: "Wait s = (if sm_valid s \<and> sm_value s = 0 then None else Some (TryWait s))"
  by (simp add: Wait_def TryWait_def)

lemma Semaphore_new_simps [simp]:
  assumes "unat n \<le> SEM_VALUE_MAX"
  shows "Semaphore_IsValid (Semaphore_new n)" "sm_value (Semaphore_new n) = unat n"
  using assms by (simp_all add: Semaphore_new_def Semaphore_IsValid_def)

lemma Semaphore_new_0: "Semaphore_IsValid (Semaphore_new 0)" "sm_value (Semaphore_new 0) = 0"
  by (simp_all add: Semaphore_new_def Semaphore_IsValid_def)

end
