(* ===== verification/Pipeline.thy ===== *)
theory Pipeline
  imports Semaphore
begin

text \<open>
  \<open>shell/common/pipeline.h\<close> and \<open>pipeline.cc\<close>: the queue of frames between the animator (producer)
  and the rasterizer (consumer).  A resource is \<open>Some r\<close>, the null pointer \<open>None\<close>.

  Each member function is a sequence of blocks that other threads can come between: a call of a
  semaphore, an update of the atomic counter, or a section under \<open>queue_mutex_\<close>.  Every block is a
  definition; the member functions compose them, and \<open>Pipeline_Spec\<close> interleaves them.  The trace
  events are not modelled.
\<close>

record PipelineProduceResult =
  pr_success :: bool
  pr_is_first_item :: bool

datatype PipelineConsumeResult = NoneAvailable | Done | MoreAvailable

text \<open>\<open>PipelineLastTraceID\<close> is a counter of the process; the model passes it.\<close>

definition GetNextPipelineTraceID :: "u64 \<Rightarrow> u64 \<times> u64" where
  "GetNextPipelineTraceID last_id = (last_id + 1, last_id + 1)"

text \<open>The two functions that a continuation can be bound to.\<close>

datatype Continuation = Bind_ProducerCommit | Bind_ProducerCommitIfEmpty

record ProducerContinuation =
  pc_continuation :: "Continuation option"
  pc_trace_id :: u64

record 'r Pipeline =
  pp_empty :: Semaphore
  pp_available :: Semaphore
  pp_inflight :: "32 word"
  pp_queue :: "('r option \<times> u64) list"

definition Pipeline_new :: "u32 \<Rightarrow> 'r Pipeline" where
  "Pipeline_new depth =
     \<lparr>pp_empty = Semaphore_new depth, pp_available = Semaphore_new 0, pp_inflight = 0, pp_queue = []\<rparr>"

definition Pipeline_IsValid :: "'r Pipeline \<Rightarrow> bool" where
  "Pipeline_IsValid p = (Semaphore_IsValid (pp_empty p) \<and> Semaphore_IsValid (pp_available p))"

section \<open>Blocks\<close>

definition empty_TryWait :: "'r Pipeline \<Rightarrow> bool \<times> 'r Pipeline" where
  "empty_TryWait p = (let (ok, e) = TryWait (pp_empty p) in (ok, p\<lparr>pp_empty := e\<rparr>))"

definition empty_Signal :: "'r Pipeline \<Rightarrow> 'r Pipeline" where
  "empty_Signal p = p\<lparr>pp_empty := Signal (pp_empty p)\<rparr>"

definition available_TryWait :: "'r Pipeline \<Rightarrow> bool \<times> 'r Pipeline" where
  "available_TryWait p = (let (ok, a) = TryWait (pp_available p) in (ok, p\<lparr>pp_available := a\<rparr>))"

definition available_Signal :: "'r Pipeline \<Rightarrow> 'r Pipeline" where
  "available_Signal p = p\<lparr>pp_available := Signal (pp_available p)\<rparr>"

definition inflight_inc :: "'r Pipeline \<Rightarrow> 'r Pipeline" where
  "inflight_inc p = p\<lparr>pp_inflight := pp_inflight p + 1\<rparr>"

definition inflight_dec :: "'r Pipeline \<Rightarrow> 'r Pipeline" where
  "inflight_dec p = p\<lparr>pp_inflight := pp_inflight p - 1\<rparr>"

text \<open>The locked section of \<open>ProducerCommit\<close>: is this the first item, and the new queue.\<close>

definition commit_locked :: "'r option \<Rightarrow> u64 \<Rightarrow> 'r Pipeline \<Rightarrow> bool \<times> 'r Pipeline" where
  "commit_locked resource trace_id p =
     (pp_queue p = [], p\<lparr>pp_queue := pp_queue p @ [(resource, trace_id)]\<rparr>)"

text \<open>The locked section of \<open>ProducerCommitIfEmpty\<close>: whether it pushed the resource.\<close>

definition commit_if_empty_locked :: "'r option \<Rightarrow> u64 \<Rightarrow> 'r Pipeline \<Rightarrow> bool \<times> 'r Pipeline" where
  "commit_if_empty_locked resource trace_id p =
     (if pp_queue p \<noteq> [] then (False, empty_Signal p)
      else (True, p\<lparr>pp_queue := pp_queue p @ [(resource, trace_id)]\<rparr>))"

text \<open>The locked section of \<open>Consume\<close>; \<open>front\<close> and \<open>pop_front\<close> of an empty deque are undefined.\<close>

definition consume_locked :: "'r Pipeline \<Rightarrow> ('r option \<times> u64 \<times> nat \<times> 'r Pipeline) result" where
  "consume_locked p =
     (case pp_queue p of
        [] \<Rightarrow> Inl Undefined
      | (resource, trace_id) # queue \<Rightarrow> Inr (resource, trace_id, length queue, p\<lparr>pp_queue := queue\<rparr>))"

section \<open>Member functions\<close>

definition ProducerContinuation_none :: ProducerContinuation where
  "ProducerContinuation_none = \<lparr>pc_continuation = None, pc_trace_id = 0\<rparr>"

definition ProducerContinuation_new :: "Continuation \<Rightarrow> u64 \<Rightarrow> ProducerContinuation" where
  "ProducerContinuation_new k trace_id = \<lparr>pc_continuation = Some k, pc_trace_id = trace_id\<rparr>"

text \<open>The new object and what is left of the other one.\<close>

definition ProducerContinuation_move :: "ProducerContinuation \<Rightarrow> ProducerContinuation \<times> ProducerContinuation" where
  "ProducerContinuation_move other = (other, other\<lparr>pc_continuation := None, pc_trace_id := 0\<rparr>)"

definition ProducerContinuation_assign ::
  "ProducerContinuation \<Rightarrow> ProducerContinuation \<Rightarrow> ProducerContinuation \<times> ProducerContinuation" where
  "ProducerContinuation_assign this other =
     (this\<lparr>pc_continuation := pc_continuation other, pc_trace_id := pc_trace_id other\<rparr>,
      other\<lparr>pc_continuation := pc_continuation this, pc_trace_id := pc_trace_id this\<rparr>)"

definition ProducerContinuation_bool :: "ProducerContinuation \<Rightarrow> bool" where
  "ProducerContinuation_bool c = (pc_continuation c \<noteq> None)"

definition ProducerCommit :: "'r option \<Rightarrow> u64 \<Rightarrow> 'r Pipeline \<Rightarrow> PipelineProduceResult \<times> 'r Pipeline" where
  "ProducerCommit resource trace_id p =
     (let (is_first_item, p) = commit_locked resource trace_id p;
          p = available_Signal p
      in (\<lparr>pr_success = True, pr_is_first_item = is_first_item\<rparr>, p))"

definition ProducerCommitIfEmpty :: "'r option \<Rightarrow> u64 \<Rightarrow> 'r Pipeline \<Rightarrow> PipelineProduceResult \<times> 'r Pipeline" where
  "ProducerCommitIfEmpty resource trace_id p =
     (let (pushed, p) = commit_if_empty_locked resource trace_id p
      in if \<not> pushed then (\<lparr>pr_success = False, pr_is_first_item = False\<rparr>, p)
         else (\<lparr>pr_success = True, pr_is_first_item = True\<rparr>, available_Signal p))"

definition call_continuation ::
  "Continuation \<Rightarrow> 'r option \<Rightarrow> u64 \<Rightarrow> 'r Pipeline \<Rightarrow> PipelineProduceResult \<times> 'r Pipeline" where
  "call_continuation k =
     (case k of Bind_ProducerCommit \<Rightarrow> ProducerCommit | Bind_ProducerCommitIfEmpty \<Rightarrow> ProducerCommitIfEmpty)"

definition Complete ::
  "'r option \<Rightarrow> ProducerContinuation \<Rightarrow> 'r Pipeline \<Rightarrow> PipelineProduceResult \<times> ProducerContinuation \<times> 'r Pipeline" where
  "Complete resource c p =
     (case pc_continuation c of
        None \<Rightarrow> (\<lparr>pr_success = False, pr_is_first_item = False\<rparr>, c, p)
      | Some k \<Rightarrow>
          (let (res, p) = call_continuation k resource (pc_trace_id c) p
           in (res, c\<lparr>pc_continuation := None\<rparr>, p)))"

text \<open>The destructor commits a null resource when the continuation was not completed.\<close>

definition ProducerContinuation_delete :: "ProducerContinuation \<Rightarrow> 'r Pipeline \<Rightarrow> 'r Pipeline" where
  "ProducerContinuation_delete c p =
     (case pc_continuation c of
        None \<Rightarrow> p
      | Some k \<Rightarrow> snd (call_continuation k None (pc_trace_id c) p))"

definition produce_with :: "Continuation \<Rightarrow> u64 \<Rightarrow> 'r Pipeline \<Rightarrow> ProducerContinuation \<times> u64 \<times> 'r Pipeline" where
  "produce_with k last_id p =
     (let (ok, p) = empty_TryWait p
      in if \<not> ok then (ProducerContinuation_none, last_id, p)
         else
           let p = inflight_inc p;
               (trace_id, last_id) = GetNextPipelineTraceID last_id
           in (ProducerContinuation_new k trace_id, last_id, p))"

definition Produce :: "u64 \<Rightarrow> 'r Pipeline \<Rightarrow> ProducerContinuation \<times> u64 \<times> 'r Pipeline" where
  "Produce = produce_with Bind_ProducerCommit"

definition ProduceIfEmpty :: "u64 \<Rightarrow> 'r Pipeline \<Rightarrow> ProducerContinuation \<times> u64 \<times> 'r Pipeline" where
  "ProduceIfEmpty = produce_with Bind_ProducerCommitIfEmpty"

text \<open>The consumer is a function on the client's state, or null.\<close>

definition Consume ::
  "('r option \<Rightarrow> 'c \<Rightarrow> 'c) option \<Rightarrow> 'c \<Rightarrow> 'r Pipeline \<Rightarrow> (PipelineConsumeResult \<times> 'c \<times> 'r Pipeline) result" where
  "Consume consumer client p =
     (case consumer of
        None \<Rightarrow> Inr (NoneAvailable, client, p)
      | Some f \<Rightarrow>
          (let (ok, p) = available_TryWait p
           in if \<not> ok then Inr (NoneAvailable, client, p)
              else
                rbind (consume_locked p) (\<lambda>(resource, trace_id, items_count, p).
                  let client = f resource client;
                      p = inflight_dec (empty_Signal p)
                  in Inr (if items_count > 0 then MoreAvailable else Done, client, p))))"

end
