(* ===== verification/Pipeline_Spec.thy ===== *)
theory Pipeline_Spec
  imports Pipeline
begin

text \<open>
  The pipeline under every interleaving of any number of producers and consumers: a step relation
  over the blocks of \<open>Pipeline\<close>, the accounting of its slots, its items and its counter as an
  invariant of that relation, and what follows for the order of the frames, for an idle pipeline and
  for the member functions.
\<close>

section \<open>Interleaved execution\<close>

text \<open>
  Where a thread is inside a member function: it has a slot; it has counted itself; it holds a
  continuation; it has pushed and not yet signalled; it has taken an item's signal; it runs the
  consumer; it has given the slot back.
\<close>

datatype 'r activity =
    Reserved Continuation
  | Counted Continuation
  | Holding Continuation u64
  | Pushed
  | Taken
  | Consuming "'r option"
  | Released

text \<open>The logs record what was pushed and popped, in the order of the locked sections.\<close>

record 'r PipelineWorld =
  pw_pipe :: "'r Pipeline"
  pw_last_id :: u64
  pw_acts :: "'r activity multiset"
  pw_committed :: "'r option list"
  pw_consumed :: "'r option list"
  pw_bails :: nat

definition pipeline_world :: "u32 \<Rightarrow> u64 \<Rightarrow> 'r PipelineWorld" where
  "pipeline_world depth last_id =
     \<lparr>pw_pipe = Pipeline_new depth, pw_last_id = last_id, pw_acts = {#}, pw_committed = [], pw_consumed = [], pw_bails = 0\<rparr>"

inductive pl_step :: "'r PipelineWorld \<Rightarrow> 'r PipelineWorld \<Rightarrow> bool" where
  reserve: "empty_TryWait (pw_pipe w) = (True, p) \<Longrightarrow>
    pl_step w (w\<lparr>pw_pipe := p, pw_acts := add_mset (Reserved k) (pw_acts w)\<rparr>)"
| refuse: "empty_TryWait (pw_pipe w) = (False, p) \<Longrightarrow> pl_step w (w\<lparr>pw_pipe := p\<rparr>)"
| inc: "pw_acts w = add_mset (Reserved k) as \<Longrightarrow>
    pl_step w (w\<lparr>pw_pipe := inflight_inc (pw_pipe w), pw_acts := add_mset (Counted k) as\<rparr>)"
| next_id: "pw_acts w = add_mset (Counted k) as \<Longrightarrow> GetNextPipelineTraceID (pw_last_id w) = (trace_id, last_id) \<Longrightarrow>
    pl_step w (w\<lparr>pw_last_id := last_id, pw_acts := add_mset (Holding k trace_id) as\<rparr>)"
| commit: "pw_acts w = add_mset (Holding Bind_ProducerCommit trace_id) as \<Longrightarrow>
    commit_locked resource trace_id (pw_pipe w) = (is_first_item, p) \<Longrightarrow>
    pl_step w (w\<lparr>pw_pipe := p, pw_acts := add_mset Pushed as, pw_committed := pw_committed w @ [resource]\<rparr>)"
| commit_if_empty: "pw_acts w = add_mset (Holding Bind_ProducerCommitIfEmpty trace_id) as \<Longrightarrow>
    commit_if_empty_locked resource trace_id (pw_pipe w) = (True, p) \<Longrightarrow>
    pl_step w (w\<lparr>pw_pipe := p, pw_acts := add_mset Pushed as, pw_committed := pw_committed w @ [resource]\<rparr>)"
| bail: "pw_acts w = add_mset (Holding Bind_ProducerCommitIfEmpty trace_id) as \<Longrightarrow>
    commit_if_empty_locked resource trace_id (pw_pipe w) = (False, p) \<Longrightarrow>
    pl_step w (w\<lparr>pw_pipe := p, pw_acts := as, pw_bails := pw_bails w + 1\<rparr>)"
| signal_available: "pw_acts w = add_mset Pushed as \<Longrightarrow>
    pl_step w (w\<lparr>pw_pipe := available_Signal (pw_pipe w), pw_acts := as\<rparr>)"
| take_item: "available_TryWait (pw_pipe w) = (True, p) \<Longrightarrow>
    pl_step w (w\<lparr>pw_pipe := p, pw_acts := add_mset Taken (pw_acts w)\<rparr>)"
| none_available: "available_TryWait (pw_pipe w) = (False, p) \<Longrightarrow> pl_step w (w\<lparr>pw_pipe := p\<rparr>)"
| pop_item: "pw_acts w = add_mset Taken as \<Longrightarrow>
    consume_locked (pw_pipe w) = Inr (resource, trace_id, items_count, p) \<Longrightarrow>
    pl_step w (w\<lparr>pw_pipe := p, pw_acts := add_mset (Consuming resource) as, pw_consumed := pw_consumed w @ [resource]\<rparr>)"
| signal_empty: "pw_acts w = add_mset (Consuming resource) as \<Longrightarrow>
    pl_step w (w\<lparr>pw_pipe := empty_Signal (pw_pipe w), pw_acts := add_mset Released as\<rparr>)"
| dec: "pw_acts w = add_mset Released as \<Longrightarrow>
    pl_step w (w\<lparr>pw_pipe := inflight_dec (pw_pipe w), pw_acts := as\<rparr>)"

inductive pl_reachable :: "u32 \<Rightarrow> 'r PipelineWorld \<Rightarrow> bool" for depth where
  start: "pl_reachable depth (pipeline_world depth last_id)"
| step: "pl_reachable depth w \<Longrightarrow> pl_step w w' \<Longrightarrow> pl_reachable depth w'"

section \<open>Accounting\<close>

text \<open>The slots that activities own, the signals under way, and those that have counted themselves.\<close>

fun owns_slot :: "'r activity \<Rightarrow> bool" where
  "owns_slot (Reserved k) = True"
| "owns_slot (Counted k) = True"
| "owns_slot (Holding k trace_id) = True"
| "owns_slot (Consuming resource) = True"
| "owns_slot _ = False"

fun owes_item :: "'r activity \<Rightarrow> bool" where
  "owes_item Pushed = True"
| "owes_item Taken = True"
| "owes_item _ = False"

fun in_flight :: "'r activity \<Rightarrow> bool" where
  "in_flight (Counted k) = True"
| "in_flight (Holding k trace_id) = True"
| "in_flight (Consuming resource) = True"
| "in_flight Released = True"
| "in_flight _ = False"

definition number :: "('a \<Rightarrow> bool) \<Rightarrow> 'a multiset \<Rightarrow> nat" where
  "number P M = size (filter_mset P M)"

lemma number_simps [simp]:
  "number P {#} = 0"
  "number P (add_mset a M) = (if P a then Suc (number P M) else number P M)"
  by (simp_all add: number_def)

definition pl_inv :: "u32 \<Rightarrow> 'r PipelineWorld \<Rightarrow> bool" where
  "pl_inv depth w \<longleftrightarrow>
     Pipeline_IsValid (pw_pipe w) \<and>
     sm_value (pp_empty (pw_pipe w)) + number owns_slot (pw_acts w) + length (pp_queue (pw_pipe w)) = unat depth \<and>
     sm_value (pp_available (pw_pipe w)) + number owes_item (pw_acts w) = length (pp_queue (pw_pipe w)) \<and>
     pp_inflight (pw_pipe w) =
       word_of_nat (number in_flight (pw_acts w) + length (pp_queue (pw_pipe w)) + pw_bails w) \<and>
     pw_committed w = pw_consumed w @ map fst (pp_queue (pw_pipe w))"

lemmas pl_block_defs =
  empty_TryWait_def available_TryWait_def empty_Signal_def available_Signal_def inflight_inc_def
  inflight_dec_def commit_locked_def commit_if_empty_locked_def consume_locked_def

lemma pl_inv_start: "unat depth \<le> SEM_VALUE_MAX \<Longrightarrow> pl_inv depth (pipeline_world depth last_id)"
  by (simp add: pl_inv_def pipeline_world_def Pipeline_new_def Pipeline_IsValid_def Semaphore_new_0)

lemma pl_inv_step:
  assumes "pl_step w w'" "pl_inv depth w" "unat depth \<le> SEM_VALUE_MAX"
  shows "pl_inv depth w'"
  using assms
proof (induction rule: pl_step.induct)
  case (reserve w p k)
  then show ?case
    by (auto simp: pl_inv_def pl_block_defs Pipeline_IsValid_def split: prod.splits dest: sem.taken)
next
  case (refuse w p)
  then show ?case
    by (auto simp: pl_inv_def pl_block_defs Pipeline_IsValid_def split: prod.splits dest: sem.refused(1) sem.refused(3))
next
  case (inc w k as)
  then show ?case by (simp add: pl_inv_def pl_block_defs Pipeline_IsValid_def)
next
  case (next_id w k as trace_id last_id)
  then show ?case by (simp add: pl_inv_def)
next
  case (commit w trace_id as resource first p)
  then show ?case by (auto simp: pl_inv_def pl_block_defs Pipeline_IsValid_def)
next
  case (commit_if_empty w trace_id as resource p)
  then show ?case by (auto simp: pl_inv_def pl_block_defs Pipeline_IsValid_def split: if_splits)
next
  case (bail w trace_id as resource p)
  then show ?case
    by (auto simp: pl_inv_def pl_block_defs Pipeline_IsValid_def sem.signal_val sem.signal_good split: if_splits)
next
  case (signal_available w as)
  then show ?case
    by (auto simp: pl_inv_def pl_block_defs Pipeline_IsValid_def sem.signal_val sem.signal_good)
next
  case (take_item w p)
  then show ?case
    by (auto simp: pl_inv_def pl_block_defs Pipeline_IsValid_def split: prod.splits dest: sem.taken)
next
  case (none_available w p)
  then show ?case
    by (auto simp: pl_inv_def pl_block_defs Pipeline_IsValid_def split: prod.splits dest: sem.refused(1) sem.refused(3))
next
  case (pop_item w as resource trace_id items_count p)
  then show ?case
    by (auto simp: pl_inv_def pl_block_defs Pipeline_IsValid_def split: list.splits)
next
  case (signal_empty w resource as)
  then show ?case
    by (auto simp: pl_inv_def pl_block_defs Pipeline_IsValid_def sem.signal_val sem.signal_good)
next
  case (dec w as)
  then show ?case by (simp add: pl_inv_def pl_block_defs Pipeline_IsValid_def)
qed

lemma pl_reachable_inv: "pl_reachable depth w \<Longrightarrow> unat depth \<le> SEM_VALUE_MAX \<Longrightarrow> pl_inv depth w"
  by (induction rule: pl_reachable.induct) (auto intro: pl_inv_start pl_inv_step)


section \<open>The member functions are runs of steps\<close>

lemma pl_reachable_run: "pl_step\<^sup>*\<^sup>* w w' \<Longrightarrow> pl_reachable depth w \<Longrightarrow> pl_reachable depth w'"
  by (induction rule: rtranclp_induct) (auto intro: pl_reachable.step)

definition holding :: "ProducerContinuation \<Rightarrow> 'r activity multiset" where
  "holding c = (case pc_continuation c of None \<Rightarrow> {#} | Some k \<Rightarrow> {#Holding k (pc_trace_id c)#})"

lemma produce_run:
  assumes "produce_with k (pw_last_id w) (pw_pipe w) = (c, last_id, p)"
  shows "pl_step\<^sup>*\<^sup>* w (w\<lparr>pw_pipe := p, pw_last_id := last_id, pw_acts := holding c + pw_acts w\<rparr>)"
proof (cases "empty_TryWait (pw_pipe w)")
  case (Pair ok q)
  show ?thesis
  proof (cases ok)
    case False
    with assms Pair have "c = ProducerContinuation_none" "last_id = pw_last_id w" "p = q"
      by (simp_all add: produce_with_def)
    moreover have "pl_step w (w\<lparr>pw_pipe := q\<rparr>)" using Pair False by (auto intro: pl_step.refuse)
    ultimately show ?thesis
      by (simp add: holding_def ProducerContinuation_none_def r_into_rtranclp)
  next
    case True
    let ?a = "w\<lparr>pw_pipe := q, pw_acts := add_mset (Reserved k) (pw_acts w)\<rparr>"
    let ?b = "?a\<lparr>pw_pipe := inflight_inc q, pw_acts := add_mset (Counted k) (pw_acts w)\<rparr>"
    let ?c = "?b\<lparr>pw_last_id := pw_last_id w + 1, pw_acts := add_mset (Holding k (pw_last_id w + 1)) (pw_acts w)\<rparr>"
    have "pl_step w ?a" using Pair True by (auto intro: pl_step.reserve)
    moreover have "pl_step ?a ?b" using pl_step.inc [of ?a k "pw_acts w"] by simp
    moreover have "pl_step ?b ?c"
      using pl_step.next_id [of ?b k "pw_acts w" "pw_last_id w + 1"] by (simp add: GetNextPipelineTraceID_def)
    moreover have "w\<lparr>pw_pipe := p, pw_last_id := last_id, pw_acts := holding c + pw_acts w\<rparr> = ?c"
      using assms Pair True
      by (auto simp: produce_with_def GetNextPipelineTraceID_def ProducerContinuation_new_def holding_def)
    ultimately show ?thesis by (metis (no_types, lifting) converse_rtranclp_into_rtranclp rtranclp.rtrancl_refl)
  qed
qed

lemma pl_step_to: "pl_step w v \<Longrightarrow> v = v' \<Longrightarrow> pl_step w v'"
  by simp

lemma pl_two_steps: "pl_step w v \<Longrightarrow> pl_step v v' \<Longrightarrow> pl_step\<^sup>*\<^sup>* w v'"
  by (meson converse_rtranclp_into_rtranclp r_into_rtranclp)

lemma call_run:
  assumes acts: "pw_acts w = add_mset (Holding k trace_id) as"
    and call: "call_continuation k resource trace_id (pw_pipe w) = (res, p)"
  shows "pl_step\<^sup>*\<^sup>* w
    (if pr_success res then w\<lparr>pw_committed := pw_committed w @ [resource], pw_pipe := p, pw_acts := as\<rparr>
     else w\<lparr>pw_pipe := p, pw_acts := as, pw_bails := pw_bails w + 1\<rparr>)"
proof -
  have signal: "pl_step (w\<lparr>pw_pipe := q, pw_acts := add_mset Pushed as, pw_committed := cs\<rparr>)
      (w\<lparr>pw_committed := cs, pw_pipe := available_Signal q, pw_acts := as\<rparr>)" for q cs
    using pl_step.signal_available [of "w\<lparr>pw_pipe := q, pw_acts := add_mset Pushed as, pw_committed := cs\<rparr>" as] by simp
  show ?thesis
  proof (cases k)
    case Bind_ProducerCommit
    obtain first q where q: "commit_locked resource trace_id (pw_pipe w) = (first, q)" by fastforce
    have "pl_step w (w\<lparr>pw_pipe := q, pw_acts := add_mset Pushed as, pw_committed := pw_committed w @ [resource]\<rparr>)"
      using acts Bind_ProducerCommit q by (auto intro: pl_step.commit)
    from pl_two_steps [OF this signal] show ?thesis
      using call q Bind_ProducerCommit by (auto simp: call_continuation_def ProducerCommit_def)
  next
    case Bind_ProducerCommitIfEmpty
    obtain pushed q where q: "commit_if_empty_locked resource trace_id (pw_pipe w) = (pushed, q)" by fastforce
    show ?thesis
    proof (cases pushed)
      case True
      then have "pl_step w (w\<lparr>pw_pipe := q, pw_acts := add_mset Pushed as, pw_committed := pw_committed w @ [resource]\<rparr>)"
        using acts Bind_ProducerCommitIfEmpty q by (auto intro: pl_step.commit_if_empty)
      from pl_two_steps [OF this signal] True show ?thesis
        using call q Bind_ProducerCommitIfEmpty by (auto simp: call_continuation_def ProducerCommitIfEmpty_def)
    next
      case False
      then have "pl_step w (w\<lparr>pw_pipe := q, pw_acts := as, pw_bails := pw_bails w + 1\<rparr>)"
        using acts Bind_ProducerCommitIfEmpty q pl_step.bail [of w trace_id as resource q] by simp
      with False show ?thesis
        using call q Bind_ProducerCommitIfEmpty by (auto simp: call_continuation_def ProducerCommitIfEmpty_def)
    qed
  qed
qed

lemma consume_run:
  assumes "Consume (Some f) client (pw_pipe w) = Inr (res, client', p)"
  shows "pl_step\<^sup>*\<^sup>* w (w\<lparr>pw_consumed := pw_consumed w @
    (if res = NoneAvailable then [] else [fst (hd (pp_queue (pw_pipe w)))]), pw_pipe := p\<rparr>)"
proof (cases "available_TryWait (pw_pipe w)")
  case (Pair ok q)
  show ?thesis
  proof (cases ok)
    case False
    with assms Pair have "res = NoneAvailable" "p = q" by (simp_all add: Consume_def)
    moreover have "pl_step w (w\<lparr>pw_pipe := q\<rparr>)" using Pair False by (auto intro: pl_step.none_available)
    ultimately show ?thesis by (simp add: r_into_rtranclp)
  next
    case True
    with assms Pair obtain r i n s where pop: "consume_locked q = Inr (r, i, n, s)"
      and res: "res \<noteq> NoneAvailable" "p = inflight_dec (empty_Signal s)"
      by (auto simp: Consume_def Let_def split: prod.splits if_splits)
    have r: "r = fst (hd (pp_queue (pw_pipe w)))"
      using Pair pop by (auto simp: pl_block_defs split: list.splits prod.splits)
    let ?cs = "pw_consumed w @ [r]"
    let ?a = "w\<lparr>pw_pipe := q, pw_acts := add_mset Taken (pw_acts w)\<rparr>"
    let ?b = "w\<lparr>pw_consumed := ?cs, pw_pipe := s, pw_acts := add_mset (Consuming r) (pw_acts w)\<rparr>"
    let ?c = "w\<lparr>pw_consumed := ?cs, pw_pipe := empty_Signal s, pw_acts := add_mset Released (pw_acts w)\<rparr>"
    have "pl_step w ?a" using Pair True by (auto intro: pl_step.take_item)
    moreover have "pl_step ?a ?b"
      by (rule pl_step_to [OF pl_step.pop_item [of ?a "pw_acts w"]]) (use pop in \<open>auto intro: PipelineWorld.equality\<close>)
    moreover have "pl_step ?b ?c" using pl_step.signal_empty [of ?b r "pw_acts w"] by simp
    moreover have "pl_step ?c (w\<lparr>pw_consumed := ?cs, pw_pipe := p\<rparr>)"
      using pl_step.dec [of ?c "pw_acts w"] res(2) by simp
    ultimately show ?thesis using res(1) r by (simp add: converse_rtranclp_into_rtranclp)
  qed
qed


section \<open>Order, capacity and idle pipelines\<close>

text \<open>
  C24: No interleaving of producers and consumers overfills the pipeline or pops an empty queue:
  queued items and slots in use are together at most the depth, a consumer that has passed
  \<open>available_.TryWait\<close> finds an item, and the resources are consumed in the order in which they were
  committed, each once, with exactly those still queued missing.
\<close>

theorem pipeline_safe:
  assumes "pl_reachable depth w" "unat depth \<le> SEM_VALUE_MAX"
  shows "length (pp_queue (pw_pipe w)) + number owns_slot (pw_acts w) \<le> unat depth \<and>
    (Taken \<in># pw_acts w \<longrightarrow> \<not> isl (consume_locked (pw_pipe w))) \<and>
    pw_committed w = pw_consumed w @ map fst (pp_queue (pw_pipe w))"
proof -
  have inv: "pl_inv depth w" by (rule pl_reachable_inv [OF assms])
  have "pp_queue (pw_pipe w) \<noteq> []" if "Taken \<in># pw_acts w"
    using inv multi_member_split [OF that] by (auto simp: pl_inv_def)
  then have "\<not> isl (consume_locked (pw_pipe w))" if "Taken \<in># pw_acts w"
    using that by (auto simp: consume_locked_def split: list.splits)
  with inv show ?thesis by (auto simp: pl_inv_def)
qed

lemma pl_idle:
  assumes "pl_reachable depth w" "unat depth \<le> SEM_VALUE_MAX" "pw_acts w = {#}"
  shows "Semaphore_IsValid (pp_empty (pw_pipe w))" "Semaphore_IsValid (pp_available (pw_pipe w))"
    and "sm_value (pp_empty (pw_pipe w)) + length (pp_queue (pw_pipe w)) = unat depth"
    and "sm_value (pp_available (pw_pipe w)) = length (pp_queue (pw_pipe w))"
    and "pp_inflight (pw_pipe w) = word_of_nat (length (pp_queue (pw_pipe w)) + pw_bails w)"
  using pl_reachable_inv [OF assms(1,2)] assms(3) by (auto simp: pl_inv_def Pipeline_IsValid_def)

lemma produce_bool:
  assumes "Semaphore_IsValid (pp_empty p)"
  shows "ProducerContinuation_bool (fst (produce_with k last_id p)) \<longleftrightarrow> 0 < sm_value (pp_empty p)"
  using sem.try_wait_iff [OF assms]
  by (auto simp: produce_with_def empty_TryWait_def ProducerContinuation_bool_def ProducerContinuation_none_def
    ProducerContinuation_new_def GetNextPipelineTraceID_def split: prod.splits)

lemma consume_front:
  assumes "Semaphore_IsValid (pp_available p)" "sm_value (pp_available p) = length (pp_queue p)"
  shows "\<exists>p'. pp_queue p' = tl (pp_queue p) \<and> Consume (Some f) client p = Inr
    (case pp_queue p of
       [] \<Rightarrow> (NoneAvailable, client, p')
     | (resource, _) # queue \<Rightarrow> (if queue = [] then Done else MoreAvailable, f resource client, p'))"
proof (cases "pp_queue p")
  case Nil
  with assms have "TryWait (pp_available p) = (False, pp_available p)"
    by (simp add: TryWait_def)
  with Nil show ?thesis by (auto simp: Consume_def available_TryWait_def)
next
  case (Cons x queue)
  with sem.takes [OF assms(1)] assms(2) obtain a where "TryWait (pp_available p) = (True, a)" by auto
  with Cons show ?thesis
    by (cases x) (auto simp: Consume_def available_TryWait_def consume_locked_def inflight_dec_def empty_Signal_def)
qed

text \<open>
  C25: After any history of commits, bails, dropped continuations and consumes, a pipeline that no
  thread is inside of has lost no slot and no signal: both ways to produce give a continuation
  exactly when fewer items than the depth are queued, and \<open>Consume\<close> hands over the first item, with
  \<open>MoreAvailable\<close> exactly when another one follows, and reports \<open>NoneAvailable\<close> only on an empty queue.
  Its counter of frames in flight is the number of queued items plus, modulo \<open>2^32\<close>, the number of times
  \<open>ProducerCommitIfEmpty\<close> gave up: that path gives the slot back without taking the frame out of the counter.
\<close>

theorem pipeline_idle:
  assumes "pl_reachable depth w" "unat depth \<le> SEM_VALUE_MAX" "pw_acts w = {#}"
  shows "(ProducerContinuation_bool (fst (Produce (pw_last_id w) (pw_pipe w))) \<longleftrightarrow> length (pp_queue (pw_pipe w)) < unat depth) \<and>
    (ProducerContinuation_bool (fst (ProduceIfEmpty (pw_last_id w) (pw_pipe w))) \<longleftrightarrow> length (pp_queue (pw_pipe w)) < unat depth) \<and>
    (\<exists>p'. pp_queue p' = tl (pp_queue (pw_pipe w)) \<and> Consume (Some f) client (pw_pipe w) = Inr
      (case pp_queue (pw_pipe w) of
         [] \<Rightarrow> (NoneAvailable, client, p')
       | (resource, _) # queue \<Rightarrow> (if queue = [] then Done else MoreAvailable, f resource client, p'))) \<and>
    pp_inflight (pw_pipe w) = word_of_nat (length (pp_queue (pw_pipe w)) + pw_bails w)"
proof -
  note idle = pl_idle [OF assms]
  have "0 < sm_value (pp_empty (pw_pipe w)) \<longleftrightarrow> length (pp_queue (pw_pipe w)) < unat depth"
    using idle(3) by linarith
  with produce_bool [OF idle(1)] consume_front [OF idle(2,4)] idle(5) show ?thesis
    by (simp add: Produce_def ProduceIfEmpty_def)
qed

section \<open>Example run\<close>

text \<open>
  Depth 2: a frame is produced, a second producer that wants an empty queue comes, the first commits
  7, the second gives up, and 7 is consumed.
\<close>

definition demo_pipe :: "nat \<Rightarrow> nat \<Rightarrow> 32 word \<Rightarrow> (nat option \<times> u64) list \<Rightarrow> nat Pipeline" where
  "demo_pipe e a n q = \<lparr>pp_empty = \<lparr>sm_valid = True, sm_value = e\<rparr>, pp_available = \<lparr>sm_valid = True, sm_value = a\<rparr>,
     pp_inflight = n, pp_queue = q\<rparr>"

definition demo_world :: "nat Pipeline \<Rightarrow> u64 \<Rightarrow> nat activity multiset \<Rightarrow> nat option list \<Rightarrow> nat option list \<Rightarrow> nat \<Rightarrow> nat PipelineWorld" where
  "demo_world p i as cs ds b = \<lparr>pw_pipe = p, pw_last_id = i, pw_acts = as, pw_committed = cs, pw_consumed = ds, pw_bails = b\<rparr>"

lemma demo_start: "pl_reachable 2 (demo_world (demo_pipe 2 0 0 []) 0 {#} [] [] 0)"
proof -
  have "pipeline_world 2 0 = demo_world (demo_pipe 2 0 0 []) 0 {#} [] [] 0"
    by (simp add: pipeline_world_def demo_world_def demo_pipe_def Pipeline_new_def Semaphore_new_def SEM_VALUE_MAX_def)
  then show ?thesis by (metis pl_reachable.start)
qed

lemma demo_world_produce:
  assumes "pl_reachable d (demo_world p i as cs ds b)" "produce_with k i p = (c, i', p')"
  shows "pl_reachable d (demo_world p' i' (holding c + as) cs ds b)"
  using pl_reachable_run [OF produce_run assms(1)] assms(2) by (simp add: demo_world_def)

lemma demo_world_complete:
  assumes "pl_reachable d (demo_world p i (add_mset (Holding k trace_id) as) cs ds b)"
    and "call_continuation k resource trace_id p = (res, p')"
  shows "pl_reachable d (if pr_success res then demo_world p' i as (cs @ [resource]) ds b else demo_world p' i as cs ds (b + 1))"
  using pl_reachable_run [OF call_run assms(1), of k trace_id as resource res p'] assms(2)
  by (auto simp: demo_world_def)

lemma demo_world_consume:
  assumes "pl_reachable d (demo_world p i as cs ds b)" "Consume (Some f) client p = Inr (res, client', p')"
  shows "pl_reachable d (demo_world p' i as cs (ds @ (if res = NoneAvailable then [] else [fst (hd (pp_queue p))])) b)"
  using pl_reachable_run [OF consume_run assms(1), of f client res client' p'] assms(2)
  by (simp add: demo_world_def cong: if_cong)

lemmas pipeline_eval =
  Consume_def call_continuation_def ProducerCommit_def ProducerCommitIfEmpty_def produce_with_def
  GetNextPipelineTraceID_def ProducerContinuation_new_def pl_block_defs TryWait_def Signal_def
  SEM_VALUE_MAX_def demo_pipe_def

lemma demo_produce: "pl_reachable 2 (demo_world (demo_pipe 1 0 1 []) 1 {#Holding Bind_ProducerCommit 1#} [] [] 0)"
proof -
  have "produce_with Bind_ProducerCommit 0 (demo_pipe 2 0 0 []) = (ProducerContinuation_new Bind_ProducerCommit 1, 1, demo_pipe 1 0 1 [])"
    by (simp add: pipeline_eval)
  from demo_world_produce [OF demo_start this] show ?thesis
    by (simp add: holding_def ProducerContinuation_new_def)
qed

lemma demo_produce_if_empty:
  "pl_reachable 2 (demo_world (demo_pipe 0 0 2 []) 2 {#Holding Bind_ProducerCommit 1, Holding Bind_ProducerCommitIfEmpty 2#} [] [] 0)"
proof -
  have "produce_with Bind_ProducerCommitIfEmpty 1 (demo_pipe 1 0 1 []) =
      (ProducerContinuation_new Bind_ProducerCommitIfEmpty 2, 2, demo_pipe 0 0 2 [])"
    by (simp add: pipeline_eval)
  from demo_world_produce [OF demo_produce this] show ?thesis
    by (simp add: holding_def ProducerContinuation_new_def add_mset_commute)
qed

lemma demo_commit:
  "pl_reachable 2 (demo_world (demo_pipe 0 1 2 [(Some 7, 1)]) 2 {#Holding Bind_ProducerCommitIfEmpty 2#} [Some 7] [] 0)"
proof -
  have "call_continuation Bind_ProducerCommit (Some 7) 1 (demo_pipe 0 0 2 []) =
      (\<lparr>pr_success = True, pr_is_first_item = True\<rparr>, demo_pipe 0 1 2 [(Some 7, 1)])"
    by (simp add: pipeline_eval)
  from demo_world_complete [OF demo_produce_if_empty this] show ?thesis by simp
qed

lemma demo_bail: "pl_reachable 2 (demo_world (demo_pipe 1 1 2 [(Some 7, 1)]) 2 {#} [Some 7] [] 1)"
proof -
  have "call_continuation Bind_ProducerCommitIfEmpty (Some 8) 2 (demo_pipe 0 1 2 [(Some 7, 1)]) =
      (\<lparr>pr_success = False, pr_is_first_item = False\<rparr>, demo_pipe 1 1 2 [(Some 7, 1)])"
    by (simp add: pipeline_eval)
  from demo_world_complete [OF demo_commit this] show ?thesis by simp
qed

lemma demo_consume: "pl_reachable 2 (demo_world (demo_pipe 2 0 1 []) 2 {#} [Some 7] [Some 7] 1)"
proof -
  have "Consume (Some (\<lambda>r _. r)) None (demo_pipe 1 1 2 [(Some 7, 1)]) = Inr (Done, Some 7, demo_pipe 2 0 1 [])"
    by (simp add: pipeline_eval)
  from demo_world_consume [OF demo_bail this] show ?thesis by (simp add: demo_pipe_def)
qed

lemma demo_depth: "unat (2 :: u32) \<le> SEM_VALUE_MAX"
  by (simp add: SEM_VALUE_MAX_def)

theorem pipeline_safe_witness:
  "pl_reachable 2 (demo_world (demo_pipe 0 1 2 [(Some 7, 1)]) 2 {#Holding Bind_ProducerCommitIfEmpty 2#} [Some 7] [] 0) \<and>
   length (pp_queue (demo_pipe 0 1 2 [(Some 7, 1)])) + 1 \<le> (2 :: nat)"
  using pipeline_safe [OF demo_commit demo_depth] demo_commit by (simp add: demo_world_def)

theorem pipeline_idle_witness:
  "pl_reachable 2 (demo_world (demo_pipe 2 0 1 []) 2 {#} [Some 7] [Some 7] 1) \<and>
   ProducerContinuation_bool (fst (Produce 2 (demo_pipe 2 0 1 []))) \<and>
   pp_queue (demo_pipe 2 0 1 []) = [] \<and> pp_inflight (demo_pipe 2 0 1 []) = 1"
  using pipeline_idle [OF demo_consume demo_depth, of "\<lambda>r _. r" None] demo_consume by (simp add: demo_world_def demo_pipe_def)

end
