(* ===== verification/Frame_Timings.thy ===== *)
theory Frame_Timings
  imports Prelude
begin

text \<open>
  \<open>flow/frame_timings.cc\<close>: the recorder that travels with a frame from the vsync signal to the end
  of rasterization, and the \<open>FrameTiming\<close> of \<open>common/settings.h\<close> that summarizes it.  The mutex makes
  every call atomic.  A \<open>size_t\<close> that the constructor leaves unset is \<open>None\<close>.
\<close>

section \<open>States\<close>

datatype State = kUninitialized | kVsync | kBuildStart | kBuildEnd | kRasterStart | kRasterEnd

definition state_num :: "State \<Rightarrow> nat" where
  "state_num s = (case s of kUninitialized \<Rightarrow> 0 | kVsync \<Rightarrow> 1 | kBuildStart \<Rightarrow> 2 | kBuildEnd \<Rightarrow> 3
     | kRasterStart \<Rightarrow> 4 | kRasterEnd \<Rightarrow> 5)"

lemma state_num_inj: "state_num a = state_num b \<Longrightarrow> a = b"
  by (cases a; cases b) (simp_all add: state_num_def)

instantiation State :: linorder
begin

definition less_eq_State :: "State \<Rightarrow> State \<Rightarrow> bool" where
  "a \<le> b \<longleftrightarrow> state_num a \<le> state_num b"

definition less_State :: "State \<Rightarrow> State \<Rightarrow> bool" where
  "a < b \<longleftrightarrow> state_num a < state_num b"

instance
  by standard (auto simp: less_eq_State_def less_State_def intro: state_num_inj)

end

lemma state_num_simps [simp]:
  "state_num kUninitialized = 0" "state_num kVsync = 1" "state_num kBuildStart = 2" "state_num kBuildEnd = 3"
  "state_num kRasterStart = 4" "state_num kRasterEnd = 5"
  by (simp_all add: state_num_def)

lemmas state_order = less_eq_State_def less_State_def

definition StateToString :: "State \<Rightarrow> string" where
  "StateToString s =
     (case s of
        kUninitialized \<Rightarrow> ''kUninitialized''
      | kVsync \<Rightarrow> ''kVsync''
      | kBuildStart \<Rightarrow> ''kBuildStart''
      | kBuildEnd \<Rightarrow> ''kBuildEnd''
      | kRasterStart \<Rightarrow> ''kRasterStart''
      | kRasterEnd \<Rightarrow> ''kRasterEnd'')"

text \<open>\<open>fml::Status\<close>, with the only error code used here.\<close>

datatype Status = Status_ok | kFailedPrecondition string

text \<open>\<open>std::to_string\<close>.\<close>

fun to_string :: "nat \<Rightarrow> string" where
  "to_string n = (if n < 10 then [char_of (48 + n)] else to_string (n div 10) @ [char_of (48 + n mod 10)])"

declare to_string.simps [simp del]

section \<open>Data\<close>

datatype Phase =
  Phase_kVsyncStart | Phase_kBuildStart | Phase_kBuildFinish | Phase_kRasterStart | Phase_kRasterFinish | Phase_kRasterFinishWallTime

record FrameTiming =
  tm_data :: "Phase \<Rightarrow> time_point"
  tm_frame_number :: "u64 option"
  tm_layer_cache_count :: "u64 option"
  tm_layer_cache_bytes :: "u64 option"
  tm_picture_cache_count :: "u64 option"
  tm_picture_cache_bytes :: "u64 option"

definition FrameTiming_new :: FrameTiming where
  "FrameTiming_new =
     \<lparr>tm_data = (\<lambda>_. 0), tm_frame_number = None, tm_layer_cache_count = None, tm_layer_cache_bytes = None,
      tm_picture_cache_count = None, tm_picture_cache_bytes = None\<rparr>"

definition FrameTiming_Get :: "Phase \<Rightarrow> FrameTiming \<Rightarrow> time_point" where
  "FrameTiming_Get phase t = tm_data t phase"

definition FrameTiming_Set :: "Phase \<Rightarrow> time_point \<Rightarrow> FrameTiming \<Rightarrow> FrameTiming" where
  "FrameTiming_Set phase v t = t\<lparr>tm_data := (tm_data t)(phase := v)\<rparr>"

definition SetFrameNumber :: "u64 \<Rightarrow> FrameTiming \<Rightarrow> FrameTiming" where
  "SetFrameNumber n t = t\<lparr>tm_frame_number := Some n\<rparr>"

definition SetRasterCacheStatistics ::
  "u64 option \<Rightarrow> u64 option \<Rightarrow> u64 option \<Rightarrow> u64 option \<Rightarrow> FrameTiming \<Rightarrow> FrameTiming" where
  "SetRasterCacheStatistics lc lb pc pb t =
     t\<lparr>tm_layer_cache_count := lc, tm_layer_cache_bytes := lb, tm_picture_cache_count := pc, tm_picture_cache_bytes := pb\<rparr>"

record FrameTimingsRecorder =
  fr_state :: State
  fr_frame_number :: u64
  fr_frame_number_trace_arg_val :: string
  fr_vsync_start :: time_point
  fr_vsync_target :: time_point
  fr_build_start :: time_point
  fr_build_end :: time_point
  fr_raster_start :: time_point
  fr_raster_end :: time_point
  fr_raster_end_wall_time :: time_point
  fr_layer_cache_count :: "u64 option"
  fr_layer_cache_bytes :: "u64 option"
  fr_picture_cache_count :: "u64 option"
  fr_picture_cache_bytes :: "u64 option"
  fr_timing :: FrameTiming

definition FrameTimingsRecorder_of :: "u64 \<Rightarrow> FrameTimingsRecorder" where
  "FrameTimingsRecorder_of frame_number =
     \<lparr>fr_state = kUninitialized, fr_frame_number = frame_number,
      fr_frame_number_trace_arg_val = to_string (unat frame_number),
      fr_vsync_start = 0, fr_vsync_target = 0, fr_build_start = 0, fr_build_end = 0, fr_raster_start = 0,
      fr_raster_end = 0, fr_raster_end_wall_time = 0, fr_layer_cache_count = None, fr_layer_cache_bytes = None,
      fr_picture_cache_count = None, fr_picture_cache_bytes = None, fr_timing = FrameTiming_new\<rparr>"

text \<open>The default constructor takes the next number of the process-wide \<open>frame_number_gen_\<close>.\<close>

definition FrameTimingsRecorder_new :: "u64 \<Rightarrow> FrameTimingsRecorder \<times> u64" where
  "FrameTimingsRecorder_new frame_number_gen = (FrameTimingsRecorder_of frame_number_gen, frame_number_gen + 1)"

section \<open>Getters\<close>

definition GetVsyncStartTime :: "FrameTimingsRecorder \<Rightarrow> time_point result" where
  "GetVsyncStartTime r = require DcheckFailed (fr_state r \<ge> kVsync) (Inr (fr_vsync_start r))"

definition GetVsyncTargetTime :: "FrameTimingsRecorder \<Rightarrow> time_point result" where
  "GetVsyncTargetTime r = require DcheckFailed (fr_state r \<ge> kVsync) (Inr (fr_vsync_target r))"

definition GetBuildStartTime :: "FrameTimingsRecorder \<Rightarrow> time_point result" where
  "GetBuildStartTime r = require DcheckFailed (fr_state r \<ge> kBuildStart) (Inr (fr_build_start r))"

definition GetBuildEndTime :: "FrameTimingsRecorder \<Rightarrow> time_point result" where
  "GetBuildEndTime r = require DcheckFailed (fr_state r \<ge> kBuildEnd) (Inr (fr_build_end r))"

definition GetRasterStartTime :: "FrameTimingsRecorder \<Rightarrow> time_point result" where
  "GetRasterStartTime r = require DcheckFailed (fr_state r \<ge> kRasterStart) (Inr (fr_raster_start r))"

definition GetRasterEndTime :: "FrameTimingsRecorder \<Rightarrow> time_point result" where
  "GetRasterEndTime r = require DcheckFailed (fr_state r \<ge> kRasterEnd) (Inr (fr_raster_end r))"

definition GetRasterEndWallTime :: "FrameTimingsRecorder \<Rightarrow> time_point result" where
  "GetRasterEndWallTime r = require DcheckFailed (fr_state r \<ge> kRasterEnd) (Inr (fr_raster_end_wall_time r))"

definition GetBuildDuration :: "FrameTimingsRecorder \<Rightarrow> int result" where
  "GetBuildDuration r = require DcheckFailed (fr_state r \<ge> kBuildEnd) (Inr (fr_build_end r - fr_build_start r))"

text \<open>Reading an unset member would be undefined.\<close>

definition read_member :: "'a option \<Rightarrow> 'a result" where
  "read_member v = (case v of None \<Rightarrow> Inl Undefined | Some x \<Rightarrow> Inr x)"

definition GetLayerCacheCount :: "FrameTimingsRecorder \<Rightarrow> u64 result" where
  "GetLayerCacheCount r = require DcheckFailed (fr_state r \<ge> kRasterEnd) (read_member (fr_layer_cache_count r))"

definition GetLayerCacheBytes :: "FrameTimingsRecorder \<Rightarrow> u64 result" where
  "GetLayerCacheBytes r = require DcheckFailed (fr_state r \<ge> kRasterEnd) (read_member (fr_layer_cache_bytes r))"

definition GetPictureCacheCount :: "FrameTimingsRecorder \<Rightarrow> u64 result" where
  "GetPictureCacheCount r = require DcheckFailed (fr_state r \<ge> kRasterEnd) (read_member (fr_picture_cache_count r))"

definition GetPictureCacheBytes :: "FrameTimingsRecorder \<Rightarrow> u64 result" where
  "GetPictureCacheBytes r = require DcheckFailed (fr_state r \<ge> kRasterEnd) (read_member (fr_picture_cache_bytes r))"

definition GetRecordedTime :: "FrameTimingsRecorder \<Rightarrow> FrameTiming result" where
  "GetRecordedTime r = require DcheckFailed (fr_state r = kRasterEnd) (Inr (fr_timing r))"

definition GetFrameNumber :: "FrameTimingsRecorder \<Rightarrow> u64" where
  "GetFrameNumber r = fr_frame_number r"

definition GetFrameNumberTraceArg :: "FrameTimingsRecorder \<Rightarrow> string" where
  "GetFrameNumberTraceArg r = fr_frame_number_trace_arg_val r"

definition AssertInState :: "State \<Rightarrow> FrameTimingsRecorder \<Rightarrow> unit result" where
  "AssertInState s r = require DcheckFailed (fr_state r = s) (Inr ())"

section \<open>Recording\<close>

definition RecordVsyncImpl :: "time_point \<Rightarrow> time_point \<Rightarrow> FrameTimingsRecorder \<Rightarrow> Status \<times> FrameTimingsRecorder" where
  "RecordVsyncImpl vsync_start vsync_target r =
     (if fr_state r \<noteq> kUninitialized then (kFailedPrecondition ''Check failed: state_ == State::kUninitialized.'', r)
      else (Status_ok, r\<lparr>fr_state := kVsync, fr_vsync_start := vsync_start, fr_vsync_target := vsync_target\<rparr>))"

definition RecordBuildStartImpl :: "time_point \<Rightarrow> FrameTimingsRecorder \<Rightarrow> Status \<times> FrameTimingsRecorder" where
  "RecordBuildStartImpl build_start r =
     (if fr_state r \<noteq> kVsync then (kFailedPrecondition ''Check failed: state_ == State::kVsync.'', r)
      else (Status_ok, r\<lparr>fr_state := kBuildStart, fr_build_start := build_start\<rparr>))"

definition RecordBuildEndImpl :: "time_point \<Rightarrow> FrameTimingsRecorder \<Rightarrow> Status \<times> FrameTimingsRecorder" where
  "RecordBuildEndImpl build_end r =
     (if fr_state r \<noteq> kBuildStart then (kFailedPrecondition ''Check failed: state_ == State::kBuildStart.'', r)
      else (Status_ok, r\<lparr>fr_state := kBuildEnd, fr_build_end := build_end\<rparr>))"

definition RecordRasterStartImpl :: "time_point \<Rightarrow> FrameTimingsRecorder \<Rightarrow> Status \<times> FrameTimingsRecorder" where
  "RecordRasterStartImpl raster_start r =
     (if fr_state r \<noteq> kBuildEnd then (kFailedPrecondition ''Check failed: state_ == State::kBuildEnd.'', r)
      else (Status_ok, r\<lparr>fr_state := kRasterStart, fr_raster_start := raster_start\<rparr>))"

text \<open>\<open>FML_DCHECK(status.ok())\<close> after each.\<close>

definition check_ok :: "Status \<times> FrameTimingsRecorder \<Rightarrow> FrameTimingsRecorder result" where
  "check_ok sr = require DcheckFailed (fst sr = Status_ok) (Inr (snd sr))"

definition RecordVsync :: "time_point \<Rightarrow> time_point \<Rightarrow> FrameTimingsRecorder \<Rightarrow> FrameTimingsRecorder result" where
  "RecordVsync vsync_start vsync_target r = check_ok (RecordVsyncImpl vsync_start vsync_target r)"

definition RecordBuildStart :: "time_point \<Rightarrow> FrameTimingsRecorder \<Rightarrow> FrameTimingsRecorder result" where
  "RecordBuildStart build_start r = check_ok (RecordBuildStartImpl build_start r)"

definition RecordBuildEnd :: "time_point \<Rightarrow> FrameTimingsRecorder \<Rightarrow> FrameTimingsRecorder result" where
  "RecordBuildEnd build_end r = check_ok (RecordBuildEndImpl build_end r)"

definition RecordRasterStart :: "time_point \<Rightarrow> FrameTimingsRecorder \<Rightarrow> FrameTimingsRecorder result" where
  "RecordRasterStart raster_start r = check_ok (RecordRasterStartImpl raster_start r)"

text \<open>The two metrics of a raster cache, as counts and bytes.\<close>

record RasterCacheMetrics =
  mt_total_count :: u64
  mt_total_bytes :: u64

record RasterCache =
  rc_layer_metrics :: RasterCacheMetrics
  rc_picture_metrics :: RasterCacheMetrics

definition cache_statistics :: "RasterCache option \<Rightarrow> FrameTimingsRecorder \<Rightarrow> FrameTimingsRecorder" where
  "cache_statistics cache r =
     (case cache of
        Some c \<Rightarrow>
          r\<lparr>fr_layer_cache_count := Some (mt_total_count (rc_layer_metrics c)),
            fr_layer_cache_bytes := Some (mt_total_bytes (rc_layer_metrics c)),
            fr_picture_cache_count := Some (mt_total_count (rc_picture_metrics c)),
            fr_picture_cache_bytes := Some (mt_total_bytes (rc_picture_metrics c))\<rparr>
      | None \<Rightarrow>
          r\<lparr>fr_layer_cache_count := Some 0, fr_layer_cache_bytes := Some 0,
            fr_picture_cache_count := Some 0, fr_picture_cache_bytes := Some 0\<rparr>)"

definition fill_timing :: "FrameTimingsRecorder \<Rightarrow> FrameTiming \<Rightarrow> FrameTiming" where
  "fill_timing r t =
     (let t = FrameTiming_Set Phase_kVsyncStart (fr_vsync_start r) t;
          t = FrameTiming_Set Phase_kBuildStart (fr_build_start r) t;
          t = FrameTiming_Set Phase_kBuildFinish (fr_build_end r) t;
          t = FrameTiming_Set Phase_kRasterStart (fr_raster_start r) t;
          t = FrameTiming_Set Phase_kRasterFinish (fr_raster_end r) t;
          t = FrameTiming_Set Phase_kRasterFinishWallTime (fr_raster_end_wall_time r) t;
          t = SetFrameNumber (GetFrameNumber r) t
      in SetRasterCacheStatistics (fr_layer_cache_count r) (fr_layer_cache_bytes r)
           (fr_picture_cache_count r) (fr_picture_cache_bytes r) t)"

text \<open>\<open>now\<close> and \<open>wall\<close> are the values of \<open>TimePoint::Now()\<close> and \<open>TimePoint::CurrentWallTime()\<close>.\<close>

definition RecordRasterEnd ::
  "time_point \<Rightarrow> time_point \<Rightarrow> RasterCache option \<Rightarrow> FrameTimingsRecorder \<Rightarrow> (FrameTiming \<times> FrameTimingsRecorder) result" where
  "RecordRasterEnd now wall cache r =
     require DcheckFailed (fr_state r = kRasterStart)
       (let r = cache_statistics cache (r\<lparr>fr_state := kRasterEnd, fr_raster_end := now, fr_raster_end_wall_time := wall\<rparr>);
            r = r\<lparr>fr_timing := fill_timing r (fr_timing r)\<rparr>
        in Inr (fr_timing r, r))"

definition CloneUntil :: "State \<Rightarrow> FrameTimingsRecorder \<Rightarrow> FrameTimingsRecorder result" where
  "CloneUntil state r =
     (let recorder = FrameTimingsRecorder_of (fr_frame_number r)
      in require DcheckFailed (fr_state r \<ge> state)
        (let recorder = recorder\<lparr>fr_state := state\<rparr>;
             recorder = (if state \<ge> kVsync then
               recorder\<lparr>fr_vsync_start := fr_vsync_start r, fr_vsync_target := fr_vsync_target r\<rparr> else recorder);
             recorder = (if state \<ge> kBuildStart then recorder\<lparr>fr_build_start := fr_build_start r\<rparr> else recorder);
             recorder = (if state \<ge> kBuildEnd then recorder\<lparr>fr_build_end := fr_build_end r\<rparr> else recorder);
             recorder = (if state \<ge> kRasterStart then recorder\<lparr>fr_raster_start := fr_raster_start r\<rparr> else recorder);
             recorder = (if state \<ge> kRasterEnd then
               recorder\<lparr>fr_raster_end := fr_raster_end r, fr_raster_end_wall_time := fr_raster_end_wall_time r,
                 fr_layer_cache_count := fr_layer_cache_count r, fr_layer_cache_bytes := fr_layer_cache_bytes r,
                 fr_picture_cache_count := fr_picture_cache_count r, fr_picture_cache_bytes := fr_picture_cache_bytes r\<rparr>
               else recorder)
         in Inr recorder))"

end
