(* ===== verification/Frame_Timings_Spec.thy ===== *)
theory Frame_Timings_Spec
  imports Frame_Timings "HOL-Library.Sublist"
begin

text \<open>
  The recorder as a state machine: which sequences of calls it accepts, that a recorded value is
  final, what the summary contains, and what a clone keeps.
\<close>

section \<open>Events\<close>

datatype fr_event =
    Ev_Vsync time_point time_point
  | Ev_BuildStart time_point
  | Ev_BuildEnd time_point
  | Ev_RasterStart time_point
  | Ev_RasterEnd time_point time_point "RasterCache option"

fun record_event :: "fr_event \<Rightarrow> FrameTimingsRecorder \<Rightarrow> FrameTimingsRecorder result" where
  "record_event (Ev_Vsync a b) r = RecordVsync a b r"
| "record_event (Ev_BuildStart t) r = RecordBuildStart t r"
| "record_event (Ev_BuildEnd t) r = RecordBuildEnd t r"
| "record_event (Ev_RasterStart t) r = RecordRasterStart t r"
| "record_event (Ev_RasterEnd t w c) r = rbind (RecordRasterEnd t w c r) (\<lambda>(_, r). Inr r)"

fun event_pre :: "fr_event \<Rightarrow> State" where
  "event_pre (Ev_Vsync a b) = kUninitialized"
| "event_pre (Ev_BuildStart t) = kVsync"
| "event_pre (Ev_BuildEnd t) = kBuildStart"
| "event_pre (Ev_RasterStart t) = kBuildEnd"
| "event_pre (Ev_RasterEnd t w c) = kRasterStart"

fun event_post :: "fr_event \<Rightarrow> State" where
  "event_post (Ev_Vsync a b) = kVsync"
| "event_post (Ev_BuildStart t) = kBuildStart"
| "event_post (Ev_BuildEnd t) = kBuildEnd"
| "event_post (Ev_RasterStart t) = kRasterStart"
| "event_post (Ev_RasterEnd t w c) = kRasterEnd"

fun record_all :: "fr_event list \<Rightarrow> FrameTimingsRecorder \<Rightarrow> FrameTimingsRecorder result" where
  "record_all [] r = Inr r"
| "record_all (e # es) r = rbind (record_event e r) (record_all es)"

definition phase_order :: "State list" where
  "phase_order = [kVsync, kBuildStart, kBuildEnd, kRasterStart, kRasterEnd]"

lemmas fr_record_defs =
  RecordVsync_def RecordVsyncImpl_def RecordBuildStart_def RecordBuildStartImpl_def RecordBuildEnd_def
  RecordBuildEndImpl_def RecordRasterStart_def RecordRasterStartImpl_def RecordRasterEnd_def check_ok_def
  cache_statistics_def Let_def

lemmas fr_getter_defs =
  GetVsyncStartTime_def GetVsyncTargetTime_def GetBuildStartTime_def GetBuildEndTime_def GetRasterStartTime_def
  GetRasterEndTime_def GetRasterEndWallTime_def GetBuildDuration_def GetLayerCacheCount_def GetLayerCacheBytes_def
  GetPictureCacheCount_def GetPictureCacheBytes_def GetRecordedTime_def

lemma record_event_Inl: "fr_state r \<noteq> event_pre e \<Longrightarrow> record_event e r = Inl DcheckFailed"
  by (cases e) (auto simp: fr_record_defs)

lemma record_event_Inr:
  "fr_state r = event_pre e \<Longrightarrow> \<exists>r'. record_event e r = Inr r' \<and> fr_state r' = event_post e \<and> fr_frame_number r' = fr_frame_number r"
  by (cases e) (auto simp: fr_record_defs split: option.splits)

lemma record_event_cases:
  assumes "record_event e r = Inr r'"
  shows "fr_state r = event_pre e" "fr_state r' = event_post e" "fr_frame_number r' = fr_frame_number r"
  using record_event_Inl [of r e] record_event_Inr [of r e] assms by (cases "fr_state r = event_pre e"; auto)+

definition phases_from :: "State \<Rightarrow> State list" where
  "phases_from s = drop (state_num s) phase_order"

lemma phases_from_pre: "phases_from (event_pre e) = event_post e # phases_from (event_post e)"
  by (cases e) (simp_all add: phases_from_def phase_order_def state_num_def)

lemma phases_from_post: "event_post e # ss = phases_from s \<Longrightarrow> s = event_pre e"
  by (cases e; cases s) (simp_all add: phases_from_def phase_order_def state_num_def)

lemma record_all_iff:
  "(\<exists>r'. record_all es r = Inr r') \<longleftrightarrow> prefix (map event_post es) (phases_from (fr_state r))"
proof (induction es arbitrary: r)
  case (Cons e es)
  show ?case
  proof (cases "fr_state r = event_pre e")
    case True
    then obtain r' where "record_event e r = Inr r'" "fr_state r' = event_post e"
      using record_event_Inr by blast
    with True Cons [of r'] show ?thesis by (simp add: phases_from_pre)
  next
    case False
    moreover have "\<not> prefix (event_post e # map event_post es) (phases_from (fr_state r))"
      using False phases_from_post [of e _ "fr_state r"] by (metis append_Cons prefixE)
    ultimately show ?thesis by (simp add: record_event_Inl)
  qed
qed simp

section \<open>Recorded values are final\<close>

definition time_getters :: "(FrameTimingsRecorder \<Rightarrow> int result) list" where
  "time_getters = [GetVsyncStartTime, GetVsyncTargetTime, GetBuildStartTime, GetBuildEndTime, GetRasterStartTime,
     GetRasterEndTime, GetRasterEndWallTime, GetBuildDuration]"

definition cache_getters :: "(FrameTimingsRecorder \<Rightarrow> u64 result) list" where
  "cache_getters = [GetLayerCacheCount, GetLayerCacheBytes, GetPictureCacheCount, GetPictureCacheBytes]"

text \<open>\<open>r'\<close> answers every question that \<open>r\<close> answers, in the same way.\<close>

definition keeps_recorded :: "FrameTimingsRecorder \<Rightarrow> FrameTimingsRecorder \<Rightarrow> bool" where
  "keeps_recorded r r' \<longleftrightarrow>
     GetFrameNumber r' = GetFrameNumber r \<and>
     (\<forall>g\<in>set time_getters. \<forall>v. g r = Inr v \<longrightarrow> g r' = Inr v) \<and>
     (\<forall>g\<in>set cache_getters. \<forall>v. g r = Inr v \<longrightarrow> g r' = Inr v)"

lemma keeps_recorded_trans: "keeps_recorded a b \<Longrightarrow> keeps_recorded b c \<Longrightarrow> keeps_recorded a c"
  by (auto simp: keeps_recorded_def)

lemma keeps_recorded_refl: "keeps_recorded a a"
  by (simp add: keeps_recorded_def)

lemma record_event_keeps:
  assumes "record_event e r = Inr r'"
  shows "keeps_recorded r r'"
  using assms record_event_cases(1) [OF assms]
  by (cases e) (auto simp: keeps_recorded_def time_getters_def cache_getters_def fr_getter_defs fr_record_defs
    state_order GetFrameNumber_def split: option.splits)

lemma record_all_keeps: "record_all es r = Inr r' \<Longrightarrow> keeps_recorded r r'"
proof (induction es arbitrary: r)
  case (Cons e es)
  then obtain m where "record_event e r = Inr m" "record_all es m = Inr r'" by auto
  with Cons.IH show ?case using record_event_keeps keeps_recorded_trans by blast
qed (simp add: keeps_recorded_refl)

lemma record_all_append: "record_all (xs @ ys) r = rbind (record_all xs r) (record_all ys)"
proof (induction xs arbitrary: r)
  case (Cons x xs)
  then show ?case by (cases "record_event x r") simp_all
qed simp

lemma clone_until_getters:
  assumes "s \<le> fr_state r" "CloneUntil s r = Inr c"
  shows "fr_state c = s" "fr_frame_number c = fr_frame_number r"
    and "\<forall>g\<in>set time_getters. g c = Inl DcheckFailed \<or> g c = g r"
    and "\<forall>g\<in>set cache_getters. g c = Inl DcheckFailed \<or> g c = g r"
    and "s = fr_state r \<Longrightarrow> (\<forall>g\<in>set time_getters. g c = g r) \<and> (\<forall>g\<in>set cache_getters. g c = g r)"
  using assms
  by (cases s; simp add: CloneUntil_def Let_def state_order FrameTimingsRecorder_of_def;
      auto simp: time_getters_def cache_getters_def fr_getter_defs state_order)+

lemma clone_until_ok:
  assumes "s \<le> fr_state r"
  shows "\<exists>c. CloneUntil s r = Inr c \<and> fr_state c = s \<and> GetFrameNumber c = GetFrameNumber r \<and>
      (\<forall>g\<in>set time_getters. g c = Inl DcheckFailed \<or> g c = g r) \<and>
      (\<forall>g\<in>set cache_getters. g c = Inl DcheckFailed \<or> g c = g r) \<and>
      (s = fr_state r \<longrightarrow> (\<forall>g\<in>set time_getters. g c = g r) \<and> (\<forall>g\<in>set cache_getters. g c = g r))"
proof -
  obtain c where "CloneUntil s r = Inr c" using assms by (simp add: CloneUntil_def Let_def)
  with clone_until_getters [OF assms this] show ?thesis by (auto simp: GetFrameNumber_def)
qed

section \<open>Properties\<close>

text \<open>
  C26: A new recorder accepts exactly the sequences of calls that are a beginning of vsync, build
  start, build end, raster start, raster end, each once; every other sequence fails a check.  What a
  getter returns after some of the calls it returns after all of them.
\<close>

theorem recorder_protocol:
  "((\<exists>r. record_all es (FrameTimingsRecorder_of n) = Inr r) \<longleftrightarrow>
      prefix (map event_post es) [kVsync, kBuildStart, kBuildEnd, kRasterStart, kRasterEnd]) \<and>
   (\<forall>fs r r'. record_all es (FrameTimingsRecorder_of n) = Inr r \<longrightarrow>
      record_all (es @ fs) (FrameTimingsRecorder_of n) = Inr r' \<longrightarrow> keeps_recorded r r')"
proof -
  have "phases_from (fr_state (FrameTimingsRecorder_of n)) = [kVsync, kBuildStart, kBuildEnd, kRasterStart, kRasterEnd]"
    by (simp add: phases_from_def phase_order_def state_num_def FrameTimingsRecorder_of_def)
  then show ?thesis
    using record_all_iff [of es "FrameTimingsRecorder_of n"] record_all_keeps by (auto simp: record_all_append)
qed

theorem recorder_protocol_witness:
  "(\<exists>r. record_all [Ev_Vsync 1 2, Ev_BuildStart 3] (FrameTimingsRecorder_of 7) = Inr r) \<and>
   \<not> (\<exists>r. record_all [Ev_BuildStart 3] (FrameTimingsRecorder_of 7) = Inr r)"
  using recorder_protocol [of "[Ev_Vsync 1 2, Ev_BuildStart 3]" 7] recorder_protocol [of "[Ev_BuildStart 3]" 7]
  by simp

text \<open>
  The summary of a frame contains the recorded times of all phases, the frame number and the
  statistics of the raster cache, and the getters of the finished recorder agree with it.
\<close>

theorem recorder_summary:
  "\<exists>r t. record_all [Ev_Vsync vs vt, Ev_BuildStart bs, Ev_BuildEnd be, Ev_RasterStart rs, Ev_RasterEnd re rw cache]
       (FrameTimingsRecorder_of n) = Inr r \<and>
     GetRecordedTime r = Inr t \<and>
     map (\<lambda>p. FrameTiming_Get p t) [Phase_kVsyncStart, Phase_kBuildStart, Phase_kBuildFinish, Phase_kRasterStart,
       Phase_kRasterFinish, Phase_kRasterFinishWallTime] = [vs, bs, be, rs, re, rw] \<and>
     map (\<lambda>g. g r) time_getters = map Inr [vs, vt, bs, be, rs, re, rw, be - bs] \<and>
     tm_frame_number t = Some n \<and>
     map (\<lambda>g. g r) cache_getters =
       (case cache of
          None \<Rightarrow> map Inr [0, 0, 0, 0]
        | Some c \<Rightarrow> map Inr [mt_total_count (rc_layer_metrics c), mt_total_bytes (rc_layer_metrics c),
            mt_total_count (rc_picture_metrics c), mt_total_bytes (rc_picture_metrics c)]) \<and>
     map Inr [tm_layer_cache_count t, tm_layer_cache_bytes t, tm_picture_cache_count t, tm_picture_cache_bytes t] =
       map (\<lambda>g. map_sum id Some (g r)) cache_getters"
  by (cases cache) (simp_all add: fr_record_defs fr_getter_defs FrameTimingsRecorder_of_def time_getters_def
    cache_getters_def state_order read_member_def fill_timing_def FrameTiming_Get_def FrameTiming_Set_def
    SetFrameNumber_def GetFrameNumber_def SetRasterCacheStatistics_def Let_def)

text \<open>
  A clone up to a state that the recorder has reached is in that state, has the same frame number
  and answers every getter of the phases up to that state as the original does and refuses the later
  ones; a later state is refused.  The summary is not cloned: after \<open>RecordRasterEnd\<close> a clone of the
  finished recorder still returns the default-constructed one, with no frame number.
\<close>

theorem clone_until_agrees:
  "(s \<le> fr_state r \<longrightarrow> (\<exists>c. CloneUntil s r = Inr c \<and> fr_state c = s \<and> GetFrameNumber c = GetFrameNumber r \<and>
      (\<forall>g\<in>set time_getters. g c = Inl DcheckFailed \<or> g c = g r) \<and>
      (\<forall>g\<in>set cache_getters. g c = Inl DcheckFailed \<or> g c = g r) \<and>
      (s = fr_state r \<longrightarrow> (\<forall>g\<in>set time_getters. g c = g r) \<and> (\<forall>g\<in>set cache_getters. g c = g r)))) \<and>
   (\<not> s \<le> fr_state r \<longrightarrow> CloneUntil s r = Inl DcheckFailed) \<and>
   (fr_state r = kRasterEnd \<longrightarrow> rbind (CloneUntil kRasterEnd r) GetRecordedTime = Inr FrameTiming_new \<and>
      tm_frame_number FrameTiming_new = None)"
  using clone_until_ok [of s r]
  by (auto simp: CloneUntil_def FrameTiming_new_def FrameTimingsRecorder_of_def GetRecordedTime_def Let_def require_def)

definition demo_recorder :: FrameTimingsRecorder where
  "demo_recorder = projr (record_all
     [Ev_Vsync 1 2, Ev_BuildStart 3, Ev_BuildEnd 4, Ev_RasterStart 5, Ev_RasterEnd 6 7 None] (FrameTimingsRecorder_of 9))"

theorem clone_until_agrees_witness:
  "kVsync \<le> fr_state demo_recorder \<and> fr_state demo_recorder = kRasterEnd \<and>
   (\<exists>c. CloneUntil kVsync demo_recorder = Inr c \<and> GetFrameNumber c = 9 \<and> (\<forall>g\<in>set time_getters. g c = Inl DcheckFailed \<or> g c = g demo_recorder)) \<and>
   rbind (CloneUntil kRasterEnd demo_recorder) GetRecordedTime = Inr FrameTiming_new"
proof -
  have "fr_state demo_recorder = kRasterEnd" "GetFrameNumber demo_recorder = 9"
    by (simp_all add: demo_recorder_def fr_record_defs FrameTimingsRecorder_of_def GetFrameNumber_def)
  moreover from this have "kVsync \<le> fr_state demo_recorder" by (simp add: state_order)
  ultimately show ?thesis using clone_until_agrees [of kVsync demo_recorder] by auto
qed

end
