(* ===== verification/Vsync_Waiter.thy ===== *)
theory Vsync_Waiter
  imports Frame_Timings
begin

text \<open>
  \<open>shell/common/vsync_waiter.cc\<close>: callbacks that wait for the next vsync signal.  What the functions
  do outside the object is returned as a list of calls, oldest first: requests to the platform
  (\<open>AwaitVSync\<close>), tasks posted to the UI task runner and the pause of the Dart event loop tasks.  The
  secondary callbacks are an unordered map; the list keeps one order of its entries.
\<close>

record ('k, 'c) VsyncWaiter =
  vw_callback :: "'k option"
  vw_secondary_callbacks :: "(u64 \<times> 'c) list"

datatype ('k, 'c) vsync_call =
    Call_AwaitVSync
  | Call_AwaitVSyncForSecondaryCallback
  | Call_PauseDartEventLoopTasks
  | Post_vsync_task 'k time_point time_point bool
  | Post_closure 'c

definition VsyncWaiter_new :: "('k, 'c) VsyncWaiter" where
  "VsyncWaiter_new = \<lparr>vw_callback = None, vw_secondary_callbacks = []\<rparr>"

definition AsyncWaitForVsync ::
  "'k option \<Rightarrow> ('k, 'c) VsyncWaiter \<Rightarrow> ('k, 'c) VsyncWaiter \<times> ('k, 'c) vsync_call list" where
  "AsyncWaitForVsync callback w =
     (case callback of
        None \<Rightarrow> (w, [])
      | Some k \<Rightarrow>
          if vw_callback w \<noteq> None then (w, [])
          else
            let w = w\<lparr>vw_callback := Some k\<rparr>
            in if vw_secondary_callbacks w \<noteq> [] then (w, []) else (w, [Call_AwaitVSync]))"

text \<open>\<open>on_ui_thread\<close> is what \<open>RunsTasksOnCurrentThread\<close> of the UI task runner returns.\<close>

definition ScheduleSecondaryCallback ::
  "bool \<Rightarrow> u64 \<Rightarrow> 'c option \<Rightarrow> ('k, 'c) VsyncWaiter \<Rightarrow> (('k, 'c) VsyncWaiter \<times> ('k, 'c) vsync_call list) result" where
  "ScheduleSecondaryCallback on_ui_thread i callback w =
     require DcheckFailed on_ui_thread
       (case callback of
          None \<Rightarrow> Inr (w, [])
        | Some c \<Rightarrow>
            let originally_empty = (vw_secondary_callbacks w = [])
            in if map_of (vw_secondary_callbacks w) i \<noteq> None then Inr (w, [])
               else
                 let w = w\<lparr>vw_secondary_callbacks := vw_secondary_callbacks w @ [(i, c)]\<rparr>
                 in if vw_callback w \<noteq> None then Inr (w, [])
                    else if \<not> originally_empty then Inr (w, [])
                    else Inr (w, [Call_AwaitVSyncForSecondaryCallback]))"

definition FireCallback ::
  "time_point \<Rightarrow> time_point \<Rightarrow> time_point \<Rightarrow> bool \<Rightarrow> ('k, 'c) VsyncWaiter
   \<Rightarrow> (('k, 'c) VsyncWaiter \<times> ('k, 'c) vsync_call list) result" where
  "FireCallback now frame_start_time frame_target_time pause_secondary_tasks w =
     require DcheckFailed (now \<ge> frame_start_time)
       (let callback = vw_callback w;
            secondary_callbacks = map snd (vw_secondary_callbacks w);
            w = w\<lparr>vw_callback := None, vw_secondary_callbacks := []\<rparr>
        in if callback = None \<and> secondary_callbacks = [] then Inr (w, [])
           else Inr (w,
             (case callback of
                None \<Rightarrow> []
              | Some k \<Rightarrow>
                  (if pause_secondary_tasks then [Call_PauseDartEventLoopTasks] else []) @
                  [Post_vsync_task k frame_start_time frame_target_time pause_secondary_tasks]) @
             map Post_closure secondary_callbacks))"

text \<open>
  The task that \<open>FireCallback\<close> posts makes a recorder and hands it to the callback; the callback and
  the resumption of the Dart tasks after it are in \<open>Animator\<close>.
\<close>

definition vsync_task_recorder ::
  "time_point \<Rightarrow> time_point \<Rightarrow> u64 \<Rightarrow> (FrameTimingsRecorder \<times> u64) result" where
  "vsync_task_recorder frame_start_time frame_target_time frame_number_gen =
     (let (r, frame_number_gen) = FrameTimingsRecorder_new frame_number_gen
      in rbind (RecordVsync frame_start_time frame_target_time r) (\<lambda>r. Inr (r, frame_number_gen)))"

section \<open>One request per interval\<close>

text \<open>
  A latch that asks its platform once, however often it is requested before it fires: the contract of
  the waiter toward vsync implementations.
\<close>

fun request_all :: "('r \<Rightarrow> 'w \<Rightarrow> 'w \<times> nat) \<Rightarrow> 'r list \<Rightarrow> 'w \<Rightarrow> 'w \<times> nat" where
  "request_all f [] w = (w, 0)"
| "request_all f (r # rs) w =
     (let (w, n) = f r w; (w, m) = request_all f rs w in (w, n + m))"

locale one_shot_latch =
  fixes pending :: "'w \<Rightarrow> bool" and request :: "'r \<Rightarrow> 'w \<Rightarrow> 'w \<times> nat" and fire :: "'w \<Rightarrow> 'w"
  assumes request_pending: "pending (fst (request r w))"
    and request_calls: "snd (request r w) = (if pending w then 0 else 1)"
    and fire_clears: "\<not> pending (fire w)"
begin

lemma requests_pending: "pending w \<Longrightarrow> snd (request_all request rs w) = 0"
proof (induction rs arbitrary: w)
  case (Cons r rs)
  then show ?case
    using request_pending [of r w] request_calls [of r w] by (simp add: case_prod_beta)
qed simp

lemma requests_once: "rs \<noteq> [] \<Longrightarrow> snd (request_all request rs (fire w)) = 1"
proof (cases rs)
  case (Cons r rs')
  then show ?thesis
    using request_pending [of r "fire w"] request_calls [of r "fire w"] fire_clears [of w]
    by (simp add: case_prod_beta requests_pending)
qed simp

end

datatype ('k, 'c) vsync_request = Main_request 'k | Secondary_request u64 'c

definition waiter_pending :: "('k, 'c) VsyncWaiter \<Rightarrow> bool" where
  "waiter_pending w \<longleftrightarrow> vw_callback w \<noteq> None \<or> vw_secondary_callbacks w \<noteq> []"

definition platform_calls :: "('k, 'c) vsync_call list \<Rightarrow> nat" where
  "platform_calls cs = length (filter (\<lambda>c. c = Call_AwaitVSync \<or> c = Call_AwaitVSyncForSecondaryCallback) cs)"

definition waiter_request :: "('k, 'c) vsync_request \<Rightarrow> ('k, 'c) VsyncWaiter \<Rightarrow> ('k, 'c) VsyncWaiter \<times> nat" where
  "waiter_request r w =
     (let (w, cs) =
        (case r of
           Main_request k \<Rightarrow> AsyncWaitForVsync (Some k) w
         | Secondary_request i c \<Rightarrow> projr (ScheduleSecondaryCallback True i (Some c) w))
      in (w, platform_calls cs))"

definition waiter_fire :: "('k, 'c) VsyncWaiter \<Rightarrow> ('k, 'c) VsyncWaiter" where
  "waiter_fire w = fst (projr (FireCallback 0 0 0 False w))"

interpretation vsync: one_shot_latch waiter_pending waiter_request waiter_fire
proof
  show "waiter_pending (fst (waiter_request r w))" for r and w :: "('k, 'c) VsyncWaiter"
    by (auto simp: waiter_pending_def waiter_request_def AsyncWaitForVsync_def ScheduleSecondaryCallback_def Let_def
      split: vsync_request.splits)
  show "snd (waiter_request r w) = (if waiter_pending w then 0 else 1)" for r and w :: "('k, 'c) VsyncWaiter"
    by (auto simp: waiter_pending_def waiter_request_def AsyncWaitForVsync_def ScheduleSecondaryCallback_def Let_def
      platform_calls_def split: vsync_request.splits)
  show "\<not> waiter_pending (waiter_fire w)" for w :: "('k, 'c) VsyncWaiter"
    by (simp add: waiter_pending_def waiter_fire_def FireCallback_def Let_def)
qed

end
