(* ===== verification/Animator.thy ===== *)
theory Animator
  imports Pipeline Vsync_Waiter Task_Source
begin

text \<open>
  \<open>shell/common/animator.cc\<close>: requests frames from the vsync waiter, builds them through its delegate
  and commits them to the frame pipeline.  The animator lives on the UI thread; the tasks it posts
  there are kept in \<open>an_posted\<close>, oldest first, and the calls of its delegate in \<open>an_log\<close>.  The state also
  holds the process-wide generators of frame numbers and trace ids, the number of outstanding requests
  to the platform's vsync, and the task source of the UI queue, whose secondary tasks a frame pauses.
  \<open>TimePoint::Now()\<close> is an argument.  The animator is taken to be alive when its tasks run (the weak
  pointers are valid), and the trace events are left out.  The layer trees of a frame are an unordered map;
  the list keeps one order of its entries, the order of insertion.
\<close>

section \<open>Data\<close>

record 't LayerTreeTask =
  lt_view_id :: int
  lt_layer_tree :: 't
  lt_device_pixel_ratio :: u32

record 't FrameItem =
  fi_layer_tree_tasks :: "'t LayerTreeTask list"
  fi_frame_timings_recorder :: FrameTimingsRecorder

text \<open>The callback that the animator registers for vsync, and the closures it registers as secondary.\<close>

datatype animator_callback = On_vsync
datatype ui_closure = Maybe_clear_trace_flow_ids | Other_closure nat

datatype ui_task =
    Task_AwaitVSync
  | Task_vsync time_point time_point bool
  | Task_closure ui_closure
  | Task_notify_idle

datatype delegate_call =
    OnAnimatorBeginFrame time_point u64
  | OnAnimatorNotifyIdle int
  | OnAnimatorUpdateLatestFrameTargetTime time_point
  | OnAnimatorDraw
  | OnAnimatorDrawLastLayerTrees FrameTimingsRecorder
  | Run_closure nat

record 't Animator =
  an_waiter :: "(animator_callback, ui_closure) VsyncWaiter"
  an_frame_timings_recorder :: "FrameTimingsRecorder option"
  an_layer_trees_tasks :: "(int \<times> 't LayerTreeTask) list"
  an_frame_request_number :: u64
  an_dart_frame_deadline :: int
  an_layer_tree_pipeline :: "'t FrameItem Pipeline"
  an_pending_frame_semaphore :: Semaphore
  an_producer_continuation :: ProducerContinuation
  an_regenerate_layer_trees :: bool
  an_frame_scheduled :: bool
  an_trace_flow_ids :: "u64 list"
  an_has_rendered :: bool
  an_frame_number_gen :: u64
  an_last_trace_id :: u64
  an_posted :: "ui_task list"
  an_log :: "delegate_call list"
  an_armed :: nat
  an_source :: "unit TaskSource"

definition Animator_new :: "bool \<Rightarrow> u64 \<Rightarrow> u64 \<Rightarrow> 't Animator" where
  "Animator_new platform_is_raster frame_number_gen last_trace_id =
     \<lparr>an_waiter = VsyncWaiter_new, an_frame_timings_recorder = None, an_layer_trees_tasks = [],
      an_frame_request_number = 1, an_dart_frame_deadline = 0,
      an_layer_tree_pipeline = Pipeline_new (if platform_is_raster then 1 else 2),
      an_pending_frame_semaphore = Semaphore_new 1, an_producer_continuation = ProducerContinuation_none,
      an_regenerate_layer_trees = False, an_frame_scheduled = False, an_trace_flow_ids = [], an_has_rendered = False,
      an_frame_number_gen = frame_number_gen, an_last_trace_id = last_trace_id, an_posted = [], an_log = [],
      an_armed = 0, an_source = TaskSource_new 0\<rparr>"

definition post :: "ui_task \<Rightarrow> 't Animator \<Rightarrow> 't Animator" where
  "post t a = a\<lparr>an_posted := an_posted a @ [t]\<rparr>"

definition log_call :: "delegate_call \<Rightarrow> 't Animator \<Rightarrow> 't Animator" where
  "log_call c a = a\<lparr>an_log := an_log a @ [c]\<rparr>"

text \<open>What the calls of the vsync waiter do.\<close>

fun do_call :: "(animator_callback, ui_closure) vsync_call \<Rightarrow> 't Animator \<Rightarrow> 't Animator" where
  "do_call Call_AwaitVSync a = a\<lparr>an_armed := an_armed a + 1\<rparr>"
| "do_call Call_AwaitVSyncForSecondaryCallback a = a\<lparr>an_armed := an_armed a + 1\<rparr>"
| "do_call Call_PauseDartEventLoopTasks a = a\<lparr>an_source := TaskSource_PauseSecondary (an_source a)\<rparr>"
| "do_call (Post_vsync_task On_vsync s t p) a = post (Task_vsync s t p) a"
| "do_call (Post_closure c) a = post (Task_closure c) a"

section \<open>Requesting frames\<close>

definition RequestFrame :: "bool \<Rightarrow> 't Animator \<Rightarrow> 't Animator" where
  "RequestFrame regenerate_layer_trees a =
     (let a = (if regenerate_layer_trees then a\<lparr>an_regenerate_layer_trees := True\<rparr> else a);
          (ok, s) = TryWait (an_pending_frame_semaphore a);
          a = a\<lparr>an_pending_frame_semaphore := s\<rparr>
      in if \<not> ok then a else (post Task_AwaitVSync a)\<lparr>an_frame_scheduled := True\<rparr>)"

definition Animator_AwaitVSync :: "'t Animator \<Rightarrow> 't Animator" where
  "Animator_AwaitVSync a =
     (let (w, cs) = AsyncWaitForVsync (Some On_vsync) (an_waiter a);
          a = fold do_call cs (a\<lparr>an_waiter := w\<rparr>)
      in if an_has_rendered a then log_call (OnAnimatorNotifyIdle (an_dart_frame_deadline a)) a else a)"

definition ScheduleSecondaryVsyncCallback :: "bool \<Rightarrow> u64 \<Rightarrow> ui_closure option \<Rightarrow> 't Animator \<Rightarrow> 't Animator result" where
  "ScheduleSecondaryVsyncCallback on_ui_thread i callback a =
     rbind (ScheduleSecondaryCallback on_ui_thread i callback (an_waiter a)) (\<lambda>(w, cs).
       Inr (fold do_call cs (a\<lparr>an_waiter := w\<rparr>)))"

text \<open>\<open>self\<close> is the address of the animator, the key of its own secondary callback.\<close>

definition ScheduleMaybeClearTraceFlowIds :: "u64 \<Rightarrow> 't Animator \<Rightarrow> 't Animator result" where
  "ScheduleMaybeClearTraceFlowIds self = ScheduleSecondaryVsyncCallback True self (Some Maybe_clear_trace_flow_ids)"

definition maybe_clear_trace_flow_ids :: "'t Animator \<Rightarrow> 't Animator" where
  "maybe_clear_trace_flow_ids a =
     (if \<not> an_frame_scheduled a \<and> an_trace_flow_ids a \<noteq> [] then a\<lparr>an_trace_flow_ids := []\<rparr> else a)"

text \<open>The task that \<open>EnqueueTraceFlowId\<close> runs on the UI thread.\<close>

definition EnqueueTraceFlowId :: "u64 \<Rightarrow> u64 \<Rightarrow> 't Animator \<Rightarrow> 't Animator result" where
  "EnqueueTraceFlowId self trace_flow_id a =
     ScheduleMaybeClearTraceFlowIds self (a\<lparr>an_trace_flow_ids := an_trace_flow_ids a @ [trace_flow_id]\<rparr>)"

section \<open>Frames\<close>

definition CanReuseLastLayerTrees :: "'t Animator \<Rightarrow> bool" where
  "CanReuseLastLayerTrees a = (\<not> an_regenerate_layer_trees a)"

definition DrawLastLayerTrees :: "time_point \<Rightarrow> FrameTimingsRecorder \<Rightarrow> 't Animator \<Rightarrow> 't Animator result" where
  "DrawLastLayerTrees now r a =
     (let a = a\<lparr>an_pending_frame_semaphore := Signal (an_pending_frame_semaphore a)\<rparr>
      in rbind (RecordBuildStart now r) (\<lambda>r.
         rbind (RecordBuildEnd now r) (\<lambda>r.
           Inr (log_call (OnAnimatorDrawLastLayerTrees r) a))))"

text \<open>
  \<open>BeginFrame\<close> up to the call of \<open>OnAnimatorBeginFrame\<close>, its last statement.  The flag says whether it
  gets there: not when the pipeline is full.
\<close>

definition produce_if_needed :: "'t Animator \<Rightarrow> 't Animator" where
  "produce_if_needed a =
     (if \<not> ProducerContinuation_bool (an_producer_continuation a) then
        let (c, last_id, p) = Produce (an_last_trace_id a) (an_layer_tree_pipeline a);
            (c, old) = ProducerContinuation_assign (an_producer_continuation a) c
        in a\<lparr>an_last_trace_id := last_id, an_layer_tree_pipeline := ProducerContinuation_delete old p,
             an_producer_continuation := c\<rparr>
      else a)"

definition BeginFrame :: "time_point \<Rightarrow> FrameTimingsRecorder \<Rightarrow> 't Animator \<Rightarrow> (bool \<times> 't Animator) result" where
  "BeginFrame now r a =
     (let a = a\<lparr>an_layer_trees_tasks := [], an_frame_request_number := an_frame_request_number a + 1\<rparr>
      in rbind (RecordBuildStart now r) (\<lambda>r.
           let a = a\<lparr>an_frame_timings_recorder := Some r, an_trace_flow_ids := [], an_frame_scheduled := False,
                     an_regenerate_layer_trees := False,
                     an_pending_frame_semaphore := Signal (an_pending_frame_semaphore a)\<rparr>;
               a = produce_if_needed a
           in if \<not> ProducerContinuation_bool (an_producer_continuation a) then Inr (False, RequestFrame True a)
              else
                rbind (GetVsyncTargetTime r) (\<lambda>frame_target_time.
                  let a = a\<lparr>an_dart_frame_deadline := frame_target_time\<rparr>
                  in Inr (True, log_call (OnAnimatorBeginFrame frame_target_time (GetFrameNumber r)) a))))"

definition commit_frame :: "time_point \<Rightarrow> FrameTimingsRecorder \<Rightarrow> 't Animator \<Rightarrow> 't Animator result" where
  "commit_frame now r a =
     rbind (RecordBuildEnd now r) (\<lambda>r.
     rbind (GetVsyncTargetTime r) (\<lambda>frame_target_time.
       let a = log_call (OnAnimatorUpdateLatestFrameTargetTime frame_target_time) a;
           layer_tree_task_list = map snd (an_layer_trees_tasks a);
           (res, c, p) = Complete (Some \<lparr>fi_layer_tree_tasks = layer_tree_task_list, fi_frame_timings_recorder = r\<rparr>)
             (an_producer_continuation a) (an_layer_tree_pipeline a);
           a = a\<lparr>an_layer_trees_tasks := [], an_frame_timings_recorder := None, an_producer_continuation := c,
                 an_layer_tree_pipeline := p\<rparr>
       in Inr (if \<not> pr_success res then a
               else if \<not> pr_is_first_item res then a
               else log_call OnAnimatorDraw a)))"

definition EndFrame :: "time_point \<Rightarrow> 't Animator \<Rightarrow> 't Animator result" where
  "EndFrame now a =
     (case an_frame_timings_recorder a of
        None \<Rightarrow> Inr a
      | Some r \<Rightarrow>
          rbind (if an_layer_trees_tasks a \<noteq> [] then commit_frame now r a else Inr a) (\<lambda>a.
            let a = a\<lparr>an_frame_timings_recorder := None\<rparr>;
                a = (if \<not> an_frame_scheduled a \<and> an_has_rendered a then post Task_notify_idle a else a)
            in require DcheckFailed (an_layer_trees_tasks a = []) (Inr a)))"

text \<open>The delayed task of \<open>EndFrame\<close>; \<open>now\<close> is \<open>Dart_TimelineGetMicros()\<close> in nanoseconds.\<close>

definition notify_idle_task :: "int \<Rightarrow> 't Animator \<Rightarrow> 't Animator" where
  "notify_idle_task now a =
     (if \<not> an_frame_scheduled a \<and> now > an_dart_frame_deadline a
      then log_call (OnAnimatorNotifyIdle (now + 100 * 1000000)) a else a)"

definition try_emplace :: "'k \<Rightarrow> 'v \<Rightarrow> ('k \<times> 'v) list \<Rightarrow> ('k \<times> 'v) list" where
  "try_emplace k v m = (if map_of m k = None then m @ [(k, v)] else m)"

definition Render :: "time_point \<Rightarrow> int \<Rightarrow> 't \<Rightarrow> u32 \<Rightarrow> 't Animator \<Rightarrow> 't Animator result" where
  "Render now view_id layer_tree device_pixel_ratio a =
     (let a = a\<lparr>an_has_rendered := True\<rparr>
      in rbind
        (case an_frame_timings_recorder a of
           Some r \<Rightarrow> Inr a
         | None \<Rightarrow>
             (let (r, gen) = FrameTimingsRecorder_new (an_frame_number_gen a)
              in rbind (RecordVsync now now r) (\<lambda>r.
                 rbind (RecordBuildStart now r) (\<lambda>r.
                   Inr (a\<lparr>an_frame_number_gen := gen, an_frame_timings_recorder := Some r\<rparr>))))) (\<lambda>a.
        Inr (a\<lparr>an_layer_trees_tasks := try_emplace view_id
          \<lparr>lt_view_id = view_id, lt_layer_tree = layer_tree, lt_device_pixel_ratio = device_pixel_ratio\<rparr>
          (an_layer_trees_tasks a)\<rparr>)))"

definition OnAllViewsRendered :: "time_point \<Rightarrow> 't Animator \<Rightarrow> 't Animator result" where
  "OnAllViewsRendered now a = (if an_layer_trees_tasks a \<noteq> [] then EndFrame now a else Inr a)"

section \<open>The vsync task\<close>

text \<open>
  The task that \<open>FireCallback\<close> posted: a new recorder goes to the callback of \<open>AwaitVSync\<close>.  When the
  delegate is called the task is in the middle of \<open>BeginFrame\<close>, and \<open>vsync_task_end\<close> is the rest of it.
\<close>

definition vsync_task_end :: "time_point \<Rightarrow> bool \<Rightarrow> 't Animator \<Rightarrow> 't Animator result" where
  "vsync_task_end now pause_secondary_tasks a =
     rbind (EndFrame now a) (\<lambda>a.
       if pause_secondary_tasks then
         rbind (TaskSource_ResumeSecondary (an_source a)) (\<lambda>ts. Inr (a\<lparr>an_source := ts\<rparr>))
       else Inr a)"

definition vsync_task_reuse :: "time_point \<Rightarrow> bool \<Rightarrow> FrameTimingsRecorder \<Rightarrow> 't Animator \<Rightarrow> 't Animator result" where
  "vsync_task_reuse now pause_secondary_tasks r a =
     rbind (DrawLastLayerTrees now r a) (\<lambda>a.
       if pause_secondary_tasks then
         rbind (TaskSource_ResumeSecondary (an_source a)) (\<lambda>ts. Inr (a\<lparr>an_source := ts\<rparr>))
       else Inr a)"

definition vsync_task_begin ::
  "time_point \<Rightarrow> time_point \<Rightarrow> time_point \<Rightarrow> bool \<Rightarrow> 't Animator \<Rightarrow> (bool \<times> 't Animator) result" where
  "vsync_task_begin now frame_start_time frame_target_time pause_secondary_tasks a =
     rbind (vsync_task_recorder frame_start_time frame_target_time (an_frame_number_gen a)) (\<lambda>(r, gen).
       let a = a\<lparr>an_frame_number_gen := gen\<rparr>
       in if CanReuseLastLayerTrees a then
            rbind (vsync_task_reuse now pause_secondary_tasks r a) (\<lambda>a. Inr (False, a))
          else
            rbind (BeginFrame now r a) (\<lambda>(in_delegate, a).
              if in_delegate then Inr (True, a)
              else rbind (vsync_task_end now pause_secondary_tasks a) (\<lambda>a. Inr (False, a))))"

end
