(* ===== verification/Animator_Inv.thy ===== *)
theory Animator_Inv
  imports Animator
begin

text \<open>
  The invariant of the animator, in five parts, and that every operation keeps it and runs without a
  failed check: the frame request, the pipeline, the frame under construction, the pause of the Dart
  tasks, and the request to the platform's vsync.
\<close>

section \<open>The invariant\<close>

definition tally :: "('a \<Rightarrow> bool) \<Rightarrow> 'a list \<Rightarrow> nat" where
  "tally P xs = length (filter P xs)"

lemma tally_simps [simp]:
  "tally P [] = 0"
  "tally P (x # xs) = (if P x then Suc (tally P xs) else tally P xs)"
  "tally P (xs @ ys) = tally P xs + tally P ys"
  by (simp_all add: tally_def)

fun vsync_task :: "ui_task \<Rightarrow> bool" where
  "vsync_task (Task_vsync s t p) = True"
| "vsync_task _ = False"

fun pausing_task :: "ui_task \<Rightarrow> bool" where
  "pausing_task (Task_vsync s t p) = p"
| "pausing_task _ = False"

text \<open>
  The one request of a frame is in the semaphore, in a posted task, with the waiter, or (\<open>k\<close>) being
  served right now.
\<close>

definition req_inv :: "nat \<Rightarrow> 't Animator \<Rightarrow> bool" where
  "req_inv k a \<longleftrightarrow>
     Semaphore_IsValid (an_pending_frame_semaphore a) \<and>
     sm_value (an_pending_frame_semaphore a) + k + tally (\<lambda>t. t = Task_AwaitVSync) (an_posted a) +
       tally vsync_task (an_posted a) + of_bool (vw_callback (an_waiter a) \<noteq> None) = 1 \<and>
     (an_regenerate_layer_trees a \<longrightarrow> sm_value (an_pending_frame_semaphore a) = 0) \<and>
     (sm_value (an_pending_frame_semaphore a) = 0 \<longrightarrow> an_frame_scheduled a)"

definition item_ok :: "'t FrameItem option \<Rightarrow> bool" where
  "item_ok x = (case x of None \<Rightarrow> False | Some i \<Rightarrow>
     fr_state (fi_frame_timings_recorder i) = kBuildEnd \<and> fi_layer_tree_tasks i \<noteq> [] \<and>
     distinct (map lt_view_id (fi_layer_tree_tasks i)))"

definition pipe_inv :: "nat \<Rightarrow> 't Animator \<Rightarrow> bool" where
  "pipe_inv depth a \<longleftrightarrow>
     depth \<le> 2 \<and> Pipeline_IsValid (an_layer_tree_pipeline a) \<and>
     sm_value (pp_empty (an_layer_tree_pipeline a)) + length (pp_queue (an_layer_tree_pipeline a)) +
       of_bool (ProducerContinuation_bool (an_producer_continuation a)) = depth \<and>
     sm_value (pp_available (an_layer_tree_pipeline a)) = length (pp_queue (an_layer_tree_pipeline a)) \<and>
     pc_continuation (an_producer_continuation a) \<in> {None, Some Bind_ProducerCommit} \<and>
     list_all (item_ok \<circ> fst) (pp_queue (an_layer_tree_pipeline a))"

definition frame_inv :: "'t Animator \<Rightarrow> bool" where
  "frame_inv a \<longleftrightarrow>
     (an_frame_timings_recorder a = None \<longrightarrow> an_layer_trees_tasks a = []) \<and>
     (\<forall>r. an_frame_timings_recorder a = Some r \<longrightarrow> fr_state r = kBuildStart) \<and>
     distinct (map fst (an_layer_trees_tasks a)) \<and>
     list_all (\<lambda>(v, t). lt_view_id t = v) (an_layer_trees_tasks a)"

definition pause_inv :: "nat \<Rightarrow> 't Animator \<Rightarrow> bool" where
  "pause_inv n a \<longleftrightarrow> ts_pause_requests (an_source a) = int (tally pausing_task (an_posted a) + n)"

definition armed_inv :: "'t Animator \<Rightarrow> bool" where
  "armed_inv a \<longleftrightarrow> an_armed a = of_bool (waiter_pending (an_waiter a))"

definition an_inv :: "nat \<Rightarrow> nat \<Rightarrow> nat \<Rightarrow> 't Animator \<Rightarrow> bool" where
  "an_inv depth k n a \<longleftrightarrow> req_inv k a \<and> pipe_inv depth a \<and> frame_inv a \<and> pause_inv n a \<and> armed_inv a"

lemmas an_inv_defs = an_inv_def req_inv_def pipe_inv_def frame_inv_def pause_inv_def armed_inv_def

lemma an_inv_new: "an_inv (if b then 1 else 2) 0 0 (Animator_new b g t)"
  by (simp add: an_inv_defs Animator_new_def Semaphore_new_def Semaphore_IsValid_def SEM_VALUE_MAX_def
    VsyncWaiter_new_def Pipeline_new_def Pipeline_IsValid_def ProducerContinuation_bool_def
    ProducerContinuation_none_def TaskSource_new_def waiter_pending_def)

text \<open>The fields outside the invariant.\<close>

lemma an_inv_frame [simp]:
  "an_inv depth k n (a\<lparr>an_trace_flow_ids := ids\<rparr>) = an_inv depth k n a"
  "an_inv depth k n (a\<lparr>an_log := l\<rparr>) = an_inv depth k n a"
  "an_inv depth k n (a\<lparr>an_dart_frame_deadline := d\<rparr>) = an_inv depth k n a"
  "an_inv depth k n (a\<lparr>an_has_rendered := h\<rparr>) = an_inv depth k n a"
  "an_inv depth k n (a\<lparr>an_frame_number_gen := g\<rparr>) = an_inv depth k n a"
  "an_inv depth k n (a\<lparr>an_frame_request_number := q\<rparr>) = an_inv depth k n a"
  by (simp_all add: an_inv_defs)

lemma post_inv [simp]:
  "an_inv depth k n (post Task_notify_idle a) = an_inv depth k n a"
  "an_inv depth k n (post (Task_closure c) a) = an_inv depth k n a"
  by (simp_all add: an_inv_defs post_def)

section \<open>Requests\<close>

lemma RequestFrame_eq:
  assumes "Semaphore_IsValid (an_pending_frame_semaphore a)"
  shows "RequestFrame b a =
    (if sm_value (an_pending_frame_semaphore a) = 0 then a\<lparr>an_regenerate_layer_trees := an_regenerate_layer_trees a \<or> b\<rparr>
     else a\<lparr>an_regenerate_layer_trees := an_regenerate_layer_trees a \<or> b,
       an_pending_frame_semaphore := (an_pending_frame_semaphore a)
         \<lparr>sm_value := sm_value (an_pending_frame_semaphore a) - 1\<rparr>,
       an_posted := an_posted a @ [Task_AwaitVSync], an_frame_scheduled := True\<rparr>)"
  using assms by (cases b) (simp_all add: RequestFrame_def post_def TryWait_def Semaphore_IsValid_def)

lemma RequestFrame_simps [simp]:
  "an_layer_tree_pipeline (RequestFrame b a) = an_layer_tree_pipeline a"
  "an_producer_continuation (RequestFrame b a) = an_producer_continuation a"
  "an_layer_trees_tasks (RequestFrame b a) = an_layer_trees_tasks a"
  "an_frame_timings_recorder (RequestFrame b a) = an_frame_timings_recorder a"
  "an_regenerate_layer_trees (RequestFrame b a) = (an_regenerate_layer_trees a \<or> b)"
  by (auto simp: RequestFrame_def post_def Let_def split: prod.splits)

lemma RequestFrame_inv:
  assumes "an_inv depth 0 n a"
  shows "an_inv depth 0 n (RequestFrame b a)"
proof -
  have valid: "Semaphore_IsValid (an_pending_frame_semaphore a)" using assms by (simp add: an_inv_defs)
  show ?thesis
  proof (cases "sm_value (an_pending_frame_semaphore a) = 0")
    case True
    with assms valid show ?thesis by (simp add: RequestFrame_eq an_inv_defs)
  next
    case False
    with assms have "req_inv 0 (RequestFrame b a)"
      by (cases "vw_callback (an_waiter a)") (auto simp: an_inv_def req_inv_def RequestFrame_eq Semaphore_IsValid_def)
    with assms valid False show ?thesis
      by (simp add: an_inv_def pipe_inv_def frame_inv_def pause_inv_def armed_inv_def RequestFrame_eq)
  qed
qed

text \<open>\<open>k = 0\<close> while a frame is served, after \<open>BeginFrame\<close> has signalled.\<close>

lemma AwaitVSync_inv: "an_inv depth 1 n a \<Longrightarrow> an_inv depth 0 n (Animator_AwaitVSync a)"
  by (auto simp: an_inv_defs Animator_AwaitVSync_def AsyncWaitForVsync_def log_call_def waiter_pending_def Let_def
    split: if_splits)

lemma ScheduleSecondary_inv:
  assumes "an_inv depth k n a"
  shows "\<exists>a'. ScheduleSecondaryVsyncCallback True i (Some c) a = Inr a' \<and> an_inv depth k n a'"
  using assms
  by (auto simp: an_inv_defs ScheduleSecondaryVsyncCallback_def ScheduleSecondaryCallback_def waiter_pending_def Let_def
    split: if_splits)

lemma EnqueueTraceFlowId_inv:
  assumes "an_inv depth k n a"
  shows "\<exists>a'. EnqueueTraceFlowId self i a = Inr a' \<and> an_inv depth k n a'"
  unfolding EnqueueTraceFlowId_def ScheduleMaybeClearTraceFlowIds_def
  by (rule ScheduleSecondary_inv) (use assms in \<open>simp add: an_inv_defs\<close>)

lemma maybe_clear_inv: "an_inv depth k n a \<Longrightarrow> an_inv depth k n (maybe_clear_trace_flow_ids a)"
  by (simp add: maybe_clear_trace_flow_ids_def)

lemma notify_idle_inv: "an_inv depth k n a \<Longrightarrow> an_inv depth k n (notify_idle_task now a)"
  by (simp add: notify_idle_task_def log_call_def)

lemma log_call_inv: "an_inv depth k n a \<Longrightarrow> an_inv depth k n (log_call c a)"
  by (simp add: log_call_def)

section \<open>Frames\<close>

lemma Signal_pending:
  assumes "Semaphore_IsValid s" "sm_value s = 0"
  shows "Semaphore_IsValid (Signal s)" "sm_value (Signal s) = 1"
  using sem.signal_good [OF assms(1)] sem.signal_val [OF assms(1)] assms(2) by (simp_all add: SEM_VALUE_MAX_def)

lemma DrawLastLayerTrees_inv:
  assumes "an_inv depth 1 n a" "\<not> an_regenerate_layer_trees a" "fr_state r = kVsync"
  shows "\<exists>a'. DrawLastLayerTrees now r a = Inr a' \<and> an_inv depth 0 n a'"
  using assms Signal_pending [of "an_pending_frame_semaphore a"]
  by (auto simp: an_inv_defs DrawLastLayerTrees_def log_call_def RecordBuildStart_def RecordBuildStartImpl_def
    RecordBuildEnd_def RecordBuildEndImpl_def check_ok_def Let_def)

lemma produce_if_needed_inv:
  assumes "an_inv depth k n a"
  shows "an_inv depth k n (produce_if_needed a)"
    and "ProducerContinuation_bool (an_producer_continuation (produce_if_needed a)) \<longleftrightarrow>
      length (pp_queue (an_layer_tree_pipeline a)) < depth"
    and "an_frame_timings_recorder (produce_if_needed a) = an_frame_timings_recorder a"
    and "pp_queue (an_layer_tree_pipeline (produce_if_needed a)) = pp_queue (an_layer_tree_pipeline a)"
    and "an_layer_trees_tasks (produce_if_needed a) = an_layer_trees_tasks a"
  using assms
  by (auto simp: an_inv_defs produce_if_needed_def Produce_def produce_with_def empty_TryWait_def TryWait_def
    inflight_inc_def GetNextPipelineTraceID_def ProducerContinuation_new_def ProducerContinuation_none_def
    ProducerContinuation_assign_def ProducerContinuation_delete_def ProducerContinuation_bool_def
    Pipeline_IsValid_def Semaphore_IsValid_def Let_def split: if_splits)

lemma BeginFrame_inv:
  assumes "an_inv depth 1 n a" "fr_state r = kVsync"
  obtains in_delegate a' where "BeginFrame now r a = Inr (in_delegate, a')" "an_inv depth 0 n a'"
    and "in_delegate \<longleftrightarrow> length (pp_queue (an_layer_tree_pipeline a)) < depth"
    and "in_delegate \<Longrightarrow> ProducerContinuation_bool (an_producer_continuation a')"
    and "pp_queue (an_layer_tree_pipeline a') = pp_queue (an_layer_tree_pipeline a)"
    and "an_layer_trees_tasks a' = []"
    and "an_frame_timings_recorder a' = Some (r\<lparr>fr_state := kBuildStart, fr_build_start := now\<rparr>)"
proof -
  define r' where "r' = r\<lparr>fr_state := kBuildStart, fr_build_start := now\<rparr>"
  define b where "b = a\<lparr>an_layer_trees_tasks := [], an_frame_request_number := an_frame_request_number a + 1,
    an_frame_timings_recorder := Some r', an_trace_flow_ids := [], an_frame_scheduled := False,
    an_regenerate_layer_trees := False, an_pending_frame_semaphore := Signal (an_pending_frame_semaphore a)\<rparr>"
  have "Semaphore_IsValid (an_pending_frame_semaphore a)" "sm_value (an_pending_frame_semaphore a) = 0"
    using assms(1) by (auto simp: an_inv_defs)
  note signal = Signal_pending [OF this]
  have inv_b: "an_inv depth 0 n b"
    using assms(1) signal by (auto simp: an_inv_defs b_def r'_def)
  note c = produce_if_needed_inv [OF inv_b]
  have rec: "RecordBuildStart now r = Inr r'"
    using assms(2) by (simp add: RecordBuildStart_def RecordBuildStartImpl_def check_ok_def r'_def)
  have target: "GetVsyncTargetTime r' = Inr (fr_vsync_target r')"
    by (simp add: GetVsyncTargetTime_def r'_def state_order)
  show thesis
  proof (cases "length (pp_queue (an_layer_tree_pipeline a)) < depth")
    case True
    define a' where "a' = log_call (OnAnimatorBeginFrame (fr_vsync_target r') (GetFrameNumber r'))
      ((produce_if_needed b)\<lparr>an_dart_frame_deadline := fr_vsync_target r'\<rparr>)"
    have "BeginFrame now r a = Inr (True, a')"
      using True c(2) target by (simp add: BeginFrame_def rec b_def a'_def)
    then show thesis
      by (rule that) (use True c in \<open>simp_all add: a'_def log_call_def b_def r'_def\<close>)
  next
    case False
    have "BeginFrame now r a = Inr (False, RequestFrame True (produce_if_needed b))"
      using False c(2) by (simp add: BeginFrame_def rec b_def)
    then show thesis
      by (rule that) (use False c RequestFrame_inv [OF c(1)] in \<open>simp_all add: b_def r'_def\<close>)
  qed
qed

lemma Complete_bound:
  assumes "pc_continuation c = Some Bind_ProducerCommit"
  shows "Complete x c p =
    (\<lparr>pr_success = True, pr_is_first_item = (pp_queue p = [])\<rparr>, c\<lparr>pc_continuation := None\<rparr>,
     p\<lparr>pp_queue := pp_queue p @ [(x, pc_trace_id c)], pp_available := Signal (pp_available p)\<rparr>)"
  using assms by (simp add: Complete_def call_continuation_def ProducerCommit_def commit_locked_def available_Signal_def)

definition committed_item :: "time_point \<Rightarrow> FrameTimingsRecorder \<Rightarrow> 't Animator \<Rightarrow> 't FrameItem" where
  "committed_item now r a =
     \<lparr>fi_layer_tree_tasks = map snd (an_layer_trees_tasks a),
      fi_frame_timings_recorder = r\<lparr>fr_state := kBuildEnd, fr_build_end := now\<rparr>\<rparr>"

lemma committed_item_ok:
  assumes "frame_inv a" "an_layer_trees_tasks a \<noteq> []"
  shows "item_ok (Some (committed_item now r a))"
proof -
  have "map (lt_view_id \<circ> snd) (an_layer_trees_tasks a) = map fst (an_layer_trees_tasks a)"
    using assms(1) by (auto simp: frame_inv_def list_all_iff)
  with assms show ?thesis by (simp add: item_ok_def committed_item_def frame_inv_def del: map_eq_conv)
qed

lemma commit_frame_eq:
  assumes "fr_state r = kBuildStart"
  shows "commit_frame now r a = Inr
    (let (res, c, p) = Complete (Some (committed_item now r a)) (an_producer_continuation a) (an_layer_tree_pipeline a);
         b = (log_call (OnAnimatorUpdateLatestFrameTargetTime (fr_vsync_target r)) a)
           \<lparr>an_layer_trees_tasks := [], an_frame_timings_recorder := None, an_producer_continuation := c,
            an_layer_tree_pipeline := p\<rparr>
     in if pr_success res \<and> pr_is_first_item res then log_call OnAnimatorDraw b else b)"
  using assms
  by (auto simp: commit_frame_def RecordBuildEnd_def RecordBuildEndImpl_def check_ok_def GetVsyncTargetTime_def
    state_order committed_item_def log_call_def Let_def split: prod.splits)

lemma commit_frame_inv:
  assumes "an_inv depth k n a" "an_frame_timings_recorder a = Some r" "an_layer_trees_tasks a \<noteq> []"
  obtains a' where "commit_frame now r a = Inr a'" "an_inv depth k n a'"
    and "an_layer_trees_tasks a' = []"
    and "map fst (pp_queue (an_layer_tree_pipeline a')) = map fst (pp_queue (an_layer_tree_pipeline a)) @
      (if ProducerContinuation_bool (an_producer_continuation a) then [Some (committed_item now r a)] else [])"
proof -
  have r: "fr_state r = kBuildStart" and item: "item_ok (Some (committed_item now r a))"
    using assms committed_item_ok [of a now r] by (auto simp: an_inv_def frame_inv_def)
  show thesis
  proof (cases "pc_continuation (an_producer_continuation a)")
    case None
    then have no_bool: "\<not> ProducerContinuation_bool (an_producer_continuation a)"
      by (simp add: ProducerContinuation_bool_def)
    show thesis
      by (rule that, unfold commit_frame_eq [OF r], rule refl)
        (use assms None no_bool in \<open>simp_all add: Complete_def log_call_def an_inv_defs\<close>)
  next
    case (Some kind)
    with assms(1) have bound: "pc_continuation (an_producer_continuation a) = Some Bind_ProducerCommit"
      by (auto simp: an_inv_def pipe_inv_def)
    then have bool: "ProducerContinuation_bool (an_producer_continuation a)"
      by (simp add: ProducerContinuation_bool_def)
    have avail: "Semaphore_IsValid (pp_available (an_layer_tree_pipeline a))"
      "sm_value (pp_available (an_layer_tree_pipeline a)) < SEM_VALUE_MAX"
      using assms(1) bool by (auto simp: an_inv_defs Pipeline_IsValid_def SEM_VALUE_MAX_def)
    note signal = sem.signal_val [OF avail] sem.signal_good [OF avail(1)]
    show thesis
      by (rule that, unfold commit_frame_eq [OF r], rule refl)
        (use assms bound bool item signal in \<open>auto simp: Complete_bound log_call_def an_inv_defs
          Pipeline_IsValid_def ProducerContinuation_bool_def Let_def\<close>)
  qed
qed

lemma EndFrame_inv:
  assumes "an_inv depth k n a"
  obtains a' where "EndFrame now a = Inr a'" "an_inv depth k n a'"
    and "an_frame_timings_recorder a' = None"
    and "map fst (pp_queue (an_layer_tree_pipeline a')) = map fst (pp_queue (an_layer_tree_pipeline a)) @
      (case an_frame_timings_recorder a of
         None \<Rightarrow> []
       | Some r \<Rightarrow>
           if an_layer_trees_tasks a \<noteq> [] \<and> ProducerContinuation_bool (an_producer_continuation a)
           then [Some (committed_item now r a)] else [])"
proof (cases "an_frame_timings_recorder a")
  case None
  show thesis by (rule that [of a]) (use None assms in \<open>simp_all add: EndFrame_def\<close>)
next
  case (Some r)
  obtain b where b: "(if an_layer_trees_tasks a \<noteq> [] then commit_frame now r a else Inr a) = Inr b" "an_inv depth k n b"
    "an_layer_trees_tasks b = []"
    "map fst (pp_queue (an_layer_tree_pipeline b)) = map fst (pp_queue (an_layer_tree_pipeline a)) @
      (if an_layer_trees_tasks a \<noteq> [] \<and> ProducerContinuation_bool (an_producer_continuation a)
       then [Some (committed_item now r a)] else [])"
  proof (cases "an_layer_trees_tasks a = []")
    case True
    with that [of a] assms show thesis by simp
  next
    case False
    show thesis by (rule commit_frame_inv [OF assms Some False, of now]) (use that False in auto)
  qed
  define c where "c = b\<lparr>an_frame_timings_recorder := None\<rparr>"
  define a' where "a' = (if \<not> an_frame_scheduled c \<and> an_has_rendered c then post Task_notify_idle c else c)"
  have "an_inv depth k n c" using b(2,3) by (simp add: an_inv_defs c_def)
  then have "an_inv depth k n a'" by (simp add: a'_def)
  moreover have "EndFrame now a = Inr a'"
    using Some b(1,3) by (simp add: EndFrame_def a'_def c_def post_def cong: if_cong)
  ultimately show thesis by (intro that [of a']) (use Some b(4) in \<open>simp_all add: a'_def c_def post_def\<close>)
qed

lemma Render_inv:
  assumes "an_inv depth k n a"
  obtains a' where "Render now v t d a = Inr a'" "an_inv depth k n a'"
    and "an_layer_trees_tasks a' = try_emplace v \<lparr>lt_view_id = v, lt_layer_tree = t, lt_device_pixel_ratio = d\<rparr> (an_layer_trees_tasks a)"
    and "an_layer_tree_pipeline a' = an_layer_tree_pipeline a" "an_producer_continuation a' = an_producer_continuation a"
    and "an_frame_timings_recorder a' \<noteq> None"
    and "an_frame_timings_recorder a \<noteq> None \<Longrightarrow> an_frame_timings_recorder a' = an_frame_timings_recorder a"
proof (cases "an_frame_timings_recorder a")
  case None
  show thesis
    by (rule that, simp add: Render_def None FrameTimingsRecorder_new_def FrameTimingsRecorder_of_def RecordVsync_def
        RecordVsyncImpl_def RecordBuildStart_def RecordBuildStartImpl_def check_ok_def Let_def)
      (use assms None in \<open>auto simp: an_inv_defs try_emplace_def\<close>)
next
  case (Some r)
  show thesis
    by (rule that, simp add: Render_def Some)
      (use assms Some in \<open>auto simp: an_inv_defs try_emplace_def map_of_eq_None_iff\<close>)
qed

lemma OnAllViewsRendered_inv:
  assumes "an_inv depth k n a"
  shows "\<exists>a'. OnAllViewsRendered now a = Inr a' \<and> an_inv depth k n a'"
  using assms by (auto simp: OnAllViewsRendered_def elim: EndFrame_inv [of depth k n a now])

section \<open>The vsync task, the vsync signal and the consumer\<close>

lemma Resume_inv:
  assumes "an_inv depth k (of_bool p) a"
  shows "\<exists>a'. (if p then rbind (TaskSource_ResumeSecondary (an_source a)) (\<lambda>ts. Inr (a\<lparr>an_source := ts\<rparr>)) else Inr a) = Inr a' \<and>
    an_inv depth k 0 a' \<and> an_layer_tree_pipeline a' = an_layer_tree_pipeline a"
  using assms by (auto simp: TaskSource_ResumeSecondary_def an_inv_defs)

lemma vsync_task_end_inv:
  assumes "an_inv depth k (of_bool p) a"
  obtains a' where "vsync_task_end now p a = Inr a'" "an_inv depth k 0 a'"
    and "map fst (pp_queue (an_layer_tree_pipeline a')) = map fst (pp_queue (an_layer_tree_pipeline a)) @
      (case an_frame_timings_recorder a of
         None \<Rightarrow> []
       | Some r \<Rightarrow>
           if an_layer_trees_tasks a \<noteq> [] \<and> ProducerContinuation_bool (an_producer_continuation a)
           then [Some (committed_item now r a)] else [])"
proof -
  obtain b where b: "EndFrame now a = Inr b" "an_inv depth k (of_bool p) b"
    "map fst (pp_queue (an_layer_tree_pipeline b)) = map fst (pp_queue (an_layer_tree_pipeline a)) @
      (case an_frame_timings_recorder a of
         None \<Rightarrow> []
       | Some r \<Rightarrow>
           if an_layer_trees_tasks a \<noteq> [] \<and> ProducerContinuation_bool (an_producer_continuation a)
           then [Some (committed_item now r a)] else [])"
    by (rule EndFrame_inv [OF assms]) (rule that)
  from Resume_inv [OF b(2)] obtain a' where "vsync_task_end now p a = Inr a'" "an_inv depth k 0 a'"
    "an_layer_tree_pipeline a' = an_layer_tree_pipeline b"
    by (auto simp: vsync_task_end_def b(1))
  with b(3) show thesis using that by simp
qed

definition vsync_recorder :: "time_point \<Rightarrow> time_point \<Rightarrow> u64 \<Rightarrow> FrameTimingsRecorder" where
  "vsync_recorder s t g = (FrameTimingsRecorder_of g)\<lparr>fr_state := kVsync, fr_vsync_start := s, fr_vsync_target := t\<rparr>"

lemma vsync_task_recorder_eq: "vsync_task_recorder s t g = Inr (vsync_recorder s t g, g + 1)"
  by (simp add: vsync_task_recorder_def FrameTimingsRecorder_new_def FrameTimingsRecorder_of_def RecordVsync_def
    RecordVsyncImpl_def check_ok_def vsync_recorder_def)

lemma vsync_recorder_state: "fr_state (vsync_recorder s t g) = kVsync"
  by (simp add: vsync_recorder_def)

lemma vsync_task_begin_inv:
  assumes "an_inv depth 1 (of_bool p) a"
  obtains in_delegate a' where "vsync_task_begin now s t p a = Inr (in_delegate, a')"
    and "an_inv depth 0 (of_bool (in_delegate \<and> p)) a'"
    and "in_delegate \<longleftrightarrow> an_regenerate_layer_trees a \<and> length (pp_queue (an_layer_tree_pipeline a)) < depth"
    and "in_delegate \<Longrightarrow> ProducerContinuation_bool (an_producer_continuation a')"
    and "in_delegate \<Longrightarrow> pp_queue (an_layer_tree_pipeline a') = pp_queue (an_layer_tree_pipeline a)"
    and "in_delegate \<Longrightarrow> an_layer_trees_tasks a' = []"
    and "in_delegate \<Longrightarrow> an_frame_timings_recorder a' =
      Some ((vsync_recorder s t (an_frame_number_gen a))\<lparr>fr_state := kBuildStart, fr_build_start := now\<rparr>)"
proof -
  define r where "r = vsync_recorder s t (an_frame_number_gen a)"
  have r: "vsync_task_recorder s t (an_frame_number_gen a) = Inr (r, an_frame_number_gen a + 1)" "fr_state r = kVsync"
    by (simp_all add: r_def vsync_task_recorder_eq vsync_recorder_state)
  define b where "b = a\<lparr>an_frame_number_gen := an_frame_number_gen a + 1\<rparr>"
  have b: "an_inv depth 1 (of_bool p) b" "an_regenerate_layer_trees b = an_regenerate_layer_trees a"
    "an_layer_tree_pipeline b = an_layer_tree_pipeline a"
    using assms by (simp_all add: b_def)
  show thesis
  proof (cases "an_regenerate_layer_trees a")
    case False
    with DrawLastLayerTrees_inv [OF b(1) _ r(2), of now] b(2) obtain c where
      c: "DrawLastLayerTrees now r b = Inr c" "an_inv depth 0 (of_bool p) c" by blast
    from Resume_inv [OF c(2)] obtain a' where "vsync_task_reuse now p r b = Inr a'" "an_inv depth 0 0 a'"
      by (auto simp: vsync_task_reuse_def c(1))
    then show thesis
      by (intro that [of False a']) (use False r(1) in \<open>simp_all add: vsync_task_begin_def CanReuseLastLayerTrees_def b_def\<close>)
  next
    case True
    obtain d c where c: "BeginFrame now r b = Inr (d, c)" "an_inv depth 0 (of_bool p) c"
      "d \<longleftrightarrow> length (pp_queue (an_layer_tree_pipeline b)) < depth"
      "d \<Longrightarrow> ProducerContinuation_bool (an_producer_continuation c)"
      "pp_queue (an_layer_tree_pipeline c) = pp_queue (an_layer_tree_pipeline b)"
      "an_layer_trees_tasks c = []"
      "an_frame_timings_recorder c = Some (r\<lparr>fr_state := kBuildStart, fr_build_start := now\<rparr>)"
      by (rule BeginFrame_inv [OF b(1) r(2)]) (rule that)
    have vb: "vsync_task_begin now s t p a =
        (if d then Inr (True, c) else rbind (vsync_task_end now p c) (\<lambda>a. Inr (False, a)))"
      using True r(1) c(1) by (simp add: vsync_task_begin_def CanReuseLastLayerTrees_def b_def)
    show thesis
    proof (cases d)
      case d: True
      show thesis by (rule that [of True c]) (use True d vb b c in \<open>auto simp: r_def\<close>)
    next
      case d: False
      obtain a' where "vsync_task_end now p c = Inr a'" "an_inv depth 0 0 a'"
        by (rule vsync_task_end_inv [OF c(2)])
      with that [of False a'] True d vb b c show thesis by auto
    qed
  qed
qed

lemma fold_post_closure:
  "fold do_call (map Post_closure cs) a = a\<lparr>an_posted := an_posted a @ map Task_closure cs\<rparr>"
  by (induction cs arbitrary: a) (simp_all add: post_def)

lemma tally_closures [simp]:
  "tally (\<lambda>t. t = Task_AwaitVSync) (map Task_closure cs) = 0" "tally vsync_task (map Task_closure cs) = 0"
  "tally pausing_task (map Task_closure cs) = 0"
  by (induction cs) simp_all

text \<open>The platform answers its one outstanding request, or signals without one.\<close>

definition vsync_signal :: "time_point \<Rightarrow> time_point \<Rightarrow> time_point \<Rightarrow> bool \<Rightarrow> 't Animator \<Rightarrow> 't Animator result" where
  "vsync_signal now s t p a =
     rbind (FireCallback now s t p (an_waiter a)) (\<lambda>(w, cs).
       Inr (fold do_call cs (a\<lparr>an_waiter := w, an_armed := an_armed a - 1\<rparr>)))"

lemma vsync_signal_eq:
  assumes "s \<le> now"
  shows "vsync_signal now s t p a = Inr (a\<lparr>an_waiter := VsyncWaiter_new, an_armed := an_armed a - 1,
    an_source := (if vw_callback (an_waiter a) \<noteq> None \<and> p then TaskSource_PauseSecondary (an_source a) else an_source a),
    an_posted := an_posted a @ (if vw_callback (an_waiter a) \<noteq> None then [Task_vsync s t p] else []) @
      map Task_closure (map snd (vw_secondary_callbacks (an_waiter a)))\<rparr>)"
proof (cases "vw_callback (an_waiter a)")
  case None
  with assms show ?thesis
    by (simp add: vsync_signal_def FireCallback_def fold_post_closure VsyncWaiter_new_def Let_def del: map_map)
next
  case (Some cb)
  then have "cb = On_vsync" by (cases cb) simp
  with Some assms show ?thesis
    by (simp add: vsync_signal_def FireCallback_def fold_post_closure VsyncWaiter_new_def Let_def post_def del: map_map)
qed

lemma vsync_signal_inv:
  assumes "an_inv depth 0 n a" "s \<le> now"
  shows "\<exists>a'. vsync_signal now s t p a = Inr a' \<and> an_inv depth 0 n a'"
proof -
  obtain a' where a': "vsync_signal now s t p a = Inr a'" using vsync_signal_eq [OF assms(2)] by blast
  note eq = vsync_signal_eq [OF assms(2), of t p a, unfolded a' sum.inject]
  have "req_inv 0 a'"
    using assms(1) by (cases "vw_callback (an_waiter a)")
      (auto simp: eq an_inv_def req_inv_def VsyncWaiter_new_def simp del: map_map)
  moreover have "pause_inv n a'"
    using assms(1) by (cases "vw_callback (an_waiter a)"; cases p)
      (auto simp: eq an_inv_def pause_inv_def TaskSource_PauseSecondary_def simp del: map_map)
  moreover have "armed_inv a'" "frame_inv a'" "pipe_inv depth a'"
    using assms(1) by (simp_all add: eq an_inv_def armed_inv_def frame_inv_def pipe_inv_def waiter_pending_def VsyncWaiter_new_def)
  ultimately show ?thesis using a' by (simp add: an_inv_def)
qed

definition raster_consume :: "'t Animator \<Rightarrow> 't Animator result" where
  "raster_consume a =
     rbind (Consume (Some (\<lambda>_ u. u)) () (an_layer_tree_pipeline a)) (\<lambda>(_, _, p). Inr (a\<lparr>an_layer_tree_pipeline := p\<rparr>))"

lemma raster_consume_inv:
  assumes "an_inv depth k n a"
  shows "\<exists>a'. raster_consume a = Inr a' \<and> an_inv depth k n a'"
proof -
  define p where "p = an_layer_tree_pipeline a"
  have v: "Semaphore_IsValid (pp_empty p)" "Semaphore_IsValid (pp_available p)" "sm_value (pp_available p) = length (pp_queue p)"
    "sm_value (pp_empty p) + length (pp_queue p) \<le> 2"
    using assms by (auto simp: an_inv_defs Pipeline_IsValid_def p_def)
  show ?thesis
  proof (cases "pp_queue p")
    case Nil
    then have "available_TryWait p = (False, p)" using v by (simp add: available_TryWait_def TryWait_def)
    then show ?thesis using assms by (simp add: raster_consume_def Consume_def p_def)
  next
    case (Cons x xs)
    have e: "sm_value (Signal (pp_empty p)) = sm_value (pp_empty p) + 1" "Semaphore_IsValid (Signal (pp_empty p))"
      using sem.signal_val [OF v(1)] sem.signal_good [OF v(1)] v(4) by (simp_all add: SEM_VALUE_MAX_def)
    have "TryWait (pp_available p) = (True, (pp_available p)\<lparr>sm_value := length xs\<rparr>)"
      using v Cons by (simp add: TryWait_def Semaphore_IsValid_def)
    then have "raster_consume a = Inr (a\<lparr>an_layer_tree_pipeline := inflight_dec (empty_Signal
        (p\<lparr>pp_available := (pp_available p)\<lparr>sm_value := length xs\<rparr>, pp_queue := xs\<rparr>))\<rparr>)"
      using Cons by (simp add: raster_consume_def Consume_def available_TryWait_def consume_locked_def p_def [symmetric]
        split: prod.splits)
    then show ?thesis
      using assms Cons e v by (auto simp: an_inv_defs Pipeline_IsValid_def inflight_dec_def empty_Signal_def
        Semaphore_IsValid_def p_def)
  qed
qed

end
