(* ===== verification/Animator_Spec.thy ===== *)
theory Animator_Spec
  imports Animator_Inv
begin

text \<open>
  The animator together with its callers: the engine on the UI thread, the posted tasks, the vsync
  signals of the platform and the rasterizer that consumes frames, in every order.
\<close>

section \<open>Executions\<close>

text \<open>
  \<open>aw_busy\<close> is \<open>Some pause\<close> while a vsync task is inside \<open>OnAnimatorBeginFrame\<close>: then the UI thread runs
  no other task, but the engine calls the animator.  An action that is not enabled does nothing.
\<close>

record 't AnimatorWorld =
  aw_animator :: "'t Animator"
  aw_busy :: "bool option"

datatype 't aw_action =
    Act_RequestFrame bool
  | Act_Render time_point int 't u32
  | Act_OnAllViewsRendered time_point
  | Act_EnqueueTraceFlowId u64 u64
  | Act_ScheduleSecondary u64 nat
  | Act_RunTask nat time_point
  | Act_EndVsyncTask time_point
  | Act_Vsync time_point time_point time_point bool
  | Act_Consume

definition run_task :: "time_point \<Rightarrow> ui_task \<Rightarrow> 't Animator \<Rightarrow> 't AnimatorWorld result" where
  "run_task now task a =
     (case task of
        Task_AwaitVSync \<Rightarrow> Inr \<lparr>aw_animator = Animator_AwaitVSync a, aw_busy = None\<rparr>
      | Task_vsync s t p \<Rightarrow>
          rbind (vsync_task_begin now s t p a) (\<lambda>(in_delegate, a).
            Inr \<lparr>aw_animator = a, aw_busy = (if in_delegate then Some p else None)\<rparr>)
      | Task_closure Maybe_clear_trace_flow_ids \<Rightarrow> Inr \<lparr>aw_animator = maybe_clear_trace_flow_ids a, aw_busy = None\<rparr>
      | Task_closure (Other_closure i) \<Rightarrow> Inr \<lparr>aw_animator = log_call (Run_closure i) a, aw_busy = None\<rparr>
      | Task_notify_idle \<Rightarrow> Inr \<lparr>aw_animator = notify_idle_task now a, aw_busy = None\<rparr>)"

definition keep_busy :: "bool option \<Rightarrow> 't Animator result \<Rightarrow> 't AnimatorWorld result" where
  "keep_busy b r = rbind r (\<lambda>a. Inr \<lparr>aw_animator = a, aw_busy = b\<rparr>)"

fun aw_exec :: "'t aw_action \<Rightarrow> 't AnimatorWorld \<Rightarrow> 't AnimatorWorld result" where
  "aw_exec (Act_RequestFrame b) w = keep_busy (aw_busy w) (Inr (RequestFrame b (aw_animator w)))"
| "aw_exec (Act_Render now v t d) w = keep_busy (aw_busy w) (Render now v t d (aw_animator w))"
| "aw_exec (Act_OnAllViewsRendered now) w = keep_busy (aw_busy w) (OnAllViewsRendered now (aw_animator w))"
| "aw_exec (Act_EnqueueTraceFlowId self i) w = keep_busy (aw_busy w) (EnqueueTraceFlowId self i (aw_animator w))"
| "aw_exec (Act_ScheduleSecondary i c) w =
     keep_busy (aw_busy w) (ScheduleSecondaryVsyncCallback True i (Some (Other_closure c)) (aw_animator w))"
| "aw_exec (Act_RunTask i now) w =
     (let a = aw_animator w
      in if aw_busy w = None \<and> i < length (an_posted a)
         then run_task now (an_posted a ! i) (a\<lparr>an_posted := take i (an_posted a) @ drop (Suc i) (an_posted a)\<rparr>)
         else Inr w)"
| "aw_exec (Act_EndVsyncTask now) w =
     (case aw_busy w of
        None \<Rightarrow> Inr w
      | Some p \<Rightarrow> keep_busy None (vsync_task_end now p (aw_animator w)))"
| "aw_exec (Act_Vsync now s t p) w =
     (if s \<le> now then keep_busy (aw_busy w) (vsync_signal now s t p (aw_animator w)) else Inr w)"
| "aw_exec Act_Consume w = keep_busy (aw_busy w) (raster_consume (aw_animator w))"

fun aw_run :: "'t aw_action list \<Rightarrow> 't AnimatorWorld \<Rightarrow> 't AnimatorWorld result" where
  "aw_run [] w = Inr w"
| "aw_run (x # xs) w = rbind (aw_exec x w) (aw_run xs)"

definition aw_start :: "bool \<Rightarrow> u64 \<Rightarrow> u64 \<Rightarrow> 't AnimatorWorld" where
  "aw_start platform_is_raster gen last_id = \<lparr>aw_animator = Animator_new platform_is_raster gen last_id, aw_busy = None\<rparr>"

section \<open>The invariant holds throughout\<close>

definition aw_inv :: "nat \<Rightarrow> 't AnimatorWorld \<Rightarrow> bool" where
  "aw_inv depth w = an_inv depth 0 (of_bool (aw_busy w = Some True)) (aw_animator w)"

lemma aw_inv_start: "aw_inv (if b then 1 else 2) (aw_start b g i)"
  using an_inv_new [of b g i] by (simp add: aw_inv_def aw_start_def)

lemma keep_busy_inv:
  "\<exists>a. r = Inr a \<and> an_inv depth 0 (of_bool (b = Some True)) a \<Longrightarrow> \<exists>w. keep_busy b r = Inr w \<and> aw_inv depth w"
  by (auto simp: keep_busy_def aw_inv_def)

lemma take_task:
  assumes "i < length ts"
  shows "tally P ts = tally P (take i ts @ drop (Suc i) ts) + of_bool (P (ts ! i))"
  using arg_cong [OF id_take_nth_drop [OF assms], of "tally P"] by simp

text \<open>A task that is taken off the list is being served.\<close>

lemma an_inv_take:
  assumes "an_inv depth 0 0 a" "i < length (an_posted a)"
  shows "an_inv depth (of_bool (an_posted a ! i = Task_AwaitVSync \<or> vsync_task (an_posted a ! i)))
    (of_bool (pausing_task (an_posted a ! i)))
    (a\<lparr>an_posted := take i (an_posted a) @ drop (Suc i) (an_posted a)\<rparr>)"
proof -
  note t = take_task [OF assms(2)]
  have "req_inv (of_bool (an_posted a ! i = Task_AwaitVSync \<or> vsync_task (an_posted a ! i)))
    (a\<lparr>an_posted := take i (an_posted a) @ drop (Suc i) (an_posted a)\<rparr>)"
    using assms(1) t [of "\<lambda>t. t = Task_AwaitVSync"] t [of vsync_task]
    by (cases "an_posted a ! i") (auto simp: an_inv_def req_inv_def)
  moreover have "pause_inv (of_bool (pausing_task (an_posted a ! i)))
    (a\<lparr>an_posted := take i (an_posted a) @ drop (Suc i) (an_posted a)\<rparr>)"
    using assms(1) t [of pausing_task] by (auto simp: an_inv_def pause_inv_def)
  ultimately show ?thesis using assms(1) by (simp add: an_inv_def pipe_inv_def frame_inv_def armed_inv_def)
qed

lemma run_task_inv:
  assumes "an_inv depth (of_bool (task = Task_AwaitVSync \<or> vsync_task task)) (of_bool (pausing_task task)) a"
  shows "\<exists>w. run_task now task a = Inr w \<and> aw_inv depth w"
proof (cases task)
  case Task_AwaitVSync
  with assms AwaitVSync_inv [of depth 0 a] show ?thesis by (simp add: run_task_def aw_inv_def)
next
  case (Task_vsync s t p)
  obtain d a' where "vsync_task_begin now s t p a = Inr (d, a')" "an_inv depth 0 (of_bool (d \<and> p)) a'"
    by (rule vsync_task_begin_inv [of depth p a now s t]) (use assms Task_vsync in auto)
  with Task_vsync show ?thesis by (cases d; cases p) (simp_all add: run_task_def aw_inv_def)
next
  case (Task_closure c)
  with assms maybe_clear_inv [of depth 0 0 a] log_call_inv [of depth 0 0 a] show ?thesis
    by (cases c) (simp_all add: run_task_def aw_inv_def)
next
  case Task_notify_idle
  with assms notify_idle_inv [of depth 0 0 a] show ?thesis by (simp add: run_task_def aw_inv_def)
qed

lemma aw_exec_inv:
  assumes "aw_inv depth w"
  shows "\<exists>w'. aw_exec act w = Inr w' \<and> aw_inv depth w'"
proof -
  have inv: "an_inv depth 0 (of_bool (aw_busy w = Some True)) (aw_animator w)" using assms by (simp add: aw_inv_def)
  show ?thesis
  proof (cases act)
    case (Act_RequestFrame b)
    then show ?thesis using RequestFrame_inv [OF inv] by (simp add: keep_busy_inv del: of_bool_eq_iff)
  next
    case (Act_Render now v t d)
    obtain a' where "Render now v t d (aw_animator w) = Inr a'" "an_inv depth 0 (of_bool (aw_busy w = Some True)) a'"
      by (rule Render_inv [OF inv])
    with Act_Render show ?thesis by (simp add: keep_busy_def aw_inv_def)
  next
    case (Act_RunTask i now)
    show ?thesis
    proof (cases "aw_busy w = None \<and> i < length (an_posted (aw_animator w))")
      case True
      then show ?thesis using Act_RunTask run_task_inv [OF an_inv_take [of depth "aw_animator w" i]] inv by (simp add: Let_def)
    next
      case False
      with Act_RunTask assms show ?thesis by (auto simp: Let_def)
    qed
  next
    case (Act_EndVsyncTask now)
    show ?thesis
    proof (cases "aw_busy w")
      case (Some p)
      obtain a' where "vsync_task_end now p (aw_animator w) = Inr a'" "an_inv depth 0 0 a'"
        by (rule vsync_task_end_inv [of depth 0 p "aw_animator w" now]) (use inv Some in \<open>simp_all\<close>)
      with Act_EndVsyncTask Some show ?thesis by (simp add: keep_busy_def aw_inv_def)
    qed (use Act_EndVsyncTask assms in simp)
  next
    case (Act_Vsync now s t p)
    then show ?thesis using vsync_signal_inv [OF inv, of s now t p] assms by (simp add: keep_busy_inv)
  qed (use OnAllViewsRendered_inv [OF inv] EnqueueTraceFlowId_inv [OF inv] ScheduleSecondary_inv [OF inv]
      raster_consume_inv [OF inv] in \<open>simp_all add: keep_busy_inv\<close>)
qed

lemma aw_run_inv: "aw_inv depth w \<Longrightarrow> \<exists>w'. aw_run acts w = Inr w' \<and> aw_inv depth w'"
proof (induction acts arbitrary: w)
  case (Cons x xs)
  obtain v where "aw_exec x w = Inr v" "aw_inv depth v" using aw_exec_inv [OF Cons.prems] by blast
  with Cons.IH show ?case by simp
qed simp

section \<open>Requests to regenerate the layer trees\<close>

text \<open>How often \<open>BeginFrame\<close> has called its delegate.\<close>

fun begin_call :: "delegate_call \<Rightarrow> bool" where
  "begin_call (OnAnimatorBeginFrame t n) = True"
| "begin_call _ = False"

definition frames_begun :: "'t Animator \<Rightarrow> nat" where
  "frames_begun a = tally begin_call (an_log a)"

text \<open>The flag and the count; only the operations below change them.\<close>

definition regen :: "'t Animator \<Rightarrow> bool \<times> nat" where
  "regen a = (an_regenerate_layer_trees a, frames_begun a)"

lemmas regen_defs = regen_def frames_begun_def

lemma regen_cong:
  "an_regenerate_layer_trees a' = an_regenerate_layer_trees a \<Longrightarrow> an_log a' = an_log a \<Longrightarrow> regen a' = regen a"
  by (simp add: regen_defs)

lemma regen_log [simp]: "\<not> begin_call c \<Longrightarrow> regen (log_call c a) = regen a"
  by (simp add: regen_defs log_call_def)

lemma regen_post [simp]: "regen (post t a) = regen a"
  by (simp add: regen_defs post_def)

lemma regen_do_call [simp]: "regen (do_call c a) = regen a"
  by (cases "(c, a)" rule: do_call.cases) (simp_all add: regen_defs post_def)

lemma regen_do_calls [simp]: "regen (fold do_call cs a) = regen a"
  by (induction cs arbitrary: a) simp_all

lemma regen_update [simp]:
  "regen (a\<lparr>an_waiter := w\<rparr>) = regen a"
  "regen (a\<lparr>an_armed := k\<rparr>) = regen a"
  "regen (a\<lparr>an_posted := ts\<rparr>) = regen a"
  "regen (a\<lparr>an_trace_flow_ids := ids\<rparr>) = regen a"
  "regen (a\<lparr>an_source := src\<rparr>) = regen a"
  "regen (a\<lparr>an_layer_trees_tasks := lts\<rparr>) = regen a"
  "regen (a\<lparr>an_frame_timings_recorder := r\<rparr>) = regen a"
  "regen (a\<lparr>an_producer_continuation := c\<rparr>) = regen a"
  "regen (a\<lparr>an_layer_tree_pipeline := p\<rparr>) = regen a"
  "regen (a\<lparr>an_frame_number_gen := g\<rparr>) = regen a"
  "regen (a\<lparr>an_has_rendered := h\<rparr>) = regen a"
  "regen (a\<lparr>an_last_trace_id := l\<rparr>) = regen a"
  by (simp_all add: regen_defs)

lemma regen_RequestFrame:
  "regen (RequestFrame b a) = (an_regenerate_layer_trees a \<or> b, frames_begun a)"
  by (simp add: RequestFrame_def regen_defs post_def Let_def split: prod.split)

lemma regen_AwaitVSync [simp]: "regen (Animator_AwaitVSync a) = regen a"
  by (simp add: Animator_AwaitVSync_def Let_def split: prod.split)

lemma regen_ScheduleSecondary: "ScheduleSecondaryVsyncCallback u i c a = Inr a' \<Longrightarrow> regen a' = regen a"
  by (auto simp: ScheduleSecondaryVsyncCallback_def)

lemma regen_Enqueue: "EnqueueTraceFlowId self i a = Inr a' \<Longrightarrow> regen a' = regen a"
  by (auto simp: EnqueueTraceFlowId_def ScheduleMaybeClearTraceFlowIds_def dest!: regen_ScheduleSecondary)

lemma regen_Render: "Render now v t d a = Inr a' \<Longrightarrow> regen a' = regen a"
  by (auto simp: Render_def Let_def split: option.splits prod.splits)

lemma regen_commit: "commit_frame now r a = Inr a' \<Longrightarrow> regen a' = regen a"
  by (auto simp: commit_frame_def Let_def split: prod.splits if_splits)

lemma regen_EndFrame: "EndFrame now a = Inr a' \<Longrightarrow> regen a' = regen a"
  by (auto simp: EndFrame_def Let_def split: option.splits if_splits dest!: regen_commit)

lemma regen_task_end: "vsync_task_end now p a = Inr a' \<Longrightarrow> regen a' = regen a"
  by (auto simp: vsync_task_end_def split: if_splits dest!: regen_EndFrame)

lemma regen_task_reuse: "vsync_task_reuse now p r a = Inr a' \<Longrightarrow> regen a' = regen a"
  by (auto simp: vsync_task_reuse_def DrawLastLayerTrees_def Let_def split: if_splits)
    (simp_all add: regen_defs log_call_def)

lemma regen_produce [simp]: "regen (produce_if_needed a) = regen a"
  by (simp add: produce_if_needed_def split: prod.split)

lemma regen_BeginFrame:
  assumes "BeginFrame now r a = Inr (d, a')"
  shows "regen a' = (\<not> d, if d then Suc (frames_begun a) else frames_begun a)"
proof -
  let ?b = "\<lambda>r. a\<lparr>an_layer_trees_tasks := [], an_frame_request_number := an_frame_request_number a + 1,
      an_frame_timings_recorder := Some r, an_trace_flow_ids := [], an_frame_scheduled := False,
      an_regenerate_layer_trees := False, an_pending_frame_semaphore := Signal (an_pending_frame_semaphore a)\<rparr>"
  have b: "regen (produce_if_needed (?b r)) = (False, frames_begun a)" for r
    by (simp only: regen_produce) (simp add: regen_defs)
  then have flags: "\<not> an_regenerate_layer_trees (produce_if_needed (?b r))"
    "frames_begun (produce_if_needed (?b r)) = frames_begun a" for r
    by (simp_all add: regen_def)
  have full: "regen (RequestFrame True (produce_if_needed (?b r))) = (True, frames_begun a)" for r
    by (simp add: regen_RequestFrame flags)
  have begun: "regen (log_call (OnAnimatorBeginFrame ft n) ((produce_if_needed (?b r))\<lparr>an_dart_frame_deadline := dl\<rparr>)) =
      (False, Suc (frames_begun a))" for r ft n dl
    using flags [of r] by (simp add: regen_defs log_call_def)
  show ?thesis
    using assms full begun by (auto simp: BeginFrame_def Let_def split: if_splits)
qed

lemma regen_task_begin:
  assumes "vsync_task_begin now s t p a = Inr (d, a')"
  shows "an_regenerate_layer_trees a' = (an_regenerate_layer_trees a \<and> frames_begun a' = frames_begun a)"
proof -
  obtain r gen where r: "vsync_task_recorder s t (an_frame_number_gen a) = Inr (r, gen)"
    using assms by (auto simp: vsync_task_begin_def)
  let ?a = "a\<lparr>an_frame_number_gen := gen\<rparr>"
  show ?thesis
  proof (cases "an_regenerate_layer_trees a")
    case False
    then have "\<exists>x. vsync_task_reuse now p r ?a = Inr x \<and> x = a'"
      using assms r by (auto simp: vsync_task_begin_def CanReuseLastLayerTrees_def Let_def)
    then have "regen a' = regen ?a" using regen_task_reuse by blast
    with False show ?thesis by (simp add: regen_defs)
  next
    case True
    then obtain d' b where b: "BeginFrame now r ?a = Inr (d', b)" and "b = a' \<or> vsync_task_end now p b = Inr a'"
      using assms r by (auto simp: vsync_task_begin_def CanReuseLastLayerTrees_def Let_def split: if_splits)
    then have rest: "regen a' = regen b" using regen_task_end by auto
    have "frames_begun ?a = frames_begun a" by (simp add: frames_begun_def)
    with regen_BeginFrame [OF b] rest True show ?thesis by (auto simp: regen_def split: if_splits)
  qed
qed

text \<open>
  Every action: the flag is set after a request to regenerate, and otherwise kept unless the action
  began a frame through the delegate.
\<close>

definition regen_kept :: "'t aw_action \<Rightarrow> 't Animator \<Rightarrow> 't Animator \<Rightarrow> bool" where
  "regen_kept act a a' \<longleftrightarrow>
     (an_regenerate_layer_trees a' \<longleftrightarrow>
        act = Act_RequestFrame True \<or> an_regenerate_layer_trees a \<and> frames_begun a' = frames_begun a)"

lemma regen_keptI: "act \<noteq> Act_RequestFrame True \<Longrightarrow> regen a' = regen a \<Longrightarrow> regen_kept act a a'"
  by (simp add: regen_kept_def regen_def)

lemma run_task_regen:
  assumes "run_task now task a = Inr w" and "regen a = regen a0" and "act \<noteq> Act_RequestFrame True"
  shows "regen_kept act a0 (aw_animator w)"
proof (cases task)
  case (Task_vsync s t p)
  then obtain d a' where "vsync_task_begin now s t p a = Inr (d, a')" "aw_animator w = a'"
    using assms(1) by (auto simp: run_task_def)
  with regen_task_begin [of now s t p a d a'] assms(2,3) show ?thesis by (simp add: regen_kept_def regen_def)
next
  case (Task_closure c)
  with assms show ?thesis
    by (cases c) (auto simp: run_task_def maybe_clear_trace_flow_ids_def intro!: regen_keptI)
next
  case Task_notify_idle
  with assms show ?thesis by (auto simp: run_task_def notify_idle_task_def intro!: regen_keptI)
next
  case Task_AwaitVSync
  with assms show ?thesis by (auto simp: run_task_def intro!: regen_keptI)
qed

lemma aw_exec_regen:
  assumes "aw_exec act w = Inr w'"
  shows "regen_kept act (aw_animator w) (aw_animator w')"
proof (cases act)
  case (Act_RequestFrame b)
  with assms have "aw_animator w' = RequestFrame b (aw_animator w)" by (auto simp: keep_busy_def)
  with regen_RequestFrame [of b "aw_animator w"] Act_RequestFrame show ?thesis
    by (auto simp: regen_kept_def regen_def)
next
  case (Act_RunTask i now)
  then show ?thesis using assms by (auto simp: Let_def split: if_splits intro: run_task_regen regen_keptI)
qed (use assms in \<open>auto simp: keep_busy_def vsync_signal_def raster_consume_def OnAllViewsRendered_def
    split: if_splits option.splits intro!: regen_keptI dest: regen_Render regen_Enqueue regen_ScheduleSecondary
      regen_EndFrame regen_task_end\<close>)

section \<open>What the animator guarantees\<close>

text \<open>
  C27: No sequence of frame requests, renders, secondary callbacks, posted tasks, vsync signals and
  consumptions, in any order, makes a check of the animator, the recorder, the pipeline or the task
  source fail.  Every frame that waits in the pipeline has a finished build, at least one layer tree and
  at most one per view, and the pipeline holds at most its depth.
\<close>

theorem animator_safe:
  "\<exists>w. aw_run acts (aw_start platform_is_raster gen last_id) = Inr w \<and>
     list_all (item_ok \<circ> fst) (pp_queue (an_layer_tree_pipeline (aw_animator w))) \<and>
     length (pp_queue (an_layer_tree_pipeline (aw_animator w))) \<le> (if platform_is_raster then 1 else 2)"
proof -
  obtain w where "aw_run acts (aw_start platform_is_raster gen last_id) = Inr w" "aw_inv (if platform_is_raster then 1 else 2) w"
    using aw_run_inv [OF aw_inv_start] by blast
  moreover from this(2) have "list_all (item_ok \<circ> fst) (pp_queue (an_layer_tree_pipeline (aw_animator w)))"
    "length (pp_queue (an_layer_tree_pipeline (aw_animator w))) \<le> (if platform_is_raster then 1 else 2)"
    by (auto simp: aw_inv_def an_inv_def pipe_inv_def)
  ultimately show ?thesis by blast
qed

text \<open>
  C28: However often a frame is requested, exactly one request exists: it is free in the semaphore, or
  posted as a task, or registered with the vsync waiter, or its vsync task is posted.  A request to
  regenerate the layer trees is not lost: \<open>RequestFrame(true)\<close> always leaves the flag set, also when a
  request is already under way; no later action clears it except one in which \<open>BeginFrame\<close> calls the
  delegate (a vsync that finds the pipeline full keeps it); and while it is set a request is under
  way.  The platform has exactly one outstanding vsync request while a callback of either kind
  waits, and none otherwise.
\<close>

theorem animator_one_request:
  "\<exists>w. aw_run acts (aw_start platform_is_raster gen last_id) = Inr w \<and>
     sm_value (an_pending_frame_semaphore (aw_animator w)) +
       tally (\<lambda>t. t = Task_AwaitVSync) (an_posted (aw_animator w)) + tally vsync_task (an_posted (aw_animator w)) +
       of_bool (vw_callback (an_waiter (aw_animator w)) \<noteq> None) = 1 \<and>
     \<not> (an_regenerate_layer_trees (aw_animator w) \<and> sm_value (an_pending_frame_semaphore (aw_animator w)) = 1) \<and>
     (\<forall>act. \<exists>w'. aw_exec act w = Inr w' \<and>
        (an_regenerate_layer_trees (aw_animator w') \<longleftrightarrow>
           act = Act_RequestFrame True \<or>
           an_regenerate_layer_trees (aw_animator w) \<and>
             frames_begun (aw_animator w') = frames_begun (aw_animator w))) \<and>
     an_armed (aw_animator w) = of_bool (waiter_pending (an_waiter (aw_animator w)))"
proof -
  obtain w where w: "aw_run acts (aw_start platform_is_raster gen last_id) = Inr w" "aw_inv (if platform_is_raster then 1 else 2) w"
    using aw_run_inv [OF aw_inv_start] by blast
  have "\<exists>w'. aw_exec act w = Inr w' \<and> regen_kept act (aw_animator w) (aw_animator w')" for act
    using aw_exec_inv [OF w(2)] aw_exec_regen by blast
  moreover from w(2) have "req_inv 0 (aw_animator w)" "armed_inv (aw_animator w)"
    by (simp_all add: aw_inv_def an_inv_def)
  ultimately show ?thesis using w(1) unfolding req_inv_def armed_inv_def regen_kept_def by auto
qed

text \<open>The renders of one frame: the first of each view counts.\<close>

type_synonym 't render_call = "time_point \<times> int \<times> 't \<times> u32"

fun render_task :: "'t render_call \<Rightarrow> 't LayerTreeTask" where
  "render_task (now, v, t, d) = \<lparr>lt_view_id = v, lt_layer_tree = t, lt_device_pixel_ratio = d\<rparr>"

fun render_action :: "'t render_call \<Rightarrow> 't aw_action" where
  "render_action (now, v, t, d) = Act_Render now v t d"

fun first_renders :: "'t render_call list \<Rightarrow> 't LayerTreeTask list" where
  "first_renders [] = []"
| "first_renders (r # rs) =
     render_task r # filter (\<lambda>t. lt_view_id t \<noteq> lt_view_id (render_task r)) (first_renders rs)"

definition emplace_render :: "'t render_call \<Rightarrow> (int \<times> 't LayerTreeTask) list \<Rightarrow> (int \<times> 't LayerTreeTask) list" where
  "emplace_render r m = try_emplace (lt_view_id (render_task r)) (render_task r) m"

lemma keys_try_emplace: "fst ` set (try_emplace k v m) = insert k (fst ` set m)"
  by (simp add: try_emplace_def map_of_eq_None_iff insert_absorb)

lemma fold_emplace:
  "map snd (fold emplace_render rs m) = map snd m @ filter (\<lambda>t. lt_view_id t \<notin> fst ` set m) (first_renders rs)"
proof (induction rs arbitrary: m)
  case (Cons r rs)
  have "map snd (emplace_render r m) = map snd m @ (if lt_view_id (render_task r) \<in> fst ` set m then [] else [render_task r])"
    by (simp add: emplace_render_def try_emplace_def map_of_eq_None_iff)
  with Cons [of "emplace_render r m"] show ?case
    by (simp add: emplace_render_def keys_try_emplace conj_commute)
qed simp

lemma aw_run_append: "aw_run (xs @ ys) w = rbind (aw_run xs w) (aw_run ys)"
proof (induction xs arbitrary: w)
  case (Cons x xs)
  then show ?case by (cases "aw_exec x w") simp_all
qed simp

lemma aw_run_renders:
  assumes "an_inv depth 0 n (aw_animator w)" "an_frame_timings_recorder (aw_animator w) = Some r"
  obtains w' where "aw_run (map render_action rs) w = Inr w'" "aw_busy w' = aw_busy w" "an_inv depth 0 n (aw_animator w')"
    and "an_layer_trees_tasks (aw_animator w') = fold emplace_render rs (an_layer_trees_tasks (aw_animator w))"
    and "an_layer_tree_pipeline (aw_animator w') = an_layer_tree_pipeline (aw_animator w)"
    and "an_producer_continuation (aw_animator w') = an_producer_continuation (aw_animator w)"
    and "an_frame_timings_recorder (aw_animator w') = Some r"
  using assms
proof (induction rs arbitrary: w thesis)
  case Nil
  then show thesis by simp
next
  case (Cons c rs)
  obtain now v t d where c: "c = (now, v, t, d)" by (cases c)
  obtain a where a: "Render now v t d (aw_animator w) = Inr a" "an_inv depth 0 n a"
    "an_layer_trees_tasks a = emplace_render c (an_layer_trees_tasks (aw_animator w))"
    "an_layer_tree_pipeline a = an_layer_tree_pipeline (aw_animator w)"
    "an_producer_continuation a = an_producer_continuation (aw_animator w)" "an_frame_timings_recorder a = Some r"
    by (rule Render_inv [OF Cons.prems(2), of now v t d]) (use that Cons.prems(3) in \<open>simp add: c emplace_render_def\<close>)
  let ?w = "\<lparr>aw_animator = a, aw_busy = aw_busy w\<rparr>"
  show thesis
    by (rule Cons.IH [of ?w]) (use a Cons.prems(1) in \<open>simp_all add: c keep_busy_def\<close>)
qed

text \<open>The world after a vsync task has called the delegate.\<close>

lemma begin_frame_world:
  assumes "aw_inv depth w" "aw_busy w = None" "j < length (an_posted (aw_animator w))"
    and task: "an_posted (aw_animator w) ! j = Task_vsync s t p"
    and "an_regenerate_layer_trees (aw_animator w)" "length (pp_queue (an_layer_tree_pipeline (aw_animator w))) < depth"
  obtains a where "aw_exec (Act_RunTask j now) w = Inr \<lparr>aw_animator = a, aw_busy = Some p\<rparr>"
    and "an_inv depth 0 (of_bool p) a" "ProducerContinuation_bool (an_producer_continuation a)"
    and "pp_queue (an_layer_tree_pipeline a) = pp_queue (an_layer_tree_pipeline (aw_animator w))"
    and "an_layer_trees_tasks a = []"
    and "an_frame_timings_recorder a = Some ((vsync_recorder s t (an_frame_number_gen (aw_animator w)))
      \<lparr>fr_state := kBuildStart, fr_build_start := now\<rparr>)"
proof -
  let ?a = "(aw_animator w)\<lparr>an_posted := take j (an_posted (aw_animator w)) @ drop (Suc j) (an_posted (aw_animator w))\<rparr>"
  have "an_inv depth 1 (of_bool p) ?a"
    using an_inv_take [of depth "aw_animator w" j] assms(1-3) task by (simp add: aw_inv_def)
  then obtain d a where "vsync_task_begin now s t p ?a = Inr (d, a)" "an_inv depth 0 (of_bool (d \<and> p)) a" "d"
    "ProducerContinuation_bool (an_producer_continuation a)"
    "pp_queue (an_layer_tree_pipeline a) = pp_queue (an_layer_tree_pipeline (aw_animator w))"
    "an_layer_trees_tasks a = []"
    "an_frame_timings_recorder a = Some ((vsync_recorder s t (an_frame_number_gen (aw_animator w)))
      \<lparr>fr_state := kBuildStart, fr_build_start := now\<rparr>)"
    by (rule vsync_task_begin_inv [of depth p ?a now s t]) (use assms(5,6) in auto)
  with that show thesis using assms(2,3) task by (simp add: run_task_def Let_def)
qed

text \<open>
  C29: A vsync task of a frame that has to regenerate its layer trees, with room in the pipeline,
  commits exactly one frame if anything was rendered: it contains the first layer tree rendered for each
  view and nothing else, in some order (the code iterates over an unordered map), and a recorder with the
  vsync times, the build start and the build end of this frame; frames already queued stay before it.
\<close>

theorem animator_frame_committed:
  assumes "aw_run acts (aw_start platform_is_raster gen last_id) = Inr w" "aw_busy w = None"
    and "j < length (an_posted (aw_animator w))" "an_posted (aw_animator w) ! j = Task_vsync s t p"
    and "an_regenerate_layer_trees (aw_animator w)"
    and "length (pp_queue (an_layer_tree_pipeline (aw_animator w))) < (if platform_is_raster then 1 else 2)"
  shows "\<exists>w' ts. aw_run (Act_RunTask j now # map render_action rs @ [Act_EndVsyncTask fin]) w = Inr w' \<and>
    mset ts = mset (first_renders rs) \<and>
    map fst (pp_queue (an_layer_tree_pipeline (aw_animator w'))) =
      map fst (pp_queue (an_layer_tree_pipeline (aw_animator w))) @
      (if rs = [] then [] else [Some \<lparr>fi_layer_tree_tasks = ts, fi_frame_timings_recorder =
         (vsync_recorder s t (an_frame_number_gen (aw_animator w)))
           \<lparr>fr_state := kBuildEnd, fr_build_start := now, fr_build_end := fin\<rparr>\<rparr>])"
proof -
  let ?depth = "if platform_is_raster then 1 else 2" and ?r = "vsync_recorder s t (an_frame_number_gen (aw_animator w))"
  have inv: "aw_inv ?depth w" using aw_run_inv [OF aw_inv_start] assms(1) by (metis sum.inject(2))
  obtain a where a: "aw_exec (Act_RunTask j now) w = Inr \<lparr>aw_animator = a, aw_busy = Some p\<rparr>"
    "an_inv ?depth 0 (of_bool p) a" "ProducerContinuation_bool (an_producer_continuation a)"
    "pp_queue (an_layer_tree_pipeline a) = pp_queue (an_layer_tree_pipeline (aw_animator w))"
    "an_layer_trees_tasks a = []"
    "an_frame_timings_recorder a = Some (?r\<lparr>fr_state := kBuildStart, fr_build_start := now\<rparr>)"
    by (rule begin_frame_world [OF inv assms(2-6)]) (rule that)
  obtain v where v: "aw_run (map render_action rs) \<lparr>aw_animator = a, aw_busy = Some p\<rparr> = Inr v" "aw_busy v = Some p"
    "an_inv ?depth 0 (of_bool p) (aw_animator v)" "an_layer_trees_tasks (aw_animator v) = fold emplace_render rs []"
    "an_layer_tree_pipeline (aw_animator v) = an_layer_tree_pipeline a"
    "an_producer_continuation (aw_animator v) = an_producer_continuation a"
    "an_frame_timings_recorder (aw_animator v) = Some (?r\<lparr>fr_state := kBuildStart, fr_build_start := now\<rparr>)"
    by (rule aw_run_renders [of ?depth "of_bool p" "\<lparr>aw_animator = a, aw_busy = Some p\<rparr>" "?r\<lparr>fr_state := kBuildStart, fr_build_start := now\<rparr>" rs])
      (use a that in auto)
  have tasks: "map snd (fold emplace_render rs []) = first_renders rs" using fold_emplace [of rs "[]"] by simp
  then have none: "fold emplace_render rs [] = [] \<longleftrightarrow> rs = []" by (cases rs) auto
  obtain b where "vsync_task_end fin p (aw_animator v) = Inr b"
    "map fst (pp_queue (an_layer_tree_pipeline b)) = map fst (pp_queue (an_layer_tree_pipeline (aw_animator w))) @
      (if rs = [] then [] else [Some (committed_item fin (?r\<lparr>fr_state := kBuildStart, fr_build_start := now\<rparr>) (aw_animator v))])"
    by (rule vsync_task_end_inv [OF v(3), of fin]) (use v a none that in auto)
  then show ?thesis
    using a(1) v tasks by (auto simp: aw_run_append keep_busy_def committed_item_def)
qed

section \<open>Side paths\<close>

lemma DrawLastLayerTrees_fields:
  assumes "DrawLastLayerTrees now r a = Inr a'"
  shows "an_frame_scheduled a' = an_frame_scheduled a" "an_posted a' = an_posted a" "an_waiter a' = an_waiter a"
    "an_pending_frame_semaphore a' = Signal (an_pending_frame_semaphore a)" "an_source a' = an_source a"
  using assms by (auto simp: DrawLastLayerTrees_def log_call_def Let_def)

lemma reuse_frame_world:
  assumes "aw_inv depth w" "aw_busy w = None" "j < length (an_posted (aw_animator w))"
    and task: "an_posted (aw_animator w) ! j = Task_vsync s t p" and "\<not> an_regenerate_layer_trees (aw_animator w)"
  obtains a where "aw_exec (Act_RunTask j now) w = Inr \<lparr>aw_animator = a, aw_busy = None\<rparr>"
    and "an_frame_scheduled a" "sm_value (an_pending_frame_semaphore a) = 1"
proof -
  let ?a = "(aw_animator w)\<lparr>an_posted := take j (an_posted (aw_animator w)) @ drop (Suc j) (an_posted (aw_animator w))\<rparr>"
  let ?b = "?a\<lparr>an_frame_number_gen := an_frame_number_gen (aw_animator w) + 1\<rparr>"
  let ?r = "vsync_recorder s t (an_frame_number_gen (aw_animator w))"
  have b: "an_inv depth 1 (of_bool p) ?b"
    using an_inv_take [of depth "aw_animator w" j] assms(1-3) task by (simp add: aw_inv_def)
  then have pending: "sm_value (an_pending_frame_semaphore ?b) = 0" "an_frame_scheduled ?b"
    "Semaphore_IsValid (an_pending_frame_semaphore ?b)"
    unfolding an_inv_def req_inv_def by auto
  obtain c where c: "DrawLastLayerTrees now ?r ?b = Inr c" "an_inv depth 0 (of_bool p) c"
    using DrawLastLayerTrees_inv [OF b _ vsync_recorder_state, of now s t "an_frame_number_gen (aw_animator w)"] assms(5)
    by auto
  note fields = DrawLastLayerTrees_fields [OF c(1)]
  from Resume_inv [OF c(2)] obtain a where a: "vsync_task_reuse now p ?r ?b = Inr a"
    "an_frame_scheduled a = an_frame_scheduled c" "an_pending_frame_semaphore a = an_pending_frame_semaphore c"
    by (auto simp: vsync_task_reuse_def c(1) split: if_splits)
  have "aw_exec (Act_RunTask j now) w = Inr \<lparr>aw_animator = a, aw_busy = None\<rparr>"
    using assms(2,3,5) task a(1)
    by (simp add: run_task_def vsync_task_begin_def vsync_task_recorder_eq CanReuseLastLayerTrees_def Let_def)
  then show thesis
    by (rule that) (use a fields pending Signal_pending in simp_all)
qed

text \<open>
  C30: A vsync task that only draws the last layer trees again gives the frame request back but leaves
  \<open>frame_scheduled_\<close> set, although no frame is scheduled any more.  From then on, until the next
  \<open>BeginFrame\<close>, pointer flow ids are not cleared at a vsync and the idle notification is suppressed.
\<close>

theorem reuse_leaves_scheduled:
  assumes "aw_run acts (aw_start platform_is_raster gen last_id) = Inr w" "aw_busy w = None"
    and "j < length (an_posted (aw_animator w))" "an_posted (aw_animator w) ! j = Task_vsync s t p"
    and "\<not> an_regenerate_layer_trees (aw_animator w)"
  shows "\<exists>a. aw_exec (Act_RunTask j now) w = Inr \<lparr>aw_animator = a, aw_busy = None\<rparr> \<and>
    sm_value (an_pending_frame_semaphore a) = 1 \<and> an_frame_scheduled a \<and>
    maybe_clear_trace_flow_ids a = a \<and> notify_idle_task idle a = a"
proof -
  have inv: "aw_inv (if platform_is_raster then 1 else 2) w"
    using aw_run_inv [OF aw_inv_start] assms(1) by (metis sum.inject(2))
  obtain a where "aw_exec (Act_RunTask j now) w = Inr \<lparr>aw_animator = a, aw_busy = None\<rparr>"
    "an_frame_scheduled a" "sm_value (an_pending_frame_semaphore a) = 1"
    by (rule reuse_frame_world [OF inv assms(2-5)]) (rule that)
  then show ?thesis by (simp add: maybe_clear_trace_flow_ids_def notify_idle_task_def)
qed

text \<open>
  A warm-up frame, rendered outside a vsync task while the animator holds no continuation, is
  built and then dropped by \<open>OnAllViewsRendered\<close>: nothing reaches the pipeline.
\<close>

theorem warm_up_frame_dropped:
  assumes "aw_run acts (aw_start platform_is_raster gen last_id) = Inr w"
    and "an_frame_timings_recorder (aw_animator w) = None"
    and "\<not> ProducerContinuation_bool (an_producer_continuation (aw_animator w))"
  shows "\<exists>w'. aw_run [Act_Render now v t d, Act_OnAllViewsRendered fin] w = Inr w' \<and>
    map fst (pp_queue (an_layer_tree_pipeline (aw_animator w'))) = map fst (pp_queue (an_layer_tree_pipeline (aw_animator w))) \<and>
    an_layer_trees_tasks (aw_animator w') = []"
proof -
  have inv: "aw_inv (if platform_is_raster then 1 else 2) w"
    using aw_run_inv [OF aw_inv_start] assms(1) by (metis sum.inject(2))
  obtain a where a: "Render now v t d (aw_animator w) = Inr a"
    "an_inv (if platform_is_raster then 1 else 2) 0 (of_bool (aw_busy w = Some True)) a"
    "an_layer_tree_pipeline a = an_layer_tree_pipeline (aw_animator w)"
    "an_producer_continuation a = an_producer_continuation (aw_animator w)" "an_layer_trees_tasks a \<noteq> []"
    by (rule Render_inv [OF inv [unfolded aw_inv_def], of now v t d])
      (use that assms(2) inv in \<open>auto simp: try_emplace_def aw_inv_def an_inv_def frame_inv_def\<close>)
  obtain b where "EndFrame fin a = Inr b" "an_layer_trees_tasks b = []"
    "map fst (pp_queue (an_layer_tree_pipeline b)) = map fst (pp_queue (an_layer_tree_pipeline a))"
    by (rule EndFrame_inv [OF a(2), of fin])
      (use a(4) assms(3) that in \<open>auto simp: an_inv_def frame_inv_def split: option.splits\<close>)
  with a show ?thesis by (simp add: keep_busy_def OnAllViewsRendered_def)
qed

section \<open>Example runs\<close>

text \<open>A frame is requested, with or without new layer trees, and its vsync arrives.\<close>

definition demo_vsync :: "bool \<Rightarrow> nat AnimatorWorld" where
  "demo_vsync regenerate = projr (aw_run [Act_RequestFrame regenerate, Act_RunTask 0 0, Act_Vsync 5 5 21 True] (aw_start False 1 0))"

lemma demo_vsync_run:
  "aw_run [Act_RequestFrame b, Act_RunTask 0 0, Act_Vsync 5 5 21 True] (aw_start False 1 0) = Inr (demo_vsync b)"
proof -
  obtain w :: "nat AnimatorWorld" where
    "aw_run [Act_RequestFrame b, Act_RunTask 0 0, Act_Vsync 5 5 21 True] (aw_start False 1 0) = Inr w"
    using aw_run_inv [OF aw_inv_start] by blast
  then show ?thesis by (simp add: demo_vsync_def del: aw_run.simps)
qed

lemma demo_vsync_True:
  "an_posted (aw_animator (demo_vsync True)) = [Task_vsync 5 21 True]"
  "aw_busy (demo_vsync True) = None"
  "an_regenerate_layer_trees (aw_animator (demo_vsync True))"
  "length (pp_queue (an_layer_tree_pipeline (aw_animator (demo_vsync True)))) = 0"
  by code_simp+

lemma demo_vsync_False:
  "an_posted (aw_animator (demo_vsync False)) = [Task_vsync 5 21 True]"
  "aw_busy (demo_vsync False) = None"
  "\<not> an_regenerate_layer_trees (aw_animator (demo_vsync False))"
  by code_simp+

theorem animator_frame_committed_witness:
  "\<exists>w' i. aw_run [Act_RunTask 0 6, Act_Render 7 0 (30 :: nat) 1, Act_Render 7 0 31 1, Act_Render 8 4 32 1, Act_EndVsyncTask 9]
      (demo_vsync True) = Inr w' \<and>
     map fst (pp_queue (an_layer_tree_pipeline (aw_animator w'))) = [Some i] \<and>
     mset (map (\<lambda>t. (lt_view_id t, lt_layer_tree t)) (fi_layer_tree_tasks i)) = mset [(0, 30), (4, 32)]"
  using animator_frame_committed [OF demo_vsync_run demo_vsync_True(2), of 0 5 21 True 6 "[(7, 0, 30, 1), (7, 0, 31, 1), (8, 4, 32, 1)]" 9]
    demo_vsync_True
  by (auto simp del: aw_run.simps)

theorem reuse_leaves_scheduled_witness:
  "\<exists>a. aw_exec (Act_RunTask 0 6) (demo_vsync False) = Inr \<lparr>aw_animator = a, aw_busy = None\<rparr> \<and>
     sm_value (an_pending_frame_semaphore a) = 1 \<and> an_frame_scheduled a"
  using reuse_leaves_scheduled [OF demo_vsync_run demo_vsync_False(2), of 0 5 21 True 6] demo_vsync_False
  by auto

theorem warm_up_frame_dropped_witness:
  "\<exists>w'. aw_run [Act_Render 1 0 (30 :: nat) 1, Act_OnAllViewsRendered 2] (aw_start False 1 0) = Inr w' \<and>
     pp_queue (an_layer_tree_pipeline (aw_animator w')) = []"
proof -
  have "aw_run [] (aw_start False 1 0) = Inr (aw_start False 1 0 :: nat AnimatorWorld)" by simp
  from warm_up_frame_dropped [OF this, of 1 0 30 1 2] show ?thesis
    by (auto simp: aw_start_def Animator_new_def ProducerContinuation_none_def ProducerContinuation_bool_def Pipeline_new_def
      simp del: aw_run.simps)
qed

end
