(* ===== verification/Dl_RTree.thy ===== *)
theory Dl_RTree
  imports Dl_Region
begin

text \<open>
  \<open>display_list/geometry/dl_rtree.cc\<close>: an R-tree of the bounds of drawing operations, packed level by
  level into one vector.

  \<open>SkRect\<close> is Skia's: its type is a parameter and the member functions that the tree calls are fields of
  a record, as for \<open>SkIRect\<close>.  The vector is resized once to its final size and its entries are written
  in order; the model holds those written so far, and the checks compare with the final size.
\<close>

record 'q SkRect_api =
  sr_MakeEmpty :: 'q
  sr_isEmpty :: "'q \<Rightarrow> bool"
  sr_intersects :: "'q \<Rightarrow> 'q \<Rightarrow> bool"
  sr_join :: "'q \<Rightarrow> 'q \<Rightarrow> 'q"
  sr_roundOut :: "'q \<Rightarrow> SkIRect"
  sr_Make :: "SkIRect \<Rightarrow> 'q"

section \<open>Data\<close>

definition kMaxChildren :: nat where
  "kMaxChildren = 11"

text \<open>The union of a node: an id in a leaf, index and count of the children elsewhere.\<close>

datatype Node_union = Node_id int | Node_child nat nat

record 'q Node =
  nd_bounds :: 'q
  nd_union :: Node_union

record 'q DlRTree =
  rt_nodes :: "'q Node list"
  rt_leaf_count :: nat
  rt_invalid_id :: int
  rt_region :: "DlRegion option"

section \<open>Construction\<close>

text \<open>\<open>ids\<close> is null (\<open>None\<close>) or an array with an id for each rectangle; \<open>p\<close> is the predicate on ids.\<close>

fun leaf_count_of :: "'q SkRect_api \<Rightarrow> (int \<Rightarrow> bool) \<Rightarrow> ('q \<times> int option) list \<Rightarrow> nat" where
  "leaf_count_of sr p [] = 0"
| "leaf_count_of sr p ((r, i) # rs) =
     (if \<not> sr_isEmpty sr r \<and> (case i of None \<Rightarrow> True | Some j \<Rightarrow> p j) then 1 else 0) + leaf_count_of sr p rs"

text \<open>The variable \<open>id\<close> keeps the last id that was read, the invalid one when there are no ids.\<close>

fun leaves_of :: "'q SkRect_api \<Rightarrow> (int \<Rightarrow> bool) \<Rightarrow> int \<Rightarrow> ('q \<times> int option) list \<Rightarrow> 'q Node list" where
  "leaves_of sr p invalid_id [] = []"
| "leaves_of sr p invalid_id ((r, i) # rs) =
     (if \<not> sr_isEmpty sr r \<and> (case i of None \<Rightarrow> True | Some j \<Rightarrow> p j)
      then [\<lparr>nd_bounds = r, nd_union = Node_id (case i of None \<Rightarrow> invalid_id | Some j \<Rightarrow> j)\<rparr>] else [])
     @ leaves_of sr p invalid_id rs"

definition family_count_of :: "nat \<Rightarrow> nat" where
  "family_count_of gen_count = (gen_count + kMaxChildren - 1) div kMaxChildren"

lemma family_count_less: "1 < n \<Longrightarrow> family_count_of n < n"
  by (simp add: family_count_of_def kMaxChildren_def)

function count_nodes :: "nat \<Rightarrow> nat \<Rightarrow> nat" where
  "count_nodes gen_count total_node_count =
     (if gen_count > 1 then count_nodes (family_count_of gen_count) (total_node_count + family_count_of gen_count)
      else total_node_count)"
  by pat_completeness auto

termination
  by (relation "measure fst") (simp_all add: family_count_less)

declare count_nodes.simps [simp del]

definition join_child :: "'q SkRect_api \<Rightarrow> 'q Node \<Rightarrow> 'q Node \<Rightarrow> 'q Node" where
  "join_child sr parent child =
     parent\<lparr>nd_bounds := sr_join sr (nd_bounds parent) (nd_bounds child),
       nd_union := (case nd_union parent of Node_child i n \<Rightarrow> Node_child i (n + 1) | Node_id i \<Rightarrow> Node_id i)\<rparr>"

text \<open>One generation: \<open>gen_end\<close> and \<open>family_count\<close> are fixed, \<open>parent\<close> is the index of the current parent.\<close>

function group_siblings ::
  "'q SkRect_api \<Rightarrow> nat \<Rightarrow> nat \<Rightarrow> nat \<Rightarrow> int \<Rightarrow> nat \<Rightarrow> nat option \<Rightarrow> 'q Node list \<Rightarrow> (int \<times> 'q Node list) result" where
  "group_siblings sr gen_count gen_end family_count D sibling_index parent nodes =
     (if sibling_index < gen_end then
        rbind
          (let D = D + int family_count
           in if D > 0 then
                require DcheckFailed (length nodes < gen_end + family_count)
                  (Inr (D - int gen_count, Some (length nodes),
                    nodes @ [\<lparr>nd_bounds = sr_MakeEmpty sr, nd_union = Node_child sibling_index 0\<rparr>]))
              else Inr (D, parent, nodes))
          (\<lambda>(D, parent, nodes).
            case parent of
              None \<Rightarrow> Inl DcheckFailed
            | Some i \<Rightarrow>
                group_siblings sr gen_count gen_end family_count D (sibling_index + 1) parent
                  (nodes[i := join_child sr (nodes ! i) (nodes ! sibling_index)]))
      else Inr (D, nodes))"
  by pat_completeness auto

termination
  by (relation "measure (\<lambda>(_, _, gen_end, _, _, sibling_index, _, _). gen_end - sibling_index)") auto

declare group_siblings.simps [simp del]

function build_generations ::
  "'q SkRect_api \<Rightarrow> nat \<Rightarrow> nat \<Rightarrow> nat \<Rightarrow> 'q Node list \<Rightarrow> 'q Node list result" where
  "build_generations sr total_node_count gen_start gen_count nodes =
     (if gen_count > 1 then
        let gen_end = gen_start + gen_count;
            family_count = family_count_of gen_count
        in require DcheckFailed (gen_end + family_count \<le> total_node_count)
          (rbind (group_siblings sr gen_count gen_end family_count 0 gen_start None nodes) (\<lambda>(D, nodes).
             require DcheckFailed (D = 0)
               (require DcheckFailed (length nodes = gen_end + family_count)
                 (build_generations sr total_node_count gen_end family_count nodes))))
      else require DcheckFailed (gen_start + gen_count = total_node_count) (Inr nodes))"
  by pat_completeness auto

termination
  by (relation "measure (\<lambda>(_, _, _, gen_count, _). gen_count)") (auto simp: family_count_less)

declare build_generations.simps [simp del]

definition DlRTree_new ::
  "'q SkRect_api \<Rightarrow> ('q \<times> int option) list \<Rightarrow> (int \<Rightarrow> bool) \<Rightarrow> int \<Rightarrow> 'q DlRTree result" where
  "DlRTree_new sr rects p invalid_id =
     (let t = \<lparr>rt_nodes = [], rt_leaf_count = 0, rt_invalid_id = invalid_id, rt_region = None\<rparr>
      in if rects = [] then Inr t
         else
           let leaf_count = leaf_count_of sr p rects;
               total_node_count = count_nodes leaf_count leaf_count;
               nodes = leaves_of sr p invalid_id rects
           in require DcheckFailed (length nodes = leaf_count)
                (rbind (build_generations sr total_node_count 0 leaf_count nodes) (\<lambda>nodes.
                   Inr (t\<lparr>rt_nodes := nodes, rt_leaf_count := leaf_count\<rparr>))))"

section \<open>Queries\<close>

definition rt_id :: "nat \<Rightarrow> 'q DlRTree \<Rightarrow> int result" where
  "rt_id i t =
     (if i < rt_leaf_count t then
        (case nd_union (rt_nodes t ! i) of Node_id j \<Rightarrow> Inr j | Node_child _ _ \<Rightarrow> Inl Undefined)
      else Inr (rt_invalid_id t))"

definition rt_bounds_at :: "'q SkRect_api \<Rightarrow> nat \<Rightarrow> 'q DlRTree \<Rightarrow> 'q" where
  "rt_bounds_at sr i t = (if i < rt_leaf_count t then nd_bounds (rt_nodes t ! i) else sr_MakeEmpty sr)"

definition rt_bounds :: "'q SkRect_api \<Rightarrow> 'q DlRTree \<Rightarrow> 'q" where
  "rt_bounds sr t = (if rt_nodes t \<noteq> [] then nd_bounds (last (rt_nodes t)) else sr_MakeEmpty sr)"

text \<open>The recursive search over the children from \<open>i\<close> to before \<open>e\<close>.\<close>

partial_function (option) search_children ::
  "'q SkRect_api \<Rightarrow> 'q DlRTree \<Rightarrow> 'q \<Rightarrow> nat \<Rightarrow> nat \<Rightarrow> nat list \<Rightarrow> nat list result option" where
  "search_children sr t query i e results =
     (if i < e then
        (if i \<ge> length (rt_nodes t) then Some (Inl Undefined)
         else if sr_intersects sr (nd_bounds (rt_nodes t ! i)) query then
           (if i < rt_leaf_count t then search_children sr t query (i + 1) e (results @ [i])
            else
              (case nd_union (rt_nodes t ! i) of
                 Node_id _ \<Rightarrow> Some (Inl Undefined)
               | Node_child s n \<Rightarrow>
                   Option.bind (search_children sr t query s (s + n) results) (\<lambda>r.
                     case r of Inl f \<Rightarrow> Some (Inl f) | Inr results \<Rightarrow> search_children sr t query (i + 1) e results)))
         else search_children sr t query (i + 1) e results)
      else Some (Inr results))"

declare search_children.simps [code]

definition search :: "'q SkRect_api \<Rightarrow> 'q \<Rightarrow> nat list \<Rightarrow> 'q DlRTree \<Rightarrow> nat list result option" where
  "search sr query results t =
     (if sr_isEmpty sr query then Some (Inr results)
      else if length (rt_nodes t) = 0 then Some (require DcheckFailed (rt_leaf_count t = 0) (Inr results))
      else
        let root = last (rt_nodes t)
        in if sr_intersects sr (nd_bounds root) query then
             (if length (rt_nodes t) = 1 then
                Some (require DcheckFailed (rt_leaf_count t = 1) (Inr (results @ [0])))
              else
                (case nd_union root of
                   Node_id _ \<Rightarrow> Some (Inl Undefined)
                 | Node_child s n \<Rightarrow> search_children sr t query s (s + n) results))
           else Some (Inr results))"

text \<open>A result of a computation that may not return.\<close>

definition obind :: "'a result option \<Rightarrow> ('a \<Rightarrow> 'b result option) \<Rightarrow> 'b result option" where
  "obind m f = Option.bind m (\<lambda>r. case r of Inl e \<Rightarrow> Some (Inl e) | Inr x \<Rightarrow> f x)"

lemma obind_Inr [simp]: "obind (Some (Inr x)) f = f x"
  by (simp add: obind_def)

definition searchAndConsolidateRects ::
  "'q SkRect_api \<Rightarrow> SkIRect_api \<Rightarrow> 'q \<Rightarrow> bool \<Rightarrow> 'q DlRTree \<Rightarrow> 'q list result option" where
  "searchAndConsolidateRects sr sk query deband t =
     obind (search sr query [] t) (\<lambda>intermediary_results.
       let rects = map (\<lambda>index. sr_roundOut sr (rt_bounds_at sr index t)) intermediary_results
       in obind (DlRegion_of_rects sk rects) (\<lambda>region.
          Some (rbind (getRects deband region) (\<lambda>non_overlapping_rects.
            Inr (map (sr_Make sr) non_overlapping_rects)))))"

definition rt_get_region :: "'q SkRect_api \<Rightarrow> SkIRect_api \<Rightarrow> 'q DlRTree \<Rightarrow> (DlRegion \<times> 'q DlRTree) result option" where
  "rt_get_region sr sk t =
     (case rt_region t of
        Some region \<Rightarrow> Some (Inr (region, t))
      | None \<Rightarrow>
          (let rects = map (\<lambda>i. sr_roundOut sr (nd_bounds (rt_nodes t ! i))) [0..<rt_leaf_count t]
           in obind (DlRegion_of_rects sk rects) (\<lambda>region. Some (Inr (region, t\<lparr>rt_region := Some region\<rparr>)))))"

definition rt_region_in ::
  "'q SkRect_api \<Rightarrow> SkIRect_api \<Rightarrow> 'q \<Rightarrow> 'q DlRTree \<Rightarrow> (DlRegion \<times> 'q DlRTree) result option" where
  "rt_region_in sr sk query t =
     obind (rt_get_region sr sk t) (\<lambda>(region, t).
       Some (rbind (DlRegion_of_rect (sr_roundOut sr query)) (\<lambda>q.
         rbind (MakeIntersection sk region q) (\<lambda>r. Inr (r, t)))))"

end
