(* ===== verification/Dl_RTree_Spec.thy ===== *)
theory Dl_RTree_Spec
  imports Dl_RTree Dl_Region_Props
begin

text \<open>
  The tree finds exactly the rectangles that meet a query, in the order in which they were given: one
  generation groups its siblings in order and covers their bounds, so the leaves below the root are all
  leaves, and pruning a branch loses no hit.
\<close>

section \<open>Rectangles\<close>

text \<open>
  What Skia documents of \<open>SkRect\<close>, over the points \<open>pts\<close> of a rectangle: an empty one has none, two
  intersect when they have a common point, and a join contains both.
\<close>

definition SkRect_docs :: "'q SkRect_api \<Rightarrow> ('q \<Rightarrow> 'p set) \<Rightarrow> bool" where
  "SkRect_docs sr pts \<longleftrightarrow>
     (\<forall>r. sr_isEmpty sr r \<longleftrightarrow> pts r = {}) \<and>
     (\<forall>a b. sr_intersects sr a b \<longleftrightarrow> pts a \<inter> pts b \<noteq> {}) \<and>
     (\<forall>a b. pts a \<union> pts b \<subseteq> pts (sr_join sr a b)) \<and>
     pts (sr_MakeEmpty sr) = {}"

section \<open>One generation\<close>

fun kids :: "Node_union \<Rightarrow> nat list" where
  "kids (Node_child s n) = [s..<s + n]"
| "kids (Node_id i) = []"

definition group_inv :: "('q \<Rightarrow> 'p set) \<Rightarrow> nat \<Rightarrow> 'q Node list \<Rightarrow> 'q Node list \<Rightarrow> nat \<Rightarrow> bool" where
  "group_inv pts gs old ps i \<longleftrightarrow>
     concat (map (kids \<circ> nd_union) ps) = [gs..<i] \<and>
     (\<forall>p\<in>set ps. (\<exists>s n. nd_union p = Node_child s n) \<and>
        (\<forall>k\<in>set (kids (nd_union p)). pts (nd_bounds (old ! k)) \<subseteq> pts (nd_bounds p))) \<and>
     (ps \<noteq> [] \<longrightarrow> (\<exists>s n. nd_union (last ps) = Node_child s n \<and> s + n = i))"

lemma group_inv_new:
  assumes "group_inv pts gs old ps i"
  shows "group_inv pts gs old (ps @ [\<lparr>nd_bounds = b, nd_union = Node_child i 0\<rparr>]) i"
  using assms by (auto simp: group_inv_def)

lemma group_inv_extend:
  assumes "SkRect_docs sr pts" "group_inv pts gs old (ps @ [p]) i" "gs \<le> i"
  shows "group_inv pts gs old (ps @ [join_child sr p (old ! i)]) (Suc i)"
proof -
  obtain s n where p: "nd_union p = Node_child s n" "s + n = i" using assms(2) by (auto simp: group_inv_def)
  have bounds: "pts (nd_bounds p) \<subseteq> pts (nd_bounds (join_child sr p (old ! i)))"
    "pts (nd_bounds (old ! i)) \<subseteq> pts (nd_bounds (join_child sr p (old ! i)))"
    using assms(1) by (auto simp: SkRect_docs_def join_child_def)
  have u: "nd_union (join_child sr p (old ! i)) = Node_child s (n + 1)" by (simp add: join_child_def p)
  have "kids (Node_child s (n + 1)) = kids (Node_child s n) @ [i]" using p(2) by simp
  with assms(2,3) bounds u p show ?thesis by (auto simp: group_inv_def)
qed

lemma group_siblings_ok:
  assumes docs: "SkRect_docs sr pts" and fam: "0 < fam" "fam \<le> gc"
    and "length old = gs + gc" "gs \<le> i" "i \<le> gs + gc" "group_inv pts gs old ps i"
    and "D = int (i - gs) * int fam - int (length ps) * int gc" "- int gc < D" "D \<le> 0"
    and "parent = (if ps = [] then None else Some (gs + gc + length ps - 1))"
  shows "\<exists>ps'. group_siblings sr gc (gs + gc) fam D i parent (old @ ps) = Inr (0, old @ ps') \<and>
    length ps' = fam \<and> group_inv pts gs old ps' (gs + gc)"
  using assms(4-)
proof (induction "gs + gc - i" arbitrary: i ps D parent)
  case 0
  then have i: "i = gs + gc" by simp
  with 0 have D: "D = int gc * (int fam - int (length ps))" by (simp add: algebra_simps)
  have "int fam - int (length ps) = 0"
  proof (rule ccontr)
    assume "int fam - int (length ps) \<noteq> 0"
    then consider "int fam - int (length ps) \<ge> 1" | "int fam - int (length ps) \<le> - 1" by linarith
    then show False
    proof cases
      case 1
      then have "int gc * 1 \<le> D" unfolding D by (intro mult_left_mono) auto
      with 0 fam show False by simp
    next
      case 2
      then have "D \<le> int gc * (- 1)" unfolding D by (intro mult_left_mono) auto
      with 0 show False by simp
    qed
  qed
  with 0 D i show ?case by (simp add: group_siblings.simps)
next
  case (Suc m)
  have i: "i < gs + gc" using Suc.hyps(2) by simp
  have old_i: "(old @ xs) ! i = old ! i" for xs using i Suc.prems(1) by (simp add: nth_append)
  show ?case
  proof (cases "D + int fam > 0")
    case True
    have "int (length ps) * int gc < int (Suc i - gs) * int fam"
      using True Suc.prems(2,5) by (simp add: algebra_simps of_nat_diff)
    also have "\<dots> \<le> int gc * int fam" using i by (intro mult_right_mono) auto
    finally have "int gc * int (length ps) < int gc * int fam" by (simp add: mult.commute)
    then have room: "length ps < fam" using fam by (simp only: mult_less_cancel_left of_nat_less_iff)
    define ps' where "ps' = ps @ [join_child sr \<lparr>nd_bounds = sr_MakeEmpty sr, nd_union = Node_child i 0\<rparr> (old ! i)]"
    have step: "group_siblings sr gc (gs + gc) fam D i parent (old @ ps) =
        group_siblings sr gc (gs + gc) fam (D + int fam - int gc) (i + 1) (Some (gs + gc + length ps)) (old @ ps')"
      using True i room Suc.prems(1) old_i
      by (subst group_siblings.simps) (simp add: ps'_def list_update_append nth_append)
    show ?thesis
      unfolding step
    proof (rule Suc.hyps(1))
      show "group_inv pts gs old ps' (i + 1)"
        using group_inv_extend [OF docs group_inv_new [OF Suc.prems(4)] Suc.prems(2)] by (simp add: ps'_def)
      show "D + int fam - int gc = int (i + 1 - gs) * int fam - int (length ps') * int gc"
        using Suc.prems(2,5) by (simp add: ps'_def algebra_simps of_nat_diff)
    qed (use Suc.prems Suc.hyps(2) True fam i in \<open>auto simp: ps'_def\<close>)
  next
    case False
    have "ps \<noteq> []"
    proof
      assume "ps = []"
      with Suc.prems(5,7) fam have "int (i - gs) * int fam \<le> 0" "int (i - gs) \<ge> 0" by simp_all
      with fam have "i = gs" using Suc.prems(2) by (simp add: mult_le_0_iff)
      with \<open>ps = []\<close> Suc.prems(5) False fam show False by simp
    qed
    then obtain qs p where ps: "ps = qs @ [p]" by (metis append_butlast_last_id)
    define ps' where "ps' = qs @ [join_child sr p (old ! i)]"
    have step: "group_siblings sr gc (gs + gc) fam D i parent (old @ ps) =
        group_siblings sr gc (gs + gc) fam (D + int fam) (i + 1) (Some (gs + gc + length qs)) (old @ ps')"
      using False i Suc.prems(1,8) old_i
      by (subst group_siblings.simps) (simp add: ps ps'_def list_update_append nth_append)
    show ?thesis
      unfolding step
    proof (rule Suc.hyps(1))
      show "group_inv pts gs old ps' (i + 1)"
        using group_inv_extend [OF docs _ Suc.prems(2)] Suc.prems(4) by (simp add: ps ps'_def)
      show "D + int fam = int (i + 1 - gs) * int fam - int (length ps') * int gc"
        using Suc.prems(2,5) by (simp add: ps ps'_def algebra_simps of_nat_diff)
    qed (use Suc.prems Suc.hyps(2) False i fam in \<open>auto simp: ps'_def\<close>)
  qed
qed

section \<open>The leaves below a node\<close>

inductive node_leaves :: "('q \<Rightarrow> 'p set) \<Rightarrow> 'q Node list \<Rightarrow> nat \<Rightarrow> nat \<Rightarrow> nat list \<Rightarrow> bool" for pts nodes lc where
  leaf: "k < lc \<Longrightarrow> k < length nodes \<Longrightarrow> node_leaves pts nodes lc k [k]"
| inner: "lc \<le> k \<Longrightarrow> k < length nodes \<Longrightarrow> nd_union (nodes ! k) = Node_child s n \<Longrightarrow>
    list_all2 (node_leaves pts nodes lc) [s..<s + n] Ls \<Longrightarrow>
    \<forall>l\<in>set (concat Ls). pts (nd_bounds (nodes ! l)) \<subseteq> pts (nd_bounds (nodes ! k)) \<Longrightarrow>
    node_leaves pts nodes lc k (concat Ls)"

lemma list_all2_right:
  assumes "list_all2 P xs ys" "y \<in> set ys"
  obtains x where "x \<in> set xs" "P x y"
proof -
  obtain i where "i < length ys" "y = ys ! i" using assms(2) by (auto simp: in_set_conv_nth)
  then show thesis using that [of "xs ! i"] assms(1) by (simp add: list_all2_conv_all_nth)
qed

lemma node_leaves_bounds:
  assumes "node_leaves pts nodes lc k L"
  shows "set L \<subseteq> {..<length nodes} \<and> (\<forall>l\<in>set L. pts (nd_bounds (nodes ! l)) \<subseteq> pts (nd_bounds (nodes ! k)))"
  using assms
proof (induction rule: node_leaves.induct)
  case (inner k s n Ls)
  have "set L \<subseteq> {..<length nodes}" if "L \<in> set Ls" for L
    by (rule list_all2_right [OF inner.IH that]) simp
  with inner.hyps(4) show ?case by fastforce
qed simp

lemma node_leaves_append:
  assumes "node_leaves pts nodes lc k L"
  shows "node_leaves pts (nodes @ xs) lc k L"
  using assms
proof (induction rule: node_leaves.induct)
  case (leaf k)
  then show ?case by (simp add: node_leaves.leaf)
next
  case (inner k s n Ls)
  have "set L \<subseteq> {..<length nodes}" if "L \<in> set Ls" for L
    by (rule list_all2_right [OF inner.IH that]) (use node_leaves_bounds in blast)
  then have "\<forall>l\<in>set (concat Ls). pts (nd_bounds ((nodes @ xs) ! l)) \<subseteq> pts (nd_bounds ((nodes @ xs) ! k))"
    using inner.hyps(2,4) by (fastforce simp: nth_append)
  moreover have "list_all2 (node_leaves pts (nodes @ xs) lc) [s..<s + n] Ls"
    using inner.IH by (rule list_all2_mono) simp
  ultimately show ?case
    using inner.hyps(1-3) by (intro node_leaves.inner [of _ _ _ s n]) (simp_all add: nth_append)
qed

text \<open>The parents of a generation have together the leaves of the generation.\<close>

lemma split_groups:
  "list_all2 P (concat (map f ps)) Ls \<Longrightarrow> \<exists>Gs. concat Gs = Ls \<and> list_all2 (\<lambda>p G. list_all2 P (f p) G) ps Gs"
proof (induction ps arbitrary: Ls)
  case (Cons p ps)
  then obtain G Ls' where "Ls = G @ Ls'" "list_all2 P (f p) G" "list_all2 P (concat (map f ps)) Ls'"
    by (auto simp: list_all2_append1)
  moreover from Cons.IH [OF this(3)] obtain Gs where "concat Gs = Ls'" "list_all2 (\<lambda>p G. list_all2 P (f p) G) ps Gs" by blast
  ultimately show ?case by (intro exI [of _ "G # Gs"]) simp
qed simp

lemma concat_map_concat: "concat (map concat Gs) = concat (concat Gs)"
  by (induction Gs) simp_all

lemma parents_leaves:
  assumes leaves: "list_all2 (node_leaves pts old lc) [gs..<i] Ls" and inv: "group_inv pts gs old ps i"
    and "lc \<le> length old" "i \<le> length old"
  shows "\<exists>Ms. list_all2 (node_leaves pts (old @ ps) lc) [length old..<length old + length ps] Ms \<and> concat Ms = concat Ls"
proof -
  have all: "list_all2 (node_leaves pts (old @ ps) lc) (concat (map (kids \<circ> nd_union) ps)) Ls"
  proof -
    have "concat (map (kids \<circ> nd_union) ps) = [gs..<i]" using inv by (simp add: group_inv_def)
    moreover have "list_all2 (node_leaves pts (old @ ps) lc) [gs..<i] Ls"
      using leaves by (rule list_all2_mono) (rule node_leaves_append)
    ultimately show ?thesis by simp
  qed
  from split_groups [OF all] obtain Gs where Gs: "concat Gs = Ls"
    "list_all2 (\<lambda>p G. list_all2 (node_leaves pts (old @ ps) lc) ((kids \<circ> nd_union) p) G) ps Gs" by blast
  have kid: "k < length old" if "p \<in> set ps" "k \<in> set (kids (nd_union p))" for p k
  proof -
    have "k \<in> set (concat (map (kids \<circ> nd_union) ps))" using that by auto
    also have "concat (map (kids \<circ> nd_union) ps) = [gs..<i]" using inv by (simp add: group_inv_def)
    finally show ?thesis using assms(4) by simp
  qed
  have "node_leaves pts (old @ ps) lc (length old + j) (concat (Gs ! j))" if j: "j < length ps" for j
  proof -
    obtain s n where u: "nd_union (ps ! j) = Node_child s n" using inv nth_mem [OF j] unfolding group_inv_def by blast
    have G: "list_all2 (node_leaves pts (old @ ps) lc) [s..<s + n] (Gs ! j)"
      using Gs(2) j u by (auto simp: list_all2_conv_all_nth)
    have "pts (nd_bounds ((old @ ps) ! l)) \<subseteq> pts (nd_bounds (ps ! j))" if l: "l \<in> set (concat (Gs ! j))" for l
    proof -
      obtain L where L: "L \<in> set (Gs ! j)" "l \<in> set L" using l by auto
      obtain k where k: "k \<in> set [s..<s + n]" "node_leaves pts (old @ ps) lc k L" by (rule list_all2_right [OF G L(1)])
      have "k < length old" "pts (nd_bounds (old ! k)) \<subseteq> pts (nd_bounds (ps ! j))"
        using kid [of "ps ! j" k] inv j k(1) u by (auto simp: group_inv_def)
      moreover have "pts (nd_bounds ((old @ ps) ! l)) \<subseteq> pts (nd_bounds ((old @ ps) ! k))"
        using node_leaves_bounds [OF k(2)] L(2) by blast
      ultimately show ?thesis by (simp add: nth_append)
    qed
    then show ?thesis
      using G assms(3) j u by (intro node_leaves.inner [of _ _ _ s n]) (auto simp: nth_append)
  qed
  moreover have "length Gs = length ps" using Gs(2) by (simp add: list_all2_conv_all_nth)
  ultimately have "list_all2 (node_leaves pts (old @ ps) lc) [length old..<length old + length ps] (map concat Gs)"
    by (simp add: list_all2_conv_all_nth)
  then show ?thesis using Gs(1) concat_map_concat by metis
qed

section \<open>All generations\<close>

lemma count_nodes_add: "count_nodes n (m + k) = count_nodes n m + k"
proof (induction n m arbitrary: k rule: count_nodes.induct)
  case (1 n m)
  show ?case
  proof (cases "n > 1")
    case True
    have "count_nodes n (m + k) = count_nodes (family_count_of n) (m + family_count_of n + k)"
      using True by (subst count_nodes.simps) (simp add: ac_simps)
    also have "\<dots> = count_nodes n m + k"
      using 1 [OF True, of k] True by (subst (2) count_nodes.simps) simp
    finally show ?thesis .
  qed (simp add: count_nodes.simps)
qed

lemma count_nodes_step: "1 < n \<Longrightarrow> count_nodes n n = n + count_nodes (family_count_of n) (family_count_of n)"
  using count_nodes_add [of "family_count_of n" "family_count_of n" n]
  by (subst count_nodes.simps) (simp add: add.commute)

lemma family_count_pos: "1 < n \<Longrightarrow> 0 < family_count_of n"
  by (simp add: family_count_of_def kMaxChildren_def div_greater_zero_iff)

definition tree_ok :: "('q \<Rightarrow> 'p set) \<Rightarrow> nat \<Rightarrow> 'q Node list \<Rightarrow> 'q Node list \<Rightarrow> bool" where
  "tree_ok pts lc leaves nodes \<longleftrightarrow>
     take lc nodes = leaves \<and> nodes \<noteq> [] \<and> node_leaves pts nodes lc (length nodes - 1) [0..<lc]"

lemma build_generations_ok:
  assumes "SkRect_docs sr pts" "0 < gc" "length nodes = gs + gc" "lc \<le> length nodes" "take lc nodes = leaves"
    and "list_all2 (node_leaves pts nodes lc) [gs..<gs + gc] Ls" "concat Ls = [0..<lc]"
    and "tot = gs + count_nodes gc gc"
  shows "\<exists>nodes'. build_generations sr tot gs gc nodes = Inr nodes' \<and> tree_ok pts lc leaves nodes' \<and> length nodes' = tot"
  using assms(2-)
proof (induction gc arbitrary: gs nodes Ls rule: less_induct)
  case (less gc)
  show ?case
  proof (cases "gc > 1")
    case True
    let ?fam = "family_count_of gc"
    note fam = family_count_pos [OF True] family_count_less [OF True]
    obtain ps where ps: "group_siblings sr gc (gs + gc) ?fam 0 gs None nodes = Inr (0, nodes @ ps)" "length ps = ?fam"
      "group_inv pts gs nodes ps (gs + gc)"
      using group_siblings_ok [OF assms(1) fam(1), of gc nodes gs gs "[]" 0 None] fam less.prems(2)
      by (auto simp: group_inv_def)
    obtain Ms where Ms: "list_all2 (node_leaves pts (nodes @ ps) lc) [length nodes..<length nodes + length ps] Ms" "concat Ms = concat Ls"
      using parents_leaves [OF less.prems(5) ps(3) less.prems(3)] less.prems(2) by auto
    have tot: "tot = gs + gc + count_nodes ?fam ?fam" using less.prems(7) count_nodes_step [OF True] by simp
    have bound: "?fam \<le> count_nodes ?fam ?fam" using count_nodes_add [of ?fam 0 ?fam] by simp
    have "\<exists>nodes'. build_generations sr tot (gs + gc) ?fam (nodes @ ps) = Inr nodes' \<and> tree_ok pts lc leaves nodes' \<and> length nodes' = tot"
      by (rule less.IH) (use fam ps(2) Ms less.prems tot in auto)
    then show ?thesis
      using True ps(1,2) less.prems(2) tot bound by (subst build_generations.simps) (simp add: Let_def)
  next
    case False
    then have gc: "gc = 1" using less.prems(1) by simp
    with less.prems(5,6) have "node_leaves pts nodes lc gs [0..<lc]" by (auto simp: list_all2_Cons1)
    moreover have "tot = gs + 1" using less.prems(7) gc by (simp add: count_nodes.simps)
    ultimately show ?thesis
      using gc less.prems by (subst build_generations.simps) (auto simp: tree_ok_def)
  qed
qed

lemma leaf_generation:
  assumes "length leaves = lc"
  shows "list_all2 (node_leaves pts leaves lc) [0..<lc] (map (\<lambda>k. [k]) [0..<lc])"
  using assms by (auto simp: list_all2_conv_all_nth intro: node_leaves.leaf)

section \<open>Search\<close>

lemma search_children_leaves:
  assumes docs: "SkRect_docs sr pts" and lc: "lc = rt_leaf_count t"
    and "list_all2 (\<lambda>k L. node_leaves pts (rt_nodes t) lc k L \<and>
      (lc \<le> k \<longrightarrow> (\<forall>s n res. nd_union (rt_nodes t ! k) = Node_child s n \<longrightarrow>
        search_children sr t query s (s + n) res =
          Some (Inr (res @ filter (\<lambda>l. sr_intersects sr (nd_bounds (rt_nodes t ! l)) query) L))))) [i..<e] Ls"
  shows "search_children sr t query i e res =
    Some (Inr (res @ filter (\<lambda>l. sr_intersects sr (nd_bounds (rt_nodes t ! l)) query) (concat Ls)))"
  using assms(3)
proof (induction Ls arbitrary: i res rule: list.induct)
  case Nil
  from list_all2_lengthD [OF this] have "\<not> i < e" by simp
  then show ?case by (subst search_children.simps) simp
next
  case (Cons L Ls)
  then have i: "i < e" by (cases "i < e") simp_all
  then have upt: "[i..<e] = i # [Suc i..<e]" by (rule upt_conv_Cons)
  have node: "node_leaves pts (rt_nodes t) lc i L" and rest: "list_all2 (\<lambda>k L. node_leaves pts (rt_nodes t) lc k L \<and>
      (lc \<le> k \<longrightarrow> (\<forall>s n res. nd_union (rt_nodes t ! k) = Node_child s n \<longrightarrow>
        search_children sr t query s (s + n) res =
          Some (Inr (res @ filter (\<lambda>l. sr_intersects sr (nd_bounds (rt_nodes t ! l)) query) L))))) [Suc i..<e] Ls"
    and below: "\<And>s n res. lc \<le> i \<Longrightarrow> nd_union (rt_nodes t ! i) = Node_child s n \<Longrightarrow> search_children sr t query s (s + n) res =
        Some (Inr (res @ filter (\<lambda>l. sr_intersects sr (nd_bounds (rt_nodes t ! l)) query) L))"
    using Cons.prems by (simp_all add: upt)
  note IH = Cons.IH [OF rest]
  have len: "i < length (rt_nodes t)" using node by (cases rule: node_leaves.cases) simp_all
  show ?case
  proof (cases "sr_intersects sr (nd_bounds (rt_nodes t ! i)) query")
    case False
    have "filter (\<lambda>l. sr_intersects sr (nd_bounds (rt_nodes t ! l)) query) L = []"
      using False node_leaves_bounds [OF node] docs by (auto simp: filter_empty_conv SkRect_docs_def)
    with False i len IH show ?thesis by (subst search_children.simps) simp
  next
    case True
    from node show ?thesis
    proof (cases rule: node_leaves.cases)
      case leaf
      with True i len IH lc show ?thesis by (subst search_children.simps) simp
    next
      case (inner s n Ls')
      with True i len IH lc below show ?thesis by (subst search_children.simps) simp
    qed
  qed
qed

lemma node_search:
  assumes docs: "SkRect_docs sr pts" and "lc = rt_leaf_count t" and "node_leaves pts (rt_nodes t) lc k L" "lc \<le> k"
    and "nd_union (rt_nodes t ! k) = Node_child s n"
  shows "search_children sr t query s (s + n) res =
    Some (Inr (res @ filter (\<lambda>l. sr_intersects sr (nd_bounds (rt_nodes t ! l)) query) L))"
  using assms(3-)
proof (induction arbitrary: s n res rule: node_leaves.induct)
  case (inner k s' n' Ls)
  then have "s' = s" "n' = n" by simp_all
  show ?case
    unfolding \<open>s' = s\<close> \<open>n' = n\<close>
    by (rule search_children_leaves [OF docs assms(2)])
      (rule list_all2_mono [OF inner.IH [unfolded \<open>s' = s\<close> \<open>n' = n\<close>]], simp)
qed simp

section \<open>The tree of a list of rectangles\<close>

definition is_tracked :: "'q SkRect_api \<Rightarrow> (int \<Rightarrow> bool) \<Rightarrow> 'q \<times> int option \<Rightarrow> bool" where
  "is_tracked sr p ri = (\<not> sr_isEmpty sr (fst ri) \<and> (case snd ri of None \<Rightarrow> True | Some j \<Rightarrow> p j))"

definition tracked :: "'q SkRect_api \<Rightarrow> (int \<Rightarrow> bool) \<Rightarrow> ('q \<times> int option) list \<Rightarrow> ('q \<times> int option) list" where
  "tracked sr p rects = filter (is_tracked sr p) rects"

definition leaf_id :: "int \<Rightarrow> 'q \<times> int option \<Rightarrow> int" where
  "leaf_id invalid_id ri = (case snd ri of None \<Rightarrow> invalid_id | Some j \<Rightarrow> j)"

lemma leaf_count_of_eq: "leaf_count_of sr p rects = length (tracked sr p rects)"
  by (induction sr p rects rule: leaf_count_of.induct) (simp_all add: tracked_def is_tracked_def)

lemma leaves_of_eq:
  "leaves_of sr p invalid_id rects =
     map (\<lambda>ri. \<lparr>nd_bounds = fst ri, nd_union = Node_id (leaf_id invalid_id ri)\<rparr>) (tracked sr p rects)"
  by (induction sr p invalid_id rects rule: leaves_of.induct) (simp_all add: tracked_def is_tracked_def leaf_id_def)

text \<open>A tree over \<open>rs\<close>: its leaves are these, and below its root are all leaves.\<close>

definition tree_of :: "('q \<Rightarrow> 'p set) \<Rightarrow> int \<Rightarrow> ('q \<times> int option) list \<Rightarrow> 'q DlRTree \<Rightarrow> bool" where
  "tree_of pts invalid_id rs t \<longleftrightarrow>
     rt_leaf_count t = length rs \<and> rt_region t = None \<and>
     take (length rs) (rt_nodes t) = map (\<lambda>ri. \<lparr>nd_bounds = fst ri, nd_union = Node_id (leaf_id invalid_id ri)\<rparr>) rs \<and>
     (rs = [] \<longrightarrow> rt_nodes t = []) \<and>
     (rs \<noteq> [] \<longrightarrow> rt_nodes t \<noteq> [] \<and> node_leaves pts (rt_nodes t) (length rs) (length (rt_nodes t) - 1) [0..<length rs]) \<and>
     (length rs > 1 \<longrightarrow> length (rt_nodes t) > length rs) \<and> (length rs = 1 \<longrightarrow> length (rt_nodes t) = 1)"

lemma DlRTree_new_ok:
  assumes "SkRect_docs sr pts"
  shows "\<exists>t. DlRTree_new sr rects p invalid_id = Inr t \<and> tree_of pts invalid_id (tracked sr p rects) t"
proof (cases "tracked sr p rects = []")
  case True
  then show ?thesis
    by (simp add: DlRTree_new_def leaf_count_of_eq leaves_of_eq tree_of_def build_generations.simps count_nodes.simps Let_def)
next
  case False
  let ?rs = "tracked sr p rects" let ?lc = "length ?rs" let ?leaves = "leaves_of sr p invalid_id rects"
  have len: "length ?leaves = ?lc" by (simp add: leaves_of_eq)
  obtain nodes where nodes: "build_generations sr (count_nodes ?lc ?lc) 0 ?lc ?leaves = Inr nodes"
    "tree_ok pts ?lc ?leaves nodes" "length nodes = count_nodes ?lc ?lc"
    using build_generations_ok [OF assms, of ?lc ?leaves 0 ?lc ?leaves "map (\<lambda>k. [k]) [0..<?lc]" "count_nodes ?lc ?lc"]
      leaf_generation [OF len, of pts] False len by (auto simp: concat_map_singleton)
  have "rects \<noteq> []" using False by (auto simp: tracked_def)
  have "length nodes > ?lc" if "?lc > 1"
    using nodes(3) count_nodes_step [OF that] count_nodes_add [of "family_count_of ?lc" 0 "family_count_of ?lc"]
      family_count_pos [OF that] by simp
  moreover have "length nodes = 1" if "?lc = 1" using nodes(3) that by (simp add: count_nodes.simps)
  ultimately show ?thesis
    using nodes(1,2) len \<open>rects \<noteq> []\<close> False
    by (simp add: DlRTree_new_def leaf_count_of_eq tree_of_def tree_ok_def leaves_of_eq Let_def)
qed

lemma tree_leaf:
  assumes "tree_of pts invalid_id rs t" "i < length rs"
  shows "rt_nodes t ! i = \<lparr>nd_bounds = fst (rs ! i), nd_union = Node_id (leaf_id invalid_id (rs ! i))\<rparr>"
proof -
  have "rt_nodes t ! i = take (length rs) (rt_nodes t) ! i" using assms(2) by simp
  also have "\<dots> = map (\<lambda>ri. \<lparr>nd_bounds = fst ri, nd_union = Node_id (leaf_id invalid_id ri)\<rparr>) rs ! i"
    using assms(1) by (simp add: tree_of_def)
  finally show ?thesis using assms(2) by simp
qed

definition hits :: "'q SkRect_api \<Rightarrow> 'q \<Rightarrow> ('q \<times> int option) list \<Rightarrow> nat list" where
  "hits sr query rs = filter (\<lambda>i. sr_intersects sr (fst (rs ! i)) query) [0..<length rs]"

lemma tree_search:
  assumes docs: "SkRect_docs sr pts" and t: "tree_of pts invalid_id rs t"
  shows "search sr query [] t = Some (Inr (hits sr query rs))"
proof -
  have leaf: "sr_intersects sr (nd_bounds (rt_nodes t ! i)) query \<longleftrightarrow> sr_intersects sr (fst (rs ! i)) query" if "i < length rs" for i
    using tree_leaf [OF t that] by simp
  have hits: "hits sr query rs = filter (\<lambda>i. sr_intersects sr (nd_bounds (rt_nodes t ! i)) query) [0..<length rs]"
    unfolding hits_def by (rule filter_cong) (simp_all add: leaf)
  consider "sr_isEmpty sr query" | "\<not> sr_isEmpty sr query" "rs = []" | "\<not> sr_isEmpty sr query" "length rs = 1"
    | "\<not> sr_isEmpty sr query" "length rs > 1" by (cases rs; cases "tl rs") auto
  then show ?thesis
  proof cases
    case 1
    with docs have "hits sr query rs = []" by (auto simp: hits_def filter_empty_conv SkRect_docs_def)
    with 1 show ?thesis by (simp add: search_def)
  next
    case 2
    with t show ?thesis by (simp add: search_def tree_of_def hits_def)
  next
    case 3
    with t have "length (rt_nodes t) = 1" "rt_leaf_count t = 1" by (simp_all add: tree_of_def)
    moreover from this have "last (rt_nodes t) = rt_nodes t ! 0" by (cases "rt_nodes t") auto
    ultimately show ?thesis using 3 hits by (auto simp: search_def)
  next
    case 4
    with t have root: "node_leaves pts (rt_nodes t) (length rs) (length (rt_nodes t) - 1) [0..<length rs]"
      "length (rt_nodes t) > length rs" "length rs = rt_leaf_count t" by (auto simp: tree_of_def)
    have ne: "rt_nodes t \<noteq> []" using root(2) by auto
    have last: "last (rt_nodes t) = rt_nodes t ! (length (rt_nodes t) - 1)" using root(2) by (intro last_conv_nth) auto
    from root(1) obtain s n where u: "nd_union (rt_nodes t ! (length (rt_nodes t) - 1)) = Node_child s n"
      using root(2) by (cases rule: node_leaves.cases) auto
    show ?thesis
    proof (cases "sr_intersects sr (nd_bounds (last (rt_nodes t))) query")
      case True
      then show ?thesis
        using node_search [OF docs root(3,1) _ u, of query "[]"] root(2) 4 u last hits ne by (simp add: search_def Let_def)
    next
      case False
      have "hits sr query rs = []"
        using False node_leaves_bounds [OF root(1)] docs unfolding hits last by (auto simp: filter_empty_conv SkRect_docs_def)
      with False root(2) 4 show ?thesis by (auto simp: search_def Let_def)
    qed
  qed
qed

lemma filter_positions: "map f (map ((!) xs) (filter (\<lambda>i. P (xs ! i)) [0..<length xs])) = map f (filter P xs)"
proof -
  have "map ((!) xs) (filter (P \<circ> (!) xs) [0..<length xs]) = filter P (map ((!) xs) [0..<length xs])"
    by (simp add: filter_map)
  then show ?thesis by (simp add: map_nth comp_def)
qed

section \<open>Properties\<close>

text \<open>
  C31: For every list of rectangles, optional ids and predicate, the constructor passes all its checks,
  and a search returns exactly the stored rectangles that intersect the query, with their ids, each
  once and in the order in which they were given; \<open>search\<close> always returns.
\<close>

theorem rtree_search_exact:
  assumes "SkRect_docs sr pts"
  shows "\<exists>t. DlRTree_new sr rects p invalid_id = Inr t \<and>
    (\<forall>query. \<exists>results. search sr query [] t = Some (Inr results) \<and> sorted_wrt (<) results \<and>
      map (\<lambda>i. (rt_bounds_at sr i t, rt_id i t)) results =
        map (\<lambda>ri. (fst ri, Inr (leaf_id invalid_id ri)))
          (filter (\<lambda>ri. is_tracked sr p ri \<and> sr_intersects sr (fst ri) query) rects))"
proof -
  obtain t where t: "DlRTree_new sr rects p invalid_id = Inr t" "tree_of pts invalid_id (tracked sr p rects) t"
    using DlRTree_new_ok [OF assms] by blast
  show ?thesis
  proof (intro exI conjI allI, rule t(1))
    fix query
    let ?rs = "tracked sr p rects"
    show "search sr query [] t = Some (Inr (hits sr query ?rs))" by (rule tree_search [OF assms t(2)])
    show "sorted_wrt (<) (hits sr query ?rs)" by (simp add: hits_def sorted_wrt_filter)
    have "map (\<lambda>i. (rt_bounds_at sr i t, rt_id i t)) (hits sr query ?rs) =
        map (\<lambda>i. (fst (?rs ! i), Inr (leaf_id invalid_id (?rs ! i)))) (hits sr query ?rs)"
      using t(2) tree_leaf [OF t(2)] by (auto simp: hits_def rt_bounds_at_def rt_id_def tree_of_def)
    also have "\<dots> = map (\<lambda>ri. (fst ri, Inr (leaf_id invalid_id ri))) (filter (\<lambda>ri. sr_intersects sr (fst ri) query) ?rs)"
      using filter_positions [of "\<lambda>ri. (fst ri, Inr (leaf_id invalid_id ri))" ?rs "\<lambda>ri. sr_intersects sr (fst ri) query"]
      by (simp add: hits_def comp_def)
    finally show "map (\<lambda>i. (rt_bounds_at sr i t, rt_id i t)) (hits sr query ?rs) =
        map (\<lambda>ri. (fst ri, Inr (leaf_id invalid_id ri)))
          (filter (\<lambda>ri. is_tracked sr p ri \<and> sr_intersects sr (fst ri) query) rects)"
      by (simp add: tracked_def conj_commute)
  qed
qed

definition rounded :: "'q SkRect_api \<Rightarrow> 'q \<times> int option \<Rightarrow> SkIRect" where
  "rounded sr ri = sr_roundOut sr (fst ri)"

text \<open>
  C32: \<open>searchAndConsolidateRects\<close> returns disjoint rectangles that cover exactly the points of the
  rounded-out rectangles that meet the query, provided each stored rectangle rounds out to a non-empty
  one.  The region of the tree covers exactly the rounded-out rectangles, and is computed once.
\<close>

theorem rtree_consolidated:
  assumes "SkRect_docs sr pts" "SkIRect_docs sk"
    and "\<forall>ri\<in>set rects. is_tracked sr p ri \<longrightarrow> \<not> rect_empty (rounded sr ri) \<and> kIntMin \<le> fTop (rounded sr ri)"
  shows "\<exists>t. DlRTree_new sr rects p invalid_id = Inr t \<and>
    (\<forall>query deband. \<exists>out. searchAndConsolidateRects sr sk query deband t = Some (Inr (map (sr_Make sr) out)) \<and>
      sorted_wrt apart out \<and>
      (\<forall>x y. rects_cover out x y \<longleftrightarrow>
        (\<exists>ri\<in>set rects. is_tracked sr p ri \<and> sr_intersects sr (fst ri) query \<and> in_rect (rounded sr ri) x y))) \<and>
    (\<exists>region. rt_get_region sr sk t = Some (Inr (region, t\<lparr>rt_region := Some region\<rparr>)) \<and> region_wf region \<and>
      rt_get_region sr sk (t\<lparr>rt_region := Some region\<rparr>) = Some (Inr (region, t\<lparr>rt_region := Some region\<rparr>)) \<and>
      (\<forall>x y. region_covers region x y \<longleftrightarrow> (\<exists>ri\<in>set rects. is_tracked sr p ri \<and> in_rect (rounded sr ri) x y)))"
proof -
  let ?rs = "tracked sr p rects"
  obtain t where t: "DlRTree_new sr rects p invalid_id = Inr t" "tree_of pts invalid_id ?rs t"
    using DlRTree_new_ok [OF assms(1)] by blast
  have ok: "\<forall>r\<in>rounded sr ` set ?rs. \<not> rect_empty r \<and> kIntMin \<le> fTop r"
    using assms(3) by (auto simp: tracked_def)
  have leaf_count: "rt_leaf_count t = length ?rs" "rt_region t = None" using t(2) by (simp_all add: tree_of_def)
  have bounds: "sr_roundOut sr (nd_bounds (rt_nodes t ! i)) = rounded sr (?rs ! i)" if "i < length ?rs" for i
    using tree_leaf [OF t(2) that] by (simp add: rounded_def)
  have consolidate: "\<exists>out. searchAndConsolidateRects sr sk query deband t = Some (Inr (map (sr_Make sr) out)) \<and>
      sorted_wrt apart out \<and>
      (\<forall>x y. rects_cover out x y \<longleftrightarrow>
        (\<exists>ri\<in>set rects. is_tracked sr p ri \<and> sr_intersects sr (fst ri) query \<and> in_rect (rounded sr ri) x y))" for query deband
  proof -
    let ?found = "map (rounded sr) (filter (\<lambda>ri. sr_intersects sr (fst ri) query) ?rs)"
    have found: "map (\<lambda>i. sr_roundOut sr (rt_bounds_at sr i t)) (hits sr query ?rs) = ?found"
    proof -
      have "sr_roundOut sr (rt_bounds_at sr i t) = rounded sr (?rs ! i)" if "i \<in> set (hits sr query ?rs)" for i
        using that bounds leaf_count by (simp add: hits_def rt_bounds_at_def)
      then have "map (\<lambda>i. sr_roundOut sr (rt_bounds_at sr i t)) (hits sr query ?rs) = map (\<lambda>i. rounded sr (?rs ! i)) (hits sr query ?rs)"
        by simp
      also have "\<dots> = ?found"
        using filter_positions [of "rounded sr" ?rs "\<lambda>ri. sr_intersects sr (fst ri) query"] by (simp add: hits_def comp_def)
      finally show ?thesis .
    qed
    obtain rg where rg: "DlRegion_of_rects sk ?found = Some (Inr rg)" "region_wf rg"
      "\<forall>x y. region_covers rg x y \<longleftrightarrow> rects_cover ?found x y"
      using of_rects_ok [OF assms(2), of ?found] ok by auto
    obtain out where "getRects deband rg = Inr out" "sorted_wrt apart out" "\<forall>x y. rects_cover out x y \<longleftrightarrow> region_covers rg x y"
      using getRects_ok [OF rg(2)] by blast
    moreover from this(1) have "searchAndConsolidateRects sr sk query deband t = Some (Inr (map (sr_Make sr) out))"
      using rg(1) found tree_search [OF assms(1) t(2), of query] by (simp add: searchAndConsolidateRects_def)
    moreover have "rects_cover ?found x y \<longleftrightarrow>
        (\<exists>ri\<in>set rects. is_tracked sr p ri \<and> sr_intersects sr (fst ri) query \<and> in_rect (rounded sr ri) x y)" for x y
      by (fastforce simp: rects_cover_def tracked_def)
    ultimately show ?thesis using rg(3) by auto
  qed
  have all: "map (\<lambda>i. sr_roundOut sr (nd_bounds (rt_nodes t ! i))) [0..<rt_leaf_count t] = map (rounded sr) ?rs"
    by (rule nth_equalityI) (simp_all add: leaf_count bounds)
  obtain rg where rg: "DlRegion_of_rects sk (map (rounded sr) ?rs) = Some (Inr rg)" "region_wf rg"
    "\<forall>x y. region_covers rg x y \<longleftrightarrow> rects_cover (map (rounded sr) ?rs) x y"
    using of_rects_ok [OF assms(2), of "map (rounded sr) ?rs"] ok by auto
  have "rt_get_region sr sk t = Some (Inr (rg, t\<lparr>rt_region := Some rg\<rparr>))"
    using all rg(1) by (simp add: rt_get_region_def leaf_count)
  moreover have "rt_get_region sr sk (t\<lparr>rt_region := Some rg\<rparr>) = Some (Inr (rg, t\<lparr>rt_region := Some rg\<rparr>))"
    by (simp add: rt_get_region_def)
  moreover have "\<forall>x y. region_covers rg x y \<longleftrightarrow> (\<exists>ri\<in>set rects. is_tracked sr p ri \<and> in_rect (rounded sr ri) x y)"
    using rg(3) by (fastforce simp: rects_cover_def tracked_def)
  ultimately show ?thesis using t(1) consolidate rg(2) by blast
qed

section \<open>An instance\<close>

definition demo_sr :: "SkIRect SkRect_api" where
  "demo_sr = \<lparr>sr_MakeEmpty = MakeEmpty, sr_isEmpty = rect_empty,
     sr_intersects = (\<lambda>a b. \<not> rect_empty (rect_meet a b)),
     sr_join = (\<lambda>a b. if rect_empty b then a else if rect_empty a then b else rect_hull a b),
     sr_roundOut = (\<lambda>r. r), sr_Make = (\<lambda>r. r)\<rparr>"

definition rect_points :: "SkIRect \<Rightarrow> (int \<times> int) set" where
  "rect_points r = {(x, y). in_rect r x y}"

lemma demo_sr_docs: "SkRect_docs demo_sr rect_points"
proof -
  have "rect_points a \<union> rect_points b \<subseteq> rect_points (rect_hull a b)" for a b
    by (auto simp: rect_points_def in_rect_def rect_hull_def)
  moreover have "rect_points r = {} \<longleftrightarrow> rect_empty r" for r
    by (auto simp: rect_points_def rect_empty_iff)
  moreover have "rect_points a \<inter> rect_points b \<noteq> {} \<longleftrightarrow> \<not> rect_empty (rect_meet a b)" for a b
    by (auto simp: rect_points_def rect_meet_empty)
  ultimately show ?thesis by (auto simp: SkRect_docs_def demo_sr_def rect_empty_def rect_points_def in_rect_def)
qed

definition demo_boxes :: "(SkIRect \<times> int option) list" where
  "demo_boxes = map (\<lambda>i. (MakeLTRB (10 * i) 0 (10 * i + 12) 5, Some i)) [0..13]"

lemma demo_boxes_found:
  "map (leaf_id (- 1)) (filter (\<lambda>ri. is_tracked demo_sr (\<lambda>i. i \<noteq> 2) ri \<and> sr_intersects demo_sr (fst ri) (MakeLTRB 18 1 45 2)) demo_boxes)
    = [1, 3, 4]"
  by code_simp

theorem rtree_search_exact_witness:
  "\<exists>t. DlRTree_new demo_sr demo_boxes (\<lambda>i. i \<noteq> 2) (- 1) = Inr t \<and>
    (\<exists>results. search demo_sr (MakeLTRB 18 1 45 2) [] t = Some (Inr results) \<and>
      map (\<lambda>i. rt_id i t) results = map Inr [1, 3, 4])"
proof -
  obtain t results where "DlRTree_new demo_sr demo_boxes (\<lambda>i. i \<noteq> 2) (- 1) = Inr t"
    "search demo_sr (MakeLTRB 18 1 45 2) [] t = Some (Inr results)"
    and eq: "map (\<lambda>i. (rt_bounds_at demo_sr i t, rt_id i t)) results = map (\<lambda>ri. (fst ri, Inr (leaf_id (- 1) ri)))
      (filter (\<lambda>ri. is_tracked demo_sr (\<lambda>i. i \<noteq> 2) ri \<and> sr_intersects demo_sr (fst ri) (MakeLTRB 18 1 45 2)) demo_boxes)"
    using rtree_search_exact [OF demo_sr_docs, of demo_boxes "\<lambda>i. i \<noteq> 2" "- 1"] by blast
  moreover from arg_cong [OF eq, of "map snd"] have "map (\<lambda>i. rt_id i t) results = map Inr [1, 3, 4]"
    unfolding demo_boxes_found [symmetric] by (simp add: comp_def)
  ultimately show ?thesis by blast
qed

lemma demo_boxes_ok:
  "\<forall>ri\<in>set demo_boxes. is_tracked demo_sr (\<lambda>i. True) ri \<longrightarrow> \<not> rect_empty (rounded demo_sr ri) \<and> kIntMin \<le> fTop (rounded demo_sr ri)"
  by (auto simp: demo_boxes_def rounded_def demo_sr_def rect_empty_def kIntMin_def)

theorem rtree_consolidated_witness:
  "\<exists>t. DlRTree_new demo_sr demo_boxes (\<lambda>i. True) (- 1) = Inr t \<and>
    (\<exists>out. searchAndConsolidateRects demo_sr demo_sk (MakeLTRB 18 1 45 2) True t = Some (Inr (map (sr_Make demo_sr) out)) \<and>
      sorted_wrt apart out)"
  using rtree_consolidated [OF demo_sr_docs demo_sk_docs demo_boxes_ok, of "- 1"] by blast

end
