(* ===== verification/Pointer_Dispatcher.thy ===== *)
theory Pointer_Dispatcher
  imports Vsync_Waiter
begin

text \<open>
  \<open>shell/common/pointer_data_dispatcher.cc\<close>: the dispatcher that smooths irregular input by keeping
  the last packet until the next vsync, on top of the vsync waiter of \<open>Vsync_Waiter\<close>, to which the engine
  forwards its secondary callbacks.  Packets are any type.  The packets that the engine dispatches are
  in \<open>pd_dispatched\<close>, oldest first, and the closures that a vsync signal posts to the UI thread in
  \<open>pd_posted\<close>.  Trace events are left out.
\<close>

section \<open>The dispatcher\<close>

datatype dispatcher_closure = Smooth_callback | Other_callback nat

record 'p SmoothPointerDataDispatcher =
  pd_pending_packet :: "'p option"
  pd_pending_trace_flow_id :: u32
  pd_is_pointer_data_in_progress :: bool
  pd_dispatched :: "('p \<times> u64) list"
  pd_waiter :: "(unit, dispatcher_closure) VsyncWaiter"
  pd_posted :: "dispatcher_closure list"

definition SmoothPointerDataDispatcher_new :: "'p SmoothPointerDataDispatcher" where
  "SmoothPointerDataDispatcher_new =
     \<lparr>pd_pending_packet = None, pd_pending_trace_flow_id = - 1, pd_is_pointer_data_in_progress = False,
      pd_dispatched = [], pd_waiter = VsyncWaiter_new, pd_posted = []\<rparr>"

definition Default_DispatchPacket :: "'p \<Rightarrow> u64 \<Rightarrow> 'p SmoothPointerDataDispatcher \<Rightarrow> 'p SmoothPointerDataDispatcher" where
  "Default_DispatchPacket packet trace_flow_id d = d\<lparr>pd_dispatched := pd_dispatched d @ [(packet, trace_flow_id)]\<rparr>"

text \<open>\<open>self\<close> is the address of the dispatcher.\<close>

definition Smooth_ScheduleSecondaryVsyncCallback ::
  "u64 \<Rightarrow> 'p SmoothPointerDataDispatcher \<Rightarrow> 'p SmoothPointerDataDispatcher result" where
  "Smooth_ScheduleSecondaryVsyncCallback self d =
     rbind (ScheduleSecondaryCallback True self (Some Smooth_callback) (pd_waiter d)) (\<lambda>(w, cs).
       Inr (d\<lparr>pd_waiter := w\<rparr>))"

text \<open>The stored flow id is an \<open>int\<close>; it is extended with its sign when it is passed on.\<close>

definition DispatchPendingPacket :: "u64 \<Rightarrow> 'p SmoothPointerDataDispatcher \<Rightarrow> 'p SmoothPointerDataDispatcher result" where
  "DispatchPendingPacket self d =
     (case pd_pending_packet d of
        None \<Rightarrow> Inl DcheckFailed
      | Some packet \<Rightarrow>
          require DcheckFailed (pd_is_pointer_data_in_progress d)
            (let d = Default_DispatchPacket packet (scast (pd_pending_trace_flow_id d)) d;
                 d = d\<lparr>pd_pending_packet := None, pd_pending_trace_flow_id := - 1\<rparr>
             in Smooth_ScheduleSecondaryVsyncCallback self d))"

definition Smooth_DispatchPacket ::
  "u64 \<Rightarrow> 'p \<Rightarrow> u64 \<Rightarrow> 'p SmoothPointerDataDispatcher \<Rightarrow> 'p SmoothPointerDataDispatcher result" where
  "Smooth_DispatchPacket self packet trace_flow_id d =
     rbind
       (if pd_is_pointer_data_in_progress d then
          rbind (if pd_pending_packet d \<noteq> None then DispatchPendingPacket self d else Inr d) (\<lambda>d.
            Inr (d\<lparr>pd_pending_packet := Some packet, pd_pending_trace_flow_id := ucast trace_flow_id\<rparr>))
        else
          require DcheckFailed (pd_pending_packet d = None)
            (Inr (Default_DispatchPacket packet trace_flow_id d))) (\<lambda>d.
       Smooth_ScheduleSecondaryVsyncCallback self (d\<lparr>pd_is_pointer_data_in_progress := True\<rparr>))"

text \<open>The closure that \<open>ScheduleSecondaryVsyncCallback\<close> registers.\<close>

definition smooth_callback :: "u64 \<Rightarrow> 'p SmoothPointerDataDispatcher \<Rightarrow> 'p SmoothPointerDataDispatcher result" where
  "smooth_callback self d =
     (if pd_is_pointer_data_in_progress d then
        if pd_pending_packet d \<noteq> None then DispatchPendingPacket self d
        else Inr (d\<lparr>pd_is_pointer_data_in_progress := False\<rparr>)
      else Inr d)"

section \<open>Executions\<close>

text \<open>Calls of the waiter by others, vsync signals and posted closures, in every order.\<close>

datatype 'p pd_action =
    Act_Dispatch 'p u64
  | Act_AwaitVSync
  | Act_OtherSecondary u64 nat
  | Act_Fire time_point time_point bool
  | Act_RunClosure nat

fun posted_by :: "(unit, dispatcher_closure) vsync_call list \<Rightarrow> dispatcher_closure list" where
  "posted_by [] = []"
| "posted_by (Post_closure k # cs) = k # posted_by cs"
| "posted_by (_ # cs) = posted_by cs"

fun pd_exec :: "u64 \<Rightarrow> 'p pd_action \<Rightarrow> 'p SmoothPointerDataDispatcher \<Rightarrow> 'p SmoothPointerDataDispatcher result" where
  "pd_exec self (Act_Dispatch packet i) d = Smooth_DispatchPacket self packet i d"
| "pd_exec self Act_AwaitVSync d = Inr (d\<lparr>pd_waiter := fst (AsyncWaitForVsync (Some ()) (pd_waiter d))\<rparr>)"
| "pd_exec self (Act_OtherSecondary i c) d =
     (if i = self then Inr d
      else rbind (ScheduleSecondaryCallback True i (Some (Other_callback c)) (pd_waiter d)) (\<lambda>(w, cs). Inr (d\<lparr>pd_waiter := w\<rparr>)))"
| "pd_exec self (Act_Fire s t p) d =
     rbind (FireCallback s s t p (pd_waiter d)) (\<lambda>(w, cs).
       Inr (d\<lparr>pd_waiter := w, pd_posted := pd_posted d @ posted_by cs\<rparr>))"
| "pd_exec self (Act_RunClosure j) d =
     (if j < length (pd_posted d) then
        let c = pd_posted d ! j;
            d = d\<lparr>pd_posted := take j (pd_posted d) @ drop (Suc j) (pd_posted d)\<rparr>
        in if c = Smooth_callback then smooth_callback self d else Inr d
      else Inr d)"

fun pd_run :: "u64 \<Rightarrow> 'p pd_action list \<Rightarrow> 'p SmoothPointerDataDispatcher \<Rightarrow> 'p SmoothPointerDataDispatcher result" where
  "pd_run self [] d = Inr d"
| "pd_run self (x # xs) d = rbind (pd_exec self x d) (pd_run self xs)"

fun received :: "'p pd_action list \<Rightarrow> 'p list" where
  "received [] = []"
| "received (Act_Dispatch p i # xs) = p # received xs"
| "received (_ # xs) = received xs"

definition pending_packets :: "'p SmoothPointerDataDispatcher \<Rightarrow> 'p list" where
  "pending_packets d = (case pd_pending_packet d of None \<Rightarrow> [] | Some p \<Rightarrow> [p])"

text \<open>The dispatcher will be called: its callback is registered, or posted already.\<close>

definition callback_due :: "u64 \<Rightarrow> 'p SmoothPointerDataDispatcher \<Rightarrow> bool" where
  "callback_due self d \<longleftrightarrow>
     map_of (vw_secondary_callbacks (pd_waiter d)) self = Some Smooth_callback \<or> Smooth_callback \<in> set (pd_posted d)"

section \<open>Invariant\<close>

definition only_smooth :: "u64 \<Rightarrow> (unit, dispatcher_closure) VsyncWaiter \<Rightarrow> bool" where
  "only_smooth self w \<longleftrightarrow> (\<forall>c. map_of (vw_secondary_callbacks w) self = Some c \<longrightarrow> c = Smooth_callback)"

definition pd_inv :: "u64 \<Rightarrow> 'p SmoothPointerDataDispatcher \<Rightarrow> bool" where
  "pd_inv self d \<longleftrightarrow>
     (pd_pending_packet d \<noteq> None \<longrightarrow> pd_is_pointer_data_in_progress d) \<and>
     (pd_is_pointer_data_in_progress d \<longrightarrow> callback_due self d) \<and> only_smooth self (pd_waiter d)"

lemma schedule_registers:
  assumes "only_smooth self (pd_waiter d)"
  obtains w where "Smooth_ScheduleSecondaryVsyncCallback self d = Inr (d\<lparr>pd_waiter := w\<rparr>)" "only_smooth self w"
    "map_of (vw_secondary_callbacks w) self = Some Smooth_callback"
proof (cases "map_of (vw_secondary_callbacks (pd_waiter d)) self")
  case None
  show ?thesis
    by (rule that [of "(pd_waiter d)\<lparr>vw_secondary_callbacks := vw_secondary_callbacks (pd_waiter d) @ [(self, Smooth_callback)]\<rparr>"])
      (use None in \<open>auto simp: Smooth_ScheduleSecondaryVsyncCallback_def ScheduleSecondaryCallback_def Let_def only_smooth_def map_add_def\<close>)
next
  case (Some c)
  show ?thesis
    by (rule that [of "pd_waiter d"])
      (use Some assms in \<open>auto simp: Smooth_ScheduleSecondaryVsyncCallback_def ScheduleSecondaryCallback_def Let_def only_smooth_def\<close>)
qed

lemma DispatchPending_inv:
  assumes "only_smooth self (pd_waiter d)" "pd_is_pointer_data_in_progress d" "pd_pending_packet d = Some p"
  obtains d' where "DispatchPendingPacket self d = Inr d'" "pd_inv self d'" "pd_pending_packet d' = None"
    "pd_dispatched d' = pd_dispatched d @ [(p, scast (pd_pending_trace_flow_id d))]"
    "pd_is_pointer_data_in_progress d'" "only_smooth self (pd_waiter d')"
proof -
  let ?d = "(Default_DispatchPacket p (scast (pd_pending_trace_flow_id d)) d)\<lparr>pd_pending_packet := None, pd_pending_trace_flow_id := - 1\<rparr>"
  have "only_smooth self (pd_waiter ?d)" using assms(1) by (simp add: Default_DispatchPacket_def)
  then obtain w where "Smooth_ScheduleSecondaryVsyncCallback self ?d = Inr (?d\<lparr>pd_waiter := w\<rparr>)" "only_smooth self w"
    "map_of (vw_secondary_callbacks w) self = Some Smooth_callback" by (rule schedule_registers)
  then show thesis
    using assms by (intro that [of "?d\<lparr>pd_waiter := w\<rparr>"])
      (auto simp: DispatchPendingPacket_def Let_def pd_inv_def callback_due_def Default_DispatchPacket_def)
qed

lemma Smooth_DispatchPacket_inv:
  assumes "pd_inv self d"
  obtains d' where "Smooth_DispatchPacket self packet i d = Inr d'" "pd_inv self d'"
    "map fst (pd_dispatched d') @ pending_packets d' = map fst (pd_dispatched d) @ pending_packets d @ [packet]"
proof -
  have only: "only_smooth self (pd_waiter d)" and none: "\<not> pd_is_pointer_data_in_progress d \<longrightarrow> pd_pending_packet d = None"
    using assms by (auto simp: pd_inv_def)
  consider "\<not> pd_is_pointer_data_in_progress d" | "pd_is_pointer_data_in_progress d" "pd_pending_packet d = None"
    | p where "pd_is_pointer_data_in_progress d" "pd_pending_packet d = Some p" by (cases "pd_pending_packet d") auto
  then obtain e where e: "(if pd_is_pointer_data_in_progress d then
        rbind (if pd_pending_packet d \<noteq> None then DispatchPendingPacket self d else Inr d) (\<lambda>d.
          Inr (d\<lparr>pd_pending_packet := Some packet, pd_pending_trace_flow_id := ucast i\<rparr>))
      else require DcheckFailed (pd_pending_packet d = None) (Inr (Default_DispatchPacket packet i d))) = Inr e"
    "only_smooth self (pd_waiter e)"
    "map fst (pd_dispatched e) @ pending_packets e = map fst (pd_dispatched d) @ pending_packets d @ [packet]"
  proof cases
    case 1
    then show thesis using only none
      by (intro that [of "Default_DispatchPacket packet i d"]) (auto simp: Default_DispatchPacket_def pending_packets_def)
  next
    case 2
    then show thesis using only
      by (intro that [of "d\<lparr>pd_pending_packet := Some packet, pd_pending_trace_flow_id := ucast i\<rparr>"])
        (auto simp: pending_packets_def)
  next
    case (3 p)
    obtain d' where "DispatchPendingPacket self d = Inr d'" "only_smooth self (pd_waiter d')"
      "pd_dispatched d' = pd_dispatched d @ [(p, scast (pd_pending_trace_flow_id d))]"
      by (rule DispatchPending_inv [OF only 3])
    then show thesis using 3
      by (intro that [of "d'\<lparr>pd_pending_packet := Some packet, pd_pending_trace_flow_id := ucast i\<rparr>"])
        (auto simp: pending_packets_def)
  qed
  let ?e = "e\<lparr>pd_is_pointer_data_in_progress := True\<rparr>"
  have "only_smooth self (pd_waiter ?e)" using e(2) by simp
  then obtain w where w: "Smooth_ScheduleSecondaryVsyncCallback self ?e = Inr (?e\<lparr>pd_waiter := w\<rparr>)" "only_smooth self w"
    "map_of (vw_secondary_callbacks w) self = Some Smooth_callback" by (rule schedule_registers)
  show thesis
    by (rule that [of "?e\<lparr>pd_waiter := w\<rparr>"])
      (use e w in \<open>simp_all add: Smooth_DispatchPacket_def pd_inv_def callback_due_def pending_packets_def cong: option.case_cong\<close>)
qed

text \<open>The callback at work, with its task taken off the posted ones.\<close>

lemma smooth_callback_inv:
  assumes "only_smooth self (pd_waiter d)" "pd_pending_packet d \<noteq> None \<longrightarrow> pd_is_pointer_data_in_progress d"
  obtains d' where "smooth_callback self d = Inr d'" "pd_inv self d'"
    "map fst (pd_dispatched d') @ pending_packets d' = map fst (pd_dispatched d) @ pending_packets d"
    "pd_pending_packet d' = None"
proof -
  consider "\<not> pd_is_pointer_data_in_progress d" | "pd_is_pointer_data_in_progress d" "pd_pending_packet d = None"
    | p where "pd_is_pointer_data_in_progress d" "pd_pending_packet d = Some p" by (cases "pd_pending_packet d") auto
  then show thesis
  proof cases
    case (3 p)
    obtain d' where "DispatchPendingPacket self d = Inr d'" "pd_inv self d'" "pd_pending_packet d' = None"
      "pd_dispatched d' = pd_dispatched d @ [(p, scast (pd_pending_trace_flow_id d))]"
      by (rule DispatchPending_inv [OF assms(1) 3])
    with 3 show thesis by (intro that [of d']) (auto simp: smooth_callback_def pending_packets_def)
  qed (use assms in \<open>auto intro!: that simp: smooth_callback_def pd_inv_def pending_packets_def\<close>)
qed

lemma posted_by_closures: "posted_by (map (Post_closure \<circ> f) cs) = map f cs"
  by (induction cs) simp_all

lemma Fire_posts:
  "\<exists>cs. FireCallback s s t p w = Inr (w\<lparr>vw_callback := None, vw_secondary_callbacks := []\<rparr>, cs) \<and>
     posted_by cs = map snd (vw_secondary_callbacks w)"
  by (auto simp: FireCallback_def Let_def posted_by_closures split: option.split)

lemma pd_exec_inv:
  assumes "pd_inv self d"
  obtains d' where "pd_exec self x d = Inr d'" "pd_inv self d'"
    "map fst (pd_dispatched d') @ pending_packets d' = map fst (pd_dispatched d) @ pending_packets d @ received [x]"
proof (cases x)
  case (Act_Dispatch p i)
  then show ?thesis using Smooth_DispatchPacket_inv [OF assms, of p i] that by auto
next
  case Act_AwaitVSync
  let ?w = "fst (AsyncWaitForVsync (Some ()) (pd_waiter d))"
  have "vw_secondary_callbacks ?w = vw_secondary_callbacks (pd_waiter d)" by (simp add: AsyncWaitForVsync_def Let_def)
  with Act_AwaitVSync assms show ?thesis
    by (intro that [of "d\<lparr>pd_waiter := ?w\<rparr>"]) (simp_all add: pd_inv_def callback_due_def only_smooth_def pending_packets_def)
next
  case (Act_OtherSecondary i c)
  show ?thesis
  proof (cases "i = self \<or> map_of (vw_secondary_callbacks (pd_waiter d)) i \<noteq> None")
    case True
    with Act_OtherSecondary assms show ?thesis
      by (intro that [of d]) (auto simp: ScheduleSecondaryCallback_def Let_def)
  next
    case False
    let ?w = "(pd_waiter d)\<lparr>vw_secondary_callbacks := vw_secondary_callbacks (pd_waiter d) @ [(i, Other_callback c)]\<rparr>"
    from False Act_OtherSecondary assms show ?thesis
      by (intro that [of "d\<lparr>pd_waiter := ?w\<rparr>"])
        (auto simp: ScheduleSecondaryCallback_def Let_def pd_inv_def callback_due_def only_smooth_def pending_packets_def map_add_def
          split: option.splits)
  qed
next
  case (Act_Fire s t p)
  obtain cs where cs: "FireCallback s s t p (pd_waiter d) =
      Inr ((pd_waiter d)\<lparr>vw_callback := None, vw_secondary_callbacks := []\<rparr>, cs)"
    "posted_by cs = map snd (vw_secondary_callbacks (pd_waiter d))" using Fire_posts by blast
  let ?d = "d\<lparr>pd_waiter := (pd_waiter d)\<lparr>vw_callback := None, vw_secondary_callbacks := []\<rparr>, pd_posted := pd_posted d @ posted_by cs\<rparr>"
  have "callback_due self d \<longrightarrow> callback_due self ?d"
    using cs(2) by (force simp: callback_due_def dest: map_of_SomeD)
  then show ?thesis
    by (intro that [of ?d]) (use Act_Fire cs assms in \<open>auto simp: pd_inv_def only_smooth_def pending_packets_def\<close>)
next
  case (Act_RunClosure j)
  let ?d = "d\<lparr>pd_posted := take j (pd_posted d) @ drop (Suc j) (pd_posted d)\<rparr>"
  consider "\<not> j < length (pd_posted d)" | "j < length (pd_posted d)" "pd_posted d ! j = Smooth_callback"
    | "j < length (pd_posted d)" "pd_posted d ! j \<noteq> Smooth_callback" by blast
  then show ?thesis
  proof cases
    case 2
    obtain d' where "smooth_callback self ?d = Inr d'" "pd_inv self d'"
      "map fst (pd_dispatched d') @ pending_packets d' = map fst (pd_dispatched ?d) @ pending_packets ?d"
      by (rule smooth_callback_inv [of self ?d]) (use assms in \<open>auto simp: pd_inv_def\<close>)
    with 2 Act_RunClosure show ?thesis by (intro that [of d']) (simp_all add: Let_def pending_packets_def)
  next
    case 3
    then have "Smooth_callback \<in> set (pd_posted d) \<longrightarrow> Smooth_callback \<in> set (pd_posted ?d)"
      using id_take_nth_drop [OF 3(1)] by (metis (no_types, lifting) Un_iff in_set_conv_decomp list.set_intros set_ConsD set_append
          SmoothPointerDataDispatcher.select_convs(6) SmoothPointerDataDispatcher.update_convs(6) SmoothPointerDataDispatcher.surjective)
    with 3 Act_RunClosure assms show ?thesis
      by (intro that [of ?d]) (auto simp: Let_def pd_inv_def callback_due_def pending_packets_def)
  qed (use Act_RunClosure assms that in auto)
qed

lemma received_Cons: "received (x # xs) = received [x] @ received xs"
  by (cases x) simp_all

lemma pd_run_inv:
  assumes "pd_inv self d"
  obtains d' where "pd_run self xs d = Inr d'" "pd_inv self d'"
    "map fst (pd_dispatched d') @ pending_packets d' = map fst (pd_dispatched d) @ pending_packets d @ received xs"
  using assms
proof (induction xs arbitrary: d thesis)
  case (Cons x xs)
  obtain e where "pd_exec self x d = Inr e" "pd_inv self e"
    "map fst (pd_dispatched e) @ pending_packets e = map fst (pd_dispatched d) @ pending_packets d @ received [x]"
    by (rule pd_exec_inv [OF Cons.prems(2)])
  moreover from Cons.IH [OF _ this(2)] obtain d' where "pd_run self xs e = Inr d'" "pd_inv self d'"
    "map fst (pd_dispatched d') @ pending_packets d' = (map fst (pd_dispatched e) @ pending_packets e) @ received xs"
    by auto
  ultimately show thesis by (intro Cons.prems(1) [of d']) (simp_all add: received_Cons [of x xs])
qed simp

lemma pd_inv_new: "pd_inv self SmoothPointerDataDispatcher_new"
  by (simp add: pd_inv_def SmoothPointerDataDispatcher_new_def callback_due_def only_smooth_def VsyncWaiter_new_def)

text \<open>
  C36: In every order of arriving packets, vsync signals, posted closures and other users of the vsync
  waiter, no check fails and every packet is dispatched exactly once and in the order of arrival: the
  dispatched packets, followed by the at most one that is kept back, are those received.  A kept packet
  never waits for further input: after the next vsync signal one of the posted closures dispatches it.
\<close>

theorem smooth_dispatch_in_order:
  "\<exists>d. pd_run self xs SmoothPointerDataDispatcher_new = Inr d \<and>
     map fst (pd_dispatched d) @ pending_packets d = received xs \<and>
     (\<forall>s t p. pd_pending_packet d \<noteq> None \<longrightarrow>
       (\<exists>j d'. pd_run self [Act_Fire s t p, Act_RunClosure j] d = Inr d' \<and> map fst (pd_dispatched d') = received xs))"
proof -
  obtain d where d: "pd_run self xs SmoothPointerDataDispatcher_new = Inr d" "pd_inv self d"
    "map fst (pd_dispatched d) @ pending_packets d = received xs"
    by (rule pd_run_inv [OF pd_inv_new, of self xs])
      (simp add: SmoothPointerDataDispatcher_new_def pending_packets_def)
  moreover have "\<exists>j d'. pd_run self [Act_Fire s t p, Act_RunClosure j] d = Inr d' \<and> map fst (pd_dispatched d') = received xs"
    if "pd_pending_packet d \<noteq> None" for s t p
  proof -
    have due: "callback_due self d" using d(2) that by (simp add: pd_inv_def)
    obtain e where e: "pd_exec self (Act_Fire s t p) d = Inr e" "pd_inv self e"
      "map fst (pd_dispatched e) @ pending_packets e = received xs"
      by (rule pd_exec_inv [OF d(2), of "Act_Fire s t p"]) (use d(3) in auto)
    have "Smooth_callback \<in> set (pd_posted e)"
      using e(1) due Fire_posts [of s t p "pd_waiter d"] by (force simp: callback_due_def dest: map_of_SomeD)
    then obtain j where j: "j < length (pd_posted e)" "pd_posted e ! j = Smooth_callback" by (auto simp: in_set_conv_nth)
    let ?e = "e\<lparr>pd_posted := take j (pd_posted e) @ drop (Suc j) (pd_posted e)\<rparr>"
    obtain d' where "smooth_callback self ?e = Inr d'" "pd_pending_packet d' = None"
      "map fst (pd_dispatched d') @ pending_packets d' = map fst (pd_dispatched ?e) @ pending_packets ?e"
      by (rule smooth_callback_inv [of self ?e]) (use e(2) in \<open>auto simp: pd_inv_def\<close>)
    with e j have "pd_run self [Act_Fire s t p, Act_RunClosure j] d = Inr d' \<and> map fst (pd_dispatched d') = received xs"
      by (simp add: Let_def pending_packets_def del: pd_exec.simps(4))
    then show ?thesis by blast
  qed
  ultimately show ?thesis by blast
qed

theorem smooth_dispatch_in_order_witness:
  "\<exists>d. pd_run 8 [Act_Dispatch (1 :: nat) 5, Act_Dispatch 2 6] SmoothPointerDataDispatcher_new = Inr d \<and>
     map fst (pd_dispatched d) = [1] \<and>
     (\<exists>j d'. pd_run 8 [Act_Fire 0 16 True, Act_RunClosure j] d = Inr d' \<and> map fst (pd_dispatched d') = [1, 2])"
proof -
  define d where "d = projr (pd_run 8 [Act_Dispatch (1 :: nat) 5, Act_Dispatch 2 6] SmoothPointerDataDispatcher_new)"
  obtain e where e: "pd_run 8 [Act_Dispatch (1 :: nat) 5, Act_Dispatch 2 6] SmoothPointerDataDispatcher_new = Inr e"
    "\<forall>s t p. pd_pending_packet e \<noteq> None \<longrightarrow>
       (\<exists>j d'. pd_run 8 [Act_Fire s t p, Act_RunClosure j] e = Inr d' \<and> map fst (pd_dispatched d') = received [Act_Dispatch (1 :: nat) 5, Act_Dispatch 2 6])"
    using smooth_dispatch_in_order [of 8 "[Act_Dispatch (1 :: nat) 5, Act_Dispatch 2 6]"] by blast
  have "e = d" using e(1) by (simp add: d_def del: pd_run.simps)
  moreover have "map fst (pd_dispatched d) = [1]" "pd_pending_packet d = Some 2" unfolding d_def by code_simp+
  ultimately show ?thesis using e by (auto simp del: pd_run.simps)
qed

text \<open>A kept flow id survives only when it fits into 31 bits.\<close>

lemma deferred_flow_id:
  "\<exists>d. pd_run 8 [Act_Dispatch (1 :: nat) 5, Act_Dispatch 2 0x180000000, Act_Dispatch 3 7] SmoothPointerDataDispatcher_new = Inr d \<and>
     pd_dispatched d = [(1, 5), (2, 0xFFFFFFFF80000000)]"
proof -
  let ?r = "pd_run 8 [Act_Dispatch (1 :: nat) 5, Act_Dispatch 2 0x180000000, Act_Dispatch 3 7] SmoothPointerDataDispatcher_new"
  obtain d where "?r = Inr d" by (rule pd_run_inv [OF pd_inv_new])
  moreover have "pd_dispatched (projr ?r) = [(1, 5), (2, 0xFFFFFFFF80000000)]" by code_simp
  ultimately show ?thesis by (metis sum.sel(2))
qed

end
