(* ===== verification/Base64.thy ===== *)
theory Base64
  imports Prelude
begin

text \<open>
  \<open>shell/common/base64.cc\<close>: the encoder and decoder of cached shaders and screenshots.  A source pointer
  is the list of bytes that can be read from it; a read past them is the fault \<open>OutOfRange\<close>.  A
  destination is the list of bytes written so far, and \<open>dst\<close> says whether the pointer is not null.
\<close>

unbundle bit_operations_syntax

section \<open>Tables\<close>

text \<open>The ASCII codes of \<open>A\<close> to \<open>Z\<close>, \<open>a\<close> to \<open>z\<close>, \<open>0\<close> to \<open>9\<close>, \<open>+\<close>, \<open>/\<close> and \<open>=\<close>.\<close>

definition kDefaultEncode :: "u8 list" where
  "kDefaultEncode = map word_of_nat ([65..<91] @ [97..<123] @ [48..<58] @ [43, 47, 61])"

definition DecodePad :: int where "DecodePad = - 2"
definition EncodePad :: nat where "EncodePad = 64"

definition kDecodeData :: "int list" where
  "kDecodeData =
    [62, -1, -1,        -1, 63, 52, 53, 54, 55, 56, 57, 58, 59, 60, 61, -1,
     -1, -1, DecodePad, -1, -1, -1, 0,  1,  2,  3,  4,  5,  6,  7,  8,  9,
     10, 11, 12,        13, 14, 15, 16, 17, 18, 19, 20, 21, 22, 23, 24, 25,
     -1, -1, -1,        -1, -1, -1, 26, 27, 28, 29, 30, 31, 32, 33, 34, 35,
     36, 37, 38,        39, 40, 41, 42, 43, 44, 45, 46, 47, 48, 49, 50, 51]"

datatype Base64_Error = kNone | kBadPadding | kBadChar

section \<open>Decoding\<close>

definition read_src :: "u8 list \<Rightarrow> nat \<Rightarrow> u8 result" where
  "read_src src p = (if p < length src then Inr (src ! p) else Inl OutOfRange)"

lemma rbind_cong [fundef_cong]:
  "m = m' \<Longrightarrow> (\<And>x. m' = Inr x \<Longrightarrow> f x = g x) \<Longrightarrow> rbind m f = rbind m' g"
  by (cases m') simp_all

text \<open>
  The inner loop fills \<open>bytes\<close> from position \<open>p\<close>; \<open>b\<close> is the number of characters it has.  It ends the
  decoding at a null byte or an error, or leaves the new position, the bytes and the two padding flags.
\<close>

datatype quad = Quad_return Base64_Error | Quad nat "u8 list" bool bool

definition pad_quad :: "nat \<Rightarrow> u8 list \<Rightarrow> nat \<Rightarrow> quad" where
  "pad_quad p bytes b = (if b < 2 then Quad_return kBadPadding else Quad p bytes (b = 2) True)"

function decode_quad :: "u8 list \<Rightarrow> nat \<Rightarrow> u8 list \<Rightarrow> nat \<Rightarrow> quad result" where
  "decode_quad src p bytes b =
     rbind (read_src src p) (\<lambda>srcByte.
       let p = p + 1
       in if srcByte = 0 then Inr (Quad_return kNone)
          else if srcByte \<le> 32 then decode_quad src p bytes b
          else if srcByte < 43 \<or> srcByte > 122 then Inr (Quad_return kBadChar)
          else
            let decoded = kDecodeData ! unat (srcByte - 43);
                bytes = bytes[b := word_of_int decoded]
            in if decoded \<noteq> DecodePad then
                 if decoded < 0 then Inr (Quad_return kBadChar)
                 else
                   let b = b + 1
                   in rbind (read_src src p) (\<lambda>following.
                        if following \<noteq> 0 then
                          if b < 4 then decode_quad src p bytes b else Inr (Quad p bytes False False)
                        else if b = 0 then Inr (Quad_return kNone)
                        else if b = 4 then Inr (Quad p bytes False False)
                        else Inr (pad_quad p bytes b))
               else Inr (pad_quad p bytes b))"
  by pat_completeness auto

termination
  by (relation "measure (\<lambda>(src, p, _, _). length src - p)") (auto simp: read_src_def split: if_splits)

declare decode_quad.simps [simp del]

definition quad_values :: "u8 list \<Rightarrow> u32 \<times> u32 \<times> u32" where
  "quad_values bytes =
     (let one = take_bit 8 (push_bit 2 (ucast (bytes ! 0)));
          two = ucast (bytes ! 1);
          one = one OR drop_bit 4 two;
          two = take_bit 8 (push_bit 4 two AND 0xFF);
          three = ucast (bytes ! 2);
          two = two OR drop_bit 2 three;
          three = take_bit 8 (push_bit 6 three AND 0xFF);
          three = three OR ucast (bytes ! 3)
      in (one, two, three))"

definition put_dst :: "bool \<Rightarrow> u32 \<Rightarrow> u8 list \<Rightarrow> u8 list" where
  "put_dst dst v out = (if dst then out @ [ucast v] else out)"

lemma decode_quad_progress:
  "decode_quad src p bytes b = Inr (Quad q bytes' t2 t3) \<Longrightarrow> p < q \<and> p < length src"
proof (induction src p bytes b rule: decode_quad.induct)
  case (1 src p bytes b)
  note step = 1(3) [unfolded decode_quad.simps [of src p]]
  from step obtain x where x: "read_src src p = Inr x" by (rule rbind_InrE)
  then have p: "p < length src" by (simp add: read_src_def split: if_splits)
  consider "x = 0" | "x \<noteq> 0" "x \<le> 32" | "x \<noteq> 0" "\<not> x \<le> 32" "x < 43 \<or> x > 122"
    | "x \<noteq> 0" "\<not> x \<le> 32" "\<not> (x < 43 \<or> x > 122)" by blast
  then show ?case
  proof cases
    case 2
    with 1(1) [OF x refl] step x show ?thesis by (simp add: Let_def p)
  next
    case 4
    let ?d = "kDecodeData ! unat (x - 43)"
    show ?thesis
    proof (cases "?d = DecodePad \<or> ?d < 0")
      case True
      with 4 step x p show ?thesis by (auto simp: Let_def pad_quad_def split: if_splits)
    next
      case False
      with 4 step x obtain y where y: "read_src src (p + 1) = Inr y" by (auto simp: Let_def)
      show ?thesis
      proof (cases "y \<noteq> 0 \<and> b + 1 < 4")
        case True
        with 1(2) [OF x refl _ _ _ refl refl _ _ refl y] 4 False step x y show ?thesis by (simp add: Let_def p)
      next
        case stop: False
        with 4 False step x y p show ?thesis by (auto simp: Let_def pad_quad_def split: if_splits)
      qed
    qed
  qed (use step x p in \<open>simp_all add: Let_def\<close>)
qed

text \<open>\<open>i\<close> counts the bytes of the result; the length is only stored when no error occurs.\<close>

function decode_loop ::
  "u8 list \<Rightarrow> nat \<Rightarrow> bool \<Rightarrow> nat \<Rightarrow> nat \<Rightarrow> u8 list \<Rightarrow> (Base64_Error \<times> u8 list \<times> nat option) result" where
  "decode_loop src src_end dst p i out =
     (if p < src_end then
        rbind (decode_quad src p [0, 0, 0, 0] 0) (\<lambda>q.
          case q of
            Quad_return e \<Rightarrow> Inr (e, out, if e = kNone then Some i else None)
          | Quad p bytes padTwo padThree \<Rightarrow>
              (let (one, two, three) = quad_values bytes
               in require DcheckFailed (dst \<longrightarrow> one < 256 \<and> two < 256 \<and> three < 256)
                 (let out = put_dst dst one out; i = i + 1
                  in if padTwo then Inr (kNone, out, Some i)
                     else
                       let out = put_dst dst two out; i = i + 1
                       in if padThree then Inr (kNone, out, Some i)
                          else decode_loop src src_end dst p (i + 1) (put_dst dst three out))))
      else Inr (kNone, out, Some i))"
  by pat_completeness auto

termination
proof (relation "measure (\<lambda>(_, src_end, _, p, _, _). src_end - p)", goal_cases)
  case (2 src src_end dst p i out q p' bytes padTwo padThree)
  then show ?case using decode_quad_progress [of src p "[0, 0, 0, 0]" 0 p' bytes padTwo padThree] by auto
qed simp

declare decode_loop.simps [simp del]

definition Base64_Decode :: "u8 list \<Rightarrow> nat \<Rightarrow> bool \<Rightarrow> (Base64_Error \<times> u8 list \<times> nat option) result" where
  "Base64_Decode src srcLength dst = decode_loop src srcLength dst 0 0 []"

section \<open>Encoding\<close>

definition EncodedSize :: "nat \<Rightarrow> nat" where
  "EncodedSize srcDataLength = (srcDataLength + 2) div 3 * 4"

definition encode_at :: "u32 \<Rightarrow> u8" where
  "encode_at k = kDefaultEncode ! unat k"

definition encode_triple :: "u8 \<Rightarrow> u8 \<Rightarrow> u8 \<Rightarrow> u8 list" where
  "encode_triple x y z =
     (let a = ucast x; b = ucast y; c = ucast z;
          d = c AND 0x3F;
          c = (drop_bit 6 c OR push_bit 2 b) AND 0x3F;
          b = (drop_bit 4 b OR push_bit 4 a) AND 0x3F;
          a = drop_bit 2 a
      in [encode_at a, encode_at b, encode_at c, encode_at d])"

fun encode_groups :: "u8 list \<Rightarrow> u8 list" where
  "encode_groups (x # y # z # src) = encode_triple x y z @ encode_groups src"
| "encode_groups _ = []"

definition encode_rest :: "u8 list \<Rightarrow> u8 list" where
  "encode_rest src =
     (case src of
        [] \<Rightarrow> []
      | x # src' \<Rightarrow>
          let a = ucast x;
              (k1, k2) = (case src' of
                 y # _ \<Rightarrow> (let b = ucast y in (drop_bit 4 b, push_bit 2 b AND 0x3F))
               | [] \<Rightarrow> (0, word_of_nat EncodePad))
          in [encode_at (drop_bit 2 a), encode_at ((k1 OR push_bit 4 a) AND 0x3F), encode_at k2, encode_at (word_of_nat EncodePad)])"

definition Base64_Encode :: "u8 list \<Rightarrow> nat \<times> u8 list" where
  "Base64_Encode src =
     (let remainder = length src mod 3;
          body = length src - remainder
      in (EncodedSize (length src),
          encode_groups (take body src) @ (if remainder > 0 then encode_rest (drop body src) else [])))"

section \<open>Characters\<close>

lemma encode_char_all:
  "list_all (\<lambda>s. let c = kDefaultEncode ! s in c \<noteq> 0 \<and> \<not> c \<le> 32 \<and> \<not> (c < 43 \<or> c > 122) \<and>
     kDecodeData ! unat (c - 43) = int s) [0..<64]"
  by code_simp

lemma pad_char: "kDefaultEncode ! 64 = 61" "kDecodeData ! 18 = DecodePad"
  by code_simp+

lemma encode_char:
  assumes "s < (64 :: u32)"
  shows "encode_at s \<noteq> 0" "\<not> encode_at s \<le> 32" "\<not> (encode_at s < 43 \<or> encode_at s > 122)"
    "kDecodeData ! unat (encode_at s - 43) = int (unat s)"
proof -
  have "unat s \<in> set [0..<64]" using assms by (simp add: word_less_nat_alt)
  with encode_char_all show "encode_at s \<noteq> 0" "\<not> encode_at s \<le> 32" "\<not> (encode_at s < 43 \<or> encode_at s > 122)"
    "kDecodeData ! unat (encode_at s - 43) = int (unat s)"
    unfolding list_all_iff encode_at_def Let_def by blast+
qed

lemma pad_nonzero: "(61 :: u8) \<noteq> 0"
  by code_simp

lemma encode_pad: "encode_at (word_of_nat EncodePad) = 61"
  by (simp add: encode_at_def EncodePad_def pad_char unat_of_nat)

text \<open>One step of the inner loop at the code of a six-bit value, and at a padding character.\<close>

lemma decode_quad_char:
  assumes "Suc p < length src" "src ! p = encode_at s" "s < 64"
  shows "b < 3 \<Longrightarrow> src ! Suc p \<noteq> 0 \<Longrightarrow>
      decode_quad src p bytes b = decode_quad src (Suc p) (bytes[b := ucast s]) (Suc b)"
    and "b = 3 \<Longrightarrow> decode_quad src p bytes b = Inr (Quad (Suc p) (bytes[b := ucast s]) False False)"
proof -
  have "read_src src p = Inr (encode_at s)" "read_src src (Suc p) = Inr (src ! Suc p)"
    using assms(1,2) by (simp_all add: read_src_def)
  moreover have "word_of_int (int (unat s)) = (ucast s :: u8)" by (simp only: ucast_eq uint_nat)
  moreover have "int (unat s) \<noteq> DecodePad" unfolding DecodePad_def by linarith
  ultimately have step: "decode_quad src p bytes b =
      (if src ! Suc p \<noteq> 0 then
         if Suc b < 4 then decode_quad src (Suc p) (bytes[b := ucast s]) (Suc b) else Inr (Quad (Suc p) (bytes[b := ucast s]) False False)
       else if Suc b = 4 then Inr (Quad (Suc p) (bytes[b := ucast s]) False False)
       else Inr (pad_quad (Suc p) (bytes[b := ucast s]) (Suc b)))"
    unfolding decode_quad.simps [of src p bytes b] using encode_char [OF assms(3)] by (simp add: Let_def)
  show "b < 3 \<Longrightarrow> src ! Suc p \<noteq> 0 \<Longrightarrow>
      decode_quad src p bytes b = decode_quad src (Suc p) (bytes[b := ucast s]) (Suc b)"
    by (simp add: step)
  show "b = 3 \<Longrightarrow> decode_quad src p bytes b = Inr (Quad (Suc p) (bytes[b := ucast s]) False False)"
    using step by simp
qed

lemma decode_quad_pad:
  assumes "p < length src" "src ! p = 61"
  shows "decode_quad src p bytes b = Inr (pad_quad (Suc p) (bytes[b := - 2]) b)"
  using assms pad_char by (subst decode_quad.simps) (simp add: read_src_def Let_def DecodePad_def)

text \<open>Four codes, three codes and a padding character, two codes and a padding character.\<close>

lemma decode_quad_full:
  assumes "drop p src = encode_at s0 # encode_at s1 # encode_at s2 # encode_at s3 # t # rest"
    and "s0 < 64" "s1 < 64" "s2 < 64" "s3 < 64"
  shows "decode_quad src p [0, 0, 0, 0] 0 = Inr (Quad (p + 4) [ucast s0, ucast s1, ucast s2, ucast s3] False False)"
proof -
  have len: "p + 4 < length src" using arg_cong [OF assms(1), of length] by simp
  have nth: "src ! (p + k) = (encode_at s0 # encode_at s1 # encode_at s2 # encode_at s3 # t # rest) ! k" if "k < 5" for k
    using that len arg_cong [OF assms(1), of "\<lambda>xs. xs ! k"] by simp
  show ?thesis
    using len nth [of 0] nth [of "Suc 0"] nth [of "Suc (Suc 0)"] nth [of "Suc (Suc (Suc 0))"] assms(2-5)
    by (simp add: decode_quad_char encode_char)
qed

lemma decode_quad_three:
  assumes "drop p src = encode_at s0 # encode_at s1 # encode_at s2 # 61 # rest" "s0 < 64" "s1 < 64" "s2 < 64"
  shows "decode_quad src p [0, 0, 0, 0] 0 = Inr (Quad (p + 4) [ucast s0, ucast s1, ucast s2, - 2] False True)"
proof -
  have len: "p + 3 < length src" using arg_cong [OF assms(1), of length] by simp
  have nth: "src ! (p + k) = (encode_at s0 # encode_at s1 # encode_at s2 # 61 # rest) ! k" if "k < 4" for k
    using that len arg_cong [OF assms(1), of "\<lambda>xs. xs ! k"] by simp
  show ?thesis
    using len nth [of 0] nth [of "Suc 0"] nth [of "Suc (Suc 0)"] nth [of "Suc (Suc (Suc 0))"] assms(2-4)
    by (simp add: decode_quad_char decode_quad_pad encode_char pad_quad_def pad_nonzero)
qed

lemma decode_quad_two:
  assumes "drop p src = encode_at s0 # encode_at s1 # 61 # rest" "s0 < 64" "s1 < 64"
  shows "decode_quad src p [0, 0, 0, 0] 0 = Inr (Quad (p + 3) [ucast s0, ucast s1, - 2, 0] True True)"
proof -
  have len: "p + 2 < length src" using arg_cong [OF assms(1), of length] by simp
  have nth: "src ! (p + k) = (encode_at s0 # encode_at s1 # 61 # rest) ! k" if "k < 3" for k
    using that len arg_cong [OF assms(1), of "\<lambda>xs. xs ! k"] by simp
  show ?thesis
    using len nth [of 0] nth [of "Suc 0"] nth [of "Suc (Suc 0)"] assms(2-3)
    by (simp add: decode_quad_char decode_quad_pad encode_char pad_quad_def pad_nonzero)
qed

section \<open>Bits\<close>

text \<open>The four six-bit values of three bytes.\<close>

definition sextet0 :: "u8 \<Rightarrow> u32" where "sextet0 x = drop_bit 2 (ucast x)"
definition sextet1 :: "u8 \<Rightarrow> u8 \<Rightarrow> u32" where "sextet1 x y = (drop_bit 4 (ucast y) OR push_bit 4 (ucast x)) AND 0x3F"
definition sextet2 :: "u8 \<Rightarrow> u8 \<Rightarrow> u32" where "sextet2 y z = (drop_bit 6 (ucast z) OR push_bit 2 (ucast y)) AND 0x3F"
definition sextet3 :: "u8 \<Rightarrow> u32" where "sextet3 z = ucast z AND 0x3F"

lemma mask6: "0x3F = (mask 6 :: u32)"
  by (simp add: mask_eq_exp_minus_1)

lemma mask8: "0xFF = (mask 8 :: u32)"
  by (simp add: mask_eq_exp_minus_1)

lemmas bits = bit_or_iff bit_and_iff bit_take_bit_iff bit_push_bit_iff bit_drop_bit_eq bit_unsigned_iff bit_mask_iff

lemma sextet_less: "sextet0 x < 64" "sextet1 x y < 64" "sextet2 y z < 64" "sextet3 z < 64"
proof -
  have small: "w AND 0x3F < 64" for w :: u32
    using and_mask_less' [of 6 w] by (simp add: mask6)
  have "sextet0 x = sextet0 x AND 0x3F"
    unfolding sextet0_def mask6 by (rule bit_word_eqI) (auto simp: bits dest: bit_imp_le_length)
  with small show "sextet0 x < 64" by metis
  show "sextet1 x y < 64" "sextet2 y z < 64" "sextet3 z < 64"
    by (simp_all only: sextet1_def sextet2_def sextet3_def small)
qed

lemma byte_one:
  "take_bit 8 (push_bit 2 (ucast (ucast (sextet0 x) :: u8))) OR drop_bit 4 (ucast (ucast (sextet1 x y) :: u8)) = (ucast x :: u32)"
proof -
  have "Suc (Suc (n - 2)) = n" if "2 \<le> n" for n using that by simp
  then show ?thesis
    unfolding sextet0_def sextet1_def mask6 by (intro bit_word_eqI) (auto simp: bits dest: bit_imp_le_length)
qed

lemma byte_two:
  "take_bit 8 (push_bit 4 (ucast (ucast (sextet1 x y) :: u8)) AND 0xFF) OR drop_bit 2 (ucast (ucast (sextet2 y z) :: u8)) = (ucast y :: u32)"
  unfolding sextet1_def sextet2_def mask6 mask8
  by (rule bit_word_eqI) (auto simp: bits dest: bit_imp_le_length)

lemma byte_three:
  "take_bit 8 (push_bit 6 (ucast (ucast (sextet2 y z) :: u8)) AND 0xFF) OR ucast (ucast (sextet3 z) :: u8) = (ucast z :: u32)"
  unfolding sextet2_def sextet3_def mask6 mask8
  by (rule bit_word_eqI) (auto simp: bits dest: bit_imp_le_length)

section \<open>Round trip\<close>

lemma encode_triple_sextets:
  "encode_triple x y z = map encode_at [sextet0 x, sextet1 x y, sextet2 y z, sextet3 z]"
  by (simp add: encode_triple_def Let_def sextet0_def sextet1_def sextet2_def sextet3_def)

lemma encode_rest_sextets:
  "encode_rest [x] = map encode_at [sextet0 x, sextet1 x 0] @ [61, 61]"
  "encode_rest [x, y] = map encode_at [sextet0 x, sextet1 x y, sextet2 y 0] @ [61]"
  by (simp_all add: encode_rest_def Let_def sextet0_def sextet1_def sextet2_def encode_pad)

lemma quad_values_less:
  "quad_values bytes = (one, two, three) \<Longrightarrow> one < 256 \<and> two < 256 \<and> three < 256"
proof -
  have less: "w < 256" if "take_bit 8 w = w" for w :: u32
    using that and_mask_less' [of 8 w] by (simp add: take_bit_eq_mask)
  assume "quad_values bytes = (one, two, three)"
  then show ?thesis
    by (auto simp: quad_values_def Let_def intro!: less bit_word_eqI)
      (auto simp: bits dest: bit_imp_le_length)
qed

lemma quad_values_triple:
  "quad_values [ucast (sextet0 x), ucast (sextet1 x y), ucast (sextet2 y z), ucast (sextet3 z)] = (ucast x, ucast y, ucast z)"
  by (simp add: quad_values_def Let_def byte_one byte_two byte_three del: take_bit_and)

lemma quad_values_pair:
  "\<exists>w. quad_values [ucast (sextet0 x), ucast (sextet1 x y), ucast (sextet2 y 0), - 2] = (ucast x, ucast y, w)"
  by (simp add: quad_values_def Let_def byte_one byte_two del: take_bit_and)

lemma quad_values_single:
  "\<exists>v w. quad_values [ucast (sextet0 x), ucast (sextet1 x 0), - 2, 0] = (ucast x, v, w)"
  by (simp add: quad_values_def Let_def byte_one)

lemma put_ucast [simp]: "put_dst dst (ucast x) out = (if dst then out @ [x] else out)"
proof -
  have "ucast (ucast x :: u32) = x" by (rule bit_word_eqI) (simp add: bit_unsigned_iff)
  then show ?thesis by (simp add: put_dst_def)
qed

lemma decode_loop_triple:
  assumes "drop p src = encode_triple x y z @ t # rest" "p < src_end"
  shows "decode_loop src src_end dst p i out =
    decode_loop src src_end dst (p + 4) (i + 3) (if dst then out @ [x, y, z] else out)"
proof -
  have "decode_quad src p [0, 0, 0, 0] 0 =
      Inr (Quad (p + 4) [ucast (sextet0 x), ucast (sextet1 x y), ucast (sextet2 y z), ucast (sextet3 z)] False False)"
    by (rule decode_quad_full) (use assms(1) sextet_less in \<open>simp_all add: encode_triple_sextets\<close>)
  moreover note quad_values_less [OF quad_values_triple]
  ultimately show ?thesis
    using assms(2) by (subst decode_loop.simps) (simp add: quad_values_triple Let_def numeral_3_eq_3)
qed

lemma decode_loop_groups:
  assumes "drop p src = encode_groups bs @ t # rest" "length bs mod 3 = 0" "p + length (encode_groups bs) \<le> src_end"
  shows "decode_loop src src_end dst p i out =
    decode_loop src src_end dst (p + length (encode_groups bs)) (i + length bs) (if dst then out @ bs else out)"
  using assms
proof (induction bs arbitrary: p i out rule: encode_groups.induct)
  case (1 x y z bs)
  obtain t' rest' where next_group: "encode_groups bs @ t # rest = t' # rest'" by (cases "encode_groups bs @ t # rest") auto
  have len: "length (encode_triple x y z) = 4" by (simp add: encode_triple_sextets)
  have "decode_loop src src_end dst p i out =
      decode_loop src src_end dst (p + 4) (i + 3) (if dst then out @ [x, y, z] else out)"
    by (rule decode_loop_triple [where t = t' and rest = rest']) (use 1(2,4) next_group len in simp_all)
  moreover have "drop (p + 4) src = encode_groups bs @ t # rest"
    using arg_cong [OF 1(2), of "drop 4"] by (simp add: len add.commute)
  moreover have "length bs mod 3 = 0" using 1(3) by (metis length_Cons mod_add_self1 numeral_3_eq_3 plus_nat.simps(1,2))
  moreover have "p + length (encode_groups (x # y # z # bs)) = p + 4 + length (encode_groups bs)"
    "i + length (x # y # z # bs) = i + 3 + length bs" by (simp_all add: len)
  moreover have "p + 4 + length (encode_groups bs) \<le> src_end" using 1(4) by (simp add: len)
  ultimately show ?case
    using 1(1) [of "p + 4" "i + 3" "if dst then out @ [x, y, z] else out"] by (simp only:) simp
qed simp_all

lemma length_encode_groups: "length (encode_groups bs) = length bs div 3 * 4"
proof (induction bs rule: encode_groups.induct)
  case (1 x y z bs)
  have "length (x # y # z # bs) div 3 = Suc (length bs div 3)" by simp
  with 1 show ?case by (simp add: encode_triple_sextets)
qed simp_all

lemma decode_loop_rest:
  assumes "drop p src = encode_rest bs @ rest" "length bs = 1 \<or> length bs = 2" "p < src_end"
  shows "decode_loop src src_end dst p i out = Inr (kNone, if dst then out @ bs else out, Some (i + length bs))"
proof -
  consider x where "bs = [x]" | x y where "bs = [x, y]"
    using assms(2) by (auto simp: length_Suc_conv numeral_2_eq_2)
  then show ?thesis
  proof cases
    case 1
    obtain v w where q: "quad_values [ucast (sextet0 x), ucast (sextet1 x 0), - 2, 0] = (ucast x, v, w)"
      using quad_values_single by blast
    have "decode_quad src p [0, 0, 0, 0] 0 = Inr (Quad (p + 3) [ucast (sextet0 x), ucast (sextet1 x 0), - 2, 0] True True)"
      by (rule decode_quad_two [where rest = "61 # rest"]) (use assms(1) 1 sextet_less in \<open>simp_all add: encode_rest_sextets\<close>)
    with q quad_values_less [OF q] assms(3) 1 show ?thesis by (subst decode_loop.simps) (simp add: Let_def)
  next
    case 2
    obtain w where q: "quad_values [ucast (sextet0 x), ucast (sextet1 x y), ucast (sextet2 y 0), - 2] = (ucast x, ucast y, w)"
      using quad_values_pair by blast
    have "decode_quad src p [0, 0, 0, 0] 0 =
        Inr (Quad (p + 4) [ucast (sextet0 x), ucast (sextet1 x y), ucast (sextet2 y 0), - 2] False True)"
      by (rule decode_quad_three [where rest = rest]) (use assms(1) 2 sextet_less in \<open>simp_all add: encode_rest_sextets\<close>)
    with q quad_values_less [OF q] assms(3) 2 show ?thesis by (subst decode_loop.simps) (simp add: Let_def)
  qed
qed

lemma encode_split:
  fixes src :: "u8 list"
  defines "body \<equiv> length src - length src mod 3"
  shows "length (take body src) mod 3 = 0" "length (drop body src) = length src mod 3"
    "take body src @ drop body src = src"
proof -
  have "body mod 3 = 0" "body \<le> length src" "length src - body = length src mod 3"
    unfolding body_def by presburger+
  then show "length (take body src) mod 3 = 0" "length (drop body src) = length src mod 3" by simp_all
qed simp

lemma length_encode_rest: "xs \<noteq> [] \<Longrightarrow> length (encode_rest xs) = 4"
  by (cases xs) (simp_all add: encode_rest_def Let_def split: prod.split)

lemma length_Encode: "length (snd (Base64_Encode src)) = EncodedSize (length src)"
proof -
  let ?n = "length src"
  have "?n mod 3 = 0 \<or> ?n mod 3 = 1 \<or> ?n mod 3 = 2" by presburger
  moreover have "(?n + 2) div 3 = ?n div 3 + (if ?n mod 3 = 0 then 0 else 1)" by presburger
  moreover have "(?n - ?n mod 3) div 3 = ?n div 3" by presburger
  ultimately show ?thesis
    using encode_split(2) [of src] length_encode_rest [of "drop (?n - ?n mod 3) src"]
    by (auto simp: Base64_Encode_def Let_def EncodedSize_def length_encode_groups)
qed

text \<open>
  C34: Decoding the encoding of any bytes gives the bytes back, and the encoding has the length that
  \<open>EncodedSize\<close> promises.  The decoder needs one readable byte after the encoded text (such as the null
  byte of a C string): it looks at the character after the one it decodes.
\<close>

theorem base64_roundtrip:
  assumes "rest \<noteq> []"
  shows "fst (Base64_Encode src) = length (snd (Base64_Encode src)) \<and>
    Base64_Decode (snd (Base64_Encode src) @ rest) (length (snd (Base64_Encode src))) dst =
      Inr (kNone, if dst then src else [], Some (length src))"
proof
  define body tl where "body = take (length src - length src mod 3) src" and "tl = drop (length src - length src mod 3) src"
  have src: "src = body @ tl" and body: "length body mod 3 = 0" and tl: "length tl = length src mod 3"
    using encode_split [of src] by (simp_all add: body_def tl_def)
  define tail where "tail = (if length src mod 3 > 0 then encode_rest tl else [])"
  have enc: "snd (Base64_Encode src) = encode_groups body @ tail"
    by (simp add: Base64_Encode_def Let_def body_def tl_def tail_def)
  show "fst (Base64_Encode src) = length (snd (Base64_Encode src))"
    by (simp only: length_Encode) (simp add: Base64_Encode_def Let_def)
  obtain t rest' where t: "tail @ rest = t # rest'" using assms by (cases "tail @ rest") auto
  let ?s = "encode_groups body @ tail @ rest" and ?e = "length (encode_groups body) + length tail"
  have "Base64_Decode ?s ?e dst = decode_loop ?s ?e dst (length (encode_groups body)) (length body) (if dst then body else [])"
    unfolding Base64_Decode_def
    using decode_loop_groups [of 0 ?s body t rest' ?e dst 0 "[]"] t body by simp
  also have "\<dots> = Inr (kNone, if dst then src else [], Some (length src))"
  proof (cases "length src mod 3 = 0")
    case True
    then have "tl = []" "tail = []" using tl by (simp_all add: tail_def)
    then show ?thesis by (subst decode_loop.simps) (simp add: src)
  next
    case False
    have "length tl = 1 \<or> length tl = 2" unfolding tl using False by presburger
    moreover have "tail = encode_rest tl" "tl \<noteq> []" using False tl by (auto simp: tail_def)
    ultimately have "decode_loop ?s ?e dst (length (encode_groups body)) (length body) (if dst then body else []) =
        Inr (kNone, if dst then (if dst then body else []) @ tl else if dst then body else [], Some (length body + length tl))"
      by (intro decode_loop_rest) (simp_all add: length_encode_rest)
    then show ?thesis by (cases dst) (simp_all only: src length_append if_True if_False)
  qed
  finally show "Base64_Decode (snd (Base64_Encode src) @ rest) (length (snd (Base64_Encode src))) dst =
      Inr (kNone, if dst then src else [], Some (length src))" by (simp add: enc)
qed

theorem base64_roundtrip_witness:
  "Base64_Decode (snd (Base64_Encode [77, 97, 110, 33]) @ [0]) 8 True = Inr (kNone, [77, 97, 110, 33], Some 4)"
proof -
  have "length (snd (Base64_Encode [77, 97, 110, 33])) = 8" by code_simp
  with base64_roundtrip [of "[0]" "[77, 97, 110, 33]" True] show ?thesis by simp
qed

section \<open>Reads past the end and the two passes\<close>

text \<open>
  Without a byte after it, a text that ends in a full group makes the decoder read past its end; and
  the inner loop does not compare its position with the given length at all.
\<close>

lemma decode_reads_past_end:
  "Base64_Decode (snd (Base64_Encode [77, 97, 110])) 4 True = Inl OutOfRange"
  "Base64_Decode (snd (Base64_Encode [77, 97, 110]) @ [0]) 2 True = Inr (kNone, [77, 97, 110], Some 3)"
  by code_simp+

lemma decode_loop_sizes:
  "\<exists>w. decode_loop src src_end True p i out =
      (case decode_loop src src_end False p i out0 of Inl f \<Rightarrow> Inl f | Inr (e, _, l) \<Rightarrow> Inr (e, out @ w, l)) \<and>
    (\<forall>e o' k. decode_loop src src_end False p i out0 = Inr (e, o', Some k) \<longrightarrow> k = i + length w)"
proof (induction src src_end False p i out0 arbitrary: out rule: decode_loop.induct)
  case (1 src src_end p i out0)
  show ?case
  proof (cases "p < src_end")
    case False
    then show ?thesis by (simp add: decode_loop.simps [of _ _ _ p])
  next
    case True
    show ?thesis
    proof (cases "decode_quad src p [0, 0, 0, 0] 0")
      case (Inl f)
      with True show ?thesis by (simp add: decode_loop.simps [of _ _ _ p])
    next
      case (Inr q)
      show ?thesis
      proof (cases q)
        case (Quad_return e)
        with True Inr show ?thesis by (simp add: decode_loop.simps [of _ _ _ p])
      next
        case (Quad p' bytes padTwo padThree)
        obtain one two three where v: "quad_values bytes = (one, two, three)" by (cases "quad_values bytes")
        note ok = quad_values_less [OF v]
        show ?thesis
        proof (cases "padTwo \<or> padThree")
          case True
          with \<open>p < src_end\<close> Inr Quad v ok show ?thesis
            by (auto simp: decode_loop.simps [of _ _ _ p] put_dst_def Let_def)
        next
          case False
          have "\<exists>w. decode_loop src src_end True p' (i + 1 + 1 + 1) (out @ [ucast one, ucast two, ucast three]) =
              (case decode_loop src src_end False p' (i + 1 + 1 + 1) out0 of
                 Inl f \<Rightarrow> Inl f | Inr (e, _, l) \<Rightarrow> Inr (e, (out @ [ucast one, ucast two, ucast three]) @ w, l)) \<and>
              (\<forall>e o' k. decode_loop src src_end False p' (i + 1 + 1 + 1) out0 = Inr (e, o', Some k) \<longrightarrow> k = i + 1 + 1 + 1 + length w)"
            using 1 [OF \<open>p < src_end\<close> Inr Quad v [symmetric]] False v
            by (simp add: put_dst_def)
          then obtain w where "decode_loop src src_end True p' (i + 1 + 1 + 1) (out @ [ucast one, ucast two, ucast three]) =
              (case decode_loop src src_end False p' (i + 1 + 1 + 1) out0 of
                 Inl f \<Rightarrow> Inl f | Inr (e, _, l) \<Rightarrow> Inr (e, (out @ [ucast one, ucast two, ucast three]) @ w, l))"
              "\<forall>e o' k. decode_loop src src_end False p' (i + 1 + 1 + 1) out0 = Inr (e, o', Some k) \<longrightarrow> k = i + 1 + 1 + 1 + length w"
            by blast
          then show ?thesis
            using \<open>p < src_end\<close> Inr Quad v ok False
            by (intro exI [of _ "ucast one # ucast two # ucast three # w"])
              (simp add: decode_loop.simps [of _ _ _ p] put_dst_def Let_def split: sum.splits)
        qed
      qed
    qed
  qed
qed

text \<open>
  The two calls that a client makes agree: the first, without a destination, reports exactly the number
  of bytes that the second writes, or the same error or fault.
\<close>

theorem base64_two_passes:
  "\<exists>w. Base64_Decode src srcLength True =
      (case Base64_Decode src srcLength False of Inl f \<Rightarrow> Inl f | Inr (e, _, l) \<Rightarrow> Inr (e, w, l)) \<and>
    (\<forall>e o' k. Base64_Decode src srcLength False = Inr (e, o', Some k) \<longrightarrow> k = length w)"
  unfolding Base64_Decode_def by (rule decode_loop_sizes [of src srcLength 0 0 "[]" "[]", unfolded append_Nil add_0])

end
