(* ===== verification/Command_Line.thy ===== *)
theory Command_Line
  imports Prelude
begin

text \<open>
  \<open>fml/command_line.cc\<close> and \<open>command_line.h\<close>: the command line of the engine, taken apart into the
  program's name, options and positional arguments, and put together again.  Strings are lists of
  characters, and the index of option names is a map.
\<close>

section \<open>Command lines\<close>

record cl_option =
  op_name :: string
  op_value :: string

record CommandLine =
  cl_has_argv0 :: bool
  cl_argv0 :: string
  cl_options :: "cl_option list"
  cl_positional_args :: "string list"
  cl_option_index :: "string \<rightharpoonup> nat"

definition CommandLine_none :: CommandLine where
  "CommandLine_none =
     \<lparr>cl_has_argv0 = False, cl_argv0 = [], cl_options = [], cl_positional_args = [], cl_option_index = Map.empty\<rparr>"

text \<open>The loop of the constructor: later options overwrite the index of earlier ones.\<close>

fun index_options :: "nat \<Rightarrow> cl_option list \<Rightarrow> (string \<rightharpoonup> nat) \<Rightarrow> string \<rightharpoonup> nat" where
  "index_options i [] m = m"
| "index_options i (o' # os) m = index_options (i + 1) os (m(op_name o' \<mapsto> i))"

definition CommandLine_of :: "string \<Rightarrow> cl_option list \<Rightarrow> string list \<Rightarrow> CommandLine" where
  "CommandLine_of argv0 options positional_args =
     \<lparr>cl_has_argv0 = True, cl_argv0 = argv0, cl_options = options, cl_positional_args = positional_args,
      cl_option_index = index_options 0 options Map.empty\<rparr>"

definition CommandLine_eq :: "CommandLine \<Rightarrow> CommandLine \<Rightarrow> bool" where
  "CommandLine_eq a b =
     (cl_has_argv0 a = cl_has_argv0 b \<and> cl_argv0 a = cl_argv0 b \<and> cl_options a = cl_options b \<and>
      cl_positional_args a = cl_positional_args b)"

text \<open>\<open>name.data()\<close> becomes a string up to its first null character.\<close>

definition c_string :: "string \<Rightarrow> string" where
  "c_string s = takeWhile (\<lambda>c. c \<noteq> CHR 0x00) s"

definition HasOption :: "string \<Rightarrow> CommandLine \<Rightarrow> nat option" where
  "HasOption name cl = cl_option_index cl (c_string name)"

definition option_at :: "nat \<Rightarrow> CommandLine \<Rightarrow> cl_option result" where
  "option_at i cl = (if i < length (cl_options cl) then Inr (cl_options cl ! i) else Inl Undefined)"

definition GetOptionValue :: "string \<Rightarrow> CommandLine \<Rightarrow> string option result" where
  "GetOptionValue name cl =
     (case HasOption name cl of
        None \<Rightarrow> Inr None
      | Some index \<Rightarrow> rbind (option_at index cl) (\<lambda>o'. Inr (Some (op_value o'))))"

definition GetOptionValues :: "string \<Rightarrow> CommandLine \<Rightarrow> string list" where
  "GetOptionValues name cl = map op_value (filter (\<lambda>o'. op_name o' = name) (cl_options cl))"

definition GetOptionValueWithDefault :: "string \<Rightarrow> string \<Rightarrow> CommandLine \<Rightarrow> string result" where
  "GetOptionValueWithDefault name default_value cl =
     (case HasOption name cl of
        None \<Rightarrow> Inr default_value
      | Some index \<Rightarrow> rbind (option_at index cl) (\<lambda>o'. Inr (op_value o')))"

section \<open>Building a command line\<close>

record CommandLineBuilder =
  cb_has_argv0 :: bool
  cb_argv0 :: string
  cb_options :: "cl_option list"
  cb_positional_args :: "string list"
  cb_started_positional_args :: bool

definition CommandLineBuilder_new :: CommandLineBuilder where
  "CommandLineBuilder_new =
     \<lparr>cb_has_argv0 = False, cb_argv0 = [], cb_options = [], cb_positional_args = [], cb_started_positional_args = False\<rparr>"

text \<open>\<open>std::string::find\<close> of a character from a position on.\<close>

fun find_char :: "char \<Rightarrow> nat \<Rightarrow> string \<Rightarrow> nat option" where
  "find_char c i [] = None"
| "find_char c i (x # xs) = (if x = c then Some i else find_char c (i + 1) xs)"

definition str_find :: "char \<Rightarrow> nat \<Rightarrow> string \<Rightarrow> nat option" where
  "str_find c pos s = find_char c pos (drop pos s)"

definition positional :: "string \<Rightarrow> CommandLineBuilder \<Rightarrow> bool \<times> CommandLineBuilder" where
  "positional arg b =
     (cb_positional_args b = [], b\<lparr>cb_positional_args := cb_positional_args b @ [arg]\<rparr>)"

definition ProcessArg :: "string \<Rightarrow> CommandLineBuilder \<Rightarrow> bool \<times> CommandLineBuilder" where
  "ProcessArg arg b =
     (if \<not> cb_has_argv0 b then (False, b\<lparr>cb_has_argv0 := True, cb_argv0 := arg\<rparr>)
      else if cb_started_positional_args b then positional arg b
      else if length arg < 2 \<or> arg ! 0 \<noteq> CHR ''-'' \<or> arg ! 1 \<noteq> CHR ''-'' then
        positional arg (b\<lparr>cb_started_positional_args := True\<rparr>)
      else if length arg = 2 then (False, b\<lparr>cb_started_positional_args := True\<rparr>)
      else
        case str_find CHR ''='' 3 arg of
          None \<Rightarrow> (False, b\<lparr>cb_options := cb_options b @ [\<lparr>op_name = drop 2 arg, op_value = []\<rparr>]\<rparr>)
        | Some equals_pos \<Rightarrow>
            (False, b\<lparr>cb_options := cb_options b @
              [\<lparr>op_name = take (equals_pos - 2) (drop 2 arg), op_value = drop (equals_pos + 1) arg\<rparr>]\<rparr>))"

definition Build :: "CommandLineBuilder \<Rightarrow> CommandLine" where
  "Build b =
     (if \<not> cb_has_argv0 b then CommandLine_none else CommandLine_of (cb_argv0 b) (cb_options b) (cb_positional_args b))"

text \<open>The loop of the factory functions; the position of the first positional argument is an index.\<close>

fun process_args :: "nat \<Rightarrow> string list \<Rightarrow> nat option \<Rightarrow> CommandLineBuilder \<Rightarrow> nat option \<times> CommandLineBuilder" where
  "process_args i [] first b = (first, b)"
| "process_args i (arg # args) first b =
     (let (rv, b) = ProcessArg arg b in process_args (i + 1) args (if rv then Some i else first) b)"

definition CommandLineFromIteratorsFindFirstPositionalArg :: "string list \<Rightarrow> CommandLine \<times> nat" where
  "CommandLineFromIteratorsFindFirstPositionalArg args =
     (let (first, b) = process_args 0 args None CommandLineBuilder_new
      in (Build b, case first of None \<Rightarrow> length args | Some i \<Rightarrow> i))"

definition CommandLineFromIterators :: "string list \<Rightarrow> CommandLine" where
  "CommandLineFromIterators args = fst (CommandLineFromIteratorsFindFirstPositionalArg args)"

definition CommandLineFromIteratorsWithArgv0 :: "string \<Rightarrow> string list \<Rightarrow> CommandLine" where
  "CommandLineFromIteratorsWithArgv0 argv0 args =
     Build (snd (process_args 0 args None (snd (ProcessArg argv0 CommandLineBuilder_new))))"

section \<open>Back to arguments\<close>

definition option_arg :: "cl_option \<Rightarrow> string" where
  "option_arg o' = (if op_value o' = [] then ''--'' @ op_name o' else ''--'' @ op_name o' @ ''='' @ op_value o')"

definition CommandLineToArgv :: "CommandLine \<Rightarrow> string list" where
  "CommandLineToArgv cl =
     (if \<not> cl_has_argv0 cl then []
      else
        [cl_argv0 cl] @ map option_arg (cl_options cl) @
        (case cl_positional_args cl of
           [] \<Rightarrow> []
         | arg # _ \<Rightarrow>
             (if length arg \<ge> 2 \<and> arg ! 0 = CHR ''-'' \<and> arg ! 1 = CHR ''-'' then [''--''] else []) @ cl_positional_args cl))"

section \<open>Parsing\<close>

lemma find_char_append: "c \<notin> set xs \<Longrightarrow> find_char c i (xs @ ys) = find_char c (i + length xs) ys"
  by (induction xs arbitrary: i) auto

lemma find_char_None: "find_char c i xs = None \<longleftrightarrow> c \<notin> set xs"
  by (induction xs arbitrary: i) auto

lemma find_char_Some: "find_char c i xs = Some j \<Longrightarrow> i \<le> j \<and> c \<notin> set (take (j - i) xs)"
proof (induction xs arbitrary: i)
  case (Cons x xs)
  show ?case
  proof (cases "x = c")
    case False
    with Cons have "i + 1 \<le> j" "c \<notin> set (take (j - (i + 1)) xs)" by auto
    moreover from this(1) have "j - i = Suc (j - (i + 1))" by simp
    ultimately show ?thesis using False by simp
  qed (use Cons in auto)
qed simp

text \<open>What can be the name of a parsed option: not empty, and no equals sign after its first character.\<close>

definition option_ok :: "cl_option \<Rightarrow> bool" where
  "option_ok o' = (op_name o' \<noteq> [] \<and> CHR ''='' \<notin> set (tl (op_name o')))"

lemma ProcessArg_option:
  assumes "option_ok o'" "cb_has_argv0 b" "\<not> cb_started_positional_args b"
  shows "ProcessArg (option_arg o') b = (False, b\<lparr>cb_options := cb_options b @ [o']\<rparr>)"
proof -
  obtain c n where name: "op_name o' = c # n" "CHR ''='' \<notin> set n" using assms(1) by (cases "op_name o'") (auto simp: option_ok_def)
  have find: "str_find CHR ''='' 3 (option_arg o') = (if op_value o' = [] then None else Some (3 + length n))"
    using name by (auto simp: str_find_def option_arg_def find_char_append find_char_None numeral_3_eq_3)
  have "option_arg o' = CHR ''-'' # CHR ''-'' # c # n @ (if op_value o' = [] then [] else CHR ''='' # op_value o')"
    by (simp add: option_arg_def name)
  then show ?thesis
    using assms(2,3) find name by (cases o') (auto simp: ProcessArg_def numeral_3_eq_3)
qed

lemma process_options:
  assumes "\<forall>o'\<in>set os. option_ok o'" "cb_has_argv0 b" "\<not> cb_started_positional_args b"
  shows "process_args i (map option_arg os @ args) first b =
    process_args (i + length os) args first (b\<lparr>cb_options := cb_options b @ os\<rparr>)"
  using assms by (induction os arbitrary: i b) (simp_all add: ProcessArg_option)

lemma process_positional:
  assumes "cb_has_argv0 b" "cb_started_positional_args b"
  shows "snd (process_args i args first b) = b\<lparr>cb_positional_args := cb_positional_args b @ args\<rparr>"
  using assms
  by (induction args arbitrary: i first b) (simp_all add: ProcessArg_def positional_def)

text \<open>Every option that the builder stores has such a name.\<close>

lemma ProcessArg_ok:
  assumes "\<forall>o'\<in>set (cb_options b). option_ok o'"
  shows "\<forall>o'\<in>set (cb_options (snd (ProcessArg arg b))). option_ok o'"
proof -
  have tl: "tl (drop 2 arg) = drop 3 arg" using drop_Suc [of 2 arg] tl_drop [of 2 arg] by simp
  have "option_ok \<lparr>op_name = drop 2 arg, op_value = []\<rparr>" if "length arg > 2" "str_find CHR ''='' 3 arg = None"
    using that by (simp add: option_ok_def str_find_def find_char_None tl)
  moreover have "option_ok \<lparr>op_name = take (e - 2) (drop 2 arg), op_value = v\<rparr>"
    if "length arg > 2" "str_find CHR ''='' 3 arg = Some e" for e v
  proof -
    have e: "3 \<le> e" "CHR ''='' \<notin> set (take (e - 3) (drop 3 arg))"
      using find_char_Some [of _ 3] that(2) by (auto simp: str_find_def)
    moreover have "tl (take (e - 2) (drop 2 arg)) = take (e - 3) (drop 3 arg)"
      by (simp add: tl_take tl)
    ultimately show ?thesis using that(1) by (simp add: option_ok_def)
  qed
  ultimately show ?thesis
    using assms by (auto simp: ProcessArg_def positional_def split: option.splits)
qed

lemma process_args_ok:
  "\<forall>o'\<in>set (cb_options b). option_ok o' \<Longrightarrow> \<forall>o'\<in>set (cb_options (snd (process_args i args first b))). option_ok o'"
proof (induction args arbitrary: i first b)
  case (Cons arg args)
  from Cons.IH [OF ProcessArg_ok [OF Cons.prems, of arg]] show ?case by (simp add: split_beta)
qed simp

section \<open>Round trip\<close>

lemma from_to_components:
  assumes "\<forall>o'\<in>set os. option_ok o'"
  shows "CommandLineFromIterators (CommandLineToArgv (CommandLine_of a os ps)) = CommandLine_of a os ps"
proof -
  let ?b = "CommandLineBuilder_new\<lparr>cb_has_argv0 := True, cb_argv0 := a\<rparr>"
  let ?b' = "?b\<lparr>cb_options := os\<rparr>"
  have first: "ProcessArg a CommandLineBuilder_new = (False, ?b)"
    by (simp add: ProcessArg_def CommandLineBuilder_new_def)
  have "Build (snd (process_args i (case ps of [] \<Rightarrow> [] | arg # _ \<Rightarrow>
      (if length arg \<ge> 2 \<and> arg ! 0 = CHR ''-'' \<and> arg ! 1 = CHR ''-'' then [''--''] else []) @ ps) None ?b')) = CommandLine_of a os ps" for i
  proof (cases ps)
    case Nil
    then show ?thesis by (simp add: Build_def CommandLineBuilder_new_def)
  next
    case (Cons p ps')
    then show ?thesis
      by (auto simp: ProcessArg_def positional_def process_positional Build_def CommandLineBuilder_new_def split_beta)
  qed
  moreover have "CommandLineToArgv (CommandLine_of a os ps) = a # map option_arg os @
      (case ps of [] \<Rightarrow> [] | arg # _ \<Rightarrow>
        (if length arg \<ge> 2 \<and> arg ! 0 = CHR ''-'' \<and> arg ! 1 = CHR ''-'' then [''--''] else []) @ ps)"
    by (cases ps) (simp_all add: CommandLineToArgv_def CommandLine_of_def)
  ultimately show ?thesis
    using process_options [of os ?b] assms first
    by (simp add: CommandLineFromIterators_def CommandLineFromIteratorsFindFirstPositionalArg_def CommandLineBuilder_new_def split_beta)
qed

text \<open>
  C35: Parsing is the inverse of printing: the arguments that \<open>CommandLineToArgv\<close> makes of a parsed
  command line parse to the same command line, with the same index of options, whatever the original
  arguments were.  Every command line with option names that are not empty and have no equals sign
  after the first character is the result of such a parse.
\<close>

theorem command_line_roundtrip:
  "CommandLineFromIterators (CommandLineToArgv (CommandLineFromIterators args)) = CommandLineFromIterators args \<and>
   ((\<forall>o'\<in>set os. option_ok o') \<longrightarrow>
     CommandLineFromIterators (CommandLineToArgv (CommandLine_of a os ps)) = CommandLine_of a os ps)"
proof
  let ?b = "snd (process_args 0 args None CommandLineBuilder_new)"
  have b: "CommandLineFromIterators args = Build ?b"
    by (simp add: CommandLineFromIterators_def CommandLineFromIteratorsFindFirstPositionalArg_def split_beta)
  have "\<forall>o'\<in>set (cb_options ?b). option_ok o'"
    by (rule process_args_ok) (simp add: CommandLineBuilder_new_def)
  then show "CommandLineFromIterators (CommandLineToArgv (CommandLineFromIterators args)) = CommandLineFromIterators args"
    unfolding b by (simp add: Build_def from_to_components) (simp add: CommandLineToArgv_def CommandLine_none_def
      CommandLineFromIterators_def CommandLineFromIteratorsFindFirstPositionalArg_def Build_def CommandLineBuilder_new_def)
  show "(\<forall>o'\<in>set os. option_ok o') \<longrightarrow>
      CommandLineFromIterators (CommandLineToArgv (CommandLine_of a os ps)) = CommandLine_of a os ps"
    by (simp add: from_to_components)
qed

theorem command_line_roundtrip_witness:
  "CommandLineFromIterators (CommandLineToArgv (CommandLine_of ''flutter''
     [\<lparr>op_name = ''v'', op_value = ''a=b''\<rparr>, \<lparr>op_name = ''=x'', op_value = []\<rparr>] [''--help'', ''x''])) =
   CommandLine_of ''flutter'' [\<lparr>op_name = ''v'', op_value = ''a=b''\<rparr>, \<lparr>op_name = ''=x'', op_value = []\<rparr>] [''--help'', ''x''] \<and>
   CommandLineToArgv (CommandLine_of ''flutter''
     [\<lparr>op_name = ''v'', op_value = ''a=b''\<rparr>, \<lparr>op_name = ''=x'', op_value = []\<rparr>] [''--help'', ''x'']) =
     [''flutter'', ''--v=a=b'', ''--=x'', ''--'', ''--help'', ''x'']"
proof
  have "\<forall>o'\<in>set [\<lparr>op_name = ''v'', op_value = ''a=b''\<rparr>, \<lparr>op_name = ''=x'', op_value = []\<rparr>]. option_ok o'" by code_simp
  with command_line_roundtrip show "CommandLineFromIterators (CommandLineToArgv (CommandLine_of ''flutter''
     [\<lparr>op_name = ''v'', op_value = ''a=b''\<rparr>, \<lparr>op_name = ''=x'', op_value = []\<rparr>] [''--help'', ''x''])) =
   CommandLine_of ''flutter'' [\<lparr>op_name = ''v'', op_value = ''a=b''\<rparr>, \<lparr>op_name = ''=x'', op_value = []\<rparr>] [''--help'', ''x'']"
    by blast
qed code_simp

section \<open>Lookup\<close>

lemma index_options_last:
  "index_options i os m n = (if n \<in> op_name ` set os
     then Some (i + length os - 1 - length (takeWhile (\<lambda>o'. op_name o' \<noteq> n) (rev os))) else m n)"
proof (induction os arbitrary: i m)
  case (Cons o' os)
  have "length (takeWhile (\<lambda>o'. op_name o' \<noteq> n) (rev (o' # os))) =
      (if n \<in> op_name ` set os then length (takeWhile (\<lambda>o'. op_name o' \<noteq> n) (rev os))
       else length os + (if op_name o' = n then 0 else 1))"
    by (auto simp: takeWhile_append takeWhile_tail)
  then show ?case by (auto simp: Cons)
qed simp

text \<open>
  A lookup returns the value of the last option with the name, the last of \<open>GetOptionValues\<close>, for a
  name without null characters.
\<close>

theorem get_option_value_last:
  assumes "CHR 0x00 \<notin> set name"
  shows "GetOptionValue name (CommandLine_of a os ps) =
    Inr (if GetOptionValues name (CommandLine_of a os ps) = [] then None
         else Some (last (GetOptionValues name (CommandLine_of a os ps))))"
proof -
  have name: "c_string name = name" using assms by (auto simp: c_string_def takeWhile_eq_all_conv)
  show ?thesis
  proof (cases "name \<in> op_name ` set os")
    case False
    then have "filter (\<lambda>o'. op_name o' = name) os = []" by (auto simp: filter_empty_conv)
    with False name show ?thesis
      by (simp add: GetOptionValue_def GetOptionValues_def HasOption_def CommandLine_of_def index_options_last)
  next
    case True
    then obtain ys x zs where os: "os = ys @ x # zs" "op_name x = name" "name \<notin> op_name ` set zs"
      using split_list_last_prop [of os "\<lambda>o'. op_name o' = name"] by (metis (no_types, lifting) imageE)
    have none: "filter (\<lambda>o'. op_name o' = name) zs = []" using os(3) by (auto simp: filter_empty_conv)
    have "takeWhile (\<lambda>o'. op_name o' \<noteq> name) (rev os) = rev zs"
    proof -
      have "\<forall>o'\<in>set (rev zs). op_name o' \<noteq> name" using os(3) by auto
      then show ?thesis using os(1,2) takeWhile_append2 [of "rev zs" "\<lambda>o'. op_name o' \<noteq> name" "x # rev ys"] by simp
    qed
    then have "HasOption name (CommandLine_of a os ps) = Some (length ys)"
      using True name os by (simp add: HasOption_def CommandLine_of_def index_options_last)
    then show ?thesis
      using os none by (simp add: GetOptionValue_def GetOptionValues_def option_at_def CommandLine_of_def)
  qed
qed

end
