(* ===== verification/Image_LRU.thy ===== *)
theory Image_LRU
  imports Prelude
begin

text \<open>
  \<open>shell/platform/ohos/image_lru.cpp\<close>: the cache of images of an external texture, an array of nine
  entries with the most recently used one in front; a key of 0 marks an unused entry.  Images are any
  type, a null pointer is \<open>None\<close>, and an access outside the array is a fault.
\<close>

section \<open>The cache\<close>

definition kMaxQueueSize :: nat where
  "kMaxQueueSize = 9"

record 'i Data =
  lru_key :: u64
  lru_value :: "'i option"

record 'i ImageLRU =
  lru_images :: "'i Data list"

definition Data_default :: "'i Data" where
  "Data_default = \<lparr>lru_key = 0, lru_value = None\<rparr>"

definition ImageLRU_new :: "'i ImageLRU" where
  "ImageLRU_new = \<lparr>lru_images = replicate kMaxQueueSize Data_default\<rparr>"

text \<open>The loops that look for a key, from position \<open>i\<close> on; past the end when there is none.\<close>

fun key_index :: "u64 \<Rightarrow> nat \<Rightarrow> 'i Data list \<Rightarrow> nat" where
  "key_index key i [] = i"
| "key_index key i (d # ds) = (if lru_key d = key then i else key_index key (i + 1) ds)"

text \<open>The loops that move the entries before position \<open>j\<close> back by one.\<close>

fun shift_back :: "nat \<Rightarrow> 'i Data list \<Rightarrow> 'i Data list result" where
  "shift_back 0 images = Inr images"
| "shift_back (Suc j) images =
     (if Suc j < length images then shift_back j (images[Suc j := images ! j]) else Inl OutOfRange)"

definition UpdateKey :: "'i option \<Rightarrow> u64 \<Rightarrow> 'i ImageLRU \<Rightarrow> 'i ImageLRU result" where
  "UpdateKey img key c =
     (let images = lru_images c
      in if images = [] then Inl OutOfRange
         else if lru_key (images ! 0) = key then Inr c
         else
           rbind (shift_back (key_index key 1 (tl images)) images) (\<lambda>images.
             Inr (c\<lparr>lru_images := images[0 := \<lparr>lru_key = key, lru_value = img\<rparr>]\<rparr>)))"

definition FindImage :: "u64 \<Rightarrow> 'i ImageLRU \<Rightarrow> ('i option \<times> 'i ImageLRU) result" where
  "FindImage key c =
     (if key = 0 then Inr (None, c)
      else
        let i = key_index key 0 (lru_images c)
        in if i < length (lru_images c) then
             let found = lru_value (lru_images c ! i)
             in rbind (UpdateKey found key c) (\<lambda>c. Inr (found, c))
           else Inr (None, c))"

definition AddImage :: "'i option \<Rightarrow> u64 \<Rightarrow> 'i ImageLRU \<Rightarrow> (u64 \<times> 'i ImageLRU) result" where
  "AddImage img key c =
     (let images = lru_images c
      in if length images \<noteq> kMaxQueueSize then Inl OutOfRange
         else
           let p = key_index key 0 images;
               (i, dropped) = (if p < length images then (p + 1, 0) else (p, lru_key (images ! (kMaxQueueSize - 1))))
           in rbind (shift_back (i - 1) images) (\<lambda>images.
                Inr (dropped, c\<lparr>lru_images := images[0 := \<lparr>lru_key = key, lru_value = img\<rparr>]\<rparr>)))"

definition lru_Clear :: "'i ImageLRU \<Rightarrow> 'i ImageLRU" where
  "lru_Clear c = c\<lparr>lru_images := map (\<lambda>_. Data_default) (lru_images c)\<rparr>"

section \<open>What the loops compute\<close>

lemma key_index_bounds: "i \<le> key_index key i ds" "key_index key i ds \<le> i + length ds"
proof (induction ds arbitrary: i)
  case (Cons d ds)
  case 1 show ?case using Cons(1) [of "i + 1"] by simp
  case 2 show ?case using Cons(2) [of "i + 1"] by simp
qed simp_all

lemma key_index_Suc [simp]: "key_index key (Suc i) ds = Suc (key_index key i ds)"
  by (induction ds arbitrary: i) simp_all

lemma key_index_found: "key_index key 0 ds < length ds \<longleftrightarrow> key \<in> lru_key ` set ds"
  by (induction ds) auto

lemma key_index_nth: "key_index key 0 ds < length ds \<Longrightarrow> lru_key (ds ! key_index key 0 ds) = key"
  by (induction ds) auto

lemma shift_back_eq:
  "j < length images \<Longrightarrow> shift_back j images = Inr (images ! 0 # take j images @ drop (Suc j) images)"
proof (induction j arbitrary: images)
  case 0
  then show ?case by (cases images) simp_all
next
  case (Suc j)
  let ?xs = "images[Suc j := images ! j]"
  have "?xs ! 0 = images ! 0" "take j ?xs = take j images"
    by (simp_all add: take_update_cancel)
  moreover have "drop (Suc j) ?xs = images ! j # drop (Suc (Suc j)) images"
    using Suc.prems by (simp add: Cons_nth_drop_Suc [symmetric])
  ultimately show ?case
    using Suc by (simp add: take_Suc_conv_app_nth)
qed

text \<open>Putting an entry in front of the others, in place of the one at position \<open>j\<close>.\<close>

lemma shift_back_front:
  "j < length images \<Longrightarrow>
    rbind (shift_back j images) (\<lambda>xs. f (xs[0 := d])) = f (d # take j images @ drop (Suc j) images)"
  by (simp add: shift_back_eq)

section \<open>The cache as a bounded list of recently used images\<close>

text \<open>The abstract cache: keys with their images, the most recently used first.\<close>

type_synonym 'i recent = "(u64 \<times> 'i option) list"

datatype 'i lru_op = Op_Find u64 | Op_Add "'i option" u64 | Op_Clear
datatype 'i lru_out = Found "'i option" | Dropped u64 | Cleared

definition touch :: "u64 \<Rightarrow> 'i option \<Rightarrow> 'i recent \<Rightarrow> 'i recent" where
  "touch k v es = (k, v) # filter (\<lambda>e. fst e \<noteq> k) es"

fun recent_step :: "'i lru_op \<Rightarrow> 'i recent \<Rightarrow> 'i lru_out \<times> 'i recent" where
  "recent_step (Op_Find k) es =
     (case map_of es k of None \<Rightarrow> (Found None, es) | Some v \<Rightarrow> (Found v, touch k v es))"
| "recent_step (Op_Add v k) es =
     (let es' = touch k v es
      in (Dropped (if length es' > kMaxQueueSize then fst (last es') else 0), take kMaxQueueSize es'))"
| "recent_step Op_Clear es = (Cleared, [])"

fun recent_run :: "'i lru_op list \<Rightarrow> 'i recent \<Rightarrow> 'i lru_out list \<times> 'i recent" where
  "recent_run [] es = ([], es)"
| "recent_run (x # xs) es =
     (let (out, es) = recent_step x es; (outs, es) = recent_run xs es in (out # outs, es))"

fun lru_step :: "'i lru_op \<Rightarrow> 'i ImageLRU \<Rightarrow> ('i lru_out \<times> 'i ImageLRU) result" where
  "lru_step (Op_Find k) c = rbind (FindImage k c) (\<lambda>(v, c). Inr (Found v, c))"
| "lru_step (Op_Add v k) c = rbind (AddImage v k c) (\<lambda>(d, c). Inr (Dropped d, c))"
| "lru_step Op_Clear c = Inr (Cleared, lru_Clear c)"

fun lru_run :: "'i lru_op list \<Rightarrow> 'i ImageLRU \<Rightarrow> ('i lru_out list \<times> 'i ImageLRU) result" where
  "lru_run [] c = Inr ([], c)"
| "lru_run (x # xs) c =
     rbind (lru_step x c) (\<lambda>(out, c). rbind (lru_run xs c) (\<lambda>(outs, c). Inr (out # outs, c)))"

text \<open>The array that represents a list of entries, and the lists that have one.\<close>

definition entry :: "u64 \<times> 'i option \<Rightarrow> 'i Data" where
  "entry e = \<lparr>lru_key = fst e, lru_value = snd e\<rparr>"

definition lru_of :: "'i recent \<Rightarrow> 'i ImageLRU" where
  "lru_of es = \<lparr>lru_images = map entry es @ replicate (kMaxQueueSize - length es) Data_default\<rparr>"

definition recent_wf :: "'i recent \<Rightarrow> bool" where
  "recent_wf es = (length es \<le> kMaxQueueSize \<and> distinct (map fst es) \<and> 0 \<notin> fst ` set es)"

lemma entry_sel [simp]: "lru_key (entry e) = fst e" "lru_value (entry e) = snd e"
  by (simp_all add: entry_def)

lemma key_default [simp]: "lru_key Data_default = 0"
  by (simp add: Data_default_def)

lemma length_lru_of [simp]: "length es \<le> kMaxQueueSize \<Longrightarrow> length (lru_images (lru_of es)) = kMaxQueueSize"
  by (simp add: lru_of_def)

lemma ImageLRU_new_of: "ImageLRU_new = lru_of []"
  by (simp add: ImageLRU_new_def lru_of_def)

lemma key_index_append:
  "key_index k 0 (xs @ ys) = (if k \<in> lru_key ` set xs then key_index k 0 xs else length xs + key_index k 0 ys)"
  by (induction xs) auto

lemma key_index_replicate: "k \<noteq> 0 \<Longrightarrow> key_index k 0 (replicate n Data_default) = n"
  by (induction n) auto

lemma key_index_lru_of:
  assumes "recent_wf es" "k \<noteq> 0"
  shows "key_index k 0 (lru_images (lru_of es)) = (if k \<in> fst ` set es then key_index k 0 (map entry es) else kMaxQueueSize)"
  using assms by (auto simp: lru_of_def recent_wf_def key_index_append key_index_replicate image_image)

text \<open>Removing a key at its position.\<close>

lemma filter_fst_absent [simp]: "k \<notin> fst ` set es \<Longrightarrow> filter (\<lambda>e. fst e \<noteq> k) es = es"
  by (induction es) auto

lemma filter_key_index:
  assumes "distinct (map fst es)" "k \<in> fst ` set es"
  shows "take (key_index k 0 (map entry es)) es @ drop (Suc (key_index k 0 (map entry es))) es = filter (\<lambda>e. fst e \<noteq> k) es"
  using assms
  by (induction es) (auto split: if_splits)

lemma key_index_entry_less: "k \<in> fst ` set es \<Longrightarrow> key_index k 0 (map entry es) < length es"
  using key_index_found [of k "map entry es"] by (simp add: image_image)

lemma map_of_key_index:
  "k \<in> fst ` set es \<Longrightarrow> map_of es k = Some (snd (es ! key_index k 0 (map entry es)))"
  by (induction es) auto

text \<open>An entry moved or put in front of an array in place of the one at position \<open>j\<close>.\<close>

lemma front_known:
  assumes "recent_wf es" "k \<in> fst ` set es"
  defines "j \<equiv> key_index k 0 (map entry es)"
  shows "\<lparr>lru_images = entry (k, v) # take j (lru_images (lru_of es)) @ drop (Suc j) (lru_images (lru_of es))\<rparr> = lru_of (touch k v es)"
proof -
  have j: "j < length es" using key_index_entry_less [OF assms(2)] by (simp add: j_def)
  have es: "take j es @ drop (Suc j) es = filter (\<lambda>e. fst e \<noteq> k) es"
    using filter_key_index [of es k] assms by (simp add: recent_wf_def)
  then have "map entry (filter (\<lambda>e. fst e \<noteq> k) es) = take j (map entry es) @ drop (Suc j) (map entry es)"
    by (simp add: take_map drop_map flip: map_append)
  moreover have "length (filter (\<lambda>e. fst e \<noteq> k) es) = length es - 1"
    using j by (simp flip: es)
  ultimately show ?thesis
    using j by (simp add: lru_of_def touch_def)
qed

lemma front_new:
  assumes "recent_wf es" "k \<notin> fst ` set es"
  shows "\<lparr>lru_images = entry (k, v) # take (kMaxQueueSize - 1) (lru_images (lru_of es))\<rparr> = lru_of (take kMaxQueueSize (touch k v es))"
proof -
  have t: "touch k v es = (k, v) # es" using assms(2) by (simp add: touch_def)
  have "length es \<le> 9" using assms(1) by (simp add: recent_wf_def kMaxQueueSize_def)
  then show ?thesis
    by (cases "length es = 9") (simp_all add: t lru_of_def kMaxQueueSize_def take_map min_def)
qed

section \<open>Refinement\<close>

lemma recent_wf_touch_known:
  assumes "recent_wf es" "k \<in> fst ` set es"
  shows "recent_wf (touch k v es)"
proof -
  obtain e where "e \<in> set es" "fst e = k" using assms(2) by auto
  then have "length (filter (\<lambda>e. fst e \<noteq> k) es) < length es" by (auto intro: length_filter_less)
  moreover have "k \<noteq> 0" using assms by (auto simp: recent_wf_def)
  ultimately show ?thesis using assms(1) by (auto simp: recent_wf_def touch_def distinct_map_filter)
qed

lemma recent_wf_add:
  assumes "recent_wf es" "k \<noteq> 0"
  shows "recent_wf (take kMaxQueueSize (touch k v es))"
proof -
  have "distinct (map fst (touch k v es))" "0 \<notin> fst ` set (touch k v es)"
    using assms by (auto simp: recent_wf_def touch_def distinct_map_filter)
  then show ?thesis
    by (auto simp: recent_wf_def distinct_take simp flip: take_map dest: in_set_takeD)
qed

lemma UpdateKey_of:
  assumes "recent_wf es" "k \<in> fst ` set es" "map_of es k = Some v"
  shows "UpdateKey v k (lru_of es) = Inr (lru_of (touch k v es))"
proof -
  obtain e es' where es: "es = e # es'" using assms(2) by (cases es) auto
  let ?j = "key_index k 0 (map entry es)"
  show ?thesis
  proof (cases "fst e = k")
    case True
    then have "touch k v es = es" using assms(1,3) es by (auto simp: touch_def recent_wf_def)
    with True es show ?thesis by (simp add: UpdateKey_def lru_of_def Let_def)
  next
    case False
    have nz: "k \<noteq> 0" using assms(1,2) by (auto simp: recent_wf_def)
    have "key_index k 1 (tl (lru_images (lru_of es))) = key_index k 0 (lru_images (lru_of es))"
      using False es by (simp add: lru_of_def)
    also have "\<dots> = ?j" using key_index_lru_of [OF assms(1) nz] assms(2) by simp
    finally have j: "key_index k 1 (tl (lru_images (lru_of es))) = ?j" .
    have "?j < length (lru_images (lru_of es))" using key_index_entry_less [OF assms(2)] by (simp add: lru_of_def)
    from shift_back_eq [OF this] show ?thesis
      using False es j front_known [OF assms(1,2), of v]
      by (simp add: UpdateKey_def Let_def entry_def) (simp add: lru_of_def)
  qed
qed

lemma FindImage_of:
  assumes "recent_wf es"
  shows "FindImage k (lru_of es) =
    Inr (case map_of es k of None \<Rightarrow> (None, lru_of es) | Some v \<Rightarrow> (v, lru_of (touch k v es)))"
proof (cases "k \<in> fst ` set es")
  case True
  then have nz: "k \<noteq> 0" using assms by (auto simp: recent_wf_def)
  let ?j = "key_index k 0 (map entry es)"
  have j: "?j < length es" by (rule key_index_entry_less [OF True])
  then have "lru_value (lru_images (lru_of es) ! ?j) = snd (es ! ?j)" "?j < length (lru_images (lru_of es))"
    by (simp_all add: lru_of_def nth_append)
  then show ?thesis
    using True nz key_index_lru_of [OF assms nz] UpdateKey_of [OF assms True map_of_key_index [OF True]]
    by (simp add: FindImage_def map_of_key_index Let_def)
next
  case False
  then have "map_of es k = None" by (simp add: map_of_eq_None_iff)
  then show ?thesis
    using False key_index_lru_of [OF assms, of k] assms by (simp add: FindImage_def recent_wf_def)
qed

lemma AddImage_of:
  assumes "recent_wf es" "k \<noteq> 0"
  shows "AddImage v k (lru_of es) =
    Inr (if length (touch k v es) > kMaxQueueSize then fst (last (touch k v es)) else 0, lru_of (take kMaxQueueSize (touch k v es)))"
proof (cases "k \<in> fst ` set es")
  case True
  let ?j = "key_index k 0 (map entry es)"
  have len: "length (touch k v es) \<le> kMaxQueueSize"
    using recent_wf_touch_known [OF assms(1) True] by (simp add: recent_wf_def)
  have "?j < length (lru_images (lru_of es))" using key_index_entry_less [OF True] by (simp add: lru_of_def)
  with shift_back_eq [OF this] show ?thesis
    using True len key_index_lru_of [OF assms] front_known [OF assms(1) True, of v] assms(1)
    by (simp add: AddImage_def Let_def entry_def recent_wf_def) (simp add: lru_of_def)
next
  case False
  have t: "touch k v es = (k, v) # es" using False by (simp add: touch_def)
  have len: "length es \<le> kMaxQueueSize" using assms(1) by (simp add: recent_wf_def)
  have "lru_key (lru_images (lru_of es) ! (kMaxQueueSize - 1)) = (if length es < kMaxQueueSize then 0 else fst (last es))"
    using len last_conv_nth [of es] by (cases "es = []") (auto simp: lru_of_def nth_append kMaxQueueSize_def)
  moreover have "kMaxQueueSize - 1 < length (lru_images (lru_of es))" using len by (simp add: kMaxQueueSize_def)
  moreover have "drop kMaxQueueSize (lru_images (lru_of es)) = []" using len by simp
  ultimately show ?thesis
    using False len key_index_lru_of [OF assms] front_new [OF assms(1) False, of v] shift_back_eq [of "kMaxQueueSize - 1" "lru_images (lru_of es)"]
    by (auto simp: AddImage_def Let_def entry_def t) (auto simp: lru_of_def kMaxQueueSize_def)
qed

lemma lru_Clear_of: "recent_wf es \<Longrightarrow> lru_Clear (lru_of es) = lru_of []"
  by (simp add: lru_Clear_def lru_of_def recent_wf_def map_replicate_const flip: replicate_add)

text \<open>The texture code takes keys from buffer numbers plus one, so that no image has the key 0.\<close>

fun op_ok :: "'i lru_op \<Rightarrow> bool" where
  "op_ok (Op_Add v k) = (k \<noteq> 0)"
| "op_ok _ = True"

lemma recent_step_wf:
  assumes "recent_wf es" "op_ok x"
  shows "recent_wf (snd (recent_step x es))"
proof (cases x)
  case (Op_Find k)
  then show ?thesis
    using assms(1) recent_wf_touch_known [OF assms(1), of k] by (auto split: option.split dest!: map_of_SomeD simp: rev_image_eqI)
qed (use assms in \<open>simp_all add: recent_wf_add Let_def recent_wf_def [of "[]"]\<close>)

lemma lru_step_of:
  assumes "recent_wf es" "op_ok x"
  shows "lru_step x (lru_of es) = Inr (fst (recent_step x es), lru_of (snd (recent_step x es)))"
  using assms by (cases x) (simp_all add: FindImage_of AddImage_of lru_Clear_of Let_def split: option.split)

lemma lru_run_of:
  assumes "recent_wf es" "\<forall>x\<in>set xs. op_ok x"
  shows "lru_run xs (lru_of es) = Inr (fst (recent_run xs es), lru_of (snd (recent_run xs es))) \<and> recent_wf (snd (recent_run xs es))"
  using assms by (induction xs arbitrary: es) (simp_all add: lru_step_of recent_step_wf split_beta Let_def)

text \<open>
  C33: The cache never reads or writes outside its array, and it behaves as a list of at most nine
  recently used images with different keys: a lookup returns the image stored for the key and moves it to
  the front, an addition puts the image in front and returns the key of the image that it pushes out, or 0.
\<close>

theorem image_lru_refines:
  assumes "\<forall>x\<in>set xs. op_ok x"
  shows "lru_run xs ImageLRU_new = Inr (fst (recent_run xs []), lru_of (snd (recent_run xs []))) \<and>
    length (snd (recent_run xs [])) \<le> kMaxQueueSize \<and> distinct (map fst (snd (recent_run xs [])))"
  using lru_run_of [of "[]" xs] assms by (simp add: ImageLRU_new_of recent_wf_def)

theorem image_lru_refines_witness:
  "\<exists>c. lru_run (map (\<lambda>k. Op_Add (Some (10 * k)) (word_of_nat k)) [1..<11] @ [Op_Find 2, Op_Find 1]) ImageLRU_new =
     Inr (replicate 9 (Dropped 0) @ [Dropped 1, Found (Some 20), Found None], c) \<and> length (lru_images c) = 9"
proof -
  have ok: "\<forall>x\<in>set (map (\<lambda>k. Op_Add (Some (10 * k)) (word_of_nat k)) [1..<11] @ [Op_Find 2, Op_Find 1]). op_ok x"
    by code_simp
  moreover have "fst (recent_run (map (\<lambda>k. Op_Add (Some (10 * k)) (word_of_nat k)) [1..<11] @ [Op_Find 2, Op_Find 1]) []) =
      replicate 9 (Dropped 0) @ [Dropped 1, Found (Some 20), Found None]"
    by code_simp
  ultimately show ?thesis using image_lru_refines [OF ok] by (simp add: kMaxQueueSize_def)
qed

section \<open>Recently used images stay\<close>

fun op_key :: "'i lru_op \<Rightarrow> u64 set" where
  "op_key (Op_Find k) = {k}"
| "op_key (Op_Add v k) = {k}"
| "op_key Op_Clear = {}"

fun keeps_key :: "u64 \<Rightarrow> 'i lru_op \<Rightarrow> bool" where
  "keeps_key k (Op_Find k') = True"
| "keeps_key k (Op_Add v k') = (k' \<noteq> k)"
| "keeps_key k Op_Clear = False"

text \<open>The image is preceded only by images of the keys in \<open>K\<close>.\<close>

definition behind :: "u64 set \<Rightarrow> u64 \<Rightarrow> 'i option \<Rightarrow> 'i recent \<Rightarrow> bool" where
  "behind K k v es = (recent_wf es \<and> (\<exists>pre post. es = pre @ (k, v) # post \<and> fst ` set pre \<subseteq> K))"

lemma touch_behind: "k' \<noteq> k \<Longrightarrow>
  touch k' w (pre @ (k, v) # post) = touch k' w pre @ (k, v) # filter (\<lambda>e. fst e \<noteq> k') post"
  by (simp add: touch_def)

lemma keys_touch: "fst ` set (touch k w es) = insert k (fst ` set es)"
  by (auto simp: touch_def)

lemma length_keys:
  assumes "distinct (map fst es)" "fst ` set es \<subseteq> K" "finite K"
  shows "length es \<le> card K"
  using distinct_card [OF assms(1)] card_mono [OF assms(3,2)] by simp

lemma behind_step:
  assumes "behind K k v es" "keeps_key k x" "op_ok x" "finite K" "card (K \<union> (op_key x - {k})) < kMaxQueueSize"
  shows "behind (K \<union> (op_key x - {k})) k v (snd (recent_step x es))"
proof -
  have wf: "recent_wf es" and wf': "recent_wf (snd (recent_step x es))"
    using assms(1,3) recent_step_wf by (auto simp: behind_def)
  obtain pre post where es: "es = pre @ (k, v) # post" "fst ` set pre \<subseteq> K" using assms(1) by (auto simp: behind_def)
  show ?thesis
  proof (cases x)
    case (Op_Find k')
    consider "k' \<notin> fst ` set es" | "k' = k" | w where "k' \<noteq> k" "map_of es k' = Some w"
      by (metis domIff dom_map_of_conv_image_fst option.exhaust)
    then show ?thesis
    proof cases
      case 1
      then have "map_of es k' = None" by (simp add: map_of_eq_None_iff)
      then have "recent_step x es = (Found None, es)" using Op_Find by simp
      with es wf show ?thesis unfolding behind_def by (auto simp del: recent_step.simps)
    next
      case 2
      have "map_of es k = Some v" using wf es by (auto simp: recent_wf_def map_of_eq_None_iff map_add_Some_iff)
      then have "snd (recent_step x es) = [] @ (k, v) # filter (\<lambda>e. fst e \<noteq> k) es"
        using 2 Op_Find by (simp add: touch_def)
      with wf' show ?thesis
        unfolding behind_def by (intro conjI exI [of _ "[]"] exI [of _ "filter (\<lambda>e. fst e \<noteq> k) es"]) simp_all
    next
      case 3
      then have "snd (recent_step x es) = touch k' w pre @ (k, v) # filter (\<lambda>e. fst e \<noteq> k') post"
        using Op_Find es(1) touch_behind [OF 3(1)] by simp
      moreover have "fst ` set (touch k' w pre) \<subseteq> K \<union> (op_key x - {k})"
        using es(2) 3(1) Op_Find by (auto simp: keys_touch)
      ultimately show ?thesis using wf' unfolding behind_def by blast
    qed
  next
    case (Op_Add w k')
    with assms(2) have k': "k' \<noteq> k" by simp
    have keys: "fst ` set (touch k' w pre) \<subseteq> K \<union> (op_key x - {k})"
      using es(2) k' Op_Add by (auto simp: keys_touch)
    have "distinct (map fst (touch k' w pre))"
      using wf es(1) by (auto simp: recent_wf_def touch_def distinct_map_filter)
    then have "length (touch k' w pre) < kMaxQueueSize"
      using length_keys [OF _ keys] assms(4,5) Op_Add by simp
    then have "take kMaxQueueSize (touch k' w es) = touch k' w pre @ (k, v) #
        take (kMaxQueueSize - Suc (length (touch k' w pre))) (filter (\<lambda>e. fst e \<noteq> k') post)"
      using es k' by (simp add: touch_behind take_Cons')
    then have "snd (recent_step x es) = touch k' w pre @ (k, v) #
        take (kMaxQueueSize - Suc (length (touch k' w pre))) (filter (\<lambda>e. fst e \<noteq> k') post)"
      using Op_Add by (simp add: Let_def)
    with wf' keys show ?thesis unfolding behind_def by blast
  next
    case Op_Clear
    with assms(2) show ?thesis by simp
  qed
qed

lemma behind_run:
  assumes "behind K k v es" "\<forall>x\<in>set xs. keeps_key k x \<and> op_ok x" "finite K"
    and "card (K \<union> (\<Union>x\<in>set xs. op_key x) - {k}) < kMaxQueueSize" "k \<notin> K"
  shows "map_of (snd (recent_run xs es)) k = Some v"
  using assms
proof (induction xs arbitrary: K es)
  case Nil
  then obtain pre post where "es = pre @ (k, v) # post" "k \<notin> fst ` set pre" unfolding behind_def by blast
  then show ?case by (auto simp: map_of_eq_None_iff map_add_Some_iff)
next
  case (Cons x xs)
  let ?K = "K \<union> (op_key x - {k})"
  have eq: "?K \<union> (\<Union>x\<in>set xs. op_key x) - {k} = K \<union> (\<Union>x\<in>set (x # xs). op_key x) - {k}" by auto
  have fin: "finite (op_key y)" for y :: "'a lru_op" by (cases y) auto
  then have "card ?K \<le> card (K \<union> (\<Union>x\<in>set (x # xs). op_key x) - {k})"
    using Cons.prems(3,5) by (intro card_mono) auto
  then have "behind ?K k v (snd (recent_step x es))"
    using Cons.prems by (intro behind_step) auto
  moreover have "finite ?K" "k \<notin> ?K" using Cons.prems(3,5) fin by auto
  ultimately show ?case
    using Cons.IH [of ?K "snd (recent_step x es)"] Cons.prems(2,4) eq by (simp add: split_beta Let_def)
qed

text \<open>
  An image that was added is found again, as long as it was not replaced or cleared and fewer than
  nine other keys were used since.
\<close>

theorem recent_image_found:
  assumes "\<forall>x\<in>set xs. op_ok x" "k \<noteq> 0" "\<forall>y\<in>set ys. keeps_key k y \<and> op_ok y"
    and "card ((\<Union>y\<in>set ys. op_key y) - {k}) < kMaxQueueSize"
  shows "\<exists>outs c. lru_run (xs @ Op_Add v k # ys @ [Op_Find k]) ImageLRU_new = Inr (outs @ [Found v], c)"
proof -
  have run_append: "recent_run (as @ bs) es =
      (fst (recent_run as es) @ fst (recent_run bs (snd (recent_run as es))), snd (recent_run bs (snd (recent_run as es))))"
    for as bs :: "'a lru_op list" and es
    by (induction as arbitrary: es) (simp_all add: split_beta Let_def)
  let ?es = "snd (recent_run xs [])"
  have "recent_wf ?es" using lru_run_of [of "[]" xs] assms(1) by (simp add: recent_wf_def)
  then have "recent_wf (snd (recent_step (Op_Add v k) ?es))"
    using recent_step_wf [of ?es "Op_Add v k"] assms(2) by simp
  then have "behind {} k v (snd (recent_step (Op_Add v k) ?es))"
    unfolding behind_def by (auto simp: Let_def touch_def kMaxQueueSize_def)
  from behind_run [OF this assms(3)] assms(4)
  have "map_of (snd (recent_run ys (snd (recent_step (Op_Add v k) ?es)))) k = Some v" by simp
  then have "\<exists>outs. fst (recent_run (xs @ Op_Add v k # ys @ [Op_Find k]) []) = outs @ [Found v]"
    by (simp add: run_append split_beta Let_def)
  moreover have "\<forall>x\<in>set (xs @ Op_Add v k # ys @ [Op_Find k]). op_ok x" using assms(1-3) by auto
  ultimately show ?thesis
    using lru_run_of [of "[]" "xs @ Op_Add v k # ys @ [Op_Find k]"] by (auto simp: ImageLRU_new_of recent_wf_def)
qed

end
