(* ===== verification/Key_Map.thy ===== *)
theory Key_Map
  imports Prelude
begin

text \<open>
  \<open>shell/platform/windows/flutter_key_map.g.cc\<close>: the tables that take scan codes and virtual keys of
  Windows to the physical and logical keys of Flutter, entry by entry.  A lookup is \<open>map_of\<close>.
\<close>

definition windowsToPhysicalMap :: "(u64 \<times> u64) list" where
  "windowsToPhysicalMap =
    [(0x1, 0x70029), (0x2, 0x7001e), (0x3, 0x7001f), (0x4, 0x70020), (0x5, 0x70021), (0x6, 0x70022),
     (0x7, 0x70023), (0x8, 0x70024), (0x9, 0x70025), (0xa, 0x70026), (0xb, 0x70027), (0xc, 0x7002d),
     (0xd, 0x7002e), (0xe, 0x7002a), (0xf, 0x7002b), (0x10, 0x70014), (0x11, 0x7001a), (0x12, 0x70008),
     (0x13, 0x70015), (0x14, 0x70017), (0x15, 0x7001c), (0x16, 0x70018), (0x17, 0x7000c), (0x18, 0x70012),
     (0x19, 0x70013), (0x1a, 0x7002f), (0x1b, 0x70030), (0x1c, 0x70028), (0x1d, 0x700e0), (0x1e, 0x70004),
     (0x1f, 0x70016), (0x20, 0x70007), (0x21, 0x70009), (0x22, 0x7000a), (0x23, 0x7000b), (0x24, 0x7000d),
     (0x25, 0x7000e), (0x26, 0x7000f), (0x27, 0x70033), (0x28, 0x70034), (0x29, 0x70035), (0x2a, 0x700e1),
     (0x2b, 0x70031), (0x2c, 0x7001d), (0x2d, 0x7001b), (0x2e, 0x70006), (0x2f, 0x70019), (0x30, 0x70005),
     (0x31, 0x70011), (0x32, 0x70010), (0x33, 0x70036), (0x34, 0x70037), (0x35, 0x70038), (0x36, 0x700e5),
     (0x37, 0x70055), (0x38, 0x700e2), (0x39, 0x7002c), (0x3a, 0x70039), (0x3b, 0x7003a), (0x3c, 0x7003b),
     (0x3d, 0x7003c), (0x3e, 0x7003d), (0x3f, 0x7003e), (0x40, 0x7003f), (0x41, 0x70040), (0x42, 0x70041),
     (0x43, 0x70042), (0x44, 0x70043), (0x45, 0x70048), (0x46, 0x70047), (0x47, 0x7005f), (0x48, 0x70060),
     (0x49, 0x70061), (0x4a, 0x70056), (0x4b, 0x7005c), (0x4c, 0x7005d), (0x4d, 0x7005e), (0x4e, 0x70057),
     (0x4f, 0x70059), (0x50, 0x7005a), (0x51, 0x7005b), (0x52, 0x70062), (0x53, 0x70063), (0x56, 0x70064),
     (0x57, 0x70044), (0x58, 0x70045), (0x59, 0x70067), (0x64, 0x70068), (0x65, 0x70069), (0x66, 0x7006a),
     (0x67, 0x7006b), (0x68, 0x7006c), (0x69, 0x7006d), (0x6a, 0x7006e), (0x6b, 0x7006f), (0x6c, 0x70070),
     (0x6d, 0x70071), (0x6e, 0x70072), (0x70, 0x70088), (0x71, 0x70091), (0x72, 0x70090), (0x73, 0x70087),
     (0x76, 0x70073), (0x77, 0x70093), (0x78, 0x70092), (0x79, 0x7008a), (0x7b, 0x7008b), (0x7d, 0x70089),
     (0x7e, 0x70085), (0xfc, 0x70002), (0xff, 0x70001), (0xe008, 0x7007a), (0xe00a, 0x7007d),
     (0xe010, 0xc00b6), (0xe017, 0x7007b), (0xe018, 0x7007c), (0xe019, 0xc00b5), (0xe01c, 0x70058),
     (0xe01d, 0x700e4), (0xe020, 0x7007f), (0xe021, 0xc0192), (0xe022, 0xc00cd), (0xe024, 0xc00b7),
     (0xe02c, 0xc00b8), (0xe02e, 0x70081), (0xe030, 0x70080), (0xe032, 0xc0223), (0xe035, 0x70054),
     (0xe037, 0x70046), (0xe038, 0x700e6), (0xe03b, 0x70075), (0xe045, 0x70053), (0xe047, 0x7004a),
     (0xe048, 0x70052), (0xe049, 0x7004b), (0xe04b, 0x70050), (0xe04d, 0x7004f), (0xe04f, 0x7004d),
     (0xe050, 0x70051), (0xe051, 0x7004e), (0xe052, 0x70049), (0xe053, 0x7004c), (0xe05b, 0x700e3),
     (0xe05c, 0x700e7), (0xe05d, 0x70065), (0xe05e, 0x70066), (0xe05f, 0x10082), (0xe063, 0x10083),
     (0xe065, 0xc0221), (0xe066, 0xc022a), (0xe067, 0xc0227), (0xe068, 0xc0226), (0xe069, 0xc0225),
     (0xe06a, 0xc0224), (0xe06b, 0xc0194), (0xe06c, 0xc018a), (0xe06d, 0xc0183)]"

definition windowsToLogicalMap :: "(u64 \<times> u64) list" where
  "windowsToLogicalMap =
    [(0x3, 0x100000504), (0x8, 0x100000008), (0x9, 0x100000009), (0xc, 0x100000401), (0xd, 0x10000000d),
     (0x10, 0x200000102), (0x11, 0x200000100), (0x13, 0x100000509), (0x14, 0x100000104), (0x15, 0x200000010),
     (0x17, 0x100000713), (0x18, 0x100000706), (0x19, 0x100000719), (0x1b, 0x10000001b), (0x1c, 0x100000705),
     (0x1e, 0x100000501), (0x1f, 0x10000070b), (0x20, 0x20), (0x21, 0x100000308), (0x22, 0x100000307),
     (0x23, 0x100000305), (0x24, 0x100000306), (0x25, 0x100000302), (0x26, 0x100000304), (0x27, 0x100000303),
     (0x28, 0x100000301), (0x29, 0x10000050c), (0x2a, 0x100000a0c), (0x2b, 0x100000506), (0x2c, 0x100000608),
     (0x2d, 0x100000407), (0x2e, 0x10000007f), (0x2f, 0x100000508), (0x5b, 0x200000106), (0x5c, 0x200000107),
     (0x5d, 0x100000505), (0x5f, 0x200000002), (0x60, 0x200000230), (0x61, 0x200000231), (0x62, 0x200000232),
     (0x63, 0x200000233), (0x64, 0x200000234), (0x65, 0x200000235), (0x66, 0x200000236), (0x67, 0x200000237),
     (0x68, 0x200000238), (0x69, 0x200000239), (0x6a, 0x20000022a), (0x6b, 0x20000022b), (0x6c, 0x20000022c),
     (0x6d, 0x20000022d), (0x6e, 0x20000022e), (0x6f, 0x20000022f), (0x70, 0x100000801), (0x71, 0x100000802),
     (0x72, 0x100000803), (0x73, 0x100000804), (0x74, 0x100000805), (0x75, 0x100000806), (0x76, 0x100000807),
     (0x77, 0x100000808), (0x78, 0x100000809), (0x79, 0x10000080a), (0x7a, 0x10000080b), (0x7b, 0x10000080c),
     (0x7c, 0x10000080d), (0x7d, 0x10000080e), (0x7e, 0x10000080f), (0x7f, 0x100000810), (0x80, 0x100000811),
     (0x81, 0x100000812), (0x82, 0x100000813), (0x83, 0x100000814), (0x84, 0x100000815), (0x85, 0x100000816),
     (0x86, 0x100000817), (0x87, 0x100000818), (0x90, 0x10000010a), (0x91, 0x10000010c), (0x92, 0x20000023d),
     (0xa0, 0x200000102), (0xa1, 0x200000103), (0xa2, 0x200000100), (0xa3, 0x200000101), (0xa4, 0x200000104),
     (0xa5, 0x200000105), (0xa6, 0x100000c01), (0xa7, 0x100000c03), (0xa8, 0x100000c05), (0xa9, 0x100000c07),
     (0xaa, 0x100000c06), (0xab, 0x100000c02), (0xac, 0x100000c04), (0xad, 0x100000a11), (0xae, 0x100000a0f),
     (0xaf, 0x100000a10), (0xb2, 0x100000a07), (0xb3, 0x100000a05), (0xb4, 0x100000b03), (0xba, 0x3b),
     (0xbb, 0x3d), (0xbc, 0x2c), (0xbd, 0x2d), (0xbe, 0x2e), (0xbf, 0x2f), (0xc0, 0x60), (0xc3, 0x200000308),
     (0xc4, 0x200000309), (0xc5, 0x20000030a), (0xc6, 0x20000030b), (0xc7, 0x20000030c), (0xc8, 0x20000030d),
     (0xc9, 0x20000030e), (0xca, 0x20000030f), (0xcb, 0x200000310), (0xdb, 0x5b), (0xdc, 0x5c), (0xdd, 0x5d),
     (0xde, 0x22), (0xf6, 0x100000503), (0xfa, 0x10000050a)]"

definition scanCodeToLogicalMap :: "(u64 \<times> u64) list" where
  "scanCodeToLogicalMap =
    [(0x37, 0x20000022a), (0x47, 0x200000237), (0x48, 0x200000238), (0x49, 0x200000239), (0x4a, 0x20000022d),
     (0x4b, 0x200000234), (0x4c, 0x200000235), (0x4d, 0x200000236), (0x4e, 0x20000022b), (0x4f, 0x200000231),
     (0x50, 0x200000232), (0x51, 0x200000233), (0x52, 0x200000230), (0x53, 0x20000022e), (0x59, 0x20000023d),
     (0xe01d, 0x200000101), (0xe035, 0x20000022f), (0xe038, 0x200000105)]"

definition valueMask :: u64 where "valueMask = 0x000ffffffff"
definition unicodePlane :: u64 where "unicodePlane = 0x00000000000"
definition windowsPlane :: u64 where "windowsPlane = 0x01600000000"

text \<open>No table contains the key 0, which marks an absent key.\<close>

lemma key_maps_nonzero:
  "list_all (\<lambda>e. snd e \<noteq> 0) windowsToPhysicalMap"
  "list_all (\<lambda>e. snd e \<noteq> 0) windowsToLogicalMap"
  "list_all (\<lambda>e. snd e \<noteq> 0) scanCodeToLogicalMap"
  by (code_simp, code_simp, code_simp)

lemma map_of_nonzero: "list_all (\<lambda>e. snd e \<noteq> 0) m \<Longrightarrow> map_of m k = Some v \<Longrightarrow> v \<noteq> 0"
  by (force simp: list_all_iff dest: map_of_SomeD)

lemmas physical_nonzero = map_of_nonzero [OF key_maps_nonzero(1)]
  and logical_nonzero = map_of_nonzero [OF key_maps_nonzero(2)]
  and scan_logical_nonzero = map_of_nonzero [OF key_maps_nonzero(3)]

end
