(* ===== verification/Keyboard_Embedder.thy ===== *)
theory Keyboard_Embedder
  imports Key_Map
begin

text \<open>
  \<open>shell/platform/windows/keyboard_key_embedder_handler.cc\<close>: turns the key messages of Windows into key
  events for the framework, and synthesizes events that bring the framework's view of the modifier
  and lock keys in line with the state that Windows reports.

  An \<open>int\<close> or \<open>UINT\<close> is a \<open>u32\<close>.  \<open>get_key_state\<close> is what \<open>GetKeyState\<close> returns while a message is handled,
  callbacks are any type.  Events that are sent are recorded in \<open>kh_sent\<close> (with the id of the response
  that is expected, if any) and invoked callbacks in \<open>kh_replied\<close>, oldest first; sending does not call the
  handler back.  The time stamps of the events are left out.
\<close>

unbundle bit_operations_syntax

section \<open>Constants\<close>

text \<open>Message and virtual key codes of Windows.\<close>

definition WM_KEYDOWN :: u32 where "WM_KEYDOWN = 0x0100"
definition WM_KEYUP :: u32 where "WM_KEYUP = 0x0101"
definition WM_SYSKEYDOWN :: u32 where "WM_SYSKEYDOWN = 0x0104"
definition WM_SYSKEYUP :: u32 where "WM_SYSKEYUP = 0x0105"

definition VK_CAPITAL :: u32 where "VK_CAPITAL = 0x14"
definition VK_LWIN :: u32 where "VK_LWIN = 0x5B"
definition VK_RWIN :: u32 where "VK_RWIN = 0x5C"
definition VK_NUMLOCK :: u32 where "VK_NUMLOCK = 0x90"
definition VK_SCROLL :: u32 where "VK_SCROLL = 0x91"
definition VK_LSHIFT :: u32 where "VK_LSHIFT = 0xA0"
definition VK_RSHIFT :: u32 where "VK_RSHIFT = 0xA1"
definition VK_LCONTROL :: u32 where "VK_LCONTROL = 0xA2"
definition VK_RCONTROL :: u32 where "VK_RCONTROL = 0xA3"
definition VK_LMENU :: u32 where "VK_LMENU = 0xA4"
definition VK_RMENU :: u32 where "VK_RMENU = 0xA5"
definition VK_PROCESSKEY :: u32 where "VK_PROCESSKEY = 0xE5"

text \<open>\<open>keyboard_utils.h\<close> and the constants of the handler.\<close>

definition kShift :: u32 where "kShift = 1"
definition kControl :: u32 where "kControl = 8"
definition kScanCodeShiftLeft :: u64 where "kScanCodeShiftLeft = 0x2a"
definition kScanCodeShiftRight :: u64 where "kScanCodeShiftRight = 0x36"
definition kKeyCodeShiftLeft :: u64 where "kKeyCodeShiftLeft = 0xa0"
definition kScanCodeControlLeft :: u64 where "kScanCodeControlLeft = 0x1d"
definition kScanCodeControlRight :: u64 where "kScanCodeControlRight = 0xe01d"
definition kKeyCodeControlLeft :: u64 where "kKeyCodeControlLeft = 0xa2"
definition kDeadKeyCharMask :: u32 where "kDeadKeyCharMask = 0x80000000"
definition kStateMaskToggled :: u16 where "kStateMaskToggled = 0x01"
definition kStateMaskPressed :: u16 where "kStateMaskPressed = 0x80"

definition UndeadChar :: "u32 \<Rightarrow> u32" where
  "UndeadChar ch = ch AND NOT kDeadKeyCharMask"

section \<open>Characters\<close>

definition GetBit :: "u32 \<Rightarrow> nat \<Rightarrow> nat \<Rightarrow> u8" where
  "GetBit ch high low = ucast (drop_bit low ch AND mask (high - low))"

definition ConvertChar32ToUtf8 :: "u32 \<Rightarrow> u8 list result" where
  "ConvertChar32ToUtf8 ch =
     require DcheckFailed (ch \<le> 0x10FFFF)
       (Inr (if ch \<le> 0x007F then [ucast ch]
             else if ch \<le> 0x07FF then [0b11000000 + GetBit ch 11 6, 0b10000000 + GetBit ch 6 0]
             else if ch \<le> 0xFFFF then
               [0b11100000 + GetBit ch 16 12, 0b10000000 + GetBit ch 12 6, 0b10000000 + GetBit ch 6 0]
             else
               [0b11110000 + GetBit ch 21 18, 0b10000000 + GetBit ch 18 12, 0b10000000 + GetBit ch 12 6,
                0b10000000 + GetBit ch 6 0]))"

text \<open>The C string that \<open>ConvertUtf32ToUtf8_\<close> leaves in its buffer of eight bytes.\<close>

definition ConvertUtf32ToUtf8 :: "u32 \<Rightarrow> u8 list result" where
  "ConvertUtf32ToUtf8 ch = (if ch = 0 then Inr [] else ConvertChar32ToUtf8 ch)"

section \<open>Physical and logical keys\<close>

definition isEasciiPrintable :: "u32 \<Rightarrow> bool" where
  "isEasciiPrintable codeUnit =
     ((sint codeUnit \<le> 0x7f \<and> sint codeUnit \<ge> 0x20) \<or> (sint codeUnit \<le> 0xff \<and> sint codeUnit \<ge> 0x80))"

definition toLower :: "u64 \<Rightarrow> u64" where
  "toLower n =
     (if n \<ge> 0x41 \<and> n \<le> 0x5a then n - 0x41 + 0x61
      else if n \<ge> 0xc0 \<and> n \<le> 0xde \<and> n \<noteq> 0xf7 then n - 0xc0 + 0xe0
      else n)"

definition normalizeScancode :: "u32 \<Rightarrow> bool \<Rightarrow> u16" where
  "normalizeScancode windowsScanCode extended = ucast ((windowsScanCode AND 0xff) OR (if extended then 0xe000 else 0))"

definition ApplyPlaneToId :: "u64 \<Rightarrow> u64 \<Rightarrow> u64" where
  "ApplyPlaneToId i plane = (i AND valueMask) OR plane"

definition GetPhysicalKey :: "u32 \<Rightarrow> bool \<Rightarrow> u64" where
  "GetPhysicalKey scancode extended =
     (case map_of windowsToPhysicalMap (ucast (normalizeScancode scancode extended)) of
        Some key \<Rightarrow> key
      | None \<Rightarrow> ApplyPlaneToId (scast scancode) windowsPlane)"

definition GetLogicalKey :: "u32 \<Rightarrow> bool \<Rightarrow> u32 \<Rightarrow> u64" where
  "GetLogicalKey key extended scancode =
     (if key = VK_PROCESSKEY then ucast VK_PROCESSKEY
      else
        case map_of scanCodeToLogicalMap (ucast (normalizeScancode scancode extended)) of
          Some logical \<Rightarrow> logical
        | None \<Rightarrow>
            (case map_of windowsToLogicalMap (scast key) of
               Some logical \<Rightarrow> logical
             | None \<Rightarrow>
                 if isEasciiPrintable key then ApplyPlaneToId (toLower (scast key)) unicodePlane
                 else ApplyPlaneToId (toLower (scast key)) windowsPlane))"

section \<open>The handler\<close>

datatype FlutterKeyEventType = kFlutterKeyEventTypeUp | kFlutterKeyEventTypeDown | kFlutterKeyEventTypeRepeat

record FlutterKeyEvent =
  fe_type :: FlutterKeyEventType
  fe_physical :: u64
  fe_logical :: u64
  fe_character :: "u8 list"
  fe_synthesized :: bool

record CriticalKey =
  ck_physical_key :: u64
  ck_logical_key :: u64
  ck_check_pressed :: bool
  ck_check_toggled :: bool
  ck_toggled_on :: bool

record 'c KeyboardKeyEmbedderHandler =
  kh_pressingRecords :: "(u64 \<times> u64) list"
  kh_pending_responses :: "(u64 \<times> 'c) list"
  kh_response_id :: u64
  kh_sent_any_events :: bool
  kh_critical_keys :: "(u32 \<times> CriticalKey) list"
  kh_sent :: "(FlutterKeyEvent \<times> u64 option) list"
  kh_replied :: "('c \<times> bool) list"

type_synonym key_state = "u32 \<Rightarrow> u16"

definition true_toggled :: "key_state \<Rightarrow> u32 \<Rightarrow> bool" where
  "true_toggled get_key_state virtual_key = (get_key_state virtual_key AND kStateMaskToggled \<noteq> 0)"

definition true_pressed :: "key_state \<Rightarrow> u32 \<Rightarrow> bool" where
  "true_pressed get_key_state virtual_key = (get_key_state virtual_key AND kStateMaskPressed \<noteq> 0)"

definition createCheckedKey :: "key_state \<Rightarrow> (u32 \<Rightarrow> bool \<Rightarrow> u32) \<Rightarrow> u32 \<Rightarrow> bool \<Rightarrow> bool \<Rightarrow> bool \<Rightarrow> CriticalKey" where
  "createCheckedKey get_key_state map_virtual_key_to_scan_code virtual_key extended check_pressed check_toggled =
     (let scan_code = map_virtual_key_to_scan_code virtual_key extended
      in \<lparr>ck_physical_key = GetPhysicalKey scan_code extended,
          ck_logical_key = GetLogicalKey virtual_key extended scan_code,
          ck_check_pressed = check_pressed \<or> check_toggled, ck_check_toggled = check_toggled,
          ck_toggled_on = (if check_toggled then true_toggled get_key_state virtual_key else False)\<rparr>)"

definition InitCriticalKeys :: "key_state \<Rightarrow> (u32 \<Rightarrow> bool \<Rightarrow> u32) \<Rightarrow> (u32 \<times> CriticalKey) list" where
  "InitCriticalKeys get_key_state map_vk =
     fold (\<lambda>(vk, extended, check_pressed, check_toggled).
         omap_put vk (createCheckedKey get_key_state map_vk vk extended check_pressed check_toggled))
       [(VK_LSHIFT, False, True, False), (VK_RSHIFT, False, True, False), (VK_LCONTROL, False, True, False),
        (VK_RCONTROL, True, True, False), (VK_LMENU, False, True, False), (VK_RMENU, True, True, False),
        (VK_LWIN, True, True, False), (VK_RWIN, True, True, False), (VK_CAPITAL, False, True, True),
        (VK_SCROLL, False, True, True), (VK_NUMLOCK, True, True, True)] []"

definition KeyboardKeyEmbedderHandler_new :: "key_state \<Rightarrow> (u32 \<Rightarrow> bool \<Rightarrow> u32) \<Rightarrow> 'c KeyboardKeyEmbedderHandler" where
  "KeyboardKeyEmbedderHandler_new get_key_state map_vk =
     \<lparr>kh_pressingRecords = [], kh_pending_responses = [], kh_response_id = 1, kh_sent_any_events = False,
      kh_critical_keys = InitCriticalKeys get_key_state map_vk, kh_sent = [], kh_replied = []\<rparr>"

subsection \<open>Sending\<close>

definition SendEvent :: "FlutterKeyEvent \<Rightarrow> u64 option \<Rightarrow> 'c KeyboardKeyEmbedderHandler \<Rightarrow> 'c KeyboardKeyEmbedderHandler" where
  "SendEvent event response h = h\<lparr>kh_sent_any_events := True, kh_sent := kh_sent h @ [(event, response)]\<rparr>"

definition SynthesizeSimpleEvent :: "FlutterKeyEventType \<Rightarrow> u64 \<Rightarrow> u64 \<Rightarrow> u8 list \<Rightarrow> FlutterKeyEvent" where
  "SynthesizeSimpleEvent ty physical logical character =
     \<lparr>fe_type = ty, fe_physical = physical, fe_logical = logical, fe_character = character, fe_synthesized = True\<rparr>"

definition reply :: "'c \<Rightarrow> bool \<Rightarrow> 'c KeyboardKeyEmbedderHandler \<Rightarrow> 'c KeyboardKeyEmbedderHandler" where
  "reply callback handled h = h\<lparr>kh_replied := kh_replied h @ [(callback, handled)]\<rparr>"

definition press :: "u64 \<Rightarrow> u64 \<Rightarrow> 'c KeyboardKeyEmbedderHandler \<Rightarrow> 'c KeyboardKeyEmbedderHandler" where
  "press physical logical h = h\<lparr>kh_pressingRecords := omap_put physical logical (kh_pressingRecords h)\<rparr>"

definition release :: "u64 \<Rightarrow> 'c KeyboardKeyEmbedderHandler \<Rightarrow> 'c KeyboardKeyEmbedderHandler" where
  "release physical h = h\<lparr>kh_pressingRecords := omap_erase physical (kh_pressingRecords h)\<rparr>"

abbreviation record_of :: "'c KeyboardKeyEmbedderHandler \<Rightarrow> u64 \<Rightarrow> u64 option" where
  "record_of h \<equiv> map_of (kh_pressingRecords h)"

subsection \<open>Synchronization\<close>

definition UpdateLastSeenCriticalKey :: "u32 \<Rightarrow> u64 \<Rightarrow> u64 \<Rightarrow> 'c KeyboardKeyEmbedderHandler \<Rightarrow> 'c KeyboardKeyEmbedderHandler" where
  "UpdateLastSeenCriticalKey virtual_key physical_key logical_key h =
     (case map_of (kh_critical_keys h) virtual_key of
        None \<Rightarrow> h
      | Some key_info \<Rightarrow>
          h\<lparr>kh_critical_keys := omap_put virtual_key
              (key_info\<lparr>ck_physical_key := physical_key, ck_logical_key := logical_key\<rparr>) (kh_critical_keys h)\<rparr>)"

text \<open>One round of the loop over \<open>critical_keys_\<close>: the key's new information, and the flag of the event.\<close>

definition sync_toggled_key ::
  "key_state \<Rightarrow> u32 \<Rightarrow> bool \<Rightarrow> u32 \<Rightarrow> CriticalKey \<Rightarrow> bool \<Rightarrow> 'c KeyboardKeyEmbedderHandler
   \<Rightarrow> (CriticalKey \<times> bool \<times> 'c KeyboardKeyEmbedderHandler) result" where
  "sync_toggled_key get_key_state event_virtual_key is_event_down virtual_key key_info event_key_can_be_repeat h =
     (if ck_physical_key key_info = 0 then Inr (key_info, event_key_can_be_repeat, h)
      else
        require DcheckFailed (ck_logical_key key_info \<noteq> 0)
          (if ck_check_toggled key_info then
             let physical = ck_physical_key key_info;
                 logical = ck_logical_key key_info;
                 target_is_pressed = (record_of h physical \<noteq> None);
                 toggled = true_toggled get_key_state virtual_key;
                 pre_event_toggled =
                   (if virtual_key = event_virtual_key \<and> \<not> target_is_pressed \<and> is_event_down then \<not> toggled else toggled);
                 (can_be_repeat, h) =
                   (if ck_toggled_on key_info \<noteq> pre_event_toggled then
                      let h = (if target_is_pressed
                               then SendEvent (SynthesizeSimpleEvent kFlutterKeyEventTypeUp physical logical []) None h else h);
                          h = press physical logical h;
                          h = SendEvent (SynthesizeSimpleEvent kFlutterKeyEventTypeDown physical logical []) None h
                      in (False, h)
                    else (event_key_can_be_repeat, h))
             in Inr (key_info\<lparr>ck_toggled_on := toggled\<rparr>, can_be_repeat, h)
           else Inr (key_info, event_key_can_be_repeat, h)))"

fun sync_toggled_keys ::
  "key_state \<Rightarrow> u32 \<Rightarrow> bool \<Rightarrow> (u32 \<times> CriticalKey) list \<Rightarrow> bool \<Rightarrow> 'c KeyboardKeyEmbedderHandler
   \<Rightarrow> ((u32 \<times> CriticalKey) list \<times> bool \<times> 'c KeyboardKeyEmbedderHandler) result" where
  "sync_toggled_keys get_key_state evk down [] can_be_repeat h = Inr ([], can_be_repeat, h)"
| "sync_toggled_keys get_key_state evk down ((vk, key_info) # kvs) can_be_repeat h =
     rbind (sync_toggled_key get_key_state evk down vk key_info can_be_repeat h) (\<lambda>(key_info, can_be_repeat, h).
     rbind (sync_toggled_keys get_key_state evk down kvs can_be_repeat h) (\<lambda>(kvs, can_be_repeat, h).
       Inr ((vk, key_info) # kvs, can_be_repeat, h)))"

definition SynchronizeCriticalToggledStates ::
  "key_state \<Rightarrow> u32 \<Rightarrow> bool \<Rightarrow> bool \<Rightarrow> 'c KeyboardKeyEmbedderHandler \<Rightarrow> (bool \<times> 'c KeyboardKeyEmbedderHandler) result" where
  "SynchronizeCriticalToggledStates get_key_state event_virtual_key is_event_down event_key_can_be_repeat h =
     rbind (sync_toggled_keys get_key_state event_virtual_key is_event_down (kh_critical_keys h) event_key_can_be_repeat h)
       (\<lambda>(kvs, can_be_repeat, h). Inr (can_be_repeat, h\<lparr>kh_critical_keys := kvs\<rparr>))"

text \<open>
  The physical key of the event is passed as an \<open>int\<close>, and widened again for the comparison.  A key
  that the loop skips has no target state.
\<close>

definition as_int :: "u64 \<Rightarrow> u64" where
  "as_int physical = scast (ucast physical :: u32)"

definition pressed_target :: "key_state \<Rightarrow> u32 \<Rightarrow> u64 \<Rightarrow> bool \<Rightarrow> bool \<Rightarrow> u32 \<Rightarrow> CriticalKey \<Rightarrow> bool option" where
  "pressed_target get_key_state event_virtual_key event_physical_key is_event_down event_key_can_be_repeat virtual_key key_info =
     (let pre_event_pressed = true_pressed get_key_state virtual_key
      in if is_event_down then
           if virtual_key = event_virtual_key then
             if event_key_can_be_repeat then None else Some False
           else Some pre_event_pressed
         else if as_int event_physical_key = ck_physical_key key_info then None
         else Some pre_event_pressed)"

definition sync_pressed_key ::
  "key_state \<Rightarrow> u32 \<Rightarrow> u64 \<Rightarrow> bool \<Rightarrow> bool \<Rightarrow> u32 \<times> CriticalKey \<Rightarrow> 'c KeyboardKeyEmbedderHandler
   \<Rightarrow> 'c KeyboardKeyEmbedderHandler result" where
  "sync_pressed_key get_key_state evk ephys down can_be_repeat kv h =
     (let (virtual_key, key_info) = kv
      in if ck_physical_key key_info = 0 then Inr h
         else
           require DcheckFailed (ck_logical_key key_info \<noteq> 0)
             (if ck_check_pressed key_info then
                let physical = ck_physical_key key_info;
                    logical = ck_logical_key key_info;
                    now_pressed = (record_of h physical \<noteq> None)
                in case pressed_target get_key_state evk ephys down can_be_repeat virtual_key key_info of
                     None \<Rightarrow> Inr h
                   | Some pre_event_pressed \<Rightarrow>
                       if now_pressed \<noteq> pre_event_pressed then
                         let h = (if now_pressed then release physical h else press physical logical h)
                         in Inr (SendEvent (SynthesizeSimpleEvent
                              (if now_pressed then kFlutterKeyEventTypeUp else kFlutterKeyEventTypeDown) physical logical []) None h)
                       else Inr h
              else Inr h))"

fun sync_pressed_keys ::
  "key_state \<Rightarrow> u32 \<Rightarrow> u64 \<Rightarrow> bool \<Rightarrow> bool \<Rightarrow> (u32 \<times> CriticalKey) list \<Rightarrow> 'c KeyboardKeyEmbedderHandler
   \<Rightarrow> 'c KeyboardKeyEmbedderHandler result" where
  "sync_pressed_keys get_key_state evk ephys down can_be_repeat [] h = Inr h"
| "sync_pressed_keys get_key_state evk ephys down can_be_repeat (kv # kvs) h =
     rbind (sync_pressed_key get_key_state evk ephys down can_be_repeat kv h)
       (sync_pressed_keys get_key_state evk ephys down can_be_repeat kvs)"

definition SynchronizeCriticalPressedStates ::
  "key_state \<Rightarrow> u32 \<Rightarrow> u64 \<Rightarrow> bool \<Rightarrow> bool \<Rightarrow> 'c KeyboardKeyEmbedderHandler \<Rightarrow> 'c KeyboardKeyEmbedderHandler result" where
  "SynchronizeCriticalPressedStates get_key_state evk ephys down can_be_repeat h =
     sync_pressed_keys get_key_state evk ephys down can_be_repeat (kh_critical_keys h) h"

subsection \<open>Key messages\<close>

text \<open>What becomes of the message itself, given the record of its physical key after the synchronization.\<close>

datatype main_event = Ignored | Send FlutterKeyEventType "u8 list" u64 u64

definition decide_event :: "bool \<Rightarrow> bool \<Rightarrow> u32 \<Rightarrow> u64 \<Rightarrow> u64 option \<Rightarrow> main_event result" where
  "decide_event is_event_down was_down character logical_key pressing_record =
     (let had_record = (pressing_record \<noteq> None);
          last_logical_record = (case pressing_record of None \<Rightarrow> 0 | Some r \<Rightarrow> r)
      in if is_event_down then
           if had_record then
             if was_down then
               rbind (ConvertUtf32ToUtf8 character) (\<lambda>bytes.
                 Inr (Send kFlutterKeyEventTypeRepeat bytes last_logical_record last_logical_record))
             else Inr Ignored
           else
             rbind (ConvertUtf32ToUtf8 character) (\<lambda>bytes.
               Inr (Send kFlutterKeyEventTypeDown bytes logical_key logical_key))
         else if last_logical_record = 0 then Inr Ignored
         else require DcheckFailed had_record (Inr (Send kFlutterKeyEventTypeUp [] 0 last_logical_record)))"

definition store_record :: "u64 \<Rightarrow> u64 \<Rightarrow> 'c KeyboardKeyEmbedderHandler \<Rightarrow> 'c KeyboardKeyEmbedderHandler result" where
  "store_record physical_key eventual_logical_record h =
     (if eventual_logical_record \<noteq> 0 then Inr (press physical_key eventual_logical_record h)
      else if record_of h physical_key \<noteq> None then Inr (release physical_key h)
      else Inl DcheckFailed)"

definition send_main_event :: "FlutterKeyEvent \<Rightarrow> 'c \<Rightarrow> 'c KeyboardKeyEmbedderHandler \<Rightarrow> 'c KeyboardKeyEmbedderHandler" where
  "send_main_event key_data callback h =
     (let response_id = kh_response_id h + 1;
          h = h\<lparr>kh_response_id := response_id,
                kh_pending_responses := omap_put response_id callback (kh_pending_responses h)\<rparr>
      in SendEvent key_data (Some response_id) h)"

record key_message =
  km_key :: u32
  km_scancode :: u32
  km_action :: u32
  km_character :: u32
  km_extended :: bool
  km_was_down :: bool

definition key_action_ok :: "u32 \<Rightarrow> bool" where
  "key_action_ok action = (action = WM_KEYDOWN \<or> action = WM_KEYUP \<or> action = WM_SYSKEYDOWN \<or> action = WM_SYSKEYUP)"

definition KeyboardHookImpl ::
  "key_state \<Rightarrow> key_message \<Rightarrow> 'c \<Rightarrow> 'c KeyboardKeyEmbedderHandler \<Rightarrow> 'c KeyboardKeyEmbedderHandler result" where
  "KeyboardHookImpl get_key_state m callback h =
     (let physical_key = GetPhysicalKey (km_scancode m) (km_extended m);
          logical_key = GetLogicalKey (km_key m) (km_extended m) (km_scancode m)
      in require DcheckFailed (key_action_ok (km_action m))
        (let sequence_logical_key = (case record_of h physical_key of None \<Rightarrow> logical_key | Some r \<Rightarrow> r)
         in if sequence_logical_key = ucast VK_PROCESSKEY then Inr (reply callback True h)
            else
              let is_event_down = (km_action m = WM_KEYDOWN \<or> km_action m = WM_SYSKEYDOWN);
                  h = UpdateLastSeenCriticalKey (km_key m) physical_key sequence_logical_key h
              in rbind (SynchronizeCriticalToggledStates get_key_state (km_key m) is_event_down True h) (\<lambda>(can_be_repeat, h).
                 rbind (SynchronizeCriticalPressedStates get_key_state (km_key m) physical_key is_event_down can_be_repeat h) (\<lambda>h.
                 rbind (decide_event is_event_down (km_was_down m) (UndeadChar (km_character m)) logical_key (record_of h physical_key)) (\<lambda>ev.
                   case ev of
                     Ignored \<Rightarrow> Inr (reply callback True h)
                   | Send ty bytes eventual_logical_record result_logical_key \<Rightarrow>
                       rbind (store_record physical_key eventual_logical_record h) (\<lambda>h.
                         let h = send_main_event
                           \<lparr>fe_type = ty, fe_physical = physical_key, fe_logical = result_logical_key,
                            fe_character = bytes, fe_synthesized = False\<rparr> callback h
                         in SynchronizeCriticalPressedStates get_key_state (km_key m) physical_key is_event_down can_be_repeat h))))))"

definition empty_event :: FlutterKeyEvent where
  "empty_event =
     \<lparr>fe_type = kFlutterKeyEventTypeDown, fe_physical = 0, fe_logical = 0, fe_character = [], fe_synthesized = False\<rparr>"

definition KeyboardHook ::
  "key_state \<Rightarrow> key_message \<Rightarrow> 'c \<Rightarrow> 'c KeyboardKeyEmbedderHandler \<Rightarrow> 'c KeyboardKeyEmbedderHandler result" where
  "KeyboardHook get_key_state m callback h =
     rbind (KeyboardHookImpl get_key_state m callback (h\<lparr>kh_sent_any_events := False\<rparr>)) (\<lambda>h.
       Inr (if \<not> kh_sent_any_events h then SendEvent empty_event None h else h))"

definition GetPressedState :: "'c KeyboardKeyEmbedderHandler \<Rightarrow> (u64 \<times> u64) list" where
  "GetPressedState h = kh_pressingRecords h"

text \<open>The framework answers an event; the pointer it passes refers to the pending response.\<close>

definition HandleResponse :: "bool \<Rightarrow> u64 \<Rightarrow> 'c KeyboardKeyEmbedderHandler \<Rightarrow> 'c KeyboardKeyEmbedderHandler result" where
  "HandleResponse handled response_id h =
     (case map_of (kh_pending_responses h) response_id of
        None \<Rightarrow> Inl Undefined
      | Some callback \<Rightarrow>
          Inr (reply callback handled (h\<lparr>kh_pending_responses := omap_erase response_id (kh_pending_responses h)\<rparr>)))"

subsection \<open>Modifiers without a key message\<close>

definition SendSynthesizeDownEvent :: "u64 \<Rightarrow> u64 \<Rightarrow> 'c KeyboardKeyEmbedderHandler \<Rightarrow> 'c KeyboardKeyEmbedderHandler" where
  "SendSynthesizeDownEvent physical logical h =
     press physical logical (SendEvent (SynthesizeSimpleEvent kFlutterKeyEventTypeDown physical logical []) None h)"

definition SendSynthesizeUpEvent :: "u64 \<Rightarrow> u64 \<Rightarrow> 'c KeyboardKeyEmbedderHandler \<Rightarrow> 'c KeyboardKeyEmbedderHandler" where
  "SendSynthesizeUpEvent physical logical h =
     release physical (SendEvent (SynthesizeSimpleEvent kFlutterKeyEventTypeUp physical logical []) None h)"

definition SynthesizeIfNeeded ::
  "u64 \<Rightarrow> u64 \<Rightarrow> u64 \<Rightarrow> bool \<Rightarrow> 'c KeyboardKeyEmbedderHandler \<Rightarrow> 'c KeyboardKeyEmbedderHandler" where
  "SynthesizeIfNeeded physical_left physical_right logical_left is_pressed h =
     (let left = record_of h physical_left;
          right = record_of h physical_right;
          already_pressed = (left \<noteq> None \<or> right \<noteq> None);
          synthesize_down = (is_pressed \<and> \<not> already_pressed);
          synthesize_up = (\<not> is_pressed \<and> already_pressed);
          h = (if synthesize_down then SendSynthesizeDownEvent physical_left logical_left h else h);
          h = (case left of Some known_logical \<Rightarrow> if synthesize_up then SendSynthesizeUpEvent physical_left known_logical h else h
               | None \<Rightarrow> h);
          h = (case right of Some known_logical \<Rightarrow> if synthesize_up then SendSynthesizeUpEvent physical_right known_logical h else h
               | None \<Rightarrow> h)
      in h)"

definition SyncModifiersIfNeeded :: "u32 \<Rightarrow> 'c KeyboardKeyEmbedderHandler \<Rightarrow> 'c KeyboardKeyEmbedderHandler result" where
  "SyncModifiersIfNeeded modifiers_state h =
     rbind (map_at (map_of windowsToPhysicalMap) kScanCodeShiftLeft) (\<lambda>physical_shift_left.
     rbind (map_at (map_of windowsToPhysicalMap) kScanCodeShiftRight) (\<lambda>physical_shift_right.
     rbind (map_at (map_of windowsToLogicalMap) kKeyCodeShiftLeft) (\<lambda>logical_shift_left.
     rbind (map_at (map_of windowsToPhysicalMap) kScanCodeControlLeft) (\<lambda>physical_control_left.
     rbind (map_at (map_of windowsToPhysicalMap) kScanCodeControlRight) (\<lambda>physical_control_right.
     rbind (map_at (map_of windowsToLogicalMap) kKeyCodeControlLeft) (\<lambda>logical_control_left.
       let h = SynthesizeIfNeeded physical_shift_left physical_shift_right logical_shift_left
             (modifiers_state AND kShift \<noteq> 0) h
       in Inr (SynthesizeIfNeeded physical_control_left physical_control_right logical_control_left
             (modifiers_state AND kControl \<noteq> 0) h)))))))"

end
