(* ===== verification/Keyboard_Embedder_Spec.thy ===== *)
theory Keyboard_Embedder_Spec
  imports Keyboard_Embedder Unicode
begin

text \<open>
  What the framework may rely on: the events of the handler are accepted by an automaton that keeps the
  pressed keys, which always agree with the handler's records; and the modifier and lock keys follow the
  state that Windows reports.
\<close>

section \<open>Characters\<close>

text \<open>The handler's own encoder is the UTF-8 of the other components.\<close>

unbundle bit_operations_syntax

lemma GetBit_eq: "GetBit ch high low = word_of_int (uint ch div 2 ^ low mod 2 ^ (high - low))"
proof -
  have "uint (take_bit (high - low) (drop_bit low ch)) = take_bit (high - low) (drop_bit low (uint ch))"
    by (rule bit_eqI) (auto simp: bit_uint_iff bit_take_bit_iff bit_drop_bit_eq dest: bit_imp_le_length)
  moreover have "take_bit k (drop_bit low (uint ch)) = uint ch div 2 ^ low mod 2 ^ k" for k
    by (simp only: take_bit_eq_mod drop_bit_eq_div)
  moreover have "drop_bit low ch AND mask (high - low) = take_bit (high - low) (drop_bit low ch)" by (simp only: take_bit_eq_mask)
  ultimately have "uint (drop_bit low ch AND mask (high - low)) = uint ch div 2 ^ low mod 2 ^ (high - low)" by metis
  then show ?thesis unfolding GetBit_def by (simp only: ucast_eq)
qed

lemma top_bits:
  assumes "uint (ch::u32) < 2 ^ (low + n)"
  shows "uint ch div 2 ^ low mod 2 ^ n = uint ch div 2 ^ low"
proof -
  have "\<not> 2 ^ n \<le> uint ch div 2 ^ low"
  proof
    assume "2 ^ n \<le> uint ch div 2 ^ low"
    then have "2 ^ n * 2 ^ low \<le> uint ch div 2 ^ low * 2 ^ low" by (rule mult_right_mono) simp
    also have "\<dots> \<le> uint ch" by (simp add: minus_mod_eq_div_mult [symmetric])
    finally show False using assms by (simp add: power_add mult.commute)
  qed
  then show ?thesis by (simp add: pos_imp_zdiv_nonneg_iff)
qed

lemma ConvertChar32_encode8:
  assumes "ch \<le> 0x10FFFF"
  shows "ConvertChar32ToUtf8 ch = Inr (encode8 (uint ch))"
proof -
  have u: "uint ch \<le> 0x10FFFF" using assms by (simp add: word_le_def)
  consider "uint ch < 0x80" | "0x80 \<le> uint ch" "uint ch < 0x800" | "0x800 \<le> uint ch" "uint ch < 0x10000" | "0x10000 \<le> uint ch"
    by linarith
  then show ?thesis
  proof cases
    case 1
    then show ?thesis by (simp add: ConvertChar32ToUtf8_def encode8_def word_le_def)
  next
    case 2
    then show ?thesis using top_bits [of ch 6 5]
      by (simp add: ConvertChar32ToUtf8_def encode8_def word_le_def GetBit_eq marked_def)
  next
    case 3
    then show ?thesis using top_bits [of ch 12 4]
      by (simp add: ConvertChar32ToUtf8_def encode8_def word_le_def GetBit_eq marked_def)
  next
    case 4
    then show ?thesis using u top_bits [of ch 18 3]
      by (simp add: ConvertChar32ToUtf8_def encode8_def word_le_def GetBit_eq marked_def)
  qed
qed
section \<open>The framework's view\<close>

text \<open>
  The rules of \<open>FlutterKeyEvent\<close> in \<open>embedder.h\<close>: a key goes down only when it is up, goes up or
  repeats only when it is down, and does so with the logical key of its down event.  The empty event
  changes nothing.  The automaton has two versions: the strict one has the rules as they are, the other
  (\<open>strict = False\<close>) lets a synthesized up event carry any logical key, because the handler does not
  always send the one of the down event there.
\<close>

definition framework_step :: "bool \<Rightarrow> FlutterKeyEvent \<Rightarrow> (u64 \<rightharpoonup> u64) \<Rightarrow> (u64 \<rightharpoonup> u64) option" where
  "framework_step strict e m =
     (if e = empty_event then Some m
      else if fe_physical e = 0 \<or> fe_logical e = 0 then None
      else
        case fe_type e of
          kFlutterKeyEventTypeDown \<Rightarrow> if m (fe_physical e) = None then Some (m(fe_physical e \<mapsto> fe_logical e)) else None
        | kFlutterKeyEventTypeUp \<Rightarrow>
            if m (fe_physical e) = Some (fe_logical e) \<or> m (fe_physical e) \<noteq> None \<and> fe_synthesized e \<and> \<not> strict
            then Some (m(fe_physical e := None)) else None
        | kFlutterKeyEventTypeRepeat \<Rightarrow> if m (fe_physical e) = Some (fe_logical e) then Some m else None)"

fun framework_run :: "bool \<Rightarrow> FlutterKeyEvent list \<Rightarrow> (u64 \<rightharpoonup> u64) \<Rightarrow> (u64 \<rightharpoonup> u64) option" where
  "framework_run strict [] m = Some m"
| "framework_run strict (e # es) m = Option.bind (framework_step strict e m) (framework_run strict es)"

lemma framework_run_append:
  "framework_run s (es @ fs) m = Option.bind (framework_run s es m) (framework_run s fs)"
  by (induction es arbitrary: m) (simp_all add: Option.bind_assoc cong: Option.bind_cong split: bind_splits)

section \<open>Invariants\<close>

text \<open>
  The logical keys that the strict rules require of physical keys; \<open>None\<close> is the other version.
\<close>

type_synonym key_rule = "(u64 \<rightharpoonup> u64) option"

definition rule_ok :: "key_rule \<Rightarrow> u64 \<Rightarrow> u64 \<Rightarrow> bool" where
  "rule_ok L p l \<longleftrightarrow> (case L of None \<Rightarrow> True | Some f \<Rightarrow> (\<forall>l'. f p = Some l' \<longrightarrow> l = l'))"

lemma rule_ok_None [simp]: "rule_ok None p l"
  by (simp add: rule_ok_def)

text \<open>
  The events sent between two states lead the framework from the records of one to those of the other,
  and the flag is only set by sending.
\<close>

definition extends :: "bool \<Rightarrow> 'c KeyboardKeyEmbedderHandler \<Rightarrow> 'c KeyboardKeyEmbedderHandler \<Rightarrow> bool" where
  "extends s h h' \<longleftrightarrow>
     (\<exists>es. kh_sent h' = kh_sent h @ es \<and> framework_run s (map fst es) (record_of h) = Some (record_of h') \<and>
       (kh_sent_any_events h' \<longrightarrow> kh_sent_any_events h \<or> es \<noteq> []))"

definition records_ok :: "key_rule \<Rightarrow> 'c KeyboardKeyEmbedderHandler \<Rightarrow> bool" where
  "records_ok L h \<longleftrightarrow> (\<forall>p l. record_of h p = Some l \<longrightarrow> p \<noteq> 0 \<and> l \<noteq> 0 \<and> rule_ok L p l)"

definition key_ok :: "key_rule \<Rightarrow> CriticalKey \<Rightarrow> bool" where
  "key_ok L k \<longleftrightarrow> ck_physical_key k \<noteq> 0 \<and> ck_logical_key k \<noteq> 0 \<and>
     (case L of None \<Rightarrow> True | Some f \<Rightarrow> f (ck_physical_key k) = Some (ck_logical_key k))"

definition keys_ok :: "key_rule \<Rightarrow> (u32 \<times> CriticalKey) list \<Rightarrow> bool" where
  "keys_ok L kvs \<longleftrightarrow> (\<forall>kv\<in>set kvs. key_ok L (snd kv))"

lemma key_okD:
  assumes "key_ok L k"
  shows "ck_physical_key k \<noteq> 0" "ck_logical_key k \<noteq> 0" "rule_ok L (ck_physical_key k) (ck_logical_key k)"
    "L \<noteq> None \<Longrightarrow> rule_ok L (ck_physical_key k) l \<Longrightarrow> l = ck_logical_key k"
  using assms by (auto simp: key_ok_def rule_ok_def split: option.splits)

lemma key_ok_None: "key_ok None k \<longleftrightarrow> ck_physical_key k \<noteq> 0 \<and> ck_logical_key k \<noteq> 0"
  by (simp add: key_ok_def)

text \<open>What the synchronization leaves alone.\<close>

definition same_rest :: "'c KeyboardKeyEmbedderHandler \<Rightarrow> 'c KeyboardKeyEmbedderHandler \<Rightarrow> bool" where
  "same_rest h h' \<longleftrightarrow> kh_critical_keys h' = kh_critical_keys h \<and> kh_pending_responses h' = kh_pending_responses h \<and>
     kh_response_id h' = kh_response_id h \<and> kh_replied h' = kh_replied h"

definition evolves :: "key_rule \<Rightarrow> 'c KeyboardKeyEmbedderHandler \<Rightarrow> 'c KeyboardKeyEmbedderHandler \<Rightarrow> bool" where
  "evolves L h h' \<longleftrightarrow> same_rest h h' \<and> (records_ok L h \<longrightarrow> records_ok L h' \<and> extends (L \<noteq> None) h h')"

lemma extends_refl [simp]: "extends s h h"
  by (auto simp: extends_def)

lemma extends_trans: "extends s h h' \<Longrightarrow> extends s h' h'' \<Longrightarrow> extends s h h''"
  by (force simp: extends_def framework_run_append)

lemma extends_select:
  assumes "kh_sent e = kh_sent h'" "kh_pressingRecords e = kh_pressingRecords h'"
    "kh_sent_any_events e = kh_sent_any_events h'"
  shows "extends s h e = extends s h h'" "records_ok L e = records_ok L h'"
  using assms by (simp_all only: extends_def records_ok_def)

lemma reply_sel [simp]:
  "kh_pressingRecords (reply c b h) = kh_pressingRecords h" "kh_critical_keys (reply c b h) = kh_critical_keys h"
  "kh_sent (reply c b h) = kh_sent h" "kh_sent_any_events (reply c b h) = kh_sent_any_events h" "kh_response_id (reply c b h) = kh_response_id h"
  "kh_pending_responses (reply c b h) = kh_pending_responses h" "kh_replied (reply c b h) = kh_replied h @ [(c, b)]"
  by (simp_all add: reply_def)

lemma extends_reply [simp]: "extends s h (reply c b h') = extends s h h'" "records_ok L (reply c b h) = records_ok L h"
  by (rule extends_select; simp)+

lemma evolves_refl [simp]: "evolves L h h"
  by (simp add: evolves_def same_rest_def)

lemma evolves_trans: "evolves L h h' \<Longrightarrow> evolves L h' h'' \<Longrightarrow> evolves L h h''"
  by (auto simp: evolves_def same_rest_def intro: extends_trans)

lemma evolvesI:
  "same_rest h h' \<Longrightarrow> (records_ok L h \<Longrightarrow> records_ok L h' \<and> extends (L \<noteq> None) h h') \<Longrightarrow> evolves L h h'"
  by (simp add: evolves_def)

lemma evolvesD:
  assumes "evolves L h h'"
  shows "same_rest h h'" "records_ok L h \<Longrightarrow> records_ok L h'" "records_ok L h \<Longrightarrow> extends (L \<noteq> None) h h'"
  using assms by (simp_all add: evolves_def)

lemma press_sel [simp]:
  "record_of (press p l h) = (record_of h)(p \<mapsto> l)" "kh_sent (press p l h) = kh_sent h"
  "same_rest h (press p l h)"
  by (simp_all add: press_def same_rest_def)

lemma release_sel [simp]:
  "record_of (release p h) = (record_of h)(p := None)" "kh_sent (release p h) = kh_sent h"
  "same_rest h (release p h)"
  by (simp_all add: release_def same_rest_def)

lemma SendEvent_sel [simp]:
  "kh_pressingRecords (SendEvent e r h) = kh_pressingRecords h" "kh_sent (SendEvent e r h) = kh_sent h @ [(e, r)]"
  "kh_critical_keys (SendEvent e r h) = kh_critical_keys h" "kh_pending_responses (SendEvent e r h) = kh_pending_responses h"
  "kh_response_id (SendEvent e r h) = kh_response_id h" "kh_replied (SendEvent e r h) = kh_replied h"
  "kh_sent_any_events (SendEvent e r h)"
  by (simp_all add: SendEvent_def)

lemma synthesized_not_empty [simp]: "SynthesizeSimpleEvent ty p l c \<noteq> empty_event"
  by (simp add: SynthesizeSimpleEvent_def empty_event_def)

lemma synthesized_sel [simp]:
  "fe_type (SynthesizeSimpleEvent ty p l c) = ty" "fe_physical (SynthesizeSimpleEvent ty p l c) = p"
  "fe_logical (SynthesizeSimpleEvent ty p l c) = l" "fe_synthesized (SynthesizeSimpleEvent ty p l c)"
  by (simp_all add: SynthesizeSimpleEvent_def)

lemma synthesized_step:
  "framework_step s (SynthesizeSimpleEvent kFlutterKeyEventTypeDown p l c) m =
     (if p \<noteq> 0 \<and> l \<noteq> 0 \<and> m p = None then Some (m(p \<mapsto> l)) else None)"
  "framework_step s (SynthesizeSimpleEvent kFlutterKeyEventTypeUp p l c) m =
     (if p \<noteq> 0 \<and> l \<noteq> 0 \<and> (m p = Some l \<or> m p \<noteq> None \<and> \<not> s) then Some (m(p := None)) else None)"
  by (simp_all add: framework_step_def)

text \<open>A synthesized event with its change of the records, in the order of the synchronization.\<close>

lemma synthesize_down_evolves:
  assumes "record_of h p = None" "p \<noteq> 0" "l \<noteq> 0" "rule_ok L p l"
  shows "evolves L h (SendEvent (SynthesizeSimpleEvent kFlutterKeyEventTypeDown p l c) r (press p l h))"
  using assms by (auto simp: evolves_def extends_def same_rest_def records_ok_def press_def synthesized_step)

lemma synthesize_up_evolves:
  assumes "record_of h p = Some l' " "p \<noteq> 0" "l \<noteq> 0" "L \<noteq> None \<Longrightarrow> rule_ok L p l' \<Longrightarrow> l = l'"
  shows "evolves L h (SendEvent (SynthesizeSimpleEvent kFlutterKeyEventTypeUp p l c) r (release p h))"
  using assms by (auto simp: evolves_def extends_def same_rest_def records_ok_def release_def synthesized_step)

section \<open>Synchronization\<close>

lemma sync_toggled_key_evolves:
  assumes "key_ok L k"
  obtains b h' where "sync_toggled_key gs evk down vk k r h =
      Inr (k\<lparr>ck_toggled_on := (if ck_check_toggled k then true_toggled gs vk else ck_toggled_on k)\<rparr>, b, h')"
    "evolves L h h'" "\<And>p. p \<noteq> ck_physical_key k \<Longrightarrow> record_of h' p = record_of h p"
proof -
  let ?p = "ck_physical_key k" and ?l = "ck_logical_key k"
  note nz = key_okD [OF assms]
  let ?pre = "if vk = evk \<and> \<not> record_of h ?p \<noteq> None \<and> down then \<not> true_toggled gs vk else true_toggled gs vk"
  let ?up = "if record_of h ?p \<noteq> None then SendEvent (SynthesizeSimpleEvent kFlutterKeyEventTypeUp ?p ?l []) None h else h"
  let ?h = "SendEvent (SynthesizeSimpleEvent kFlutterKeyEventTypeDown ?p ?l []) None (press ?p ?l ?up)"
  have same: "same_rest h ?h" by (simp add: same_rest_def press_def)
  have ext: "records_ok L ?h \<and> extends (L \<noteq> None) h ?h" if rec: "records_ok L h"
  proof -
    have "L = None \<or> record_of h ?p = None \<or> record_of h ?p = Some ?l"
    proof (cases "record_of h ?p")
      case (Some l)
      then have "rule_ok L ?p l" using rec by (simp add: records_ok_def)
      then show ?thesis using Some nz(4) [of l] by (cases L) simp_all
    qed simp
    then show ?thesis using rec nz(1-3) by (auto simp: extends_def records_ok_def press_def synthesized_step)
  qed
  have ev: "evolves L h ?h" by (rule evolvesI [OF same ext])
  show thesis
  proof (cases "ck_check_toggled k")
    case True
    show ?thesis
    proof (cases "ck_toggled_on k = ?pre")
      case same: True
      show ?thesis by (rule that [of r h]) (use True same nz(1,2) in \<open>auto simp: sync_toggled_key_def Let_def\<close>)
    next
      case False
      show ?thesis by (rule that [of False ?h]) (use True False nz(1,2) ev in \<open>auto simp: sync_toggled_key_def Let_def\<close>)
    qed
  next
    case False
    show ?thesis by (rule that [of r h]) (use False nz(1,2) in \<open>simp_all add: sync_toggled_key_def\<close>)
  qed
qed

definition toggle_update :: "key_state \<Rightarrow> u32 \<times> CriticalKey \<Rightarrow> u32 \<times> CriticalKey" where
  "toggle_update gs kv = (fst kv, (snd kv)\<lparr>ck_toggled_on :=
     (if ck_check_toggled (snd kv) then true_toggled gs (fst kv) else ck_toggled_on (snd kv))\<rparr>)"

lemma toggle_update_sel [simp]:
  "fst (toggle_update gs kv) = fst kv" "ck_physical_key (snd (toggle_update gs kv)) = ck_physical_key (snd kv)"
  "ck_logical_key (snd (toggle_update gs kv)) = ck_logical_key (snd kv)"
  "ck_check_pressed (snd (toggle_update gs kv)) = ck_check_pressed (snd kv)"
  by (simp_all add: toggle_update_def)

lemma keys_ok_Cons: "keys_ok L (kv # kvs) \<longleftrightarrow> key_ok L (snd kv) \<and> keys_ok L kvs"
  by (auto simp: keys_ok_def)

lemma keys_ok_toggle [simp]: "keys_ok L (map (toggle_update gs) kvs) = keys_ok L kvs"
  by (simp add: keys_ok_def key_ok_def split: option.split)

lemma sync_toggled_keys_evolves:
  assumes "keys_ok L kvs"
  obtains b h' where "sync_toggled_keys gs evk down kvs r h = Inr (map (toggle_update gs) kvs, b, h')" "evolves L h h'"
  using assms
proof (induction kvs arbitrary: r h thesis)
  case (Cons kv kvs)
  obtain b e where e: "sync_toggled_key gs evk down (fst kv) (snd kv) r h = Inr (snd (toggle_update gs kv), b, e)" "evolves L h e"
    by (rule sync_toggled_key_evolves [of L "snd kv" gs evk down "fst kv" r h])
      (use Cons.prems(2) in \<open>auto simp: keys_ok_Cons toggle_update_def\<close>)
  obtain b' h' where "sync_toggled_keys gs evk down kvs b e = Inr (map (toggle_update gs) kvs, b', h')" "evolves L e h'"
    by (rule Cons.IH) (use Cons.prems(2) in \<open>auto simp: keys_ok_Cons\<close>)
  with e Cons.prems(1) [of b' h'] show thesis
    by (cases kv) (auto simp: toggle_update_def intro: evolves_trans)
qed simp

lemma sync_pressed_key_evolves:
  assumes "key_ok L k"
  obtains h' where "sync_pressed_key gs evk ephys down r (vk, k) h = Inr h'" "evolves L h h'"
    "\<And>p. p \<noteq> ck_physical_key k \<Longrightarrow> record_of h' p = record_of h p"
    "\<And>t. ck_check_pressed k \<Longrightarrow> pressed_target gs evk ephys down r vk k = Some t \<Longrightarrow>
       (record_of h' (ck_physical_key k) \<noteq> None) = t"
proof -
  let ?p = "ck_physical_key k" and ?l = "ck_logical_key k" and ?t = "pressed_target gs evk ephys down r vk k"
  let ?up = "SendEvent (SynthesizeSimpleEvent kFlutterKeyEventTypeUp ?p ?l []) None (release ?p h)"
  let ?down = "SendEvent (SynthesizeSimpleEvent kFlutterKeyEventTypeDown ?p ?l []) None (press ?p ?l h)"
  note nz = key_okD [OF assms]
  have up: "evolves L h ?up" if pressed: "record_of h ?p \<noteq> None"
  proof -
    obtain l' where "record_of h ?p = Some l'" using pressed by blast
    then show ?thesis by (rule synthesize_up_evolves) (use nz in auto)
  qed
  have down: "evolves L h ?down" if "record_of h ?p = None"
    by (rule synthesize_down_evolves [OF that nz(1-3)])
  consider "\<not> ck_check_pressed k \<or> ?t = None \<or> ?t = Some (record_of h ?p \<noteq> None)"
    | "ck_check_pressed k" "record_of h ?p \<noteq> None" "?t = Some False"
    | "ck_check_pressed k" "record_of h ?p = None" "?t = Some True" by (cases ?t) auto
  then show thesis
  proof cases
    case 1
    show ?thesis by (rule that [of h]) (use 1 nz(1,2) in \<open>auto simp: sync_pressed_key_def Let_def split: option.splits\<close>)
  next
    case 2
    show ?thesis by (rule that [of ?up]) (use 2 nz(1,2) up in \<open>auto simp: sync_pressed_key_def Let_def\<close>)
  next
    case 3
    show ?thesis by (rule that [of ?down]) (use 3 nz(1,2) down in \<open>auto simp: sync_pressed_key_def Let_def\<close>)
  qed
qed

text \<open>
  After the loop a key is in its target state, provided that no later key of the loop has the same
  physical key; the records of other physical keys do not change.
\<close>

lemma sync_pressed_keys_evolves:
  assumes "keys_ok L kvs"
  obtains h' where "sync_pressed_keys gs evk ephys down r kvs h = Inr h'" "evolves L h h'"
    "\<And>p. p \<notin> (\<lambda>kv. ck_physical_key (snd kv)) ` set kvs \<Longrightarrow> record_of h' p = record_of h p"
    "\<And>vk k t. distinct (map (\<lambda>kv. ck_physical_key (snd kv)) kvs) \<Longrightarrow> (vk, k) \<in> set kvs \<Longrightarrow> ck_check_pressed k \<Longrightarrow>
       pressed_target gs evk ephys down r vk k = Some t \<Longrightarrow> (record_of h' (ck_physical_key k) \<noteq> None) = t"
  using assms
proof (induction kvs arbitrary: h thesis)
  case (Cons kv kvs)
  obtain vk k where kv: "kv = (vk, k)" by (cases kv)
  obtain e where e: "sync_pressed_key gs evk ephys down r (vk, k) h = Inr e" "evolves L h e"
    "\<And>p. p \<noteq> ck_physical_key k \<Longrightarrow> record_of e p = record_of h p"
    "\<And>t. ck_check_pressed k \<Longrightarrow> pressed_target gs evk ephys down r vk k = Some t \<Longrightarrow> (record_of e (ck_physical_key k) \<noteq> None) = t"
    by (rule sync_pressed_key_evolves [of L k gs evk ephys down r vk h]) (use Cons.prems(2) kv in \<open>auto simp: keys_ok_Cons\<close>)
  obtain h' where h': "sync_pressed_keys gs evk ephys down r kvs e = Inr h'" "evolves L e h'"
    "\<And>p. p \<notin> (\<lambda>kv. ck_physical_key (snd kv)) ` set kvs \<Longrightarrow> record_of h' p = record_of e p"
    "\<And>vk k t. distinct (map (\<lambda>kv. ck_physical_key (snd kv)) kvs) \<Longrightarrow> (vk, k) \<in> set kvs \<Longrightarrow> ck_check_pressed k \<Longrightarrow>
       pressed_target gs evk ephys down r vk k = Some t \<Longrightarrow> (record_of h' (ck_physical_key k) \<noteq> None) = t"
    by (rule Cons.IH) (use Cons.prems(2) in \<open>auto simp: keys_ok_Cons\<close>)
  show thesis
  proof (rule Cons.prems(1))
    show "sync_pressed_keys gs evk ephys down r (kv # kvs) h = Inr h'" using e(1) h'(1) kv by simp
    show "evolves L h h'" by (rule evolves_trans [OF e(2) h'(2)])
    show "record_of h' p = record_of h p" if "p \<notin> (\<lambda>kv. ck_physical_key (snd kv)) ` set (kv # kvs)" for p
      using that e(3) [of p] h'(3) [of p] kv by auto
    show "(record_of h' (ck_physical_key k') \<noteq> None) = t"
      if dist: "distinct (map (\<lambda>kv. ck_physical_key (snd kv)) (kv # kvs))" and "(v', k') \<in> set (kv # kvs)"
        "ck_check_pressed k'" "pressed_target gs evk ephys down r v' k' = Some t" for v' k' t
    proof (cases "(v', k') \<in> set kvs")
      case True
      with that h'(4) [of v' k' t] show ?thesis by simp
    next
      case False
      then have "v' = vk" "k' = k" using that(2) kv by auto
      moreover have "ck_physical_key k \<notin> (\<lambda>kv. ck_physical_key (snd kv)) ` set kvs" using dist kv by simp
      ultimately show ?thesis using e(4) [of t] h'(3) that(3,4) by simp
    qed
  qed
qed simp

section \<open>Keys are not zero\<close>

lemma windowsPlane_nonzero: "ApplyPlaneToId x windowsPlane \<noteq> 0"
  by (simp add: ApplyPlaneToId_def windowsPlane_def or_eq_0_iff)

lemma printable_nonzero_all:
  "list_all (\<lambda>n. ApplyPlaneToId (toLower (word_of_int n)) unicodePlane \<noteq> 0) [32..255]"
  by code_simp

lemma GetPhysicalKey_nonzero: "GetPhysicalKey scancode extended \<noteq> 0"
  by (auto simp: GetPhysicalKey_def windowsPlane_nonzero dest: physical_nonzero split: option.split)

lemma GetLogicalKey_nonzero: "GetLogicalKey key extended scancode \<noteq> 0"
proof -
  have "ApplyPlaneToId (toLower (scast key)) unicodePlane \<noteq> 0" if "isEasciiPrintable key"
  proof -
    have "sint key \<in> {32..255}" using that by (auto simp: isEasciiPrintable_def)
    with printable_nonzero_all [unfolded list_all_iff set_upto] have "ApplyPlaneToId (toLower (word_of_int (sint key))) unicodePlane \<noteq> 0"
      by (rule bspec)
    then show ?thesis by (simp only: scast_eq not_False_eq_True)
  qed
  then show ?thesis
    by (auto simp: GetLogicalKey_def windowsPlane_nonzero VK_PROCESSKEY_def dest: logical_nonzero scan_logical_nonzero
      split: option.split)
qed

section \<open>Key messages\<close>

definition message_ok :: "key_message \<Rightarrow> bool" where
  "message_ok m \<longleftrightarrow> key_action_ok (km_action m) \<and> UndeadChar (km_character m) \<le> 0x10FFFF"

text \<open>The event of the message fits the record of its physical key.\<close>

fun event_fits :: "u64 \<Rightarrow> u64 option \<Rightarrow> main_event \<Rightarrow> bool" where
  "event_fits logical rec Ignored = True"
| "event_fits logical rec (Send ty bytes eventual l) =
     (l \<noteq> 0 \<and>
      (case ty of
         kFlutterKeyEventTypeDown \<Rightarrow> rec = None \<and> l = logical \<and> eventual = l
       | kFlutterKeyEventTypeRepeat \<Rightarrow> rec = Some l \<and> eventual = l
       | kFlutterKeyEventTypeUp \<Rightarrow> rec = Some l \<and> eventual = 0))"

lemma decide_event_fits:
  assumes "ch \<le> 0x10FFFF" "logical \<noteq> 0" "rec \<noteq> Some 0"
  obtains ev where "decide_event down was_down ch logical rec = Inr ev" "event_fits logical rec ev"
    "\<And>bytes eventual l. ev = Send kFlutterKeyEventTypeDown bytes eventual l \<Longrightarrow> down"
proof -
  have conv: "\<exists>bytes. ConvertUtf32ToUtf8 ch = Inr bytes"
    using assms(1) by (auto simp: ConvertUtf32ToUtf8_def ConvertChar32ToUtf8_def)
  then obtain bytes where "ConvertUtf32ToUtf8 ch = Inr bytes" by blast
  then have "\<exists>ev. decide_event down was_down ch logical rec = Inr ev \<and> event_fits logical rec ev \<and>
      (\<forall>bytes eventual l. ev = Send kFlutterKeyEventTypeDown bytes eventual l \<longrightarrow> down)"
    using assms(2,3) by (cases rec; cases down; cases was_down) (simp_all add: decide_event_def)
  with that show thesis by blast
qed

lemma store_and_send:
  assumes "event_fits logical (record_of h p) (Send ty bytes eventual l)" "p \<noteq> 0" "logical \<noteq> 0"
    and "ty = kFlutterKeyEventTypeDown \<Longrightarrow> rule_ok L p logical"
  obtains e where "store_record p eventual h = Inr e" "kh_critical_keys e = kh_critical_keys h"
    "kh_response_id e = kh_response_id h" "kh_pending_responses e = kh_pending_responses h" "kh_replied e = kh_replied h"
    "extends s h (send_main_event \<lparr>fe_type = ty, fe_physical = p, fe_logical = l, fe_character = bytes, fe_synthesized = False\<rparr> c e)"
    "records_ok L h \<longrightarrow> records_ok L e" "\<And>q. q \<noteq> p \<Longrightarrow> record_of e q = record_of h q"
proof -
  let ?ev = "\<lparr>fe_type = ty, fe_physical = p, fe_logical = l, fe_character = bytes, fe_synthesized = False\<rparr>"
  let ?e = "if eventual \<noteq> 0 then press p eventual h else release p h"
  have "framework_step s ?ev (record_of h) = Some (record_of ?e)"
    using assms(1-3) by (cases ty) (auto simp: framework_step_def empty_event_def fun_upd_idem)
  then have "extends s h (send_main_event ?ev c ?e)"
    by (auto simp: extends_def send_main_event_def Let_def SendEvent_def press_def release_def)
  moreover have "store_record p eventual h = Inr ?e"
    using assms(1) by (cases ty) (auto simp: store_record_def)
  moreover have "records_ok L h \<longrightarrow> records_ok L ?e"
    using assms(1,2,4) by (cases ty) (auto simp: records_ok_def)
  ultimately show thesis
    by (intro that [of ?e]) (auto simp: press_def release_def)
qed

lemma send_main_sel [simp]:
  "kh_pressingRecords (send_main_event e c h) = kh_pressingRecords h" "kh_critical_keys (send_main_event e c h) = kh_critical_keys h"
  "kh_response_id (send_main_event e c h) = kh_response_id h + 1"
  "kh_pending_responses (send_main_event e c h) = omap_put (kh_response_id h + 1) c (kh_pending_responses h)"
  "kh_replied (send_main_event e c h) = kh_replied h" "records_ok L (send_main_event e c h) = records_ok L h"
  by (simp_all add: send_main_event_def Let_def SendEvent_def records_ok_def)

text \<open>What a message does to the callbacks: its own is answered at once or waits under a new id.\<close>

definition callback_kept :: "'c \<Rightarrow> 'c KeyboardKeyEmbedderHandler \<Rightarrow> 'c KeyboardKeyEmbedderHandler \<Rightarrow> bool" where
  "callback_kept c h h' \<longleftrightarrow>
     kh_response_id h' = kh_response_id h \<and> kh_pending_responses h' = kh_pending_responses h \<and>
       kh_replied h' = kh_replied h @ [(c, True)] \<or>
     kh_response_id h' = kh_response_id h + 1 \<and>
       kh_pending_responses h' = omap_put (kh_response_id h + 1) c (kh_pending_responses h) \<and> kh_replied h' = kh_replied h"

definition physicals :: "(u32 \<times> CriticalKey) list \<Rightarrow> u64 list" where
  "physicals kvs = map (\<lambda>kv. ck_physical_key (snd kv)) kvs"

lemma keys_ok_update:
  assumes "keys_ok None (kh_critical_keys h)" "p \<noteq> 0" "l \<noteq> 0"
  shows "keys_ok None (kh_critical_keys (UpdateLastSeenCriticalKey vk p l h))"
proof -
  have "keys_ok None (omap_put vk k kvs)" if "keys_ok None kvs" "key_ok None k" for k kvs
    using that set_omap_put [of vk k kvs] unfolding keys_ok_def by fastforce
  then show ?thesis using assms by (simp add: UpdateLastSeenCriticalKey_def key_ok_None split: option.split)
qed

lemma UpdateLastSeen_sel [simp]:
  "kh_pressingRecords (UpdateLastSeenCriticalKey vk p l h) = kh_pressingRecords h"
  "kh_sent (UpdateLastSeenCriticalKey vk p l h) = kh_sent h"
  "kh_sent_any_events (UpdateLastSeenCriticalKey vk p l h) = kh_sent_any_events h"
  "kh_response_id (UpdateLastSeenCriticalKey vk p l h) = kh_response_id h"
  "kh_pending_responses (UpdateLastSeenCriticalKey vk p l h) = kh_pending_responses h"
  "kh_replied (UpdateLastSeenCriticalKey vk p l h) = kh_replied h"
  by (simp_all add: UpdateLastSeenCriticalKey_def split: option.split)

text \<open>
  The keys whose state the message does not concern: another virtual key and another physical key.
  They are in line with Windows when different keys have different physical keys.
\<close>

definition in_sync :: "key_state \<Rightarrow> u32 \<Rightarrow> u64 \<Rightarrow> 'c KeyboardKeyEmbedderHandler \<Rightarrow> bool" where
  "in_sync gs evk ephys h \<longleftrightarrow>
     (distinct (physicals (kh_critical_keys h)) \<longrightarrow>
       (\<forall>(vk, k)\<in>set (kh_critical_keys h).
         ck_check_pressed k \<and> vk \<noteq> evk \<and> ck_physical_key k \<noteq> as_int ephys \<longrightarrow>
           (record_of h (ck_physical_key k) \<noteq> None) = true_pressed gs vk))"

lemma SynchronizePressed_ok:
  assumes "keys_ok L (kh_critical_keys h)"
  obtains h' where "SynchronizeCriticalPressedStates gs evk ephys down r h = Inr h'" "evolves L h h'" "in_sync gs evk ephys h'"
proof -
  obtain h' where h': "sync_pressed_keys gs evk ephys down r (kh_critical_keys h) h = Inr h'" "evolves L h h'"
    "\<And>p. p \<notin> (\<lambda>kv. ck_physical_key (snd kv)) ` set (kh_critical_keys h) \<Longrightarrow> record_of h' p = record_of h p"
    "\<And>vk k t. distinct (map (\<lambda>kv. ck_physical_key (snd kv)) (kh_critical_keys h)) \<Longrightarrow> (vk, k) \<in> set (kh_critical_keys h) \<Longrightarrow>
       ck_check_pressed k \<Longrightarrow> pressed_target gs evk ephys down r vk k = Some t \<Longrightarrow> (record_of h' (ck_physical_key k) \<noteq> None) = t"
    by (rule sync_pressed_keys_evolves [OF assms, of gs evk ephys down r h]) blast
  have "kh_critical_keys h' = kh_critical_keys h" using h'(2) by (simp add: evolves_def same_rest_def)
  moreover have "pressed_target gs evk ephys down r vk k = Some (true_pressed gs vk)"
    if "vk \<noteq> evk" "ck_physical_key k \<noteq> as_int ephys" for vk k
    using that by (auto simp: pressed_target_def Let_def)
  ultimately have "in_sync gs evk ephys h'"
    using h'(4) unfolding in_sync_def physicals_def by (intro impI ballI, clarify) simp
  with h'(1,2) show thesis by (intro that [of h']) (simp_all add: SynchronizeCriticalPressedStates_def)
qed

lemma SynchronizeToggled_ok:
  assumes "keys_ok L (kh_critical_keys h)"
  obtains b h' where "SynchronizeCriticalToggledStates gs evk down r h = Inr (b, h')" "records_ok L h \<Longrightarrow> extends (L \<noteq> None) h h'"
    "records_ok L h \<Longrightarrow> records_ok L h'" "kh_critical_keys h' = map (toggle_update gs) (kh_critical_keys h)"
    "kh_response_id h' = kh_response_id h" "kh_pending_responses h' = kh_pending_responses h" "kh_replied h' = kh_replied h"
proof -
  obtain b e where e: "sync_toggled_keys gs evk down (kh_critical_keys h) r h = Inr (map (toggle_update gs) (kh_critical_keys h), b, e)"
    "evolves L h e" by (rule sync_toggled_keys_evolves [OF assms])
  let ?e = "e\<lparr>kh_critical_keys := map (toggle_update gs) (kh_critical_keys h)\<rparr>"
  show thesis
  proof (rule that [of b ?e])
    show "SynchronizeCriticalToggledStates gs evk down r h = Inr (b, ?e)"
      using e(1) by (simp add: SynchronizeCriticalToggledStates_def)
    have same: "extends s h ?e = extends s h e" "records_ok L ?e = records_ok L e" for s
      by (rule extends_select; simp)+
    show "extends (L \<noteq> None) h ?e" if "records_ok L h" using evolvesD(3) [OF e(2) that] unfolding same .
    show "records_ok L ?e" if "records_ok L h" using evolvesD(2) [OF e(2) that] unfolding same .
  qed (use e(2) in \<open>simp_all add: evolves_def same_rest_def\<close>)
qed

text \<open>The synchronization before the event, as one step.\<close>

lemma synchronization_ok:
  assumes "records_ok L h" "keys_ok L (kh_critical_keys (UpdateLastSeenCriticalKey evk p l h))"
  obtains b e h' where "SynchronizeCriticalToggledStates gs evk down True (UpdateLastSeenCriticalKey evk p l h) = Inr (b, e)"
    "SynchronizeCriticalPressedStates gs evk p down b e = Inr h'" "extends (L \<noteq> None) h h'" "records_ok L h'" "keys_ok L (kh_critical_keys h')"
    "in_sync gs evk p h'"
    "kh_critical_keys h' = map (toggle_update gs) (kh_critical_keys (UpdateLastSeenCriticalKey evk p l h))"
    "kh_response_id h' = kh_response_id h" "kh_pending_responses h' = kh_pending_responses h" "kh_replied h' = kh_replied h"
proof -
  let ?h = "UpdateLastSeenCriticalKey evk p l h"
  have hr: "records_ok L ?h" "extends s ?h x = extends s h x" for s x
    using assms(1) by (simp_all add: records_ok_def extends_def)
  obtain b e where e: "SynchronizeCriticalToggledStates gs evk down True ?h = Inr (b, e)"
    "records_ok L ?h \<Longrightarrow> extends (L \<noteq> None) ?h e" "records_ok L ?h \<Longrightarrow> records_ok L e"
    "kh_critical_keys e = map (toggle_update gs) (kh_critical_keys ?h)"
    "kh_response_id e = kh_response_id h" "kh_pending_responses e = kh_pending_responses h" "kh_replied e = kh_replied h"
    by (rule SynchronizeToggled_ok [OF assms(2), of gs evk down True]) simp
  have "keys_ok L (kh_critical_keys e)" using assms(2) e(4) by simp
  then obtain h' where h': "SynchronizeCriticalPressedStates gs evk p down b e = Inr h'" "evolves L e h'" "in_sync gs evk p h'"
    by (rule SynchronizePressed_ok)
  have rec: "records_ok L e" by (rule e(3) [OF hr(1)])
  have ext: "extends (L \<noteq> None) h e" "extends (L \<noteq> None) e h'"
    using e(2) [OF hr(1)] evolvesD(3) [OF h'(2) rec] unfolding hr(2) by simp_all
  have rest: "kh_critical_keys h' = kh_critical_keys e" "kh_response_id h' = kh_response_id e"
    "kh_pending_responses h' = kh_pending_responses e" "kh_replied h' = kh_replied e" "records_ok L h'"
    using evolvesD(1) [OF h'(2)] evolvesD(2) [OF h'(2) rec] by (simp_all add: same_rest_def)
  show thesis
    by (rule that [OF e(1) h'(1) extends_trans [OF ext] rest(5) _ h'(3)]) (simp_all add: rest e assms(2))
qed

lemma KeyboardHookImpl_ok:
  assumes "message_ok m" "records_ok None h" "keys_ok None (kh_critical_keys h)" "records_ok L h"
  defines "p \<equiv> GetPhysicalKey (km_scancode m) (km_extended m)"
    and "l \<equiv> GetLogicalKey (km_key m) (km_extended m) (km_scancode m)"
  defines "sl \<equiv> (case record_of h p of None \<Rightarrow> l | Some r \<Rightarrow> r)"
  assumes keys: "sl \<noteq> ucast VK_PROCESSKEY \<Longrightarrow> keys_ok L (kh_critical_keys (UpdateLastSeenCriticalKey (km_key m) p sl h))"
    and down: "sl \<noteq> ucast VK_PROCESSKEY \<Longrightarrow> km_action m = WM_KEYDOWN \<or> km_action m = WM_SYSKEYDOWN \<Longrightarrow> rule_ok L p l"
  obtains h' where "KeyboardHookImpl gs m c h = Inr h'" "extends (L \<noteq> None) h h'" "records_ok L h'"
    "callback_kept c h h'"
    "sl \<noteq> ucast VK_PROCESSKEY \<Longrightarrow> in_sync gs (km_key m) p h' \<and>
       kh_critical_keys h' = map (toggle_update gs) (kh_critical_keys (UpdateLastSeenCriticalKey (km_key m) p sl h))"
    "sl = ucast VK_PROCESSKEY \<Longrightarrow> kh_critical_keys h' = kh_critical_keys h"
proof (cases "sl = ucast VK_PROCESSKEY")
  case True
  then have "KeyboardHookImpl gs m c h = Inr (reply c True h)"
    using assms(1) by (simp add: KeyboardHookImpl_def message_ok_def Let_def flip: p_def l_def sl_def)
  then show thesis
    using assms(4) True by (intro that [of "reply c True h"]) (simp_all add: callback_kept_def)
next
  case False
  have nz: "p \<noteq> 0" "l \<noteq> 0" by (simp_all add: p_def l_def GetPhysicalKey_nonzero GetLogicalKey_nonzero)
  let ?down = "km_action m = WM_KEYDOWN \<or> km_action m = WM_SYSKEYDOWN"
  obtain b e s where s: "SynchronizeCriticalToggledStates gs (km_key m) ?down True (UpdateLastSeenCriticalKey (km_key m) p sl h) = Inr (b, e)"
    "SynchronizeCriticalPressedStates gs (km_key m) p ?down b e = Inr s" "extends (L \<noteq> None) h s" "records_ok L s" "keys_ok L (kh_critical_keys s)"
    "in_sync gs (km_key m) p s"
    "kh_critical_keys s = map (toggle_update gs) (kh_critical_keys (UpdateLastSeenCriticalKey (km_key m) p sl h))"
    "kh_response_id s = kh_response_id h" "kh_pending_responses s = kh_pending_responses h" "kh_replied s = kh_replied h"
    by (rule synchronization_ok [OF assms(4) keys [OF False], of gs ?down])
  have ch: "UndeadChar (km_character m) \<le> 0x10FFFF" "record_of s p \<noteq> Some 0" using assms(1) s(4) by (auto simp: message_ok_def records_ok_def)
  obtain ev where ev: "decide_event ?down (km_was_down m) (UndeadChar (km_character m)) l (record_of s p) = Inr ev" "event_fits l (record_of s p) ev"
    "\<And>bytes eventual l. ev = Send kFlutterKeyEventTypeDown bytes eventual l \<Longrightarrow> ?down"
    by (rule decide_event_fits [OF ch(1) nz(2) ch(2)]) (rule that)
  have hook: "KeyboardHookImpl gs m c h =
      (case ev of
         Ignored \<Rightarrow> Inr (reply c True s)
       | Send ty bytes eventual lg \<Rightarrow>
           rbind (store_record p eventual s) (\<lambda>h.
             SynchronizeCriticalPressedStates gs (km_key m) p ?down b (send_main_event
               \<lparr>fe_type = ty, fe_physical = p, fe_logical = lg, fe_character = bytes, fe_synthesized = False\<rparr> c h)))"
    using assms(1) False s(1,2) ev(1)
    by (simp add: KeyboardHookImpl_def message_ok_def Let_def flip: p_def l_def sl_def)
  show thesis
  proof (cases ev)
    case Ignored
    then show thesis
      using hook s(3-10) False by (intro that [of "reply c True s"]) (simp_all add: callback_kept_def in_sync_def)
  next
    case (Send ty bytes eventual lg)
    let ?ev = "\<lparr>fe_type = ty, fe_physical = p, fe_logical = lg, fe_character = bytes, fe_synthesized = False\<rparr>"
    have "rule_ok L p l" if "ty = kFlutterKeyEventTypeDown" using down [OF False] ev(3) Send that by blast
    then obtain f where f: "store_record p eventual s = Inr f" "kh_critical_keys f = kh_critical_keys s"
      "kh_response_id f = kh_response_id s" "kh_pending_responses f = kh_pending_responses s" "kh_replied f = kh_replied s"
      "extends (L \<noteq> None) s (send_main_event ?ev c f)" "records_ok L s \<longrightarrow> records_ok L f"
      by (rule store_and_send [OF ev(2) [unfolded Send] nz(1,2), of L "L \<noteq> None" c])
    have g: "kh_critical_keys (send_main_event ?ev c f) = kh_critical_keys s" "records_ok L (send_main_event ?ev c f)"
      using f(2,7) s(4) by simp_all
    have "keys_ok L (kh_critical_keys (send_main_event ?ev c f))" using g(1) s(5) by simp
    then obtain h' where h': "SynchronizeCriticalPressedStates gs (km_key m) p ?down b (send_main_event ?ev c f) = Inr h'"
      "evolves L (send_main_event ?ev c f) h'" "in_sync gs (km_key m) p h'" by (rule SynchronizePressed_ok)
    have "callback_kept c h h'"
      using evolvesD(1) [OF h'(2)] f(3,4,5) s(8,9,10) by (simp add: same_rest_def callback_kept_def)
    moreover have "kh_critical_keys h' = kh_critical_keys s" using evolvesD(1) [OF h'(2)] g(1) by (simp add: same_rest_def)
    moreover have "extends (L \<noteq> None) h h'"
      by (rule extends_trans [OF extends_trans [OF s(3) f(6)] evolvesD(3) [OF h'(2) g(2)]])
    moreover have "records_ok L h'" by (rule evolvesD(2) [OF h'(2) g(2)])
    ultimately show thesis
      using hook Send f(1) h' s(7) False by (intro that [of h']) simp_all
  qed
qed

text \<open>A message sends at least one event, an empty one if need be.\<close>

lemma KeyboardHook_rule:
  assumes "message_ok m" "records_ok None h" "keys_ok None (kh_critical_keys h)" "records_ok L h"
  defines "p \<equiv> GetPhysicalKey (km_scancode m) (km_extended m)"
    and "l \<equiv> GetLogicalKey (km_key m) (km_extended m) (km_scancode m)"
  defines "sl \<equiv> (case record_of h p of None \<Rightarrow> l | Some r \<Rightarrow> r)"
  assumes keys: "sl \<noteq> ucast VK_PROCESSKEY \<Longrightarrow> keys_ok L (kh_critical_keys (UpdateLastSeenCriticalKey (km_key m) p sl h))"
    and down: "sl \<noteq> ucast VK_PROCESSKEY \<Longrightarrow> km_action m = WM_KEYDOWN \<or> km_action m = WM_SYSKEYDOWN \<Longrightarrow> rule_ok L p l"
  obtains h' where "KeyboardHook gs m c h = Inr h'" "extends (L \<noteq> None) h h'" "records_ok L h'"
    "callback_kept c h h'" "kh_sent h' \<noteq> kh_sent h"
    "sl \<noteq> ucast VK_PROCESSKEY \<Longrightarrow> in_sync gs (km_key m) p h' \<and>
       kh_critical_keys h' = map (toggle_update gs) (kh_critical_keys (UpdateLastSeenCriticalKey (km_key m) p sl h))"
    "sl = ucast VK_PROCESSKEY \<Longrightarrow> kh_critical_keys h' = kh_critical_keys h"
proof -
  let ?h = "h\<lparr>kh_sent_any_events := False\<rparr>"
  have pre: "records_ok None ?h" "keys_ok None (kh_critical_keys ?h)" "records_ok L ?h"
    using assms(2-4) by (simp_all add: records_ok_def)
  have upd: "kh_critical_keys (UpdateLastSeenCriticalKey vk q r ?h) = kh_critical_keys (UpdateLastSeenCriticalKey vk q r h)" for vk q r
    by (simp add: UpdateLastSeenCriticalKey_def split: option.split)
  have rec: "record_of ?h = record_of h" by simp
  obtain e where e: "KeyboardHookImpl gs m c ?h = Inr e" "extends (L \<noteq> None) ?h e" "records_ok L e"
    "callback_kept c ?h e"
    "sl \<noteq> ucast VK_PROCESSKEY \<Longrightarrow> in_sync gs (km_key m) p e \<and>
       kh_critical_keys e = map (toggle_update gs) (kh_critical_keys (UpdateLastSeenCriticalKey (km_key m) p sl ?h))"
    "sl = ucast VK_PROCESSKEY \<Longrightarrow> kh_critical_keys e = kh_critical_keys ?h"
    by (rule KeyboardHookImpl_ok [OF assms(1) pre, of gs c])
      (use keys down in \<open>unfold upd rec p_def l_def sl_def, blast+\<close>)
  let ?e = "if kh_sent_any_events e then e else SendEvent empty_event None e"
  obtain es where es: "kh_sent e = kh_sent h @ es" "framework_run (L \<noteq> None) (map fst es) (record_of h) = Some (record_of e)"
    "kh_sent_any_events e \<longrightarrow> es \<noteq> []" using e(2) by (auto simp: extends_def)
  then have "extends (L \<noteq> None) h ?e"
    by (cases "kh_sent_any_events e") (simp_all add: extends_def framework_run_append framework_step_def)
  moreover have "kh_sent ?e \<noteq> kh_sent h" using es(1,3) by simp
  moreover have "KeyboardHook gs m c h = Inr ?e" using e(1) by (simp add: KeyboardHook_def)
  moreover have "callback_kept c h ?e" using e(4) by (simp add: callback_kept_def)
  ultimately show thesis using e(3,5,6) upd
    by (intro that [of ?e]) (simp_all add: in_sync_def records_ok_def)
qed

text \<open>Without a rule for the logical keys nothing is asked of the message.\<close>

lemma KeyboardHook_ok:
  assumes "message_ok m" "records_ok None h" "keys_ok None (kh_critical_keys h)"
  defines "p \<equiv> GetPhysicalKey (km_scancode m) (km_extended m)"
    and "l \<equiv> GetLogicalKey (km_key m) (km_extended m) (km_scancode m)"
  defines "sl \<equiv> (case record_of h p of None \<Rightarrow> l | Some r \<Rightarrow> r)"
  obtains h' where "KeyboardHook gs m c h = Inr h'" "extends False h h'" "records_ok None h'" "keys_ok None (kh_critical_keys h')"
    "callback_kept c h h'" "kh_sent h' \<noteq> kh_sent h"
    "sl \<noteq> ucast VK_PROCESSKEY \<Longrightarrow> in_sync gs (km_key m) p h' \<and>
       kh_critical_keys h' = map (toggle_update gs) (kh_critical_keys (UpdateLastSeenCriticalKey (km_key m) p sl h))"
proof -
  have "p \<noteq> 0" "sl \<noteq> 0"
    using assms(2) by (auto simp: p_def l_def sl_def GetPhysicalKey_nonzero GetLogicalKey_nonzero records_ok_def split: option.split)
  then have keys: "keys_ok None (kh_critical_keys (UpdateLastSeenCriticalKey (km_key m) p sl h))"
    by (rule keys_ok_update [OF assms(3)])
  obtain h' where h': "KeyboardHook gs m c h = Inr h'" "extends (None \<noteq> (None :: key_rule)) h h'" "records_ok None h'"
    "callback_kept c h h'" "kh_sent h' \<noteq> kh_sent h"
    "sl \<noteq> ucast VK_PROCESSKEY \<Longrightarrow> in_sync gs (km_key m) p h' \<and>
       kh_critical_keys h' = map (toggle_update gs) (kh_critical_keys (UpdateLastSeenCriticalKey (km_key m) p sl h))"
    "sl = ucast VK_PROCESSKEY \<Longrightarrow> kh_critical_keys h' = kh_critical_keys h"
    by (rule KeyboardHook_rule [OF assms(1-3,2), of gs c, folded p_def l_def, folded sl_def])
      (rule keys, rule rule_ok_None, rule that)
  moreover have "keys_ok None (kh_critical_keys h')" using h'(6,7) keys assms(3) by (cases "sl = ucast VK_PROCESSKEY") simp_all
  ultimately show thesis by (intro that [of h']) simp_all
qed

end
