(* ===== verification/Keyboard_Embedder_Stream.thy ===== *)
theory Keyboard_Embedder_Stream
  imports Keyboard_Embedder_Spec
begin

text \<open>
  Executions of the key embedder handler: messages of Windows, modifier synchronizations and answers of
  the framework in any order.
\<close>

section \<open>Executions\<close>

datatype 'c kb_action = Key_Message key_state key_message 'c | Sync_Modifiers u32 | Framework_Answer u64 bool

fun kb_step :: "'c kb_action \<Rightarrow> 'c KeyboardKeyEmbedderHandler \<Rightarrow> 'c KeyboardKeyEmbedderHandler result" where
  "kb_step (Key_Message gs m c) h = KeyboardHook gs m c h"
| "kb_step (Sync_Modifiers s) h = SyncModifiersIfNeeded s h"
| "kb_step (Framework_Answer i b) h = HandleResponse b i h"

fun kb_run :: "'c kb_action list \<Rightarrow> 'c KeyboardKeyEmbedderHandler \<Rightarrow> 'c KeyboardKeyEmbedderHandler result" where
  "kb_run [] h = Inr h"
| "kb_run (a # as) h = rbind (kb_step a h) (kb_run as)"

text \<open>Messages are well formed, and the framework answers only responses that are pending.\<close>

fun kb_ok :: "'c kb_action \<Rightarrow> 'c KeyboardKeyEmbedderHandler \<Rightarrow> bool" where
  "kb_ok (Key_Message gs m c) h = message_ok m"
| "kb_ok (Sync_Modifiers s) h = True"
| "kb_ok (Framework_Answer i b) h = (map_of (kh_pending_responses h) i \<noteq> None)"

fun kb_legal :: "'c kb_action list \<Rightarrow> 'c KeyboardKeyEmbedderHandler \<Rightarrow> bool" where
  "kb_legal [] h = True"
| "kb_legal (a # as) h = (kb_ok a h \<and> (case kb_step a h of Inl e \<Rightarrow> True | Inr h' \<Rightarrow> kb_legal as h'))"

fun kb_callbacks :: "'c kb_action list \<Rightarrow> 'c list" where
  "kb_callbacks [] = []"
| "kb_callbacks (Key_Message gs m c # as) = c # kb_callbacks as"
| "kb_callbacks (Sync_Modifiers s # as) = kb_callbacks as"
| "kb_callbacks (Framework_Answer i b # as) = kb_callbacks as"

section \<open>Modifiers without a key message\<close>

lemma send_up_evolves:
  assumes "record_of h p = Some l" "p \<noteq> 0" "l \<noteq> 0"
  shows "evolves L h (SendSynthesizeUpEvent p l h)"
  using assms by (auto simp: SendSynthesizeUpEvent_def evolves_def extends_def same_rest_def records_ok_def release_def synthesized_step)

lemma synthesize_up_sel [simp]: "record_of (SendSynthesizeUpEvent p l h) = (record_of h)(p := None)"
  by (simp add: SendSynthesizeUpEvent_def)

lemma send_down_evolves:
  assumes "record_of h p = None" "p \<noteq> 0" "l \<noteq> 0" "rule_ok L p l"
  shows "evolves L h (SendSynthesizeDownEvent p l h)"
  using assms by (auto simp: SendSynthesizeDownEvent_def evolves_def extends_def same_rest_def records_ok_def press_def synthesized_step)

lemma SynthesizeIfNeeded_evolves:
  assumes "records_ok L h" "pl \<noteq> 0" "pr \<noteq> 0" "ll \<noteq> 0" "pl \<noteq> pr" "rule_ok L pl ll"
  shows "evolves L h (SynthesizeIfNeeded pl pr ll b h)"
proof -
  have nz: "l \<noteq> 0" if "record_of h p = Some l" for p l using assms(1) that by (simp add: records_ok_def)
  consider l r where "\<not> b" "record_of h pl = Some l" "record_of h pr = Some r"
    | l where "\<not> b" "record_of h pl = Some l" "record_of h pr = None"
    | r where "\<not> b" "record_of h pl = None" "record_of h pr = Some r"
    | "b" "record_of h pl = None" "record_of h pr = None"
    | "b \<longleftrightarrow> \<not> (record_of h pl = None \<and> record_of h pr = None)"
    by (cases b; cases "record_of h pl"; cases "record_of h pr") simp_all
  then show ?thesis
  proof cases
    case 1
    have "evolves L h (SendSynthesizeUpEvent pl l h)" by (rule send_up_evolves) (use 1 assms nz in auto)
    moreover have "evolves L (SendSynthesizeUpEvent pl l h) (SendSynthesizeUpEvent pr r (SendSynthesizeUpEvent pl l h))"
      by (rule send_up_evolves) (use 1 assms nz in auto)
    ultimately show ?thesis using 1 by (simp add: SynthesizeIfNeeded_def) (rule evolves_trans)
  next
    case 2
    then show ?thesis by (simp add: SynthesizeIfNeeded_def send_up_evolves assms nz)
  next
    case 3
    then show ?thesis by (simp add: SynthesizeIfNeeded_def send_up_evolves assms nz)
  next
    case 4
    then show ?thesis by (simp add: SynthesizeIfNeeded_def send_down_evolves assms)
  next
    case 5
    then show ?thesis by (cases "record_of h pl"; cases "record_of h pr") (simp_all add: SynthesizeIfNeeded_def)
  qed
qed

lemma modifier_keys:
  "map_of windowsToPhysicalMap kScanCodeShiftLeft = Some 0x000700e1"
  "map_of windowsToPhysicalMap kScanCodeShiftRight = Some 0x000700e5"
  "map_of windowsToLogicalMap kKeyCodeShiftLeft = Some 0x00200000102"
  "map_of windowsToPhysicalMap kScanCodeControlLeft = Some 0x000700e0"
  "map_of windowsToPhysicalMap kScanCodeControlRight = Some 0x000700e4"
  "map_of windowsToLogicalMap kKeyCodeControlLeft = Some 0x00200000100"
  by code_simp+

lemma SyncModifiers_ok:
  assumes "records_ok L h" "rule_ok L 0x000700e1 0x00200000102" "rule_ok L 0x000700e0 0x00200000100"
  obtains h' where "SyncModifiersIfNeeded s h = Inr h'" "evolves L h h'"
proof -
  let ?e = "SynthesizeIfNeeded 0x000700e1 0x000700e5 0x00200000102 (s AND kShift \<noteq> 0) h"
  let ?h = "SynthesizeIfNeeded 0x000700e0 0x000700e4 0x00200000100 (s AND kControl \<noteq> 0) ?e"
  have e: "evolves L h ?e" by (rule SynthesizeIfNeeded_evolves) (simp_all add: assms)
  then have "records_ok L ?e" by (rule evolvesD(2)) (rule assms(1))
  then have "evolves L ?e ?h" by (rule SynthesizeIfNeeded_evolves) (simp_all add: assms)
  with e have "evolves L h ?h" by (rule evolves_trans)
  moreover have "SyncModifiersIfNeeded s h = Inr ?h"
    by (simp add: SyncModifiersIfNeeded_def modifier_keys map_at_def Let_def)
  ultimately show thesis using that by blast
qed

section \<open>Executions are legal\<close>

text \<open>After \<open>n\<close> messages, whose callbacks are \<open>cs\<close>.\<close>

definition kb_inv :: "'c list \<Rightarrow> 'c KeyboardKeyEmbedderHandler \<Rightarrow> bool" where
  "kb_inv cs h \<longleftrightarrow>
     records_ok None h \<and> keys_ok None (kh_critical_keys h) \<and>
     framework_run False (map fst (kh_sent h)) Map.empty = Some (record_of h) \<and>
     unat (kh_response_id h) \<le> Suc (length cs) \<and>
     omap_wf (kh_pending_responses h) \<and> (\<forall>i\<in>fst ` set (kh_pending_responses h). unat i \<le> unat (kh_response_id h)) \<and>
     mset (map fst (kh_replied h)) + mset (map snd (kh_pending_responses h)) = mset cs"

lemma keys_ok_put: "keys_ok L kvs \<Longrightarrow> key_ok L k \<Longrightarrow> keys_ok L (omap_put vk k kvs)"
  using set_omap_put [of vk k kvs] by (auto simp: keys_ok_def)

lemma keys_ok_checked [simp]: "key_ok None (createCheckedKey gs map_vk vk ext a b)"
  by (simp add: key_ok_None createCheckedKey_def Let_def GetPhysicalKey_nonzero GetLogicalKey_nonzero)

lemma keys_ok_Init: "keys_ok None (InitCriticalKeys gs map_vk)"
proof -
  have step: "keys_ok None (fold (\<lambda>(vk, ext, a, b). omap_put vk (createCheckedKey gs map_vk vk ext a b)) vs kvs)"
    if "keys_ok None kvs" for vs kvs
    using that by (induction vs arbitrary: kvs) (auto simp: keys_ok_put)
  then show ?thesis unfolding InitCriticalKeys_def by (intro step) (simp add: keys_ok_def)
qed

lemma kb_inv_new: "kb_inv [] (KeyboardKeyEmbedderHandler_new gs map_vk)"
  by (simp add: kb_inv_def KeyboardKeyEmbedderHandler_new_def records_ok_def keys_ok_Init)

lemma kb_inv_extends:
  assumes "kb_inv cs h" "extends False h h'"
  shows "framework_run False (map fst (kh_sent h')) Map.empty = Some (record_of h')"
  using assms by (auto simp: kb_inv_def extends_def framework_run_append)

lemma kb_inv_message:
  assumes "kb_inv cs h" "message_ok m" "length cs < 2 ^ 64 - 2" "KeyboardHook gs m c h = Inr h'"
  shows "kb_inv (cs @ [c]) h'"
proof -
  have h: "records_ok None h" "keys_ok None (kh_critical_keys h)" using assms(1) by (simp_all add: kb_inv_def)
  obtain e where e: "KeyboardHook gs m c h = Inr e" "extends False h e" "records_ok None e" "keys_ok None (kh_critical_keys e)" "callback_kept c h e"
    by (rule KeyboardHook_ok [OF assms(2) h, of gs c]) blast
  have run: "framework_run False (map fst (kh_sent e)) Map.empty = Some (record_of e)" by (rule kb_inv_extends [OF assms(1) e(2)])
  have len: "unat (kh_response_id h + 1) = Suc (unat (kh_response_id h))"
    using assms(1,3) by (simp add: kb_inv_def unat_word_ariths(1))
  have fresh: "kh_response_id h + 1 \<notin> fst ` set (kh_pending_responses h)" using assms(1) len by (auto simp: kb_inv_def)
  from e(5) have "kb_inv (cs @ [c]) e"
    unfolding callback_kept_def
  proof (elim disjE conjE)
    assume "kh_response_id e = kh_response_id h" "kh_pending_responses e = kh_pending_responses h" "kh_replied e = kh_replied h @ [(c, True)]"
    then show ?thesis using assms(1) e(3,4) run by (simp add: kb_inv_def)
  next
    assume "kh_response_id e = kh_response_id h + 1" "kh_replied e = kh_replied h"
      "kh_pending_responses e = omap_put (kh_response_id h + 1) c (kh_pending_responses h)"
    then show ?thesis using assms(1) e(3,4) run len fresh by (auto simp: kb_inv_def mset_omap_put)
  qed
  with e(1) assms(4) show ?thesis by simp
qed

lemma kb_inv_answer:
  assumes "kb_inv cs h" "map_of (kh_pending_responses h) i = Some c"
  shows "kb_inv cs (reply c b (h\<lparr>kh_pending_responses := omap_erase i (kh_pending_responses h)\<rparr>))"
proof -
  have wf: "omap_wf (kh_pending_responses h)" using assms(1) by (simp add: kb_inv_def)
  have "set (omap_erase i (kh_pending_responses h)) \<subseteq> set (kh_pending_responses h)" by (auto simp: omap_erase_def)
  then show ?thesis
    using assms(1) mset_omap_erase [OF wf assms(2)] by (auto simp: kb_inv_def records_ok_def)
qed

lemma kb_step_ok:
  assumes "kb_inv cs h" "kb_ok a h" "length (cs @ kb_callbacks [a]) < 2 ^ 64 - 1"
  obtains h' where "kb_step a h = Inr h'" "kb_inv (cs @ kb_callbacks [a]) h'"
proof (cases a)
  case (Key_Message gs m c)
  have h: "records_ok None h" "keys_ok None (kh_critical_keys h)" and m: "message_ok m" using assms(1,2) Key_Message by (simp_all add: kb_inv_def)
  obtain e where e: "KeyboardHook gs m c h = Inr e" by (rule KeyboardHook_ok [OF m h, of gs c])
  show thesis by (rule that [of e]) (use e Key_Message assms(3) in \<open>simp_all add: kb_inv_message [OF assms(1) m _ e]\<close>)
next
  case (Sync_Modifiers s)
  have h: "records_ok None h" using assms(1) by (simp add: kb_inv_def)
  obtain e where e: "SyncModifiersIfNeeded s h = Inr e" "evolves None h e" by (rule SyncModifiers_ok [OF h]) simp_all
  have "extends False h e" using evolvesD(3) [OF e(2) h] by simp
  from kb_inv_extends [OF assms(1) this] have "kb_inv cs e"
    using assms(1) evolvesD(1,2) [OF e(2)] h by (simp add: kb_inv_def same_rest_def)
  then show thesis using that [of e] e(1) Sync_Modifiers by simp
next
  case (Framework_Answer i b)
  then obtain c where c: "map_of (kh_pending_responses h) i = Some c" using assms(2) by auto
  from kb_inv_answer [OF assms(1) c, of b] show thesis
    by (intro that) (simp_all add: Framework_Answer HandleResponse_def c)
qed


lemma kb_run_inv:
  assumes "kb_inv cs h" "kb_legal acts h" "length (cs @ kb_callbacks acts) < 2 ^ 64 - 1"
  obtains h' where "kb_run acts h = Inr h'" "kb_inv (cs @ kb_callbacks acts) h'"
  using assms
proof (induction acts arbitrary: cs h thesis)
  case (Cons a acts)
  have split: "kb_callbacks (a # acts) = kb_callbacks [a] @ kb_callbacks acts" by (cases a) simp_all
  have ok: "kb_ok a h" "length (cs @ kb_callbacks [a]) < 2 ^ 64 - 1" using Cons.prems(3,4) split by simp_all
  obtain e where e: "kb_step a h = Inr e" "kb_inv (cs @ kb_callbacks [a]) e" by (rule kb_step_ok [OF Cons.prems(2) ok])
  obtain h' where "kb_run acts e = Inr h'" "kb_inv ((cs @ kb_callbacks [a]) @ kb_callbacks acts) h'"
    by (rule Cons.IH [OF _ e(2)]) (use Cons.prems(3,4) e(1) split in auto)
  with e(1) split show thesis by (intro Cons.prems(1)) simp_all
qed simp

section \<open>The same logical key throughout\<close>

text \<open>
  The critical keys give the rule of the strict automaton: two of them with the same physical key
  have the same logical key, and a pressed one is recorded with its logical key.
\<close>

definition critical_rule :: "(u32 \<times> CriticalKey) list \<Rightarrow> u64 \<rightharpoonup> u64" where
  "critical_rule kvs = map_of (map (\<lambda>kv. (ck_physical_key (snd kv), ck_logical_key (snd kv))) kvs)"

definition critical_agree :: "(u32 \<times> CriticalKey) list \<Rightarrow> bool" where
  "critical_agree kvs \<longleftrightarrow> (\<forall>(_, k)\<in>set kvs. \<forall>(_, k')\<in>set kvs.
     ck_physical_key k = ck_physical_key k' \<longrightarrow> ck_logical_key k = ck_logical_key k')"

text \<open>
  A message is regular when its logical key is the one its sequence began with (this matters for a
  down message only), and critical keys other than its own with its physical key have that logical
  key.  The modifiers can be synchronized when a critical key at the place of the left Shift or
  Control key is that key.
\<close>

fun kb_regular :: "'c kb_action \<Rightarrow> 'c KeyboardKeyEmbedderHandler \<Rightarrow> bool" where
  "kb_regular (Key_Message gs m c) h =
     (let p = GetPhysicalKey (km_scancode m) (km_extended m);
          l = GetLogicalKey (km_key m) (km_extended m) (km_scancode m);
          sl = (case record_of h p of None \<Rightarrow> l | Some r \<Rightarrow> r)
      in sl = ucast VK_PROCESSKEY \<or>
         (km_action m = WM_KEYDOWN \<or> km_action m = WM_SYSKEYDOWN \<longrightarrow> l = sl) \<and>
         (\<forall>(vk, k)\<in>set (kh_critical_keys h). vk \<noteq> km_key m \<and> ck_physical_key k = p \<longrightarrow> ck_logical_key k = sl))"
| "kb_regular (Sync_Modifiers s) h =
     (\<forall>(vk, k)\<in>set (kh_critical_keys h).
        (ck_physical_key k = 0x000700e1 \<longrightarrow> ck_logical_key k = 0x00200000102) \<and>
        (ck_physical_key k = 0x000700e0 \<longrightarrow> ck_logical_key k = 0x00200000100))"
| "kb_regular (Framework_Answer i b) h = True"

fun kb_all_regular :: "'c kb_action list \<Rightarrow> 'c KeyboardKeyEmbedderHandler \<Rightarrow> bool" where
  "kb_all_regular [] h = True"
| "kb_all_regular (a # as) h =
     (kb_regular a h \<and> (case kb_step a h of Inl e \<Rightarrow> True | Inr h' \<Rightarrow> kb_all_regular as h'))"

definition strict_inv :: "'c KeyboardKeyEmbedderHandler \<Rightarrow> bool" where
  "strict_inv h \<longleftrightarrow> omap_wf (kh_critical_keys h) \<and> critical_agree (kh_critical_keys h) \<and>
     records_ok (Some (critical_rule (kh_critical_keys h))) h \<and>
     framework_run True (map fst (kh_sent h)) Map.empty = Some (record_of h)"

lemma critical_rule_Some:
  "critical_rule kvs p = Some l \<Longrightarrow> \<exists>(vk, k)\<in>set kvs. ck_physical_key k = p \<and> ck_logical_key k = l"
  by (unfold critical_rule_def, drule map_of_SomeD) (force simp: image_iff)

lemma critical_rule_agree:
  assumes "critical_agree kvs" "(vk, k) \<in> set kvs"
  shows "critical_rule kvs (ck_physical_key k) = Some (ck_logical_key k)"
proof -
  have "critical_rule kvs (ck_physical_key k) \<noteq> None"
    using imageI [OF assms(2), of "\<lambda>kv. ck_physical_key (snd kv)"]
    by (simp add: critical_rule_def map_of_eq_None_iff image_image)
  then obtain l where l: "critical_rule kvs (ck_physical_key k) = Some l" by blast
  from critical_rule_Some [OF l] obtain vk' k' where "(vk', k') \<in> set kvs"
    "ck_physical_key k' = ck_physical_key k" "ck_logical_key k' = l" by blast
  with assms l show ?thesis unfolding critical_agree_def by fastforce
qed

lemma critical_rule_toggle [simp]:
  "critical_rule (map (toggle_update gs) kvs) = critical_rule kvs"
  "critical_agree (map (toggle_update gs) kvs) = critical_agree kvs"
  by (simp_all add: critical_rule_def critical_agree_def comp_def split_def)

lemma keys_ok_critical:
  assumes "keys_ok None kvs" "critical_agree kvs"
  shows "keys_ok (Some (critical_rule kvs)) kvs"
  using assms critical_rule_agree [OF assms(2)] by (fastforce simp: keys_ok_def key_ok_def)

lemma set_omap_put_other:
  assumes "omap_wf m" "(k', v') \<in> set (omap_put k v m)"
  shows "(k', v') = (k, v) \<or> k' \<noteq> k \<and> (k', v') \<in> set m"
proof -
  have "distinct (map fst m')" if "omap_wf m'" for m' :: "('a \<times> 'b) list"
    using that strict_sorted_iff [of "map fst m'"] by (simp add: omap_wf_def)
  then have "map_of (omap_put k v m) k' = Some v'"
    using assms omap_wf_put [OF assms(1)] by (simp del: map_of_omap_put)
  then show ?thesis using map_of_SomeD [of m k' v'] by (auto split: if_splits)
qed

lemma omap_wf_toggle [simp]: "omap_wf (map (toggle_update gs) kvs) = omap_wf kvs"
  by (simp add: omap_wf_def comp_def)

lemma omap_wf_Init: "omap_wf (InitCriticalKeys gs map_vk)"
proof -
  have step: "omap_wf (fold (\<lambda>(vk, ext, a, b). omap_put vk (createCheckedKey gs map_vk vk ext a b)) vs kvs)"
    if "omap_wf kvs" for vs kvs
    using that by (induction vs arbitrary: kvs) auto
  then show ?thesis unfolding InitCriticalKeys_def by (intro step) simp
qed

text \<open>The update of the key of a regular message.\<close>

lemma update_regular:
  assumes inv: "strict_inv h" and reg: "\<forall>(vk', k)\<in>set (kh_critical_keys h). vk' \<noteq> vk \<and> ck_physical_key k = p \<longrightarrow> ck_logical_key k = sl"
    and sl: "\<And>r. record_of h p = Some r \<Longrightarrow> r = sl"
  defines "U \<equiv> kh_critical_keys (UpdateLastSeenCriticalKey vk p sl h)"
  shows "omap_wf U" "critical_agree U" "records_ok (Some (critical_rule U)) h" "rule_ok (Some (critical_rule U)) p sl"
proof -
  let ?K = "kh_critical_keys h"
  have K: "omap_wf ?K" "critical_agree ?K" "records_ok (Some (critical_rule ?K)) h"
    using inv by (simp_all add: strict_inv_def)
  show "omap_wf U" using K(1) by (simp add: U_def UpdateLastSeenCriticalKey_def split: option.split)
  have "ck_physical_key k = p \<and> ck_logical_key k = sl \<or> vk' \<noteq> vk \<and> (vk', k) \<in> set ?K"
    if "(vk', k) \<in> set U" for vk' k
  proof (cases "map_of ?K vk")
    case None
    then have "vk \<notin> fst ` set ?K" by (simp add: map_of_eq_None_iff)
    moreover have "(vk', k) \<in> set ?K" using None that by (simp add: U_def UpdateLastSeenCriticalKey_def)
    ultimately show ?thesis by (metis fst_conv imageI)
  next
    case (Some k0)
    then show ?thesis
      using set_omap_put_other [OF K(1), of vk' k vk "k0\<lparr>ck_physical_key := p, ck_logical_key := sl\<rparr>"] that
      by (auto simp: U_def UpdateLastSeenCriticalKey_def)
  qed
  then have entry: "if ck_physical_key k = p then ck_logical_key k = sl else (vk', k) \<in> set ?K"
    if "(vk', k) \<in> set U" for vk' k
    using reg that by fastforce
  show agree: "critical_agree U"
    unfolding critical_agree_def
  proof (clarify)
    fix vk1 k1 vk2 k2
    assume e: "(vk1, k1) \<in> set U" "(vk2, k2) \<in> set U" "ck_physical_key k1 = ck_physical_key k2"
    show "ck_logical_key k1 = ck_logical_key k2"
    proof (cases "ck_physical_key k1 = p")
      case True
      then show ?thesis using entry [OF e(1)] entry [OF e(2)] e(3) by simp
    next
      case False
      then have "(vk1, k1) \<in> set ?K" "(vk2, k2) \<in> set ?K" using entry [OF e(1)] entry [OF e(2)] e(3) by simp_all
      then show ?thesis using K(2) e(3) unfolding critical_agree_def by blast
    qed
  qed
  have rule: "if q = p then l = sl else critical_rule ?K q = Some l" if q: "critical_rule U q = Some l" for q l
  proof -
    obtain vk' k where k: "(vk', k) \<in> set U" "ck_physical_key k = q" "ck_logical_key k = l"
      using critical_rule_Some [OF q] by blast
    show ?thesis
      using entry [OF k(1)] k(2,3) critical_rule_agree [OF K(2), of vk' k] by auto
  qed
  then show "rule_ok (Some (critical_rule U)) p sl" by (auto simp: rule_ok_def)
  have "rule_ok (Some (critical_rule U)) q r" if r: "record_of h q = Some r" for q r
  proof -
    have "r = l" if l: "critical_rule U q = Some l" for l
    proof (cases "q = p")
      case True
      then show ?thesis using rule [OF l] sl r by simp
    next
      case False
      then have "critical_rule ?K q = Some l" using rule [OF l] by simp
      moreover have "rule_ok (Some (critical_rule ?K)) q r" using K(3) r unfolding records_ok_def by blast
      ultimately show ?thesis by (simp add: rule_ok_def)
    qed
    then show ?thesis by (simp add: rule_ok_def)
  qed
  with K(3) show "records_ok (Some (critical_rule U)) h" unfolding records_ok_def by blast
qed

lemma strict_extends:
  assumes "strict_inv h" "extends True h h'"
  shows "framework_run True (map fst (kh_sent h')) Map.empty = Some (record_of h')"
  using assms by (auto simp: strict_inv_def extends_def framework_run_append)

lemma strict_inv_message:
  assumes "strict_inv h" "records_ok None h" "keys_ok None (kh_critical_keys h)" "message_ok m"
    and reg: "kb_regular (Key_Message gs m c) h" and run: "KeyboardHook gs m c h = Inr h'"
  shows "strict_inv h'"
proof -
  define p where "p = GetPhysicalKey (km_scancode m) (km_extended m)"
  define l where "l = GetLogicalKey (km_key m) (km_extended m) (km_scancode m)"
  define sl where "sl = (case record_of h p of None \<Rightarrow> l | Some r \<Rightarrow> r)"
  let ?down = "km_action m = WM_KEYDOWN \<or> km_action m = WM_SYSKEYDOWN"
  have K: "omap_wf (kh_critical_keys h)" "critical_agree (kh_critical_keys h)"
    "records_ok (Some (critical_rule (kh_critical_keys h))) h"
    using assms(1) by (simp_all add: strict_inv_def)
  show ?thesis
  proof (cases "sl = ucast VK_PROCESSKEY")
    case True
    obtain e where "KeyboardHook gs m c h = Inr e" "extends True h e"
      "records_ok (Some (critical_rule (kh_critical_keys h))) e" "kh_critical_keys e = kh_critical_keys h"
      by (rule KeyboardHook_rule [OF assms(4,2,3) K(3), of gs c, folded p_def l_def, folded sl_def]) (simp_all add: True)
    then show ?thesis using run K strict_extends [OF assms(1)] by (simp add: strict_inv_def)
  next
    case False
    have r: "?down \<longrightarrow> l = sl" "\<forall>(vk', k)\<in>set (kh_critical_keys h). vk' \<noteq> km_key m \<and> ck_physical_key k = p \<longrightarrow> ck_logical_key k = sl"
      using reg False by (simp_all add: Let_def flip: p_def l_def sl_def)
    let ?U = "kh_critical_keys (UpdateLastSeenCriticalKey (km_key m) p sl h)"
    have U: "omap_wf ?U" "critical_agree ?U" "records_ok (Some (critical_rule ?U)) h"
      "rule_ok (Some (critical_rule ?U)) p sl"
      by (rule update_regular [OF assms(1) r(2)], simp add: sl_def)+
    have nz: "p \<noteq> 0" "sl \<noteq> 0"
      using assms(2) by (auto simp: p_def l_def sl_def GetPhysicalKey_nonzero GetLogicalKey_nonzero records_ok_def split: option.split)
    have keys: "keys_ok (Some (critical_rule ?U)) ?U"
      by (rule keys_ok_critical [OF keys_ok_update [OF assms(3) nz] U(2)])
    have down: "rule_ok (Some (critical_rule ?U)) p l" if "?down" using U(4) r(1) that by simp
    obtain e where e: "KeyboardHook gs m c h = Inr e" "extends (Some (critical_rule ?U) \<noteq> None) h e"
      "records_ok (Some (critical_rule ?U)) e"
      "sl \<noteq> ucast VK_PROCESSKEY \<Longrightarrow> in_sync gs (km_key m) p e \<and> kh_critical_keys e = map (toggle_update gs) ?U"
    proof (rule KeyboardHook_rule [OF assms(4,2,3) U(3), of gs c, folded p_def l_def, folded sl_def])
      show "keys_ok (Some (critical_rule ?U)) ?U" by (rule keys)
      show "rule_ok (Some (critical_rule ?U)) p l" if "?down" using down that .
    qed (rule that)
    then show ?thesis using False run U(1,2) strict_extends [OF assms(1)] by (simp add: strict_inv_def)
  qed
qed

lemma strict_inv_step:
  assumes "strict_inv h" "records_ok None h" "keys_ok None (kh_critical_keys h)" "kb_ok a h" "kb_regular a h"
    and "kb_step a h = Inr h'"
  shows "strict_inv h'"
proof (cases a)
  case (Key_Message gs m c)
  then show ?thesis using strict_inv_message [OF assms(1-3), of m gs c h'] assms(4-6) by simp
next
  case (Sync_Modifiers s)
  let ?L = "Some (critical_rule (kh_critical_keys h))"
  have K: "omap_wf (kh_critical_keys h)" "critical_agree (kh_critical_keys h)" "records_ok ?L h"
    using assms(1) by (simp_all add: strict_inv_def)
  have "rule_ok ?L 0x000700e1 0x00200000102" "rule_ok ?L 0x000700e0 0x00200000100"
    using assms(5) Sync_Modifiers by (auto simp: rule_ok_def dest!: critical_rule_Some)
  from SyncModifiers_ok [OF K(3) this, of s] obtain e where e: "SyncModifiersIfNeeded s h = Inr e" "evolves ?L h e" by metis
  have "extends True h e" "records_ok ?L e" "kh_critical_keys e = kh_critical_keys h"
    using evolvesD [OF e(2)] K(3) by (simp_all add: same_rest_def)
  then show ?thesis using e(1) K strict_extends [OF assms(1)] Sync_Modifiers assms(6) by (simp add: strict_inv_def)
next
  case (Framework_Answer i b)
  then obtain c where c: "map_of (kh_pending_responses h) i = Some c" using assms(4) by auto
  have "records_ok L (h\<lparr>kh_pending_responses := rs\<rparr>) = records_ok L h" for L rs by (simp add: records_ok_def)
  then show ?thesis
    using assms(1,6) Framework_Answer c by (auto simp: HandleResponse_def strict_inv_def)
qed

lemma strict_run:
  assumes "kb_inv cs h" "strict_inv h" "kb_legal acts h" "kb_all_regular acts h"
    and "length (cs @ kb_callbacks acts) < 2 ^ 64 - 1" "kb_run acts h = Inr h'"
  shows "strict_inv h'"
  using assms
proof (induction acts arbitrary: cs h)
  case (Cons a acts)
  have split: "kb_callbacks (a # acts) = kb_callbacks [a] @ kb_callbacks acts" by (cases a) simp_all
  have ok: "kb_ok a h" "length (cs @ kb_callbacks [a]) < 2 ^ 64 - 1" using Cons.prems(3,5) split by simp_all
  obtain e where e: "kb_step a h = Inr e" "kb_inv (cs @ kb_callbacks [a]) e" by (rule kb_step_ok [OF Cons.prems(1) ok])
  have "records_ok None h" "keys_ok None (kh_critical_keys h)" using Cons.prems(1) by (simp_all add: kb_inv_def)
  from strict_inv_step [OF Cons.prems(2) this ok(1) _ e(1)] have "strict_inv e" using Cons.prems(4) by simp
  with Cons.prems(3-6) e split show ?case by (intro Cons.IH [OF e(2)]) simp_all
qed simp

text \<open>
  C37: In every execution of the handler, whatever the messages, the key states that Windows reports and
  the order of the answers, no assertion fails, and the framework's automaton accepts the events sent: no
  key goes down twice, goes up or repeats while it is up, or has no key code, and repeats and up events
  carry the logical key of the down event, with one exception: a synthesized up event may carry another
  one.  When the critical keys start consistent and every message is regular, there is no exception
  and all the rules of \<open>FlutterKeyEvent\<close> hold.  The keys that the framework sees pressed, with their
  logical keys, are those of \<open>GetPressedState\<close>.  Every callback was invoked exactly once or waits for
  an answer, so all are invoked once the framework has answered.
\<close>

theorem keyboard_stream_legal:
  assumes "kb_legal acts (KeyboardKeyEmbedderHandler_new gs map_vk)" "length (kb_callbacks acts) < 2 ^ 64 - 1"
  shows "\<exists>h. kb_run acts (KeyboardKeyEmbedderHandler_new gs map_vk) = Inr h \<and>
    framework_run False (map fst (kh_sent h)) Map.empty = Some (map_of (GetPressedState h)) \<and>
    (critical_agree (InitCriticalKeys gs map_vk) \<and> kb_all_regular acts (KeyboardKeyEmbedderHandler_new gs map_vk) \<longrightarrow>
      framework_run True (map fst (kh_sent h)) Map.empty = Some (map_of (GetPressedState h))) \<and>
    mset (map fst (kh_replied h)) + mset (map snd (kh_pending_responses h)) = mset (kb_callbacks acts)"
proof -
  let ?h0 = "KeyboardKeyEmbedderHandler_new gs map_vk"
  obtain h where h: "kb_run acts ?h0 = Inr h" "kb_inv ([] @ kb_callbacks acts) h"
    by (rule kb_run_inv [OF kb_inv_new assms(1)]) (use assms(2) in simp_all)
  have "strict_inv ?h0" if "critical_agree (InitCriticalKeys gs map_vk)"
    using that omap_wf_Init [of gs map_vk] by (simp add: strict_inv_def KeyboardKeyEmbedderHandler_new_def records_ok_def)
  then have "strict_inv h" if "critical_agree (InitCriticalKeys gs map_vk)" "kb_all_regular acts ?h0"
    using strict_run [OF kb_inv_new _ assms(1) that(2) _ h(1)] that(1) assms(2) by simp
  with h show ?thesis by (simp add: kb_inv_def strict_inv_def GetPressedState_def)
qed

text \<open>A keyboard with the usual scan codes, all keys up.\<close>

definition demo_scan_code :: "u32 \<Rightarrow> bool \<Rightarrow> u32" where
  "demo_scan_code vk extended =
     (case map_of [(VK_LSHIFT, 0x2a), (VK_RSHIFT, 0x36), (VK_LCONTROL, 0x1d), (VK_RCONTROL, 0x1d), (VK_LMENU, 0x38), (VK_RMENU, 0x38),
        (VK_LWIN, 0x5b), (VK_RWIN, 0x5c), (VK_CAPITAL, 0x3a), (VK_SCROLL, 0x46), (VK_NUMLOCK, 0x45)] vk of
        Some code \<Rightarrow> code | None \<Rightarrow> 0)"

definition demo_key :: "u64 \<Rightarrow> u64 \<Rightarrow> bool \<Rightarrow> CriticalKey" where
  "demo_key physical logical toggle =
     \<lparr>ck_physical_key = physical, ck_logical_key = logical, ck_check_pressed = True, ck_check_toggled = toggle,
      ck_toggled_on = False\<rparr>"

definition demo_keys :: "(u32 \<times> CriticalKey) list" where
  "demo_keys =
     [(VK_CAPITAL, demo_key 0x00070039 0x00100000104 True), (VK_LWIN, demo_key 0x000700e3 0x00200000106 False),
      (VK_RWIN, demo_key 0x000700e7 0x00200000107 False), (VK_NUMLOCK, demo_key 0x00070053 0x0010000010a True),
      (VK_SCROLL, demo_key 0x00070047 0x0010000010c True), (VK_LSHIFT, demo_key 0x000700e1 0x00200000102 False),
      (VK_RSHIFT, demo_key 0x000700e5 0x00200000103 False), (VK_LCONTROL, demo_key 0x000700e0 0x00200000100 False),
      (VK_RCONTROL, demo_key 0x000700e4 0x00200000101 False), (VK_LMENU, demo_key 0x000700e2 0x00200000104 False),
      (VK_RMENU, demo_key 0x000700e6 0x00200000105 False)]"

lemma demo_keys_init: "InitCriticalKeys (\<lambda>_. 0) demo_scan_code = demo_keys"
  by code_simp

lemma demo_handler:
  "KeyboardKeyEmbedderHandler_new (\<lambda>_. 0) demo_scan_code =
     \<lparr>kh_pressingRecords = [], kh_pending_responses = [], kh_response_id = 1, kh_sent_any_events = False,
      kh_critical_keys = demo_keys, kh_sent = [], kh_replied = []\<rparr>"
  by (simp add: KeyboardKeyEmbedderHandler_new_def demo_keys_init)

text \<open>Shift goes down unseen, A is typed and answered for, repeats and goes up, and then Control is down.\<close>

lemma kb_legal_append: "kb_legal acts h \<Longrightarrow> (\<And>h. kb_legal acts' h) \<Longrightarrow> kb_legal (acts @ acts') h"
  by (induction acts arbitrary: h) (auto split: sum.splits)

definition typing :: "nat kb_action list" where
  "typing =
     (let shift = (\<lambda>vk. if vk = VK_LSHIFT then 0x80 else 0);
          a = \<lparr>km_key = 0x41, km_scancode = 0x1e, km_action = WM_KEYDOWN, km_character = 0x41, km_extended = False, km_was_down = False\<rparr>
      in [Key_Message shift a 0, Framework_Answer 2 False, Key_Message shift (a\<lparr>km_was_down := True\<rparr>) 1,
          Key_Message (\<lambda>_. 0) (a\<lparr>km_action := WM_KEYUP, km_was_down := True\<rparr>) 2, Sync_Modifiers kControl])"

theorem keyboard_stream_legal_witness:
  "\<exists>h. kb_run typing (KeyboardKeyEmbedderHandler_new (\<lambda>_. 0) demo_scan_code) = Inr h \<and>
    framework_run True (map fst (kh_sent h)) Map.empty = Some (map_of (GetPressedState h)) \<and>
    mset (map fst (kh_replied h)) + mset (map snd (kh_pending_responses h)) = {#0, 1, 2#}"
proof -
  have reg: "kb_all_regular typing (KeyboardKeyEmbedderHandler_new (\<lambda>_. 0) demo_scan_code)"
    unfolding demo_handler by code_simp
  have agree: "critical_agree (InitCriticalKeys (\<lambda>_. 0) demo_scan_code)" unfolding demo_keys_init by code_simp
  have "kb_legal (take 2 typing) (KeyboardKeyEmbedderHandler_new (\<lambda>_. 0) demo_scan_code)"
    unfolding demo_handler by code_simp
  moreover have "kb_legal (drop 2 typing) h" for h
    by (simp add: typing_def Let_def message_ok_def key_action_ok_def UndeadChar_def kDeadKeyCharMask_def split: sum.split)
  ultimately have "kb_legal (take 2 typing @ drop 2 typing) (KeyboardKeyEmbedderHandler_new (\<lambda>_. 0) demo_scan_code)"
    by (rule kb_legal_append)
  then have "kb_legal typing (KeyboardKeyEmbedderHandler_new (\<lambda>_. 0) demo_scan_code)" by (simp only: append_take_drop_id)
  moreover have "kb_callbacks typing = [0, 1, 2]" by (simp add: typing_def Let_def)
  ultimately show ?thesis using keyboard_stream_legal [of typing "\<lambda>_. 0" demo_scan_code] reg agree by auto
qed

text \<open>
  C38: After a message that is not for an input method, the lock keys are known as Windows reports them,
  and, when no two critical keys share a physical key, every modifier or lock key other than the one of the
  message is pressed for the framework exactly if Windows reports it pressed.
\<close>

theorem critical_keys_in_sync:
  assumes "kb_legal acts (KeyboardKeyEmbedderHandler_new gs0 map_vk)" "length (kb_callbacks acts) < 2 ^ 64 - 1"
    and "kb_run acts (KeyboardKeyEmbedderHandler_new gs0 map_vk) = Inr h" "message_ok m"
    and "(case record_of h (GetPhysicalKey (km_scancode m) (km_extended m)) of
           None \<Rightarrow> GetLogicalKey (km_key m) (km_extended m) (km_scancode m) | Some r \<Rightarrow> r) \<noteq> ucast VK_PROCESSKEY"
  shows "\<exists>h'. KeyboardHook gs m c h = Inr h' \<and>
    (\<forall>(vk, k)\<in>set (kh_critical_keys h'). ck_check_toggled k \<longrightarrow> ck_toggled_on k = true_toggled gs vk) \<and>
    (distinct (map (\<lambda>kv. ck_physical_key (snd kv)) (kh_critical_keys h')) \<longrightarrow>
      (\<forall>(vk, k)\<in>set (kh_critical_keys h').
        ck_check_pressed k \<and> vk \<noteq> km_key m \<and>
          ck_physical_key k \<noteq> as_int (GetPhysicalKey (km_scancode m) (km_extended m)) \<longrightarrow>
          (map_of (GetPressedState h') (ck_physical_key k) \<noteq> None) = true_pressed gs vk))"
proof -
  obtain e where "kb_run acts (KeyboardKeyEmbedderHandler_new gs0 map_vk) = Inr e" "kb_inv ([] @ kb_callbacks acts) e"
    by (rule kb_run_inv [OF kb_inv_new assms(1)]) (use assms(2) in simp_all)
  with assms(3) have h: "records_ok None h" "keys_ok None (kh_critical_keys h)" by (simp_all add: kb_inv_def)
  obtain h' where h': "KeyboardHook gs m c h = Inr h'" "in_sync gs (km_key m) (GetPhysicalKey (km_scancode m) (km_extended m)) h'"
    "\<exists>kvs. kh_critical_keys h' = map (toggle_update gs) kvs"
    by (rule KeyboardHook_ok [OF assms(4) h, of gs c]) (use assms(5) in blast)
  from h'(3) have "\<forall>(vk, k)\<in>set (kh_critical_keys h'). ck_check_toggled k \<longrightarrow> ck_toggled_on k = true_toggled gs vk"
    by (auto simp: toggle_update_def)
  with h'(1,2) show ?thesis by (auto simp: in_sync_def physicals_def GetPressedState_def)
qed


text \<open>Caps lock is on and the left Shift key is down when A is pressed.\<close>

theorem critical_keys_in_sync_witness:
  "\<exists>h'. KeyboardHook (\<lambda>vk. if vk = VK_LSHIFT then 0x80 else if vk = VK_CAPITAL then 1 else 0)
      \<lparr>km_key = 0x41, km_scancode = 0x1e, km_action = WM_KEYDOWN, km_character = 0x41, km_extended = False, km_was_down = False\<rparr>
      (0::nat) (KeyboardKeyEmbedderHandler_new (\<lambda>_. 0) demo_scan_code) = Inr h' \<and>
    (\<forall>(vk, k)\<in>set (kh_critical_keys h'). ck_check_toggled k \<longrightarrow> ck_toggled_on k = (vk = VK_CAPITAL))"
proof -
  let ?gs = "(\<lambda>vk. if vk = VK_LSHIFT then 0x80 else if vk = VK_CAPITAL then 1 else 0) :: key_state"
  let ?m = "\<lparr>km_key = 0x41, km_scancode = 0x1e, km_action = WM_KEYDOWN, km_character = 0x41, km_extended = False, km_was_down = False\<rparr>"
  let ?h = "KeyboardKeyEmbedderHandler_new (\<lambda>_. 0) demo_scan_code :: nat KeyboardKeyEmbedderHandler"
  have logical: "GetLogicalKey 0x41 False 0x1e = 0x61" by code_simp
  have "record_of ?h p = None" for p by (simp add: KeyboardKeyEmbedderHandler_new_def)
  moreover have "message_ok ?m" by (simp add: message_ok_def key_action_ok_def UndeadChar_def kDeadKeyCharMask_def)
  ultimately have "\<exists>h'. KeyboardHook ?gs ?m 0 ?h = Inr h' \<and>
      (\<forall>(vk, k)\<in>set (kh_critical_keys h'). ck_check_toggled k \<longrightarrow> ck_toggled_on k = true_toggled ?gs vk)"
    using critical_keys_in_sync [of "[]" "\<lambda>_. 0" demo_scan_code ?h ?m ?gs 0] logical
    by (simp add: VK_PROCESSKEY_def) blast
  moreover have "true_toggled ?gs vk = (vk = VK_CAPITAL)" for vk
    by (simp add: true_toggled_def kStateMaskToggled_def VK_LSHIFT_def VK_CAPITAL_def)
  ultimately show ?thesis by simp
qed


section \<open>A key without a scan code\<close>

text \<open>
  The physical key of such an event does not survive the conversion to \<open>int\<close>, so the up event's own key
  is synchronized too: the framework gets a synthesized event, and the real one is reported as handled.
\<close>

definition shift_without_scancode :: "nat kb_action list" where
  "shift_without_scancode =
     (let shift = \<lparr>km_key = VK_LSHIFT, km_scancode = 0, km_action = WM_KEYDOWN, km_character = 0, km_extended = False,
            km_was_down = False\<rparr>
      in [Key_Message (\<lambda>vk. if vk = VK_LSHIFT then 0x80 else 0) shift 0,
          Key_Message (\<lambda>_. 0) (shift\<lparr>km_action := WM_KEYUP, km_was_down := True\<rparr>) 1])"

lemma up_event_is_swallowed:
  "(case kb_run shift_without_scancode (KeyboardKeyEmbedderHandler_new (\<lambda>_. 0) demo_scan_code) of
      Inl e \<Rightarrow> False
    | Inr h \<Rightarrow>
        map (\<lambda>(e, r). (fe_type e, fe_synthesized e)) (kh_sent h) =
          [(kFlutterKeyEventTypeDown, False), (kFlutterKeyEventTypeUp, True)] \<and> kh_replied h = [(1, True)])"
  unfolding demo_handler by code_simp

section \<open>Another logical key for the same key\<close>

text \<open>
  A message with the virtual key of Backspace for the scan code of Caps Lock is recorded with
  Backspace.  When another key goes down, Caps Lock is not pressed for Windows, and the handler
  synthesizes its up event with the logical key of Caps Lock: the events of one press differ.
\<close>

definition remapped_caps_lock :: "nat kb_action list" where
  "remapped_caps_lock =
     (let m = \<lparr>km_key = 0x08, km_scancode = 0x3a, km_action = WM_KEYDOWN, km_character = 0x08, km_extended = False,
            km_was_down = False\<rparr>
      in [Key_Message (\<lambda>_. 0) m 0, Key_Message (\<lambda>_. 0) (m\<lparr>km_key := 0x41, km_scancode := 0x1e\<rparr>) 1])"

lemma up_with_another_logical_key:
  "(case kb_run remapped_caps_lock (KeyboardKeyEmbedderHandler_new (\<lambda>_. 0) demo_scan_code) of
      Inl e \<Rightarrow> False
    | Inr h \<Rightarrow> framework_run True (map fst (kh_sent h)) Map.empty = None \<and>
        take 2 (map (\<lambda>(e, r). (fe_type e, fe_physical e, fe_logical e, fe_synthesized e)) (kh_sent h)) =
          [(kFlutterKeyEventTypeDown, 0x00070039, 0x00100000008, False),
           (kFlutterKeyEventTypeUp, 0x00070039, 0x00100000104, True)])"
  unfolding demo_handler by code_simp

end
