(* ===== verification/Keyboard_Handler.thy ===== *)
theory Keyboard_Handler
  imports Keyboard_Embedder_Stream Standard_Codec
begin

text \<open>
  \<open>shell/platform/windows/keyboard_key_handler.cc\<close>: hands a key event to every delegate and reports to its
  callback, once all delegates have replied, whether any of them handled it.

  A delegate is an index; \<open>kk_calls\<close> records the calls of the delegates with the sequence id of the
  event, \<open>kk_reported\<close> the calls of the events' callbacks.  A reply is a step of its own: one that a delegate
  gives while it is called touches nothing that the calls of the other delegates use.
\<close>

section \<open>The handler\<close>

record 'c PendingKeyEvent =
  pk_sequence_id :: u64
  pk_unreplied :: u64
  pk_any_handled :: bool
  pk_callback :: 'c

record 'c KeyboardKeyHandler =
  kk_delegates :: nat
  kk_pending_responds :: "'c PendingKeyEvent list"
  kk_last_sequence_id :: u64
  kk_calls :: "(nat \<times> u64) list"
  kk_reported :: "('c \<times> bool) list"

definition KeyboardKeyHandler_new :: "'c KeyboardKeyHandler" where
  "KeyboardKeyHandler_new =
     \<lparr>kk_delegates = 0, kk_pending_responds = [], kk_last_sequence_id = 1, kk_calls = [], kk_reported = []\<rparr>"

definition AddDelegate :: "'c KeyboardKeyHandler \<Rightarrow> 'c KeyboardKeyHandler" where
  "AddDelegate h = h\<lparr>kk_delegates := kk_delegates h + 1\<rparr>"

definition KeyHandler_KeyboardHook :: "'c \<Rightarrow> 'c KeyboardKeyHandler \<Rightarrow> 'c KeyboardKeyHandler" where
  "KeyHandler_KeyboardHook callback h =
     (let sequence_id = kk_last_sequence_id h + 1;
          incoming = \<lparr>pk_sequence_id = sequence_id, pk_unreplied = word_of_nat (kk_delegates h), pk_any_handled = False,
            pk_callback = callback\<rparr>
      in h\<lparr>kk_last_sequence_id := sequence_id, kk_pending_responds := kk_pending_responds h @ [incoming],
           kk_calls := kk_calls h @ map (\<lambda>d. (d, sequence_id)) [0..<kk_delegates h]\<rparr>)"

text \<open>The loop of \<open>ResolvePendingEvent\<close>: the event that is finished, if any, and the queue; None when no event is found.\<close>

fun resolve_in :: "u64 \<Rightarrow> bool \<Rightarrow> 'c PendingKeyEvent list \<Rightarrow> ('c PendingKeyEvent option \<times> 'c PendingKeyEvent list) option" where
  "resolve_in sequence_id handled [] = None"
| "resolve_in sequence_id handled (event # events) =
     (if pk_sequence_id event = sequence_id then
        let event = event\<lparr>pk_any_handled := pk_any_handled event \<or> handled, pk_unreplied := pk_unreplied event - 1\<rparr>
        in if pk_unreplied event = 0 then Some (Some event, events) else Some (None, event # events)
      else map_option (\<lambda>(f, events). (f, event # events)) (resolve_in sequence_id handled events))"

definition ResolvePendingEvent :: "u64 \<Rightarrow> bool \<Rightarrow> 'c KeyboardKeyHandler \<Rightarrow> 'c KeyboardKeyHandler result" where
  "ResolvePendingEvent sequence_id handled h =
     (case resolve_in sequence_id handled (kk_pending_responds h) of
        None \<Rightarrow> Inl CheckFailed
      | Some (None, events) \<Rightarrow> Inr (h\<lparr>kk_pending_responds := events\<rparr>)
      | Some (Some event, events) \<Rightarrow>
          Inr (h\<lparr>kk_pending_responds := events, kk_reported := kk_reported h @ [(pk_callback event, pk_any_handled event)]\<rparr>))"

subsection \<open>Queries of the framework\<close>

text \<open>\<open>operator[]\<close> of \<open>EncodableMap\<close>, followed by an assignment.\<close>

fun ev_assign :: "EncodableValue \<Rightarrow> EncodableValue \<Rightarrow> (EncodableValue \<times> EncodableValue) list
    \<Rightarrow> (EncodableValue \<times> EncodableValue) list" where
  "ev_assign k v [] = [(k, v)]"
| "ev_assign k v ((l, w) # m) =
     (if ev_less k l then (k, v) # (l, w) # m
      else if ev_less l k then (l, w) # ev_assign k v m
      else (l, v) # m)"

definition keyboard_state :: "(u64 \<times> u64) list \<Rightarrow> EncodableValue" where
  "keyboard_state pressed_state =
     EV_map (fold (\<lambda>(physical, logical). ev_assign (EV_int64 physical) (EV_int64 logical)) pressed_state [])"

text \<open>The first delegate is the embedder handler; \<open>front\<close> of an empty vector is undefined.\<close>

definition KeyHandler_SyncModifiersIfNeeded ::
  "u32 \<Rightarrow> 'c KeyboardKeyEmbedderHandler list \<Rightarrow> 'c KeyboardKeyEmbedderHandler list result" where
  "KeyHandler_SyncModifiersIfNeeded modifiers_state delegates =
     (case delegates of
        [] \<Rightarrow> Inl Undefined
      | key_embedder_handler # others \<Rightarrow>
          rbind (SyncModifiersIfNeeded modifiers_state key_embedder_handler) (\<lambda>h. Inr (h # others)))"

definition KeyHandler_GetPressedState :: "'c KeyboardKeyEmbedderHandler list \<Rightarrow> (u64 \<times> u64) list result" where
  "KeyHandler_GetPressedState delegates =
     (case delegates of [] \<Rightarrow> Inl Undefined | key_embedder_handler # _ \<Rightarrow> Inr (GetPressedState key_embedder_handler))"

text \<open>None stands for \<open>NotImplemented\<close>.\<close>

definition KeyHandler_HandleMethodCall ::
  "string \<Rightarrow> 'c KeyboardKeyEmbedderHandler list \<Rightarrow> EncodableValue option result" where
  "KeyHandler_HandleMethodCall method delegates =
     (if method = ''getKeyboardState''
      then rbind (KeyHandler_GetPressedState delegates) (\<lambda>pressed_state. Inr (Some (keyboard_state pressed_state)))
      else Inr None)"

text \<open>The answer has exactly the pressed keys.\<close>

lemma ev_less_int64 [simp]: "ev_less (EV_int64 a) (EV_int64 b) = (sint a < sint b)"
  by (simp add: ev_less.simps)

lemma ev_assign_fresh:
  assumes "\<forall>e\<in>set m. \<exists>b. fst e = EV_int64 b \<and> b \<noteq> a"
  shows "set (ev_assign (EV_int64 a) v m) = insert (EV_int64 a, v) (set m)"
  using assms
proof (induction m)
  case (Cons e m)
  obtain b w where e: "e = (EV_int64 b, w)" "b \<noteq> a" using Cons.prems by (cases e) auto
  then have "sint a \<noteq> sint b" by (metis signed_word_eqI)
  with e Cons show ?case by (auto simp: not_less)
qed simp

theorem keyboard_state_pairs:
  assumes "distinct (map fst pressed)"
  shows "\<exists>m. keyboard_state pressed = EV_map m \<and> set m = (\<lambda>(p, l). (EV_int64 p, EV_int64 l)) ` set pressed"
proof -
  have "set (fold (\<lambda>(p, l). ev_assign (EV_int64 p) (EV_int64 l)) xs m) = (\<lambda>(p, l). (EV_int64 p, EV_int64 l)) ` set xs \<union> set m"
    if "distinct (map fst xs)" "\<forall>e\<in>set m. \<exists>b. fst e = EV_int64 b \<and> b \<notin> fst ` set xs" for xs m
    using that
  proof (induction xs arbitrary: m)
    case (Cons x xs)
    obtain p l where x: "x = (p, l)" by (cases x)
    have fresh: "set (ev_assign (EV_int64 p) (EV_int64 l) m) = insert (EV_int64 p, EV_int64 l) (set m)"
      by (rule ev_assign_fresh) (use Cons.prems x in fastforce)
    have "\<forall>e\<in>set (ev_assign (EV_int64 p) (EV_int64 l) m). \<exists>b. fst e = EV_int64 b \<and> b \<notin> fst ` set xs"
      using Cons.prems x unfolding fresh by fastforce
    then show ?case using Cons.IH [of "ev_assign (EV_int64 p) (EV_int64 l) m"] Cons.prems(1) x by (simp add: fresh)
  qed simp
  then show ?thesis using assms by (simp add: keyboard_state_def)
qed

section \<open>Executions\<close>

datatype 'c kk_action = Key_event 'c | Delegate_reply nat u64 bool

fun kk_step :: "'c kk_action \<Rightarrow> 'c KeyboardKeyHandler \<Rightarrow> 'c KeyboardKeyHandler result" where
  "kk_step (Key_event c) h = Inr (KeyHandler_KeyboardHook c h)"
| "kk_step (Delegate_reply d i b) h = ResolvePendingEvent i b h"

fun kk_run :: "'c kk_action list \<Rightarrow> 'c KeyboardKeyHandler \<Rightarrow> 'c KeyboardKeyHandler result" where
  "kk_run [] h = Inr h"
| "kk_run (a # as) h = rbind (kk_step a h) (kk_run as)"

text \<open>A delegate replies at most once to an event, and only to one that it was called for; \<open>rs\<close> are earlier replies.\<close>

fun kk_legal :: "'c kk_action list \<Rightarrow> (nat \<times> u64) list \<Rightarrow> 'c KeyboardKeyHandler \<Rightarrow> bool" where
  "kk_legal [] rs h = True"
| "kk_legal (Key_event c # as) rs h = kk_legal as rs (KeyHandler_KeyboardHook c h)"
| "kk_legal (Delegate_reply d i b # as) rs h =
     ((d, i) \<in> set (kk_calls h) \<and> (d, i) \<notin> set rs \<and>
      (case ResolvePendingEvent i b h of Inl e \<Rightarrow> True | Inr h' \<Rightarrow> kk_legal as ((d, i) # rs) h'))"

fun key_events :: "'c kk_action list \<Rightarrow> 'c list" where
  "key_events [] = []"
| "key_events (Key_event c # as) = c # key_events as"
| "key_events (Delegate_reply d i b # as) = key_events as"

fun replies_to :: "u64 \<Rightarrow> 'c kk_action list \<Rightarrow> bool list" where
  "replies_to j [] = []"
| "replies_to j (Key_event c # as) = replies_to j as"
| "replies_to j (Delegate_reply d i b # as) = (if i = j then b # replies_to j as else replies_to j as)"

text \<open>The events with their sequence ids.\<close>

definition numbered :: "'c kk_action list \<Rightarrow> (u64 \<times> 'c) list" where
  "numbered acts = map (\<lambda>k. (word_of_nat (k + 2), key_events acts ! k)) [0..<length (key_events acts)]"

lemma key_events_append: "key_events (xs @ ys) = key_events xs @ key_events ys"
  by (induction xs rule: key_events.induct) simp_all

lemma replies_to_append: "replies_to i (xs @ ys) = replies_to i xs @ replies_to i ys"
  by (induction i xs rule: replies_to.induct) simp_all

lemma numbered_snoc:
  "numbered (xs @ [Key_event c]) = numbered xs @ [(word_of_nat (length (key_events xs) + 2), c)]"
  "numbered (xs @ [Delegate_reply d i b]) = numbered xs"
  by (simp_all add: numbered_def key_events_append nth_append)

section \<open>Invariant\<close>

text \<open>The entry of an event in the queue, after the replies \<open>bs\<close> of \<open>n\<close> delegates.\<close>

definition waiting :: "nat \<Rightarrow> (u64 \<Rightarrow> bool list) \<Rightarrow> u64 \<times> 'c \<Rightarrow> 'c PendingKeyEvent" where
  "waiting n bs e =
     \<lparr>pk_sequence_id = fst e, pk_unreplied = word_of_nat (n - length (bs (fst e))), pk_any_handled = (True \<in> set (bs (fst e))),
      pk_callback = snd e\<rparr>"

lemma resolve_waiting:
  assumes "distinct (map fst es)" "(i, c) \<in> set es" "length (bs i) < n" "n < 2 ^ 64"
    and same: "\<And>j. j \<noteq> i \<Longrightarrow> bs' j = bs j" and new: "bs' i = bs i @ [b]"
  shows "resolve_in i b (map (waiting n bs) es) =
    (if length (bs' i) = n then Some (Some (waiting n bs' (i, c)), map (waiting n bs') (filter (\<lambda>e. fst e \<noteq> i) es))
     else Some (None, map (waiting n bs') es))"
  using assms(1,2)
proof (induction es)
  case (Cons e es)
  show ?case
  proof (cases "fst e = i")
    case True
    then have e: "e = (i, c)" using Cons.prems by (auto simp: image_iff dest: bspec)
    have rest: "i \<notin> fst ` set es" using Cons.prems(1) True by simp
    have "bs (fst x) = bs' (fst x)" if "x \<in> set es" for x using rest that same [of "fst x"] by force
    then have "map (waiting n bs) es = map (waiting n bs') es" by (simp add: waiting_def)
    moreover have "filter (\<lambda>e. fst e \<noteq> i) es = es" using rest by (auto intro: filter_True)
    moreover have "word_of_nat (n - length (bs i)) - 1 = (word_of_nat (n - length (bs' i)) :: u64)"
      using assms(3) new by (simp add: of_nat_diff)
    moreover have zero: "(word_of_nat m :: u64) = 0 \<longleftrightarrow> m = 0" if "m \<le> n" for m
      using that assms(4) by (auto simp: word_of_nat_eq_0_iff dest: dvd_imp_le)
    have "(word_of_nat (n - length (bs' i)) :: u64) = 0 \<longleftrightarrow> length (bs' i) = n"
      by (subst zero) (use assms(3) new in auto)
    ultimately show ?thesis using e new by (simp add: waiting_def Let_def disj_commute)
  next
    case False
    with Cons.prems have "distinct (map fst es)" "(i, c) \<in> set es" by auto
    note Cons.IH [OF this]
    moreover have "waiting n bs e = waiting n bs' e" using same [OF False] by (simp add: waiting_def)
    moreover have "pk_sequence_id (waiting n bs e) = fst e" by (simp add: waiting_def)
    ultimately show ?thesis using False by simp
  qed
qed simp


definition kk_inv :: "nat \<Rightarrow> 'c kk_action list \<Rightarrow> (nat \<times> u64) list \<Rightarrow> 'c KeyboardKeyHandler \<Rightarrow> bool" where
  "kk_inv n acts rs h \<longleftrightarrow>
     kk_delegates h = n \<and> kk_last_sequence_id h = word_of_nat (length (key_events acts) + 1) \<and>
     set (kk_calls h) = {..<n} \<times> fst ` set (numbered acts) \<and> distinct rs \<and> set rs \<subseteq> set (kk_calls h) \<and>
     (\<forall>i. length (replies_to i acts) = length (filter (\<lambda>r. snd r = i) rs)) \<and>
     kk_pending_responds h =
       map (waiting n (\<lambda>i. replies_to i acts)) (filter (\<lambda>e. length (replies_to (fst e) acts) < n) (numbered acts)) \<and>
     mset (kk_reported h) =
       {#(snd e, True \<in> set (replies_to (fst e) acts)). e \<in># {#e \<in># mset (numbered acts). length (replies_to (fst e) acts) = n#}#}"

lemma kk_invD:
  assumes "kk_inv n acts rs h"
  shows "kk_delegates h = n" "kk_last_sequence_id h = word_of_nat (length (key_events acts) + 1)"
    "set (kk_calls h) = {..<n} \<times> fst ` set (numbered acts)" "distinct rs" "set rs \<subseteq> {..<n} \<times> fst ` set (numbered acts)"
    "length (replies_to i acts) = length (filter (\<lambda>r. snd r = i) rs)"
    "kk_pending_responds h =
       map (waiting n (\<lambda>i. replies_to i acts)) (filter (\<lambda>e. length (replies_to (fst e) acts) < n) (numbered acts))"
    "mset (kk_reported h) =
       {#(snd e, True \<in> set (replies_to (fst e) acts)). e \<in># {#e \<in># mset (numbered acts). length (replies_to (fst e) acts) = n#}#}"
  using assms unfolding kk_inv_def by (elim conjE, simp)+

lemma numbered_distinct:
  assumes "length (key_events acts) < 2 ^ 64 - 2"
  shows "distinct (map fst (numbered acts))" "word_of_nat (length (key_events acts) + 2) \<notin> fst ` set (numbered acts)"
proof -
  have eq: "(word_of_nat (j + 2) :: u64) = word_of_nat (k + 2) \<longleftrightarrow> j = k"
    if "j \<le> length (key_events acts)" "k \<le> length (key_events acts)" for j k
    using that assms by (simp only: word_of_nat_eq_iff) (simp add: take_bit_nat_eq_self)
  show "distinct (map fst (numbered acts))"
    by (simp add: numbered_def comp_def distinct_map, rule inj_onI) (use eq in simp)
  show "word_of_nat (length (key_events acts) + 2) \<notin> fst ` set (numbered acts)"
  proof
    assume "word_of_nat (length (key_events acts) + 2) \<in> fst ` set (numbered acts)"
    then obtain k where "k < length (key_events acts)" "(word_of_nat (length (key_events acts) + 2) :: u64) = word_of_nat (k + 2)"
      by (auto simp: numbered_def)
    with eq [of "length (key_events acts)" k] show False by simp
  qed
qed

lemma kk_inv_event:
  assumes "kk_inv n acts rs h" "0 < n" "length (key_events acts) < 2 ^ 64 - 2"
  shows "kk_inv n (acts @ [Key_event c]) rs (KeyHandler_KeyboardHook c h)"
proof -
  define i where "i = (word_of_nat (length (key_events acts) + 2) :: u64)"
  have fresh: "i \<notin> fst ` set (numbered acts)" unfolding i_def by (rule numbered_distinct [OF assms(3)])
  note inv = kk_invD [OF assms(1)]
  have "filter (\<lambda>r. snd r = i) rs = []" using fresh inv(5) by (auto simp: filter_empty_conv)
  then have none: "replies_to i acts = []" using inv(6) [of i] by simp
  have num: "numbered (acts @ [Key_event c]) = numbered acts @ [(i, c)]" by (simp add: numbered_snoc i_def)
  have id: "kk_last_sequence_id h + 1 = i" by (simp add: inv(2) i_def)
  have hook: "KeyHandler_KeyboardHook c h = h\<lparr>kk_last_sequence_id := i,
      kk_pending_responds := kk_pending_responds h @ [waiting n (\<lambda>i. replies_to i acts) (i, c)],
      kk_calls := kk_calls h @ map (\<lambda>d. (d, i)) [0..<n]\<rparr>"
    using id none by (simp add: inv(1) KeyHandler_KeyboardHook_def Let_def waiting_def)
  have "set (kk_calls h @ map (\<lambda>d. (d, i)) [0..<n]) = {..<n} \<times> fst ` set (numbered (acts @ [Key_event c]))"
    using inv(3) num by auto
  moreover have "i = word_of_nat (length (key_events (acts @ [Key_event c])) + 1)" by (simp add: i_def key_events_append)
  moreover have "\<forall>j. length (replies_to j (acts @ [Key_event c])) = length (filter (\<lambda>r. snd r = j) rs)"
    by (simp add: replies_to_append inv(6))
  moreover have "set rs \<subseteq> set (kk_calls h @ map (\<lambda>d. (d, i)) [0..<n])" using inv(3,5) by auto
  moreover have "kk_pending_responds h @ [waiting n (\<lambda>i. replies_to i acts) (i, c)] =
      map (waiting n (\<lambda>i. replies_to i (acts @ [Key_event c])))
        (filter (\<lambda>e. length (replies_to (fst e) (acts @ [Key_event c])) < n) (numbered (acts @ [Key_event c])))"
    using assms(2) none by (simp add: inv(7) num replies_to_append)
  moreover have "mset (kk_reported h) = {#(snd e, True \<in> set (replies_to (fst e) (acts @ [Key_event c]))).
      e \<in># {#e \<in># mset (numbered (acts @ [Key_event c])). length (replies_to (fst e) (acts @ [Key_event c])) = n#}#}"
    using assms(2) none by (simp add: inv(8) num replies_to_append)
  ultimately show ?thesis
    unfolding kk_inv_def hook using inv(1,4) by (intro conjI) simp_all
qed


text \<open>The event that gets its last reply joins the finished ones.\<close>

lemma finished_one:
  assumes "distinct (map fst es)" "(i, c) \<in> set es" "length (bs' i) = n" "length (bs i) < n"
    and "\<And>j. j \<noteq> i \<Longrightarrow> bs' j = (bs j :: bool list)"
  shows "{#(snd e, True \<in> set (bs' (fst e))). e \<in># {#e \<in># mset es. length (bs' (fst e)) = n#}#} =
    add_mset (c, True \<in> set (bs' i)) {#(snd e, True \<in> set (bs (fst e))). e \<in># {#e \<in># mset es. length (bs (fst e)) = n#}#}"
proof -
  obtain xs ys where es: "es = xs @ (i, c) # ys" using assms(2) by (auto simp: in_set_conv_decomp)
  let ?f = "\<lambda>bs zs. {#(snd e, True \<in> set (bs (fst e))). e \<in># {#e \<in># mset zs. length (bs (fst e)) = n#}#}"
  have other: "?f bs' zs = ?f bs zs" if "i \<notin> fst ` set zs" for zs
    using that assms(5) by (induction zs) auto
  have "i \<notin> fst ` set xs" "i \<notin> fst ` set ys" using assms(1) es by auto
  with other [of xs] other [of ys] show ?thesis using assms(3,4) es by simp
qed

lemma kk_inv_reply:
  assumes "kk_inv n acts rs h" "n < 2 ^ 64" "length (key_events acts) < 2 ^ 64 - 2"
    and "(d, i) \<in> set (kk_calls h)" "(d, i) \<notin> set rs"
  obtains h' where "ResolvePendingEvent i b h = Inr h'" "kk_inv n (acts @ [Delegate_reply d i b]) ((d, i) # rs) h'"
proof -
  note inv = kk_invD [OF assms(1)]
  let ?bs = "\<lambda>j. replies_to j acts" and ?bs' = "\<lambda>j. replies_to j (acts @ [Delegate_reply d i b])"
  let ?open = "filter (\<lambda>e. length (?bs (fst e)) < n) (numbered acts)"
  have bs': "?bs' i = ?bs i @ [b]" "\<And>j. j \<noteq> i \<Longrightarrow> ?bs' j = ?bs j" by (simp_all add: replies_to_append)
  have num: "numbered (acts @ [Delegate_reply d i b]) = numbered acts" by (simp add: numbered_snoc)
  obtain c where c: "(i, c) \<in> set (numbered acts)" and d: "d < n" using assms(4) inv(3) by auto
  have dist: "distinct (map fst (numbered acts))" by (rule numbered_distinct [OF assms(3)])
  have "length (?bs i) < n"
  proof -
    let ?ds = "map fst (filter (\<lambda>r. snd r = i) rs)"
    have "distinct ?ds" using inv(4) by (auto simp: distinct_map inj_on_def)
    moreover have "set ?ds \<subseteq> {..<n} - {d}" using inv(5) assms(5) by auto
    ultimately have "length ?ds \<le> card ({..<n} - {d})" by (metis card_mono distinct_card finite_Diff finite_lessThan)
    with d show ?thesis by (simp add: inv(6))
  qed
  moreover have "distinct (map fst ?open)" using dist by (rule distinct_map_filter)
  ultimately have res: "resolve_in i b (map (waiting n ?bs) ?open) =
      (if length (?bs' i) = n then Some (Some (waiting n ?bs' (i, c)), map (waiting n ?bs') (filter (\<lambda>e. fst e \<noteq> i) ?open))
       else Some (None, map (waiting n ?bs') ?open))"
    using c assms(2) bs' by (intro resolve_waiting) auto
  have less: "length (?bs' i) \<le> n" using bs'(1) \<open>length (?bs i) < n\<close> by simp
  have six: "\<forall>j. length (?bs' j) = length (filter (\<lambda>r. snd r = j) ((d, i) # rs))" by (simp add: replies_to_append inv(6))
  have base: "distinct ((d, i) # rs)" "set ((d, i) # rs) \<subseteq> set (kk_calls h)"
    "length (key_events (acts @ [Delegate_reply d i b])) = length (key_events acts)"
    using assms(4,5) inv(3-5) by (auto simp: key_events_append)
  show thesis
  proof (cases "length (?bs' i) = n")
    case True
    let ?h = "h\<lparr>kk_pending_responds := map (waiting n ?bs') (filter (\<lambda>e. fst e \<noteq> i) ?open),
        kk_reported := kk_reported h @ [(c, True \<in> set (?bs' i))]\<rparr>"
    have "fst e \<noteq> i \<and> length (?bs (fst e)) < n \<longleftrightarrow> length (?bs' (fst e)) < n" for e :: "u64 \<times> 'a"
      using True bs'(2) [of "fst e"] by (cases "fst e = i") simp_all
    then have "filter (\<lambda>e. fst e \<noteq> i) ?open = filter (\<lambda>e. length (?bs' (fst e)) < n) (numbered acts)"
      by (simp add: conj_commute)
    moreover have "mset (kk_reported ?h) =
        {#(snd e, True \<in> set (?bs' (fst e))). e \<in># {#e \<in># mset (numbered acts). length (?bs' (fst e)) = n#}#}"
      using finished_one [where bs' = ?bs' and bs = ?bs, OF dist c True \<open>length (?bs i) < n\<close> bs'(2)] by (simp add: inv(8))
    moreover have "ResolvePendingEvent i b h = Inr ?h"
      using res True by (simp add: ResolvePendingEvent_def inv(7) waiting_def)
    ultimately show thesis
      using inv(1-3) base six num by (intro that [of ?h]) (simp_all only: kk_inv_def, simp)
  next
    case False
    let ?h = "h\<lparr>kk_pending_responds := map (waiting n ?bs') ?open\<rparr>"
    have same: "length (?bs' j) < n \<longleftrightarrow> length (?bs j) < n" "length (?bs' j) = n \<longleftrightarrow> length (?bs j) = n"
      "length (?bs j) = n \<Longrightarrow> ?bs' j = ?bs j" for j
      using False less \<open>length (?bs i) < n\<close> bs'(2) [of j] by (cases "j = i"; simp)+
    have "mset (kk_reported ?h) =
        {#(snd e, True \<in> set (?bs' (fst e))). e \<in># {#e \<in># mset (numbered acts). length (?bs' (fst e)) = n#}#}"
      unfolding same(2) by (simp add: inv(8)) (rule image_mset_cong, simp add: same(3))
    moreover have "ResolvePendingEvent i b h = Inr ?h"
      using res False by (simp add: ResolvePendingEvent_def inv(7))
    moreover have "kk_pending_responds ?h =
        map (waiting n ?bs') (filter (\<lambda>e. length (?bs' (fst e)) < n) (numbered acts))" by (simp add: same(1))
    ultimately show thesis
      using inv(1-3) base six num by (intro that [of ?h]) (simp_all only: kk_inv_def, simp)
  qed
qed


lemma add_delegates: "(AddDelegate ^^ n) h = h\<lparr>kk_delegates := kk_delegates h + n\<rparr>"
  by (induction n) (simp_all add: AddDelegate_def)

lemma kk_run_inv:
  assumes "kk_inv n acts rs h" "0 < n" "n < 2 ^ 64" "length (key_events (acts @ acts')) < 2 ^ 64 - 2" "kk_legal acts' rs h"
  obtains rs' h' where "kk_run acts' h = Inr h'" "kk_inv n (acts @ acts') rs' h'"
  using assms(1,4,5)
proof (induction acts' arbitrary: acts rs h thesis)
  case (Cons a acts')
  have len: "length (key_events ((acts @ [a]) @ acts')) < 2 ^ 64 - 2" "length (key_events acts) < 2 ^ 64 - 2"
    using Cons.prems(3) by (simp_all add: key_events_append)
  show thesis
  proof (cases a)
    case (Key_event c)
    have inv: "kk_inv n (acts @ [a]) rs (KeyHandler_KeyboardHook c h)"
      using kk_inv_event [OF Cons.prems(2) assms(2) len(2)] Key_event by simp
    have "kk_legal acts' rs (KeyHandler_KeyboardHook c h)" using Cons.prems(4) Key_event by simp
    from Cons.IH [OF _ inv len(1) this] Cons.prems(1) Key_event show thesis by auto
  next
    case (Delegate_reply d i b)
    then have "(d, i) \<in> set (kk_calls h)" "(d, i) \<notin> set rs" using Cons.prems(4) by simp_all
    then obtain e where e: "ResolvePendingEvent i b h = Inr e" "kk_inv n (acts @ [a]) ((d, i) # rs) e"
      using kk_inv_reply [OF Cons.prems(2) assms(3) len(2), of d i b] Delegate_reply by metis
    have "kk_legal acts' ((d, i) # rs) e" using Cons.prems(4) Delegate_reply e(1) by simp
    from Cons.IH [OF _ e(2) len(1) this] Cons.prems(1) Delegate_reply e(1) show thesis by auto
  qed
qed simp

text \<open>
  C39: However the replies of the delegates to several key events interleave, the handler always finds the
  event, and reports to each event's callback exactly once, when the last delegate has replied, and
  with true exactly if a delegate handled the event; the events that miss a reply wait in their order.
\<close>

theorem key_events_reported_once:
  assumes "0 < n" "n < 2 ^ 64" "length (key_events acts) < 2 ^ 64 - 2"
    and "kk_legal acts [] ((AddDelegate ^^ n) KeyboardKeyHandler_new)"
  shows "\<exists>h. kk_run acts ((AddDelegate ^^ n) KeyboardKeyHandler_new) = Inr h \<and>
    mset (kk_reported h) = {#(c, True \<in> set (replies_to i acts)). (i, c) \<in># {#(i, c) \<in># mset (numbered acts).
       length (replies_to i acts) = n#}#} \<and>
    map pk_callback (kk_pending_responds h) = map snd (filter (\<lambda>(i, c). length (replies_to i acts) < n) (numbered acts))"
proof -
  have "kk_inv n [] [] ((AddDelegate ^^ n) KeyboardKeyHandler_new)"
    by (simp add: add_delegates kk_inv_def KeyboardKeyHandler_new_def numbered_def)
  then obtain rs h where h: "kk_run acts ((AddDelegate ^^ n) KeyboardKeyHandler_new) = Inr h" "kk_inv n ([] @ acts) rs h"
    by (rule kk_run_inv) (use assms in simp_all)
  have "map pk_callback (kk_pending_responds h) = map snd (filter (\<lambda>(i, c). length (replies_to i acts) < n) (numbered acts))"
    using kk_invD(7) [OF h(2)] by (simp add: waiting_def comp_def case_prod_unfold)
  moreover have "mset (kk_reported h) = {#(c, True \<in> set (replies_to i acts)). (i, c) \<in># {#(i, c) \<in># mset (numbered acts).
       length (replies_to i acts) = n#}#}"
    using kk_invD(8) [OF h(2)] by (simp add: case_prod_unfold)
  ultimately show ?thesis using h(1) by blast
qed

text \<open>Two delegates reply to two events crosswise.\<close>

theorem key_events_reported_once_witness:
  "\<exists>h. kk_run [Key_event ''a'', Delegate_reply 1 2 False, Key_event ''b'', Delegate_reply 0 3 True, Delegate_reply 0 2 False]
      ((AddDelegate ^^ 2) KeyboardKeyHandler_new) = Inr h \<and>
    mset (kk_reported h) = {#(''a'', False)#} \<and> map pk_callback (kk_pending_responds h) = [''b'']"
proof -
  let ?acts = "[Key_event ''a'', Delegate_reply 1 2 False, Key_event ''b'', Delegate_reply 0 3 True, Delegate_reply 0 2 False]"
  have "kk_legal ?acts [] ((AddDelegate ^^ 2) KeyboardKeyHandler_new)" by code_simp
  moreover have "numbered ?acts = [(2, ''a''), (3, ''b'')]" by (simp add: numbered_def)
  ultimately show ?thesis using key_events_reported_once [of 2 ?acts] by simp
qed

end
