(* ===== verification/Keyboard_Manager.thy ===== *)
theory Keyboard_Manager
  imports Keyboard_Embedder
begin

text \<open>
  \<open>shell/platform/windows/keyboard_manager.cc\<close>: turns the raw key and character messages of a window into key
  and text calls of its delegate, one key call at a time, and dispatches the messages of the key events
  that the framework does not handle again.

  The calls of the delegate are recorded in \<open>mg_out\<close>.  \<open>OnKey\<close> answers later: its callback holds the event
  (\<open>mg_in_flight\<close>).  \<open>Win32DispatchMessage\<close> is \<open>SendMessage\<close>, which hands the message to \<open>HandleMessage\<close> before it
  returns.  \<open>mg_queued\<close> keeps every event ever queued and is not read by the code.
\<close>

unbundle bit_operations_syntax

section \<open>Messages\<close>

definition WM_CHAR :: u32 where "WM_CHAR = 0x0102"
definition WM_DEADCHAR :: u32 where "WM_DEADCHAR = 0x0103"
definition WM_SYSCHAR :: u32 where "WM_SYSCHAR = 0x0106"
definition WM_SYSDEADCHAR :: u32 where "WM_SYSDEADCHAR = 0x0107"
definition VK_SHIFT :: u32 where "VK_SHIFT = 0x10"
definition VK_CONTROL :: u32 where "VK_CONTROL = 0x11"
definition VK_MENU :: u32 where "VK_MENU = 0x12"
definition VK_PACKET :: u32 where "VK_PACKET = 0xE7"

record Win32Message =
  msg_action :: u32
  msg_wparam :: u64
  msg_lparam :: u64

definition IsHighSurrogate :: "Win32Message \<Rightarrow> bool" where
  "IsHighSurrogate m = (0xD800 \<le> msg_wparam m \<and> msg_wparam m \<le> 0xDBFF)"

definition IsLowSurrogate :: "Win32Message \<Rightarrow> bool" where
  "IsLowSurrogate m = (0xDC00 \<le> msg_wparam m \<and> msg_wparam m \<le> 0xDFFF)"

definition IsGeneralKeyDown :: "Win32Message \<Rightarrow> bool" where
  "IsGeneralKeyDown m = (msg_action m = WM_KEYDOWN \<or> msg_action m = WM_SYSKEYDOWN)"

text \<open>What Windows answers while a message is handled: \<open>MapVirtualKey\<close> in both directions, \<open>PeekMessage\<close>.\<close>

record win32 =
  w_map_vk_to_char :: "u32 \<Rightarrow> u32"
  w_map_scan_to_vk :: "u8 \<Rightarrow> u16"
  w_next_action :: u32

definition IsKeyDownAltRight :: "u32 \<Rightarrow> u32 \<Rightarrow> bool \<Rightarrow> bool" where
  "IsKeyDownAltRight action virtual_key extended =
     (virtual_key = VK_RMENU \<and> extended \<and> (action = WM_KEYDOWN \<or> action = WM_SYSKEYDOWN))"

definition IsKeyUpAltRight :: "u32 \<Rightarrow> u32 \<Rightarrow> bool \<Rightarrow> bool" where
  "IsKeyUpAltRight action virtual_key extended =
     (virtual_key = VK_RMENU \<and> extended \<and> (action = WM_KEYUP \<or> action = WM_SYSKEYUP))"

definition IsKeyDownCtrlLeft :: "u32 \<Rightarrow> u32 \<Rightarrow> bool" where
  "IsKeyDownCtrlLeft action virtual_key = (virtual_key = VK_LCONTROL \<and> (action = WM_KEYDOWN \<or> action = WM_SYSKEYDOWN))"

definition CodePointFromSurrogatePair :: "u16 \<Rightarrow> u16 \<Rightarrow> u32" where
  "CodePointFromSurrogatePair high low = 0x10000 + push_bit 10 (ucast high AND 0x3FF) + (ucast low AND 0x3FF)"

definition ResolveKeyCode :: "win32 \<Rightarrow> u16 \<Rightarrow> bool \<Rightarrow> u8 \<Rightarrow> u16" where
  "ResolveKeyCode w original extended scancode =
     (if original = ucast VK_SHIFT \<or> original = ucast VK_LSHIFT then w_map_scan_to_vk w scancode
      else if original = ucast VK_MENU \<or> original = ucast VK_LMENU then ucast (if extended then VK_RMENU else VK_LMENU)
      else if original = ucast VK_CONTROL \<or> original = ucast VK_LCONTROL then
        ucast (if extended then VK_RCONTROL else VK_LCONTROL)
      else original)"

definition IsPrintable :: "u32 \<Rightarrow> bool" where
  "IsPrintable c = (c \<ge> 0x20 \<and> c \<noteq> 0x7F)"

definition IsSysAction :: "u32 \<Rightarrow> bool" where
  "IsSysAction action = (action = WM_SYSKEYDOWN \<or> action = WM_SYSKEYUP \<or> action = WM_SYSCHAR \<or> action = WM_SYSDEADCHAR)"

definition EncodeUtf16 :: "u32 \<Rightarrow> u16 list result" where
  "EncodeUtf16 character =
     require DcheckFailed (\<not> (0xD800 \<le> character \<and> character \<le> 0xDFFF) \<and> \<not> character > 0x10FFFF)
       (Inr (if (0xD800 \<le> character \<and> character \<le> 0xDFFF) \<or> character > 0x10FFFF then []
             else if character \<le> 0xD7FF \<or> (0xE000 \<le> character \<and> character \<le> 0xFFFF) then [ucast character]
             else
               let remnant = character - 0x10000
               in [ucast (drop_bit 10 remnant + 0xD800), ucast ((remnant AND 0x3FF) + 0xDC00)]))"

section \<open>The manager\<close>

record ManagerEvent =
  me_key :: u64
  me_scancode :: u8
  me_action :: u32
  me_character :: u32
  me_extended :: bool
  me_was_down :: bool
  me_session :: "Win32Message list"

datatype window_call = Call_OnKey ManagerEvent | Call_OnText "u16 list" | Call_Dispatch Win32Message

record KeyboardManager =
  mg_current_session :: "Win32Message list"
  mg_last_key_is_ctrl_left_down :: bool
  mg_ctrl_left_scancode :: u8
  mg_should_synthesize_ctrl_left_up :: bool
  mg_pending_events :: "ManagerEvent list"
  mg_processing_event :: bool
  mg_in_flight :: "ManagerEvent option"
  mg_pending_redispatches :: "Win32Message list"
  mg_out :: "window_call list"
  mg_queued :: "ManagerEvent list"

definition KeyboardManager_new :: KeyboardManager where
  "KeyboardManager_new =
     \<lparr>mg_current_session = [], mg_last_key_is_ctrl_left_down = False, mg_ctrl_left_scancode = 0,
      mg_should_synthesize_ctrl_left_up = False, mg_pending_events = [], mg_processing_event = False, mg_in_flight = None,
      mg_pending_redispatches = [], mg_out = [], mg_queued = []\<rparr>"

definition call :: "window_call \<Rightarrow> KeyboardManager \<Rightarrow> KeyboardManager" where
  "call c g = g\<lparr>mg_out := mg_out g @ [c]\<rparr>"

definition DispatchText :: "ManagerEvent \<Rightarrow> KeyboardManager \<Rightarrow> KeyboardManager result" where
  "DispatchText event g =
     require DcheckFailed (me_session event \<noteq> [])
       (let is_printable = IsPrintable (ucast (msg_wparam (last (me_session event))));
            valid = (me_character event \<noteq> 0 \<and> is_printable)
        in if valid then rbind (EncodeUtf16 (me_character event)) (\<lambda>s. Inr (call (Call_OnText s) g)) else Inr g)"

text \<open>\<open>ProcessNextEvent\<close> and \<open>PerformProcessEvent\<close>, which call each other until a key event is in flight.\<close>

fun process_events :: "ManagerEvent list \<Rightarrow> KeyboardManager \<Rightarrow> KeyboardManager result" where
  "process_events [] g = Inr (g\<lparr>mg_pending_events := [], mg_processing_event := False\<rparr>)"
| "process_events (event # events) g =
     (let g = g\<lparr>mg_pending_events := events, mg_processing_event := True\<rparr>
      in if me_action event = WM_CHAR then
           rbind (DispatchText event g) (\<lambda>g. require DcheckFailed (mg_processing_event g) (process_events events g))
         else Inr (call (Call_OnKey event) (g\<lparr>mg_in_flight := Some event\<rparr>)))"

definition ProcessNextEvent :: "KeyboardManager \<Rightarrow> KeyboardManager result" where
  "ProcessNextEvent g =
     (if mg_processing_event g \<or> mg_pending_events g = [] then Inr g else process_events (mg_pending_events g) g)"

text \<open>The session moves into the event.\<close>

definition queue_event :: "ManagerEvent \<Rightarrow> KeyboardManager \<Rightarrow> KeyboardManager result" where
  "queue_event event g =
     ProcessNextEvent (g\<lparr>mg_current_session := [], mg_pending_events := mg_pending_events g @ [event],
       mg_queued := mg_queued g @ [event]\<rparr>)"

text \<open>The search for a redispatched message; \<open>lparam\<close> is not compared.\<close>

fun remove_redispatched :: "u32 \<Rightarrow> u64 \<Rightarrow> Win32Message list \<Rightarrow> Win32Message list option" where
  "remove_redispatched action wparam [] = None"
| "remove_redispatched action wparam (m # ms) =
     (if action = msg_action m \<and> wparam = msg_wparam m then Some ms
      else map_option (Cons m) (remove_redispatched action wparam ms))"

definition RemoveRedispatchedMessage :: "u32 \<Rightarrow> u64 \<Rightarrow> KeyboardManager \<Rightarrow> KeyboardManager option" where
  "RemoveRedispatchedMessage action wparam g =
     map_option (\<lambda>ms. g\<lparr>mg_pending_redispatches := ms\<rparr>) (remove_redispatched action wparam (mg_pending_redispatches g))"

definition lparam_scancode :: "u64 \<Rightarrow> u8" where "lparam_scancode lparam = ucast (drop_bit 16 lparam AND 0xFF)"
definition lparam_extended :: "u64 \<Rightarrow> bool" where "lparam_extended lparam = (drop_bit 24 lparam AND 1 = 1)"
definition lparam_was_down :: "u64 \<Rightarrow> bool" where "lparam_was_down lparam = (lparam AND 0x40000000 \<noteq> 0)"

text \<open>The end of a character session with the given code point.\<close>

definition end_char_session :: "win32 \<Rightarrow> Win32Message \<Rightarrow> u32 \<Rightarrow> KeyboardManager \<Rightarrow> (bool \<times> KeyboardManager) result" where
  "end_char_session w m code_point g =
     (let action = msg_action m; lparam = msg_lparam m; session = mg_current_session g; first_message = hd session
      in if IsGeneralKeyDown first_message then
           let key_code = (ucast (msg_wparam first_message) :: u16);
               character =
                 (if action = WM_DEADCHAR \<or> action = WM_SYSDEADCHAR then w_map_vk_to_char w (ucast key_code) OR kDeadKeyCharMask
                  else if IsPrintable code_point then code_point else 0);
               event =
                 \<lparr>me_key = ucast key_code, me_scancode = lparam_scancode lparam,
                  me_action = (if action = WM_SYSCHAR then WM_SYSKEYDOWN else WM_KEYDOWN), me_character = character,
                  me_extended = lparam_extended lparam, me_was_down = lparam_was_down lparam, me_session = session\<rparr>
           in rbind (queue_event event g) (\<lambda>g. Inr (\<not> IsSysAction action, g))
         else if action = WM_CHAR then
           let event =
                 \<lparr>me_key = 0, me_scancode = 0, me_action = WM_CHAR, me_character = code_point, me_extended = False,
                  me_was_down = False, me_session = session\<rparr>
           in rbind (queue_event event g) (\<lambda>g. Inr (True, g))
         else Inr (True, g))"

definition handle_char_message :: "win32 \<Rightarrow> Win32Message \<Rightarrow> KeyboardManager \<Rightarrow> (bool \<times> KeyboardManager) result" where
  "handle_char_message w m g =
     (let session = mg_current_session g @ [m];
          g = g\<lparr>mg_current_session := session\<rparr>
      in if IsHighSurrogate m then Inr (True, g)
         else if IsLowSurrogate m then
           if length session \<le> 1 then Inr (False, g)
           else
             let last_message = session ! (length session - 2)
             in if \<not> IsHighSurrogate last_message then Inr (False, g)
                else end_char_session w m (CodePointFromSurrogatePair (ucast (msg_wparam last_message)) (ucast (msg_wparam m))) g
         else end_char_session w m (ucast (ucast (msg_wparam m) :: u16)) g)"

text \<open>The message that releases the left Control key; \<open>1 << 31\<close> is an \<open>int\<close>, extended with its sign.\<close>

definition ctrl_left_up :: "u8 \<Rightarrow> Win32Message" where
  "ctrl_left_up scancode =
     \<lparr>msg_action = WM_KEYUP, msg_wparam = ucast VK_CONTROL,
      msg_lparam = scast (1 OR push_bit 16 (ucast scancode) OR push_bit 30 1 OR push_bit 31 1 :: u32)\<rparr>"

definition char_follows :: "win32 \<Rightarrow> bool" where
  "char_follows w =
     (w_next_action w = WM_DEADCHAR \<or> w_next_action w = WM_SYSDEADCHAR \<or> w_next_action w = WM_CHAR \<or> w_next_action w = WM_SYSCHAR)"

text \<open>\<open>deliver\<close> is what \<open>SendMessage\<close> does with a message.\<close>

definition track_ctrl_left ::
  "(Win32Message \<Rightarrow> KeyboardManager \<Rightarrow> KeyboardManager result) \<Rightarrow> u32 \<Rightarrow> u16 \<Rightarrow> u8 \<Rightarrow> bool
   \<Rightarrow> KeyboardManager \<Rightarrow> KeyboardManager result" where
  "track_ctrl_left deliver action key_code scancode extended g =
     (let g = (if IsKeyDownAltRight action (ucast key_code) extended \<and> mg_last_key_is_ctrl_left_down g
               then g\<lparr>mg_should_synthesize_ctrl_left_up := True\<rparr> else g);
          g = (if IsKeyDownCtrlLeft action (ucast key_code)
               then g\<lparr>mg_last_key_is_ctrl_left_down := True, mg_ctrl_left_scancode := scancode,
                      mg_should_synthesize_ctrl_left_up := False\<rparr>
               else g\<lparr>mg_last_key_is_ctrl_left_down := False\<rparr>)
      in if IsKeyUpAltRight action (ucast key_code) extended \<and> mg_should_synthesize_ctrl_left_up g then
           let g = g\<lparr>mg_should_synthesize_ctrl_left_up := False\<rparr>;
               m = ctrl_left_up (mg_ctrl_left_scancode g)
           in deliver m (call (Call_Dispatch m) g)
         else Inr g)"

definition handle_key_message ::
  "(Win32Message \<Rightarrow> KeyboardManager \<Rightarrow> KeyboardManager result) \<Rightarrow> win32 \<Rightarrow> Win32Message \<Rightarrow> KeyboardManager
   \<Rightarrow> (bool \<times> KeyboardManager) result" where
  "handle_key_message deliver w m g =
     (let action = msg_action m; wparam = msg_wparam m; lparam = msg_lparam m
      in if wparam = ucast VK_PACKET then Inr (False, g)
         else
           let scancode = lparam_scancode lparam;
               extended = lparam_extended lparam;
               key_code = ResolveKeyCode w (ucast wparam) extended scancode;
               was_down = lparam_was_down lparam
           in rbind (track_ctrl_left deliver action key_code scancode extended g) (\<lambda>g.
                let g = g\<lparr>mg_current_session := [m]\<rparr>;
                    is_keydown_message = (action = WM_KEYDOWN \<or> action = WM_SYSKEYDOWN);
                    character = w_map_vk_to_char w (ucast wparam)
                in if character > 0 \<and> is_keydown_message \<and> char_follows w then Inr (True, g)
                   else
                     let event =
                           \<lparr>me_key = ucast key_code, me_scancode = scancode, me_action = action, me_character = 0,
                            me_extended = extended, me_was_down = was_down, me_session = mg_current_session g\<rparr>
                     in rbind (queue_event event g) (\<lambda>g. Inr (\<not> IsSysAction action, g))))"

definition is_char_action :: "u32 \<Rightarrow> bool" where
  "is_char_action action = (action = WM_DEADCHAR \<or> action = WM_SYSDEADCHAR \<or> action = WM_CHAR \<or> action = WM_SYSCHAR)"

definition HandleMessage_with ::
  "(Win32Message \<Rightarrow> KeyboardManager \<Rightarrow> KeyboardManager result) \<Rightarrow> win32 \<Rightarrow> Win32Message \<Rightarrow> KeyboardManager
   \<Rightarrow> (bool \<times> KeyboardManager) result" where
  "HandleMessage_with deliver w m g =
     (case RemoveRedispatchedMessage (msg_action m) (msg_wparam m) g of
        Some g \<Rightarrow> Inr (False, g)
      | None \<Rightarrow>
          if is_char_action (msg_action m) then handle_char_message w m g
          else if key_action_ok (msg_action m) then handle_key_message deliver w m g
          else Inl CheckFailed)"

text \<open>
  Handling a message sends at most the release of the left Control key, which sends nothing itself:
  two levels are enough, and the theorems show that the third is not reached.
\<close>

definition HandleMessage :: "win32 \<Rightarrow> Win32Message \<Rightarrow> KeyboardManager \<Rightarrow> (bool \<times> KeyboardManager) result" where
  "HandleMessage w =
     HandleMessage_with (\<lambda>m g. rbind (HandleMessage_with (\<lambda>_ _. Inl Undefined) w m g) (\<lambda>(_, g). Inr g)) w"

section \<open>Answers of the framework\<close>

fun redispatch_messages :: "win32 \<Rightarrow> Win32Message list \<Rightarrow> KeyboardManager \<Rightarrow> KeyboardManager result" where
  "redispatch_messages w [] g = Inr g"
| "redispatch_messages w (m # ms) g =
     (if IsSysAction (msg_action m) then redispatch_messages w ms g
      else
        rbind (HandleMessage w m (call (Call_Dispatch m) (g\<lparr>mg_pending_redispatches := mg_pending_redispatches g @ [m]\<rparr>)))
          (\<lambda>(_, g). redispatch_messages w ms g))"

definition RedispatchEvent :: "win32 \<Rightarrow> ManagerEvent \<Rightarrow> KeyboardManager \<Rightarrow> KeyboardManager result" where
  "RedispatchEvent w event g = redispatch_messages w (me_session event) g"

definition HandleOnKeyResult :: "win32 \<Rightarrow> ManagerEvent \<Rightarrow> bool \<Rightarrow> KeyboardManager \<Rightarrow> KeyboardManager result" where
  "HandleOnKeyResult w event framework_handled g =
     (if me_session event = [] then Inl Undefined
      else
        let last_action = msg_action (last (me_session event));
            handled = (framework_handled \<or> IsSysAction last_action)
        in if handled then Inr g
           else rbind (if last_action = WM_CHAR then DispatchText event g else Inr g) (RedispatchEvent w event))"

text \<open>The callback of \<open>OnKey\<close>.\<close>

definition OnKey_callback :: "win32 \<Rightarrow> bool \<Rightarrow> KeyboardManager \<Rightarrow> KeyboardManager result" where
  "OnKey_callback w handled g =
     (case mg_in_flight g of
        None \<Rightarrow> Inl Undefined
      | Some event \<Rightarrow>
          rbind (HandleOnKeyResult w event handled (g\<lparr>mg_in_flight := None\<rparr>)) (\<lambda>g.
            require DcheckFailed (mg_processing_event g) (ProcessNextEvent (g\<lparr>mg_processing_event := False\<rparr>))))"

end
