(* ===== verification/Keyboard_Manager_Spec.thy ===== *)
theory Keyboard_Manager_Spec
  imports Keyboard_Manager Keyboard_Embedder_Spec
begin

text \<open>
  What the manager guarantees to its window: key calls that the key handlers accept, one at a time and
  in the order of the events, and no event or message is left behind.
\<close>

unbundle bit_operations_syntax

section \<open>Characters\<close>

definition char_ok :: "u32 \<Rightarrow> bool" where
  "char_ok c \<longleftrightarrow> c \<le> 0x10FFFF \<and> \<not> (0xD800 \<le> c \<and> c \<le> 0xDFFF)"

lemma EncodeUtf16_ok: "char_ok c \<Longrightarrow> \<exists>s. EncodeUtf16 c = Inr s"
  by (auto simp: EncodeUtf16_def char_ok_def not_less)

text \<open>The encoder is the one of the other components.\<close>

lemma bmp_split:
  assumes "\<not> (0xD800 \<le> c \<and> c \<le> (0xDFFF :: u32))"
  shows "(c \<le> 0xD7FF \<or> (0xE000 \<le> c \<and> c \<le> 0xFFFF)) = (c \<le> 0xFFFF)"
proof -
  have num: "(u \<le> 0xD7FF \<or> (0xE000 \<le> u \<and> u \<le> 0xFFFF)) = (u \<le> 0xFFFF)" if "\<not> (0xD800 \<le> u \<and> u \<le> 0xDFFF)" for u :: int
    using that by (cases "u \<le> 0xD7FF") auto
  have le: "numeral k \<le> c \<longleftrightarrow> uint (numeral k :: u32) \<le> uint c" "c \<le> numeral k \<longleftrightarrow> uint c \<le> uint (numeral k :: u32)" for k
    by (simp_all add: word_le_def)
  show ?thesis unfolding le by (simp, rule num) (use assms in \<open>simp add: le\<close>)
qed

lemma EncodeUtf16_eq:
  assumes "char_ok c"
  shows "EncodeUtf16 c = Inr (if c \<le> 0xFFFF then [ucast c]
    else [ucast (drop_bit 10 (c - 0x10000) + 0xD800), ucast ((c - 0x10000 AND 0x3FF) + 0xDC00)])"
proof -
  have cond: "(0xD800 \<le> c \<and> c \<le> 0xDFFF) = False" "(c > 0x10FFFF) = False" using assms by (simp_all add: char_ok_def not_less)
  have bmp: "(c \<le> 0xD7FF \<or> (0xE000 \<le> c \<and> c \<le> 0xFFFF)) = (c \<le> 0xFFFF)" by (rule bmp_split) (simp only: cond simp_thms)
  show ?thesis by (simp only: EncodeUtf16_def Let_def cond bmp simp_thms if_False require_True)
qed

lemma EncodeUtf16_encode16:
  assumes "char_ok c"
  shows "EncodeUtf16 c = Inr (encode16 (uint c))"
proof (cases "uint c \<le> 0xFFFF")
  case True
  then have "c \<le> 0xFFFF" by (simp add: word_le_def)
  then show ?thesis by (simp only: EncodeUtf16_eq [OF assms] encode16_def True if_True ucast_eq)
next
  case False
  let ?r = "c - 0x10000"
  have u: "uint c \<le> 0x10FFFF" using assms by (simp add: char_ok_def word_le_def)
  then have r: "uint ?r = uint c - 0x10000" using False by (simp add: uint_word_ariths mod_pos_pos_trivial)
  have "?r AND 0x3FF = take_bit 10 ?r" by (simp add: take_bit_eq_mask mask_eq_exp_minus_1)
  moreover have "uint (take_bit 10 ?r) = take_bit 10 (uint ?r)" by (rule unsigned_take_bit_eq)
  moreover have "take_bit 10 k = k mod 1024" for k :: int by (simp add: take_bit_eq_mod)
  ultimately have low: "uint (?r AND 0x3FF) = (uint c - 0x10000) mod 1024" using r by metis
  have "uint (drop_bit n w) = drop_bit n (uint w)" for n and w :: u32
    by (rule bit_eqI) (auto simp: bit_uint_iff bit_drop_bit_eq dest: bit_imp_le_length)
  moreover have "drop_bit 10 k = k div 1024" for k :: int by (simp add: drop_bit_eq_div)
  ultimately have high: "uint (drop_bit 10 ?r) = (uint c - 0x10000) div 1024" using r by metis
  have "ucast (w + k) = (word_of_int (uint w + uint k) :: u16)" for w k :: u32
  proof -
    have "uint (w + k) = (uint w + uint k) mod 2 ^ 32" by (simp add: uint_word_ariths)
    moreover have "(word_of_int (j mod 2 ^ 32) :: u16) = word_of_int j" for j
      by (simp only: word_of_int_eq_iff) (simp add: take_bit_eq_mod mod_mod_cancel)
    ultimately show ?thesis by (simp only: ucast_eq)
  qed
  note sum = this
  have "\<not> c \<le> 0xFFFF" using False by (simp add: word_le_def)
  moreover have "uint (0xD800 :: u32) = 0xD800" "uint (0xDC00 :: u32) = 0xDC00" by simp_all
  ultimately show ?thesis using False
    by (simp only: EncodeUtf16_eq [OF assms] encode16_def if_False sum low high add.commute [of _ "0xD800"] add.commute [of _ "0xDC00"])
qed

lemma char_ok_0 [simp]: "char_ok 0"
  by (simp add: char_ok_def)

lemma char_ok_astral: "0x10000 \<le> uint c \<Longrightarrow> uint c \<le> 0x10FFFF \<Longrightarrow> char_ok c"
  by (simp add: char_ok_def word_le_def)

lemma pair_char_ok: "char_ok (CodePointFromSurrogatePair high low)"
proof -
  let ?h = "push_bit 10 (ucast high AND 0x3FF) :: u32" and ?l = "ucast low AND 0x3FF :: u32"
  have bound: "uint (x AND 0x3FF) \<le> 0x3FF" for x :: u32
    using word_and_le1 [of x "0x3FF"] by (simp add: word_le_def)
  have "uint ?h = uint (ucast high AND 0x3FF :: u32) * 1024"
    using bound [of "ucast high"] by (simp add: push_bit_eq_mult uint_mult_ge0 uint_word_arith_bintrs take_bit_eq_mod mod_pos_pos_trivial)
  then have h: "uint ?h \<le> 0xFFC00" using bound [of "ucast high"] by simp
  have "uint (0x10000 + ?h + ?l) = 0x10000 + uint ?h + uint ?l"
    using h bound [of "ucast low"] by (simp add: uint_word_ariths mod_pos_pos_trivial)
  moreover have "0 \<le> uint ?h" "0 \<le> uint ?l" by (rule uint_nonnegative)+
  ultimately have "0x10000 \<le> uint (0x10000 + ?h + ?l)" "uint (0x10000 + ?h + ?l) \<le> 0x10FFFF"
    using h bound [of "ucast low"] by linarith+
  then show ?thesis unfolding CodePointFromSurrogatePair_def by (rule char_ok_astral)
qed

lemma unit_char_ok:
  assumes "wp < 0x10000" "\<not> (0xD800 \<le> wp \<and> wp \<le> 0xDFFF)"
  shows "char_ok (ucast (ucast (wp :: u64) :: u16))"
proof -
  have "uint wp < 0x10000" using assms(1) by (simp add: word_less_def)
  then have "uint (ucast wp :: u16) = uint wp" by (simp add: unsigned_ucast_eq take_bit_int_eq_self_iff)
  moreover have "uint (ucast x :: u32) = uint x" for x :: u16
    using uint_lt2p [of x] by (simp add: unsigned_ucast_eq take_bit_int_eq_self_iff)
  ultimately have "uint (ucast (ucast wp :: u16) :: u32) = uint wp" by simp
  then show ?thesis using assms by (simp add: char_ok_def word_le_def word_less_def)
qed

lemma UndeadChar_small: "c \<le> 0x10FFFF \<Longrightarrow> UndeadChar c \<le> 0x10FFFF"
  using word_and_le2 [of c "NOT kDeadKeyCharMask"] by (simp add: UndeadChar_def)

lemma UndeadChar_dead [simp]: "UndeadChar (c OR kDeadKeyCharMask) = UndeadChar c"
  unfolding UndeadChar_def by (rule bit_word_eqI) (auto simp: bit_simps)


section \<open>Invariant\<close>

definition event_ok :: "ManagerEvent \<Rightarrow> bool" where
  "event_ok e \<longleftrightarrow> me_session e \<noteq> [] \<and>
     (if me_action e = WM_CHAR then char_ok (me_character e)
      else key_action_ok (me_action e) \<and> UndeadChar (me_character e) \<le> 0x10FFFF \<and>
        (msg_action (last (me_session e)) = WM_CHAR \<longrightarrow> char_ok (me_character e)))"

text \<open>The arguments of \<open>OnKey\<close>.\<close>

definition call_message :: "ManagerEvent \<Rightarrow> key_message" where
  "call_message e =
     \<lparr>km_key = ucast (me_key e), km_scancode = ucast (me_scancode e), km_action = me_action e, km_character = me_character e,
      km_extended = me_extended e, km_was_down = me_was_down e\<rparr>"

fun key_calls :: "window_call list \<Rightarrow> ManagerEvent list" where
  "key_calls [] = []"
| "key_calls (Call_OnKey e # cs) = e # key_calls cs"
| "key_calls (Call_OnText s # cs) = key_calls cs"
| "key_calls (Call_Dispatch m # cs) = key_calls cs"

lemma key_calls_append [simp]: "key_calls (xs @ ys) = key_calls xs @ key_calls ys"
  by (induction xs rule: key_calls.induct) simp_all

abbreviation is_key_event :: "ManagerEvent \<Rightarrow> bool" where
  "is_key_event e \<equiv> me_action e \<noteq> WM_CHAR"

text \<open>Nothing is lost: the events that are no longer pending have been processed, in order.\<close>

definition mg_base :: "KeyboardManager \<Rightarrow> bool" where
  "mg_base g \<longleftrightarrow>
     (\<forall>e\<in>set (mg_queued g). event_ok e) \<and> mg_pending_redispatches g = [] \<and>
     (\<exists>processed. mg_queued g = processed @ mg_pending_events g \<and> key_calls (mg_out g) = filter is_key_event processed)"

definition mg_inv :: "nat \<Rightarrow> KeyboardManager \<Rightarrow> bool" where
  "mg_inv n g \<longleftrightarrow>
     mg_base g \<and> mg_processing_event g = (mg_in_flight g \<noteq> None) \<and> (\<not> mg_processing_event g \<longrightarrow> mg_pending_events g = []) \<and>
     length (key_calls (mg_out g)) = n + (if mg_in_flight g = None then 0 else 1) \<and>
     (\<forall>e. mg_in_flight g = Some e \<longrightarrow> e \<in> set (mg_queued g) \<and> is_key_event e)"

lemma mg_base_update [simp]:
  "mg_base (g\<lparr>mg_current_session := s\<rparr>) = mg_base g" "mg_base (g\<lparr>mg_last_key_is_ctrl_left_down := b\<rparr>) = mg_base g"
  "mg_base (g\<lparr>mg_ctrl_left_scancode := sc\<rparr>) = mg_base g" "mg_base (g\<lparr>mg_should_synthesize_ctrl_left_up := b\<rparr>) = mg_base g"
  "mg_base (g\<lparr>mg_processing_event := b\<rparr>) = mg_base g" "mg_base (g\<lparr>mg_in_flight := f\<rparr>) = mg_base g"
  "mg_base (call (Call_Dispatch m) g) = mg_base g" "mg_base (call (Call_OnText u) g) = mg_base g"
  by (simp_all add: mg_base_def call_def)

lemma mg_inv_update [simp]:
  "mg_inv n (g\<lparr>mg_current_session := s\<rparr>) = mg_inv n g" "mg_inv n (g\<lparr>mg_last_key_is_ctrl_left_down := b\<rparr>) = mg_inv n g"
  "mg_inv n (g\<lparr>mg_ctrl_left_scancode := sc\<rparr>) = mg_inv n g" "mg_inv n (g\<lparr>mg_should_synthesize_ctrl_left_up := b\<rparr>) = mg_inv n g"
  "mg_inv n (call (Call_Dispatch m) g) = mg_inv n g" "mg_inv n (call (Call_OnText u) g) = mg_inv n g"
  by (simp_all add: mg_inv_def mg_base_def call_def)

lemma DispatchText_ok:
  assumes "me_session e \<noteq> []" "char_ok (me_character e)"
  obtains "DispatchText e g = Inr g" | s where "DispatchText e g = Inr (call (Call_OnText s) g)"
proof -
  obtain s where s: "EncodeUtf16 (me_character e) = Inr s" using EncodeUtf16_ok [OF assms(2)] by blast
  show thesis
  proof (cases "me_character e \<noteq> 0 \<and> IsPrintable (ucast (msg_wparam (last (me_session e))))")
    case True
    with s assms(1) show thesis by (intro that(2) [of s]) (simp add: DispatchText_def Let_def)
  next
    case False
    with assms(1) show thesis by (intro that(1)) (auto simp: DispatchText_def Let_def)
  qed
qed

text \<open>Processing goes on to the next key event, or to the end.\<close>

lemma process_events_ok:
  assumes "\<forall>e\<in>set (mg_queued g). event_ok e" "mg_pending_redispatches g = []" "mg_in_flight g = None"
    and "mg_queued g = processed @ events" "key_calls (mg_out g) = filter is_key_event processed"
    and "length (key_calls (mg_out g)) = n"
  obtains g' where "process_events events g = Inr g'" "mg_inv n g'"
  using assms
proof (induction events arbitrary: g processed thesis)
  case Nil
  have "mg_inv n (g\<lparr>mg_pending_events := [], mg_processing_event := False\<rparr>)"
    using Nil.prems(2-7) by (simp add: mg_inv_def mg_base_def)
  then show thesis by (intro Nil.prems(1)) simp_all
next
  case (Cons e events)
  let ?g = "g\<lparr>mg_pending_events := events, mg_processing_event := True\<rparr>"
  show thesis
  proof (cases "is_key_event e")
    case True
    have "mg_inv n (call (Call_OnKey e) (?g\<lparr>mg_in_flight := Some e\<rparr>))"
      using Cons.prems True unfolding mg_inv_def mg_base_def
      by (auto simp: call_def intro!: exI [of _ "processed @ [e]"])
    then show thesis using True by (intro Cons.prems(1)) (simp_all add: Let_def)
  next
    case False
    have ok: "me_session e \<noteq> []" "char_ok (me_character e)" using Cons.prems(2,5) False by (auto simp: event_ok_def)
    obtain g1 where g1: "DispatchText e ?g = Inr g1" "g1 = ?g \<or> (\<exists>s. g1 = call (Call_OnText s) ?g)"
      by (rule DispatchText_ok [OF ok, of ?g]) auto
    have "mg_queued g1 = (processed @ [e]) @ events" "key_calls (mg_out g1) = filter is_key_event (processed @ [e])"
      "mg_pending_redispatches g1 = []" "mg_in_flight g1 = None" "length (key_calls (mg_out g1)) = n"
      "\<forall>e\<in>set (mg_queued g1). event_ok e" and proc: "mg_processing_event g1"
      using g1(2) Cons.prems(2-7) False by (auto simp: call_def)
    then obtain g' where "process_events events g1 = Inr g'" "mg_inv n g'" using Cons.IH by metis
    then show thesis using g1(1) False proc by (intro Cons.prems(1)) (simp_all add: Let_def)
  qed
qed

lemma queue_event_ok:
  assumes "mg_inv n g" "event_ok e"
  obtains g' where "queue_event e g = Inr g'" "mg_inv n g'"
proof (cases "mg_processing_event g")
  case True
  let ?g = "g\<lparr>mg_current_session := [], mg_pending_events := mg_pending_events g @ [e], mg_queued := mg_queued g @ [e]\<rparr>"
  have "mg_inv n ?g" using assms True by (auto simp: mg_inv_def mg_base_def)
  then show thesis using that [of ?g] True by (simp add: queue_event_def ProcessNextEvent_def)
next
  case False
  let ?g = "g\<lparr>mg_current_session := [], mg_pending_events := mg_pending_events g @ [e], mg_queued := mg_queued g @ [e]\<rparr>"
  have "mg_pending_events g = []" "mg_in_flight g = None" using assms(1) False by (simp_all add: mg_inv_def)
  moreover obtain g' where "process_events [e] ?g = Inr g'" "mg_inv n g'"
    by (rule process_events_ok [of ?g "mg_queued g" "[e]" n])
      (use assms False in \<open>auto simp: mg_inv_def mg_base_def\<close>)
  ultimately show thesis using that [of g'] False by (simp add: queue_event_def ProcessNextEvent_def)
qed


section \<open>Messages\<close>

definition win_ok :: "win32 \<Rightarrow> bool" where
  "win_ok w \<longleftrightarrow> (\<forall>vk. UndeadChar (w_map_vk_to_char w vk) \<le> 0x10FFFF)"

text \<open>A character message carries a UTF-16 unit.\<close>

definition message_legal :: "Win32Message \<Rightarrow> bool" where
  "message_legal m \<longleftrightarrow>
     (is_char_action (msg_action m) \<or> key_action_ok (msg_action m)) \<and>
     (is_char_action (msg_action m) \<longrightarrow> msg_wparam m < 0x10000)"

lemmas action_defs = WM_KEYDOWN_def WM_KEYUP_def WM_SYSKEYDOWN_def WM_SYSKEYUP_def WM_CHAR_def WM_DEADCHAR_def WM_SYSCHAR_def
  WM_SYSDEADCHAR_def

lemma key_action_not_char [simp]: "key_action_ok a \<Longrightarrow> a \<noteq> WM_CHAR"
  by (auto simp: key_action_ok_def action_defs)

lemma char_ok_le: "char_ok c \<Longrightarrow> c \<le> 0x10FFFF"
  by (simp add: char_ok_def)

lemma end_char_session_ok:
  assumes "mg_inv n g" "win_ok w" "mg_current_session g \<noteq> []" "last (mg_current_session g) = m" "char_ok c"
  obtains b g' where "end_char_session w m c g = Inr (b, g')" "mg_inv n g'"
proof -
  let ?first = "hd (mg_current_session g)"
  consider "IsGeneralKeyDown ?first" | "\<not> IsGeneralKeyDown ?first" "msg_action m = WM_CHAR"
    | "\<not> IsGeneralKeyDown ?first" "msg_action m \<noteq> WM_CHAR" by blast
  then show thesis
  proof cases
    case 1
    let ?dead = "msg_action m = WM_DEADCHAR \<or> msg_action m = WM_SYSDEADCHAR"
    let ?key = "ucast (msg_wparam ?first) :: u16"
    let ?c = "if ?dead then w_map_vk_to_char w (ucast ?key) OR kDeadKeyCharMask else if IsPrintable c then c else 0"
    let ?e = "\<lparr>me_key = ucast ?key, me_scancode = lparam_scancode (msg_lparam m),
        me_action = (if msg_action m = WM_SYSCHAR then WM_SYSKEYDOWN else WM_KEYDOWN), me_character = ?c,
        me_extended = lparam_extended (msg_lparam m), me_was_down = lparam_was_down (msg_lparam m),
        me_session = mg_current_session g\<rparr>"
    have "UndeadChar ?c \<le> 0x10FFFF"
      using assms(2,5) by (simp add: win_ok_def UndeadChar_small char_ok_le)
    moreover have "char_ok ?c" if "msg_action m = WM_CHAR" using that assms(5) by (simp add: action_defs)
    moreover have "me_action ?e \<noteq> WM_CHAR" "key_action_ok (me_action ?e)" by (simp_all add: action_defs key_action_ok_def)
    ultimately have "event_ok ?e" using assms(3,4) unfolding event_ok_def by simp
    then obtain g' where "queue_event ?e g = Inr g'" "mg_inv n g'" by (rule queue_event_ok [OF assms(1)])
    then show thesis using 1 by (intro that) (simp_all add: end_char_session_def Let_def)
  next
    case 2
    let ?e = "\<lparr>me_key = 0, me_scancode = 0, me_action = WM_CHAR, me_character = c, me_extended = False, me_was_down = False,
        me_session = mg_current_session g\<rparr>"
    have "event_ok ?e" using assms(3,5) by (simp add: event_ok_def)
    then obtain g' where "queue_event ?e g = Inr g'" "mg_inv n g'" by (rule queue_event_ok [OF assms(1)])
    then show thesis using 2 by (intro that) (simp_all add: end_char_session_def Let_def)
  next
    case 3
    then show thesis using assms(1) by (intro that) (simp_all add: end_char_session_def Let_def)
  qed
qed

lemma handle_char_message_ok:
  assumes "mg_inv n g" "win_ok w" "msg_wparam m < 0x10000"
  obtains b g' where "handle_char_message w m g = Inr (b, g')" "mg_inv n g'"
proof -
  let ?g = "g\<lparr>mg_current_session := mg_current_session g @ [m]\<rparr>"
  have inv: "mg_inv n ?g" using assms(1) by simp
  consider "IsHighSurrogate m" | "\<not> IsHighSurrogate m" "IsLowSurrogate m" | "\<not> IsHighSurrogate m" "\<not> IsLowSurrogate m" by blast
  then show thesis
  proof cases
    case 1
    then show thesis using inv by (intro that [of True ?g]) (simp_all add: handle_char_message_def Let_def)
  next
    case 2
    let ?prev = "(mg_current_session g @ [m]) ! (length (mg_current_session g @ [m]) - 2)"
    let ?c = "CodePointFromSurrogatePair (ucast (msg_wparam ?prev)) (ucast (msg_wparam m))"
    obtain b g' where "end_char_session w m ?c ?g = Inr (b, g')" "mg_inv n g'"
      by (rule end_char_session_ok [OF inv assms(2), of m ?c]) (simp_all add: pair_char_ok)
    then have "\<exists>b g'. handle_char_message w m g = Inr (b, g') \<and> mg_inv n g'"
      using 2 inv by (cases "length (mg_current_session g) = 0 \<or> \<not> IsHighSurrogate ?prev") (auto simp: handle_char_message_def Let_def)
    then show thesis using that by blast
  next
    case 3
    let ?c = "ucast (ucast (msg_wparam m) :: u16) :: u32"
    have "msg_wparam m < 0xD800 \<or> 0xDFFF < msg_wparam m"
      using 3 by (auto simp: IsHighSurrogate_def IsLowSurrogate_def word_le_def word_less_def)
    then have "char_ok ?c" by (intro unit_char_ok assms(3)) auto
    then obtain b g' where "end_char_session w m ?c ?g = Inr (b, g')" "mg_inv n g'"
      by (rule end_char_session_ok [OF inv assms(2), of m ?c, rotated 2]) simp_all
    then show thesis using 3 by (intro that) (simp_all add: handle_char_message_def Let_def)
  qed
qed


text \<open>The forged message is a release of the left Control key, and forges nothing.\<close>

lemma track_ctrl_left_ok:
  assumes "mg_inv n g" and "\<And>sc g. mg_inv n g \<Longrightarrow> \<exists>g'. deliver (ctrl_left_up sc) g = Inr g' \<and> mg_inv n g'"
  shows "\<exists>g'. track_ctrl_left deliver action key sc ext g = Inr g' \<and> mg_inv n g'"
  unfolding track_ctrl_left_def Let_def using assms(1) by (simp add: assms(2))

lemma handle_key_message_ok:
  assumes "mg_inv n g" "key_action_ok (msg_action m)"
    and "\<And>g. mg_inv n g \<Longrightarrow> \<exists>g'. track_ctrl_left deliver (msg_action m)
      (ResolveKeyCode w (ucast (msg_wparam m)) (lparam_extended (msg_lparam m)) (lparam_scancode (msg_lparam m)))
      (lparam_scancode (msg_lparam m)) (lparam_extended (msg_lparam m)) g = Inr g' \<and> mg_inv n g'"
  obtains b g' where "handle_key_message deliver w m g = Inr (b, g')" "mg_inv n g'"
proof (cases "msg_wparam m = ucast VK_PACKET")
  case True
  then show thesis using assms(1) by (intro that [of False g]) (simp_all add: handle_key_message_def)
next
  case False
  let ?key = "ResolveKeyCode w (ucast (msg_wparam m)) (lparam_extended (msg_lparam m)) (lparam_scancode (msg_lparam m))"
  obtain e where e: "track_ctrl_left deliver (msg_action m) ?key (lparam_scancode (msg_lparam m)) (lparam_extended (msg_lparam m)) g = Inr e"
    "mg_inv n e" using assms(3) [OF assms(1)] by blast
  let ?e = "e\<lparr>mg_current_session := [m]\<rparr>"
  let ?ev = "\<lparr>me_key = ucast ?key, me_scancode = lparam_scancode (msg_lparam m), me_action = msg_action m, me_character = 0,
      me_extended = lparam_extended (msg_lparam m), me_was_down = lparam_was_down (msg_lparam m), me_session = [m]\<rparr>"
  have inv: "mg_inv n ?e" using e(2) by simp
  have "event_ok ?ev" using assms(2) by (simp add: event_ok_def UndeadChar_def)
  then obtain g' where g': "queue_event ?ev ?e = Inr g'" "mg_inv n g'" by (rule queue_event_ok [OF inv])
  let ?held = "w_map_vk_to_char w (ucast (msg_wparam m)) > 0 \<and>
      (msg_action m = WM_KEYDOWN \<or> msg_action m = WM_SYSKEYDOWN) \<and> char_follows w"
  have "handle_key_message deliver w m g = (if ?held then Inr (True, ?e) else Inr (\<not> IsSysAction (msg_action m), g'))"
    using False e(1) g'(1) by (cases ?held) (auto simp: handle_key_message_def Let_def)
  then show thesis using inv g'(2) by (cases ?held) (auto intro: that)
qed

lemma ctrl_left_up_extended: "\<not> lparam_extended (msg_lparam (ctrl_left_up sc))"
proof -
  have "\<not> bit (msg_lparam (ctrl_left_up sc)) 24"
    by (auto simp: ctrl_left_up_def bit_simps dest: bit_imp_le_length)
  then show ?thesis by (simp add: lparam_extended_def and_one_eq bit_iff_odd_drop_bit even_iff_mod_2_eq_zero)
qed


lemma remove_redispatched_none [simp]: "mg_inv n g \<Longrightarrow> RemoveRedispatchedMessage a wp g = None"
  by (simp add: mg_inv_def mg_base_def RemoveRedispatchedMessage_def)

lemma HandleMessage_with_ok:
  assumes "mg_inv n g" "win_ok w" "message_legal m"
    and "\<And>g. mg_inv n g \<Longrightarrow> key_action_ok (msg_action m) \<Longrightarrow> \<exists>g'. track_ctrl_left deliver (msg_action m)
      (ResolveKeyCode w (ucast (msg_wparam m)) (lparam_extended (msg_lparam m)) (lparam_scancode (msg_lparam m)))
      (lparam_scancode (msg_lparam m)) (lparam_extended (msg_lparam m)) g = Inr g' \<and> mg_inv n g'"
  obtains b g' where "HandleMessage_with deliver w m g = Inr (b, g')" "mg_inv n g'"
proof (cases "is_char_action (msg_action m)")
  case True
  then have "msg_wparam m < 0x10000" using assms(3) by (simp add: message_legal_def)
  from handle_char_message_ok [OF assms(1,2) this] obtain b g' where "handle_char_message w m g = Inr (b, g')" "mg_inv n g'" .
  then show thesis using True assms(1) by (intro that) (simp_all add: HandleMessage_with_def)
next
  case False
  then have key: "key_action_ok (msg_action m)" using assms(3) by (simp add: message_legal_def)
  obtain b g' where "handle_key_message deliver w m g = Inr (b, g')" "mg_inv n g'"
    by (rule handle_key_message_ok [OF assms(1) key]) (use assms(4) key in blast)
  then show thesis using False key assms(1) by (intro that) (simp_all add: HandleMessage_with_def)
qed

lemma forged_message_ok:
  assumes "mg_inv n g" "win_ok w"
  shows "\<exists>g'. rbind (HandleMessage_with (\<lambda>_ _. Inl Undefined) w (ctrl_left_up sc) g) (\<lambda>(_, g). Inr g) = Inr g' \<and> mg_inv n g'"
proof -
  have fields: "msg_action (ctrl_left_up sc) = WM_KEYUP" "msg_wparam (ctrl_left_up sc) = ucast VK_CONTROL"
    by (simp_all add: ctrl_left_up_def)
  have legal: "message_legal (ctrl_left_up sc)"
    by (simp add: fields message_legal_def is_char_action_def key_action_ok_def action_defs)
  obtain b g' where "HandleMessage_with (\<lambda>_ _. Inl Undefined) w (ctrl_left_up sc) g = Inr (b, g')" "mg_inv n g'"
  proof (rule HandleMessage_with_ok [OF assms legal])
    show "\<exists>g'. track_ctrl_left (\<lambda>_ _. Inl Undefined) (msg_action (ctrl_left_up sc))
        (ResolveKeyCode w (ucast (msg_wparam (ctrl_left_up sc))) (lparam_extended (msg_lparam (ctrl_left_up sc)))
          (lparam_scancode (msg_lparam (ctrl_left_up sc))))
        (lparam_scancode (msg_lparam (ctrl_left_up sc))) (lparam_extended (msg_lparam (ctrl_left_up sc))) g = Inr g' \<and> mg_inv n g'"
      if "mg_inv n g" for g
      using that by (simp add: track_ctrl_left_def Let_def ctrl_left_up_extended IsKeyDownAltRight_def IsKeyUpAltRight_def)
  qed
  then show ?thesis by auto
qed

lemma HandleMessage_ok:
  assumes "mg_inv n g" "win_ok w" "message_legal m"
  obtains b g' where "HandleMessage w m g = Inr (b, g')" "mg_inv n g'"
  unfolding HandleMessage_def
proof (rule HandleMessage_with_ok [OF assms])
  show "\<exists>g'. track_ctrl_left (\<lambda>m g. rbind (HandleMessage_with (\<lambda>_ _. Inl Undefined) w m g) (\<lambda>(_, g). Inr g)) (msg_action m)
      (ResolveKeyCode w (ucast (msg_wparam m)) (lparam_extended (msg_lparam m)) (lparam_scancode (msg_lparam m)))
      (lparam_scancode (msg_lparam m)) (lparam_extended (msg_lparam m)) g = Inr g' \<and> mg_inv n g'" if "mg_inv n g" for g
    by (rule track_ctrl_left_ok [OF that], rule forged_message_ok [OF _ assms(2)])
qed blast

section \<open>Answers\<close>

text \<open>A redispatched message comes back at once and is let through.\<close>

lemma redispatch_ok:
  assumes "mg_pending_redispatches g = []"
  shows "redispatch_messages w ms g =
    Inr (g\<lparr>mg_out := mg_out g @ map Call_Dispatch (filter (\<lambda>m. \<not> IsSysAction (msg_action m)) ms)\<rparr>)"
  using assms
  by (induction ms arbitrary: g) (simp_all add: HandleMessage_def HandleMessage_with_def RemoveRedispatchedMessage_def call_def)

lemma key_calls_dispatch [simp]: "key_calls (map Call_Dispatch ms) = []"
  by (induction ms) simp_all

lemma HandleOnKeyResult_ok:
  assumes "event_ok e" "mg_pending_redispatches g = []"
  obtains out where "HandleOnKeyResult w e b g = Inr (g\<lparr>mg_out := mg_out g @ out\<rparr>)" "key_calls out = []"
proof -
  let ?last = "msg_action (last (me_session e))"
  let ?ms = "map Call_Dispatch (filter (\<lambda>m. \<not> IsSysAction (msg_action m)) (me_session e))"
  have ne: "me_session e \<noteq> []" using assms(1) by (simp add: event_ok_def)
  consider "b \<or> IsSysAction ?last" | "\<not> b" "\<not> IsSysAction ?last" "?last = WM_CHAR" | "\<not> b" "\<not> IsSysAction ?last" "?last \<noteq> WM_CHAR"
    by blast
  then show thesis
  proof cases
    case 1
    then show thesis using ne by (intro that [of "[]"]) (auto simp: HandleOnKeyResult_def)
  next
    case 2
    then have "char_ok (me_character e)" using assms(1) by (simp add: event_ok_def split: if_splits)
    from DispatchText_ok [OF ne this, of g] show thesis
    proof cases
      case 1
      then show thesis using 2 ne assms(2)
        by (intro that [of ?ms]) (simp_all add: HandleOnKeyResult_def Let_def RedispatchEvent_def redispatch_ok)
    next
      case (2 s)
      then show thesis using \<open>\<not> b\<close> \<open>\<not> IsSysAction ?last\<close> \<open>?last = WM_CHAR\<close> ne assms(2)
        by (intro that [of "Call_OnText s # ?ms"])
          (simp_all add: HandleOnKeyResult_def Let_def RedispatchEvent_def redispatch_ok call_def)
    qed
  next
    case 3
    then show thesis using ne assms(2)
      by (intro that [of ?ms]) (simp_all add: HandleOnKeyResult_def Let_def RedispatchEvent_def redispatch_ok)
  qed
qed

lemma OnKey_callback_ok:
  assumes "mg_inv n g" "mg_in_flight g \<noteq> None"
  obtains g' where "OnKey_callback w b g = Inr g'" "mg_inv (Suc n) g'"
proof -
  obtain e where e: "mg_in_flight g = Some e" using assms(2) by blast
  let ?g = "g\<lparr>mg_in_flight := None\<rparr>"
  have ok: "event_ok e" "mg_pending_redispatches ?g = []" using assms(1) e by (simp_all add: mg_inv_def mg_base_def)
  obtain out where out: "HandleOnKeyResult w e b ?g = Inr (?g\<lparr>mg_out := mg_out ?g @ out\<rparr>)" "key_calls out = []"
    by (rule HandleOnKeyResult_ok [OF ok])
  let ?h = "?g\<lparr>mg_out := mg_out ?g @ out, mg_processing_event := False\<rparr>"
  have step: "OnKey_callback w b g = ProcessNextEvent ?h"
    using out(1) e assms(1) by (simp add: OnKey_callback_def mg_inv_def)
  obtain processed where p: "mg_queued g = processed @ mg_pending_events g" "key_calls (mg_out g) = filter is_key_event processed"
    using assms(1) by (auto simp: mg_inv_def mg_base_def)
  have facts: "\<forall>e\<in>set (mg_queued ?h). event_ok e" "mg_pending_redispatches ?h = []" "mg_in_flight ?h = None"
    "mg_queued ?h = processed @ mg_pending_events ?h" "key_calls (mg_out ?h) = filter is_key_event processed"
    "length (key_calls (mg_out ?h)) = Suc n"
    using assms(1) e p out(2) by (simp_all add: mg_inv_def mg_base_def)
  obtain g' where g': "process_events (mg_pending_events ?h) ?h = Inr g'" "mg_inv (Suc n) g'"
    by (rule process_events_ok [OF facts])
  show thesis
  proof (cases "mg_pending_events ?h = []")
    case True
    have "mg_inv (Suc n) ?h" using facts True unfolding mg_inv_def mg_base_def by simp
    with True show thesis using step by (intro that [of ?h]) (simp_all add: ProcessNextEvent_def)
  next
    case False
    then show thesis using g' step by (intro that [of g']) (simp_all add: ProcessNextEvent_def)
  qed
qed


section \<open>Executions\<close>

datatype mg_action = Window_message win32 Win32Message | Key_answer win32 bool

fun mg_step :: "mg_action \<Rightarrow> KeyboardManager \<Rightarrow> KeyboardManager result" where
  "mg_step (Window_message w m) g = rbind (HandleMessage w m g) (\<lambda>(_, g). Inr g)"
| "mg_step (Key_answer w b) g = OnKey_callback w b g"

fun mg_run :: "mg_action list \<Rightarrow> KeyboardManager \<Rightarrow> KeyboardManager result" where
  "mg_run [] g = Inr g"
| "mg_run (a # as) g = rbind (mg_step a g) (mg_run as)"

fun mg_action_ok :: "mg_action \<Rightarrow> bool" where
  "mg_action_ok (Window_message w m) \<longleftrightarrow> win_ok w \<and> message_legal m"
| "mg_action_ok (Key_answer w b) \<longleftrightarrow> True"

text \<open>A key call is answered once.\<close>

fun mg_legal :: "mg_action list \<Rightarrow> KeyboardManager \<Rightarrow> bool" where
  "mg_legal [] g = True"
| "mg_legal (a # as) g =
     ((case a of Window_message w m \<Rightarrow> True | Key_answer w b \<Rightarrow> mg_in_flight g \<noteq> None) \<and>
      (case mg_step a g of Inl e \<Rightarrow> True | Inr g' \<Rightarrow> mg_legal as g'))"

fun key_answers :: "mg_action list \<Rightarrow> nat" where
  "key_answers [] = 0"
| "key_answers (Window_message w m # as) = key_answers as"
| "key_answers (Key_answer w b # as) = Suc (key_answers as)"

lemma mg_run_inv:
  assumes "mg_inv n g" "mg_legal acts g" "list_all mg_action_ok acts"
  obtains g' where "mg_run acts g = Inr g'" "mg_inv (n + key_answers acts) g'"
  using assms
proof (induction acts arbitrary: n g thesis)
  case (Cons a acts)
  show thesis
  proof (cases a)
    case (Window_message w m)
    have ok: "win_ok w" "message_legal m" using Cons.prems(4) Window_message by simp_all
    obtain b e where e: "HandleMessage w m g = Inr (b, e)" "mg_inv n e" by (rule HandleMessage_ok [OF Cons.prems(2) ok])
    have "mg_legal acts e" using Cons.prems(3) Window_message e(1) by simp
    from Cons.IH [OF _ e(2) this] Cons.prems(1,4) Window_message e(1) show thesis by auto
  next
    case (Key_answer w b)
    have "mg_in_flight g \<noteq> None" using Cons.prems(3) Key_answer by simp
    then obtain e where e: "OnKey_callback w b g = Inr e" "mg_inv (Suc n) e" by (rule OnKey_callback_ok [OF Cons.prems(2)])
    have "mg_legal acts e" using Cons.prems(3) Key_answer e(1) by simp
    from Cons.IH [OF _ e(2) this] Cons.prems(1,4) Key_answer e(1) show thesis by auto
  qed
qed simp

lemma mg_inv_new: "mg_inv 0 KeyboardManager_new"
  by (simp add: mg_inv_def mg_base_def KeyboardManager_new_def)

lemma mg_inv_calls:
  assumes "mg_inv n g" "e \<in> set (key_calls (mg_out g))"
  shows "message_ok (call_message e)"
proof -
  obtain processed where "mg_queued g = processed @ mg_pending_events g" "key_calls (mg_out g) = filter is_key_event processed"
    using assms(1) by (auto simp: mg_inv_def mg_base_def)
  then have "e \<in> set (mg_queued g)" "is_key_event e" using assms(2) by auto
  moreover have "\<forall>e\<in>set (mg_queued g). event_ok e" using assms(1) by (simp add: mg_inv_def mg_base_def)
  ultimately show ?thesis by (auto simp: event_ok_def message_ok_def call_message_def)
qed

text \<open>
  C40: Whatever messages a window gets and however late the framework answers, no assertion of the keyboard
  manager fails; its key calls are made in the order in which the events were queued, with arguments
  that the key handler accepts, and each only after the answer to the one before; when no call waits for an answer
  no event is pending; and every message that was dispatched again has come back.
\<close>

theorem key_calls_in_order:
  assumes "list_all mg_action_ok acts" "mg_legal acts KeyboardManager_new"
  shows "\<exists>g processed. mg_run acts KeyboardManager_new = Inr g \<and>
    mg_queued g = processed @ mg_pending_events g \<and>
    key_calls (mg_out g) = filter (\<lambda>e. me_action e \<noteq> WM_CHAR) processed \<and>
    list_all (\<lambda>e. message_ok (call_message e)) (key_calls (mg_out g)) \<and>
    length (key_calls (mg_out g)) = key_answers acts + (if mg_in_flight g = None then 0 else 1) \<and>
    (mg_in_flight g \<noteq> None \<or> mg_pending_events g = []) \<and> mg_pending_redispatches g = []"
proof -
  obtain g where g: "mg_run acts KeyboardManager_new = Inr g" "mg_inv (0 + key_answers acts) g"
    by (rule mg_run_inv [OF mg_inv_new assms(2,1)])
  obtain processed where p: "mg_queued g = processed @ mg_pending_events g" "key_calls (mg_out g) = filter is_key_event processed"
    using g(2) by (auto simp: mg_inv_def mg_base_def)
  have "list_all (\<lambda>e. message_ok (call_message e)) (key_calls (mg_out g))"
    using mg_inv_calls [OF g(2)] by (simp add: list_all_iff)
  moreover have "mg_in_flight g \<noteq> None \<or> mg_pending_events g = []" using g(2) by (auto simp: mg_inv_def)
  ultimately show ?thesis using g p by (intro exI [of _ g] exI [of _ processed]) (simp add: mg_inv_def mg_base_def)
qed

text \<open>Control and the right Alt key of a layout with AltGr are pressed and released: the release of Control is forged.\<close>

definition alt_gr :: "mg_action list" where
  "alt_gr =
     (let w = \<lparr>w_map_vk_to_char = (\<lambda>_. 0), w_map_scan_to_vk = (\<lambda>_. 0), w_next_action = 0\<rparr>;
          msg = (\<lambda>action vk lparam. Window_message w \<lparr>msg_action = action, msg_wparam = ucast vk, msg_lparam = lparam\<rparr>)
      in [msg WM_KEYDOWN VK_CONTROL 0x001d0001, msg WM_SYSKEYDOWN VK_MENU 0x01380001, Key_answer w False, Key_answer w True,
          msg WM_KEYUP VK_MENU 0xC1380001])"

theorem key_calls_in_order_witness:
  "\<exists>g processed. mg_run alt_gr KeyboardManager_new = Inr g \<and>
    mg_queued g = processed @ mg_pending_events g \<and> length (key_calls (mg_out g)) = 3"
proof -
  have "mg_legal alt_gr KeyboardManager_new" by code_simp
  moreover have "list_all mg_action_ok alt_gr"
    by (simp add: alt_gr_def Let_def win_ok_def UndeadChar_def message_legal_def is_char_action_def key_action_ok_def action_defs)
  moreover have "key_answers alt_gr = 2" by (simp add: alt_gr_def Let_def)
  moreover have "(case mg_run alt_gr KeyboardManager_new of Inl e \<Rightarrow> False | Inr g \<Rightarrow> mg_in_flight g \<noteq> None)" by code_simp
  ultimately show ?thesis using key_calls_in_order [of alt_gr] by auto
qed


section \<open>Two departures from the comments\<close>

text \<open>The forged release is handled before the release of the right Alt key, not after it.\<close>

lemma control_released_first:
  "(case mg_run alt_gr KeyboardManager_new of
      Inl e \<Rightarrow> False
    | Inr g \<Rightarrow>
        map (\<lambda>e. (me_key e, me_action e)) (mg_queued g) =
          [(ucast VK_LCONTROL, WM_KEYDOWN), (ucast VK_RMENU, WM_SYSKEYDOWN), (ucast VK_LCONTROL, WM_KEYUP), (ucast VK_RMENU, WM_KEYUP)])"
  by code_simp

text \<open>A system character without a key down message is reported as handled, so that it is not forwarded.\<close>

lemma system_char_consumed:
  "HandleMessage w \<lparr>msg_action = WM_SYSCHAR, msg_wparam = 0x61, msg_lparam = 0\<rparr> KeyboardManager_new =
     Inr (True, KeyboardManager_new\<lparr>mg_current_session := [\<lparr>msg_action = WM_SYSCHAR, msg_wparam = 0x61, msg_lparam = 0\<rparr>]\<rparr>)"
  by (simp add: HandleMessage_def HandleMessage_with_def RemoveRedispatchedMessage_def KeyboardManager_new_def is_char_action_def
    handle_char_message_def IsHighSurrogate_def IsLowSurrogate_def end_char_session_def IsGeneralKeyDown_def action_defs)

end
