(* ===== verification/Spec2Isabelle.thy ===== *)
theory Spec2Isabelle
  imports Thread_Merger_Spec Pointer_Converter_Props Text_Input_Spec Standard_Codec_Spec Dl_Region_Props
    Rectangle_Packer Pipeline_Spec Frame_Timings_Spec Animator_Spec Dl_RTree_Spec Pointer_Dispatcher
    Base64 Command_Line Image_LRU Keyboard_Handler Keyboard_Manager_Spec
begin

text \<open>
  A verification library for the core logic of the Flutter engine (OpenHarmony branch), the C++ sources
  under \<open>src/\<close>.  Each modelled function is a definition with the name and the branches of the source;
  the theorems state what the callers of the component rely on.

  \<^bold>\<open>The program.\<close>  The engine runs four threads, each with a message loop, and turns vsync signals of
  the platform and input events into frames.  Tasks are kept in process-wide queues that can be merged,
  so that the raster thread's tasks run on the platform thread while a lease lasts (\<open>fml\<close>).  The animator
  asks for a vsync, builds a frame on the UI thread and commits it to a pipeline; the rasterizer consumes it
  (\<open>shell/common\<close>).  A recorder of timings travels with the frame (\<open>flow\<close>).  Pointer events of the embedder
  are normalised before the framework sees them (\<open>lib/ui/window\<close>); text input and channel messages go
  through code that the desktop embedders share (\<open>shell/platform/common\<close>).  Drawing operations are culled
  and consolidated with regions and an R-tree (\<open>display_list/geometry\<close>), and glyphs are placed in atlases by
  a rectangle packer (\<open>impeller/typographer\<close>).  On Windows, key messages pass a keyboard manager and a key
  handler, which turn them into key events (\<open>shell/platform/windows\<close>).

  \<^bold>\<open>Shared vocabulary.\<close>
  \<^item> \<open>Prelude\<close>: machine integers as words, the result type (\<open>Inl\<close> a fault: a failed \<open>FML_CHECK\<close> or
    \<open>FML_DCHECK\<close>, an exception, an access out of range), \<open>rbind\<close> and \<open>require\<close>, ordered maps and sets of the
    C++ library as sorted lists, and the collections of simplification rules.
  \<^item> \<open>Float64\<close>: \<open>double\<close> as 64 bits; \<open>Bytes\<close>: little-endian bytes; \<open>Unicode\<close>: UTF-8 and UTF-16 as
    \<open>fml/string_conversion.cc\<close> converts them.

  \<^bold>\<open>Task queues\<close> (\<open>fml/delayed_task\<close>, \<open>task_source\<close>, \<open>message_loop_task_queues\<close>; theories
  \<open>Task_Source\<close>, \<open>Task_Queues\<close> and its parts \<open>_Inv\<close>, \<open>_Ops\<close>, \<open>_Spec\<close>).  \<open>MessageLoopTaskQueues\<close> is a record with
  the entries, the queue counter and the order counter; every public function is an operation.  The
  priority queue is used through the locale \<open>prio_queue\<close>, interpreted for the sorted list of delayed
  tasks (\<open>dtq\<close>).  \<open>tq_step\<close> is a registration or a step of
  \<open>tq_other_step\<close>, which has a rule for each other operation; \<open>tq_run k\<close> makes \<open>k\<close> registrations.  In every reachable
  state owners and subsumed queues form a forest of depth one, the next task is a least pending one of the
  owner and its subsumed queues, and merging and unmerging keep every pending task; of two tasks registered
  for the same time the first is taken first, up to the wrap of the order counter.  \<open>TopTask\<close> refers into the
  heap, so the grade that \<open>GetNextTaskToRun\<close> records is read from the heap that the task has left.

  \<^bold>\<open>Thread mergers\<close> (\<open>fml/shared_thread_merger\<close>, \<open>raster_thread_merger\<close>; theories \<open>Thread_Merger\<close>,
  \<open>Thread_Merger_Spec\<close>).  Several mergers lease the same pair of queues.  What they need of the queues is the
  locale \<open>queue_pair\<close>, interpreted for \<open>Merge\<close> and \<open>Unmerge\<close> (\<open>tqp\<close>).  The queues are merged exactly while a
  lease is positive; leases run out; a decrement of a spent lease aborts when another merger is leased.

  \<^bold>\<open>Pointer events\<close> (\<open>lib/ui/window/pointer_data\<close>, \<open>pointer_data_packet\<close>,
  \<open>pointer_data_packet_converter\<close>; theories \<open>Pointer_Data\<close>, \<open>Pointer_Converter\<close>, \<open>_Spec\<close>, \<open>_Props\<close>).  The automaton
  \<open>accept1\<close> is the abstract specification of a legal event stream; the converter refines it for every input
  stream that passes its checks, and the checks it fails are characterised.

  \<^bold>\<open>Text input\<close> (\<open>shell/platform/common/text_range.h\<close>, \<open>text_editing_delta\<close>, \<open>text_input_model\<close>; theories
  \<open>Text_Input\<close>, \<open>_Inv\<close>, \<open>_Ops\<close>, \<open>_Surround\<close>, \<open>_Spec\<close>).  The model of the text is a list of UTF-16 units with
  exceptions of \<open>std::u16string\<close> as faults.  \<open>tim_call\<close> has every method that changes the model and \<open>call_ok\<close> its
  precondition; an example lemma shows for each precondition what the code does without it
  (\<open>rejected_set_text_throws\<close>, \<open>composing_range_wraps\<close>, \<open>selection_splits_pair\<close>, \<open>cursor_offset_throws\<close>,
  \<open>update_outside_composing_throws\<close>, \<open>delete_surrounding_before_text\<close>).  After any calls within them the text is
  well-formed, the ranges end between code points, and the next such call does not throw; Backspace and
  Delete act on whole code points, and \<open>DeleteSurrounding\<close> on the units that \<open>delete_surrounding_units\<close> says.

  \<^bold>\<open>Standard codec\<close> (\<open>shell/platform/common/client_wrapper\<close>; theories \<open>Byte_Streams\<close>, \<open>Standard_Codec\<close>,
  \<open>_Spec\<close>).  The locale \<open>stream_codec\<close> is the contract of a writer and a reader of one kind of value; it is
  interpreted for bytes, integers, doubles, sizes, vectors, strings and finally whole values
  (\<open>standard_value\<close>), which gives the round trips of messages and envelopes.  The registries hand out one
  codec per serializer.  \<open>ReadValue\<close> recurses on the
  nesting of the input and carries a bound; each level consumes a byte, so the bytes left are enough, and
  \<open>read_value_terminates\<close> shows that it returns on every input.

  \<^bold>\<open>Regions and R-tree\<close> (\<open>display_list/geometry/dl_region\<close>, \<open>dl_rtree\<close>; theories \<open>Dl_Region\<close> with
  \<open>_Inv\<close>, \<open>_Ops\<close>, \<open>_Spec\<close>, \<open>_Rects\<close>, \<open>_Props\<close>; \<open>Dl_RTree\<close>, \<open>Dl_RTree_Spec\<close>).  A region is refined to the set of
  points it covers: union, intersection and the intersection test are those of the sets, the sweep that builds
  a region from rectangles terminates with the union, and the rectangles of a region are disjoint and cover
  it.  The R-tree returns exactly the rectangles that meet a query, in order.  \<open>SkIRect\<close> and \<open>SkRect\<close> belong to
  Skia and are records of functions; \<open>SkIRect_docs\<close> and \<open>SkRect_docs\<close> state what Skia documents about them and
  are shown to hold of the concrete rectangles of the examples.  The loops of \<open>setRects\<close> and of the
  search are \<open>partial_function (option)\<close>; that they return is part of the theorems.

  \<^bold>\<open>Rectangle packer\<close> (\<open>impeller/typographer/rectangle_packer\<close>; theory \<open>Rectangle_Packer\<close>).  Placed
  rectangles never overlap and lie in the atlas.

  \<^bold>\<open>Frames\<close> (\<open>fml/synchronization/semaphore\<close>, \<open>shell/common/pipeline\<close>, \<open>flow/frame_timings\<close>,
  \<open>shell/common/vsync_waiter\<close>, \<open>shell/common/animator\<close>; theories \<open>Semaphore\<close>, \<open>Pipeline\<close>, \<open>Pipeline_Spec\<close>,
  \<open>Frame_Timings\<close>, \<open>Frame_Timings_Spec\<close>, \<open>Vsync_Waiter\<close>, \<open>Animator\<close>, \<open>Animator_Inv\<close>, \<open>Animator_Spec\<close>).
  \<^item> The semaphore satisfies the locale \<open>counting_semaphore\<close> (\<open>sem\<close>), on which the pipeline rests.
  \<^item> The pipeline's functions are cut into the blocks between which threads can interleave; \<open>pl_step\<close>
    interleaves any number of producers and consumers.  Frames are consumed once and in order, the queue
    never exceeds the depth, and an idle pipeline has lost no slot and no item.
  \<^item> The recorder accepts exactly the beginnings of the sequence of phases, and what is recorded is final.
  \<^item> The vsync waiter satisfies the locale \<open>one_shot_latch\<close> (\<open>vsync\<close>): one request to the platform per
    signal, whatever the number of waiting callbacks.
  \<^item> The animator composes the waiter, the recorder, the pipeline and the task source of the UI queue.
    \<open>aw_run\<close> runs any sequence of calls, posted tasks, vsync signals and consumptions: no check fails, there
    is exactly one frame request, an accepted request to regenerate stays until a frame begins, and a
    vsync task commits exactly the first layer tree rendered for each view.

  \<^bold>\<open>Pointer dispatcher\<close> (\<open>shell/common/pointer_data_dispatcher\<close>; theory \<open>Pointer_Dispatcher\<close>).  The dispatcher
  that smooths packets rests on the vsync waiter (\<open>pd_waiter\<close>); packets are delivered once and in order.

  \<^bold>\<open>Windows keyboard\<close> (\<open>shell/platform/windows/flutter_key_map.g.cc\<close>, \<open>keyboard_key_embedder_handler\<close>,
  \<open>keyboard_key_handler\<close>, \<open>keyboard_manager\<close>; theories \<open>Key_Map\<close>, \<open>Keyboard_Embedder\<close> with \<open>_Spec\<close> and \<open>_Stream\<close>,
  \<open>Keyboard_Handler\<close>, \<open>Keyboard_Manager\<close>, \<open>Keyboard_Manager_Spec\<close>).
  \<^item> \<open>framework_step\<close> is the automaton of legal key events: a key goes down when it is up, repeats and goes up
    when it is down, with the logical key it went down with.  With the argument \<open>False\<close> a synthesized up event
    may carry another logical key, with \<open>True\<close> it may not.  The events sent are always accepted with
    \<open>False\<close>, and with \<open>True\<close> when the messages are regular (\<open>kb_all_regular\<close>); \<open>up_with_another_logical_key\<close> shows why
    they have to be.
  \<^item> After a message the modifier and lock keys agree with \<open>GetKeyState\<close>, which is an argument.
  \<^item> The handler reports each event once, after the last reply of its delegates, and the manager makes its
    key calls one at a time and in order.

  \<^bold>\<open>Small libraries\<close>: base64 (\<open>shell/common/base64\<close>; theory \<open>Base64\<close>), the command line (\<open>fml/command_line\<close>;
  theory \<open>Command_Line\<close>), with a round trip each, and the image cache of OpenHarmony
  (\<open>shell/platform/ohos/image_lru\<close>; theory \<open>Image_LRU\<close>), which refines a list in the order of use.

  \<^bold>\<open>Conventions and limits.\<close>
  \<^item> Sizes of containers are naturals where the code cannot reach the limit of \<open>size_t\<close>; counters that the
    code lets wrap are words.  The pause counter of a task source, the position of the base64 decoder and the
    32-bit handles and sizes of span chunks do not wrap in the model: they hold for fewer than \<open>2 ^ 31\<close> pauses,
    characters and spans.  \<open>SkIRect_docs\<close> does not cover rectangles whose width or height overflows 32 bits.  Times are integers (nanoseconds).
  \<^item> \<open>FML_DCHECK\<close> is a fault, as in debug builds.  Mutexes make the modelled functions atomic, except in the
    pipeline, whose blocks interleave.  In the animator's world a consumption is one step, although the
    pipeline signals the free slot only after the consumer has returned, and the calls of several raster
    thread mergers interleave as whole operations, although each holds only its own mutex.
  \<^item> Unordered maps are lists in one order of their entries; no theorem relies on that order.
  \<^item> Map keys of encodable values that contain NaN are outside the codec's round trip, since the order of
    \<open>double\<close> is then not strict.
  \<^item> Tasks that the animator posts may run in any order, and the animator is alive when they run.
  \<^item> Log output and trace events are left out throughout.

  \<^bold>\<open>What the models showed.\<close>  Theorems state, among the correct behaviour, where the code departs from
  its intent: a spent lease aborts (\<open>spent_lease_aborts\<close>), deletion around the cursor miscounts surrogate pairs
  (\<open>delete_surrounding_units\<close>), the grade of a task is read through a dangling reference (\<open>next_task_least\<close>), a
  synthesized key event may carry another logical key than its press (\<open>up_with_another_logical_key\<close>), an empty vector is written without the alignment that the reader
  skips (\<open>empty_vector_skips\<close>), a region made from an empty rectangle or given one later is wrong
  (\<open>region_empty_rect\<close>), the packer loses space when it merges segments (\<open>packer_merge_loses_space\<close>), the
  pipeline's counter leaks on a bail (\<open>pipeline_idle\<close>), a clone of a recorder lacks the summary
  (\<open>clone_until_agrees\<close>), and drawing the last layer trees leaves \<open>frame_scheduled_\<close> set
  (\<open>reuse_leaves_scheduled\<close>).

  \<^bold>\<open>Not modelled.\<close>  The Impeller renderer and its backends, the display list operations and the
  flow layers (their behaviour is drawing through Skia or a GPU); the rasterizer, the shell and the engine (glue
  between threads, surfaces and the Dart runtime); the Dart bindings and the runtime; the platform
  embedders (calls of operating system interfaces) but for the shared code, the Windows keyboard and the image
  cache named above; assets and files; text layout (Skia's paragraph library).
  Of modelled files, the float query \<open>percentFull\<close> of the packer, trivial getters and the move
  constructors and destructors that C++ generates are left out, and a serializer that a client derives from the
  standard one is outside the model.
\<close>

end
